(* ===== verification/Sros_Prelude.thy ===== *)
theory Sros_Prelude
  imports Main "HOL-Library.Word"
begin

unbundle bit_operations_syntax

text \<open>
  The shared vocabulary of the development: the integer types of \<open>src/include/types.h\<close>, the
  lemma collections the component theories fill, and the facts on lists, slot searches and
  machine words that several components use.
\<close>

section \<open>Integer types\<close>

type_synonym u8 = "8 word"
type_synonym u16 = "16 word"
type_synonym u32 = "32 word"

text \<open>
  \<open>sros_inv\<close> collects the invariant-preservation lemmas and \<open>word_nat\<close> the facts that turn
  operations on words into operations on naturals.
\<close>

named_theorems sros_inv
named_theorems word_nat

section \<open>First matching slot\<close>

text \<open>
  Almost every table of the kernel is searched by the same loop: the first index whose entry
  satisfies a condition, or none. The C functions return -1 for none.
\<close>

primrec find_first :: "('a \<Rightarrow> bool) \<Rightarrow> 'a list \<Rightarrow> nat option" where
  "find_first P [] = None"
| "find_first P (x # xs) = (if P x then Some 0 else map_option Suc (find_first P xs))"

lemma find_first_Some_iff:
  "find_first P xs = Some i \<longleftrightarrow> i < length xs \<and> P (xs ! i) \<and> (\<forall>j<i. \<not> P (xs ! j))"
proof (induction xs arbitrary: i)
  case Nil
  then show ?case by simp
next
  case (Cons x xs)
  show ?case
  proof (cases i)
    case 0
    then show ?thesis by (auto split: option.splits)
  next
    case (Suc k)
    then show ?thesis by (auto simp: Cons.IH All_less_Suc2)
  qed
qed

lemma find_first_None_iff: "find_first P xs = None \<longleftrightarrow> (\<forall>x\<in>set xs. \<not> P x)"
  by (induction xs) auto

lemma find_first_SomeD:
  assumes "find_first P xs = Some i"
  shows "i < length xs" and "P (xs ! i)" and "\<And>j. j < i \<Longrightarrow> \<not> P (xs ! j)"
  using assms by (simp_all add: find_first_Some_iff)

lemma find_first_unique:
  assumes "i < length xs" "P (xs ! i)" "\<And>j. j < length xs \<Longrightarrow> P (xs ! j) \<Longrightarrow> j = i"
  shows "find_first P xs = Some i"
  unfolding find_first_Some_iff using assms(1,2) assms(3) [OF less_trans [OF _ assms(1)]]
  by blast

lemma find_first_map: "find_first P (map f xs) = find_first (\<lambda>x. P (f x)) xs"
  by (induction xs) auto

lemma find_append: "List.find P (xs @ ys) = (case List.find P xs of None \<Rightarrow> List.find P ys | Some x \<Rightarrow> Some x)"
  by (induction xs) auto

text \<open>The C result of such a search: the index, or -1.\<close>

definition slot_or_minus1 :: "nat option \<Rightarrow> int" where
  "slot_or_minus1 r = (case r of None \<Rightarrow> -1 | Some i \<Rightarrow> int i)"

lemma slot_or_minus1_simps [simp]:
  "slot_or_minus1 None = -1" "slot_or_minus1 (Some i) = int i"
  by (simp_all add: slot_or_minus1_def)

section \<open>Words and naturals\<close>

lemma unat_of_nat_u32 [word_nat]: "n < 4294967296 \<Longrightarrow> unat (of_nat n :: u32) = n"
  by (simp add: unat_of_nat take_bit_eq_mod)

lemma unat_u32_less [simp]: "unat (x :: u32) < 4294967296"
  using unsigned_less [of x] by simp

lemma of_nat_u32_inject:
  "a < 4294967296 \<Longrightarrow> b < 4294967296 \<Longrightarrow> (of_nat a :: u32) = of_nat b \<longleftrightarrow> a = b"
  by (metis unat_of_nat_u32)

lemma of_nat_u32_le:
  "a < 4294967296 \<Longrightarrow> b < 4294967296 \<Longrightarrow> (of_nat a :: u32) \<le> of_nat b \<longleftrightarrow> a \<le> b"
  by (simp add: word_le_nat_alt unat_of_nat_u32)

lemma of_nat_u32_less:
  "a < 4294967296 \<Longrightarrow> b < 4294967296 \<Longrightarrow> (of_nat a :: u32) < of_nat b \<longleftrightarrow> a < b"
  by (simp add: word_less_nat_alt unat_of_nat_u32)

lemma unat_and_minus_8 [word_nat]: "unat ((w :: u32) AND - 8) = unat w div 8 * 8"
proof -
  have m: "(- 8 :: u32) = NOT (mask 3)"
    by (simp add: mask_eq_exp_minus_1)
  have "w AND NOT (mask 3) = push_bit 3 (drop_bit 3 w)"
    by (rule bit_word_eqI) (auto simp: bit_simps)
  moreover have "unat (push_bit 3 (drop_bit 3 w)) = unat w div 8 * 8"
  proof -
    have "unat w div 8 * 8 < 4294967296"
      using unat_u32_less [of w] by linarith
    then show ?thesis
      by (simp add: push_bit_eq_mult unat_word_ariths unat_drop_bit_eq drop_bit_eq_div mult.commute)
  qed
  ultimately show ?thesis
    by (simp only: m)
qed

lemma ucast_u8_u32_u8 [simp]: "(ucast (ucast (b :: u8) :: u32) :: u8) = b"
  by (rule bit_word_eqI) (simp add: bit_simps)

lemma take_take_append: "take n (take n xs @ ys) = take n (xs @ ys)"
  by (cases "n \<le> length xs") simp_all

lemma unat_of_nat_u8 [word_nat]: "n < 256 \<Longrightarrow> unat (of_nat n :: u8) = n"
  by (simp add: unat_of_nat take_bit_eq_mod)

lemma nth_upd: "xs[i := x] ! j = (if i = j \<and> i < length xs then x else xs ! j)"
  by (cases "i < length xs") (auto simp: nth_list_update list_update_beyond)

text \<open>A row and a column from an index.\<close>

lemma row_col_unique:
  fixes p :: nat
  assumes "a * p + b = a' * p + b'" "b < p" "b' < p"
  shows "a = a'" and "b = b'"
proof -
  have "(a * p + b) div p = a" "(a' * p + b') div p = a'" "(a * p + b) mod p = b" "(a' * p + b') mod p = b'"
    using assms(2,3) by simp_all
  then show "a = a'" and "b = b'" using assms(1) by metis+
qed

end
