(* ===== verification/Sros_Memory.thy ===== *)
theory Sros_Memory
  imports Sros_Prelude
begin

unbundle bit_operations_syntax

text \<open>
  Byte-addressed memory of the 32-bit machine, with the little-endian 32-bit accesses that C code
  makes through \<open>u32 *\<close> pointers. Address arithmetic wraps at 4 GiB, as it does on the machine.
\<close>

type_synonym mem = "u32 \<Rightarrow> u8"

definition load32 :: "mem \<Rightarrow> u32 \<Rightarrow> u32" where
  "load32 m a = ucast (m a) OR push_bit 8 (ucast (m (a + 1)))
     OR push_bit 16 (ucast (m (a + 2))) OR push_bit 24 (ucast (m (a + 3)))"

definition store32 :: "mem \<Rightarrow> u32 \<Rightarrow> u32 \<Rightarrow> mem" where
  "store32 m a v = m(a := ucast v, a + 1 := ucast (drop_bit 8 v),
     a + 2 := ucast (drop_bit 16 v), a + 3 := ucast (drop_bit 24 v))"

text \<open>Two 32-bit accesses at \<open>a\<close> and \<open>b\<close> do not overlap.\<close>

definition apart :: "u32 \<Rightarrow> u32 \<Rightarrow> bool" where
  "apart a b \<longleftrightarrow> 4 \<le> b - a \<and> b - a \<le> 4294967292"

lemma le_bytes_u32:
  "(ucast (ucast v :: u8) OR push_bit 8 (ucast (ucast (drop_bit 8 v) :: u8))
     OR push_bit 16 (ucast (ucast (drop_bit 16 v) :: u8))
     OR push_bit 24 (ucast (ucast (drop_bit 24 v) :: u8)) :: u32) = v"
proof (rule bit_word_eqI)
  fix n
  assume n: "n < LENGTH(32)"
  then consider "n < 8" | "8 \<le> n" "n < 16" | "16 \<le> n" "n < 24" | "24 \<le> n" by linarith
  then show "bit (ucast (ucast v :: u8) OR push_bit 8 (ucast (ucast (drop_bit 8 v) :: u8))
     OR push_bit 16 (ucast (ucast (drop_bit 16 v) :: u8))
     OR push_bit 24 (ucast (ucast (drop_bit 24 v) :: u8)) :: u32) n = bit v n"
    using n by cases (auto simp: bit_simps)
qed

lemma add_small_neq:
  fixes a :: u32
  shows "a \<noteq> a + 1" "a \<noteq> a + 2" "a \<noteq> a + 3" "a + 1 \<noteq> a + 2" "a + 1 \<noteq> a + 3" "a + 2 \<noteq> a + 3"
  by simp_all

lemma load32_store32_same [simp]: "load32 (store32 m a v) a = v"
  by (simp add: load32_def store32_def le_bytes_u32)

lemma store32_other:
  assumes "4 \<le> x - a"
  shows "store32 m a v x = m x"
proof -
  have "x \<noteq> a + k" if "k < 4" for k
    using that assms by auto
  from this [of 0] this [of 1] this [of 2] this [of 3] show ?thesis
    by (simp add: store32_def)
qed

text \<open>An access of four bytes starting at least four bytes away from \<open>a\<close>, in both directions.\<close>

lemma apart_bytes:
  assumes "apart a b" and "k < 4"
  shows "4 \<le> (b + k) - a"
proof -
  have k: "unat k < 4" and d: "4 \<le> unat (b - a)" "unat (b - a) \<le> 4294967292"
    using assms by (simp_all add: apart_def word_le_nat_alt word_less_nat_alt)
  have "(b + k) - a = (b - a) + k" by simp
  moreover have "unat ((b - a) + k) = unat (b - a) + unat k"
    using k d by (simp add: unat_word_ariths)
  ultimately have "unat ((b + k) - a) = unat (b - a) + unat k" by (simp only:)
  then show ?thesis
    using d by (simp add: word_le_nat_alt)
qed

lemma load32_store32_apart [simp]: "apart a b \<Longrightarrow> load32 (store32 m a v) b = load32 m b"
  using apart_bytes [of a b 0] apart_bytes [of a b 1] apart_bytes [of a b 2] apart_bytes [of a b 3]
  by (simp add: load32_def store32_other)

lemma load32_cong:
  assumes "\<And>k. k < 4 \<Longrightarrow> m (a + k) = m' (a + k)"
  shows "load32 m a = load32 m' a"
  using assms [of 0] assms [of 1] assms [of 2] assms [of 3] by (simp add: load32_def)

section \<open>Natural-number addresses\<close>

text \<open>
  \<open>adr\<close> is the word of a natural-number address. It is kept folded, so that address arithmetic in
  proofs is arithmetic on naturals.
\<close>

definition adr :: "nat \<Rightarrow> u32" where
  "adr x = of_nat x"

lemma adr_add: "adr a + of_nat n = adr (a + n)"
  by (simp add: adr_def)

lemma adr_add_numeral [simp]: "adr a + numeral k = adr (a + numeral k)"
  by (simp add: adr_def)

lemma adr_diff: "n \<le> a \<Longrightarrow> adr a - of_nat n = adr (a - n)"
  by (simp add: adr_def of_nat_diff)

lemma adr_diff_numeral: "numeral k \<le> a \<Longrightarrow> adr a - numeral k = adr (a - numeral k)"
  by (simp add: adr_def of_nat_diff)

lemma unat_adr [word_nat]: "a < 4294967296 \<Longrightarrow> unat (adr a) = a"
  by (simp add: adr_def unat_of_nat_u32)

lemma adr_unat [simp]: "adr (unat w) = w"
  by (simp add: adr_def)

lemma adr_inject: "a < 4294967296 \<Longrightarrow> b < 4294967296 \<Longrightarrow> adr a = adr b \<longleftrightarrow> a = b"
  by (simp add: adr_def of_nat_u32_inject)

lemma adr_less: "a < 4294967296 \<Longrightarrow> b < 4294967296 \<Longrightarrow> adr a < adr b \<longleftrightarrow> a < b"
  by (simp add: adr_def of_nat_u32_less)

lemma adr_le: "a < 4294967296 \<Longrightarrow> b < 4294967296 \<Longrightarrow> adr a \<le> adr b \<longleftrightarrow> a \<le> b"
  by (simp add: adr_def of_nat_u32_le)

lemma unat_adr_diff:
  assumes "a < 4294967296" and "b < 4294967296"
  shows "unat (adr b - adr a) = (if a \<le> b then b - a else 4294967296 + b - a)"
  using assms by (auto simp: unat_sub_if' unat_adr)

lemma apart_nat:
  assumes "a + 4 \<le> b \<or> b + 4 \<le> a" and "a < 4294967293" and "b < 4294967293"
  shows "apart (adr a) (adr b)"
  using assms by (auto simp: apart_def word_le_nat_alt unat_adr_diff)

lemma store32_frame_nat:
  assumes "x < a \<or> a + 4 \<le> x" and "a < 4294967293" and "x < 4294967296"
  shows "store32 m (adr a) v (adr x) = m (adr x)"
  using assms by (intro store32_other) (auto simp: word_le_nat_alt unat_adr_diff)

end
