(* ===== verification/Sros_Kmalloc.thy ===== *)
theory Sros_Kmalloc
  imports Sros_Memory
begin

unbundle bit_operations_syntax

text \<open>
  The kernel heap of \<open>src/kernel/kmalloc.c\<close>: a boundary-tag allocator over 256 KiB at 2 MiB.
  The first part translates the macros and functions, on the byte memory of \<open>Sros_Memory\<close>; the
  second gives the block list that a well-formed heap represents, and the specification of
  allocation (first fit with splitting) and release (coalescing with both neighbours) on block
  lists that \<open>kmalloc\<close> and \<open>kfree\<close> implement.
\<close>

section \<open>The allocator\<close>

definition HEAP_START :: u32 where "HEAP_START = 0x200000"
definition HEAP_SIZE :: u32 where "HEAP_SIZE = 0x40000"
definition ALIGN :: u32 where "ALIGN = 8"
definition MIN_BLOCK :: u32 where "MIN_BLOCK = 16"
definition HEADER_SIZE :: u32 where "HEADER_SIZE = 4"

lemmas heap_consts = HEAP_START_def HEAP_SIZE_def ALIGN_def MIN_BLOCK_def HEADER_SIZE_def

definition BLOCK_SIZE :: "mem \<Rightarrow> u32 \<Rightarrow> u32" where
  "BLOCK_SIZE m hdr = load32 m hdr AND NOT 7"

definition BLOCK_IS_ALLOC :: "mem \<Rightarrow> u32 \<Rightarrow> bool" where
  "BLOCK_IS_ALLOC m hdr \<longleftrightarrow> load32 m hdr AND 1 \<noteq> 0"

definition BLOCK_SET_ALLOC :: "mem \<Rightarrow> u32 \<Rightarrow> mem" where
  "BLOCK_SET_ALLOC m hdr = store32 m hdr (load32 m hdr OR 1)"

definition BLOCK_SET_FREE :: "mem \<Rightarrow> u32 \<Rightarrow> mem" where
  "BLOCK_SET_FREE m hdr = store32 m hdr (load32 m hdr AND NOT 1)"

definition NEXT_BLOCK :: "mem \<Rightarrow> u32 \<Rightarrow> u32" where
  "NEXT_BLOCK m hdr = hdr + BLOCK_SIZE m hdr"

definition BLOCK_FOOTER :: "mem \<Rightarrow> u32 \<Rightarrow> u32" where
  "BLOCK_FOOTER m hdr = hdr + BLOCK_SIZE m hdr - HEADER_SIZE"

definition PREV_BLOCK :: "mem \<Rightarrow> u32 \<Rightarrow> u32" where
  "PREV_BLOCK m hdr = hdr - BLOCK_SIZE m (hdr - HEADER_SIZE)"

definition kmalloc_init :: "mem \<Rightarrow> mem" where
  "kmalloc_init m =
     (let m = store32 m HEAP_START HEAP_SIZE;
          m = store32 m (HEAP_START + HEAP_SIZE - HEADER_SIZE) HEAP_SIZE
      in store32 m (HEAP_START + HEAP_SIZE) 1)"

text \<open>The block size a request needs: header, payload rounded up to 8 bytes, footer.\<close>

definition need_size :: "u32 \<Rightarrow> u32" where
  "need_size sz =
     (let aligned_size = (sz + ALIGN - 1) AND NOT (ALIGN - 1);
          need = HEADER_SIZE + aligned_size + HEADER_SIZE
      in if need < MIN_BLOCK then MIN_BLOCK else need)"

text \<open>The branch of the search loop that has found a free block \<open>cur\<close> of size \<open>cur_size\<close>.\<close>

definition kmalloc_place :: "mem \<Rightarrow> u32 \<Rightarrow> u32 \<Rightarrow> u32 \<Rightarrow> mem" where
  "kmalloc_place m need cur cur_size =
     (let remaining = cur_size - need in
      if MIN_BLOCK \<le> remaining then
        (let m = store32 m cur need;
             m = BLOCK_SET_ALLOC m cur;
             m = store32 m (BLOCK_FOOTER m cur) need;
             m = BLOCK_SET_ALLOC m (BLOCK_FOOTER m cur);
             new_free = cur + need;
             m = store32 m new_free remaining
         in store32 m (BLOCK_FOOTER m new_free) remaining)
      else
        (let m = store32 m cur cur_size;
             m = BLOCK_SET_ALLOC m cur;
             m = store32 m (BLOCK_FOOTER m cur) cur_size
         in BLOCK_SET_ALLOC m (BLOCK_FOOTER m cur)))"

text \<open>
  The \<open>while (1)\<close> search. Over a memory whose tags form a cycle it never ends, which is the
  value \<open>None\<close>; \<open>Some (0, m)\<close> is the null result.
\<close>

partial_function (option) kmalloc_loop :: "mem \<Rightarrow> u32 \<Rightarrow> u32 \<Rightarrow> (u32 \<times> mem) option" where
  "kmalloc_loop m need cur =
     (let cur_size = BLOCK_SIZE m cur in
      if cur_size = 0 then Some (0, m)
      else if \<not> BLOCK_IS_ALLOC m cur \<and> need \<le> cur_size
      then Some (cur + HEADER_SIZE, kmalloc_place m need cur cur_size)
      else kmalloc_loop m need (NEXT_BLOCK m cur))"

definition kmalloc :: "mem \<Rightarrow> u32 \<Rightarrow> (u32 \<times> mem) option" where
  "kmalloc m sz = (if sz = 0 then Some (0, m) else kmalloc_loop m (need_size sz) HEAP_START)"

definition kfree :: "mem \<Rightarrow> u32 \<Rightarrow> mem" where
  "kfree m ptr =
     (if ptr = 0 then m
      else
        (let hdr = ptr - HEADER_SIZE;
             m = BLOCK_SET_FREE m hdr;
             m = store32 m (BLOCK_FOOTER m hdr) (load32 m hdr);
             nxt = NEXT_BLOCK m hdr;
             m = (if 0 < BLOCK_SIZE m nxt \<and> \<not> BLOCK_IS_ALLOC m nxt
                  then (let new_size = BLOCK_SIZE m hdr + BLOCK_SIZE m nxt;
                            m = store32 m hdr new_size
                        in store32 m (BLOCK_FOOTER m hdr) new_size)
                  else m)
         in if HEAP_START < hdr
            then (let prev = PREV_BLOCK m hdr in
                  if \<not> BLOCK_IS_ALLOC m prev
                  then (let new_size = BLOCK_SIZE m prev + BLOCK_SIZE m hdr;
                            m = store32 m prev new_size
                        in store32 m (BLOCK_FOOTER m prev) new_size)
                  else m)
            else m))"

text \<open>
  The heap report: the printed line of each block (address, size, allocated) and the totals, in
  the order the loop accumulates them.
\<close>

record heap_report =
  lines :: "(u32 \<times> u32 \<times> bool) list"
  blocks :: int
  total_alloc :: u32
  total_free :: u32

partial_function (option) kmalloc_dump_loop ::
  "mem \<Rightarrow> u32 \<Rightarrow> heap_report \<Rightarrow> heap_report option" where
  "kmalloc_dump_loop m cur r =
     (let cur_size = BLOCK_SIZE m cur in
      if cur_size = 0 then Some r
      else kmalloc_dump_loop m (NEXT_BLOCK m cur)
        (let r = r\<lparr>lines := lines r @ [(cur, cur_size, BLOCK_IS_ALLOC m cur)],
                   blocks := blocks r + 1\<rparr>
         in if BLOCK_IS_ALLOC m cur then r\<lparr>total_alloc := total_alloc r + cur_size\<rparr>
            else r\<lparr>total_free := total_free r + cur_size\<rparr>))"

definition kmalloc_dump :: "mem \<Rightarrow> heap_report option" where
  "kmalloc_dump m = kmalloc_dump_loop m HEAP_START
     \<lparr>lines = [], blocks = 0, total_alloc = 0, total_free = 0\<rparr>"

section \<open>The block list of a heap\<close>

text \<open>A block is its size in bytes (tags included) and whether it is allocated.\<close>

type_synonym blk = "nat \<times> bool"

definition tag :: "nat \<Rightarrow> bool \<Rightarrow> u32" where
  "tag n al = of_nat (if al then n + 1 else n)"

text \<open>
  A block at address \<open>a\<close>: equal header and footer, a size that is a multiple of 8 and at least 16.
  \<open>seg\<close> is a run of adjacent blocks.
\<close>

definition blk_at :: "mem \<Rightarrow> nat \<Rightarrow> nat \<Rightarrow> bool \<Rightarrow> bool" where
  "blk_at m a n al \<longleftrightarrow> 16 \<le> n \<and> 8 dvd n
     \<and> load32 m (adr a) = tag n al \<and> load32 m (adr (a + n - 4)) = tag n al"

fun seg :: "mem \<Rightarrow> nat \<Rightarrow> blk list \<Rightarrow> bool" where
  "seg m a [] \<longleftrightarrow> True"
| "seg m a ((n, al) # bs) \<longleftrightarrow> blk_at m a n al \<and> seg m (a + n) bs"

definition blk_sum :: "blk list \<Rightarrow> nat" where
  "blk_sum bs = sum_list (map fst bs)"

fun no_free_pair :: "blk list \<Rightarrow> bool" where
  "no_free_pair ((n, al) # (k, bl) # bs) \<longleftrightarrow> (al \<or> bl) \<and> no_free_pair ((k, bl) # bs)"
| "no_free_pair bs \<longleftrightarrow> True"

text \<open>
  The heap invariant: the blocks tile the heap, the epilogue follows the last one, and no two
  free blocks are adjacent.
\<close>

definition heap_inv :: "mem \<Rightarrow> blk list \<Rightarrow> bool" where
  "heap_inv m bs \<longleftrightarrow> seg m 0x200000 bs \<and> load32 m (adr 0x240000) = 1
     \<and> blk_sum bs = 0x40000 \<and> no_free_pair bs"

text \<open>Allocation on block lists: the first free block that is large enough, split if worthwhile.\<close>

fun alloc_spec :: "nat \<Rightarrow> nat \<Rightarrow> blk list \<Rightarrow> (nat \<times> blk list) option" where
  "alloc_spec need a [] = None"
| "alloc_spec need a ((n, al) # bs) =
     (if \<not> al \<and> need \<le> n
      then Some (a + 4, if 16 \<le> n - need then (need, True) # (n - need, False) # bs
                        else (n, True) # bs)
      else map_option (\<lambda>(p, bs'). (p, (n, al) # bs')) (alloc_spec need (a + n) bs))"

text \<open>Release on block lists: the block and its free neighbours become one free block.\<close>

definition merge_next :: "nat \<Rightarrow> blk list \<Rightarrow> blk list" where
  "merge_next n ys = (case ys of (k, False) # zs \<Rightarrow> (n + k, False) # zs | _ \<Rightarrow> (n, False) # ys)"

definition free_spec :: "blk list \<Rightarrow> nat \<Rightarrow> blk list \<Rightarrow> blk list" where
  "free_spec xs n ys =
     (if xs \<noteq> [] \<and> \<not> snd (last xs)
      then butlast xs @ (fst (last xs) + fst (hd (merge_next n ys)), False) # tl (merge_next n ys)
      else xs @ merge_next n ys)"

end
