(* ===== verification/Sros_Heap.thy ===== *)
theory Sros_Heap
  imports Sros_Kmalloc
begin

unbundle bit_operations_syntax

text \<open>
  The proofs for the kernel heap: every tag update of the allocator writes one whole block, the
  search loop of \<open>kmalloc\<close> finds what first fit on the block list finds, the two coalescing steps
  of \<open>kfree\<close> merge the freed block with its free neighbours, and all changes stay within the
  blocks concerned.
\<close>

section \<open>Auxiliary notions\<close>

text \<open>The effect of every tag update of the allocator: a header and an equal footer.\<close>

definition put_blk :: "mem \<Rightarrow> nat \<Rightarrow> nat \<Rightarrow> bool \<Rightarrow> mem" where
  "put_blk m a n al = store32 (store32 m (adr a) (tag n al)) (adr (a + n - 4)) (tag n al)"

text \<open>Blocks within the first 16 MiB, where no address computation wraps.\<close>

definition blk_ok :: "nat \<Rightarrow> nat \<Rightarrow> bool" where
  "blk_ok a n \<longleftrightarrow> 16 \<le> n \<and> 8 dvd n \<and> a + n \<le> 0x800000"

text \<open>A run of blocks depends only on the bytes it covers.\<close>

definition same_bytes :: "mem \<Rightarrow> mem \<Rightarrow> nat \<Rightarrow> nat \<Rightarrow> bool" where
  "same_bytes m m' lo hi \<longleftrightarrow> (\<forall>x. lo \<le> x \<and> x < hi \<longrightarrow> m' (adr x) = m (adr x))"

text \<open>All changes between two memories lie in an address range.\<close>

definition changed_within :: "mem \<Rightarrow> mem \<Rightarrow> nat \<Rightarrow> nat \<Rightarrow> bool" where
  "changed_within m m' lo hi \<longleftrightarrow> (\<forall>x < 4294967296. x < lo \<or> hi \<le> x \<longrightarrow> m' (adr x) = m (adr x))"

text \<open>
  \<open>alloc_step m a bs p bs' m'\<close>: from a heap segment \<open>bs\<close> at \<open>a\<close> in \<open>m\<close>, memory \<open>m'\<close> holds the
  segment \<open>bs'\<close> of the same extent, \<open>p\<close> is the payload of a block that was free, and \<open>m'\<close>
  differs from \<open>m\<close> only within that block.
\<close>

definition alloc_step :: "mem \<Rightarrow> nat \<Rightarrow> blk list \<Rightarrow> nat \<Rightarrow> blk list \<Rightarrow> mem \<Rightarrow> bool" where
  "alloc_step m a bs p bs' m' \<longleftrightarrow> seg m' a bs' \<and> blk_sum bs' = blk_sum bs
     \<and> (\<exists>xs n ys. bs = xs @ (n, False) # ys \<and> p = a + blk_sum xs + 4
        \<and> changed_within m m' (a + blk_sum xs) (a + blk_sum xs + n))"

text \<open>The two coalescing steps of \<open>kfree\<close>, named.\<close>

definition kfree_next :: "mem \<Rightarrow> u32 \<Rightarrow> mem" where
  "kfree_next m hdr =
     (let nxt = NEXT_BLOCK m hdr in
      if 0 < BLOCK_SIZE m nxt \<and> \<not> BLOCK_IS_ALLOC m nxt
      then (let new_size = BLOCK_SIZE m hdr + BLOCK_SIZE m nxt;
                m = store32 m hdr new_size
            in store32 m (BLOCK_FOOTER m hdr) new_size)
      else m)"

definition kfree_prev :: "mem \<Rightarrow> u32 \<Rightarrow> mem" where
  "kfree_prev m hdr =
     (if HEAP_START < hdr
      then (let prev = PREV_BLOCK m hdr in
            if \<not> BLOCK_IS_ALLOC m prev
            then (let new_size = BLOCK_SIZE m prev + BLOCK_SIZE m hdr;
                      m = store32 m prev new_size
                  in store32 m (BLOCK_FOOTER m prev) new_size)
            else m)
      else m)"

text \<open>The bytes of the allocated blocks, tags included.\<close>

fun owned :: "nat \<Rightarrow> blk list \<Rightarrow> nat set" where
  "owned a [] = {}"
| "owned a ((n, al) # bs) = (if al then {a..<a + n} else {}) \<union> owned (a + n) bs"

definition free_lo :: "blk list \<Rightarrow> nat" where
  "free_lo xs = (if xs \<noteq> [] \<and> \<not> snd (last xs) then 0x200000 + blk_sum (butlast xs) else 0x200000 + blk_sum xs)"

section \<open>Tags and single blocks\<close>

lemma store32_store32 [simp]: "store32 (store32 m a v) a w = store32 m a w"
  by (rule ext) (simp add: store32_def)

lemma even_u32_bit1:
  assumes "even (w :: u32)"
  shows "w OR 1 = w + 1" and "(w + 1) AND - 2 = w"
proof -
  show or1: "w OR 1 = w + 1"
    using assms by (simp add: or_one_eq)
  have "(w OR 1) AND NOT 1 = w"
    using assms by (intro bit_word_eqI) (auto simp: bit_simps bit_1_iff even_bit_succ_iff bit_0 intro: gr0I)
  then show "(w + 1) AND - 2 = w"
    by (simp add: or1)
qed

lemma even_of_nat_u32: "even n \<Longrightarrow> even (of_nat n :: u32)"
  by (auto elim!: evenE)

lemma tag_props:
  assumes "8 dvd n" and "n < 0x1000000"
  shows "tag n al AND - 8 = of_nat n" and "tag n al AND 1 = 0 \<longleftrightarrow> \<not> al"
    and "tag n False OR 1 = tag n True" and "tag n al AND - 2 = tag n False"
    and "tag n False = of_nat n"
proof -
  obtain k where n: "n = 8 * k" using assms(1) by blast
  have u: "unat (tag n al) = (if al then n + 1 else n)"
    using assms(2) by (simp add: tag_def unat_of_nat_u32)
  have "unat (tag n al AND - 8) = n"
    unfolding unat_and_minus_8 u using assms(1) by (cases al; simp; presburger)
  then show "tag n al AND - 8 = of_nat n"
    using assms(2) by (simp add: word_unat_eq_iff unat_of_nat_u32)
  have ev: "even (of_nat n :: u32)"
    by (rule even_of_nat_u32) (simp add: n)
  then show "tag n al AND 1 = 0 \<longleftrightarrow> \<not> al"
    by (simp add: tag_def and_one_eq mod_2_eq_odd)
  show "tag n False OR 1 = tag n True"
    using even_u32_bit1 [OF ev] by (simp add: tag_def add.commute)
  show "tag n al AND - 2 = tag n False"
  proof (cases al)
    case True
    then show ?thesis using even_u32_bit1(2) [OF ev] by (simp add: tag_def add.commute)
  next
    case False
    have "of_nat n AND NOT (1 :: u32) = of_nat n"
      using ev by (intro bit_word_eqI) (auto simp: bit_simps bit_1_iff bit_0 intro: gr0I)
    with False show ?thesis by (simp add: tag_def)
  qed
  show "tag n False = of_nat n"
    by (simp add: tag_def)
qed

section \<open>Writing one block\<close>

lemma blk_okD:
  assumes "blk_ok a n"
  shows "16 \<le> n" "8 dvd n" "a + n \<le> 0x800000" "n < 0x1000000" "a < 0x800000"
    "apart (adr a) (adr (a + n - 4))" "apart (adr (a + n - 4)) (adr a)"
  using assms unfolding blk_ok_def by (auto intro!: apart_nat)

lemma blk_at_put: "blk_ok a n \<Longrightarrow> blk_at (put_blk m a n al) a n al"
  by (simp add: blk_at_def put_blk_def blk_okD)

lemma put_blk_frame:
  assumes "blk_ok a n" and "x < a \<or> a + n \<le> x" and "x < 4294967296"
  shows "put_blk m a n al (adr x) = m (adr x)"
proof -
  note b = blk_okD [OF assms(1)]
  have "x < a + n - 4 \<or> a + n - 4 + 4 \<le> x" "x < a \<or> a + 4 \<le> x"
    using assms(2) b(1) by auto
  then show ?thesis
    using b assms(3) by (simp add: put_blk_def store32_frame_nat)
qed

text \<open>Reading the tags of a block that is there.\<close>

lemma blk_at_reads:
  assumes "blk_at m a n al" and "blk_ok a n"
  shows "BLOCK_SIZE m (adr a) = of_nat n" and "BLOCK_IS_ALLOC m (adr a) \<longleftrightarrow> al"
    and "NEXT_BLOCK m (adr a) = adr (a + n)" and "BLOCK_FOOTER m (adr a) = adr (a + n - 4)"
    and "BLOCK_SIZE m (adr (a + n - 4)) = of_nat n"
    and "load32 m (adr a) = tag n al"
proof -
  note b = blk_okD [OF assms(2)]
  show 1: "load32 m (adr a) = tag n al" and 2: "BLOCK_SIZE m (adr (a + n - 4)) = of_nat n"
    using assms(1) b by (simp_all add: blk_at_def BLOCK_SIZE_def tag_props)
  then show 3: "BLOCK_SIZE m (adr a) = of_nat n" and "BLOCK_IS_ALLOC m (adr a) \<longleftrightarrow> al"
    using b by (simp_all add: BLOCK_SIZE_def BLOCK_IS_ALLOC_def tag_props)
  then show "NEXT_BLOCK m (adr a) = adr (a + n)" and "BLOCK_FOOTER m (adr a) = adr (a + n - 4)"
    using b by (simp_all add: NEXT_BLOCK_def BLOCK_FOOTER_def adr_add HEADER_SIZE_def adr_diff_numeral)
qed

text \<open>The tag writes of \<open>kmalloc\<close> and \<open>kfree\<close>, each as one block written.\<close>

lemma write_alloc_block:
  assumes "blk_ok a n"
  shows "(let m = store32 m (adr a) (of_nat n); m = BLOCK_SET_ALLOC m (adr a);
              m = store32 m (BLOCK_FOOTER m (adr a)) (of_nat n)
          in BLOCK_SET_ALLOC m (BLOCK_FOOTER m (adr a))) = put_blk m a n True"
proof -
  note b = blk_okD [OF assms]
  have f: "BLOCK_FOOTER (store32 m' (adr a) (tag n True)) (adr a) = adr (a + n - 4)" for m'
    using b by (simp add: BLOCK_FOOTER_def BLOCK_SIZE_def tag_props adr_add HEADER_SIZE_def
        adr_diff_numeral)
  have g: "BLOCK_FOOTER (store32 (store32 m' (adr a) (tag n True)) (adr (a + n - 4)) v) (adr a)
      = adr (a + n - 4)" for m' v
    using b by (simp add: BLOCK_FOOTER_def BLOCK_SIZE_def tag_props adr_add HEADER_SIZE_def
        adr_diff_numeral)
  show ?thesis
    using b by (simp add: Let_def BLOCK_SET_ALLOC_def put_blk_def f g tag_props(3)
        flip: tag_props(5))
qed

lemma write_free_block:
  assumes "blk_ok a n"
  shows "store32 (store32 m (adr a) (of_nat n))
      (BLOCK_FOOTER (store32 m (adr a) (of_nat n)) (adr a)) (of_nat n) = put_blk m a n False"
proof -
  note b = blk_okD [OF assms]
  have "BLOCK_FOOTER (store32 m (adr a) (tag n False)) (adr a) = adr (a + n - 4)"
    using b by (simp add: BLOCK_FOOTER_def BLOCK_SIZE_def tag_props(1) adr_add HEADER_SIZE_def
        adr_diff_numeral)
  then show ?thesis
    using b by (simp add: put_blk_def tag_props(5))
qed

section \<open>Runs of blocks\<close>

lemma blk_sum_simps [simp]:
  "blk_sum [] = 0" "blk_sum (b # bs) = fst b + blk_sum bs" "blk_sum (xs @ ys) = blk_sum xs + blk_sum ys"
  by (simp_all add: blk_sum_def)

lemma seg_append [simp]: "seg m a (xs @ ys) \<longleftrightarrow> seg m a xs \<and> seg m (a + blk_sum xs) ys"
  by (induction xs arbitrary: a) (auto simp: add.assoc)

lemma same_bytes_mono: "same_bytes m m' lo hi \<Longrightarrow> lo \<le> lo' \<Longrightarrow> hi' \<le> hi \<Longrightarrow> same_bytes m m' lo' hi'"
  by (simp add: same_bytes_def)

lemma load32_same:
  assumes "same_bytes m m' a (a + 4)"
  shows "load32 m' (adr a) = load32 m (adr a)"
proof (rule load32_cong)
  fix k :: u32
  assume "k < 4"
  then have "unat k < 4" by (simp add: word_less_nat_alt)
  moreover have "adr a + k = adr (a + unat k)"
    using adr_add [of a "unat k"] by simp
  ultimately show "m' (adr a + k) = m (adr a + k)"
    using assms by (simp add: same_bytes_def)
qed

lemma blk_at_same:
  assumes "same_bytes m m' a (a + n)" and "blk_at m a n al"
  shows "blk_at m' a n al"
proof -
  have "16 \<le> n" using assms(2) by (simp add: blk_at_def)
  then have "same_bytes m m' a (a + 4)" "same_bytes m m' (a + n - 4) (a + n - 4 + 4)"
    using assms(1) by (auto elim: same_bytes_mono)
  then show ?thesis
    using assms(2) by (simp add: blk_at_def load32_same)
qed

lemma seg_same: "same_bytes m m' a (a + blk_sum bs) \<Longrightarrow> seg m a bs \<Longrightarrow> seg m' a bs"
proof (induction m a bs rule: seg.induct)
  case (2 m a n al bs)
  have "same_bytes m m' a (a + n)" "same_bytes m m' (a + n) (a + n + blk_sum bs)"
    using "2.prems"(1) by (auto elim: same_bytes_mono)
  then show ?case
    using "2.prems"(2) "2.IH" by (auto intro: blk_at_same)
qed simp

lemma put_blk_same:
  "blk_ok a n \<Longrightarrow> hi \<le> a \<or> a + n \<le> lo \<Longrightarrow> hi \<le> 4294967296 \<Longrightarrow> same_bytes m (put_blk m a n al) lo hi"
  by (auto simp: same_bytes_def intro!: put_blk_frame)

lemma changed_within_refl [simp]: "changed_within m m lo hi"
  by (simp add: changed_within_def)

lemma changed_within_trans:
  "changed_within m m' lo hi \<Longrightarrow> changed_within m' m'' lo hi \<Longrightarrow> changed_within m m'' lo hi"
  by (simp add: changed_within_def)

lemma changed_within_mono:
  "changed_within m m' lo hi \<Longrightarrow> lo' \<le> lo \<Longrightarrow> hi \<le> hi' \<Longrightarrow> changed_within m m' lo' hi'"
  by (simp add: changed_within_def)

lemma changed_within_put: "blk_ok a n \<Longrightarrow> changed_within m (put_blk m a n al) a (a + n)"
  by (simp add: changed_within_def put_blk_frame)

lemma changed_within_same:
  "changed_within m m' lo hi \<Longrightarrow> b \<le> lo \<or> hi \<le> a \<Longrightarrow> b \<le> 4294967296 \<Longrightarrow> same_bytes m m' a b"
  by (auto simp: changed_within_def same_bytes_def)

lemma seg_blk_ok:
  assumes "seg m a (xs @ (n, al) # ys)" and "a + blk_sum (xs @ (n, al) # ys) \<le> 0x800000"
  shows "blk_ok (a + blk_sum xs) n"
  using assms by (auto simp: blk_ok_def blk_at_def)

section \<open>The invariant under init and allocation\<close>

lemma heap_init: "heap_inv (kmalloc_init m) [(0x40000, False)]"
proof -
  have ok: "blk_ok 0x200000 0x40000" by (simp add: blk_ok_def)
  have eq: "kmalloc_init m = store32 (put_blk m 0x200000 0x40000 False) (adr 0x240000) 1"
    by (simp add: kmalloc_init_def heap_consts put_blk_def adr_def tag_def)
  have "same_bytes (put_blk m 0x200000 0x40000 False) (kmalloc_init m) 0x200000 (0x200000 + 0x40000)"
    unfolding eq same_bytes_def by (auto intro!: store32_frame_nat)
  then have "blk_at (kmalloc_init m) 0x200000 0x40000 False"
    using blk_at_put [OF ok] by (rule blk_at_same)
  then show ?thesis
    by (simp add: heap_inv_def eq)
qed

lemma place_eq:
  assumes "blk_ok a n" and "16 \<le> k" and "8 dvd k" and "k \<le> n"
  shows "kmalloc_place m (of_nat k) (adr a) (of_nat n) =
    (if 16 \<le> n - k then put_blk (put_blk m a k True) (a + k) (n - k) False else put_blk m a n True)"
proof -
  note b = blk_okD [OF assms(1)]
  have rem: "(of_nat n - of_nat k :: u32) = of_nat (n - k)"
    using assms(4) by (simp add: of_nat_diff)
  have le: "MIN_BLOCK \<le> (of_nat (n - k) :: u32) \<longleftrightarrow> 16 \<le> n - k"
    using b(4) by (simp add: MIN_BLOCK_def word_le_nat_alt unat_of_nat_u32)
  have ok: "blk_ok a k" "16 \<le> n - k \<Longrightarrow> blk_ok (a + k) (n - k)"
    using assms by (auto simp: blk_ok_def)
  show ?thesis
  proof (cases "16 \<le> n - k")
    case True
    then show ?thesis
      unfolding kmalloc_place_def rem Let_def le
      using write_alloc_block [OF ok(1), of m] write_free_block [OF ok(2) [OF True], of "put_blk m a k True"]
      by (simp add: Let_def adr_add)
  next
    case False
    then show ?thesis
      unfolding kmalloc_place_def rem Let_def le
      using write_alloc_block [OF assms(1), of m] by (simp add: Let_def)
  qed
qed

lemma need_size_nat:
  assumes "sz \<noteq> 0" and "sz \<le> 4294967280"
  shows "unat (need_size sz) = (unat sz + 7) div 8 * 8 + 8"
proof -
  have s: "unat sz \<le> 4294967280" and "0 < unat sz"
    using assms by (auto simp: word_le_nat_alt unat_gt_0)
  have a: "unat (sz + ALIGN - 1) = unat sz + 7"
    using s by (simp add: ALIGN_def unat_word_ariths)
  have "unat ((sz + ALIGN - 1) AND NOT (ALIGN - 1)) = (unat sz + 7) div 8 * 8"
    using unat_and_minus_8 [of "sz + ALIGN - 1"] unfolding a by (simp add: ALIGN_def)
  moreover have "(unat sz + 7) div 8 * 8 + 8 < 4294967296"
    using s by linarith
  moreover have "8 \<le> (unat sz + 7) div 8 * 8"
    using div_le_mono [of 8 "unat sz + 7" 8] \<open>0 < unat sz\<close> by simp
  ultimately show ?thesis
    by (simp add: need_size_def Let_def HEADER_SIZE_def MIN_BLOCK_def unat_word_ariths
        word_less_nat_alt)
qed

lemma place_alloc_step:
  assumes "blk_ok a n" and "seg m (a + n) bs" and "a + n + blk_sum bs \<le> 0x700000"
    and "16 \<le> k" and "8 dvd k" and "k \<le> n"
  shows "alloc_step m a ((n, False) # bs) (a + 4)
    (if 16 \<le> n - k then (k, True) # (n - k, False) # bs else (n, True) # bs)
    (kmalloc_place m (of_nat k) (adr a) (of_nat n))" (is "alloc_step _ _ _ _ ?bs' ?m'")
proof -
  have place: "?m' = (if 16 \<le> n - k then put_blk (put_blk m a k True) (a + k) (n - k) False
      else put_blk m a n True)"
    using assms by (intro place_eq) auto
  have oks: "blk_ok a k" "16 \<le> n - k \<Longrightarrow> blk_ok (a + k) (n - k)"
    using assms by (auto simp: blk_ok_def)
  have frame: "changed_within m ?m' a (a + n)"
    unfolding place changed_within_def using assms(1,6) oks by (auto simp: put_blk_frame)
  then have rest: "seg ?m' (a + n) bs"
    using assms(3) by (intro seg_same [OF _ assms(2)] changed_within_same) auto
  have "seg ?m' a ?bs'"
  proof (cases "16 \<le> n - k")
    case True
    have "same_bytes (put_blk m a k True) ?m' a (a + k)"
      unfolding place using True oks assms(3,6) by (auto intro: put_blk_same)
    then have "blk_at ?m' a k True"
      by (rule blk_at_same) (rule blk_at_put [OF oks(1)])
    moreover have "blk_at ?m' (a + k) (n - k) False"
      unfolding place using True oks by (simp add: blk_at_put)
    ultimately show ?thesis using True rest assms(6) by simp
  next
    case False
    then show ?thesis using rest blk_at_put [OF assms(1)] place by simp
  qed
  moreover have "\<exists>xs n' ys. (n, False) # bs = xs @ (n', False) # ys \<and> a + 4 = a + blk_sum xs + 4
      \<and> changed_within m ?m' (a + blk_sum xs) (a + blk_sum xs + n')"
    using frame by (intro exI [of _ "[]"] exI [of _ n] exI [of _ bs]) auto
  ultimately show ?thesis
    using assms(6) by (simp add: alloc_step_def)
qed

lemma alloc_step_Cons:
  assumes "alloc_step m (a + n) bs p bs' m'" and "blk_at m a n al" and "a + n \<le> 0x700000"
  shows "alloc_step m a ((n, al) # bs) p ((n, al) # bs') m'"
proof -
  obtain xs n' ys where o: "bs = xs @ (n', False) # ys" "p = a + n + blk_sum xs + 4"
    "changed_within m m' (a + n + blk_sum xs) (a + n + blk_sum xs + n')"
    and s: "seg m' (a + n) bs'" "blk_sum bs' = blk_sum bs"
    using assms(1) unfolding alloc_step_def by blast
  have "same_bytes m m' a (a + n)"
    using assms(3) by (intro changed_within_same [OF o(3)]) auto
  then have "blk_at m' a n al" using assms(2) by (rule blk_at_same)
  moreover have "\<exists>xs n' ys. (n, al) # bs = xs @ (n', False) # ys \<and> p = a + blk_sum xs + 4
      \<and> changed_within m m' (a + blk_sum xs) (a + blk_sum xs + n')"
    using o by (intro exI [of _ "(n, al) # xs"] exI [of _ n'] exI [of _ ys]) (auto simp: add.assoc)
  ultimately show ?thesis
    using s by (simp add: alloc_step_def)
qed

text \<open>The search loop finds what the specification finds.\<close>

lemma kmalloc_loop_refines:
  assumes "seg m a bs" and "load32 m (adr (a + blk_sum bs)) = 1" and "a + blk_sum bs \<le> 0x700000"
    and "16 \<le> k" and "8 dvd k" and "k < 4294967296"
  shows "case alloc_spec k a bs of
      None \<Rightarrow> kmalloc_loop m (of_nat k) (adr a) = Some (0, m)
    | Some (p, bs') \<Rightarrow>
        \<exists>m'. kmalloc_loop m (of_nat k) (adr a) = Some (adr p, m') \<and> alloc_step m a bs p bs' m'"
  using assms
proof (induction k a bs rule: alloc_spec.induct)
  case (1 k a)
  then show ?case
    by (subst kmalloc_loop.simps) (simp add: BLOCK_SIZE_def)
next
  case (2 k a n al bs)
  note prems = "2.prems"
  have blk: "blk_at m a n al" and rest: "seg m (a + n) bs" using prems(1) by auto
  have ok: "blk_ok a n" using blk prems(3) by (auto simp: blk_at_def blk_ok_def)
  note r = blk_at_reads [OF blk ok]
  have sz: "(of_nat n :: u32) \<noteq> 0" "(of_nat k :: u32) \<le> of_nat n \<longleftrightarrow> k \<le> n"
    using blk_okD [OF ok] prems(6) of_nat_u32_inject [of n 0] by (auto simp: of_nat_u32_le)
  show ?case
  proof (cases "\<not> al \<and> k \<le> n")
    case True
    then show ?thesis
      using place_alloc_step [OF ok rest, of k] prems(3-5)
      by (subst kmalloc_loop.simps) (simp add: r sz HEADER_SIZE_def Let_def add.assoc)
  next
    case False
    have loop: "kmalloc_loop m (of_nat k) (adr a) = kmalloc_loop m (of_nat k) (adr (a + n))"
      using False by (subst kmalloc_loop.simps) (auto simp: r sz Let_def)
    have "case alloc_spec k (a + n) bs of
      None \<Rightarrow> kmalloc_loop m (of_nat k) (adr (a + n)) = Some (0, m)
    | Some (p, bs') \<Rightarrow> \<exists>m'. kmalloc_loop m (of_nat k) (adr (a + n)) = Some (adr p, m')
        \<and> alloc_step m (a + n) bs p bs' m'"
      using False prems rest by (intro "2.IH") (auto simp: add.assoc)
    moreover have "alloc_step m a ((n, al) # bs) p ((n, al) # bs') m'"
      if "alloc_step m (a + n) bs p bs' m'" for p bs' m'
      using that blk prems(3) by (intro alloc_step_Cons) auto
    moreover have "alloc_spec k a ((n, al) # bs) =
        map_option (\<lambda>(p, bs'). (p, (n, al) # bs')) (alloc_spec k (a + n) bs)"
      using False by auto
    ultimately show ?thesis
      unfolding loop by (auto split: option.splits)
  qed
qed

lemma no_free_pair_Cons:
  "no_free_pair (b # bs) \<longleftrightarrow> (bs = [] \<or> snd b \<or> snd (hd bs)) \<and> no_free_pair bs"
  by (cases b; cases bs) auto

lemma no_free_pair_append:
  "no_free_pair (xs @ ys) \<longleftrightarrow> no_free_pair xs \<and> no_free_pair ys
     \<and> (xs = [] \<or> ys = [] \<or> snd (last xs) \<or> snd (hd ys))"
  by (induction xs) (auto simp: no_free_pair_Cons hd_append)

lemma alloc_spec_no_free_pair:
  "alloc_spec k a bs = Some (p, bs') \<Longrightarrow> no_free_pair bs
    \<Longrightarrow> no_free_pair bs' \<and> bs' \<noteq> [] \<and> (snd (hd bs) \<longrightarrow> snd (hd bs'))"
proof (induction k a bs arbitrary: p bs' rule: alloc_spec.induct)
  case (2 k a n al bs)
  show ?case
  proof (cases "\<not> al \<and> k \<le> n")
    case True
    then show ?thesis using "2.prems" by (auto simp: no_free_pair_Cons split: if_splits)
  next
    case False
    then obtain bs'' where b: "alloc_spec k (a + n) bs = Some (p, bs'')" "bs' = (n, al) # bs''"
      using "2.prems"(1) by (auto split: if_splits)
    from "2.IH" [OF False b(1)] "2.prems"(2) b show ?thesis
      by (cases bs) (auto simp: no_free_pair_Cons)
  qed
qed simp

text \<open>
  What an allocation delivers: the payload block is in the new list, allocated, and large enough;
  no other block's allocation state changed.
\<close>

lemma alloc_spec_block:
  "alloc_spec k a bs = Some (p, bs') \<Longrightarrow>
    \<exists>xs n ys. bs = xs @ (n, False) # ys \<and> k \<le> n \<and> p = a + blk_sum xs + 4
      \<and> (\<forall>b\<in>set xs. snd b \<or> fst b < k)
      \<and> bs' = xs @ (if 16 \<le> n - k then [(k, True), (n - k, False)] else [(n, True)]) @ ys"
proof (induction k a bs arbitrary: p bs' rule: alloc_spec.induct)
  case (2 k a n al bs)
  show ?case
  proof (cases "\<not> al \<and> k \<le> n")
    case True
    then show ?thesis
      using "2.prems" by (intro exI [of _ "[]"] exI [of _ n] exI [of _ bs]) (auto split: if_splits)
  next
    case False
    then obtain bs'' where b: "alloc_spec k (a + n) bs = Some (p, bs'')" "bs' = (n, al) # bs''"
      using "2.prems"(1) by (auto split: if_splits)
    from "2.IH" [OF False b(1)] obtain xs n' ys where o: "bs = xs @ (n', False) # ys" "k \<le> n'"
      "p = a + n + blk_sum xs + 4" "\<forall>b\<in>set xs. snd b \<or> fst b < k"
      "bs'' = xs @ (if 16 \<le> n' - k then [(k, True), (n' - k, False)] else [(n', True)]) @ ys"
      by blast
    then show ?thesis
      using b(2) False
      by (intro exI [of _ "(n, al) # xs"] exI [of _ n'] exI [of _ ys]) auto
  qed
qed simp

lemma alloc_spec_None: "alloc_spec k a bs = None \<longleftrightarrow> (\<forall>b\<in>set bs. snd b \<or> fst b < k)"
  by (induction k a bs rule: alloc_spec.induct) auto

section \<open>Release\<close>

lemma set_free_eq:
  assumes "blk_at m a n True" and "blk_ok a n"
  shows "(let m = BLOCK_SET_FREE m (adr a) in store32 m (BLOCK_FOOTER m (adr a)) (load32 m (adr a)))
    = put_blk m a n False"
proof -
  note b = blk_okD [OF assms(2)]
  have "BLOCK_SET_FREE m (adr a) = store32 m (adr a) (of_nat n)"
    using b assms by (simp add: BLOCK_SET_FREE_def blk_at_reads(6) tag_props(4,5))
  then show ?thesis
    using write_free_block [OF assms(2), of m] by simp
qed

lemma kfree_steps:
  "kfree m ptr = (if ptr = 0 then m
     else (let hdr = ptr - HEADER_SIZE;
               m = (let m = BLOCK_SET_FREE m hdr in store32 m (BLOCK_FOOTER m hdr) (load32 m hdr))
           in kfree_prev (kfree_next m hdr) hdr))"
  by (simp add: kfree_def kfree_next_def kfree_prev_def Let_def)

text \<open>Replacing a stretch of the heap by one block keeps the rest.\<close>

lemma seg_replace:
  assumes "seg m a (xs @ ms @ ys)" and "blk_ok (a + blk_sum xs) (blk_sum ms)"
    and "a + blk_sum (xs @ ms @ ys) \<le> 0x700000"
  shows "seg (put_blk m (a + blk_sum xs) (blk_sum ms) al) a (xs @ (blk_sum ms, al) # ys)"
proof -
  let ?m = "put_blk m (a + blk_sum xs) (blk_sum ms) al"
  have s: "seg m a xs" "seg m (a + blk_sum xs + blk_sum ms) ys" using assms(1) by auto
  have "same_bytes m ?m a (a + blk_sum xs)"
    "same_bytes m ?m (a + blk_sum xs + blk_sum ms) (a + blk_sum xs + blk_sum ms + blk_sum ys)"
    using assms(2,3) by (auto intro!: put_blk_same)
  then show ?thesis
    using s blk_at_put [OF assms(2)] by (auto intro: seg_same)
qed

lemma kfree_next_eq:
  assumes "seg m a ((n, False) # ys)" and "load32 m (adr (a + n + blk_sum ys)) = 1"
    and "a + n + blk_sum ys \<le> 0x700000"
  shows "kfree_next m (adr a) =
    (case ys of (k, False) # zs \<Rightarrow> put_blk m a (n + k) False | _ \<Rightarrow> m)"
proof -
  have blk: "blk_at m a n False" "seg m (a + n) ys" using assms(1) by auto
  have ok: "blk_ok a n" using blk(1) assms(3) by (auto simp: blk_at_def blk_ok_def)
  note r = blk_at_reads [OF blk(1) ok]
  show ?thesis
  proof (cases ys)
    case Nil
    then show ?thesis using assms(2) by (simp add: kfree_next_def r BLOCK_SIZE_def [of m "adr (a + n)"])
  next
    case (Cons b zs)
    obtain k al where b: "b = (k, al)" by (cases b)
    have nb: "blk_at m (a + n) k al" using blk(2) Cons b by simp
    have nok: "blk_ok (a + n) k" using nb assms(3) Cons b by (auto simp: blk_at_def blk_ok_def)
    note nr = blk_at_reads [OF nb nok]
    have pos: "0 < (of_nat k :: u32)"
      using blk_okD [OF nok] of_nat_u32_less [of 0 k] by simp
    have mok: "blk_ok a (n + k)" using ok nok by (auto simp: blk_ok_def)
    have sum: "(of_nat n + of_nat k :: u32) = of_nat (n + k)" by simp
    show ?thesis
      using write_free_block [OF mok, of m]
      unfolding kfree_next_def r Let_def nr sum Cons b using pos by simp
  qed
qed

lemma kfree_prev_eq:
  assumes "seg m 0x200000 (xs @ (n, False) # ys)"
    and "blk_sum (xs @ (n, False) # ys) \<le> 0x500000"
  shows "kfree_prev m (adr (0x200000 + blk_sum xs)) =
    (if xs \<noteq> [] \<and> \<not> snd (last xs)
     then put_blk m (0x200000 + blk_sum (butlast xs)) (fst (last xs) + n) False else m)"
proof (cases "xs = []")
  case True
  then show ?thesis by (simp add: kfree_prev_def HEAP_START_def adr_def)
next
  case False
  define a where "a = 0x200000 + blk_sum xs"
  define ws where "ws = butlast xs"
  obtain k al where l: "last xs = (k, al)" by (cases "last xs")
  have xs: "xs = ws @ [(k, al)]" using False l by (metis append_butlast_last_id ws_def)
  define c where "c = 0x200000 + blk_sum ws"
  have blk: "blk_at m a n False" and pb: "blk_at m c k al" and ca: "a = c + k"
    using assms(1) by (auto simp: xs a_def c_def add.assoc)
  have ok: "blk_ok a n" "blk_ok c k" "blk_ok c (k + n)"
    using blk pb assms(2) by (auto simp: blk_at_def blk_ok_def xs a_def c_def)
  note r = blk_at_reads [OF blk ok(1)] and pr = blk_at_reads [OF pb ok(2)]
  have "HEAP_START < adr a"
    using blk_okD [OF ok(1)] blk_okD [OF ok(2)] adr_less [of "0x200000" a]
    by (simp add: HEAP_START_def adr_def ca c_def)
  moreover have "PREV_BLOCK m (adr a) = adr c"
    using blk_okD [OF ok(2)] pr(5)
    by (simp add: PREV_BLOCK_def HEADER_SIZE_def adr_diff_numeral ca adr_diff)
  moreover have "(of_nat k + of_nat n :: u32) = of_nat (k + n)" by simp
  ultimately have "kfree_prev m (adr a) = (if \<not> al then put_blk m c (k + n) False else m)"
    using write_free_block [OF ok(3), of m] by (simp add: kfree_prev_def r pr)
  then show ?thesis
    using False l by (simp add: a_def c_def ws_def)
qed

section \<open>Refinement\<close>

lemma heap_inv_bound: "heap_inv m bs \<Longrightarrow> 0x200000 + blk_sum bs \<le> 0x700000"
  by (simp add: heap_inv_def)

lemma epilogue_same:
  "changed_within m m' lo hi \<Longrightarrow> hi \<le> 0x240000 \<Longrightarrow> load32 m' (adr 0x240000) = load32 m (adr 0x240000)"
  by (rule load32_same, rule changed_within_same) auto

lemma alloc_step_heap_inv:
  assumes "heap_inv m bs" and "alloc_step m 0x200000 bs p bs' m'" and "no_free_pair bs'"
  shows "heap_inv m' bs'"
proof -
  obtain xs n ys where o: "bs = xs @ (n, False) # ys"
    "changed_within m m' (0x200000 + blk_sum xs) (0x200000 + blk_sum xs + n)"
    using assms(2) unfolding alloc_step_def by blast
  have "load32 m' (adr 0x240000) = load32 m (adr 0x240000)"
    using o(1) assms(1) by (intro epilogue_same [OF o(2)]) (auto simp: heap_inv_def)
  then show ?thesis
    using assms by (simp add: heap_inv_def alloc_step_def)
qed

lemma need_size_props:
  assumes "sz \<noteq> 0" and "sz \<le> 4294967280"
  shows "16 \<le> unat (need_size sz)" "8 dvd unat (need_size sz)" "unat sz + 8 \<le> unat (need_size sz)"
    "unat (need_size sz) < unat sz + 16"
proof -
  have "0 < unat sz" using assms(1) by (simp add: unat_gt_0)
  then show "16 \<le> unat (need_size sz)" "8 dvd unat (need_size sz)"
    "unat sz + 8 \<le> unat (need_size sz)" "unat (need_size sz) < unat sz + 16"
    unfolding need_size_nat [OF assms] by (simp, presburger)+
qed

lemma kmalloc_refines_aux:
  assumes "heap_inv m bs" and "sz \<noteq> 0" and "sz \<le> 4294967280"
  shows "case alloc_spec (unat (need_size sz)) 0x200000 bs of
      None \<Rightarrow> kmalloc m sz = Some (0, m)
    | Some (p, bs') \<Rightarrow> \<exists>m'. kmalloc m sz = Some (adr p, m')
        \<and> alloc_step m 0x200000 bs p bs' m' \<and> heap_inv m' bs'"
proof -
  have "kmalloc m sz = kmalloc_loop m (of_nat (unat (need_size sz))) (adr 0x200000)"
    using assms(2) by (simp add: kmalloc_def HEAP_START_def adr_def)
  moreover have "case alloc_spec (unat (need_size sz)) 0x200000 bs of
      None \<Rightarrow> kmalloc_loop m (of_nat (unat (need_size sz))) (adr 0x200000) = Some (0, m)
    | Some (p, bs') \<Rightarrow> \<exists>m'. kmalloc_loop m (of_nat (unat (need_size sz))) (adr 0x200000) = Some (adr p, m')
        \<and> alloc_step m 0x200000 bs p bs' m'"
    using assms(1) need_size_props [OF assms(2,3)]
    by (intro kmalloc_loop_refines) (auto simp: heap_inv_def)
  moreover have "heap_inv m' bs'"
    if "alloc_spec (unat (need_size sz)) 0x200000 bs = Some (p, bs')"
      and "alloc_step m 0x200000 bs p bs' m'" for p bs' m'
    using that assms(1) alloc_spec_no_free_pair [OF that(1)]
    by (intro alloc_step_heap_inv [OF assms(1) that(2)]) (simp add: heap_inv_def)
  ultimately show ?thesis
    by (auto split: option.splits)
qed

section \<open>Release: the two coalescing steps compose\<close>

lemma merge_next_props:
  "merge_next n ys = (blk_sum (take 1 (merge_next n ys)), False) # tl (merge_next n ys)"
  "blk_sum (merge_next n ys) = n + blk_sum ys"
  by (auto simp: merge_next_def split: list.splits prod.splits bool.splits)

lemma kfree_next_seg:
  assumes "seg m a (xs @ (n, False) # ys)" and "load32 m (adr (a + blk_sum (xs @ (n, False) # ys))) = 1"
    and "a + blk_sum (xs @ (n, False) # ys) \<le> 0x700000"
  shows "seg (kfree_next m (adr (a + blk_sum xs))) a (xs @ merge_next n ys)
    \<and> changed_within m (kfree_next m (adr (a + blk_sum xs))) (a + blk_sum xs)
        (a + blk_sum xs + fst (hd (merge_next n ys)))"
proof -
  let ?c = "a + blk_sum xs"
  have eq: "kfree_next m (adr ?c) = (case ys of (k, False) # zs \<Rightarrow> put_blk m ?c (n + k) False | _ \<Rightarrow> m)"
    using assms by (intro kfree_next_eq) (auto simp: add.assoc)
  show ?thesis
  proof (cases "\<exists>k zs. ys = (k, False) # zs")
    case True
    then obtain k zs where ys: "ys = (k, False) # zs" by blast
    have ok: "blk_ok ?c (n + k)"
      using assms(1,3) ys by (auto simp: blk_ok_def blk_at_def)
    show ?thesis
      using seg_replace [of m a xs "[(n, False), (k, False)]" zs False] assms ys ok
      by (simp add: eq merge_next_def changed_within_put)
  next
    case False
    then have "merge_next n ys = (n, False) # ys" "kfree_next m (adr ?c) = m"
      unfolding eq merge_next_def by (auto split: list.splits bool.splits)
    then show ?thesis using assms(1) by simp
  qed
qed

lemma kfree_prev_seg:
  assumes "seg m 0x200000 (xs @ (n, False) # ys)" and "blk_sum (xs @ (n, False) # ys) \<le> 0x500000"
  shows "seg (kfree_prev m (adr (0x200000 + blk_sum xs))) 0x200000
      (if xs \<noteq> [] \<and> \<not> snd (last xs) then butlast xs @ (fst (last xs) + n, False) # ys
       else xs @ (n, False) # ys)
    \<and> changed_within m (kfree_prev m (adr (0x200000 + blk_sum xs)))
        (if xs \<noteq> [] \<and> \<not> snd (last xs) then 0x200000 + blk_sum (butlast xs) else 0x200000 + blk_sum xs)
        (0x200000 + blk_sum xs + n)"
proof (cases "xs \<noteq> [] \<and> \<not> snd (last xs)")
  case True
  obtain ws k where xs: "xs = ws @ [(k, False)]"
    using True append_butlast_last_id [of xs] by (cases "last xs") (metis snd_conv)
  have ok: "blk_ok (0x200000 + blk_sum ws) (k + n)"
    using assms by (auto simp: blk_ok_def blk_at_def xs)
  show ?thesis
    using seg_replace [of m "0x200000" ws "[(k, False), (n, False)]" ys False] assms ok
      changed_within_put [OF ok] unfolding kfree_prev_eq [OF assms]
    by (simp add: xs add.assoc)
next
  case False
  then show ?thesis using assms by (auto simp: kfree_prev_eq [OF assms])
qed

lemma merge_next_split:
  obtains n' ys' where "merge_next n ys = (n', False) # ys'" "n' + blk_sum ys' = n + blk_sum ys"
    "n \<le> n'" "no_free_pair ys \<Longrightarrow> no_free_pair ((n', False) # ys')"
proof -
  show thesis
  proof (cases "\<exists>k zs. ys = (k, False) # zs")
    case True
    then obtain k zs where ys: "ys = (k, False) # zs" by blast
    show thesis by (rule that [of "n + k" zs]) (auto simp: ys merge_next_def no_free_pair_Cons)
  next
    case False
    then have "merge_next n ys = (n, False) # ys" and "ys = [] \<or> snd (hd ys)"
      unfolding merge_next_def by (cases ys; auto split: bool.splits)+
    then show thesis by (intro that [of n ys]) (auto simp: no_free_pair_Cons)
  qed
qed

lemma free_spec_props:
  assumes "no_free_pair xs" and "no_free_pair ys"
  shows "no_free_pair (free_spec xs n ys)" "blk_sum (free_spec xs n ys) = blk_sum xs + n + blk_sum ys"
proof -
  obtain n' ys' where m: "merge_next n ys = (n', False) # ys'" "n' + blk_sum ys' = n + blk_sum ys"
    "no_free_pair ((n', False) # ys')"
    using assms(2) by (metis merge_next_split)
  have b: "blk_sum xs = blk_sum (butlast xs) + fst (last xs)" if "xs \<noteq> []"
    using that by (induction xs) auto
  have xs: "no_free_pair (butlast xs) \<and> (butlast xs = [] \<or> snd (last (butlast xs)))"
    if "xs \<noteq> []" "\<not> snd (last xs)"
    using that assms(1) no_free_pair_append [of "butlast xs" "[last xs]"] by auto
  show "no_free_pair (free_spec xs n ys)"
    using m(3) xs assms(1) unfolding free_spec_def m(1)
    by (auto simp: no_free_pair_append no_free_pair_Cons)
  show "blk_sum (free_spec xs n ys) = blk_sum xs + n + blk_sum ys"
    using m(2) b unfolding free_spec_def m(1) by auto
qed

lemma owned_append: "owned a (xs @ ys) = owned a xs \<union> owned (a + blk_sum xs) ys"
  by (induction a xs rule: owned.induct) (auto simp: add.assoc)

lemma owned_range: "owned a bs \<subseteq> {a..<a + blk_sum bs}"
  by (induction a bs rule: owned.induct) auto

lemma free_lo_le: "0x200000 \<le> free_lo xs" "free_lo xs \<le> 0x200000 + blk_sum xs"
proof -
  have "blk_sum (butlast xs) \<le> blk_sum xs" by (induction xs) auto
  then show "0x200000 \<le> free_lo xs" "free_lo xs \<le> 0x200000 + blk_sum xs" by (auto simp: free_lo_def)
qed

lemma owned_butlast: "xs \<noteq> [] \<Longrightarrow> \<not> snd (last xs) \<Longrightarrow> owned a (butlast xs) = owned a xs"
  by (cases xs rule: rev_cases) (auto simp: owned_append)

lemma owned_free_spec:
  "owned 0x200000 (free_spec xs n ys) = owned 0x200000 xs \<union> owned (0x200000 + blk_sum xs + n) ys
   \<and> owned 0x200000 xs \<subseteq> {0x200000..<free_lo xs}
   \<and> owned (0x200000 + blk_sum xs + n) ys \<subseteq> {0x200000 + blk_sum xs + fst (hd (merge_next n ys))..<0x200000 + blk_sum xs + n + blk_sum ys}"
proof -
  have xs: "owned 0x200000 xs \<subseteq> {0x200000..<free_lo xs}"
    using owned_range [of "0x200000" xs] owned_range [of "0x200000" "butlast xs"]
      owned_butlast [of xs "0x200000"] by (auto simp: free_lo_def)
  have b: "blk_sum xs = blk_sum (butlast xs) + fst (last xs)" if "xs \<noteq> []"
    using that by (induction xs) auto
  show ?thesis
  proof (cases "\<exists>k zs. ys = (k, False) # zs")
    case True
    then obtain k zs where ys: "ys = (k, False) # zs" by blast
    show ?thesis
      using xs b owned_range [of "0x200000 + (blk_sum xs + (n + k))" zs] owned_butlast [of xs "0x200000"]
      by (auto simp: free_spec_def merge_next_def ys owned_append add.assoc)
  next
    case False
    then have m: "merge_next n ys = (n, False) # ys"
      unfolding merge_next_def by (auto split: list.splits bool.splits)
    show ?thesis
      using xs b owned_range [of "0x200000 + (blk_sum xs + n)" ys] owned_butlast [of xs "0x200000"]
      by (auto simp: free_spec_def m owned_append add.assoc)
  qed
qed

lemma kfree_refines_aux:
  assumes "heap_inv m (xs @ (n, True) # ys)"
  shows "heap_inv (kfree m (adr (0x200000 + blk_sum xs + 4))) (free_spec xs n ys)
    \<and> changed_within m (kfree m (adr (0x200000 + blk_sum xs + 4)))
        (free_lo xs) (0x200000 + blk_sum xs + fst (hd (merge_next n ys)))"
proof -
  let ?a = "0x200000 + blk_sum xs"
  have inv: "seg m 0x200000 (xs @ (n, True) # ys)" "load32 m (adr 0x240000) = 1"
    "blk_sum xs + n + blk_sum ys = 0x40000" "no_free_pair (xs @ (n, True) # ys)"
    using assms by (auto simp: heap_inv_def)
  have ok: "blk_ok ?a n" and blk: "blk_at m ?a n True"
    using inv(1,3) by (auto simp: blk_at_def blk_ok_def)
  define m1 where "m1 = put_blk m ?a n False"
  define m2 where "m2 = kfree_next m1 (adr ?a)"
  define m3 where "m3 = kfree_prev m2 (adr ?a)"
  obtain n' ys' where mn: "merge_next n ys = (n', False) # ys'" "n' + blk_sum ys' = n + blk_sum ys" "n \<le> n'"
    using merge_next_split [of n ys] by metis
  have hi: "?a + n' \<le> 0x240000" using mn(2) inv(3) by simp
  have s1: "seg m1 0x200000 (xs @ (n, False) # ys)"
    using seg_replace [of m "0x200000" xs "[(n, True)]" ys False] inv ok by (simp add: m1_def)
  have c1: "changed_within m m1 (free_lo xs) (?a + n')"
    using free_lo_le [of xs] mn(3) unfolding m1_def by (intro changed_within_mono [OF changed_within_put [OF ok]]) auto
  have e1: "load32 m1 (adr 0x240000) = 1" using epilogue_same [OF c1 hi] inv(2) by simp
  have total: "0x200000 + blk_sum (xs @ (n, False) # ys) = 0x240000" using inv(3) by simp
  have s2: "seg m2 0x200000 (xs @ (n', False) # ys')"
    and c2': "changed_within m1 m2 ?a (?a + n')"
    using kfree_next_seg [OF s1, unfolded total] e1 by (auto simp: m2_def mn(1))
  have c2: "changed_within m1 m2 (free_lo xs) (?a + n')"
    using free_lo_le [of xs] by (intro changed_within_mono [OF c2']) auto
  have spec: "free_spec xs n ys = (if xs \<noteq> [] \<and> \<not> snd (last xs)
      then butlast xs @ (fst (last xs) + n', False) # ys' else xs @ (n', False) # ys')"
    by (simp add: free_spec_def mn(1))
  have p: "seg m3 0x200000 (free_spec xs n ys) \<and> changed_within m2 m3 (free_lo xs) (?a + n')"
    unfolding m3_def spec free_lo_def by (rule kfree_prev_seg [OF s2]) (use inv(3) mn(2) in simp)
  have "adr (?a + 4) \<noteq> 0" using inv(3) adr_inject [of "?a + 4" 0] by (simp add: adr_def)
  then have k: "kfree m (adr (?a + 4)) = m3"
    using set_free_eq [OF blk ok]
    by (simp add: kfree_steps HEADER_SIZE_def adr_diff_numeral m1_def m2_def m3_def Let_def)
  have c: "changed_within m m3 (free_lo xs) (?a + n')"
    using c1 c2 p by (blast intro: changed_within_trans)
  have "no_free_pair xs" "no_free_pair ys"
    using inv(4) by (auto simp: no_free_pair_append no_free_pair_Cons)
  then show ?thesis
    using p c epilogue_same [OF c hi] inv free_spec_props [of xs ys n] unfolding k
    by (simp add: heap_inv_def mn(1))
qed

end
