(* ===== verification/Sros_Allocator.thy ===== *)
theory Sros_Allocator
  imports Sros_Heap
begin

text \<open>
  What a client of the kernel heap may rely on, as a locale: allocation delivers a payload that no
  live allocation overlaps, allocation and release leave the bytes of every other live allocation
  alone, and a client that writes within its payloads cannot break the heap. From these laws the
  locale proves that every history of allocations, releases and writes keeps the written contents.
\<close>

text \<open>
  A history of heap use from memory \<open>m0\<close>: requests of 1 to \<open>limit\<close> bytes, releases of live
  allocations, writes inside a live allocation, and writes of other code outside \<open>lo..<hi\<close>. The
  list holds the live allocations, each with its address and the bytes written to it so far.
\<close>

inductive heap_run ::
  "(mem \<Rightarrow> u32 \<Rightarrow> (u32 \<times> mem) option) \<Rightarrow> (mem \<Rightarrow> u32 \<Rightarrow> mem) \<Rightarrow> nat \<Rightarrow> nat \<Rightarrow> nat \<Rightarrow> mem
    \<Rightarrow> mem \<Rightarrow> (nat \<times> u8 option list) list \<Rightarrow> bool"
  for alloc free limit lo hi m0 where
  run_start: "heap_run alloc free limit lo hi m0 m0 []"
| run_alloc: "heap_run alloc free limit lo hi m0 m L \<Longrightarrow> 0 < unat sz \<Longrightarrow> unat sz \<le> limit
    \<Longrightarrow> alloc m sz = Some (p, m') \<Longrightarrow> p \<noteq> 0
    \<Longrightarrow> heap_run alloc free limit lo hi m0 m' ((unat p, replicate (unat sz) None) # L)"
| run_fail: "heap_run alloc free limit lo hi m0 m L \<Longrightarrow> 0 < unat sz \<Longrightarrow> unat sz \<le> limit
    \<Longrightarrow> alloc m sz = Some (0, m') \<Longrightarrow> heap_run alloc free limit lo hi m0 m' L"
| run_free: "heap_run alloc free limit lo hi m0 m (xs @ (p, c) # ys)
    \<Longrightarrow> heap_run alloc free limit lo hi m0 (free m (adr p)) (xs @ ys)"
| run_write: "heap_run alloc free limit lo hi m0 m (xs @ (p, c) # ys) \<Longrightarrow> i < length c
    \<Longrightarrow> heap_run alloc free limit lo hi m0 (m(adr (p + i) := b)) (xs @ (p, c[i := Some b]) # ys)"
| run_other: "heap_run alloc free limit lo hi m0 m L \<Longrightarrow> x < lo \<or> hi \<le> x \<Longrightarrow> x < 4294967296
    \<Longrightarrow> heap_run alloc free limit lo hi m0 (m(adr x := b)) L"

text \<open>The address ranges of two payloads have no byte in common.\<close>

definition no_overlap :: "nat \<times> nat \<Rightarrow> nat \<times> nat \<Rightarrow> bool" where
  "no_overlap b c \<longleftrightarrow> fst b + snd b \<le> fst c \<or> fst c + snd c \<le> fst b"

text \<open>What a live allocation \<open>(p, c)\<close> may rely on: the bytes it wrote are still there.\<close>

definition contents_ok :: "mem \<Rightarrow> nat \<times> u8 option list \<Rightarrow> bool" where
  "contents_ok m e \<longleftrightarrow> (\<forall>i < length (snd e). \<forall>b. snd e ! i = Some b \<longrightarrow> m (adr (fst e + i)) = b)"

locale allocator =
  fixes alloc :: "mem \<Rightarrow> u32 \<Rightarrow> (u32 \<times> mem) option"
    and free :: "mem \<Rightarrow> u32 \<Rightarrow> mem"
    and inv :: "mem \<Rightarrow> 'b \<Rightarrow> bool"
    and used :: "'b \<Rightarrow> (nat \<times> nat) set"
    and limit lo hi :: nat
  assumes alloc_ok: "inv m bs \<Longrightarrow> 0 < unat sz \<Longrightarrow> unat sz \<le> limit \<Longrightarrow>
      alloc m sz = Some (0, m) \<or>
      (\<exists>p n bs' m'. alloc m sz = Some (adr p, m') \<and> inv m' bs' \<and> unat sz \<le> n
        \<and> used bs' = insert (p, n) (used bs) \<and> p \<notin> fst ` used bs
        \<and> (\<forall>(q, k) \<in> used bs. same_bytes m m' q (q + k)))"
    and free_ok: "inv m bs \<Longrightarrow> (p, n) \<in> used bs \<Longrightarrow>
      \<exists>bs'. inv (free m (adr p)) bs' \<and> used bs' = used bs - {(p, n)}
        \<and> (\<forall>(q, k) \<in> used bs'. same_bytes m (free m (adr p)) q (q + k))"
    and write_ok: "inv m bs \<Longrightarrow> (p, n) \<in> used bs \<Longrightarrow> x < n \<Longrightarrow> inv (m(adr (p + x) := b)) bs"
    and other_ok: "inv m bs \<Longrightarrow> x < lo \<or> hi \<le> x \<Longrightarrow> x < 4294967296 \<Longrightarrow> inv (m(adr x := b)) bs"
    and used_apart: "inv m bs \<Longrightarrow> (p, n) \<in> used bs \<Longrightarrow> (q, k) \<in> used bs \<Longrightarrow> p \<noteq> q
      \<Longrightarrow> no_overlap (p, n) (q, k)"
    and used_unique: "inv m bs \<Longrightarrow> (p, n) \<in> used bs \<Longrightarrow> (p, k) \<in> used bs \<Longrightarrow> n = k"
    and used_range: "inv m bs \<Longrightarrow> (p, n) \<in> used bs \<Longrightarrow> 0 < n \<and> lo \<le> p \<and> p + n \<le> hi"
    and bounds: "0 < lo" "hi \<le> 4294967296"
begin

definition live_ok :: "mem \<Rightarrow> 'b \<Rightarrow> (nat \<times> u8 option list) list \<Rightarrow> bool" where
  "live_ok m bs L \<longleftrightarrow> inv m bs \<and> distinct (map fst L) \<and> fst ` set L = fst ` used bs
     \<and> (\<forall>e \<in> set L. (\<exists>n. (fst e, n) \<in> used bs \<and> length (snd e) \<le> n) \<and> contents_ok m e)"

lemma live_okD:
  assumes "live_ok m bs L" and "e \<in> set L"
  obtains n where "(fst e, n) \<in> used bs" "length (snd e) \<le> n" "contents_ok m e"
  using assms unfolding live_ok_def by blast

lemma contents_same:
  "contents_ok m e \<Longrightarrow> same_bytes m m' (fst e) (fst e + n) \<Longrightarrow> length (snd e) \<le> n \<Longrightarrow> contents_ok m' e"
  by (auto simp: contents_ok_def same_bytes_def)

lemma live_alloc:
  assumes "live_ok m bs L" and "0 < unat sz" and "unat sz \<le> limit"
    and "alloc m sz = Some (p, m')" and "p \<noteq> 0"
  shows "\<exists>bs. live_ok m' bs ((unat p, replicate (unat sz) None) # L)"
proof -
  have inv: "inv m bs" using assms(1) by (simp add: live_ok_def)
  obtain q n bs' where a: "p = adr q" "inv m' bs'" "unat sz \<le> n" "used bs' = insert (q, n) (used bs)"
    "q \<notin> fst ` used bs" "\<forall>(q, k) \<in> used bs. same_bytes m m' q (q + k)"
    using alloc_ok [OF inv assms(2,3)] assms(4,5) by auto
  have "q + n \<le> hi" "0 < n" using used_range [OF a(2)] a(4) by auto
  then have q: "unat p = q" using bounds(2) by (simp add: a(1) unat_adr)
  have "(\<exists>n. (fst e, n) \<in> used bs' \<and> length (snd e) \<le> n) \<and> contents_ok m' e" if e: "e \<in> set L" for e
  proof -
    obtain k where "(fst e, k) \<in> used bs" "length (snd e) \<le> k" "contents_ok m e"
      by (rule live_okD [OF assms(1) e])
    moreover from this have "same_bytes m m' (fst e) (fst e + k)" using a(6) by auto
    ultimately show ?thesis using contents_same a(4) by blast
  qed
  moreover have "contents_ok m' (q, replicate (unat sz) None)" by (simp add: contents_ok_def)
  ultimately have "live_ok m' bs' ((unat p, replicate (unat sz) None) # L)"
    using a assms(1) unfolding live_ok_def q by auto
  then show ?thesis ..
qed

lemma live_fail:
  assumes "live_ok m bs L" and "0 < unat sz" and "unat sz \<le> limit" and "alloc m sz = Some (0, m')"
  shows "m' = m"
proof (rule ccontr)
  assume "m' \<noteq> m"
  have inv: "inv m bs" using assms(1) by (simp add: live_ok_def)
  obtain q n bs' where a: "adr q = 0" "inv m' bs'" "used bs' = insert (q, n) (used bs)"
    using alloc_ok [OF inv assms(2,3)] assms(4) \<open>m' \<noteq> m\<close> by auto
  have "0 < q" "q < 4294967296" using used_range [OF a(2)] a(3) bounds by fastforce+
  then show False using a(1) adr_inject [of q 0] by (simp add: adr_def)
qed

lemma live_free:
  assumes "live_ok m bs (xs @ (p, c) # ys)"
  shows "\<exists>bs. live_ok (free m (adr p)) bs (xs @ ys)"
proof -
  let ?m = "free m (adr p)"
  have inv: "inv m bs" and d: "p \<notin> fst ` set (xs @ ys)" "distinct (map fst (xs @ ys))"
    and im: "insert p (fst ` set (xs @ ys)) = fst ` used bs"
    using assms by (auto simp: live_ok_def)
  obtain n where n: "(p, n) \<in> used bs"
    using assms unfolding live_ok_def by fastforce
  have u: "\<And>k. (p, k) \<in> used bs \<Longrightarrow> k = n" using used_unique [OF inv n] by blast
  obtain bs' where f: "inv ?m bs'" "used bs' = used bs - {(p, n)}"
    "\<forall>(q, k) \<in> used bs'. same_bytes m ?m q (q + k)"
    using free_ok [OF inv n] by blast
  have mem_fst: "x \<in> fst ` A \<longleftrightarrow> (\<exists>k. (x, k) \<in> A)" for x and A :: "(nat \<times> nat) set"
    by force
  have "(q, k) \<in> used bs' \<longleftrightarrow> (q, k) \<in> used bs \<and> q \<noteq> p" for q k
    using f(2) u [of k] n by auto
  then have "fst ` used bs' = fst ` used bs - {p}"
    by (intro set_eqI) (simp only: mem_fst Diff_iff singleton_iff, blast)
  then have "fst ` set (xs @ ys) = fst ` used bs'" using im d(1) by auto
  moreover have "(\<exists>n. (fst e, n) \<in> used bs' \<and> length (snd e) \<le> n) \<and> contents_ok ?m e"
    if e: "e \<in> set (xs @ ys)" for e
  proof -
    have "fst e \<noteq> p" using d(1) e by auto
    moreover obtain k where "(fst e, k) \<in> used bs" "length (snd e) \<le> k" "contents_ok m e"
      by (rule live_okD [OF assms, of e]) (use e in auto)
    ultimately show ?thesis using f(2,3) contents_same by fastforce
  qed
  ultimately have "live_ok ?m bs' (xs @ ys)" using f(1) d(2) by (simp add: live_ok_def)
  then show ?thesis ..
qed

lemma live_write:
  assumes "live_ok m bs (xs @ (p, c) # ys)" and "i < length c"
  shows "live_ok (m(adr (p + i) := b)) bs (xs @ (p, c[i := Some b]) # ys)"
proof -
  let ?m = "m(adr (p + i) := b)"
  have inv: "inv m bs" and d: "p \<notin> fst ` set (xs @ ys)"
    using assms by (auto simp: live_ok_def)
  obtain n where n: "(p, n) \<in> used bs" "length c \<le> n" "contents_ok m (p, c)"
    using assms(1) unfolding live_ok_def by fastforce
  have p: "p + n \<le> 4294967296" using used_range [OF inv n(1)] bounds(2) by simp
  have "contents_ok ?m e" if e: "e \<in> set (xs @ ys)" for e
  proof -
    have ne: "fst e \<noteq> p" using d e by auto
    obtain k where k: "(fst e, k) \<in> used bs" "length (snd e) \<le> k" "contents_ok m e"
      by (rule live_okD [OF assms(1), of e]) (use e in auto)
    have "no_overlap (fst e, k) (p, n)" using used_apart [OF inv k(1) n(1) ne] .
    moreover have "fst e + k \<le> 4294967296" using used_range [OF inv k(1)] bounds(2) by simp
    ultimately have "same_bytes m ?m (fst e) (fst e + k)"
      using p assms(2) n(2) by (auto simp: same_bytes_def no_overlap_def adr_inject)
    then show ?thesis using contents_same k by blast
  qed
  moreover have "contents_ok ?m (p, c[i := Some b])"
    using n(2,3) p assms(2) by (auto simp: contents_ok_def nth_list_update adr_inject)
  moreover have "inv ?m bs" using write_ok [OF inv n(1)] assms(2) n(2) by simp
  ultimately show ?thesis using assms(1) by (auto simp: live_ok_def)
qed

lemma live_other:
  assumes "live_ok m bs L" and "x < lo \<or> hi \<le> x" and "x < 4294967296"
  shows "live_ok (m(adr x := b)) bs L"
proof -
  have inv: "inv m bs" using assms by (simp add: live_ok_def)
  have "contents_ok (m(adr x := b)) e" if e: "e \<in> set L" for e
  proof -
    obtain k where k: "(fst e, k) \<in> used bs" "length (snd e) \<le> k" "contents_ok m e"
      by (rule live_okD [OF assms(1) e])
    then have "same_bytes m (m(adr x := b)) (fst e) (fst e + k)"
      using used_range [OF inv k(1)] assms(2,3) bounds(2) by (auto simp: same_bytes_def adr_inject)
    then show ?thesis using contents_same k by blast
  qed
  then show ?thesis using assms other_ok [OF inv] by (simp add: live_ok_def)
qed

text \<open>Every history of allocations, releases and writes keeps the invariant and the contents.\<close>

lemma run_live:
  assumes "heap_run alloc free limit lo hi m0 m L" and "inv m0 bs0" and "used bs0 = {}"
  shows "\<exists>bs. live_ok m bs L"
  using assms(1)
proof induction
  case run_start
  have "live_ok m0 bs0 []" using assms(2,3) by (simp add: live_ok_def)
  then show ?case ..
next
  case (run_fail m L sz m')
  then show ?case using live_fail by blast
qed (blast intro: live_alloc live_free live_write live_other)+

lemma live_no_overlap:
  assumes "live_ok m bs L" and "e \<in> set L" and "f \<in> set L" and "fst e \<noteq> fst f"
  shows "no_overlap (fst e, length (snd e)) (fst f, length (snd f))"
proof -
  obtain n where n: "(fst e, n) \<in> used bs" "length (snd e) \<le> n"
    by (rule live_okD [OF assms(1,2)])
  obtain k where k: "(fst f, k) \<in> used bs" "length (snd f) \<le> k"
    by (rule live_okD [OF assms(1,3)])
  have "inv m bs" using assms(1) by (simp add: live_ok_def)
  from used_apart [OF this n(1) k(1) assms(4)] n(2) k(2) show ?thesis by (auto simp: no_overlap_def)
qed

text \<open>What a client holds: requests that are live, each in a block of its own.\<close>

definition holds :: "mem \<Rightarrow> (u32 \<times> u32) list \<Rightarrow> bool" where
  "holds m rs \<longleftrightarrow> distinct (map fst rs) \<and>
     (\<exists>bs. inv m bs \<and> (\<forall>(p, sz) \<in> set rs. \<exists>k. (unat p, k) \<in> used bs \<and> unat sz \<le> k))"

lemma holds_nonnull: "holds m rs \<Longrightarrow> (p, sz) \<in> set rs \<Longrightarrow> p \<noteq> 0"
  using used_range bounds(1) unfolding holds_def by fastforce

lemma holds_perm: "holds m rs \<Longrightarrow> distinct (map fst rs') \<Longrightarrow> set rs' \<subseteq> set rs \<Longrightarrow> holds m rs'"
  unfolding holds_def by blast

lemma holds_alloc:
  assumes "holds m rs" and "0 < unat sz" and "unat sz \<le> limit"
  shows "alloc m sz = Some (0, m) \<or> (\<exists>p m'. alloc m sz = Some (p, m') \<and> p \<noteq> 0 \<and> holds m' ((p, sz) # rs))"
proof -
  obtain bs where bs: "inv m bs" "\<forall>(p, sz) \<in> set rs. \<exists>k. (unat p, k) \<in> used bs \<and> unat sz \<le> k"
    using assms(1) unfolding holds_def by blast
  show ?thesis
  proof (cases "alloc m sz = Some (0, m)")
    case False
    then obtain p n bs' m' where a: "alloc m sz = Some (adr p, m')" "inv m' bs'" "unat sz \<le> n"
      "used bs' = insert (p, n) (used bs)" "p \<notin> fst ` used bs"
      using alloc_ok [OF bs(1) assms(2,3)] by blast
    have r: "0 < n" "lo \<le> p" "p + n \<le> hi" using used_range [OF a(2)] a(4) by auto
    then have p: "unat (adr p) = p" using bounds(2) by (simp add: unat_adr)
    have "adr p \<notin> fst ` set rs"
      using bs(2) a(5) p by force
    then have "holds m' ((adr p, sz) # rs)"
      using assms(1) a(2-4) bs(2) p unfolding holds_def by (auto intro!: exI [of _ bs']) blast
    moreover have "adr p \<noteq> 0" using p r(2) bounds(1) by auto
    ultimately show ?thesis using a(1) by blast
  qed simp
qed

lemma holds_free:
  assumes "holds m ((p, sz) # rs)"
  shows "holds (free m p) rs"
proof -
  obtain bs n where bs: "inv m bs" "\<forall>(p, sz) \<in> set rs. \<exists>k. (unat p, k) \<in> used bs \<and> unat sz \<le> k" "(unat p, n) \<in> used bs"
    using assms unfolding holds_def by auto
  obtain bs' where f: "inv (free m (adr (unat p))) bs'" "used bs' = used bs - {(unat p, n)}"
    using free_ok [OF bs(1,3)] by blast
  have "adr (unat p) = p" by (simp add: adr_def)
  moreover have "unat q \<noteq> unat p" if "(q, k) \<in> set rs" for q k
    using assms that unfolding holds_def by (force simp: word_unat_eq_iff)
  ultimately show ?thesis
    using assms f bs(2) unfolding holds_def by (auto intro!: exI [of _ bs'])
qed

end

end
