(* ===== verification/Sros_Heap_Props.thy ===== *)
theory Sros_Heap_Props
  imports Sros_Allocator
begin

unbundle bit_operations_syntax

text \<open>
  \<open>kmalloc\<close> and \<open>kfree\<close> keep the laws of \<open>Sros_Allocator\<close>; the correctness properties of the kernel
  heap.
\<close>

section \<open>Payloads and report lines of a block list\<close>

text \<open>The payloads of the allocated blocks: address and length.\<close>

fun payloads :: "nat \<Rightarrow> blk list \<Rightarrow> (nat \<times> nat) set" where
  "payloads a [] = {}"
| "payloads a ((n, al) # bs) = (if al then {(a + 4, n - 8)} else {}) \<union> payloads (a + n) bs"

fun dump_lines :: "nat \<Rightarrow> blk list \<Rightarrow> (u32 \<times> u32 \<times> bool) list" where
  "dump_lines a [] = []"
| "dump_lines a ((n, al) # bs) = (adr a, of_nat n, al) # dump_lines (a + n) bs"

section \<open>The laws\<close>

lemma payloads_append [simp]: "payloads a (xs @ ys) = payloads a xs \<union> payloads (a + blk_sum xs) ys"
  by (induction a xs rule: payloads.induct) (auto simp: add.assoc)

lemma payloads_split:
  assumes "(p, n) \<in> payloads a bs"
  obtains xs k ys where "bs = xs @ (k, True) # ys" "p = a + blk_sum xs + 4" "n = k - 8"
  using assms
proof (induction a bs arbitrary: thesis rule: payloads.induct)
  case (2 a k al bs)
  consider "al" "p = a + 4" "n = k - 8" | "(p, n) \<in> payloads (a + k) bs"
    using "2.prems"(2) by (auto split: if_splits)
  then show ?case
  proof cases
    case 1
    then show ?thesis using "2.prems"(1) [of "[]" k bs] by simp
  next
    case 2
    then obtain xs k' ys where "bs = xs @ (k', True) # ys" "p = a + k + blk_sum xs + 4" "n = k' - 8"
      by (rule "2.IH" [rotated])
    then show ?thesis using "2.prems"(1) [of "(k, al) # xs" k' ys] by (simp add: add.assoc)
  qed
qed simp

lemma payloads_range:
  "seg m a bs \<Longrightarrow> (p, n) \<in> payloads a bs \<Longrightarrow> 8 \<le> n \<and> a + 4 \<le> p \<and> p + n + 4 \<le> a + blk_sum bs"
  by (induction m a bs rule: seg.induct) (fastforce simp: blk_at_def split: if_splits)+

lemma payloads_apart:
  "seg m a bs \<Longrightarrow> (p, n) \<in> payloads a bs \<Longrightarrow> (q, k) \<in> payloads a bs
    \<Longrightarrow> (p = q \<and> n = k) \<or> p + n \<le> q \<or> q + k \<le> p"
proof (induction m a bs rule: seg.induct)
  case (2 m a i al bs)
  have s: "seg m (a + i) bs" "16 \<le> i" using "2.prems"(1) by (auto simp: blk_at_def)
  show ?case
    using "2.prems"(2,3) "2.IH" [OF s(1)] payloads_range [OF s(1), of p n] payloads_range [OF s(1), of q k] s(2)
    by (auto split: if_splits)
qed simp

lemma blk_sum_split_unique:
  "xs @ b # ys = xs' @ c # zs \<Longrightarrow> blk_sum xs = blk_sum xs'
    \<Longrightarrow> (\<forall>e \<in> set (xs @ b # ys). 0 < fst e) \<Longrightarrow> xs = xs' \<and> b = c"
proof (induction xs arbitrary: xs')
  case Nil
  then show ?case by (cases xs') auto
next
  case (Cons x xs)
  then show ?case by (cases xs') auto
qed

lemma seg_pos: "seg m a bs \<Longrightarrow> \<forall>e \<in> set bs. 0 < fst e"
  by (induction m a bs rule: seg.induct) (auto simp: blk_at_def)

lemma payloads_same:
  assumes "changed_within m m' (a + blk_sum xs) (a + blk_sum xs + n)"
    and "seg m a (xs @ (n, al) # ys)" and "a + blk_sum (xs @ (n, al) # ys) \<le> 0x700000"
    and "(q, k) \<in> payloads a xs \<union> payloads (a + blk_sum xs + n) ys"
  shows "same_bytes m m' q (q + k)"
proof -
  have s: "seg m a xs" "seg m (a + blk_sum xs + n) ys" using assms(2) by auto
  from assms(4) consider "(q, k) \<in> payloads a xs" | "(q, k) \<in> payloads (a + blk_sum xs + n) ys" by blast
  then show ?thesis
  proof cases
    case 1
    from payloads_range [OF s(1) this] show ?thesis
      using assms(3) by (intro changed_within_same [OF assms(1)]) auto
  next
    case 2
    from payloads_range [OF s(2) this] show ?thesis
      using assms(3) by (intro changed_within_same [OF assms(1)]) auto
  qed
qed

lemma kmalloc_law:
  assumes "heap_inv m bs" and "0 < unat sz" and "unat sz \<le> 4294967280"
  shows "kmalloc m sz = Some (0, m) \<or>
      (\<exists>p n bs' m'. kmalloc m sz = Some (adr p, m') \<and> heap_inv m' bs' \<and> unat sz \<le> n
        \<and> payloads 0x200000 bs' = insert (p, n) (payloads 0x200000 bs)
        \<and> p \<notin> fst ` payloads 0x200000 bs
        \<and> (\<forall>(q, k) \<in> payloads 0x200000 bs. same_bytes m m' q (q + k)))"
proof -
  have sz: "sz \<noteq> 0" "sz \<le> 4294967280" using assms(2,3) by (auto simp: word_le_nat_alt)
  show ?thesis
proof (cases "alloc_spec (unat (need_size sz)) 0x200000 bs")
  case None
  then show ?thesis
    using kmalloc_refines_aux [OF assms(1) sz] by simp
next
  case (Some r)
  obtain p bs' where r: "r = (p, bs')" by (cases r)
  note need = need_size_props [OF sz]
  obtain m' where m': "kmalloc m sz = Some (adr p, m')" "heap_inv m' bs'"
    and st: "alloc_step m 0x200000 bs p bs' m'"
    using kmalloc_refines_aux [OF assms(1) sz] Some r by auto
  obtain xs n ys where o: "bs = xs @ (n, False) # ys" "unat (need_size sz) \<le> n" "p = 0x200000 + blk_sum xs + 4"
    "\<forall>b\<in>set xs. snd b \<or> fst b < unat (need_size sz)"
    "bs' = xs @ (if 16 \<le> n - unat (need_size sz) then [(unat (need_size sz), True), (n - unat (need_size sz), False)] else [(n, True)]) @ ys"
    using alloc_spec_block [OF Some [unfolded r]] by blast
  obtain xs' n' ys' where o': "bs = xs' @ (n', False) # ys'" "p = 0x200000 + blk_sum xs' + 4"
    "changed_within m m' (0x200000 + blk_sum xs') (0x200000 + blk_sum xs' + n')"
    using st unfolding alloc_step_def by blast
  have sg: "seg m 0x200000 bs" and tot: "blk_sum bs = 0x40000" using assms(1) by (auto simp: heap_inv_def)
  have "xs = xs' \<and> (n, False) = (n', False)"
    using o(1,3) o'(1,2) seg_pos [OF sg] by (intro blk_sum_split_unique [of _ _ ys _ _ ys']) auto
  then have c: "changed_within m m' (0x200000 + blk_sum xs) (0x200000 + blk_sum xs + n)" using o'(3) by simp
  have pl: "payloads 0x200000 bs = payloads 0x200000 xs \<union> payloads (0x200000 + blk_sum xs + n) ys"
    by (simp add: o(1))
  have s2: "seg m 0x200000 xs" "seg m (0x200000 + blk_sum xs + n) ys" "16 \<le> n"
    using sg by (auto simp: o(1) blk_at_def)
  have "payloads 0x200000 bs' = insert (p, (if 16 \<le> n - unat (need_size sz) then unat (need_size sz) else n) - 8) (payloads 0x200000 bs)"
    using o(2) by (auto simp: pl o(3,5) add.assoc)
  moreover have "p \<notin> fst ` payloads 0x200000 bs"
    unfolding pl o(3) using payloads_range [OF s2(1)] payloads_range [OF s2(2)] s2(3) by fastforce
  moreover have "\<forall>(q, k) \<in> payloads 0x200000 bs. same_bytes m m' q (q + k)"
    using payloads_same [OF c, of False ys] sg tot unfolding pl by (auto simp: o(1))
  moreover have "unat sz \<le> (if 16 \<le> n - unat (need_size sz) then unat (need_size sz) else n) - 8"
    using need(3) o(2) by auto
  ultimately show ?thesis
    using m' by blast
qed
qed

lemma payloads_butlast: "xs \<noteq> [] \<Longrightarrow> \<not> snd (last xs) \<Longrightarrow> payloads a (butlast xs) = payloads a xs"
  by (cases xs rule: rev_cases) auto

lemma blk_sum_butlast: "xs \<noteq> [] \<Longrightarrow> blk_sum (butlast xs) + fst (last xs) = blk_sum xs"
  by (induction xs) auto

lemma payloads_free_spec:
  "payloads 0x200000 (free_spec xs n ys) = payloads 0x200000 xs \<union> payloads (0x200000 + blk_sum xs + n) ys"
proof -
  have m: "payloads a (merge_next n ys) = payloads (a + n) ys" for a
    by (auto simp: merge_next_def add.assoc split: list.splits bool.splits)
  have h: "merge_next n ys = (fst (hd (merge_next n ys)), False) # tl (merge_next n ys)"
    by (auto simp: merge_next_def split: list.splits bool.splits)
  have t: "payloads (a + fst (hd (merge_next n ys))) (tl (merge_next n ys)) = payloads (a + n) ys" for a
    using m [of a] by (subst (asm) h) simp
  have b: "xs \<noteq> [] \<Longrightarrow> 0x200000 + blk_sum (butlast xs) + (fst (last xs) + z) = 0x200000 + blk_sum xs + z" for z
    using blk_sum_butlast [of xs] by simp
  show ?thesis
    using t [of "0x200000 + blk_sum xs"] m payloads_butlast [of xs "0x200000"]
    by (simp add: free_spec_def b)
qed

lemma free_spec_gap:
  assumes "seg m 0x200000 xs" and "seg m (0x200000 + blk_sum xs + n) ys"
    and "(q, k) \<in> payloads 0x200000 xs \<union> payloads (0x200000 + blk_sum xs + n) ys"
  shows "q + k \<le> free_lo xs \<or> 0x200000 + blk_sum xs + fst (hd (merge_next n ys)) \<le> q"
proof -
  from assms(3) consider "(q, k) \<in> payloads 0x200000 xs" | "(q, k) \<in> payloads (0x200000 + blk_sum xs + n) ys" by blast
  then show ?thesis
  proof cases
    case 1
    show ?thesis
    proof (cases "xs \<noteq> [] \<and> \<not> snd (last xs)")
      case True
      have "seg m 0x200000 (butlast xs)" using assms(1) True by (metis append_butlast_last_id seg_append)
      from payloads_range [OF this, of q k] show ?thesis using 1 True by (simp add: payloads_butlast free_lo_def)
    next
      case False
      from payloads_range [OF assms(1) 1] False show ?thesis by (auto simp: free_lo_def)
    qed
  next
    case 2
    show ?thesis
    proof (cases "\<exists>j zs. ys = (j, False) # zs")
      case True
      then obtain j zs where ys: "ys = (j, False) # zs" by blast
      show ?thesis using 2 assms(2) payloads_range [of m "0x200000 + blk_sum xs + n + j" zs q k]
        by (simp add: ys merge_next_def)
    next
      case False
      then have "merge_next n ys = (n, False) # ys"
        unfolding merge_next_def by (auto split: list.splits bool.splits)
      then show ?thesis using payloads_range [OF assms(2) 2] by simp
    qed
  qed
qed

lemma kfree_law:
  assumes "heap_inv m bs" and "(p, n) \<in> payloads 0x200000 bs"
  shows "\<exists>bs'. heap_inv (kfree m (adr p)) bs'
      \<and> payloads 0x200000 bs' = payloads 0x200000 bs - {(p, n)}
      \<and> (\<forall>(q, k) \<in> payloads 0x200000 bs'. same_bytes m (kfree m (adr p)) q (q + k))"
proof -
  obtain xs k ys where o: "bs = xs @ (k, True) # ys" "p = 0x200000 + blk_sum xs + 4" "n = k - 8"
    by (rule payloads_split [OF assms(2)])
  let ?bs = "free_spec xs k ys"
  have sg: "seg m 0x200000 xs" "seg m (0x200000 + blk_sum xs + k) ys" "16 \<le> k"
    and tot: "blk_sum xs + k + blk_sum ys = 0x40000"
    using assms(1) by (auto simp: heap_inv_def o(1) blk_at_def)
  have r: "heap_inv (kfree m (adr p)) ?bs"
    "changed_within m (kfree m (adr p)) (free_lo xs) (0x200000 + blk_sum xs + fst (hd (merge_next k ys)))"
    using kfree_refines_aux [of m xs k ys] assms(1) by (auto simp: o(1,2))
  have pl: "payloads 0x200000 ?bs = payloads 0x200000 xs \<union> payloads (0x200000 + blk_sum xs + k) ys"
    by (rule payloads_free_spec)
  have "payloads 0x200000 ?bs = payloads 0x200000 bs - {(p, n)}"
    using payloads_range [OF sg(1), of p n] payloads_range [OF sg(2), of p n] sg(3) unfolding pl
    by (auto simp: o)
  moreover have "same_bytes m (kfree m (adr p)) q (q + i)" if "(q, i) \<in> payloads 0x200000 ?bs" for q i
    using that free_spec_gap [OF sg(1,2) that [unfolded pl]] tot payloads_range [OF sg(1), of q i] payloads_range [OF sg(2), of q i]
    unfolding pl by (intro changed_within_same [OF r(2)]) auto
  ultimately show ?thesis using r(1) by (intro exI [of _ ?bs]) auto
qed

lemma heap_write_ok:
  assumes "heap_inv m bs" and "(p, n) \<in> payloads 0x200000 bs" and "x < n"
  shows "heap_inv (m(adr (p + x) := b)) bs"
proof -
  obtain xs k ys where o: "bs = xs @ (k, True) # ys" "p = 0x200000 + blk_sum xs + 4" "n = k - 8"
    by (rule payloads_split [OF assms(2)])
  let ?m = "m(adr (p + x) := b)" and ?a = "0x200000 + blk_sum xs"
  have sg: "seg m 0x200000 xs" "seg m (?a + k) ys" "blk_at m ?a k True" "16 \<le> k"
    and tot: "blk_sum xs + k + blk_sum ys = 0x40000" and e: "load32 m (adr 0x240000) = 1"
    and nf: "no_free_pair bs"
    using assms(1) by (auto simp: heap_inv_def o(1) blk_at_def)
  have same: "same_bytes m ?m l h" if "h \<le> ?a + 4 \<or> ?a + k - 4 \<le> l" "h \<le> 0x240004" for l h
    using that assms(3) tot by (auto simp: same_bytes_def adr_inject o(2,3))
  have "blk_at ?m ?a k True"
    using sg(3,4) tot load32_same [OF same [of "?a + 4" ?a]]
      load32_same [OF same [of "?a + k - 4 + 4" "?a + k - 4"]]
    by (simp add: blk_at_def)
  moreover have "seg ?m 0x200000 xs" "seg ?m (?a + k) ys"
    using sg(1,2) tot by (auto intro!: seg_same [OF same])
  moreover have "load32 ?m (adr 0x240000) = 1"
    using e load32_same [OF same [of "0x240000 + 4" "0x240000"]] tot by simp
  ultimately show ?thesis using tot nf by (simp add: heap_inv_def o(1))
qed

lemma heap_other_ok:
  assumes "heap_inv m bs" and "x < 0x200000 \<or> 0x240004 \<le> x" and "x < 4294967296"
  shows "heap_inv (m(adr x := b)) bs"
proof -
  have same: "same_bytes m (m(adr x := b)) l h" if "0x200000 \<le> l" "h \<le> 0x240004" for l h
    using that assms(2,3) by (auto simp: same_bytes_def adr_inject)
  show ?thesis
    using assms(1) load32_same [OF same [of "0x240000" "0x240000 + 4"]]
    by (auto simp: heap_inv_def intro!: seg_same [OF same])
qed

interpretation km: allocator kmalloc kfree heap_inv "payloads 0x200000" 4294967280 "0x200000" "0x240004"
proof unfold_locales
  fix m bs p n q k
  assume inv: "heap_inv m bs" and p: "(p, n) \<in> payloads 0x200000 bs"
  then have s: "seg m 0x200000 bs" and t: "blk_sum bs = 0x40000" by (auto simp: heap_inv_def)
  show "0 < n \<and> 0x200000 \<le> p \<and> p + n \<le> 0x240004" using payloads_range [OF s p] t by auto
  show "p \<noteq> q \<Longrightarrow> no_overlap (p, n) (q, k)" if "(q, k) \<in> payloads 0x200000 bs"
    using payloads_apart [OF s p that] by (auto simp: no_overlap_def)
  show "n = k" if "(p, k) \<in> payloads 0x200000 bs"
    using payloads_apart [OF s p that] payloads_range [OF s p] payloads_range [OF s that] by auto
qed (simp_all add: kmalloc_law kfree_law heap_write_ok heap_other_ok)

lemma all_free_single:
  assumes "heap_inv m bs" and "payloads 0x200000 bs = {}"
  shows "bs = [(0x40000, False)]"
proof -
  have "payloads a bs = {} \<Longrightarrow> no_free_pair bs \<Longrightarrow> bs = [] \<or> (\<exists>n. bs = [(n, False)])" for a
    by (induction a bs rule: payloads.induct) (auto simp: no_free_pair_Cons split: if_splits)
  from this [OF assms(2)] assms(1) show ?thesis by (auto simp: heap_inv_def)
qed

lemma need_size_overflow:
  assumes "4294967281 \<le> sz"
  shows "need_size sz = 16"
proof -
  have s: "4294967281 \<le> unat sz" "unat sz < 4294967296"
    using assms unat_u32_less [of sz] by (simp_all add: word_le_nat_alt)
  have u: "unat (sz + 7) = (unat sz + 7) mod 4294967296" by (simp add: unat_word_ariths)
  have "unat (sz + 7) < 8 \<or> 4294967288 \<le> unat (sz + 7)"
  proof (cases "unat sz + 7 < 4294967296")
    case True
    then show ?thesis using s(1) by (simp add: u)
  next
    case False
    then have "unat (sz + 7) = (unat sz + 7 - 4294967296) mod 4294967296"
      unfolding u by (intro le_mod_geq) simp
    also have "\<dots> = unat sz + 7 - 4294967296" using s(2) by (intro mod_less) linarith
    finally have "unat (sz + 7) = unat sz + 7 - 4294967296" .
    then show ?thesis using s(2) False by linarith
  qed
  then have "unat ((sz + 7) AND - 8) = 0 \<or> unat ((sz + 7) AND - 8) = 4294967288"
  proof
    assume "unat (sz + 7) < 8"
    then show ?thesis by (simp add: unat_and_minus_8)
  next
    assume "4294967288 \<le> unat (sz + 7)"
    then have "unat (sz + 7) div 8 = 536870911" using unat_u32_less [of "sz + 7"] by linarith
    then show ?thesis by (simp add: unat_and_minus_8)
  qed
  then have "(sz + 7) AND - 8 = 0 \<or> (sz + 7) AND - 8 = 4294967288"
    by (simp add: word_unat_eq_iff)
  then show ?thesis by (auto simp: need_size_def Let_def heap_consts add.commute [of 7 sz])
qed

lemma kmalloc_cases:
  assumes "heap_inv m bs" and "sz \<noteq> 0" and "sz \<le> 4294967280" and "kmalloc m sz = Some (p, m')" and "p \<noteq> 0"
  obtains q bs' where "alloc_spec (unat (need_size sz)) 0x200000 bs = Some (q, bs')" "p = adr q" "heap_inv m' bs'"
  using kmalloc_refines_aux [OF assms(1-3)] assms(4,5) by (auto split: option.splits)

lemma free_spec_alloc:
  assumes "no_free_pair bs" and "alloc_spec k a bs = Some (p, bs')"
  shows "\<exists>xs n ys. bs' = xs @ (n, True) # ys \<and> p = a + blk_sum xs + 4 \<and> free_spec xs n ys = bs"
proof -
  obtain xs n ys where o: "bs = xs @ (n, False) # ys" "k \<le> n" "p = a + blk_sum xs + 4"
    "bs' = xs @ (if 16 \<le> n - k then [(k, True), (n - k, False)] else [(n, True)]) @ ys"
    using alloc_spec_block [OF assms(2)] by metis
  have l: "\<not> (xs \<noteq> [] \<and> \<not> snd (last xs))" and h: "ys = [] \<or> snd (hd ys)"
    using assms(1) by (auto simp: o(1) no_free_pair_append no_free_pair_Cons)
  have "free_spec xs n ys = bs"
    unfolding free_spec_def if_not_P [OF l] o(1) using h by (cases ys) (auto simp: merge_next_def split: bool.splits)
  moreover have "free_spec xs k ((n - k, False) # ys) = bs"
    unfolding free_spec_def if_not_P [OF l] o(1) using o(2) by (simp add: merge_next_def)
  ultimately show ?thesis using o(3,4) by (cases "16 \<le> n - k") auto
qed

lemma seg_dvd: "seg m a bs \<Longrightarrow> 8 dvd blk_sum bs"
  by (induction m a bs rule: seg.induct) (auto simp: blk_at_def)

lemma dump_loop:
  "seg m a bs \<Longrightarrow> load32 m (adr (a + blk_sum bs)) = 1 \<Longrightarrow> a + blk_sum bs \<le> 0x700000 \<Longrightarrow>
    kmalloc_dump_loop m (adr a) r = Some (r\<lparr>lines := lines r @ dump_lines a bs, blocks := blocks r + int (length bs),
      total_alloc := total_alloc r + of_nat (blk_sum (filter snd bs)),
      total_free := total_free r + of_nat (blk_sum (filter (\<lambda>b. \<not> snd b) bs))\<rparr>)"
proof (induction m a bs arbitrary: r rule: seg.induct)
  case (1 m a)
  then show ?case by (subst kmalloc_dump_loop.simps) (simp add: BLOCK_SIZE_def)
next
  case (2 m a n al bs)
  have blk: "blk_at m a n al" and rest: "seg m (a + n) bs" using "2.prems"(1) by auto
  have ok: "blk_ok a n" using blk "2.prems"(3) by (auto simp: blk_at_def blk_ok_def)
  note r = blk_at_reads [OF blk ok]
  have nz: "(of_nat n :: u32) \<noteq> 0" using blk_okD [OF ok] of_nat_u32_inject [of n 0] by auto
  show ?case
    using "2.prems" rest by (subst kmalloc_dump_loop.simps) (simp add: r nz Let_def "2.IH" add.assoc)
qed

lemma blk_sum_filter: "blk_sum (filter P bs) + blk_sum (filter (\<lambda>b. \<not> P b) bs) = blk_sum bs"
  by (induction bs) auto

lemma kmalloc_first: 
  assumes "sz \<noteq> 0" and "sz \<le> 1000"
  obtains m' where "kmalloc (kmalloc_init (\<lambda>_. 0)) sz = Some (adr 0x200004, m')"
    "heap_inv m' [(unat (need_size sz), True), (262144 - unat (need_size sz), False)]"
proof -
  have sz: "sz \<le> 4294967280" "unat sz \<le> 1000" using assms(2) by (auto simp: word_le_nat_alt)
  then have "unat (need_size sz) \<le> 1016" using need_size_props(4) [OF assms(1) sz(1)] by simp
  then have "16 \<le> 262144 - unat (need_size sz)" "unat (need_size sz) \<le> 262144" by simp_all
  then show thesis
    using that kmalloc_refines_aux [OF heap_init assms(1) sz(1), of "\<lambda>_. 0"] by auto
qed

lemma heap_run_first:
  obtains m where "heap_run kmalloc kfree 4294967280 0x200000 0x240004 (kmalloc_init (\<lambda>_. 0)) m
      ([] @ (0x200004, [None]) # [])"
proof -
  obtain m where k: "kmalloc (kmalloc_init (\<lambda>_. 0)) 1 = Some (adr 0x200004, m)"
    by (rule kmalloc_first [of 1]) simp_all
  have "unat (adr 0x200004) = 0x200004" "adr 0x200004 \<noteq> 0" by (simp_all add: unat_adr adr_def)
  then show thesis
    using that run_alloc [OF run_start, of 1 4294967280 kmalloc "kmalloc_init (\<lambda>_. 0)" "adr 0x200004" m
        kfree "0x200000" "0x240004"] k by simp
qed

section \<open>Properties\<close>

text \<open>
  C14. On a well-formed heap \<open>kmalloc\<close> returns, and does what first fit does on the block list: it takes
  the first free block that is large enough for header, payload and footer, splits it when the rest
  is a block of its own, and returns its payload, or returns null with the memory unchanged when no
  free block is large enough.
\<close>

theorem kmalloc_refines:
  assumes "heap_inv m bs" and "sz \<noteq> 0" and "sz \<le> 4294967280"
  shows "case alloc_spec (unat (need_size sz)) 0x200000 bs of
      None \<Rightarrow> kmalloc m sz = Some (0, m)
    | Some (p, bs') \<Rightarrow> \<exists>m'. kmalloc m sz = Some (adr p, m') \<and> heap_inv m' bs'"
  using kmalloc_refines_aux [OF assms] by (auto split: option.splits)

theorem kmalloc_refines_witness:
  "\<exists>m'. kmalloc (kmalloc_init (\<lambda>_. 0)) 100 = Some (adr 0x200004, m')
      \<and> heap_inv m' [(112, True), (262032, False)]"
proof -
  have "unat (need_size 100) = 112" by (simp add: need_size_nat)
  with kmalloc_refines [OF heap_init, of 100 "\<lambda>_. 0"] show ?thesis by simp
qed

text \<open>
  C15. On a well-formed heap, releasing the payload of an allocated block turns it into a free block
  merged with a free neighbour on either side, and the heap stays well-formed.
\<close>

theorem kfree_refines:
  assumes "heap_inv m (xs @ (n, True) # ys)"
  shows "heap_inv (kfree m (adr (0x200000 + blk_sum xs + 4))) (free_spec xs n ys)"
  using kfree_refines_aux [OF assms] by blast

theorem kfree_refines_witness:
  "\<exists>m. heap_inv m [(112, True), (262032, False)] \<and> heap_inv (kfree m (adr 0x200004)) [(262144, False)]"
proof -
  obtain m where "heap_inv m [(112, True), (262032, False)]"
    by (rule kmalloc_first [of 100]) (simp_all add: need_size_nat)
  with kfree_refines [of m "[]" 112 "[(262032, False)]"] show ?thesis
    by (auto simp: free_spec_def merge_next_def)
qed



text \<open>
  C16. When every allocation of such a history has been released, the heap is one free block of the full
  256 KiB again: nothing leaks and coalescing is complete.
\<close>

theorem heap_no_leak:
  assumes "heap_run kmalloc kfree 4294967280 0x200000 0x240004 (kmalloc_init m0) m []"
  shows "heap_inv m [(0x40000, False)]"
proof -
  obtain bs where "km.live_ok m bs []"
    using km.run_live [OF assms heap_init] by auto
  then have "heap_inv m bs" "payloads 0x200000 bs = {}" by (auto simp: km.live_ok_def)
  then show ?thesis using all_free_single by blast
qed

theorem heap_no_leak_witness:
  "\<exists>m. heap_run kmalloc kfree 4294967280 0x200000 0x240004 (kmalloc_init (\<lambda>_. 0)) m []
      \<and> heap_inv m [(0x40000, False)]"
proof -
  obtain m where "heap_run kmalloc kfree 4294967280 0x200000 0x240004 (kmalloc_init (\<lambda>_. 0)) m
      ([] @ (0x200004, [None]) # [])" by (rule heap_run_first)
  from run_free [OF this]
  have r: "heap_run kmalloc kfree 4294967280 0x200000 0x240004 (kmalloc_init (\<lambda>_. 0))
      (kfree m (adr 0x200004)) []" by simp
  from r heap_no_leak [OF r] show ?thesis by blast
qed

text \<open>
  \<open>kmalloc\<close> returns null exactly when every block is allocated or too small.
\<close>

theorem kmalloc_null_iff:
  assumes "heap_inv m bs" and "sz \<noteq> 0" and "sz \<le> 4294967280"
  shows "kmalloc m sz = Some (0, m) \<longleftrightarrow> (\<forall>(n, al) \<in> set bs. al \<or> n < unat (need_size sz))"
proof (cases "alloc_spec (unat (need_size sz)) 0x200000 bs")
  case None
  then show ?thesis
    using kmalloc_refines_aux [OF assms] alloc_spec_None [THEN iffD1, OF None] by auto
next
  case (Some r)
  obtain p bs' where r: "r = (p, bs')" by (cases r)
  obtain m' where k: "kmalloc m sz = Some (adr p, m')"
    using kmalloc_refines_aux [OF assms] Some r by auto
  obtain xs n ys where "bs = xs @ (n, False) # ys" "unat (need_size sz) \<le> n" "p = 0x200000 + blk_sum xs + 4"
    using alloc_spec_block [OF Some [unfolded r]] by metis
  moreover from this have "adr p \<noteq> 0"
    using assms(1) adr_inject [of p 0] by (simp add: heap_inv_def adr_def)
  ultimately show ?thesis using k by auto
qed

theorem kmalloc_null_iff_witness:
  "kmalloc (kmalloc_init (\<lambda>_. 0)) 262144 = Some (0, kmalloc_init (\<lambda>_. 0))"
  by (simp add: kmalloc_null_iff [OF heap_init] need_size_nat)

text \<open>
  Releasing an allocation right after it was made restores the block list.
\<close>

theorem kmalloc_kfree_restores:
  assumes "heap_inv m bs" and "sz \<noteq> 0" and "sz \<le> 4294967280" and "kmalloc m sz = Some (p, m')" and "p \<noteq> 0"
  shows "heap_inv (kfree m' p) bs"
proof -
  obtain q bs' where a: "alloc_spec (unat (need_size sz)) 0x200000 bs = Some (q, bs')" "p = adr q" "heap_inv m' bs'"
    by (rule kmalloc_cases [OF assms])
  have "no_free_pair bs" using assms(1) by (simp add: heap_inv_def)
  from free_spec_alloc [OF this a(1)] obtain xs n ys where
    "bs' = xs @ (n, True) # ys" "q = 0x200000 + blk_sum xs + 4" "free_spec xs n ys = bs" by blast
  then show ?thesis using kfree_refines_aux [of m' xs n ys] a(2,3) by auto
qed

theorem kmalloc_kfree_restores_witness:
  "\<exists>m'. kmalloc (kmalloc_init (\<lambda>_. 0)) 100 = Some (adr 0x200004, m')
     \<and> heap_inv (kfree m' (adr 0x200004)) [(0x40000, False)]"
proof -
  obtain m' where k: "kmalloc (kmalloc_init (\<lambda>_. 0)) 100 = Some (adr 0x200004, m')"
    by (rule kmalloc_first [of 100]) simp_all
  with kmalloc_kfree_restores [OF heap_init _ _ k] show ?thesis by (simp add: adr_def)
qed

text \<open>
  A request within 15 bytes of 4 GiB wraps around in the size computation: \<open>kmalloc\<close> treats it as a
  request for 8 bytes instead of failing.
\<close>

theorem kmalloc_overflow:
  assumes "4294967281 \<le> sz"
  shows "kmalloc m sz = kmalloc m 8"
proof -
  have "need_size 8 = 16" by (simp add: need_size_def Let_def heap_consts)
  moreover have "sz \<noteq> 0" using assms by auto
  ultimately show ?thesis by (simp add: kmalloc_def need_size_overflow [OF assms])
qed

theorem kmalloc_overflow_witness:
  "kmalloc (kmalloc_init (\<lambda>_. 0)) 4294967295 = kmalloc (kmalloc_init (\<lambda>_. 0)) 8"
  by (rule kmalloc_overflow) simp

text \<open>
  Every payload address is 4 modulo 8, so a returned pointer is never 8-byte aligned.
\<close>

theorem kmalloc_alignment:
  assumes "heap_inv m bs" and "sz \<noteq> 0" and "sz \<le> 4294967280" and "kmalloc m sz = Some (p, m')" and "p \<noteq> 0"
  shows "unat p mod 8 = 4"
proof -
  obtain q bs' where a: "alloc_spec (unat (need_size sz)) 0x200000 bs = Some (q, bs')" "p = adr q"
    by (rule kmalloc_cases [OF assms])
  obtain xs n ys where o: "bs = xs @ (n, False) # ys" "q = 0x200000 + blk_sum xs + 4"
    using alloc_spec_block [OF a(1)] by metis
  have "8 dvd blk_sum xs" "blk_sum xs \<le> 0x40000"
    using assms(1) seg_dvd [of m "0x200000" xs] by (auto simp: heap_inv_def o(1))
  then show ?thesis by (auto simp: a(2) o(2) unat_adr elim!: dvdE)
qed

theorem kmalloc_alignment_witness:
  "\<exists>m'. kmalloc (kmalloc_init (\<lambda>_. 0)) 100 = Some (adr 0x200004, m')
     \<and> unat (adr 0x200004) mod 8 = 4"
proof -
  obtain m' where k: "kmalloc (kmalloc_init (\<lambda>_. 0)) 100 = Some (adr 0x200004, m')"
    by (rule kmalloc_first [of 100]) simp_all
  with kmalloc_alignment [OF heap_init _ _ k] show ?thesis by (simp add: adr_def)
qed

text \<open>
  \<open>kmalloc_dump\<close> ends on a well-formed heap, prints one line per block in address order, and the two
  totals it prints add up to the heap size.
\<close>

theorem kmalloc_dump_total:
  assumes "heap_inv m bs"
  shows "\<exists>r. kmalloc_dump m = Some r \<and> lines r = dump_lines 0x200000 bs \<and> blocks r = int (length bs)
    \<and> total_alloc r + total_free r = HEAP_SIZE"
proof -
  have s: "seg m 0x200000 bs" "load32 m (adr (0x200000 + blk_sum bs)) = 1" "0x200000 + blk_sum bs \<le> 0x700000"
    using assms by (auto simp: heap_inv_def)
  have "(of_nat (blk_sum (filter snd bs)) + of_nat (blk_sum (filter (\<lambda>b. \<not> snd b) bs)) :: u32) = 0x40000"
    using blk_sum_filter [of snd bs] assms by (simp add: heap_inv_def flip: of_nat_add)
  then show ?thesis
    using dump_loop [OF s] by (simp add: kmalloc_dump_def HEAP_START_def HEAP_SIZE_def adr_def)
qed

theorem kmalloc_dump_total_witness:
  "\<exists>r. kmalloc_dump (kmalloc_init (\<lambda>_. 0)) = Some r \<and> lines r = [(adr 0x200000, 262144, False)]
     \<and> blocks r = 1 \<and> total_alloc r + total_free r = HEAP_SIZE"
  using kmalloc_dump_total [OF heap_init [of "\<lambda>_. 0"]] by simp

end
