(* ===== verification/Sros_Io.thy ===== *)
theory Sros_Io
  imports Sros_Prelude "HOL-Library.Monad_Syntax"
begin

unbundle bit_operations_syntax

text \<open>
  Port input and output (\<open>src/include/io.h\<close>). The devices behind the ports are outside the program:
  a \<open>device\<close> gives the value the next read of a port delivers, as a function of everything that went
  over the ports before. Every component that touches ports extends \<open>io_state\<close>.
\<close>

datatype io_event =
    Out8 u16 u8 | In8 u16 u8
  | Out16 u16 u16 | In16 u16 u16
  | Out32 u16 u32 | In32 u16 u32

type_synonym device = "io_event list \<Rightarrow> u16 \<Rightarrow> u32"

record io_state =
  io_trace :: "io_event list"

definition outb :: "u16 \<Rightarrow> u8 \<Rightarrow> 'a io_state_scheme \<Rightarrow> 'a io_state_scheme" where
  "outb port v s = s\<lparr>io_trace := io_trace s @ [Out8 port v]\<rparr>"

definition inb :: "device \<Rightarrow> u16 \<Rightarrow> 'a io_state_scheme \<Rightarrow> u8 \<times> 'a io_state_scheme" where
  "inb dev port s = (let v = ucast (dev (io_trace s) port)
     in (v, s\<lparr>io_trace := io_trace s @ [In8 port v]\<rparr>))"

definition outw :: "u16 \<Rightarrow> u16 \<Rightarrow> 'a io_state_scheme \<Rightarrow> 'a io_state_scheme" where
  "outw port v s = s\<lparr>io_trace := io_trace s @ [Out16 port v]\<rparr>"

definition inw :: "device \<Rightarrow> u16 \<Rightarrow> 'a io_state_scheme \<Rightarrow> u16 \<times> 'a io_state_scheme" where
  "inw dev port s = (let v = ucast (dev (io_trace s) port)
     in (v, s\<lparr>io_trace := io_trace s @ [In16 port v]\<rparr>))"

definition outl :: "u16 \<Rightarrow> u32 \<Rightarrow> 'a io_state_scheme \<Rightarrow> 'a io_state_scheme" where
  "outl port v s = s\<lparr>io_trace := io_trace s @ [Out32 port v]\<rparr>"

definition inl :: "device \<Rightarrow> u16 \<Rightarrow> 'a io_state_scheme \<Rightarrow> u32 \<times> 'a io_state_scheme" where
  "inl dev port s = (let v = dev (io_trace s) port
     in (v, s\<lparr>io_trace := io_trace s @ [In32 port v]\<rparr>))"

lemmas io_defs = outb_def inb_def outw_def inw_def outl_def inl_def

text \<open>The bytes written to one port, in order.\<close>

fun sent :: "u16 \<Rightarrow> io_event list \<Rightarrow> u8 list" where
  "sent port [] = []"
| "sent port (Out8 p v # tr) = (if p = port then v # sent port tr else sent port tr)"
| "sent port (_ # tr) = sent port tr"

lemma sent_append [simp]: "sent port (xs @ ys) = sent port xs @ sent port ys"
  by (induction port xs rule: sent.induct) auto

end
