(* ===== verification/Sros_Serial.thy ===== *)
theory Sros_Serial
  imports Sros_Io
begin

unbundle bit_operations_syntax

text \<open>
  The serial driver (\<open>src/drivers/serial.c\<close>). \<open>serial_putc\<close> polls the line status register without
  a bound, so the output functions are partial: \<open>None\<close> when the transmitter never becomes ready.
  Under the hypothesis that every polling ends, each of them sends exactly the bytes of its text.
\<close>

section \<open>The driver\<close>

definition SERIAL_COM1 :: u16 where "SERIAL_COM1 = 0x3F8"
definition REG_DATA :: u16 where "REG_DATA = 0"
definition REG_INTR_EN :: u16 where "REG_INTR_EN = 1"
definition REG_FIFO :: u16 where "REG_FIFO = 2"
definition REG_LINE_CTL :: u16 where "REG_LINE_CTL = 3"
definition REG_MODEM_CTL :: u16 where "REG_MODEM_CTL = 4"
definition REG_LINE_STAT :: u16 where "REG_LINE_STAT = 5"
definition LSR_TX_READY :: u8 where "LSR_TX_READY = 0x20"

lemmas serial_consts = SERIAL_COM1_def REG_DATA_def REG_INTR_EN_def REG_FIFO_def REG_LINE_CTL_def
  REG_MODEM_CTL_def REG_LINE_STAT_def LSR_TX_READY_def

definition serial_init :: "u16 \<Rightarrow> u16 \<Rightarrow> 'a io_state_scheme \<Rightarrow> 'a io_state_scheme" where
  "serial_init port baud_divisor s =
     (let s = outb (port + REG_INTR_EN) 0x00 s;
          s = outb (port + REG_LINE_CTL) 0x80 s;
          s = outb (port + REG_DATA) (ucast (baud_divisor AND 0xFF)) s;
          s = outb (port + REG_INTR_EN) (ucast (drop_bit 8 baud_divisor AND 0xFF)) s;
          s = outb (port + REG_LINE_CTL) 0x03 s;
          s = outb (port + REG_FIFO) 0xC7 s
      in outb (port + REG_MODEM_CTL) 0x0B s)"

partial_function (option) serial_wait ::
  "device \<Rightarrow> u16 \<Rightarrow> 'a io_state_scheme \<Rightarrow> 'a io_state_scheme option" where
  "serial_wait dev port s =
     (let (v, s) = inb dev (port + REG_LINE_STAT) s in
      if v AND LSR_TX_READY \<noteq> 0 then Some s else serial_wait dev port s)"

definition serial_putc :: "device \<Rightarrow> u16 \<Rightarrow> char \<Rightarrow> 'a io_state_scheme \<Rightarrow> 'a io_state_scheme option" where
  "serial_putc dev port c s = do { s \<leftarrow> serial_wait dev port s; Some (outb port (of_char c) s) }"

abbreviation CR :: char where "CR \<equiv> CHR 0x0D"
abbreviation LF :: char where "LF \<equiv> CHR 0x0A"

fun serial_puts :: "device \<Rightarrow> u16 \<Rightarrow> string \<Rightarrow> 'a io_state_scheme \<Rightarrow> 'a io_state_scheme option" where
  "serial_puts dev port [] s = Some s"
| "serial_puts dev port (c # cs) s = do {
     s \<leftarrow> (if c = LF then serial_putc dev port CR s else Some s);
     s \<leftarrow> serial_putc dev port c s;
     serial_puts dev port cs s }"

definition hex_digit :: "u32 \<Rightarrow> char" where
  "hex_digit v = ''0123456789ABCDEF'' ! unat (v AND 0xF)"

definition hex_shifts :: "nat list" where
  "hex_shifts = [28, 24, 20, 16, 12, 8, 4, 0]"

fun serial_put_digits :: "device \<Rightarrow> u16 \<Rightarrow> u32 \<Rightarrow> nat list \<Rightarrow> 'a io_state_scheme \<Rightarrow> 'a io_state_scheme option" where
  "serial_put_digits dev port v [] s = Some s"
| "serial_put_digits dev port v (i # is) s = do {
     s \<leftarrow> serial_putc dev port (hex_digit (drop_bit i v)) s;
     serial_put_digits dev port v is s }"

definition serial_puthex :: "device \<Rightarrow> u16 \<Rightarrow> u32 \<Rightarrow> 'a io_state_scheme \<Rightarrow> 'a io_state_scheme option" where
  "serial_puthex dev port v s = do {
     s \<leftarrow> serial_puts dev port ''0x'' s;
     serial_put_digits dev port v hex_shifts s }"

text \<open>
  The variable arguments of the printing functions. A conversion that finds no argument of its
  kind is undefined in C; the model then stops.
\<close>

datatype arg = AStr string | AInt u32

fun serial_printf :: "device \<Rightarrow> u16 \<Rightarrow> string \<Rightarrow> arg list \<Rightarrow> 'a io_state_scheme \<Rightarrow> 'a io_state_scheme option" where
  "serial_printf dev port [] as s = Some s"
| "serial_printf dev port [c] as s =
     (if c = CHR ''%'' then do {
        s \<leftarrow> serial_putc dev port CHR ''%'' s;
        serial_putc dev port CHR 0x00 s }
      else serial_putc dev port c s)"
| "serial_printf dev port (c # d # fs) as s =
     (if c = CHR ''%'' then
        (if d = CHR ''s'' then
           (case as of AStr t # as \<Rightarrow> do { s \<leftarrow> serial_puts dev port t s; serial_printf dev port fs as s } | _ \<Rightarrow> None)
         else if d = CHR ''d'' \<or> d = CHR ''x'' then
           (case as of AInt v # as \<Rightarrow> do { s \<leftarrow> serial_puthex dev port v s; serial_printf dev port fs as s } | _ \<Rightarrow> None)
         else if d = CHR ''c'' then
           (case as of AInt v # as \<Rightarrow> do { s \<leftarrow> serial_putc dev port (char_of (unat v)) s; serial_printf dev port fs as s } | _ \<Rightarrow> None)
         else if d = CHR ''%'' then do { s \<leftarrow> serial_putc dev port CHR ''%'' s; serial_printf dev port fs as s }
         else do {
           s \<leftarrow> serial_putc dev port CHR ''%'' s;
           s \<leftarrow> serial_putc dev port d s;
           serial_printf dev port fs as s })
      else do { s \<leftarrow> serial_putc dev port c s; serial_printf dev port (d # fs) as s })"

section \<open>The text sent\<close>

definition cr_lf :: "string \<Rightarrow> string" where
  "cr_lf t = concat (map (\<lambda>c. if c = LF then [CR, LF] else [c]) t)"

definition hex_text :: "u32 \<Rightarrow> string" where
  "hex_text v = ''0x'' @ map (\<lambda>i. hex_digit (drop_bit i v)) hex_shifts"

text \<open>
  The text of a formatted message: strings have their line feeds preceded by carriage returns, the
  format itself is sent as it is, and every integer is printed as eight hexadecimal digits.
\<close>

fun serial_format :: "string \<Rightarrow> arg list \<Rightarrow> string option" where
  "serial_format [] as = Some []"
| "serial_format [c] as = Some (if c = CHR ''%'' then [c, CHR 0x00] else [c])"
| "serial_format (c # d # fs) as =
     (if c = CHR ''%'' then
        (if d = CHR ''s'' then
           (case as of AStr t # as \<Rightarrow> map_option ((@) (cr_lf t)) (serial_format fs as) | _ \<Rightarrow> None)
         else if d = CHR ''d'' \<or> d = CHR ''x'' then
           (case as of AInt v # as \<Rightarrow> map_option ((@) (hex_text v)) (serial_format fs as) | _ \<Rightarrow> None)
         else if d = CHR ''c'' then
           (case as of AInt v # as \<Rightarrow> map_option ((#) (char_of (unat v))) (serial_format fs as) | _ \<Rightarrow> None)
         else if d = CHR ''%'' then map_option ((#) CHR ''%'') (serial_format fs as)
         else map_option ((@) [CHR ''%'', d]) (serial_format fs as))
      else map_option ((#) c) (serial_format (d # fs) as))"

text \<open>Polling the line status from trace \<open>tr\<close> on ends.\<close>

inductive tx_ready :: "device \<Rightarrow> u16 \<Rightarrow> io_event list \<Rightarrow> bool" for dev port where
  tx_now: "(ucast (dev tr (port + 5)) :: u8) AND 0x20 \<noteq> 0 \<Longrightarrow> tx_ready dev port tr"
| tx_later: "tx_ready dev port (tr @ [In8 (port + 5) (ucast (dev tr (port + 5)))]) \<Longrightarrow> tx_ready dev port tr"

text \<open>\<open>sends s s' t\<close>: from \<open>s\<close> to \<open>s'\<close> only the trace changed, and the port got exactly the text \<open>t\<close>.\<close>

definition sends :: "u16 \<Rightarrow> 'a io_state_scheme \<Rightarrow> 'a io_state_scheme \<Rightarrow> string \<Rightarrow> bool" where
  "sends port s s' t \<longleftrightarrow> (\<exists>tr. s' = s\<lparr>io_trace := io_trace s @ tr\<rparr> \<and> sent port tr = map of_char t)"

section \<open>Every output function sends its text\<close>

lemma sends_Nil [simp]: "sends port s s []"
  by (auto simp: sends_def intro: exI [of _ "[]"])

lemma sends_trans: "sends port s s' t \<Longrightarrow> sends port s' s'' u \<Longrightarrow> sends port s s'' (t @ u)"
proof -
  assume "sends port s s' t" and "sends port s' s'' u"
  then obtain tr tr' where "s' = s\<lparr>io_trace := io_trace s @ tr\<rparr>" "sent port tr = map of_char t"
    "s'' = s'\<lparr>io_trace := io_trace s' @ tr'\<rparr>" "sent port tr' = map of_char u"
    unfolding sends_def by blast
  then show ?thesis unfolding sends_def by (intro exI [of _ "tr @ tr'"]) simp
qed

lemma serial_wait_sends:
  "tx_ready dev port (io_trace s) \<Longrightarrow> \<exists>s'. serial_wait dev port s = Some s' \<and> sends port s s' []"
proof (induction "io_trace s" arbitrary: s rule: tx_ready.induct)
  case tx_now
  then show ?case
    by (subst serial_wait.simps) (auto simp: inb_def serial_consts sends_def Let_def)
next
  case tx_later
  let ?v = "ucast (dev (io_trace s) (port + 5)) :: u8"
  let ?s = "s\<lparr>io_trace := io_trace s @ [In8 (port + 5) ?v]\<rparr>"
  have step: "sends port s ?s []" by (auto simp: sends_def)
  show ?case
  proof (cases "?v AND 0x20 = 0")
    case True
    from tx_later(2) [of ?s] obtain s' where "serial_wait dev port ?s = Some s'" "sends port ?s s' []"
      by auto
    then show ?thesis
      using True sends_trans [OF step] by (subst serial_wait.simps) (auto simp: inb_def serial_consts Let_def)
  next
    case False
    then show ?thesis
      using step by (subst serial_wait.simps) (auto simp: inb_def serial_consts Let_def)
  qed
qed

lemma serial_putc_sends:
  assumes "\<And>tr. tx_ready dev port tr"
  shows "\<exists>s'. serial_putc dev port c s = Some s' \<and> sends port s s' [c]"
proof -
  obtain s' where s': "serial_wait dev port s = Some s'" "sends port s s' []"
    using serial_wait_sends [OF assms] by blast
  have "sends port s' (outb port (of_char c) s') [c]" by (auto simp: sends_def outb_def)
  from sends_trans [OF s'(2) this] show ?thesis by (simp add: serial_putc_def s'(1))
qed

text \<open>A sender followed by another.\<close>

lemma sends_bind:
  assumes "\<exists>s'. f s = Some s' \<and> sends port s s' t" and "\<And>s'. \<exists>s''. g s' = Some s'' \<and> sends port s' s'' u"
  shows "\<exists>s''. f s \<bind> g = Some s'' \<and> sends port s s'' (t @ u)"
  using assms sends_trans by fastforce

lemma serial_puts_sends:
  fixes s :: "'a io_state_scheme"
  assumes "\<And>tr. tx_ready dev port tr"
  shows "\<exists>s'. serial_puts dev port t s = Some s' \<and> sends port s s' (cr_lf t)"
proof (induction t arbitrary: s)
  case Nil
  then show ?case by (simp add: cr_lf_def)
next
  case (Cons c t)
  note putc = serial_putc_sends [OF assms]
  have tail: "\<exists>s''. serial_putc dev port c s' \<bind> serial_puts dev port t = Some s'' \<and> sends port s' s'' ([c] @ cr_lf t)"
    for s' :: "'a io_state_scheme"
    by (rule sends_bind [where f = "serial_putc dev port c", OF putc Cons.IH])
  show ?case
  proof (cases "c = LF")
    case True
    from sends_bind [where f = "serial_putc dev port CR", OF putc tail] show ?thesis
      using True by (simp add: cr_lf_def)
  next
    case False
    with tail [of s] show ?thesis by (simp add: cr_lf_def)
  qed
qed

lemma serial_puthex_sends:
  assumes "\<And>tr. tx_ready dev port tr"
  shows "\<exists>s'. serial_puthex dev port v s = Some s' \<and> sends port s s' (hex_text v)"
proof -
  have digits: "\<exists>s'. serial_put_digits dev port v is s = Some s'
      \<and> sends port s s' (map (\<lambda>i. hex_digit (drop_bit i v)) is)" for "is" s
  proof (induction "is" arbitrary: s)
    case (Cons i "is")
    from sends_bind [where f = "serial_putc dev port (hex_digit (drop_bit i v))",
        OF serial_putc_sends [OF assms] Cons.IH] show ?case by simp
  qed simp
  have "cr_lf ''0x'' = ''0x''" by (simp add: cr_lf_def)
  with sends_bind [where f = "serial_puts dev port ''0x''", OF serial_puts_sends [OF assms] digits]
  show ?thesis by (simp add: serial_puthex_def hex_text_def)
qed

lemma serial_printf_text:
  assumes ready: "\<And>tr. tx_ready dev port tr" and "serial_format fmt as = Some t"
  shows "\<exists>s'. serial_printf dev port fmt as s = Some s' \<and> sends port s s' t"
  using assms(2)
proof (induction fmt as arbitrary: s t rule: serial_format.induct)
  case (1 as)
  then show ?case by simp
next
  case (2 c as)
  note putc = serial_putc_sends [OF ready]
  show ?case
  proof (cases "c = CHR ''%''")
    case True
    from sends_bind [where f = "serial_putc dev port CHR ''%''" and s = s, OF putc putc [of "CHR 0x00"]] 2 True
    show ?thesis by auto
  next
    case False
    with putc [of c s] 2 show ?thesis by auto
  qed
next
  case (3 c d fs as)
  note putc = serial_putc_sends [OF ready] and puts = serial_puts_sends [OF ready]
    and hex = serial_puthex_sends [OF ready]
  show ?case
  proof (cases "c = CHR ''%''")
    case False
    then obtain u where u: "serial_format (d # fs) as = Some u" "t = [c] @ u" using "3.prems" by auto
    from sends_bind [where f = "serial_putc dev port c", OF putc "3.IH"(6) [OF False u(1)]] show ?thesis
      using False u(2) by simp
  next
    case True
    note c = True
    consider (s) "d = CHR ''s''" | (x) "d = CHR ''d'' \<or> d = CHR ''x''" | (c) "d = CHR ''c''"
      | (p) "d = CHR ''%''" | (other) "d \<notin> set ''sdxc%''" by auto
    then show ?thesis
    proof cases
      case s
      then obtain a as' u where u: "as = AStr a # as'" "serial_format fs as' = Some u" "t = cr_lf a @ u"
        using "3.prems" c by (auto split: list.splits arg.splits)
      from sends_bind [where f = "serial_puts dev port a", OF puts "3.IH"(1) [OF c s u(1) refl u(2)]] show ?thesis
        using c s u by simp
    next
      case x
      then have ns: "d \<noteq> CHR ''s''" by auto
      obtain a as' u where u: "as = AInt a # as'" "serial_format fs as' = Some u" "t = hex_text a @ u"
        using "3.prems" c x ns by (auto split: list.splits arg.splits)
      from sends_bind [where f = "serial_puthex dev port a", OF hex "3.IH"(2) [OF c ns x u(1) refl u(2)]] show ?thesis
        using c x ns u by auto
    next
      case c
      note d = this
      then have ns: "d \<noteq> CHR ''s''" "\<not> (d = CHR ''d'' \<or> d = CHR ''x'')" by auto
      obtain a as' u where u: "as = AInt a # as'" "serial_format fs as' = Some u" "t = [char_of (unat a)] @ u"
        using "3.prems" \<open>c = CHR ''%''\<close> d ns by (auto split: list.splits arg.splits)
      from sends_bind [where f = "serial_putc dev port (char_of (unat a))",
          OF putc "3.IH"(3) [OF \<open>c = CHR ''%''\<close> ns d u(1) refl u(2)]] show ?thesis
        using \<open>c = CHR ''%''\<close> d u by simp
    next
      case p
      then have ns: "d \<noteq> CHR ''s''" "\<not> (d = CHR ''d'' \<or> d = CHR ''x'')" "d \<noteq> CHR ''c''" by auto
      obtain u where u: "serial_format fs as = Some u" "t = [CHR ''%''] @ u" using "3.prems" c p by auto
      from sends_bind [where f = "serial_putc dev port CHR ''%''", OF putc "3.IH"(4) [OF c ns p u(1)]] show ?thesis
        using c p u by simp
    next
      case other
      then have ns: "d \<noteq> CHR ''s''" "\<not> (d = CHR ''d'' \<or> d = CHR ''x'')" "d \<noteq> CHR ''c''" "d \<noteq> CHR ''%''" by auto
      obtain u where u: "serial_format fs as = Some u" "t = [CHR ''%''] @ [d] @ u" using "3.prems" c ns by auto
      from sends_bind [where f = "serial_putc dev port CHR ''%''", OF putc
          sends_bind [where f = "serial_putc dev port d", OF putc "3.IH"(5) [OF c ns u(1)]]] show ?thesis
        using c ns u by simp
    qed
  qed
qed

text \<open>
  When every polling of the line status ends, \<open>serial_printf\<close> returns and sends exactly the bytes
  of the formatted text to the data port, in order, and changes nothing but the port trace.
\<close>

theorem serial_printf_sends:
  assumes "\<And>tr. tx_ready dev port tr" and "serial_format fmt as = Some t"
  shows "\<exists>s' tr. serial_printf dev port fmt as s = Some s' \<and> s' = s\<lparr>io_trace := io_trace s @ tr\<rparr>
    \<and> sent port tr = map of_char t"
  using serial_printf_text [OF assms, of s] by (auto simp: sends_def)

theorem serial_printf_sends_witness:
  "\<exists>s' tr. serial_printf (\<lambda>_ _. 0x20) 0x3F8 ''x=%d!'' [AInt 0x2A] \<lparr>io_trace = []\<rparr> = Some s'
     \<and> s' = \<lparr>io_trace = tr\<rparr> \<and> sent 0x3F8 tr = map of_char ''x=0x0000002A!''"
proof -
  have "tx_ready (\<lambda>_ _. 0x20) 0x3F8 tr" for tr by (rule tx_now) simp
  moreover have "serial_format ''x=%d!'' [AInt 0x2A] = Some ''x=0x0000002A!''"
    by (simp add: hex_text_def hex_shifts_def hex_digit_def)
  ultimately show ?thesis
    using serial_printf_sends [of "\<lambda>_ _. 0x20" "0x3F8" "''x=%d!''" "[AInt 0x2A]" "''x=0x0000002A!''"
        "\<lparr>io_trace = []\<rparr>"] by simp
qed

end
