(* ===== verification/Sros_Ring.thy ===== *)
theory Sros_Ring
  imports Sros_Prelude
begin

text \<open>
  Ring buffers. The keyboard buffer, the mouse event buffer and the message queues store their
  elements in an array with a read and a write index. \<open>ring_list\<close> reads the elements of such an
  array; the locale \<open>bounded_queue\<close> is what their clients rely on: a FIFO queue that drops what
  does not fit.
\<close>

section \<open>The elements of a ring\<close>

definition ring_list :: "'a list \<Rightarrow> nat \<Rightarrow> nat \<Rightarrow> 'a list" where
  "ring_list buf start n = map (\<lambda>i. buf ! ((start + i) mod length buf)) [0..<n]"

lemma length_ring_list [simp]: "length (ring_list buf start n) = n"
  by (simp add: ring_list_def)

lemma ring_list_0 [simp]: "ring_list buf start 0 = []"
  by (simp add: ring_list_def)

lemma mod_add_inject:
  fixes i n N s :: nat
  assumes "i < n" "(s + i) mod N = (s + n) mod N" "n < N"
  shows False
proof -
  have "(n - i) mod N = 0"
    using assms mod_eq_dvd_iff_nat [of "s + i" "s + n" N] by (auto simp: dvd_imp_mod_0)
  then show False using assms by simp
qed

text \<open>Writing the slot after the last element appends it.\<close>

lemma ring_list_put:
  assumes "n < length buf" and "w = (start + n) mod length buf"
  shows "ring_list (buf[w := x]) start (Suc n) = ring_list buf start n @ [x]"
proof -
  have "w < length buf" using assms by (metis mod_less_divisor less_nat_zero_code gr0I)
  moreover have "buf[w := x] ! ((start + i) mod length buf) = buf ! ((start + i) mod length buf)"
    if "i < n" for i
    using mod_add_inject [where i = i and n = n and N = "length buf" and s = start] that assms by (intro nth_list_update_neq) auto
  ultimately show ?thesis
    by (simp add: ring_list_def assms(2) [symmetric])
qed

text \<open>Advancing the read index drops the first element.\<close>

lemma ring_list_get:
  assumes "start < length buf"
  shows "ring_list buf start (Suc n) = buf ! start # ring_list buf (Suc start mod length buf) n"
proof -
  have "(start + Suc i) mod length buf = (Suc start mod length buf + i) mod length buf" for i
    by (metis add_Suc_shift mod_add_left_eq)
  then show ?thesis
    using assms by (simp add: ring_list_def map_upt_Suc del: upt_Suc)
qed

text \<open>
  A ring with a write index \<open>h\<close> and a read index \<open>t\<close> below \<open>N\<close> is empty when they are equal, and
  full when the write index is one behind the read index: one slot stays unused.
\<close>

definition ring_count :: "nat \<Rightarrow> nat \<Rightarrow> nat \<Rightarrow> nat" where
  "ring_count N h t = (if t \<le> h then h - t else h + N - t)"

lemma ring_next: "h < N \<Longrightarrow> Suc h mod N = (if Suc h = N then 0 else Suc h)"
  by auto

lemma ring_count_props:
  assumes "h < N" and "t < N"
  shows "ring_count N h t < N" "(t + ring_count N h t) mod N = h" "ring_count N h t = 0 \<longleftrightarrow> h = t"
    "Suc h mod N \<noteq> t \<Longrightarrow> ring_count N (Suc h mod N) t = Suc (ring_count N h t)"
    "Suc h mod N = t \<Longrightarrow> ring_count N h t = N - 1"
    "h \<noteq> t \<Longrightarrow> ring_count N h t = Suc (ring_count N h (Suc t mod N))"
  using assms by (auto simp: ring_count_def ring_next split: if_splits)

section \<open>Bounded queues\<close>

datatype 'a queue_op = Put 'a | Get

text \<open>
  Running a sequence of operations: the values accepted (a value put into a full queue is not), the
  values delivered and the final state.
\<close>

fun queue_run :: "('a \<Rightarrow> 's \<Rightarrow> 's) \<Rightarrow> ('s \<Rightarrow> 'a option \<times> 's) \<Rightarrow> ('s \<Rightarrow> 'a list) \<Rightarrow> nat
    \<Rightarrow> 'a queue_op list \<Rightarrow> 's \<Rightarrow> 'a list \<times> 'a list \<times> 's" where
  "queue_run put get queue cap [] s = ([], [], s)"
| "queue_run put get queue cap (Put x # ops) s =
     (let (acc, del, s') = queue_run put get queue cap ops (put x s)
      in (if length (queue s) < cap then x # acc else acc, del, s'))"
| "queue_run put get queue cap (Get # ops) s =
     (let (acc, del, s') = queue_run put get queue cap ops (snd (get s))
      in (acc, (case fst (get s) of None \<Rightarrow> del | Some x \<Rightarrow> x # del), s'))"

locale bounded_queue =
  fixes put :: "'a \<Rightarrow> 's \<Rightarrow> 's"
    and get :: "'s \<Rightarrow> 'a option \<times> 's"
    and inv :: "'s \<Rightarrow> bool"
    and queue :: "'s \<Rightarrow> 'a list"
    and cap :: nat
  assumes put_inv: "inv s \<Longrightarrow> inv (put x s)"
    and put_queue: "inv s \<Longrightarrow> queue (put x s) = (if length (queue s) < cap then queue s @ [x] else queue s)"
    and get_inv: "inv s \<Longrightarrow> inv (snd (get s))"
    and get_queue: "inv s \<Longrightarrow> (queue s = [] \<and> fst (get s) = None \<and> queue (snd (get s)) = [])
      \<or> (\<exists>x. fst (get s) = Some x \<and> queue s = x # queue (snd (get s)))"
begin

text \<open>First in, first out: what was there and was accepted is what was delivered and is left.\<close>

lemma fifo:
  "inv s \<Longrightarrow> queue_run put get queue cap ops s = (acc, del, s') \<Longrightarrow> inv s' \<and> queue s @ acc = del @ queue s'"
proof (induction ops arbitrary: s acc del s')
  case Nil
  then show ?case by simp
next
  case (Cons a ops)
  show ?case
  proof (cases a)
    case (Put x)
    obtain a' d t where r: "queue_run put get queue cap ops (put x s) = (a', d, t)"
      by (cases "queue_run put get queue cap ops (put x s)")
    from Cons.IH [OF put_inv [OF Cons.prems(1)] r] Cons.prems(2) r put_queue [OF Cons.prems(1), of x] Put
    show ?thesis by (auto split: if_splits)
  next
    case Get
    obtain a' d t where r: "queue_run put get queue cap ops (snd (get s)) = (a', d, t)"
      by (cases "queue_run put get queue cap ops (snd (get s))")
    from Cons.IH [OF get_inv [OF Cons.prems(1)] r] Cons.prems(2) r get_queue [OF Cons.prems(1)] Get
    show ?thesis by auto
  qed
qed

text \<open>Without reads, a queue holds the first values put, up to its capacity.\<close>

lemma fold_put: "inv s \<Longrightarrow> length (queue s) \<le> cap \<Longrightarrow>
    inv (fold put xs s) \<and> queue (fold put xs s) = take cap (queue s @ xs)"
proof (induction xs arbitrary: s)
  case (Cons x xs)
  show ?case
    using Cons.IH [OF put_inv [OF Cons.prems(1)]] Cons.prems put_queue [OF Cons.prems(1), of x]
      Suc_diff_Suc [of "length (queue s)" cap]
    by (cases "length (queue s) < cap") (auto simp flip: Suc_diff_Suc)
qed simp

end

end
