(* ===== verification/Sros_Mouse.thy ===== *)
theory Sros_Mouse
  imports Sros_Serial Sros_Ring
begin

unbundle bit_operations_syntax

text \<open>
  The PS/2 mouse driver (\<open>src/drivers/mouse.c\<close>): the initialisation protocol, the three-byte packet
  state machine of the interrupt handler and the event buffer. The buffer is a bounded queue of 63
  events, and the handler, byte by byte, queues the events that a decoder of the whole byte
  stream finds.
\<close>

section \<open>The driver\<close>

type_synonym i8 = "8 word"

record mouse_event_t =
  buttons :: u8
  dx :: i8
  dy :: i8

definition MOUSE_BUFFER_SIZE :: nat where "MOUSE_BUFFER_SIZE = 64"

record mouse_state = io_state +
  mouse_buffer :: "mouse_event_t list"
  mouse_buf_head :: u8
  mouse_buf_tail :: u8
  mouse_cycle :: u8
  mouse_packet :: "u8 list"

fun ps2_wait_write_loop :: "device \<Rightarrow> nat \<Rightarrow> 'a io_state_scheme \<Rightarrow> 'a io_state_scheme" where
  "ps2_wait_write_loop dev 0 s = s"
| "ps2_wait_write_loop dev (Suc n) s =
     (let (v, s) = inb dev 0x64 s in if v AND 0x02 = 0 then s else ps2_wait_write_loop dev n s)"

definition ps2_wait_write :: "device \<Rightarrow> 'a io_state_scheme \<Rightarrow> 'a io_state_scheme" where
  "ps2_wait_write dev s = ps2_wait_write_loop dev 10000 s"

fun ps2_wait_read_loop :: "device \<Rightarrow> nat \<Rightarrow> 'a io_state_scheme \<Rightarrow> 'a io_state_scheme" where
  "ps2_wait_read_loop dev 0 s = s"
| "ps2_wait_read_loop dev (Suc n) s =
     (let (v, s) = inb dev 0x64 s in if v AND 0x01 \<noteq> 0 then s else ps2_wait_read_loop dev n s)"

definition ps2_wait_read :: "device \<Rightarrow> 'a io_state_scheme \<Rightarrow> 'a io_state_scheme" where
  "ps2_wait_read dev s = ps2_wait_read_loop dev 10000 s"

fun ps2_flush_loop :: "device \<Rightarrow> nat \<Rightarrow> 'a io_state_scheme \<Rightarrow> 'a io_state_scheme" where
  "ps2_flush_loop dev 0 s = s"
| "ps2_flush_loop dev (Suc n) s =
     (let (v, s) = inb dev 0x64 s in
      if v AND 0x01 = 0 then s else ps2_flush_loop dev n (snd (inb dev 0x60 s)))"

definition ps2_flush :: "device \<Rightarrow> 'a io_state_scheme \<Rightarrow> 'a io_state_scheme" where
  "ps2_flush dev s = ps2_flush_loop dev 100 s"

definition mouse_send_cmd :: "device \<Rightarrow> u8 \<Rightarrow> 'a io_state_scheme \<Rightarrow> (u8 \<times> 'a io_state_scheme) option" where
  "mouse_send_cmd dev cmd s =
     (let s = ps2_wait_write dev s;
          s = outb 0x64 0xD4 s;
          s = ps2_wait_write dev s;
          s = outb 0x60 cmd s;
          s = ps2_wait_read dev s;
          (ack, s) = inb dev 0x60 s
      in do {
        s \<leftarrow> serial_printf dev SERIAL_COM1 (''[mouse] cmd 0x%02x -> ack 0x%02x'' @ [LF])
               [AInt (ucast cmd), AInt (ucast ack)] s;
        Some (if ack = 0xFA then 1 else 0, s) })"

definition mouse_buffer_put :: "mouse_event_t \<Rightarrow> 'a mouse_state_scheme \<Rightarrow> 'a mouse_state_scheme" where
  "mouse_buffer_put ev s =
     (let nxt = of_nat ((unat (mouse_buf_head s) + 1) mod MOUSE_BUFFER_SIZE) in
      if nxt \<noteq> mouse_buf_tail s
      then s\<lparr>mouse_buffer := (mouse_buffer s)[unat (mouse_buf_head s) := ev], mouse_buf_head := nxt\<rparr>
      else s)"

text \<open>The result is the event stored through the pointer, \<open>None\<close> for the return value 0.\<close>

definition mouse_read :: "'a mouse_state_scheme \<Rightarrow> mouse_event_t option \<times> 'a mouse_state_scheme" where
  "mouse_read s =
     (if mouse_buf_head s = mouse_buf_tail s then (None, s)
      else (Some (mouse_buffer s ! unat (mouse_buf_tail s)),
            s\<lparr>mouse_buf_tail := of_nat ((unat (mouse_buf_tail s) + 1) mod MOUSE_BUFFER_SIZE)\<rparr>))"

definition mouse_has_data :: "'a mouse_state_scheme \<Rightarrow> bool" where
  "mouse_has_data s \<longleftrightarrow> mouse_buf_head s \<noteq> mouse_buf_tail s"

definition mouse_init :: "device \<Rightarrow> 'a io_state_scheme \<Rightarrow> 'a io_state_scheme option" where
  "mouse_init dev s = do {
     s \<leftarrow> serial_printf dev SERIAL_COM1 (''[mouse] initializing...'' @ [LF]) [] s;
     (let s = ps2_flush dev s;
          s = ps2_wait_write dev s;
          s = outb 0x64 0xA8 s;
          (v, s) = inb dev 0xA1 s;
          s = outb 0xA1 (v AND NOT 0x10) s
      in do {
        (_, s) \<leftarrow> mouse_send_cmd dev 0xF6 s;
        (_, s) \<leftarrow> mouse_send_cmd dev 0xF4 s;
        (let s = ps2_flush dev s in
         serial_printf dev SERIAL_COM1 (''[mouse] initialization done'' @ [LF]) [] s) }) }"

text \<open>The body of the handler once the data byte has been read.\<close>

definition mouse_byte :: "u8 \<Rightarrow> 'a mouse_state_scheme \<Rightarrow> 'a mouse_state_scheme" where
  "mouse_byte data s =
     (if mouse_cycle s = 0 then
        (if data AND 0x08 = 0 then s
         else s\<lparr>mouse_packet := (mouse_packet s)[0 := data], mouse_cycle := 1\<rparr>)
      else if mouse_cycle s = 1 then
        s\<lparr>mouse_packet := (mouse_packet s)[1 := data], mouse_cycle := 2\<rparr>
      else if mouse_cycle s = 2 then
        (let s = s\<lparr>mouse_packet := (mouse_packet s)[2 := data], mouse_cycle := 0\<rparr>;
             ev = \<lparr>buttons = (mouse_packet s ! 0) AND 0x07, dx = mouse_packet s ! 1, dy = mouse_packet s ! 2\<rparr>
         in if (mouse_packet s ! 0) AND 0xC0 \<noteq> 0 then s else mouse_buffer_put ev s)
      else s)"

definition mouse_handler :: "device \<Rightarrow> 'a mouse_state_scheme \<Rightarrow> 'a mouse_state_scheme" where
  "mouse_handler dev s = (let (data, s) = inb dev 0x60 s in mouse_byte data s)"

section \<open>What the driver promises\<close>

definition mouse_inv :: "'a mouse_state_scheme \<Rightarrow> bool" where
  "mouse_inv s \<longleftrightarrow> length (mouse_buffer s) = 64 \<and> unat (mouse_buf_head s) < 64
     \<and> unat (mouse_buf_tail s) < 64 \<and> unat (mouse_cycle s) < 3 \<and> length (mouse_packet s) = 3"

definition mouse_queue :: "'a mouse_state_scheme \<Rightarrow> mouse_event_t list" where
  "mouse_queue s = ring_list (mouse_buffer s) (unat (mouse_buf_tail s))
     (ring_count 64 (unat (mouse_buf_head s)) (unat (mouse_buf_tail s)))"

text \<open>
  The events in a byte stream: a packet starts at a byte with bit 3 set, other bytes are skipped,
  and packets with an overflow bit are dropped.
\<close>

fun mouse_decode :: "u8 list \<Rightarrow> mouse_event_t list" where
  "mouse_decode [] = []"
| "mouse_decode (a # bs) =
     (if a AND 0x08 = 0 then mouse_decode bs
      else (case bs of
          b # c # cs \<Rightarrow>
            (if a AND 0xC0 \<noteq> 0 then mouse_decode cs
             else \<lparr>buttons = a AND 0x07, dx = b, dy = c\<rparr> # mouse_decode cs)
        | _ \<Rightarrow> []))"

text \<open>One interrupt that delivers the byte \<open>b\<close>.\<close>

abbreviation mouse_int :: "u8 \<Rightarrow> 'a mouse_state_scheme \<Rightarrow> 'a mouse_state_scheme" where
  "mouse_int b \<equiv> mouse_handler (\<lambda>_ _. ucast b)"

definition mouse_reset :: mouse_state where
  "mouse_reset = \<lparr>io_trace = [], mouse_buffer = replicate 64 \<lparr>buttons = 0, dx = 0, dy = 0\<rparr>,
     mouse_buf_head = 0, mouse_buf_tail = 0, mouse_cycle = 0, mouse_packet = [0, 0, 0]\<rparr>"

section \<open>The event buffer is a bounded queue\<close>

lemma mouse_buffer_put_inv [sros_inv]: "mouse_inv s \<Longrightarrow> mouse_inv (mouse_buffer_put ev s)"
  by (auto simp: mouse_inv_def mouse_buffer_put_def MOUSE_BUFFER_SIZE_def Let_def unat_of_nat_u8)

lemma mouse_buffer_put_queue:
  assumes "mouse_inv s"
  shows "mouse_queue (mouse_buffer_put ev s) =
    (if length (mouse_queue s) < 63 then mouse_queue s @ [ev] else mouse_queue s)"
proof -
  let ?h = "unat (mouse_buf_head s)" and ?t = "unat (mouse_buf_tail s)"
  have b: "?h < 64" "?t < 64" "length (mouse_buffer s) = 64" using assms by (auto simp: mouse_inv_def)
  note c = ring_count_props [OF b(1,2)]
  have m: "Suc ?h mod 64 < 256" "(of_nat (Suc ?h mod 64) :: u8) = mouse_buf_tail s \<longleftrightarrow> Suc ?h mod 64 = ?t"
    by (auto simp: word_unat_eq_iff unat_of_nat_u8)
  show ?thesis
  proof (cases "Suc ?h mod 64 = ?t")
    case True
    then show ?thesis
      using c(5) m by (simp add: mouse_buffer_put_def MOUSE_BUFFER_SIZE_def mouse_queue_def)
  next
    case False
    have "ring_count 64 ?h ?t < 63"
      using c(1) c(4) [OF False] ring_count_props(1) [of "Suc ?h mod 64" 64 ?t] b(2) by simp
    moreover have "ring_list ((mouse_buffer s)[?h := ev]) ?t (Suc (ring_count 64 ?h ?t))
        = ring_list (mouse_buffer s) ?t (ring_count 64 ?h ?t) @ [ev]"
      using c(1,2) b(3) by (intro ring_list_put) simp_all
    ultimately show ?thesis
      using False m c(4) [OF False]
      by (simp add: mouse_buffer_put_def MOUSE_BUFFER_SIZE_def mouse_queue_def Let_def unat_of_nat_u8)
  qed
qed

lemma mouse_read_inv [sros_inv]: "mouse_inv s \<Longrightarrow> mouse_inv (snd (mouse_read s))"
  by (auto simp: mouse_inv_def mouse_read_def MOUSE_BUFFER_SIZE_def unat_of_nat_u8)

lemma mouse_read_queue:
  assumes "mouse_inv s"
  shows "(mouse_queue s = [] \<and> fst (mouse_read s) = None \<and> mouse_queue (snd (mouse_read s)) = [])
    \<or> (\<exists>x. fst (mouse_read s) = Some x \<and> mouse_queue s = x # mouse_queue (snd (mouse_read s)))"
proof -
  let ?h = "unat (mouse_buf_head s)" and ?t = "unat (mouse_buf_tail s)"
  have b: "?h < 64" "?t < 64" "length (mouse_buffer s) = 64" using assms by (auto simp: mouse_inv_def)
  note c = ring_count_props [OF b(1,2)]
  show ?thesis
  proof (cases "?h = ?t")
    case True
    then show ?thesis using c(3) by (simp add: mouse_queue_def mouse_read_def word_unat_eq_iff)
  next
    case False
    then show ?thesis
      using c(6) [OF False] b ring_list_get [of ?t "mouse_buffer s"]
      by (auto simp: mouse_queue_def mouse_read_def MOUSE_BUFFER_SIZE_def unat_of_nat_u8 word_unat_eq_iff)
  qed
qed

interpretation mouse_q: bounded_queue mouse_buffer_put mouse_read mouse_inv mouse_queue 63
  by unfold_locales (simp_all add: mouse_buffer_put_inv mouse_buffer_put_queue mouse_read_inv mouse_read_queue)

section \<open>The packet state machine\<close>

lemma mouse_int_eq:
  "mouse_int b s = mouse_byte b (s\<lparr>io_trace := io_trace s @ [In8 0x60 b]\<rparr>)"
  by (simp add: mouse_handler_def inb_def Let_def)

lemma trace_irrelevant [simp]:
  "mouse_inv (s\<lparr>io_trace := tr\<rparr>) = mouse_inv s" "mouse_queue (s\<lparr>io_trace := tr\<rparr>) = mouse_queue s"
  by (simp_all add: mouse_inv_def mouse_queue_def)

lemma packet_irrelevant [simp]:
  "mouse_queue (s\<lparr>mouse_packet := p\<rparr>) = mouse_queue s" "mouse_queue (s\<lparr>mouse_cycle := c\<rparr>) = mouse_queue s"
  by (simp_all add: mouse_queue_def)

lemma mouse_buffer_put_cycle [simp]: "mouse_cycle (mouse_buffer_put ev s) = mouse_cycle s"
  by (simp add: mouse_buffer_put_def Let_def)

lemma mouse_inv_upd:
  "mouse_inv s \<Longrightarrow> length p = 3 \<Longrightarrow> unat c < 3 \<Longrightarrow> mouse_inv (s\<lparr>mouse_packet := p, mouse_cycle := c\<rparr>)"
  by (simp add: mouse_inv_def)

lemma mouse_byte_inv [sros_inv]: "mouse_inv s \<Longrightarrow> mouse_inv (mouse_byte b s)"
  by (auto simp: mouse_byte_def Let_def mouse_inv_upd intro!: mouse_buffer_put_inv) (simp_all add: mouse_inv_def)

lemma mouse_int_inv: "mouse_inv s \<Longrightarrow> mouse_inv (mouse_int b s)"
  by (simp add: mouse_int_eq mouse_byte_inv)

text \<open>One, two and three bytes from the start of a packet.\<close>

lemma mouse_skip: "mouse_cycle s = 0 \<Longrightarrow> a AND 0x08 = 0 \<Longrightarrow>
    mouse_queue (mouse_int a s) = mouse_queue s \<and> mouse_cycle (mouse_int a s) = 0"
  by (simp add: mouse_int_eq mouse_byte_def)

lemma mouse_partial: "mouse_cycle s = 0 \<Longrightarrow> a AND 0x08 \<noteq> 0 \<Longrightarrow>
    mouse_queue (mouse_int a s) = mouse_queue s \<and> mouse_queue (mouse_int b (mouse_int a s)) = mouse_queue s"
  by (simp add: mouse_int_eq mouse_byte_def)

lemma mouse_packet3:
  assumes "mouse_inv s" and "mouse_cycle s = 0" and "a AND 0x08 \<noteq> 0"
  shows "mouse_cycle (mouse_int c (mouse_int b (mouse_int a s))) = 0"
    "mouse_queue (mouse_int c (mouse_int b (mouse_int a s))) =
      take 63 (mouse_queue s @ (if a AND 0xC0 \<noteq> 0 then [] else [\<lparr>buttons = a AND 0x07, dx = b, dy = c\<rparr>]))"
proof -
  have len: "length (mouse_packet s) = 3" "length (mouse_queue s) \<le> 63"
    using assms(1) ring_count_props(1) [of "unat (mouse_buf_head s)" 64 "unat (mouse_buf_tail s)"]
    by (auto simp: mouse_inv_def mouse_queue_def)
  define t where "t = s\<lparr>io_trace := ((io_trace s @ [In8 0x60 a]) @ [In8 0x60 b]) @ [In8 0x60 c],
      mouse_packet := [a, b, c], mouse_cycle := 0\<rparr>"
  have t: "mouse_inv t" "mouse_queue t = mouse_queue s"
    using assms(1) by (auto simp: t_def mouse_inv_def mouse_queue_def)
  have p: "(mouse_packet s)[0 := a, 1 := b, 2 := c] = [a, b, c]"
    using len(1) by (auto simp: numeral_3_eq_3 length_Suc_conv numeral_2_eq_2)
  have eq: "mouse_int c (mouse_int b (mouse_int a s)) =
      (if a AND 0xC0 \<noteq> 0 then t else mouse_buffer_put \<lparr>buttons = a AND 0x07, dx = b, dy = c\<rparr> t)"
    using assms(2,3) by (simp add: mouse_int_eq mouse_byte_def t_def p [simplified])
  show "mouse_cycle (mouse_int c (mouse_int b (mouse_int a s))) = 0"
    by (simp add: eq) (simp add: t_def)
  show "mouse_queue (mouse_int c (mouse_int b (mouse_int a s))) =
      take 63 (mouse_queue s @ (if a AND 0xC0 \<noteq> 0 then [] else [\<lparr>buttons = a AND 0x07, dx = b, dy = c\<rparr>]))"
    using len(2) by (simp add: eq t mouse_buffer_put_queue)
qed

lemma mouse_stream_from:
  "mouse_inv s \<Longrightarrow> mouse_cycle s = 0 \<Longrightarrow>
    mouse_inv (fold mouse_int bs s) \<and> mouse_queue (fold mouse_int bs s) = take 63 (mouse_queue s @ mouse_decode bs)"
proof (induction bs arbitrary: s rule: mouse_decode.induct)
  case (1 s)
  then show ?case
    using ring_count_props(1) [of "unat (mouse_buf_head s)" 64 "unat (mouse_buf_tail s)"]
    by (auto simp: mouse_inv_def mouse_queue_def)
next
  case (2 a bs)
  have len: "length (mouse_queue s) \<le> 63"
    using "2.prems"(1) ring_count_props(1) [of "unat (mouse_buf_head s)" 64 "unat (mouse_buf_tail s)"]
    by (auto simp: mouse_inv_def mouse_queue_def)
  show ?case
  proof (cases "a AND 0x08 = 0")
    case True
    from "2.IH"(1) [OF True mouse_int_inv [OF "2.prems"(1), of a]] mouse_skip [OF "2.prems"(2) True] True
    show ?thesis by simp
  next
    case False
    note i = mouse_int_inv [OF "2.prems"(1), of a]
    consider "bs = []" | b where "bs = [b]" | b c cs where "bs = b # c # cs"
      by (metis neq_Nil_conv)
    then show ?thesis
    proof cases
      case 1
      then show ?thesis using i mouse_partial [OF "2.prems"(2) False] len False by simp
    next
      case (2 b)
      then show ?thesis
        using mouse_int_inv [OF i, of b] mouse_partial [OF "2.prems"(2) False] len False by simp
    next
      case (3 b c cs)
      note p = mouse_packet3 [OF "2.prems" False, of c b]
      note inv = mouse_int_inv [OF mouse_int_inv [OF i, of b], of c]
      show ?thesis
      proof (cases "a AND 0xC0 = 0")
        case True
        with "2.IH"(3) [OF False 3 refl _ inv p(1)] p(2) 3 False show ?thesis
          by (simp add: take_take_append del: take_append)
      next
        case ov: False
        with "2.IH"(2) [OF False 3 refl _ inv p(1)] p(2) 3 False len show ?thesis by simp
      qed
    qed
  qed
qed

section \<open>Properties\<close>

text \<open>
  C23. From power-on, after any sequence of interrupts the event buffer holds the first 63 events of
  the byte stream: the handler resynchronises at bytes without bit 3, drops packets with an overflow
  bit, and loses events only when the buffer is full.
\<close>

theorem mouse_stream: "mouse_queue (fold mouse_int bs mouse_reset) = take 63 (mouse_decode bs)"
proof -
  have "mouse_inv mouse_reset" "mouse_cycle mouse_reset = 0" "mouse_queue mouse_reset = []"
    by (simp_all add: mouse_reset_def mouse_inv_def mouse_queue_def ring_count_def)
  then show ?thesis using mouse_stream_from [of mouse_reset bs] by simp
qed

text \<open>
  Events are delivered in the order they were queued: over any interleaving of \<open>mouse_buffer_put\<close>
  and \<open>mouse_read\<close>, what was queued and what is accepted is what is delivered and what is left.
\<close>

theorem mouse_fifo:
  assumes "mouse_inv s" and "queue_run mouse_buffer_put mouse_read mouse_queue 63 ops s = (acc, del, s')"
  shows "mouse_inv s' \<and> mouse_queue s @ acc = del @ mouse_queue s'"
  using mouse_q.fifo [OF assms] .

theorem mouse_fifo_witness:
  "\<exists>s'. queue_run mouse_buffer_put mouse_read mouse_queue 63 [Put \<lparr>buttons = 1, dx = 2, dy = 3\<rparr>, Get] mouse_reset
       = ([\<lparr>buttons = 1, dx = 2, dy = 3\<rparr>], [\<lparr>buttons = 1, dx = 2, dy = 3\<rparr>], s')
     \<and> mouse_inv s' \<and> mouse_queue s' = []"
proof -
  have i: "mouse_inv mouse_reset" and q: "mouse_queue mouse_reset = []"
    by (simp_all add: mouse_reset_def mouse_inv_def mouse_queue_def ring_count_def)
  let ?ev = "\<lparr>buttons = 1, dx = 2, dy = 3\<rparr> :: mouse_event_t"
  have "fst (mouse_read (mouse_buffer_put ?ev mouse_reset)) = Some ?ev"
    by (simp add: mouse_read_def mouse_buffer_put_def mouse_reset_def MOUSE_BUFFER_SIZE_def)
  then obtain s' where r: "queue_run mouse_buffer_put mouse_read mouse_queue 63 [Put ?ev, Get] mouse_reset
      = ([?ev], [?ev], s')" by (simp add: q)
  with mouse_fifo [OF i r] q show ?thesis by simp
qed

end
