(* ===== verification/Sros_Keyboard.thy ===== *)
theory Sros_Keyboard
  imports Sros_Mouse
begin

unbundle bit_operations_syntax

text \<open>
  The keyboard driver (\<open>src/drivers/keyboard.c\<close>): the two layout tables, the modifier state, the
  interrupt handler and the character buffer. The buffer is a bounded queue of 255 characters;
  letters come out in the case that Shift and Caps Lock together ask for.
\<close>

section \<open>The driver\<close>

definition KEYBOARD_BUFFER_SIZE :: int where "KEYBOARD_BUFFER_SIZE = 256"
definition KEY_UP :: int where "KEY_UP = 0xE0"
definition KEY_DOWN :: int where "KEY_DOWN = 0xE1"
definition KEY_LEFT :: int where "KEY_LEFT = 0xE2"
definition KEY_RIGHT :: int where "KEY_RIGHT = 0xE3"

text \<open>An array of 128 bytes with designated initialisers: a run of characters from an index on.\<close>

definition put_run :: "nat \<Rightarrow> u8 list \<Rightarrow> u8 list \<Rightarrow> u8 list" where
  "put_run i cs t = take i t @ cs @ drop (i + length cs) t"

definition chars :: "string \<Rightarrow> u8 list" where
  "chars t = map of_char t"

definition kbd_us_normal :: "u8 list" where
  "kbd_us_normal =
     (put_run 0x01 [0x1B] \<circ> put_run 0x02 (chars ''1234567890-='') \<circ> put_run 0x0E [0x08, 0x09]
      \<circ> put_run 0x10 (chars ''qwertyuiop[]'') \<circ> put_run 0x1C [0x0A]
      \<circ> put_run 0x1E (chars ''asdfghjkl;'') \<circ> put_run 0x28 [0x27, 0x60] \<circ> put_run 0x2B [0x5C]
      \<circ> put_run 0x2C (chars ''zxcvbnm,./'') \<circ> put_run 0x37 (chars ''*'') \<circ> put_run 0x39 (chars '' ''))
     (replicate 128 0)"

definition kbd_us_shift :: "u8 list" where
  "kbd_us_shift =
     (put_run 0x01 [0x1B] \<circ> put_run 0x02 (chars ''!@#$%^&*()_+'') \<circ> put_run 0x0E [0x08, 0x09]
      \<circ> put_run 0x10 (chars ''QWERTYUIOP{}'') \<circ> put_run 0x1C [0x0A]
      \<circ> put_run 0x1E (chars ''ASDFGHJKL:'') \<circ> put_run 0x28 [0x22, 0x7E] \<circ> put_run 0x2B [0x7C]
      \<circ> put_run 0x2C (chars ''ZXCVBNM<>?'') \<circ> put_run 0x37 (chars ''*'') \<circ> put_run 0x39 (chars '' ''))
     (replicate 128 0)"

record kbd_state = mouse_state +
  shift_pressed :: u8
  ctrl_pressed :: u8
  caps_lock_active :: u8
  kbd_buffer :: "u8 list"
  kbd_buffer_head :: int
  kbd_buffer_tail :: int

definition kbd_buffer_put :: "int \<Rightarrow> 'a kbd_state_scheme \<Rightarrow> 'a kbd_state_scheme" where
  "kbd_buffer_put c s =
     (let nxt = (kbd_buffer_head s + 1) mod KEYBOARD_BUFFER_SIZE in
      if nxt \<noteq> kbd_buffer_tail s
      then s\<lparr>kbd_buffer := (kbd_buffer s)[nat (kbd_buffer_head s) := of_int c], kbd_buffer_head := nxt\<rparr>
      else s)"

definition kbd_buffer_get :: "'a kbd_state_scheme \<Rightarrow> int \<times> 'a kbd_state_scheme" where
  "kbd_buffer_get s =
     (if kbd_buffer_head s = kbd_buffer_tail s then (0, s)
      else (uint (kbd_buffer s ! nat (kbd_buffer_tail s)),
            s\<lparr>kbd_buffer_tail := (kbd_buffer_tail s + 1) mod KEYBOARD_BUFFER_SIZE\<rparr>))"

definition kbd_buffer_has_data :: "'a kbd_state_scheme \<Rightarrow> bool" where
  "kbd_buffer_has_data s \<longleftrightarrow> kbd_buffer_head s \<noteq> kbd_buffer_tail s"

text \<open>The part of the handler after the scan code has been read.\<close>

definition kbd_scancode :: "u8 \<Rightarrow> 'a kbd_state_scheme \<Rightarrow> 'a kbd_state_scheme" where
  "kbd_scancode scancode s =
     (if scancode AND 0x80 \<noteq> 0 then
        (let code = scancode AND 0x7F in
         if code = 0x2A \<or> code = 0x36 then s\<lparr>shift_pressed := 0\<rparr>
         else if code = 0x1D then s\<lparr>ctrl_pressed := 0\<rparr>
         else s)
      else if scancode = 0x2A \<or> scancode = 0x36 then s\<lparr>shift_pressed := 1\<rparr>
      else if scancode = 0x1D then s\<lparr>ctrl_pressed := 1\<rparr>
      else if scancode = 0x3A then
        s\<lparr>caps_lock_active := (if caps_lock_active s = 0 then 1 else 0)\<rparr>
      else
        (let ch = (if shift_pressed s \<noteq> 0 then kbd_us_shift else kbd_us_normal) ! unat scancode in
         if ch = 0 \<and> scancode = 0x48 then kbd_buffer_put KEY_UP s
         else if ch = 0 \<and> scancode = 0x50 then kbd_buffer_put KEY_DOWN s
         else if ch = 0 \<and> scancode = 0x4B then kbd_buffer_put KEY_LEFT s
         else if ch = 0 \<and> scancode = 0x4D then kbd_buffer_put KEY_RIGHT s
         else
           (let ch = (if caps_lock_active s \<noteq> 0 \<and> 0x61 \<le> ch \<and> ch \<le> 0x7A then ch - 32
                      else if caps_lock_active s \<noteq> 0 \<and> 0x41 \<le> ch \<and> ch \<le> 0x5A then ch + 32
                      else ch)
            in if ch \<noteq> 0 then kbd_buffer_put (uint ch) s else s)))"

definition keyboard_handler :: "device \<Rightarrow> 'a kbd_state_scheme \<Rightarrow> 'a kbd_state_scheme" where
  "keyboard_handler dev s =
     (let (st, s) = inb dev 0x64 s in
      if st AND 0x20 \<noteq> 0 then mouse_handler dev s
      else (let (scancode, s) = inb dev 0x60 s in kbd_scancode scancode s))"

section \<open>What the driver promises\<close>

definition kbd_inv :: "'a kbd_state_scheme \<Rightarrow> bool" where
  "kbd_inv s \<longleftrightarrow> length (kbd_buffer s) = 256 \<and> 0 \<le> kbd_buffer_head s \<and> kbd_buffer_head s < 256
     \<and> 0 \<le> kbd_buffer_tail s \<and> kbd_buffer_tail s < 256"

definition kbd_queue :: "'a kbd_state_scheme \<Rightarrow> u8 list" where
  "kbd_queue s = ring_list (kbd_buffer s) (nat (kbd_buffer_tail s))
     (ring_count 256 (nat (kbd_buffer_head s)) (nat (kbd_buffer_tail s)))"

text \<open>The letter keys: scan code and lower-case letter.\<close>

definition letter_keys :: "(nat \<times> char) list" where
  "letter_keys = zip ([0x10..<0x1A] @ [0x1E..<0x27] @ [0x2C..<0x33]) ''qwertyuiopasdfghjklzxcvbnm''"

definition key_letter :: "bool \<Rightarrow> char \<Rightarrow> u8" where
  "key_letter upper c = (if upper then of_char c - 32 else of_char c)"

text \<open>One interrupt that delivers the scan code \<open>b\<close>: the status says keyboard data is waiting.\<close>

abbreviation kbd_int :: "u8 \<Rightarrow> 'a kbd_state_scheme \<Rightarrow> 'a kbd_state_scheme" where
  "kbd_int b \<equiv> keyboard_handler (\<lambda>_ port. if port = 0x64 then 0x01 else ucast b)"

definition kbd_reset :: kbd_state where
  "kbd_reset = \<lparr>io_trace = [], mouse_buffer = replicate 64 \<lparr>buttons = 0, dx = 0, dy = 0\<rparr>,
     mouse_buf_head = 0, mouse_buf_tail = 0, mouse_cycle = 0, mouse_packet = [0, 0, 0],
     shift_pressed = 0, ctrl_pressed = 0, caps_lock_active = 0, kbd_buffer = replicate 256 0,
     kbd_buffer_head = 0, kbd_buffer_tail = 0\<rparr>"

section \<open>The character buffer is a bounded queue\<close>

text \<open>The buffer's operations on bytes, as the queue interface has them.\<close>

definition kbd_put :: "u8 \<Rightarrow> 'a kbd_state_scheme \<Rightarrow> 'a kbd_state_scheme" where
  "kbd_put b = kbd_buffer_put (uint b)"

definition kbd_get :: "'a kbd_state_scheme \<Rightarrow> u8 option \<times> 'a kbd_state_scheme" where
  "kbd_get s = (if kbd_buffer_has_data s then (Some (of_int (fst (kbd_buffer_get s))), snd (kbd_buffer_get s))
     else (None, snd (kbd_buffer_get s)))"

lemma kbd_indices:
  assumes "kbd_inv s"
  obtains h t where "kbd_buffer_head s = int h" "kbd_buffer_tail s = int t" "h < 256" "t < 256"
    "(kbd_buffer_head s + 1) mod 256 = int (Suc h mod 256)" "(kbd_buffer_tail s + 1) mod 256 = int (Suc t mod 256)"
    "length (kbd_buffer s) = 256"
proof -
  have "kbd_buffer_head s = int (nat (kbd_buffer_head s))" "kbd_buffer_tail s = int (nat (kbd_buffer_tail s))"
    "nat (kbd_buffer_head s) < 256" "nat (kbd_buffer_tail s) < 256"
    using assms by (auto simp: kbd_inv_def)
  moreover from this have "(kbd_buffer_head s + 1) mod 256 = int (Suc (nat (kbd_buffer_head s)) mod 256)"
    "(kbd_buffer_tail s + 1) mod 256 = int (Suc (nat (kbd_buffer_tail s)) mod 256)"
    by (simp_all add: of_nat_mod add.commute)
  moreover have "length (kbd_buffer s) = 256" using assms by (simp add: kbd_inv_def)
  ultimately show thesis by (rule that)
qed

lemma kbd_buffer_put_inv [sros_inv]: "kbd_inv s \<Longrightarrow> kbd_inv (kbd_buffer_put c s)"
  by (auto simp: kbd_inv_def kbd_buffer_put_def KEYBOARD_BUFFER_SIZE_def Let_def)

lemma kbd_buffer_put_queue:
  assumes "kbd_inv s"
  shows "kbd_queue (kbd_buffer_put c s) =
    (if length (kbd_queue s) < 255 then kbd_queue s @ [of_int c] else kbd_queue s)"
proof -
  obtain h t where i: "kbd_buffer_head s = int h" "kbd_buffer_tail s = int t" "h < 256" "t < 256"
    "(kbd_buffer_head s + 1) mod 256 = int (Suc h mod 256)" "length (kbd_buffer s) = 256"
    using assms by (rule kbd_indices)
  note c = ring_count_props [OF i(3,4)]
  show ?thesis
  proof (cases "Suc h mod 256 = t")
    case True
    then show ?thesis
      using c(5) i by (simp add: kbd_buffer_put_def KEYBOARD_BUFFER_SIZE_def kbd_queue_def)
  next
    case False
    have "ring_count 256 h t < 255"
      using c(4) [OF False] ring_count_props(1) [of "Suc h mod 256" 256 t] i(4) by simp
    moreover have "ring_list ((kbd_buffer s)[h := of_int c]) t (Suc (ring_count 256 h t))
        = ring_list (kbd_buffer s) t (ring_count 256 h t) @ [of_int c]"
      using c(1,2) i(6) by (intro ring_list_put) simp_all
    ultimately show ?thesis
      unfolding kbd_buffer_put_def KEYBOARD_BUFFER_SIZE_def i(5) Let_def
      using False c(4) [OF False] i(1-4) by (simp add: kbd_queue_def)
  qed
qed

lemma kbd_get_queue:
  assumes "kbd_inv s"
  shows "(kbd_queue s = [] \<and> fst (kbd_get s) = None \<and> kbd_queue (snd (kbd_get s)) = [])
    \<or> (\<exists>x. fst (kbd_get s) = Some x \<and> kbd_queue s = x # kbd_queue (snd (kbd_get s)))"
proof -
  obtain h t where i: "kbd_buffer_head s = int h" "kbd_buffer_tail s = int t" "h < 256" "t < 256"
    "(kbd_buffer_tail s + 1) mod 256 = int (Suc t mod 256)" "length (kbd_buffer s) = 256"
    using assms by (rule kbd_indices)
  note c = ring_count_props [OF i(3,4)]
  show ?thesis
  proof (cases "h = t")
    case True
    then show ?thesis
      using c(3) i(1,2) by (simp add: kbd_queue_def kbd_get_def kbd_buffer_get_def kbd_buffer_has_data_def)
  next
    case False
    have "kbd_queue s = kbd_buffer s ! t # ring_list (kbd_buffer s) (Suc t mod 256) (ring_count 256 h (Suc t mod 256))"
      using c(6) [OF False] ring_list_get [of t "kbd_buffer s"] i by (simp add: kbd_queue_def)
    moreover have "kbd_buffer_get s = (uint (kbd_buffer s ! t), s\<lparr>kbd_buffer_tail := int (Suc t mod 256)\<rparr>)"
      unfolding kbd_buffer_get_def KEYBOARD_BUFFER_SIZE_def i(5) using False i(1,2) by simp
    ultimately show ?thesis
      using False i(1,2) by (simp add: kbd_get_def kbd_buffer_has_data_def kbd_queue_def)
  qed
qed

lemma kbd_get_inv [sros_inv]: "kbd_inv s \<Longrightarrow> kbd_inv (snd (kbd_get s))"
  by (auto simp: kbd_inv_def kbd_get_def kbd_buffer_get_def KEYBOARD_BUFFER_SIZE_def)

interpretation kbd_q: bounded_queue kbd_put kbd_get kbd_inv kbd_queue 255
  by unfold_locales
    (simp_all add: kbd_put_def kbd_buffer_put_inv kbd_buffer_put_queue kbd_get_inv kbd_get_queue)

section \<open>Letters\<close>

lemma put_run_nth:
  "i + length cs \<le> length t \<Longrightarrow> j < length t \<Longrightarrow>
    put_run i cs t ! j = (if i \<le> j \<and> j < i + length cs then cs ! (j - i) else t ! j)"
  by (auto simp: put_run_def nth_append min_def)

lemma put_run_length: "i + length cs \<le> length t \<Longrightarrow> length (put_run i cs t) = length t"
  by (simp add: put_run_def)

lemma letter_keys_list: "letter_keys = [(16, CHR ''q''), (17, CHR ''w''), (18, CHR ''e''), (19, CHR ''r''), (20, CHR ''t''),
  (21, CHR ''y''), (22, CHR ''u''), (23, CHR ''i''), (24, CHR ''o''), (25, CHR ''p''), (30, CHR ''a''), (31, CHR ''s''),
  (32, CHR ''d''), (33, CHR ''f''), (34, CHR ''g''), (35, CHR ''h''), (36, CHR ''j''), (37, CHR ''k''), (38, CHR ''l''),
  (44, CHR ''z''), (45, CHR ''x''), (46, CHR ''c''), (47, CHR ''v''), (48, CHR ''b''), (49, CHR ''n''), (50, CHR ''m'')]"
  by (simp add: letter_keys_def upt_rec)

lemma chars_simps: "chars [] = []" "chars (c # cs) = of_char c # chars cs"
  by (simp_all add: chars_def)

lemma table_halves: "replicate 128 0 = replicate 64 0 @ replicate 64 (0 :: u8)"
  by (simp flip: replicate_add)

lemma kbd_us_normal_list: "kbd_us_normal =
   [0x00, 0x1B, 0x31, 0x32, 0x33, 0x34, 0x35, 0x36, 0x37, 0x38, 0x39, 0x30, 0x2D, 0x3D, 0x08, 0x09, 0x71, 0x77,
    0x65, 0x72, 0x74, 0x79, 0x75, 0x69, 0x6F, 0x70, 0x5B, 0x5D, 0x0A, 0x00, 0x61, 0x73, 0x64, 0x66, 0x67, 0x68,
    0x6A, 0x6B, 0x6C, 0x3B, 0x27, 0x60, 0x00, 0x5C, 0x7A, 0x78, 0x63, 0x76, 0x62, 0x6E, 0x6D, 0x2C, 0x2E, 0x2F,
    0x00, 0x2A, 0x00, 0x20, 0x00, 0x00, 0x00, 0x00, 0x00, 0x00] @ replicate 64 0"
  unfolding kbd_us_normal_def table_halves by (simp add: put_run_def chars_simps numeral_nat)

lemma kbd_us_shift_list: "kbd_us_shift =
   [0x00, 0x1B, 0x21, 0x40, 0x23, 0x24, 0x25, 0x5E, 0x26, 0x2A, 0x28, 0x29, 0x5F, 0x2B, 0x08, 0x09, 0x51, 0x57,
    0x45, 0x52, 0x54, 0x59, 0x55, 0x49, 0x4F, 0x50, 0x7B, 0x7D, 0x0A, 0x00, 0x41, 0x53, 0x44, 0x46, 0x47, 0x48,
    0x4A, 0x4B, 0x4C, 0x3A, 0x22, 0x7E, 0x00, 0x7C, 0x5A, 0x58, 0x43, 0x56, 0x42, 0x4E, 0x4D, 0x3C, 0x3E, 0x3F,
    0x00, 0x2A, 0x00, 0x20, 0x00, 0x00, 0x00, 0x00, 0x00, 0x00] @ replicate 64 0"
  unfolding kbd_us_shift_def table_halves by (simp add: put_run_def chars_simps numeral_nat)

lemma letter_tables: "list_all (\<lambda>(sc, c). kbd_us_normal ! sc = key_letter False c \<and> kbd_us_shift ! sc = key_letter True c) letter_keys"
  unfolding letter_keys_list kbd_us_normal_list kbd_us_shift_list by (simp add: key_letter_def)

lemma letter_tables_at:
  assumes "(sc, c) \<in> set letter_keys"
  shows "kbd_us_normal ! sc = key_letter False c" "kbd_us_shift ! sc = key_letter True c"
  using letter_tables assms by (auto simp: list_all_iff)

lemma letter_ranges:
  assumes "(sc, c) \<in> set letter_keys"
  shows "0x61 \<le> (of_char c :: u8)" "(of_char c :: u8) \<le> 0x7A" "sc < 0x80"
    "sc \<notin> {0x2A, 0x36, 0x1D, 0x3A, 0x48, 0x50, 0x4B, 0x4D}"
  using assms unfolding letter_keys_list
  by (simp only: set_simps insert_iff empty_iff prod.inject simp_thms, elim disjE conjE; simp)+

lemma kbd_int_eq:
  "kbd_int b s = kbd_scancode b (s\<lparr>io_trace := (io_trace s @ [In8 0x64 1]) @ [In8 0x60 b]\<rparr>)"
  by (simp add: keyboard_handler_def inb_def Let_def)

lemma kbd_trace_irrelevant [simp]:
  "kbd_inv (s\<lparr>io_trace := tr\<rparr>) = kbd_inv s" "kbd_queue (s\<lparr>io_trace := tr\<rparr>) = kbd_queue s"
  by (simp_all add: kbd_inv_def kbd_queue_def)

lemma letter_codes:
  assumes "(sc, c) \<in> set letter_keys"
  shows "unat (of_nat sc :: u8) = sc" "(of_nat sc :: u8) AND 0x80 = 0"
    "(of_nat sc :: u8) \<notin> {0x2A, 0x36, 0x1D, 0x3A, 0x48, 0x50, 0x4B, 0x4D}"
  using assms unfolding letter_keys_list
  by (simp only: set_simps insert_iff empty_iff prod.inject simp_thms, elim disjE conjE; simp)+

lemma kbd_scancode_letter:
  assumes "(sc, c) \<in> set letter_keys"
  shows "kbd_scancode (of_nat sc) s =
    kbd_buffer_put (uint (key_letter ((shift_pressed s \<noteq> 0) \<noteq> (caps_lock_active s \<noteq> 0)) c)) s"
proof -
  note r = letter_ranges [OF assms] and k = letter_codes [OF assms]
  have up: "0x41 \<le> (of_char c :: u8) - 32" "(of_char c :: u8) - 32 \<le> 0x5A" "\<not> 0x61 \<le> (of_char c :: u8) - 32"
    "(of_char c :: u8) - 32 \<noteq> 0" "(of_char c :: u8) \<noteq> 0"
    using r(1,2) by (auto simp: word_le_nat_alt unat_sub_if' word_unat_eq_iff)
  have ch: "(if shift_pressed s \<noteq> 0 then kbd_us_shift else kbd_us_normal) ! unat (of_nat sc :: u8)
      = key_letter (shift_pressed s \<noteq> 0) c"
    unfolding k(1) using letter_tables_at [OF assms] by simp
  show ?thesis
    unfolding kbd_scancode_def Let_def ch using k(2,3) r(1,2) up by (auto simp: key_letter_def)
qed

section \<open>Properties\<close>

text \<open>
  A letter key queues its letter, in upper case exactly when one of Shift and Caps Lock is active
  but not both.
\<close>

theorem keyboard_letter:
  assumes "kbd_inv s" and "(sc, c) \<in> set letter_keys" and "length (kbd_queue s) < 255"
  shows "kbd_queue (kbd_int (of_nat sc) s) =
    kbd_queue s @ [key_letter ((shift_pressed s \<noteq> 0) \<noteq> (caps_lock_active s \<noteq> 0)) c]"
  unfolding kbd_int_eq kbd_scancode_letter [OF assms(2)]
  using assms(1,3) by (simp add: kbd_buffer_put_queue)

theorem keyboard_letter_witness:
  "kbd_queue (kbd_int (of_nat 0x1E) (kbd_reset\<lparr>shift_pressed := 1\<rparr>)) = [of_char CHR ''A'']"
proof -
  have "kbd_inv (kbd_reset\<lparr>shift_pressed := 1\<rparr>)" "kbd_queue (kbd_reset\<lparr>shift_pressed := 1\<rparr>) = []"
    by (simp_all add: kbd_reset_def kbd_inv_def kbd_queue_def ring_count_def)
  with keyboard_letter [of "kbd_reset\<lparr>shift_pressed := 1\<rparr>" "0x1E" "CHR ''a''"]
  show ?thesis by (simp add: letter_keys_list key_letter_def kbd_reset_def)
qed

text \<open>
  Characters are read in the order they were typed: over any interleaving of buffer writes and
  reads, what was queued and what is accepted is what is delivered and what is left.
\<close>

theorem keyboard_fifo:
  assumes "kbd_inv s" and "queue_run kbd_put kbd_get kbd_queue 255 ops s = (acc, del, s')"
  shows "kbd_inv s' \<and> kbd_queue s @ acc = del @ kbd_queue s'"
  using kbd_q.fifo [OF assms] .

theorem keyboard_fifo_witness:
  "\<exists>s'. queue_run kbd_put kbd_get kbd_queue 255 [Put 65, Get] kbd_reset = ([65], [65], s')
     \<and> kbd_inv s' \<and> kbd_queue s' = []"
proof -
  have i: "kbd_inv kbd_reset" and q: "kbd_queue kbd_reset = []"
    by (simp_all add: kbd_reset_def kbd_inv_def kbd_queue_def ring_count_def)
  have "fst (kbd_get (kbd_put 65 kbd_reset)) = Some 65"
    by (simp add: kbd_get_def kbd_put_def kbd_buffer_get_def kbd_buffer_put_def kbd_buffer_has_data_def
        kbd_reset_def KEYBOARD_BUFFER_SIZE_def)
  then obtain s' where r: "queue_run kbd_put kbd_get kbd_queue 255 [Put 65, Get] kbd_reset = ([65], [65], s')"
    by (simp add: q)
  with keyboard_fifo [OF i r] q show ?thesis by simp
qed

end
