(* ===== verification/Sros_Machine.thy ===== *)
theory Sros_Machine
  imports Sros_Memory Sros_Serial
begin

unbundle bit_operations_syntax

text \<open>
  The machine as kernel code sees it: physical memory behind the page tables of the 32-bit MMU, the
  control register \<open>cr3\<close>, the stack of free page frames, and the log of \<open>serial_printf\<close> calls (the
  bytes of each call are the subject of \<open>Sros_Serial\<close>). Kernel functions that can stop the machine
  return an error value; \<open>bind_res\<close> sequences them.
\<close>

section \<open>Results\<close>

text \<open>
  The ways kernel code fails to continue: \<open>panic\<close>, a page fault (whose handler panics), an access
  beyond an array of the kernel, an access through a null pointer, and \<open>cli; hlt\<close>.
\<close>

datatype kerr = Panic string | PageFault u32 | Overrun | NullDeref | Halted

type_synonym 'a kres = "kerr + 'a"

fun bind_res :: "'a kres \<Rightarrow> ('a \<Rightarrow> 'b kres) \<Rightarrow> 'b kres" where
  "bind_res (Inl e) f = Inl e"
| "bind_res (Inr x) f = f x"

lemma bind_res_Inr_iff: "bind_res r f = Inr y \<longleftrightarrow> (\<exists>x. r = Inr x \<and> f x = Inr y)"
  by (cases r) auto

lemma bind_res_assoc: "bind_res (bind_res r f) g = bind_res r (\<lambda>x. bind_res (f x) g)"
  by (cases r) auto

text \<open>A loop over the elements of a list, stopped by the first error.\<close>

fun fold_res :: "('a \<Rightarrow> 's \<Rightarrow> 's kres) \<Rightarrow> 'a list \<Rightarrow> 's \<Rightarrow> 's kres" where
  "fold_res f [] s = Inr s"
| "fold_res f (x # xs) s = bind_res (f x s) (fold_res f xs)"

lemma fold_res_append: "fold_res f (xs @ ys) s = bind_res (fold_res f xs s) (fold_res f ys)"
proof (induction xs arbitrary: s)
  case (Cons x xs)
  then show ?case by (cases "f x s") simp_all
qed simp

lemma fold_res_inv:
  assumes "\<And>x s s'. x \<in> set xs \<Longrightarrow> I s \<Longrightarrow> f x s = Inr s' \<Longrightarrow> I s'" and "I s" and "fold_res f xs s = Inr s'"
  shows "I s'"
  using assms by (induction xs arbitrary: s) (auto simp: bind_res_Inr_iff)

section \<open>The machine state\<close>

record machine =
  phys :: mem
  cr3 :: u32
  paging :: bool
  page_frames :: "u32 list"
  page_frame_count :: int
  serial_log :: "(string \<times> arg list) list"

definition klog :: "string \<Rightarrow> arg list \<Rightarrow> 'a machine_scheme \<Rightarrow> 'a machine_scheme" where
  "klog fmt as s = s\<lparr>serial_log := serial_log s @ [(fmt, as)]\<rparr>"

text \<open>A printed line.\<close>

abbreviation klogln :: "string \<Rightarrow> arg list \<Rightarrow> 'a machine_scheme \<Rightarrow> 'a machine_scheme" where
  "klogln fmt as \<equiv> klog (fmt @ [LF]) as"

abbreviation AI :: "int \<Rightarrow> arg" where "AI i \<equiv> AInt (of_int i)"

section \<open>Address translation\<close>

text \<open>
  The two-level walk of a supervisor access: the entries must be present; write protection does not
  apply to supervisor accesses while CR0.WP is clear, and the kernel never sets it.
\<close>

definition pd_index :: "u32 \<Rightarrow> u32" where "pd_index va = drop_bit 22 va"
definition pt_index :: "u32 \<Rightarrow> u32" where "pt_index va = drop_bit 12 va AND 0x3FF"

definition pde_at :: "mem \<Rightarrow> u32 \<Rightarrow> u32 \<Rightarrow> u32" where
  "pde_at m pd i = load32 m ((pd AND 0xFFFFF000) + i * 4)"

definition pte_at :: "mem \<Rightarrow> u32 \<Rightarrow> u32 \<Rightarrow> u32" where
  "pte_at m pde i = load32 m ((pde AND 0xFFFFF000) + i * 4)"

definition translate :: "'a machine_scheme \<Rightarrow> u32 \<Rightarrow> u32 option" where
  "translate s va =
     (if \<not> paging s then Some va
      else (let pde = pde_at (phys s) (cr3 s) (pd_index va) in
        if pde AND 1 = 0 then None
        else (let pte = pte_at (phys s) pde (pt_index va) in
          if pte AND 1 = 0 then None else Some ((pte AND 0xFFFFF000) OR (va AND 0xFFF)))))"

definition vload8 :: "u32 \<Rightarrow> 'a machine_scheme \<Rightarrow> u8 kres" where
  "vload8 va s = (case translate s va of None \<Rightarrow> Inl (PageFault va) | Some pa \<Rightarrow> Inr (phys s pa))"

definition vstore8 :: "u32 \<Rightarrow> u8 \<Rightarrow> 'a machine_scheme \<Rightarrow> 'a machine_scheme kres" where
  "vstore8 va v s = (case translate s va of None \<Rightarrow> Inl (PageFault va)
     | Some pa \<Rightarrow> Inr (s\<lparr>phys := (phys s)(pa := v)\<rparr>))"

text \<open>Aligned 32-bit accesses, which never cross a page.\<close>

definition vload32 :: "u32 \<Rightarrow> 'a machine_scheme \<Rightarrow> u32 kres" where
  "vload32 va s = (case translate s va of None \<Rightarrow> Inl (PageFault va) | Some pa \<Rightarrow> Inr (load32 (phys s) pa))"

definition vstore32 :: "u32 \<Rightarrow> u32 \<Rightarrow> 'a machine_scheme \<Rightarrow> 'a machine_scheme kres" where
  "vstore32 va v s = (case translate s va of None \<Rightarrow> Inl (PageFault va)
     | Some pa \<Rightarrow> Inr (s\<lparr>phys := store32 (phys s) pa v\<rparr>))"

section \<open>\<open>memset\<close> and \<open>memcpy\<close> on mapped memory\<close>

text \<open>\<open>memset\<close> writes from the last byte down, \<open>memcpy\<close> from the first byte up.\<close>

fun vmemset :: "u32 \<Rightarrow> u8 \<Rightarrow> nat \<Rightarrow> 'a machine_scheme \<Rightarrow> 'a machine_scheme kres" where
  "vmemset p c 0 s = Inr s"
| "vmemset p c (Suc n) s = bind_res (vstore8 (p + of_nat n) c s) (vmemset p c n)"

fun vmemcpy :: "u32 \<Rightarrow> u32 \<Rightarrow> nat \<Rightarrow> 'a machine_scheme \<Rightarrow> 'a machine_scheme kres" where
  "vmemcpy d p 0 s = Inr s"
| "vmemcpy d p (Suc n) s =
     bind_res (vload8 p s) (\<lambda>b. bind_res (vstore8 d b s) (vmemcpy (d + 1) (p + 1) n))"

text \<open>Memory accesses change nothing but physical memory.\<close>

lemma vstore8_only: "vstore8 va v s = Inr s' \<Longrightarrow> \<exists>m. s' = s\<lparr>phys := m\<rparr>"
  by (auto simp: vstore8_def split: option.splits)

lemma vstore32_only: "vstore32 va v s = Inr s' \<Longrightarrow> \<exists>m. s' = s\<lparr>phys := m\<rparr>"
  by (auto simp: vstore32_def split: option.splits)

lemma vmemset_only: "vmemset p c n s = Inr s' \<Longrightarrow> \<exists>m. s' = s\<lparr>phys := m\<rparr>"
proof (induction n arbitrary: s)
  case 0
  then show ?case by (auto intro: exI [of _ "phys s"])
next
  case (Suc n)
  then obtain t where t: "vstore8 (p + of_nat n) c s = Inr t" "vmemset p c n t = Inr s'"
    by (auto simp: bind_res_Inr_iff)
  from vstore8_only [OF t(1)] Suc.IH [OF t(2)] show ?case by auto
qed

lemma vmemcpy_only: "vmemcpy d p n s = Inr s' \<Longrightarrow> \<exists>m. s' = s\<lparr>phys := m\<rparr>"
proof (induction n arbitrary: d p s)
  case 0
  then show ?case by (auto intro: exI [of _ "phys s"])
next
  case (Suc n)
  then obtain b t where t: "vstore8 d b s = Inr t" "vmemcpy (d + 1) (p + 1) n t = Inr s'"
    by (auto simp: bind_res_Inr_iff)
  from vstore8_only [OF t(1)] Suc.IH [OF t(2)] show ?case by auto
qed

end
