(* ===== verification/Sros_Taskq.thy ===== *)
theory Sros_Taskq
  imports Sros_Machine
begin

text \<open>
  The process table and the singly linked task queues threaded through it. A task is an index into
  the table and a task pointer is an optional index, null being \<open>None\<close>; all queues share the one
  \<open>next\<close> field of a task, so a queue is meaningful only while its tasks are in no other queue.
  \<open>q_append\<close> and \<open>q_pop\<close> are the two list operations of \<open>src/kernel/scheduler.c\<close>, which
  \<open>src/kernel/ipc.c\<close> repeats for its wait queues.
\<close>

section \<open>Tasks\<close>

record task_t =
  pid :: int
  parent_pid :: int
  state :: int
  exit_code :: int
  kernel_esp :: u32
  kernel_stack_base :: u32
  kernel_stack_top :: u32
  page_dir :: u32
  name :: string
  next_task :: "nat option"

definition MAX_TASKS :: nat where "MAX_TASKS = 64"
definition TASK_NAME_MAX :: nat where "TASK_NAME_MAX = 32"
definition TASK_READY :: int where "TASK_READY = 0"
definition TASK_RUNNING :: int where "TASK_RUNNING = 1"
definition TASK_BLOCKED :: int where "TASK_BLOCKED = 2"
definition TASK_ZOMBIE :: int where "TASK_ZOMBIE = 3"

lemmas task_consts = MAX_TASKS_def TASK_NAME_MAX_def TASK_READY_def TASK_RUNNING_def
  TASK_BLOCKED_def TASK_ZOMBIE_def

type_synonym task_tab = "task_t list"
type_synonym task_ptr = "nat option"

definition set_next :: "nat \<Rightarrow> task_ptr \<Rightarrow> task_tab \<Rightarrow> task_tab" where
  "set_next i p tbl = tbl[i := (tbl ! i)\<lparr>next_task := p\<rparr>]"

section \<open>Queue operations\<close>

definition q_append :: "task_tab \<Rightarrow> task_ptr \<Rightarrow> task_ptr \<Rightarrow> nat \<Rightarrow> task_tab \<times> task_ptr \<times> task_ptr" where
  "q_append tbl qh qt i =
     (let tbl = set_next i None tbl in
      case qt of
        Some t \<Rightarrow> (set_next t (Some i) tbl, qh, Some i)
      | None \<Rightarrow> (tbl, Some i, Some i))"

definition q_pop :: "task_tab \<Rightarrow> task_ptr \<Rightarrow> task_ptr \<Rightarrow> task_ptr \<times> task_tab \<times> task_ptr \<times> task_ptr" where
  "q_pop tbl qh qt =
     (case qh of
        None \<Rightarrow> (None, tbl, qh, qt)
      | Some i \<Rightarrow>
          (let qh = next_task (tbl ! i);
               qt = (if qh = None then None else qt)
           in (Some i, set_next i None tbl, qh, qt)))"

section \<open>The tasks of a queue\<close>

fun linked :: "task_tab \<Rightarrow> nat list \<Rightarrow> bool" where
  "linked tbl [] \<longleftrightarrow> True"
| "linked tbl [x] \<longleftrightarrow> next_task (tbl ! x) = None"
| "linked tbl (x # y # zs) \<longleftrightarrow> next_task (tbl ! x) = Some y \<and> linked tbl (y # zs)"

definition queue_rep :: "task_tab \<Rightarrow> task_ptr \<Rightarrow> task_ptr \<Rightarrow> nat list \<Rightarrow> bool" where
  "queue_rep tbl qh qt xs \<longleftrightarrow> distinct xs \<and> (\<forall>i\<in>set xs. i < length tbl) \<and> linked tbl xs
     \<and> qh = (if xs = [] then None else Some (hd xs)) \<and> qt = (if xs = [] then None else Some (last xs))"

text \<open>Two tables whose tasks differ at most in the \<open>next\<close> field.\<close>

definition same_but_next :: "task_tab \<Rightarrow> task_tab \<Rightarrow> bool" where
  "same_but_next tbl tbl' \<longleftrightarrow> length tbl' = length tbl
     \<and> (\<forall>i. (tbl' ! i)\<lparr>next_task := None\<rparr> = (tbl ! i)\<lparr>next_task := None\<rparr>)"

lemma set_next_nth: "i < length tbl \<Longrightarrow> set_next i p tbl ! j = (if i = j then (tbl ! i)\<lparr>next_task := p\<rparr> else tbl ! j)"
  by (simp add: set_next_def nth_list_update)

lemma length_set_next [simp]: "length (set_next i p tbl) = length tbl"
  by (simp add: set_next_def)

lemma same_but_next_refl [simp]: "same_but_next tbl tbl"
  by (simp add: same_but_next_def)

lemma same_but_next_trans: "same_but_next a b \<Longrightarrow> same_but_next b c \<Longrightarrow> same_but_next a c"
  by (simp add: same_but_next_def)

lemma same_but_next_set_next: "i < length tbl \<Longrightarrow> same_but_next tbl (set_next i p tbl)"
  by (simp add: same_but_next_def set_next_nth)

lemma same_but_next_fields:
  assumes "same_but_next tbl tbl'"
  shows "length tbl' = length tbl" "pid (tbl' ! i) = pid (tbl ! i)" "parent_pid (tbl' ! i) = parent_pid (tbl ! i)"
    "state (tbl' ! i) = state (tbl ! i)" "exit_code (tbl' ! i) = exit_code (tbl ! i)"
    "kernel_esp (tbl' ! i) = kernel_esp (tbl ! i)" "kernel_stack_base (tbl' ! i) = kernel_stack_base (tbl ! i)"
    "kernel_stack_top (tbl' ! i) = kernel_stack_top (tbl ! i)" "page_dir (tbl' ! i) = page_dir (tbl ! i)"
    "name (tbl' ! i) = name (tbl ! i)"
proof -
  have "(tbl' ! i)\<lparr>next_task := None\<rparr> = (tbl ! i)\<lparr>next_task := None\<rparr>" "length tbl' = length tbl"
    using assms by (auto simp: same_but_next_def)
  then show "length tbl' = length tbl" "pid (tbl' ! i) = pid (tbl ! i)" "parent_pid (tbl' ! i) = parent_pid (tbl ! i)"
    "state (tbl' ! i) = state (tbl ! i)" "exit_code (tbl' ! i) = exit_code (tbl ! i)"
    "kernel_esp (tbl' ! i) = kernel_esp (tbl ! i)" "kernel_stack_base (tbl' ! i) = kernel_stack_base (tbl ! i)"
    "kernel_stack_top (tbl' ! i) = kernel_stack_top (tbl ! i)" "page_dir (tbl' ! i) = page_dir (tbl ! i)"
    "name (tbl' ! i) = name (tbl ! i)"
    by (cases "tbl' ! i"; cases "tbl ! i"; simp)+
qed

lemma linked_cong: "(\<And>i. i \<in> set xs \<Longrightarrow> next_task (tbl' ! i) = next_task (tbl ! i)) \<Longrightarrow> linked tbl' xs = linked tbl xs"
  by (induction tbl xs rule: linked.induct) auto

text \<open>A queue depends only on the \<open>next\<close> fields of its own tasks.\<close>

lemma queue_rep_cong:
  "queue_rep tbl qh qt xs \<Longrightarrow> (\<And>i. i \<in> set xs \<Longrightarrow> next_task (tbl' ! i) = next_task (tbl ! i))
    \<Longrightarrow> length tbl' = length tbl \<Longrightarrow> queue_rep tbl' qh qt xs"
  using linked_cong [of xs tbl' tbl] by (auto simp: queue_rep_def)

lemma linked_snoc:
  "linked tbl xs \<Longrightarrow> xs \<noteq> [] \<Longrightarrow> distinct (xs @ [i]) \<Longrightarrow> \<forall>j\<in>set (xs @ [i]). j < length tbl
    \<Longrightarrow> linked (set_next (last xs) (Some i) (set_next i None tbl)) (xs @ [i])"
proof (induction tbl xs rule: linked.induct)
  case (3 tbl x y zs)
  have "x \<noteq> last (y # zs)" "x \<noteq> i" using "3.prems"(3) by auto
  then show ?case using 3 by (auto simp: set_next_nth)
qed (auto simp: set_next_nth)

lemma q_append_rep:
  assumes "queue_rep tbl qh qt xs" and "i < length tbl" and "i \<notin> set xs"
    and "q_append tbl qh qt i = (tbl', qh', qt')"
  shows "queue_rep tbl' qh' qt' (xs @ [i])"
proof (cases "xs = []")
  case True
  then show ?thesis using assms by (auto simp: queue_rep_def q_append_def set_next_nth Let_def)
next
  case False
  have q: "distinct xs" "\<forall>i\<in>set xs. i < length tbl" "linked tbl xs" "qt = Some (last xs)" "qh = Some (hd xs)"
    using assms(1) False by (auto simp: queue_rep_def)
  then have "linked (set_next (last xs) (Some i) (set_next i None tbl)) (xs @ [i])"
    using assms(2,3) False by (intro linked_snoc) auto
  then show ?thesis
    using assms q False by (auto simp: queue_rep_def q_append_def Let_def)
qed

lemma q_append_frame:
  assumes "queue_rep tbl qh qt xs" and "i < length tbl" and "q_append tbl qh qt i = (tbl', qh', qt')"
  shows "same_but_next tbl tbl'" and "\<And>j. j \<notin> set xs \<Longrightarrow> j \<noteq> i \<Longrightarrow> tbl' ! j = tbl ! j"
proof -
  have t: "t < length tbl \<and> t \<in> set xs" if "qt = Some t" for t
    using assms(1) that by (auto simp: queue_rep_def split: if_splits)
  show "same_but_next tbl tbl'"
    using assms(2,3) t by (auto simp: q_append_def Let_def split: option.splits
        intro: same_but_next_set_next same_but_next_trans [OF same_but_next_set_next same_but_next_set_next])
  show "tbl' ! j = tbl ! j" if "j \<notin> set xs" "j \<noteq> i" for j
    using assms(2,3) t that by (auto simp: q_append_def Let_def set_next_nth split: option.splits)
qed

lemma q_pop_rep:
  assumes "queue_rep tbl qh qt xs" and "q_pop tbl qh qt = (r, tbl', qh', qt')"
  shows "r = (if xs = [] then None else Some (hd xs))" "queue_rep tbl' qh' qt' (tl xs)"
proof -
  show "r = (if xs = [] then None else Some (hd xs))"
    using assms by (auto simp: queue_rep_def q_pop_def Let_def split: option.splits if_splits)
  show "queue_rep tbl' qh' qt' (tl xs)"
  proof (cases xs)
    case Nil
    then show ?thesis using assms by (auto simp: queue_rep_def q_pop_def)
  next
    case (Cons x ys)
    have x: "x < length tbl" "x \<notin> set ys" "linked tbl (x # ys)" "qh = Some x" "qt = Some (last xs)"
      using assms(1) Cons by (auto simp: queue_rep_def)
    have "linked (set_next x None tbl) ys = linked tbl ys"
      using x(1,2) by (intro linked_cong) (auto simp: set_next_nth)
    moreover have "linked tbl ys" using x(3) by (cases ys) auto
    ultimately have "linked (set_next x None tbl) ys" by simp
    moreover have "next_task (tbl ! x) = (if ys = [] then None else Some (hd ys))"
      using x(3) by (cases ys) auto
    ultimately show ?thesis
      using assms Cons x by (auto simp: queue_rep_def q_pop_def Let_def split: if_splits)
  qed
qed

lemma q_pop_frame:
  assumes "queue_rep tbl qh qt xs" and "q_pop tbl qh qt = (r, tbl', qh', qt')"
  shows "same_but_next tbl tbl'" and "\<And>j. j \<notin> set xs \<Longrightarrow> tbl' ! j = tbl ! j"
    and "xs \<noteq> [] \<Longrightarrow> next_task (tbl' ! hd xs) = None"
proof -
  have h: "hd xs < length tbl" "hd xs \<in> set xs" "tbl' = set_next (hd xs) None tbl" if "xs \<noteq> []"
    using assms that by (auto simp: queue_rep_def q_pop_def Let_def)
  have e: "tbl' = tbl" if "xs = []" using assms that by (auto simp: queue_rep_def q_pop_def)
  show "same_but_next tbl tbl'"
  proof (cases "xs = []")
    case True
    then show ?thesis using e by simp
  next
    case False
    then show ?thesis using h same_but_next_set_next by simp
  qed
  from h show "xs \<noteq> [] \<Longrightarrow> next_task (tbl' ! hd xs) = None" by (simp add: set_next_nth)
  show "tbl' ! j = tbl ! j" if "j \<notin> set xs" for j
  proof (cases "xs = []")
    case True
    then show ?thesis using e by simp
  next
    case False
    then have "hd xs \<noteq> j" using h(2) that by blast
    then show ?thesis using h(1,3) False by (simp add: set_next_nth)
  qed
qed

section \<open>The queue interface\<close>

text \<open>
  What the scheduler and the wait queues rely on. The client's lemma is the round-robin step: a task
  appended and the first one taken out.
\<close>

locale task_queue =
  fixes append :: "task_tab \<Rightarrow> task_ptr \<Rightarrow> task_ptr \<Rightarrow> nat \<Rightarrow> task_tab \<times> task_ptr \<times> task_ptr"
    and pop :: "task_tab \<Rightarrow> task_ptr \<Rightarrow> task_ptr \<Rightarrow> task_ptr \<times> task_tab \<times> task_ptr \<times> task_ptr"
    and rep :: "task_tab \<Rightarrow> task_ptr \<Rightarrow> task_ptr \<Rightarrow> nat list \<Rightarrow> bool"
  assumes append_rep: "rep tbl h t xs \<Longrightarrow> i < length tbl \<Longrightarrow> i \<notin> set xs \<Longrightarrow> append tbl h t i = (tbl', h', t')
      \<Longrightarrow> rep tbl' h' t' (xs @ [i])"
    and append_same: "rep tbl h t xs \<Longrightarrow> i < length tbl \<Longrightarrow> append tbl h t i = (tbl', h', t')
      \<Longrightarrow> same_but_next tbl tbl'"
    and append_other: "rep tbl h t xs \<Longrightarrow> i < length tbl \<Longrightarrow> append tbl h t i = (tbl', h', t')
      \<Longrightarrow> j \<notin> set xs \<Longrightarrow> j \<noteq> i \<Longrightarrow> tbl' ! j = tbl ! j"
    and pop_rep: "rep tbl h t xs \<Longrightarrow> pop tbl h t = (r, tbl', h', t')
      \<Longrightarrow> r = (if xs = [] then None else Some (hd xs)) \<and> rep tbl' h' t' (tl xs)"
    and pop_same: "rep tbl h t xs \<Longrightarrow> pop tbl h t = (r, tbl', h', t') \<Longrightarrow> same_but_next tbl tbl'"
    and pop_other: "rep tbl h t xs \<Longrightarrow> pop tbl h t = (r, tbl', h', t') \<Longrightarrow> j \<notin> set xs \<Longrightarrow> tbl' ! j = tbl ! j"
begin

lemma rotate:
  assumes "rep tbl h t xs" and "i < length tbl" and "i \<notin> set xs" and "append tbl h t i = (tbl1, h1, t1)"
    and "pop tbl1 h1 t1 = (r, tbl2, h2, t2)"
  shows "r = Some (hd (xs @ [i]))" "rep tbl2 h2 t2 (tl (xs @ [i]))" "same_but_next tbl tbl2"
proof -
  have a: "rep tbl1 h1 t1 (xs @ [i])" using append_rep [OF assms(1-4)] .
  show "r = Some (hd (xs @ [i]))" "rep tbl2 h2 t2 (tl (xs @ [i]))" using pop_rep [OF a assms(5)] by auto
  show "same_but_next tbl tbl2"
    using append_same [OF assms(1,2,4)] pop_same [OF a assms(5)] same_but_next_trans by blast
qed

end

interpretation tq: task_queue q_append q_pop queue_rep
proof unfold_locales
  fix tbl h t xs r tbl' h' t'
  assume "queue_rep tbl h t xs" "q_pop tbl h t = (r, tbl', h', t')"
  from q_pop_rep [OF this] show "r = (if xs = [] then None else Some (hd xs)) \<and> queue_rep tbl' h' t' (tl xs)" by blast
qed (blast intro: q_append_rep q_append_frame q_pop_frame)+

end
