(* ===== verification/Sros_Paging.thy ===== *)
theory Sros_Paging
  imports Sros_Machine
begin

unbundle bit_operations_syntax

text \<open>
  The page frame allocator and the paging functions of \<open>src/kernel/paging.c\<close>. The TLB is not
  modelled: every access walks the tables, so \<open>invlpg\<close> has no effect.
\<close>

section \<open>Page frames\<close>

definition MAX_PAGES :: nat where "MAX_PAGES = 1024"

definition pfa_push :: "u32 \<Rightarrow> 'a machine_scheme \<Rightarrow> 'a machine_scheme kres" where
  "pfa_push phys_addr s =
     (if 0 \<le> page_frame_count s \<and> page_frame_count s < int (length (page_frames s))
      then Inr (s\<lparr>page_frames := (page_frames s)[nat (page_frame_count s) := phys_addr],
                  page_frame_count := page_frame_count s + 1\<rparr>)
      else Inl Overrun)"

definition pfa_alloc :: "'a machine_scheme \<Rightarrow> (u32 \<times> 'a machine_scheme) kres" where
  "pfa_alloc s =
     (if page_frame_count s = 0 then Inl (Panic ''Out of memory!'')
      else (let i = page_frame_count s - 1 in
        if 0 \<le> i \<and> i < int (length (page_frames s))
        then Inr (page_frames s ! nat i, s\<lparr>page_frame_count := i\<rparr>)
        else Inl Overrun))"

definition pfa_free :: "u32 \<Rightarrow> 'a machine_scheme \<Rightarrow> 'a machine_scheme kres" where
  "pfa_free phys_addr s =
     (if 0 \<le> page_frame_count s \<and> page_frame_count s < int (length (page_frames s))
      then Inr (s\<lparr>page_frames := (page_frames s)[nat (page_frame_count s) := phys_addr],
                  page_frame_count := page_frame_count s + 1\<rparr>)
      else Inl Overrun)"

section \<open>Page tables\<close>

text \<open>
  Up to the call of \<open>kernel_after_paging\<close>, which does not return. The loop over 4 MiB regions runs
  once.
\<close>

definition paging_init_region :: "u32 \<Rightarrow> u32 \<Rightarrow> 'a machine_scheme \<Rightarrow> 'a machine_scheme kres" where
  "paging_init_region page_dir addr s =
     bind_res (pfa_alloc s) (\<lambda>(page_table, s).
     bind_res (vmemset page_table 0 4096 s) (\<lambda>s.
     bind_res (fold_res (\<lambda>i s. vstore32 (page_table + of_nat i * 4) ((addr + of_nat i * 4096) OR 0x03) s)
                 [0..<1024] s) (\<lambda>s.
     vstore32 (page_dir + drop_bit 22 addr * 4) (page_table OR 0x03) s)))"

definition paging_init :: "'a machine_scheme \<Rightarrow> 'a machine_scheme kres" where
  "paging_init s =
     bind_res (pfa_alloc s) (\<lambda>(page_dir, s).
     bind_res (vmemset page_dir 0 4096 s) (\<lambda>s.
     bind_res (paging_init_region page_dir 0 s) (\<lambda>s.
     bind_res (vload32 page_dir s) (\<lambda>pde.
       (let vga_pt_idx = drop_bit 12 0xB8000 AND 0x3FF;
            pt0 = pde AND 0xFFFFF000
        in bind_res (vstore32 (pt0 + vga_pt_idx * 4) (0xB8000 OR 0x03) s) (\<lambda>s.
           (let s = s\<lparr>cr3 := page_dir, paging := True\<rparr>
            in vstore32 (page_dir + 1023 * 4) (page_dir OR 0x03) s)))))))"

text \<open>The handler ends in \<open>panic\<close>; the values printed on the screen are those logged.\<close>

definition page_fault_handler :: "u32 \<Rightarrow> u32 \<Rightarrow> u32 \<Rightarrow> 'a machine_scheme \<Rightarrow> 'a machine_scheme kres" where
  "page_fault_handler fault_addr eip err_code s =
     (let s = klogln ''Page Fault! Virtual Address=0x%x'' [AInt fault_addr] s;
          s = klogln '' EIP=0x%x, Error Code=0x%x'' [AInt eip, AInt err_code] s
      in Inl (Panic ''Page fault!''))"

definition paging_map_user :: "u32 \<Rightarrow> 'a machine_scheme \<Rightarrow> 'a machine_scheme kres" where
  "paging_map_user virt_addr s =
     (let page_dir = cr3 s;
          pd_idx = drop_bit 22 virt_addr;
          pt_idx = drop_bit 12 virt_addr AND 0x3FF
      in bind_res (vload32 (page_dir + pd_idx * 4) s) (\<lambda>pde.
         (let page_table = pde AND 0xFFFFF000 in
          bind_res (vload32 (page_table + pt_idx * 4) s) (\<lambda>pte.
          bind_res (vstore32 (page_table + pt_idx * 4) (pte OR 0x04) s) (\<lambda>s.
          bind_res (vload32 (page_dir + pd_idx * 4) s) (\<lambda>pde.
          vstore32 (page_dir + pd_idx * 4) (pde OR 0x04) s))))))"

definition paging_map_page :: "u32 \<Rightarrow> u32 \<Rightarrow> u8 \<Rightarrow> 'a machine_scheme \<Rightarrow> 'a machine_scheme kres" where
  "paging_map_page virt_addr phys_addr flags s =
     (let page_dir = cr3 s;
          pd_idx = drop_bit 22 virt_addr;
          pt_idx = drop_bit 12 virt_addr AND 0x3FF;
          virt_pt = 0xFFC00000 + pd_idx * 4096;
          fl = ucast (flags AND 0x07) :: u32
      in bind_res (vload32 (page_dir + pd_idx * 4) s) (\<lambda>pde.
         bind_res
           (if pde AND 0x01 = 0 then
              bind_res (pfa_alloc s) (\<lambda>(pt_phys, s).
              bind_res (vstore32 (page_dir + pd_idx * 4) ((pt_phys AND 0xFFFFF000) OR 0x01) s) (\<lambda>s.
              bind_res (fold_res (\<lambda>i s. vstore32 (virt_pt + of_nat i * 4) 0 s) [0..<1024] s) (\<lambda>s.
              vstore32 (page_dir + pd_idx * 4) ((pt_phys AND 0xFFFFF000) OR fl OR 0x01) s)))
            else Inr s)
           (vstore32 (virt_pt + pt_idx * 4) ((phys_addr AND 0xFFFFF000) OR fl OR 0x01))))"

definition paging_alloc_page :: "u32 \<Rightarrow> 'a machine_scheme \<Rightarrow> 'a machine_scheme kres" where
  "paging_alloc_page virt_addr s =
     bind_res (pfa_alloc s) (\<lambda>(phys_addr, s). paging_map_page virt_addr phys_addr 0x07 s)"

section \<open>Cloning an address space\<close>

text \<open>
  \<open>bss_end\<close> is the linker's end of the kernel image. The body of the loop over the page directory is
  split at its three cases: the two identity-mapped entries, a user entry, and the others.
\<close>

definition in_kernel_image :: "u32 \<Rightarrow> u32 \<Rightarrow> bool" where
  "in_kernel_image kernel_end_page page_vaddr \<longleftrightarrow> 0x100000 \<le> page_vaddr \<and> page_vaddr < kernel_end_page"

text \<open>The scan for a user page outside the kernel image, ended by the first one.\<close>

fun clone_scan :: "u32 \<Rightarrow> u32 \<Rightarrow> u32 \<Rightarrow> nat list \<Rightarrow> 'a machine_scheme \<Rightarrow> bool kres" where
  "clone_scan kernel_end_page pd_idx old_pt [] s = Inr False"
| "clone_scan kernel_end_page pd_idx old_pt (pti # is) s =
     bind_res (vload32 (old_pt + of_nat pti * 4) s) (\<lambda>pte.
       if pte AND 0x01 = 0 then clone_scan kernel_end_page pd_idx old_pt is s
       else bind_res (vload32 (old_pt + of_nat pti * 4) s) (\<lambda>pte.
         if pte AND 0x04 = 0 then clone_scan kernel_end_page pd_idx old_pt is s
         else if in_kernel_image kernel_end_page (push_bit 22 pd_idx OR push_bit 12 (of_nat pti))
         then clone_scan kernel_end_page pd_idx old_pt is s
         else Inr True))"

text \<open>Copying one page of the parent into a new frame.\<close>

definition clone_page :: "u32 \<Rightarrow> u32 \<Rightarrow> 'a machine_scheme \<Rightarrow> 'a machine_scheme kres" where
  "clone_page new_pte_addr old_pte s =
     bind_res (pfa_alloc s) (\<lambda>(new_page_phys, s).
     bind_res (vmemcpy new_page_phys (old_pte AND 0xFFFFF000) 4096 s) (\<lambda>s.
     vstore32 new_pte_addr ((new_page_phys AND 0xFFFFF000) OR (old_pte AND 0xFFF)) s))"

text \<open>One entry of a page table: \<open>share\<close> tells for which virtual pages the entry is copied.\<close>

definition clone_pte :: "(u32 \<Rightarrow> bool) \<Rightarrow> u32 \<Rightarrow> u32 \<Rightarrow> u32 \<Rightarrow> nat \<Rightarrow> 'a machine_scheme \<Rightarrow> 'a machine_scheme kres" where
  "clone_pte share pd_idx old_pt new_pt pti s =
     bind_res (vload32 (old_pt + of_nat pti * 4) s) (\<lambda>old_pte.
       if old_pte AND 0x01 = 0 then Inr s
       else if share (push_bit 22 pd_idx OR push_bit 12 (of_nat pti))
       then vstore32 (new_pt + of_nat pti * 4) old_pte s
       else if old_pte AND 0x04 \<noteq> 0 then clone_page (new_pt + of_nat pti * 4) old_pte s
       else vstore32 (new_pt + of_nat pti * 4) old_pte s)"

text \<open>A new page table: cleared, then filled entry by entry.\<close>

definition clone_table :: "(u32 \<Rightarrow> bool) \<Rightarrow> u32 \<Rightarrow> u32 \<Rightarrow> u32 \<Rightarrow> u32 \<Rightarrow> 'a machine_scheme \<Rightarrow> 'a machine_scheme kres" where
  "clone_table share pd_idx old_pt old_pde new_pd s =
     bind_res (pfa_alloc s) (\<lambda>(new_pt, s).
     bind_res (fold_res (\<lambda>pti. vstore32 (new_pt + of_nat pti * 4) 0) [0..<1024] s) (\<lambda>s.
     bind_res (fold_res (clone_pte share pd_idx old_pt new_pt) [0..<1024] s) (\<lambda>s.
     vstore32 (new_pd + pd_idx * 4) ((new_pt AND 0xFFFFF000) OR (old_pde AND 0xFFF)) s)))"

definition clone_pde :: "u32 \<Rightarrow> u32 \<Rightarrow> u32 \<Rightarrow> nat \<Rightarrow> 'a machine_scheme \<Rightarrow> 'a machine_scheme kres" where
  "clone_pde kernel_end_page old_pd new_pd pdi s =
     (let pd_idx = of_nat pdi :: u32; old_pt = 0xFFC00000 + pd_idx * 4096 in
      bind_res (vload32 (old_pd + pd_idx * 4) s) (\<lambda>old_pde.
        if old_pde AND 0x01 = 0 then vstore32 (new_pd + pd_idx * 4) 0 s
        else if pdi \<le> 1 then
          bind_res (clone_scan kernel_end_page pd_idx old_pt [0..<1024] s) (\<lambda>outside.
            if \<not> outside then vstore32 (new_pd + pd_idx * 4) old_pde s
            else clone_table (in_kernel_image kernel_end_page) pd_idx old_pt old_pde new_pd s)
        else if old_pde AND 0x04 \<noteq> 0
        then clone_table (\<lambda>page_vaddr. page_vaddr < 0x800000) pd_idx old_pt old_pde new_pd s
        else vstore32 (new_pd + pd_idx * 4) old_pde s))"

definition paging_clone_directory :: "u32 \<Rightarrow> 'a machine_scheme \<Rightarrow> (u32 \<times> 'a machine_scheme) kres" where
  "paging_clone_directory bss_end s =
     (let old_pd = cr3 s;
          kernel_end_page = (bss_end + 0xFFF) AND 0xFFFFF000
      in bind_res (pfa_alloc s) (\<lambda>(new_pd, s).
         bind_res (fold_res (clone_pde kernel_end_page old_pd new_pd) [0..<1023] s) (\<lambda>s.
         bind_res (vstore32 (new_pd + 1023 * 4) ((new_pd AND 0xFFFFF000) OR 0x03) s) (\<lambda>s.
         Inr (new_pd, klogln ''[paging] Cloned page directory: new=0x%x'' [AInt new_pd] s)))))"

end
