(* ===== verification/Sros_Scheduler.thy ===== *)
theory Sros_Scheduler
  imports Sros_Taskq Sros_Paging
begin

unbundle bit_operations_syntax

text \<open>
  The scheduler and process management of \<open>src/kernel/scheduler.c\<close>. A register frame is an address;
  its fields are read and written in mapped memory at their offsets in \<open>registers_t\<close>. The software
  interrupt \<open>int $32\<close> by which \<open>task_exit\<close>, \<open>task_wait\<close> and \<open>task_yield\<close> give up the processor ends
  in \<open>scheduler_tick\<close>: a function that executes it is modelled up to that instruction.
\<close>

section \<open>State\<close>

record sched = machine +
  task_table :: task_tab
  task_count :: int
  next_pid :: int
  current_task :: task_ptr
  ready_head :: task_ptr
  ready_tail :: task_ptr
  tss_esp0 :: u32
  timer_ticks :: u32

definition upd_task :: "nat \<Rightarrow> (task_t \<Rightarrow> task_t) \<Rightarrow> 'a sched_scheme \<Rightarrow> 'a sched_scheme" where
  "upd_task i f s = s\<lparr>task_table := (task_table s)[i := f (task_table s ! i)]\<rparr>"

definition USER_STACK_VADDR :: u32 where "USER_STACK_VADDR = 0xE0000000"

text \<open>\<open>registers_t\<close>: nineteen words; the offsets of the fields the kernel touches.\<close>

definition REGS_SIZE :: u32 where "REGS_SIZE = 76"
definition R_gs :: u32 where "R_gs = 0"
definition R_fs :: u32 where "R_fs = 4"
definition R_es :: u32 where "R_es = 8"
definition R_ds :: u32 where "R_ds = 12"
definition R_esp :: u32 where "R_esp = 28"
definition R_eax :: u32 where "R_eax = 44"
definition R_int_no :: u32 where "R_int_no = 48"
definition R_eip :: u32 where "R_eip = 56"
definition R_cs :: u32 where "R_cs = 60"
definition R_eflags :: u32 where "R_eflags = 64"
definition R_user_esp :: u32 where "R_user_esp = 68"
definition R_user_ss :: u32 where "R_user_ss = 72"

section \<open>The ready queue\<close>

definition enqueue_ready :: "nat \<Rightarrow> 'a sched_scheme \<Rightarrow> 'a sched_scheme" where
  "enqueue_ready i s =
     (let (tbl, h, t) = q_append (task_table s) (ready_head s) (ready_tail s) i
      in s\<lparr>task_table := tbl, ready_head := h, ready_tail := t\<rparr>)"

definition dequeue_ready :: "'a sched_scheme \<Rightarrow> task_ptr \<times> 'a sched_scheme" where
  "dequeue_ready s =
     (let (r, tbl, h, t) = q_pop (task_table s) (ready_head s) (ready_tail s)
      in (r, s\<lparr>task_table := tbl, ready_head := h, ready_tail := t\<rparr>))"

section \<open>Initialisation and the tick\<close>

definition scheduler_init :: "'a sched_scheme \<Rightarrow> 'a sched_scheme" where
  "scheduler_init s =
     (let s = klogln ''[sched] Initializing scheduler...'' [] s;
          s = s\<lparr>task_table := map (\<lambda>t. t\<lparr>pid := -1\<rparr>) (task_table s)\<rparr>;
          s = upd_task 0 (\<lambda>t. t\<lparr>pid := next_pid s, parent_pid := -1, state := TASK_RUNNING, exit_code := 0,
                kernel_esp := 0, kernel_stack_base := 0, kernel_stack_top := 0x20000, page_dir := cr3 s,
                name := ''init'', next_task := None\<rparr>) s;
          s = s\<lparr>next_pid := next_pid s + 1, current_task := Some 0, task_count := 1, tss_esp0 := 0x20000\<rparr>
      in klogln ''[sched] Task 0 (init) ready, CR3=0x%x'' [AInt (cr3 s)] s)"

text \<open>The code at label \<open>pick_next\<close>, with \<open>c\<close> the current task.\<close>

definition pick_next :: "u32 \<Rightarrow> nat \<Rightarrow> 'a sched_scheme \<Rightarrow> (u32 \<times> 'a sched_scheme) kres" where
  "pick_next regs c s =
     (case dequeue_ready s of
        (None, s) \<Rightarrow>
          if state (task_table s ! c) \<noteq> TASK_ZOMBIE
          then Inr (regs, upd_task c (\<lambda>t. t\<lparr>state := TASK_RUNNING\<rparr>) s)
          else Inl Halted
      | (Some n, s) \<Rightarrow>
          (let s = klogln ''[sched] switch %d -> %d (esp 0x%x)''
                 [AI (pid (task_table s ! c)), AI (pid (task_table s ! n)), AInt (kernel_esp (task_table s ! n))] s;
               s = s\<lparr>current_task := Some n\<rparr>;
               s = upd_task n (\<lambda>t. t\<lparr>state := TASK_RUNNING\<rparr>) s;
               s = s\<lparr>tss_esp0 := kernel_stack_top (task_table s ! n)\<rparr>;
               s = (if page_dir (task_table s ! n) \<noteq> 0 then s\<lparr>cr3 := page_dir (task_table s ! n)\<rparr> else s)
           in Inr (kernel_esp (task_table s ! n), s)))"

definition scheduler_tick :: "u32 \<Rightarrow> 'a sched_scheme \<Rightarrow> (u32 \<times> 'a sched_scheme) kres" where
  "scheduler_tick regs s =
     bind_res (vload32 (regs + R_int_no) s) (\<lambda>int_no.
       if int_no \<noteq> 32 then Inr (regs, s)
       else (let s = s\<lparr>timer_ticks := timer_ticks s + 1\<rparr> in
         case current_task s of
           None \<Rightarrow> Inr (regs, s)
         | Some c \<Rightarrow>
             (let s = upd_task c (\<lambda>t. t\<lparr>kernel_esp := regs\<rparr>) s;
                  st = state (task_table s ! c)
              in if st = TASK_ZOMBIE \<or> st = TASK_BLOCKED then pick_next regs c s
                 else if task_count s > 1
                 then pick_next regs c (enqueue_ready c (upd_task c (\<lambda>t. t\<lparr>state := TASK_READY\<rparr>) s))
                 else Inr (regs, upd_task c (\<lambda>t. t\<lparr>state := TASK_RUNNING\<rparr>) s))))"

section \<open>Creating tasks\<close>

definition task_find_slot :: "'a sched_scheme \<Rightarrow> int" where
  "task_find_slot s = slot_or_minus1 (find_first (\<lambda>t. pid t < 0) (task_table s))"

text \<open>Writing a list of words into a frame.\<close>

definition put_words :: "u32 \<Rightarrow> (u32 \<times> u32) list \<Rightarrow> 'a machine_scheme \<Rightarrow> 'a machine_scheme kres" where
  "put_words frame ws s = fold_res (\<lambda>(off, v). vstore32 (frame + off) v) ws s"

text \<open>\<open>strcpy\<close> into a name array overruns it when the text and its terminator do not fit.\<close>

definition copy_name :: "nat \<Rightarrow> string \<Rightarrow> string kres" where
  "copy_name cap t = (if length t < cap then Inr t else Inl Overrun)"

text \<open>Steps 1 to 3 of \<open>task_create\<close>: the kernel stack with its initial frame, and the user stack.\<close>

definition task_frame :: "u32 \<Rightarrow> 'a machine_scheme \<Rightarrow> (u32 \<times> 'a machine_scheme) kres" where
  "task_frame entry s =
     bind_res (pfa_alloc s) (\<lambda>(kstack_phys, s).
     (let frame = kstack_phys + 0x1000 - REGS_SIZE in
      bind_res (vmemset frame 0 76 s) (\<lambda>s.
      bind_res (put_words frame
        [(R_gs, 0x23), (R_fs, 0x23), (R_es, 0x23), (R_ds, 0x23), (R_esp, frame + R_int_no),
         (R_eip, entry), (R_cs, 0x1B), (R_eflags, 0x200)] s) (\<lambda>s.
      bind_res (paging_map_user entry s) (\<lambda>s.
      bind_res (pfa_alloc s) (\<lambda>(user_stack_phys, s).
      bind_res (paging_map_page (USER_STACK_VADDR - 0x1000) user_stack_phys 0x07 s) (\<lambda>s.
      bind_res (put_words frame [(R_user_esp, USER_STACK_VADDR), (R_user_ss, 0x23)] s) (\<lambda>s.
      Inr (kstack_phys, s)))))))))"

text \<open>Steps 4 and 5, shared with \<open>task_fork\<close>: the filled PCB takes the next pid and becomes ready.\<close>

definition install_task :: "nat \<Rightarrow> task_t \<Rightarrow> 'a sched_scheme \<Rightarrow> 'a sched_scheme" where
  "install_task i t s =
     (let s = upd_task i (\<lambda>_. t) s;
          s = s\<lparr>next_pid := next_pid s + 1\<rparr>;
          s = enqueue_ready i s
      in s\<lparr>task_count := task_count s + 1\<rparr>)"

definition task_create :: "string \<Rightarrow> u32 \<Rightarrow> 'a sched_scheme \<Rightarrow> (int \<times> 'a sched_scheme) kres" where
  "task_create nm entry s =
     (let slot = task_find_slot s in
      if slot < 0 then Inr (-1, klogln ''[sched] Max tasks reached!'' [] s)
      else
        bind_res (task_frame entry s) (\<lambda>(kstack_phys, s).
        bind_res (copy_name TASK_NAME_MAX nm) (\<lambda>nm'.
        (let kstack_top = kstack_phys + 0x1000;
             p = next_pid s;
             s = install_task (nat slot) \<lparr>pid = p,
                   parent_pid = (case current_task s of Some c \<Rightarrow> pid (task_table s ! c) | None \<Rightarrow> -1),
                   state = TASK_READY, exit_code = 0, kernel_esp = kstack_top - REGS_SIZE,
                   kernel_stack_base = kstack_phys, kernel_stack_top = kstack_top, page_dir = 0, name = nm',
                   next_task = None\<rparr> s;
             s = klogln ''[sched] Task %d (%s) created, entry=0x%x, kstack=0x%x''
                   [AI p, AStr nm, AInt entry, AInt kstack_top] s
         in Inr (p, s)))))"

text \<open>\<open>task_yield\<close> only raises \<open>int $32\<close>: its effect is one \<open>scheduler_tick\<close>.\<close>

definition task_yield :: "u32 \<Rightarrow> 'a sched_scheme \<Rightarrow> (u32 \<times> 'a sched_scheme) kres" where
  "task_yield regs s = scheduler_tick regs s"

definition task_block :: "'a sched_scheme \<Rightarrow> 'a sched_scheme" where
  "task_block s = (case current_task s of None \<Rightarrow> s
     | Some c \<Rightarrow> upd_task c (\<lambda>t. t\<lparr>state := TASK_BLOCKED\<rparr>) s)"

definition task_wake :: "task_ptr \<Rightarrow> 'a sched_scheme \<Rightarrow> 'a sched_scheme" where
  "task_wake p s = (case p of None \<Rightarrow> s
     | Some i \<Rightarrow> enqueue_ready i (upd_task i (\<lambda>t. t\<lparr>state := TASK_READY\<rparr>) s))"

definition task_from_pid :: "int \<Rightarrow> 'a sched_scheme \<Rightarrow> task_ptr" where
  "task_from_pid p s = find_first (\<lambda>t. pid t = p) (task_table s)"

section \<open>Fork, exit and wait\<close>

text \<open>Steps 3 to 5 of \<open>task_fork\<close>: a kernel stack with a copy of the parent's frame, \<open>eax\<close> zero.\<close>

definition fork_frame :: "u32 \<Rightarrow> 'a machine_scheme \<Rightarrow> (u32 \<times> 'a machine_scheme) kres" where
  "fork_frame regs s =
     bind_res (pfa_alloc s) (\<lambda>(kstack_phys, s).
     (let child_frame = kstack_phys + 0x1000 - REGS_SIZE in
      bind_res (vmemcpy child_frame regs 76 s) (\<lambda>s.
      bind_res (vstore32 (child_frame + R_eax) 0 s) (\<lambda>s. Inr (kstack_phys, s)))))"

definition task_fork :: "u32 \<Rightarrow> u32 \<Rightarrow> 'a sched_scheme \<Rightarrow> (int \<times> 'a sched_scheme) kres" where
  "task_fork bss_end regs s =
     (let slot = task_find_slot s in
      if slot < 0 then Inr (-1, klogln ''[sched] fork: no slot!'' [] s)
      else
        bind_res (paging_clone_directory bss_end s) (\<lambda>(new_page_dir, s).
        if new_page_dir = 0 then Inr (-1, klogln ''[sched] fork: clone page dir failed!'' [] s)
        else
          bind_res (fork_frame regs s) (\<lambda>(kstack_phys, s).
          case current_task s of
            None \<Rightarrow> Inl NullDeref
          | Some c \<Rightarrow>
              (let kstack_top = kstack_phys + 0x1000;
                   p = next_pid s;
                   me = task_table s ! c;
                   s = install_task (nat slot) \<lparr>pid = p, parent_pid = pid me, state = TASK_READY, exit_code = 0,
                         kernel_esp = kstack_top - REGS_SIZE, kernel_stack_base = kstack_phys,
                         kernel_stack_top = kstack_top, page_dir = new_page_dir, name = name me,
                         next_task = None\<rparr> s;
                   s = klogln ''[sched] fork: child %d (parent %d), kstack=0x%x, pgdir=0x%x''
                         [AI p, AI (pid me), AInt kstack_top, AInt new_page_dir] s
               in Inr (p, s)))))"

text \<open>Up to the \<open>int $32\<close> that leaves the task for good.\<close>

definition task_exit :: "int \<Rightarrow> 'a sched_scheme \<Rightarrow> 'a sched_scheme" where
  "task_exit code s =
     (case current_task s of
        None \<Rightarrow> s
      | Some c \<Rightarrow>
          (let me = task_table s ! c;
               s = klogln ''[sched] task %d (%s) exiting with code %d'' [AI (pid me), AStr (name me), AI code] s;
               s = upd_task c (\<lambda>t. t\<lparr>exit_code := code, state := TASK_ZOMBIE\<rparr>) s
           in if 0 \<le> parent_pid me
              then (case task_from_pid (parent_pid me) s of
                      Some q \<Rightarrow>
                        if state (task_table s ! q) = TASK_BLOCKED
                        then klogln ''[sched] woke up parent %d'' [AI (parent_pid me)]
                               (enqueue_ready q (upd_task q (\<lambda>t. t\<lparr>state := TASK_READY\<rparr>) s))
                        else s
                    | None \<Rightarrow> s)
              else s))"

text \<open>
  One round of the loop of \<open>task_wait\<close>: it returns a value, or has blocked the task and raises
  \<open>int $32\<close>, after which the next round follows.
\<close>

datatype wait_result = WaitDone int | WaitBlocked

definition is_child :: "int \<Rightarrow> int \<Rightarrow> task_t \<Rightarrow> bool" where
  "is_child me p t \<longleftrightarrow> \<not> pid t < 0 \<and> parent_pid t = me \<and> \<not> (0 \<le> p \<and> pid t \<noteq> p)"

definition free_task :: task_t where
  "free_task = \<lparr>pid = -1, parent_pid = 0, state = 0, exit_code = 0, kernel_esp = 0, kernel_stack_base = 0,
     kernel_stack_top = 0, page_dir = 0, name = [], next_task = None\<rparr>"

definition task_wait_round :: "int \<Rightarrow> 'a sched_scheme \<Rightarrow> (wait_result \<times> 'a sched_scheme) kres" where
  "task_wait_round p s =
     (case current_task s of
        None \<Rightarrow> Inl NullDeref
      | Some c \<Rightarrow>
          (let me = pid (task_table s ! c) in
           case find_first (\<lambda>t. is_child me p t \<and> state t = TASK_ZOMBIE) (task_table s) of
             Some i \<Rightarrow>
               (let child = task_table s ! i in
                bind_res (if kernel_stack_base child \<noteq> 0 then pfa_free (kernel_stack_base child) s else Inr s) (\<lambda>s.
                bind_res (if page_dir child \<noteq> 0 then pfa_free (page_dir child) s else Inr s) (\<lambda>s.
                (let s = upd_task i (\<lambda>t. free_task) s;
                     s = s\<lparr>task_count := task_count s - 1\<rparr>
                 in Inr (WaitDone (pid child),
                      klogln ''[sched] wait: collected child %d (exit=%d)'' [AI (pid child), AI (exit_code child)] s)))))
           | None \<Rightarrow>
               if find_first (\<lambda>t. is_child me p t \<and> state t \<noteq> TASK_ZOMBIE) (task_table s) = None
               then Inr (WaitDone (-1), klogln ''[sched] wait: no children left'' [] s)
               else Inr (WaitBlocked, upd_task c (\<lambda>t. t\<lparr>state := TASK_BLOCKED\<rparr>) s)))"

text \<open>The call, up to the first blocking.\<close>

definition task_wait :: "int \<Rightarrow> 'a sched_scheme \<Rightarrow> (wait_result \<times> 'a sched_scheme) kres" where
  "task_wait p s =
     (case current_task s of
        None \<Rightarrow> Inr (WaitDone (-1), s)
      | Some c \<Rightarrow>
          task_wait_round p (klogln ''[sched] task %d waiting for child pid=%d'' [AI (pid (task_table s ! c)), AI p] s))"

end
