(* ===== verification/Sros_Sched_Inv.thy ===== *)
theory Sros_Sched_Inv
  imports Sros_Scheduler
begin

unbundle bit_operations_syntax

text \<open>
  The scheduler invariant and its preservation by every operation: \<open>tasks_ok\<close> is about the process
  table, \<open>queue_rep\<close> about the ready queue threaded through it. Each clock tick is one of four cases
  (\<open>tick_rotate\<close>, \<open>tick_leave\<close>, \<open>tick_alone\<close>, \<open>tick_halt\<close>), and process creation is one installation
  of a task (\<open>installs\<close>).
\<close>

section \<open>Definitions\<close>

definition tasks_ok :: "task_tab \<Rightarrow> nat list \<Rightarrow> nat \<Rightarrow> int \<Rightarrow> int \<Rightarrow> bool" where
  "tasks_ok tbl rq c np cnt \<longleftrightarrow> length tbl = 64 \<and> c < 64 \<and> c \<notin> set rq \<and> 0 \<le> pid (tbl ! c)
     \<and> (\<forall>i\<in>set rq. i < 64 \<and> state (tbl ! i) = TASK_READY \<and> 0 \<le> pid (tbl ! i))
     \<and> (\<forall>i<64. 0 \<le> pid (tbl ! i) \<and> state (tbl ! i) = TASK_READY \<longrightarrow> i \<in> set rq \<or> i = c)
     \<and> (\<forall>i<64. \<forall>j<64. 0 \<le> pid (tbl ! i) \<and> pid (tbl ! i) = pid (tbl ! j) \<longrightarrow> i = j)
     \<and> (\<forall>i<64. pid (tbl ! i) < np) \<and> 0 \<le> np
     \<and> cnt = int (card {i. i < 64 \<and> 0 \<le> pid (tbl ! i)})"

definition sched_inv :: "'a sched_scheme \<Rightarrow> nat list \<Rightarrow> bool" where
  "sched_inv s rq \<longleftrightarrow> queue_rep (task_table s) (ready_head s) (ready_tail s) rq
     \<and> (\<exists>c. current_task s = Some c \<and> tasks_ok (task_table s) rq c (next_pid s) (task_count s))"

text \<open>A clock interrupt: the frame at \<open>regs\<close> carries vector 32.\<close>

definition clock_frame :: "u32 \<Rightarrow> 'a sched_scheme \<Rightarrow> bool" where
  "clock_frame regs s \<longleftrightarrow> vload32 (regs + R_int_no) s = Inr 32"

text \<open>
  \<open>installs s i t p s'\<close>: a new task \<open>t\<close> with a fresh pid \<open>p\<close> in the free slot \<open>i\<close>, ready, child of the
  current task; the scheduler's other data as before.
\<close>

definition installs :: "'a sched_scheme \<Rightarrow> nat \<Rightarrow> task_t \<Rightarrow> int \<Rightarrow> 'a sched_scheme \<Rightarrow> bool" where
  "installs s i t p s' \<longleftrightarrow> i < 64 \<and> pid (task_table s ! i) < 0 \<and> p = next_pid s \<and> pid t = p
     \<and> state t = TASK_READY \<and> (\<exists>c. current_task s = Some c \<and> parent_pid t = pid (task_table s ! c))
     \<and> (\<exists>s1. machine.more s1 = machine.more s \<and> machine.more s' = machine.more (install_task i t s1))"

text \<open>The scheduler's data before \<open>scheduler_init\<close>: zero-initialised.\<close>

definition sched_blank :: "'a sched_scheme \<Rightarrow> bool" where
  "sched_blank s \<longleftrightarrow> length (task_table s) = 64 \<and> next_pid s = 0 \<and> ready_head s = None \<and> ready_tail s = None"

text \<open>
  What can happen to the scheduler: clock ticks, process creation, fork, exit and wait of the current
  task (which is not a zombie when it runs), blocking of the current task, and the waking of a
  blocked one.
\<close>

inductive sched_step :: "u32 \<Rightarrow> 'a sched_scheme \<Rightarrow> 'a sched_scheme \<Rightarrow> bool" for bss_end where
  step_tick: "scheduler_tick regs s = Inr (r, s') \<Longrightarrow> sched_step bss_end s s'"
| step_create: "task_create nm entry s = Inr (p, s') \<Longrightarrow> sched_step bss_end s s'"
| step_fork: "task_fork bss_end regs s = Inr (p, s') \<Longrightarrow> sched_step bss_end s s'"
| step_exit: "sched_step bss_end s (task_exit code s)"
| step_wait: "current_task s = Some c \<Longrightarrow> state (task_table s ! c) \<noteq> TASK_ZOMBIE \<Longrightarrow> task_wait p s = Inr (r, s')
    \<Longrightarrow> sched_step bss_end s s'"
| step_wait_round: "current_task s = Some c \<Longrightarrow> state (task_table s ! c) \<noteq> TASK_ZOMBIE
    \<Longrightarrow> task_wait_round p s = Inr (r, s') \<Longrightarrow> sched_step bss_end s s'"
| step_block: "sched_step bss_end s (task_block s)"
| step_wake: "i < 64 \<Longrightarrow> current_task s \<noteq> Some i \<Longrightarrow> state (task_table s ! i) = TASK_BLOCKED
    \<Longrightarrow> 0 \<le> pid (task_table s ! i) \<Longrightarrow> sched_step bss_end s (task_wake (Some i) s)"

inductive sched_reach :: "u32 \<Rightarrow> 'a sched_scheme \<Rightarrow> bool" for bss_end where
  reach_init: "sched_blank s \<Longrightarrow> sched_reach bss_end (scheduler_init s)"
| reach_step: "sched_reach bss_end s \<Longrightarrow> sched_step bss_end s s' \<Longrightarrow> sched_reach bss_end s'"

text \<open>A sequence of clock ticks, with the frame that the last one resumes.\<close>

inductive ticks :: "'a sched_scheme \<Rightarrow> u32 list \<Rightarrow> u32 \<Rightarrow> 'a sched_scheme \<Rightarrow> bool" where
  ticks_one: "clock_frame r s \<Longrightarrow> scheduler_tick r s = Inr (e, s') \<Longrightarrow> ticks s [r] e s'"
| ticks_more: "clock_frame r s \<Longrightarrow> scheduler_tick r s = Inr (e', s1) \<Longrightarrow> ticks s1 rs e s' \<Longrightarrow> ticks s (r # rs) e s'"

inductive_cases ticks_ConsE: "ticks s (r # rs) e s'"

inductive_cases ticks_NilE: "ticks s [] e s'"

text \<open>Two tasks, the second one ready, and a clock frame in memory at address 0x1000.\<close>

definition demo_task :: "int \<Rightarrow> int \<Rightarrow> int \<Rightarrow> u32 \<Rightarrow> task_t" where
  "demo_task p pp st esp = \<lparr>pid = p, parent_pid = pp, state = st, exit_code = 0, kernel_esp = esp,
     kernel_stack_base = 0, kernel_stack_top = 0, page_dir = 0, name = [], next_task = None\<rparr>"

definition demo_sched :: "task_t \<Rightarrow> task_t \<Rightarrow> nat list \<Rightarrow> sched" where
  "demo_sched t0 t1 rq = \<lparr>phys = store32 (\<lambda>_. 0) 0x1030 32, cr3 = 0, paging = False, page_frames = [],
     page_frame_count = 0, serial_log = [], task_table = t0 # t1 # replicate 62 free_task, task_count = 2,
     next_pid = 2, current_task = Some 0, ready_head = (if rq = [] then None else Some 1),
     ready_tail = (if rq = [] then None else Some 1), tss_esp0 = 0, timer_ticks = 0\<rparr>"

section \<open>Preservation\<close>

lemma sched_inv_cur:
  "current_task s = Some c \<Longrightarrow> sched_inv s rq \<longleftrightarrow> queue_rep (task_table s) (ready_head s) (ready_tail s) rq
     \<and> tasks_ok (task_table s) rq c (next_pid s) (task_count s)"
  by (simp add: sched_inv_def)

lemma sched_invE:
  assumes "sched_inv s rq"
  obtains c where "current_task s = Some c" "queue_rep (task_table s) (ready_head s) (ready_tail s) rq"
    "tasks_ok (task_table s) rq c (next_pid s) (task_count s)"
  using assms by (auto simp: sched_inv_def)

text \<open>The invariant reads only process identifiers and states.\<close>

lemma tasks_ok_cong:
  assumes "tasks_ok tbl rq c np cnt" and "length tbl' = length tbl"
    and "\<And>i. i < 64 \<Longrightarrow> pid (tbl' ! i) = pid (tbl ! i)"
    and "\<And>i. i < 64 \<Longrightarrow> i \<noteq> c \<Longrightarrow> state (tbl' ! i) = state (tbl ! i)"
  shows "tasks_ok tbl' rq c np cnt"
proof -
  have "{i. i < 64 \<and> 0 \<le> pid (tbl' ! i)} = {i. i < 64 \<and> 0 \<le> pid (tbl ! i)}" using assms(3) by auto
  moreover have "\<And>i. i \<in> set rq \<Longrightarrow> state (tbl' ! i) = state (tbl ! i)"
    using assms(1,4) unfolding tasks_ok_def by metis
  ultimately show ?thesis using assms unfolding tasks_ok_def by auto
qed

lemma tasks_ok_upd_cur:
  "tasks_ok tbl rq c np cnt \<Longrightarrow> pid t = pid (tbl ! c) \<Longrightarrow> tasks_ok (tbl[c := t]) rq c np cnt"
  by (rule tasks_ok_cong) (auto simp: nth_upd)

text \<open>
  Switching from \<open>c\<close> to \<open>n\<close>: \<open>requeue\<close> tells whether \<open>c\<close> went back into the ready queue.
\<close>

lemma tasks_ok_switch:
  assumes "tasks_ok tbl rq c np cnt" and "length tbl' = length tbl"
    and "\<And>i. i < 64 \<Longrightarrow> pid (tbl' ! i) = pid (tbl ! i)"
    and "\<And>i. i < 64 \<Longrightarrow> state (tbl' ! i) =
      (if i = n then TASK_RUNNING else if i = c \<and> requeue then TASK_READY else state (tbl ! i))"
    and "n \<in> set rq \<or> n = c \<and> requeue" and "requeue \<or> state (tbl ! c) \<noteq> TASK_READY"
    and "set rq' = (set rq \<union> (if requeue then {c} else {})) - {n}"
  shows "tasks_ok tbl' rq' n np cnt"
proof -
  have "{i. i < 64 \<and> 0 \<le> pid (tbl' ! i)} = {i. i < 64 \<and> 0 \<le> pid (tbl ! i)}" using assms(3) by auto
  then show ?thesis
    using assms unfolding tasks_ok_def by (auto simp: task_consts split: if_splits)
qed

lemma sched_inv_more: "machine.more s' = machine.more s \<Longrightarrow> sched_inv s' rq = sched_inv s rq"
  by (cases s; cases s') (simp add: sched_inv_def)

lemma upd_task_simps [simp]:
  "task_table (upd_task i f s) = (task_table s)[i := f (task_table s ! i)]"
  "ready_head (upd_task i f s) = ready_head s" "ready_tail (upd_task i f s) = ready_tail s"
  "current_task (upd_task i f s) = current_task s" "next_pid (upd_task i f s) = next_pid s"
  "task_count (upd_task i f s) = task_count s" "timer_ticks (upd_task i f s) = timer_ticks s"
  "tss_esp0 (upd_task i f s) = tss_esp0 s" "cr3 (upd_task i f s) = cr3 s" "phys (upd_task i f s) = phys s"
  "paging (upd_task i f s) = paging s"
  by (simp_all add: upd_task_def)

lemma klog_simps [simp]:
  "task_table (klog fm as s) = task_table s" "ready_head (klog fm as s) = ready_head s"
  "ready_tail (klog fm as s) = ready_tail s" "current_task (klog fm as s) = current_task s"
  "next_pid (klog fm as s) = next_pid s" "task_count (klog fm as s) = task_count s"
  "timer_ticks (klog fm as s) = timer_ticks s" "tss_esp0 (klog fm as s) = tss_esp0 s"
  "cr3 (klog fm as s) = cr3 s" "phys (klog fm as s) = phys s" "paging (klog fm as s) = paging s"
  "machine.more (klog fm as s) = machine.more s"
  by (simp_all add: klog_def)

lemma queue_rep_upd:
  "queue_rep tbl h t rq \<Longrightarrow> next_task (f (tbl ! i)) = next_task (tbl ! i) \<Longrightarrow> queue_rep (tbl[i := f (tbl ! i)]) h t rq"
  by (rule queue_rep_cong [where tbl = tbl]) (auto simp: nth_upd)

text \<open>What \<open>pick_next\<close> does with a non-empty ready queue.\<close>

lemma pick_next_Some:
  assumes "queue_rep (task_table s) (ready_head s) (ready_tail s) rq" and "rq \<noteq> []" and "c < length (task_table s)"
  shows "\<exists>s'. pick_next regs c s = Inr (kernel_esp (task_table s ! hd rq), s')
    \<and> queue_rep (task_table s') (ready_head s') (ready_tail s') (tl rq)
    \<and> length (task_table s') = length (task_table s)
    \<and> (\<forall>i < length (task_table s). pid (task_table s' ! i) = pid (task_table s ! i)
        \<and> kernel_esp (task_table s' ! i) = kernel_esp (task_table s ! i)
        \<and> state (task_table s' ! i) = (if i = hd rq then TASK_RUNNING else state (task_table s ! i)))
    \<and> current_task s' = Some (hd rq) \<and> next_pid s' = next_pid s \<and> task_count s' = task_count s
    \<and> timer_ticks s' = timer_ticks s \<and> tss_esp0 s' = kernel_stack_top (task_table s ! hd rq)
    \<and> cr3 s' = (if page_dir (task_table s ! hd rq) \<noteq> 0 then page_dir (task_table s ! hd rq) else cr3 s)
    \<and> phys s' = phys s \<and> paging s' = paging s"
proof -
  obtain r tbl h t where p: "q_pop (task_table s) (ready_head s) (ready_tail s) = (r, tbl, h, t)"
    by (metis prod_cases4)
  note rep = q_pop_rep [OF assms(1) p] and fr = q_pop_frame [OF assms(1) p]
  have r: "r = Some (hd rq)" using rep(1) assms(2) by simp
  have hd: "hd rq < length (task_table s)" "hd rq \<in> set rq" "hd rq \<notin> set (tl rq)"
    using assms(1,2) by (cases rq, auto simp: queue_rep_def)+
  note f = same_but_next_fields [OF fr(1)]
  have q: "queue_rep (tbl[hd rq := (tbl ! hd rq)\<lparr>state := TASK_RUNNING\<rparr>]) h t (tl rq)"
    by (rule queue_rep_upd [OF rep(2)]) simp
  show ?thesis
    using hd(1) q by (auto simp: pick_next_def dequeue_ready_def p r f Let_def nth_list_update)
qed

lemma pick_next_None:
  assumes "queue_rep (task_table s) (ready_head s) (ready_tail s) []"
  shows "pick_next regs c s = (if state (task_table s ! c) \<noteq> TASK_ZOMBIE
    then Inr (regs, upd_task c (\<lambda>t. t\<lparr>state := TASK_RUNNING\<rparr>) s) else Inl Halted)"
proof -
  have n: "ready_head s = None" "ready_tail s = None" using assms by (auto simp: queue_rep_def)
  then have e: "s\<lparr>ready_head := None, ready_tail := None\<rparr> = s" by (cases s) simp
  show ?thesis by (simp add: pick_next_def dequeue_ready_def q_pop_def n e)
qed

lemma enqueue_ready_props:
  assumes "queue_rep (task_table s) (ready_head s) (ready_tail s) rq" and "i < length (task_table s)" and "i \<notin> set rq"
  shows "queue_rep (task_table (enqueue_ready i s)) (ready_head (enqueue_ready i s)) (ready_tail (enqueue_ready i s)) (rq @ [i])"
    "same_but_next (task_table s) (task_table (enqueue_ready i s))"
    "current_task (enqueue_ready i s) = current_task s" "next_pid (enqueue_ready i s) = next_pid s"
    "task_count (enqueue_ready i s) = task_count s" "timer_ticks (enqueue_ready i s) = timer_ticks s"
    "tss_esp0 (enqueue_ready i s) = tss_esp0 s" "cr3 (enqueue_ready i s) = cr3 s" "phys (enqueue_ready i s) = phys s"
    "paging (enqueue_ready i s) = paging s"
proof -
  obtain tbl h t where a: "q_append (task_table s) (ready_head s) (ready_tail s) i = (tbl, h, t)"
    by (metis prod_cases3)
  note q_append_rep [OF assms a] q_append_frame(1) [OF assms(1,2) a]
  then show "queue_rep (task_table (enqueue_ready i s)) (ready_head (enqueue_ready i s)) (ready_tail (enqueue_ready i s)) (rq @ [i])"
    "same_but_next (task_table s) (task_table (enqueue_ready i s))"
    by (simp_all add: enqueue_ready_def a)
  show "current_task (enqueue_ready i s) = current_task s" "next_pid (enqueue_ready i s) = next_pid s"
    "task_count (enqueue_ready i s) = task_count s" "timer_ticks (enqueue_ready i s) = timer_ticks s"
    "tss_esp0 (enqueue_ready i s) = tss_esp0 s" "cr3 (enqueue_ready i s) = cr3 s" "phys (enqueue_ready i s) = phys s"
    "paging (enqueue_ready i s) = paging s"
    by (simp_all add: enqueue_ready_def a)
qed

lemma tasks_okD:
  assumes "tasks_ok tbl rq c np cnt"
  shows "length tbl = 64" "c < 64" "c \<notin> set rq" "0 \<le> pid (tbl ! c)"
    "\<And>i. i \<in> set rq \<Longrightarrow> i < 64 \<and> state (tbl ! i) = TASK_READY \<and> 0 \<le> pid (tbl ! i)"
  using assms by (auto simp: tasks_ok_def)

text \<open>The tick of a running task with others in the table: it goes to the back of the queue.\<close>

lemma tick_rotate:
  assumes inv: "sched_inv s rq" and cur: "current_task s = Some c"
    and st: "state (task_table s ! c) \<noteq> TASK_ZOMBIE" "state (task_table s ! c) \<noteq> TASK_BLOCKED"
    and cnt: "1 < task_count s" and clk: "clock_frame regs s"
  shows "\<exists>s'. scheduler_tick regs s
      = Inr (if rq = [] then regs else kernel_esp (task_table s ! hd rq), s')
    \<and> current_task s' = Some (hd (rq @ [c])) \<and> sched_inv s' (tl (rq @ [c]))
    \<and> state (task_table s' ! hd (rq @ [c])) = TASK_RUNNING
    \<and> (\<forall>i<64. kernel_esp (task_table s' ! i) = (if i = c then regs else kernel_esp (task_table s ! i)))
    \<and> task_count s' = task_count s \<and> timer_ticks s' = timer_ticks s + 1
    \<and> tss_esp0 s' = kernel_stack_top (task_table s ! hd (rq @ [c]))
    \<and> (let d = page_dir (task_table s ! hd (rq @ [c])) in cr3 s' = (if d \<noteq> 0 then d else cr3 s))"
proof -
  have q: "queue_rep (task_table s) (ready_head s) (ready_tail s) rq"
    and ok: "tasks_ok (task_table s) rq c (next_pid s) (task_count s)"
    using inv cur by (auto simp: sched_inv_def)
  note t = tasks_okD [OF ok]
  define s1 where "s1 = upd_task c (\<lambda>t. t\<lparr>state := TASK_READY\<rparr>)
      (upd_task c (\<lambda>t. t\<lparr>kernel_esp := regs\<rparr>) (s\<lparr>timer_ticks := timer_ticks s + 1\<rparr>))"
  have tab: "task_table s1 = (task_table s)[c := (task_table s ! c)\<lparr>kernel_esp := regs, state := TASK_READY\<rparr>]"
    using t(1,2) by (simp add: s1_def)
  have q1: "queue_rep (task_table s1) (ready_head s1) (ready_tail s1) rq"
    unfolding tab using queue_rep_upd [OF q, of "\<lambda>t. t\<lparr>kernel_esp := regs, state := TASK_READY\<rparr>" c]
    by (simp add: s1_def)
  have c1: "c < length (task_table s1)" using t(1,2) by (simp add: tab)
  note e = enqueue_ready_props [OF q1 c1 t(3)]
  note ef = same_but_next_fields [OF e(2)]
  have "rq @ [c] \<noteq> []" "c < length (task_table (enqueue_ready c s1))" using c1 ef(1) by auto
  from pick_next_Some [OF e(1) this, of regs] obtain s' where
    s': "pick_next regs c (enqueue_ready c s1) = Inr (kernel_esp (task_table (enqueue_ready c s1) ! hd (rq @ [c])), s')"
    "queue_rep (task_table s') (ready_head s') (ready_tail s') (tl (rq @ [c]))"
    "length (task_table s') = 64"
    "\<forall>i < 64. pid (task_table s' ! i) = pid (task_table s1 ! i)
        \<and> kernel_esp (task_table s' ! i) = kernel_esp (task_table s1 ! i)
        \<and> state (task_table s' ! i) = (if i = hd (rq @ [c]) then TASK_RUNNING else state (task_table s1 ! i))"
    "current_task s' = Some (hd (rq @ [c]))" "next_pid s' = next_pid s1" "task_count s' = task_count s1"
    "timer_ticks s' = timer_ticks s1" "tss_esp0 s' = kernel_stack_top (task_table s1 ! hd (rq @ [c]))"
    "cr3 s' = (if page_dir (task_table s1 ! hd (rq @ [c])) \<noteq> 0 then page_dir (task_table s1 ! hd (rq @ [c])) else cr3 s1)"
    using t(1) by (auto simp: ef e tab)
  have fs: "pid (task_table s1 ! i) = pid (task_table s ! i)"
    "kernel_esp (task_table s1 ! i) = (if i = c then regs else kernel_esp (task_table s ! i))"
    "state (task_table s1 ! i) = (if i = c then TASK_READY else state (task_table s ! i))"
    "kernel_stack_top (task_table s1 ! i) = kernel_stack_top (task_table s ! i)"
    "page_dir (task_table s1 ! i) = page_dir (task_table s ! i)" for i
    using t(1,2) by (auto simp: tab nth_upd)
  have others: "next_pid s1 = next_pid s" "task_count s1 = task_count s" "timer_ticks s1 = timer_ticks s + 1" "cr3 s1 = cr3 s"
    by (simp_all add: s1_def)
  have d: "distinct (rq @ [c])" using q t(3) by (auto simp: queue_rep_def)
  have setq: "set (tl (rq @ [c])) = (set rq \<union> {c}) - {hd (rq @ [c])}" using d by (cases rq) auto
  have h: "hd (rq @ [c]) \<in> set rq \<or> hd (rq @ [c]) = c" by (cases rq) auto
  have hc: "rq \<noteq> [] \<Longrightarrow> hd rq \<noteq> c" using t(3) by (cases rq) auto
  have hl: "hd (rq @ [c]) < 64" using h t(2,5) by auto
  have "tasks_ok (task_table s') (tl (rq @ [c])) (hd (rq @ [c])) (next_pid s) (task_count s)"
  proof (rule tasks_ok_switch [OF ok, where requeue = True])
    show "length (task_table s') = length (task_table s)" using s'(3) t(1) by simp
    show "pid (task_table s' ! i) = pid (task_table s ! i)" if "i < 64" for i using s'(4) that by (simp add: fs)
    show "state (task_table s' ! i) = (if i = hd (rq @ [c]) then TASK_RUNNING
        else if i = c \<and> True then TASK_READY else state (task_table s ! i))" if "i < 64" for i
      using s'(4) that by (simp add: fs)
    show "hd (rq @ [c]) \<in> set rq \<or> hd (rq @ [c]) = c \<and> True" using h by simp
    show "set (tl (rq @ [c])) = set rq \<union> (if True then {c} else {}) - {hd (rq @ [c])}" using setq by simp
  qed simp
  then have inv': "sched_inv s' (tl (rq @ [c]))"
    using s'(2) s'(5-7) others by (simp add: sched_inv_def)
  have tick: "scheduler_tick regs s = pick_next regs c (enqueue_ready c s1)"
    using clk cur st cnt t(1,2) by (simp add: scheduler_tick_def clock_frame_def s1_def Let_def)
  show ?thesis
    using s' inv' tick fs others hl hc by (intro exI [of _ s']) (auto simp: Let_def ef)
qed

text \<open>The tick of a task that blocked or ended: it stays out of the queue.\<close>

lemma tick_leave:
  assumes inv: "sched_inv s rq" and cur: "current_task s = Some c"
    and st: "state (task_table s ! c) = TASK_ZOMBIE \<or> state (task_table s ! c) = TASK_BLOCKED"
    and clk: "clock_frame regs s" and ne: "rq \<noteq> []"
  shows "\<exists>s'. scheduler_tick regs s = Inr (kernel_esp (task_table s ! hd rq), s')
    \<and> current_task s' = Some (hd rq) \<and> sched_inv s' (tl rq)
    \<and> state (task_table s' ! hd rq) = TASK_RUNNING \<and> state (task_table s' ! c) = state (task_table s ! c)
    \<and> (\<forall>i<64. kernel_esp (task_table s' ! i) = (if i = c then regs else kernel_esp (task_table s ! i)))"
proof -
  have q: "queue_rep (task_table s) (ready_head s) (ready_tail s) rq"
    and ok: "tasks_ok (task_table s) rq c (next_pid s) (task_count s)"
    using inv cur by (auto simp: sched_inv_def)
  note t = tasks_okD [OF ok]
  define s1 where "s1 = upd_task c (\<lambda>t. t\<lparr>kernel_esp := regs\<rparr>) (s\<lparr>timer_ticks := timer_ticks s + 1\<rparr>)"
  have tab: "task_table s1 = (task_table s)[c := (task_table s ! c)\<lparr>kernel_esp := regs\<rparr>]"
    by (simp add: s1_def)
  have q1: "queue_rep (task_table s1) (ready_head s1) (ready_tail s1) rq"
    unfolding tab using queue_rep_upd [OF q, of "\<lambda>t. t\<lparr>kernel_esp := regs\<rparr>" c] by (simp add: s1_def)
  have c1: "c < length (task_table s1)" using t(1,2) by (simp add: tab)
  have hd: "hd rq \<in> set rq" "hd rq \<noteq> c" "hd rq < 64" using ne t(3,5) by (metis hd_in_set)+
  have fs: "pid (task_table s1 ! i) = pid (task_table s ! i)" "state (task_table s1 ! i) = state (task_table s ! i)"
    "kernel_esp (task_table s1 ! i) = (if i = c then regs else kernel_esp (task_table s ! i))" for i
    using t(1,2) by (auto simp: tab nth_upd)
  from pick_next_Some [OF q1 ne c1, of regs] obtain s' where
    s': "pick_next regs c s1 = Inr (kernel_esp (task_table s1 ! hd rq), s')"
    "queue_rep (task_table s') (ready_head s') (ready_tail s') (tl rq)" "length (task_table s') = 64"
    "\<forall>i < 64. pid (task_table s' ! i) = pid (task_table s1 ! i)
        \<and> kernel_esp (task_table s' ! i) = kernel_esp (task_table s1 ! i)
        \<and> state (task_table s' ! i) = (if i = hd rq then TASK_RUNNING else state (task_table s1 ! i))"
    "current_task s' = Some (hd rq)" "next_pid s' = next_pid s1" "task_count s' = task_count s1"
    using t(1) by (auto simp: tab)
  have others: "next_pid s1 = next_pid s" "task_count s1 = task_count s" by (simp_all add: s1_def)
  have "set (tl rq) = set rq \<union> (if False then {c} else {}) - {hd rq}"
    using q ne by (cases rq) (auto simp: queue_rep_def)
  then have "tasks_ok (task_table s') (tl rq) (hd rq) (next_pid s) (task_count s)"
    using s'(3,4) t(1) hd st
    by (intro tasks_ok_switch [OF ok, where requeue = False]) (auto simp: task_consts fs)
  then have inv': "sched_inv s' (tl rq)" using s'(2) s'(5-7) others by (simp add: sched_inv_def)
  have "scheduler_tick regs s = pick_next regs c s1"
    using clk cur st t(1,2) by (auto simp: scheduler_tick_def clock_frame_def s1_def Let_def)
  then show ?thesis using s' inv' hd t(2) by (intro exI [of _ s']) (auto simp: fs)
qed

text \<open>With an empty ready queue a task that is not a zombie keeps the processor.\<close>

lemma tick_alone:
  assumes inv: "sched_inv s []" and cur: "current_task s = Some c" and clk: "clock_frame regs s"
    and st: "state (task_table s ! c) = TASK_BLOCKED \<or> state (task_table s ! c) \<noteq> TASK_ZOMBIE \<and> task_count s \<le> 1"
  shows "\<exists>s'. scheduler_tick regs s = Inr (regs, s') \<and> current_task s' = Some c \<and> sched_inv s' []
    \<and> task_table s' = (task_table s)[c := (task_table s ! c)\<lparr>kernel_esp := regs, state := TASK_RUNNING\<rparr>]"
proof -
  have q: "queue_rep (task_table s) (ready_head s) (ready_tail s) []"
    and ok: "tasks_ok (task_table s) [] c (next_pid s) (task_count s)"
    using inv cur by (auto simp: sched_inv_def)
  note t = tasks_okD [OF ok]
  let ?s1 = "upd_task c (\<lambda>t. t\<lparr>kernel_esp := regs\<rparr>) (s\<lparr>timer_ticks := timer_ticks s + 1\<rparr>)"
  let ?s2 = "upd_task c (\<lambda>t. t\<lparr>state := TASK_RUNNING\<rparr>) ?s1"
  have tab: "task_table ?s2 = (task_table s)[c := (task_table s ! c)\<lparr>kernel_esp := regs, state := TASK_RUNNING\<rparr>]"
    using t(1,2) by simp
  have "queue_rep (task_table ?s1) (ready_head ?s1) (ready_tail ?s1) []" using q by (simp add: queue_rep_def)
  then have tick: "scheduler_tick regs s = Inr (regs, ?s2)"
    using clk cur st t(1,2)
    by (auto simp: scheduler_tick_def clock_frame_def Let_def pick_next_None task_consts)
  have "tasks_ok (task_table ?s2) [] c (next_pid s) (task_count s)"
    unfolding tab by (rule tasks_ok_upd_cur [OF ok]) simp
  then have "sched_inv ?s2 []" using cur q by (simp add: sched_inv_def queue_rep_def)
  then show ?thesis using tick tab cur by (intro exI [of _ ?s2]) auto
qed

lemma tick_halt:
  assumes inv: "sched_inv s []" and cur: "current_task s = Some c" and clk: "clock_frame regs s"
    and st: "state (task_table s ! c) = TASK_ZOMBIE"
  shows "scheduler_tick regs s = Inl Halted"
proof -
  have q: "queue_rep (task_table s) (ready_head s) (ready_tail s) []"
    and ok: "tasks_ok (task_table s) [] c (next_pid s) (task_count s)"
    using inv cur by (auto simp: sched_inv_def)
  note t = tasks_okD [OF ok]
  let ?s1 = "upd_task c (\<lambda>t. t\<lparr>kernel_esp := regs\<rparr>) (s\<lparr>timer_ticks := timer_ticks s + 1\<rparr>)"
  have "queue_rep (task_table ?s1) (ready_head ?s1) (ready_tail ?s1) []" using q by (simp add: queue_rep_def)
  then show ?thesis
    using clk cur st t(1,2) by (simp add: scheduler_tick_def clock_frame_def Let_def pick_next_None)
qed

text \<open>Every tick that returns keeps the invariant.\<close>

lemma tick_inv [sros_inv]:
  assumes "sched_inv s rq" and "scheduler_tick regs s = Inr (r, s')"
  shows "\<exists>rq'. sched_inv s' rq'"
proof (cases "clock_frame regs s")
  case False
  then have "s' = s"
    using assms(2) by (auto simp: scheduler_tick_def clock_frame_def bind_res_Inr_iff split: if_splits)
  then show ?thesis using assms(1) by blast
next
  case clk: True
  obtain c where cur: "current_task s = Some c"
    and ok: "tasks_ok (task_table s) rq c (next_pid s) (task_count s)"
    using assms(1) by (auto simp: sched_inv_def)
  consider (rot) "state (task_table s ! c) \<noteq> TASK_ZOMBIE" "state (task_table s ! c) \<noteq> TASK_BLOCKED" "1 < task_count s"
    | (lv) "state (task_table s ! c) = TASK_ZOMBIE \<or> state (task_table s ! c) = TASK_BLOCKED" "rq \<noteq> []"
    | (al) "rq = []" "state (task_table s ! c) = TASK_BLOCKED \<or> state (task_table s ! c) \<noteq> TASK_ZOMBIE \<and> task_count s \<le> 1"
    | (halt) "rq = []" "state (task_table s ! c) = TASK_ZOMBIE"
    | (lone) "rq \<noteq> []" "task_count s \<le> 1"
    by force
  then show ?thesis
  proof cases
    case rot
    from tick_rotate [OF assms(1) cur rot clk] assms(2) show ?thesis by auto
  next
    case lv
    from tick_leave [OF assms(1) cur lv(1) clk lv(2)] assms(2) show ?thesis by auto
  next
    case al
    from tick_alone [OF _ cur clk al(2)] assms al(1) show ?thesis by auto
  next
    case halt
    from tick_halt [OF _ cur clk halt(2)] assms halt(1) show ?thesis by simp
  next
    case lone
    have "{hd rq, c} \<subseteq> {i. i < 64 \<and> 0 \<le> pid (task_table s ! i)}" "hd rq \<noteq> c"
      using tasks_okD [OF ok] lone(1) by auto
    then have "2 \<le> card {i. i < 64 \<and> 0 \<le> pid (task_table s ! i)}"
      using card_mono [of "{i. i < 64 \<and> 0 \<le> pid (task_table s ! i)}" "{hd rq, c}"] by simp
    then show ?thesis using ok lone(2) by (simp add: tasks_ok_def)
  qed
qed

text \<open>The machine-level functions leave the scheduler's data alone.\<close>

lemma more_pfa_alloc: "pfa_alloc s = Inr (p, s') \<Longrightarrow> machine.more s' = machine.more s"
  by (auto simp: pfa_alloc_def Let_def split: if_splits)

lemma more_pfa_free: "pfa_free p s = Inr s' \<Longrightarrow> machine.more s' = machine.more s"
  by (auto simp: pfa_free_def split: if_splits)

lemma more_vstore32: "vstore32 a v s = Inr s' \<Longrightarrow> machine.more s' = machine.more s"
  by (drule vstore32_only) auto

lemma more_vmemset: "vmemset a v n s = Inr s' \<Longrightarrow> machine.more s' = machine.more s"
  by (drule vmemset_only) auto

lemma more_vmemcpy: "vmemcpy a b n s = Inr s' \<Longrightarrow> machine.more s' = machine.more s"
  by (drule vmemcpy_only) auto

lemma more_fold_res:
  assumes "\<And>x s s'. f x s = Inr s' \<Longrightarrow> machine.more s' = machine.more s" and "fold_res f xs s = Inr s'"
  shows "machine.more s' = machine.more s"
  using fold_res_inv [where I = "\<lambda>t. machine.more t = machine.more s" and f = f and xs = xs, OF _ refl assms(2)] assms(1)
  by metis

lemma more_fold_vstore32:
  "fold_res (\<lambda>i. vstore32 (g i) (h i)) xs s = Inr s' \<Longrightarrow> machine.more s' = machine.more s"
  by (erule more_fold_res [rotated]) (rule more_vstore32)

lemmas more_basic = more_fold_vstore32 more_pfa_alloc more_pfa_free more_vstore32 more_vmemset more_vmemcpy

lemma more_paging_map_user: "paging_map_user a s = Inr s' \<Longrightarrow> machine.more s' = machine.more s"
  by (auto simp: paging_map_user_def Let_def bind_res_Inr_iff dest!: more_basic)

lemma more_paging_map_page: "paging_map_page a p fl s = Inr s' \<Longrightarrow> machine.more s' = machine.more s"
  by (auto simp: paging_map_page_def Let_def bind_res_Inr_iff
      dest!: more_basic split: if_splits)

lemma more_put_words: "put_words fr ws s = Inr s' \<Longrightarrow> machine.more s' = machine.more s"
  unfolding put_words_def by (rule more_fold_res) (auto dest: more_vstore32)

lemma more_clone_page: "clone_page a p s = Inr s' \<Longrightarrow> machine.more s' = machine.more s"
  by (auto simp: clone_page_def bind_res_Inr_iff dest!: more_basic)

lemma more_clone_pte: "clone_pte sh pd o_pt n_pt i s = Inr s' \<Longrightarrow> machine.more s' = machine.more s"
  by (auto simp: clone_pte_def bind_res_Inr_iff dest!: more_basic more_clone_page split: if_splits)

lemma more_fold_clone_pte:
  "fold_res (clone_pte sh pd o_pt n_pt) xs s = Inr s' \<Longrightarrow> machine.more s' = machine.more s"
  by (erule more_fold_res [rotated]) (rule more_clone_pte)

lemma more_clone_table: "clone_table sh pd o_pt o_pde n_pd s = Inr s' \<Longrightarrow> machine.more s' = machine.more s"
  by (auto simp: clone_table_def bind_res_Inr_iff dest!: more_basic more_fold_clone_pte)

lemma more_clone_pde: "clone_pde k o_pd n_pd i s = Inr s' \<Longrightarrow> machine.more s' = machine.more s"
  by (auto simp: clone_pde_def Let_def bind_res_Inr_iff dest!: more_basic more_clone_table split: if_splits)

lemma more_fold_clone_pde:
  "fold_res (clone_pde k o_pd n_pd) xs s = Inr s' \<Longrightarrow> machine.more s' = machine.more s"
  by (erule more_fold_res [rotated]) (rule more_clone_pde)

lemma more_klog: "machine.more (klog fm as s) = machine.more s"
  by (simp add: klog_def)

lemma more_paging_clone_directory: "paging_clone_directory b s = Inr (d, s') \<Longrightarrow> machine.more s' = machine.more s"
  by (auto simp: paging_clone_directory_def Let_def bind_res_Inr_iff more_klog
      dest!: more_basic more_fold_clone_pde)

lemma more_task_frame: "task_frame entry s = Inr (k, s') \<Longrightarrow> machine.more s' = machine.more s"
  by (auto simp: task_frame_def Let_def bind_res_Inr_iff
      dest!: more_basic more_put_words more_paging_map_user more_paging_map_page)

lemma more_fork_frame: "fork_frame regs s = Inr (k, s') \<Longrightarrow> machine.more s' = machine.more s"
  by (auto simp: fork_frame_def Let_def bind_res_Inr_iff dest!: more_basic)

lemma more_fields:
  assumes "machine.more s' = machine.more s"
  shows "task_table s' = task_table s" "ready_head s' = ready_head s" "ready_tail s' = ready_tail s"
    "current_task s' = current_task s" "next_pid s' = next_pid s" "task_count s' = task_count s"
  using assms by (cases s; cases s'; simp)+

lemma tasks_ok_same:
  assumes "same_but_next tbl tbl'" and "tasks_ok tbl rq c np cnt"
  shows "tasks_ok tbl' rq c np cnt"
  by (rule tasks_ok_cong [OF assms(2)]) (simp_all add: same_but_next_fields [OF assms(1)])

text \<open>The four changes of the process table besides a switch.\<close>

lemma tasks_ok_new:
  assumes "tasks_ok tbl rq c np cnt" and "i < 64" and "pid (tbl ! i) < 0" and "pid t = np" and "state t = TASK_READY"
  shows "tasks_ok (tbl[i := t]) (rq @ [i]) c (np + 1) (cnt + 1)"
proof -
  have l: "length tbl = 64" and np: "0 \<le> np" using assms(1) by (auto simp: tasks_ok_def)
  have nth: "tbl[i := t] ! j = (if j = i then t else tbl ! j)" for j using assms(2) l by (auto simp: nth_upd)
  have "{j. j < 64 \<and> 0 \<le> pid (tbl[i := t] ! j)} = insert i {j. j < 64 \<and> 0 \<le> pid (tbl ! j)}"
    using assms(2-4) np by (auto simp: nth)
  moreover have "i \<notin> {j. j < 64 \<and> 0 \<le> pid (tbl ! j)}" using assms(3) by auto
  ultimately have "int (card {j. j < 64 \<and> 0 \<le> pid (tbl[i := t] ! j)}) = cnt + 1"
    using assms(1) by (simp add: tasks_ok_def)
  moreover have "\<forall>j<64. pid (tbl ! j) \<noteq> np" using assms(1) by (auto simp: tasks_ok_def)
  ultimately show ?thesis
    using assms np unfolding tasks_ok_def nth by (auto simp: l)
qed

lemma tasks_ok_wake:
  assumes "tasks_ok tbl rq c np cnt" and "i < 64" and "i \<noteq> c" and "0 \<le> pid (tbl ! i)"
  shows "tasks_ok (tbl[i := (tbl ! i)\<lparr>state := TASK_READY\<rparr>]) (rq @ [i]) c np cnt"
proof -
  have l: "length tbl = 64" using assms(1) by (auto simp: tasks_ok_def)
  have nth: "tbl[i := (tbl ! i)\<lparr>state := TASK_READY\<rparr>] ! j = (if j = i then (tbl ! i)\<lparr>state := TASK_READY\<rparr> else tbl ! j)" for j
    using assms(2) l by (auto simp: nth_upd)
  have p: "pid (tbl[i := (tbl ! i)\<lparr>state := TASK_READY\<rparr>] ! j) = pid (tbl ! j)" for j by (simp add: nth)
  show ?thesis
    using assms unfolding tasks_ok_def p by (auto simp: nth l)
qed

lemma free_task_pid [simp]: "pid free_task = -1"
  by (simp add: free_task_def)

lemma tasks_ok_free:
  assumes "tasks_ok tbl rq c np cnt" and "i < 64" and "i \<noteq> c" and "i \<notin> set rq" and "0 \<le> pid (tbl ! i)"
  shows "tasks_ok (tbl[i := free_task]) rq c np (cnt - 1)"
proof -
  have l: "length tbl = 64" and np: "0 \<le> np" using assms(1) by (auto simp: tasks_ok_def)
  have nth: "tbl[i := free_task] ! j = (if j = i then free_task else tbl ! j)" for j using assms(2) l by (auto simp: nth_upd)
  have "{j. j < 64 \<and> 0 \<le> pid (tbl ! j)} = insert i {j. j < 64 \<and> 0 \<le> pid (tbl[i := free_task] ! j)}"
    using assms(2,5) by (auto simp: nth)
  moreover have "i \<notin> {j. j < 64 \<and> 0 \<le> pid (tbl[i := free_task] ! j)}" by (simp add: nth)
  ultimately have "int (card {j. j < 64 \<and> 0 \<le> pid (tbl[i := free_task] ! j)}) = cnt - 1"
    using assms(1) by (simp add: tasks_ok_def)
  then show ?thesis
    using assms np unfolding tasks_ok_def nth by (auto simp: l)
qed

lemma queue_rep_outside:
  "queue_rep tbl h t rq \<Longrightarrow> i \<notin> set rq \<Longrightarrow> queue_rep (tbl[i := x]) h t rq"
  by (rule queue_rep_cong [where tbl = tbl]) (auto simp: nth_upd)

lemma install_task_inv:
  assumes "sched_inv s rq" and "i < 64" and "pid (task_table s ! i) < 0" and "pid t = next_pid s"
    and "state t = TASK_READY"
  shows "sched_inv (install_task i t s) (rq @ [i])" "current_task (install_task i t s) = current_task s"
    "same_but_next ((task_table s)[i := t]) (task_table (install_task i t s))"
    "next_pid (install_task i t s) = next_pid s + 1"
proof -
  obtain c where cur: "current_task s = Some c" and q: "queue_rep (task_table s) (ready_head s) (ready_tail s) rq"
    and ok: "tasks_ok (task_table s) rq c (next_pid s) (task_count s)"
    by (rule sched_invE [OF assms(1)])
  note t = tasks_okD [OF ok]
  have i: "i \<notin> set rq" using t(5) assms(3) by force
  let ?s = "(upd_task i (\<lambda>_. t) s)\<lparr>next_pid := next_pid s + 1\<rparr>"
  have "queue_rep (task_table ?s) (ready_head ?s) (ready_tail ?s) rq" using queue_rep_outside [OF q i] by simp
  note e = enqueue_ready_props [OF this, of i]
  have l: "i < length (task_table ?s)" using assms(2) t(1) by simp
  note e = e [OF l i]
  have "tasks_ok ((task_table s)[i := t]) (rq @ [i]) c (next_pid s + 1) (task_count s + 1)"
    using tasks_ok_new [OF ok assms(2,3)] assms(4,5) by simp
  then have "tasks_ok (task_table (enqueue_ready i ?s)) (rq @ [i]) c (next_pid s + 1) (task_count s + 1)"
    using e(2) by (simp add: tasks_ok_same)
  then show "sched_inv (install_task i t s) (rq @ [i])" "current_task (install_task i t s) = current_task s"
    "same_but_next ((task_table s)[i := t]) (task_table (install_task i t s))" "next_pid (install_task i t s) = next_pid s + 1"
    using e cur by (auto simp: install_task_def sched_inv_def Let_def)
qed

text \<open>Waking a task outside the ready queue.\<close>

lemma wake_inv:
  assumes "sched_inv s rq" and "i < 64" and "i \<notin> set rq" and "current_task s \<noteq> Some i"
    and "0 \<le> pid (task_table s ! i)"
  shows "sched_inv (task_wake (Some i) s) (rq @ [i])" "current_task (task_wake (Some i) s) = current_task s"
    "same_but_next ((task_table s)[i := (task_table s ! i)\<lparr>state := TASK_READY\<rparr>]) (task_table (task_wake (Some i) s))"
proof -
  obtain c where cur: "current_task s = Some c" and q: "queue_rep (task_table s) (ready_head s) (ready_tail s) rq"
    and ok: "tasks_ok (task_table s) rq c (next_pid s) (task_count s)"
    by (rule sched_invE [OF assms(1)])
  note t = tasks_okD [OF ok]
  let ?s = "upd_task i (\<lambda>t. t\<lparr>state := TASK_READY\<rparr>) s"
  have q': "queue_rep (task_table ?s) (ready_head ?s) (ready_tail ?s) rq" using queue_rep_outside [OF q assms(3)] by simp
  have l: "i < length (task_table ?s)" using assms(2) t(1) by simp
  note e = enqueue_ready_props [OF q' l assms(3)]
  have "tasks_ok (task_table ?s) (rq @ [i]) c (next_pid s) (task_count s)"
    using tasks_ok_wake [OF ok assms(2) _ assms(5)] assms(4) cur by simp
  then have "tasks_ok (task_table (enqueue_ready i ?s)) (rq @ [i]) c (next_pid s) (task_count s)"
    by (rule tasks_ok_same [OF e(2)])
  then show "sched_inv (task_wake (Some i) s) (rq @ [i])" "current_task (task_wake (Some i) s) = current_task s"
    "same_but_next ((task_table s)[i := (task_table s ! i)\<lparr>state := TASK_READY\<rparr>]) (task_table (task_wake (Some i) s))"
    using e cur by (auto simp: task_wake_def sched_inv_def)
qed

lemma upd_cur_inv:
  assumes "sched_inv s rq" and "current_task s = Some c" and "pid (f (task_table s ! c)) = pid (task_table s ! c)"
    and "next_task (f (task_table s ! c)) = next_task (task_table s ! c)"
  shows "sched_inv (upd_task c f s) rq"
  using assms queue_rep_upd [of "task_table s" _ _ rq f c]
    tasks_ok_upd_cur [of "task_table s" rq c _ _ "f (task_table s ! c)"] by (simp add: sched_inv_cur)

lemma task_find_slot_cases:
  assumes "length (task_table s) = 64"
  shows "task_find_slot s < 0 \<longleftrightarrow> (\<forall>i<64. 0 \<le> pid (task_table s ! i))"
    and "\<not> task_find_slot s < 0 \<Longrightarrow> nat (task_find_slot s) < 64 \<and> pid (task_table s ! nat (task_find_slot s)) < 0"
proof -
  show "task_find_slot s < 0 \<longleftrightarrow> (\<forall>i<64. 0 \<le> pid (task_table s ! i))"
  proof (cases "find_first (\<lambda>t. pid t < 0) (task_table s)")
    case None
    then have "\<forall>t\<in>set (task_table s). \<not> pid t < 0" by (simp add: find_first_None_iff)
    then show ?thesis using assms None by (auto simp: task_find_slot_def all_set_conv_all_nth)
  next
    case (Some a)
    then show ?thesis using assms find_first_SomeD [OF Some] by (auto simp: task_find_slot_def)
  qed
  show "nat (task_find_slot s) < 64 \<and> pid (task_table s ! nat (task_find_slot s)) < 0" if "\<not> task_find_slot s < 0"
    using that
  proof (cases "find_first (\<lambda>t. pid t < 0) (task_table s)")
    case (Some a)
    from Some assms find_first_SomeD [OF Some] show ?thesis by (simp add: task_find_slot_def)
  qed (simp add: task_find_slot_def)
qed

lemma task_create_cases:
  assumes "sched_inv s rq" and "task_create nm entry s = Inr (p, s')"
  shows "(p = -1 \<and> (\<forall>i<64. 0 \<le> pid (task_table s ! i)) \<and> machine.more s' = machine.more s)
    \<or> (\<exists>i t. installs s i t p s' \<and> name t = nm \<and> page_dir t = 0)"
proof -
  obtain c where cur: "current_task s = Some c" and ok: "tasks_ok (task_table s) rq c (next_pid s) (task_count s)"
    by (rule sched_invE [OF assms(1)])
  note l = tasks_okD(1) [OF ok]
  show ?thesis
  proof (cases "task_find_slot s < 0")
    case True
    then show ?thesis
      using assms(2) task_find_slot_cases(1) [OF l] by (auto simp: task_create_def Let_def more_klog)
  next
    case False
    note slot = task_find_slot_cases(2) [OF l False]
    obtain k s1 where s1: "task_frame entry s = Inr (k, s1)" "length nm < TASK_NAME_MAX"
      using assms(2) False by (auto simp: task_create_def Let_def bind_res_Inr_iff copy_name_def split: if_splits)
    note m = more_fields [OF more_task_frame [OF s1(1)]]
    have "installs s (nat (task_find_slot s)) \<lparr>pid = next_pid s, parent_pid = pid (task_table s ! c),
        state = TASK_READY, exit_code = 0, kernel_esp = k + 0x1000 - REGS_SIZE, kernel_stack_base = k,
        kernel_stack_top = k + 0x1000, page_dir = 0, name = nm, next_task = None\<rparr> p s'"
      using assms(2) False s1 slot cur more_task_frame [OF s1(1)]
      by (auto simp: installs_def task_create_def Let_def copy_name_def m more_klog)
    then show ?thesis by (intro disjI2 exI conjI) auto
  qed
qed

lemma task_fork_cases:
  assumes "sched_inv s rq" and "task_fork b regs s = Inr (p, s')"
  shows "(p = -1 \<and> machine.more s' = machine.more s)
    \<or> (\<exists>i t c. installs s i t p s' \<and> current_task s = Some c \<and> name t = name (task_table s ! c) \<and> page_dir t \<noteq> 0)"
proof -
  obtain c where cur: "current_task s = Some c" and ok: "tasks_ok (task_table s) rq c (next_pid s) (task_count s)"
    by (rule sched_invE [OF assms(1)])
  note l = tasks_okD(1) [OF ok]
  show ?thesis
  proof (cases "task_find_slot s < 0")
    case True
    then show ?thesis using assms(2) by (auto simp: task_fork_def Let_def more_klog)
  next
    case False
    note slot = task_find_slot_cases(2) [OF l False]
    obtain d s1 where s1: "paging_clone_directory b s = Inr (d, s1)"
      using assms(2) False by (auto simp: task_fork_def Let_def bind_res_Inr_iff)
    note m1 = more_paging_clone_directory [OF s1]
    show ?thesis
    proof (cases "d = 0")
      case True
      then show ?thesis using assms(2) False s1 m1 by (auto simp: task_fork_def Let_def more_klog)
    next
      case d: False
      obtain k s2 where s2: "fork_frame regs s1 = Inr (k, s2)"
        using assms(2) False s1 d by (auto simp: task_fork_def Let_def bind_res_Inr_iff)
      have m2: "machine.more s2 = machine.more s" using more_fork_frame [OF s2] m1 by simp
      note m = more_fields [OF m2]
      have "installs s (nat (task_find_slot s)) \<lparr>pid = next_pid s, parent_pid = pid (task_table s ! c),
          state = TASK_READY, exit_code = 0, kernel_esp = k + 0x1000 - REGS_SIZE, kernel_stack_base = k,
          kernel_stack_top = k + 0x1000, page_dir = d, name = name (task_table s ! c), next_task = None\<rparr> p s'"
        using assms(2) False s1 d s2 slot cur m2
        by (auto simp: installs_def task_fork_def Let_def m more_klog)
      with cur d show ?thesis by (metis task_t.select_convs(8,9))
    qed
  qed
qed

lemma installs_inv:
  assumes "sched_inv s rq" and "installs s i t p s'"
  shows "sched_inv s' (rq @ [i])" "current_task s' = current_task s" "next_pid s' = next_pid s + 1"
    "same_but_next ((task_table s)[i := t]) (task_table s')"
proof -
  obtain s1 where s1: "machine.more s1 = machine.more s" "machine.more s' = machine.more (install_task i t s1)"
    and p: "i < 64" "pid (task_table s ! i) < 0" "p = next_pid s" "pid t = p" "state t = TASK_READY"
    using assms(2) by (auto simp: installs_def)
  note m = more_fields [OF s1(1)] and m' = more_fields [OF s1(2)]
  have "sched_inv s1 rq" using sched_inv_more [OF s1(1)] assms(1) by simp
  note a = install_task_inv [OF this, of i t]
  show "sched_inv s' (rq @ [i])" "current_task s' = current_task s" "next_pid s' = next_pid s + 1"
    "same_but_next ((task_table s)[i := t]) (task_table s')"
    using a p sched_inv_more [OF s1(2)] by (simp_all add: m m')
qed

lemma sched_inv_klog [simp]: "sched_inv (klog fm as s) rq = sched_inv s rq"
  by (rule sched_inv_more) (rule more_klog)

text \<open>Looking up the parent of an exiting task.\<close>

lemma task_from_pid_props:
  assumes "sched_inv s rq" and "task_from_pid p s = Some q"
  shows "q < 64" "pid (task_table s ! q) = p"
proof -
  have "length (task_table s) = 64" using assms(1) by (auto simp: sched_inv_def dest: tasks_okD(1))
  then show "q < 64" "pid (task_table s ! q) = p"
    using find_first_SomeD(1,2) [OF assms(2) [unfolded task_from_pid_def]] by auto
qed

lemma blocked_outside:
  assumes "sched_inv s rq" and "state (task_table s ! q) = TASK_BLOCKED"
  shows "q \<notin> set rq"
  using assms by (auto simp: sched_inv_def task_consts dest!: tasks_okD(5))

lemma exit_wake_inv:
  assumes inv: "sched_inv s rq" and cur: "current_task s = Some c" and "state (task_table s ! c) = TASK_ZOMBIE"
    and "task_from_pid p s = Some q" "0 \<le> p" "state (task_table s ! q) = TASK_BLOCKED"
  shows "sched_inv (task_wake (Some q) s) (rq @ [q])"
proof -
  note q = task_from_pid_props [OF inv assms(4)]
  have "q \<noteq> c" using assms(3,6) by (auto simp: task_consts)
  then show ?thesis
    using wake_inv(1) [OF inv q(1) blocked_outside [OF inv assms(6)]] cur q(2) assms(5) by simp
qed

lemma task_exit_inv [sros_inv]:
  assumes "sched_inv s rq"
  shows "\<exists>rq'. sched_inv (task_exit code s) rq'"
proof -
  obtain c where cur: "current_task s = Some c" and "c < length (task_table s)"
    using assms by (auto simp: sched_inv_def tasks_ok_def)
  define s0 where "s0 = klogln ''[sched] task %d (%s) exiting with code %d''
      [AI (pid (task_table s ! c)), AStr (name (task_table s ! c)), AI code] s"
  define s1 where "s1 = upd_task c (\<lambda>t. t\<lparr>exit_code := code, state := TASK_ZOMBIE\<rparr>) s0"
  have "sched_inv s0 rq" using assms by (simp add: s0_def)
  then have i1: "sched_inv s1 rq" unfolding s1_def by (rule upd_cur_inv) (simp_all add: s0_def cur)
  have z: "current_task s1 = Some c" "state (task_table s1 ! c) = TASK_ZOMBIE"
    using cur \<open>c < length (task_table s)\<close> by (simp_all add: s1_def s0_def)
  define pp where "pp = parent_pid (task_table s ! c)"
  have "\<exists>rq'. sched_inv (klog fm as (task_wake (Some q) s1)) rq'"
    if "task_from_pid pp s1 = Some q" "0 \<le> pp" "state (task_table s1 ! q) = TASK_BLOCKED" for q fm as
    using exit_wake_inv [OF i1 z that] by auto
  moreover have "task_exit code s = (if 0 \<le> pp then (case task_from_pid pp s1 of
        Some q \<Rightarrow> if state (task_table s1 ! q) = TASK_BLOCKED
                   then klogln ''[sched] woke up parent %d'' [AI pp] (task_wake (Some q) s1) else s1
      | None \<Rightarrow> s1) else s1)"
    unfolding task_exit_def s1_def s0_def pp_def task_wake_def cur Let_def option.case by (rule refl)
  ultimately show ?thesis using i1 by (auto split: option.splits)
qed

lemma task_wait_round_cases:
  assumes inv: "sched_inv s rq" and cur: "current_task s = Some c"
    and st: "state (task_table s ! c) \<noteq> TASK_ZOMBIE" and r: "task_wait_round p s = Inr (r, s')"
  shows "(\<exists>i fm as s1. r = WaitDone (pid (task_table s ! i)) \<and> i < 64 \<and> i \<noteq> c \<and> i \<notin> set rq
        \<and> is_child (pid (task_table s ! c)) p (task_table s ! i) \<and> state (task_table s ! i) = TASK_ZOMBIE
        \<and> machine.more s1 = machine.more s
        \<and> s' = klog fm as ((upd_task i (\<lambda>t. free_task) s1)\<lparr>task_count := task_count s - 1\<rparr>))
    \<or> (r = WaitDone (-1) \<and> (\<forall>i<64. \<not> is_child (pid (task_table s ! c)) p (task_table s ! i))
        \<and> machine.more s' = machine.more s)
    \<or> (r = WaitBlocked \<and> s' = upd_task c (\<lambda>t. t\<lparr>state := TASK_BLOCKED\<rparr>) s
        \<and> (\<exists>i<64. is_child (pid (task_table s ! c)) p (task_table s ! i))
        \<and> (\<forall>i<64. is_child (pid (task_table s ! c)) p (task_table s ! i) \<longrightarrow> state (task_table s ! i) \<noteq> TASK_ZOMBIE))"
proof -
  let ?me = "pid (task_table s ! c)"
  let ?z = "\<lambda>t. is_child ?me p t \<and> state t = TASK_ZOMBIE" and ?a = "\<lambda>t. is_child ?me p t \<and> state t \<noteq> TASK_ZOMBIE"
  have ok: "tasks_ok (task_table s) rq c (next_pid s) (task_count s)" using inv cur by (simp add: sched_inv_cur)
  note t = tasks_okD [OF ok]
  show ?thesis
  proof (cases "find_first ?z (task_table s)")
    case (Some i)
    note f = find_first_SomeD(1,2) [OF Some]
    have i: "i < 64" "i \<noteq> c" using f t(1) st by auto
    have "i \<notin> set rq" using t(5) f(2) by (auto simp: task_consts)
    moreover obtain s1 fm as where "machine.more s1 = machine.more s"
      "s' = klog fm as ((upd_task i (\<lambda>t. free_task) s1)\<lparr>task_count := task_count s - 1\<rparr>)"
      "r = WaitDone (pid (task_table s ! i))"
    proof -
      obtain sa where sa: "(if kernel_stack_base (task_table s ! i) \<noteq> 0
          then pfa_free (kernel_stack_base (task_table s ! i)) s else Inr s) = Inr sa"
        using r cur Some by (auto simp: task_wait_round_def Let_def bind_res_Inr_iff split: if_splits)
      obtain sb where sb: "(if page_dir (task_table s ! i) \<noteq> 0 then pfa_free (page_dir (task_table s ! i)) sa else Inr sa) = Inr sb"
        using r cur Some sa by (auto simp: task_wait_round_def Let_def bind_res_Inr_iff split: if_splits)
      have "machine.more sa = machine.more s" using sa by (auto split: if_splits dest: more_pfa_free)
      moreover have "machine.more sb = machine.more sa" using sb by (auto split: if_splits dest: more_pfa_free)
      ultimately have m: "machine.more sb = machine.more s" by simp
      show thesis
        using r cur Some sa sb that [OF m] more_fields(6) [OF m]
        by (auto simp: task_wait_round_def Let_def)
    qed
    ultimately show ?thesis using i f(2) by (intro disjI1) blast
  next
    case None
    then have z: "\<forall>i<64. \<not> ?z (task_table s ! i)"
      using t(1) by (simp add: find_first_None_iff all_set_conv_all_nth)
    show ?thesis
    proof (cases "find_first ?a (task_table s)")
      case None': None
      then have "\<forall>i<64. \<not> ?a (task_table s ! i)"
        using t(1) by (simp add: find_first_None_iff all_set_conv_all_nth)
      then show ?thesis using z r cur None None' by (auto simp: task_wait_round_def Let_def more_klog)
    next
      case (Some j)
      note f = find_first_SomeD(1,2) [OF Some]
      then show ?thesis using z r cur None Some t(1) by (auto simp: task_wait_round_def Let_def)
    qed
  qed
qed

lemma free_slot_inv:
  assumes inv: "sched_inv s rq" and cur: "current_task s = Some c" and "i < 64" "i \<noteq> c" "i \<notin> set rq"
    and "0 \<le> pid (task_table s ! i)"
  shows "sched_inv ((upd_task i (\<lambda>t. free_task) s)\<lparr>task_count := task_count s - 1\<rparr>) rq"
  using assms tasks_ok_free [of "task_table s" rq c "next_pid s" "task_count s" i]
    queue_rep_outside [of "task_table s" _ _ rq i] by (simp add: sched_inv_def)

lemma task_wait_round_inv [sros_inv]:
  assumes inv: "sched_inv s rq" and cur: "current_task s = Some c"
    and st: "state (task_table s ! c) \<noteq> TASK_ZOMBIE" and r: "task_wait_round p s = Inr (r, s')"
  shows "sched_inv s' rq"
  using task_wait_round_cases [OF assms]
proof (elim disjE exE conjE)
  fix i fm as s1
  assume a: "i < 64" "i \<noteq> c" "i \<notin> set rq" "is_child (pid (task_table s ! c)) p (task_table s ! i)"
    "machine.more s1 = machine.more s" "s' = klog fm as ((upd_task i (\<lambda>t. free_task) s1)\<lparr>task_count := task_count s - 1\<rparr>)"
  note m = more_fields [OF a(5)]
  have "sched_inv s1 rq" using sched_inv_more [OF a(5)] inv by simp
  from free_slot_inv [OF this _ a(1-3)] have "sched_inv ((upd_task i (\<lambda>t. free_task) s1)\<lparr>task_count := task_count s - 1\<rparr>) rq"
    using a(4) cur by (simp add: m is_child_def)
  then show ?thesis unfolding a(6) by simp
next
  assume "machine.more s' = machine.more s"
  then show ?thesis using sched_inv_more inv by blast
next
  assume "s' = upd_task c (\<lambda>t. t\<lparr>state := TASK_BLOCKED\<rparr>) s"
  then show ?thesis using upd_cur_inv [OF inv cur, of "\<lambda>t. t\<lparr>state := TASK_BLOCKED\<rparr>"] by simp
qed

lemma task_wait_inv [sros_inv]:
  assumes inv: "sched_inv s rq" and cur: "current_task s = Some c"
    and st: "state (task_table s ! c) \<noteq> TASK_ZOMBIE" and r: "task_wait p s = Inr (r, s')"
  shows "sched_inv s' rq"
proof -
  define s0 where "s0 = klogln ''[sched] task %d waiting for child pid=%d'' [AI (pid (task_table s ! c)), AI p] s"
  have "sched_inv s0 rq" using inv by (simp add: s0_def)
  from task_wait_round_inv [OF this, of c] show ?thesis
    using cur st r by (simp add: s0_def task_wait_def)
qed

lemma task_block_inv [sros_inv]: "sched_inv s rq \<Longrightarrow> sched_inv (task_block s) rq"
  by (erule sched_invE) (auto simp: task_block_def sched_inv_cur intro: queue_rep_upd tasks_ok_upd_cur)

lemma scheduler_init_fields:
  "task_table (scheduler_init s) = (let tbl = map (\<lambda>t. t\<lparr>pid := -1\<rparr>) (task_table s)
     in tbl[0 := (tbl ! 0)\<lparr>pid := next_pid s, parent_pid := -1, state := TASK_RUNNING, exit_code := 0,
          kernel_esp := 0, kernel_stack_base := 0, kernel_stack_top := 0x20000, page_dir := cr3 s,
          name := ''init'', next_task := None\<rparr>])"
  "current_task (scheduler_init s) = Some 0" "next_pid (scheduler_init s) = next_pid s + 1"
  "task_count (scheduler_init s) = 1" "ready_head (scheduler_init s) = ready_head s"
  "ready_tail (scheduler_init s) = ready_tail s"
  by (simp_all add: scheduler_init_def Let_def upd_task_def klog_def)

lemma scheduler_init_inv [sros_inv]:
  assumes b: "sched_blank s"
  shows "sched_inv (scheduler_init s) []"
proof -
  define tbl where "tbl = task_table (scheduler_init s)"
  have l: "length (task_table s) = 64" "length tbl = 64"
    using b by (simp_all add: sched_blank_def tbl_def scheduler_init_fields Let_def)
  have p: "pid (tbl ! i) = (if i = 0 then 0 else -1)" if "i < 64" for i
    using that b l by (auto simp: tbl_def scheduler_init_fields Let_def nth_upd sched_blank_def)
  then have "{i. i < 64 \<and> 0 \<le> pid (tbl ! i)} = {0}" by (auto split: if_splits)
  then have "tasks_ok tbl [] 0 1 1"
    unfolding tasks_ok_def by (auto simp: p l(2) split: if_splits)
  then show ?thesis
    using b by (simp add: sched_inv_def tbl_def scheduler_init_fields(2-6) queue_rep_def sched_blank_def)
qed

lemma step_inv:
  assumes "sched_step b s s'" and "sched_inv s rq"
  shows "\<exists>rq'. sched_inv s' rq'"
  using assms(1)
proof cases
  case (step_tick regs r)
  then show ?thesis using tick_inv [OF assms(2)] by blast
next
  case (step_create nm entry p)
  from task_create_cases [OF assms(2) this] show ?thesis
    using installs_inv(1) [OF assms(2)] sched_inv_more assms(2) by blast
next
  case (step_fork regs p)
  from task_fork_cases [OF assms(2) this] show ?thesis
    using installs_inv(1) [OF assms(2)] sched_inv_more assms(2) by blast
next
  case (step_exit code)
  then show ?thesis using task_exit_inv [OF assms(2)] by simp
next
  case (step_wait c p r)
  then show ?thesis using task_wait_inv [OF assms(2)] by blast
next
  case (step_wait_round c p r)
  then show ?thesis using task_wait_round_inv [OF assms(2)] by blast
next
  case step_block
  then show ?thesis using task_block_inv [OF assms(2)] by blast
next
  case (step_wake i)
  then show ?thesis using wake_inv(1) [OF assms(2) _ blocked_outside [OF assms(2)]] by blast
qed

lemma ready_count:
  assumes "sched_inv s rq" and "rq \<noteq> []"
  shows "1 < task_count s"
proof -
  obtain c where ok: "tasks_ok (task_table s) rq c (next_pid s) (task_count s)"
    using assms(1) by (auto simp: sched_inv_def)
  have "{hd rq, c} \<subseteq> {i. i < 64 \<and> 0 \<le> pid (task_table s ! i)}" "hd rq \<noteq> c"
    using tasks_okD [OF ok] assms(2) by auto
  then have "2 \<le> card {i. i < 64 \<and> 0 \<le> pid (task_table s ! i)}"
    using card_mono [of "{i. i < 64 \<and> 0 \<le> pid (task_table s ! i)}" "{hd rq, c}"] by simp
  then show ?thesis using ok by (simp add: tasks_ok_def)
qed

lemma tick_running:
  assumes "sched_inv s rq" and "current_task s = Some c" and "state (task_table s ! c) = TASK_RUNNING"
    and "1 < task_count s" and "clock_frame r s" and "scheduler_tick r s = Inr (e, s')"
  shows "e = (if rq = [] then r else kernel_esp (task_table s ! hd rq))"
    "current_task s' = Some (hd (rq @ [c]))" "sched_inv s' (tl (rq @ [c]))"
    "state (task_table s' ! hd (rq @ [c])) = TASK_RUNNING" "task_count s' = task_count s"
    "\<And>i. i < 64 \<Longrightarrow> kernel_esp (task_table s' ! i) = (if i = c then r else kernel_esp (task_table s ! i))"
proof -
  have st: "state (task_table s ! c) \<noteq> TASK_ZOMBIE" "state (task_table s ! c) \<noteq> TASK_BLOCKED"
    using assms(3) by (simp_all add: task_consts)
  note t = tick_rotate [OF assms(1,2) st assms(4,5)]
  show "e = (if rq = [] then r else kernel_esp (task_table s ! hd rq))"
    "current_task s' = Some (hd (rq @ [c]))" "sched_inv s' (tl (rq @ [c]))"
    "state (task_table s' ! hd (rq @ [c])) = TASK_RUNNING" "task_count s' = task_count s"
    "\<And>i. i < 64 \<Longrightarrow> kernel_esp (task_table s' ! i) = (if i = c then r else kernel_esp (task_table s ! i))"
    using t assms(6) by auto
qed

lemma resumes_at:
  "ticks s rs e s' \<Longrightarrow> sched_inv s rq \<Longrightarrow> current_task s = Some c \<Longrightarrow> state (task_table s ! c) = TASK_RUNNING
    \<Longrightarrow> length rs = Suc k \<Longrightarrow> k < length rq
    \<Longrightarrow> e = kernel_esp (task_table s ! (rq ! k)) \<and> current_task s' = Some (rq ! k)"
proof (induction k arbitrary: s rs rq c)
  case 0
  then obtain r where rs: "rs = [r]" by (cases rs) auto
  have t: "clock_frame r s" "scheduler_tick r s = Inr (e, s')"
    using "0.prems"(1) unfolding rs by (auto elim: ticks_ConsE ticks_NilE)
  have ne: "rq \<noteq> []" using "0.prems" by auto
  show ?case
    using tick_running [OF "0.prems"(2-4) ready_count [OF "0.prems"(2) ne] t] ne by (simp add: hd_conv_nth nth_append)
next
  case (Suc k)
  then obtain r rs' where rs: "rs = r # rs'" "length rs' = Suc k" by (cases rs) auto
  obtain e' s1 where t: "clock_frame r s" "scheduler_tick r s = Inr (e', s1)" "ticks s1 rs' e s'"
    using Suc.prems(1) rs(2) unfolding rs(1) by (auto elim: ticks_ConsE)
  have ne: "rq \<noteq> []" using Suc.prems by auto
  note tr = tick_running [OF Suc.prems(2-4) ready_count [OF Suc.prems(2) ne] t(1,2)]
  have k: "k < length (tl (rq @ [c]))" using Suc.prems(6) by simp
  have nth: "tl (rq @ [c]) ! k = rq ! Suc k" using Suc.prems(6) by (simp add: nth_tl nth_append)
  have ok: "tasks_ok (task_table s) rq c (next_pid s) (task_count s)"
    using Suc.prems(2,3) by (simp add: sched_inv_cur)
  have x: "rq ! Suc k < 64" "rq ! Suc k \<noteq> c"
    using tasks_okD(3,5) [OF ok] nth_mem [OF Suc.prems(6)] by metis+
  show ?case
    using Suc.IH [OF t(3) tr(3,2,4) rs(2) k] tr(6) [OF x(1)] x(2) by (simp add: nth)
qed

lemma rotates:
  "ticks s rs e s' \<Longrightarrow> sched_inv s rq \<Longrightarrow> current_task s = Some c \<Longrightarrow> state (task_table s ! c) = TASK_RUNNING
    \<Longrightarrow> 1 < task_count s
    \<Longrightarrow> \<exists>c' rq'. current_task s' = Some c' \<and> sched_inv s' rq' \<and> c' # rq' = rotate (length rs) (c # rq)
         \<and> state (task_table s' ! c') = TASK_RUNNING"
proof (induction s rs e s' arbitrary: rq c rule: ticks.induct)
  case (ticks_one r s e s')
  note t = tick_running [OF ticks_one.prems ticks_one.hyps]
  have "hd (rq @ [c]) # tl (rq @ [c]) = rotate1 (c # rq)" by (cases rq) auto
  then show ?case using t by auto
next
  case (ticks_more r s e' s1 rs e s')
  note t = tick_running [OF ticks_more.prems ticks_more.hyps(1,2)]
  have "hd (rq @ [c]) # tl (rq @ [c]) = rotate1 (c # rq)" by (cases rq) auto
  moreover have "rotate (Suc n) (c # rq) = rotate n (rotate1 (c # rq))" for n
    by (simp add: rotate1_rotate_swap)
  ultimately show ?case
    using ticks_more.IH [OF t(3,2,4)] t(5) ticks_more.prems(4) by (metis length_Cons)
qed

lemma demo_tasks_ok:
  assumes "pid t0 = 0" "pid t1 = 1" "rq = (if state t1 = TASK_READY then [1] else [])"
  shows "tasks_ok (t0 # t1 # replicate 62 free_task) rq 0 2 2"
proof -
  define tbl where "tbl = t0 # t1 # replicate 62 free_task"
  have nth: "tbl ! i = (if i = 0 then t0 else if i = 1 then t1 else free_task)" if "i < 64" for i
    using that by (cases i; cases "i - 1") (auto simp: tbl_def)
  have "{i. i < 64 \<and> 0 \<le> pid (tbl ! i)} = {0, 1}" using assms by (auto simp: nth split: if_splits)
  moreover have "length tbl = 64" by (simp add: tbl_def)
  ultimately have "tasks_ok tbl rq 0 2 2"
    using assms unfolding tasks_ok_def by (auto simp: nth split: if_splits)
  then show ?thesis by (simp add: tbl_def)
qed

lemma demo_inv:
  assumes "pid t0 = 0" "pid t1 = 1" "rq = (if state t1 = TASK_READY then [1] else [])" "next_task t1 = None"
  shows "sched_inv (demo_sched t0 t1 rq) rq"
  using demo_tasks_ok [OF assms(1-3)] assms by (auto simp: sched_inv_def demo_sched_def queue_rep_def)

lemma demo_clock: "clock_frame 0x1000 (demo_sched t0 t1 rq)"
  by (simp add: clock_frame_def vload32_def translate_def demo_sched_def R_int_no_def)

end
