(* ===== verification/Sros_Ipc.thy ===== *)
theory Sros_Ipc
  imports Sros_Scheduler Sros_Ring
begin

unbundle bit_operations_syntax

text \<open>
  Semaphores and message queues (\<open>src/kernel/ipc.c\<close>). Interrupts are off in the critical sections, so
  each function is one atomic step up to its \<open>int $32\<close>: the result \<open>Blocked\<close> says that the calling task
  has been put on a wait queue and gives up the processor. A blocked \<open>sem_wait\<close> returns 0 when the
  task runs again; a blocked \<open>msg_queue_send\<close> or \<open>msg_queue_recv\<close> then runs its loop again.
\<close>

section \<open>State\<close>

definition MAX_SEMS :: nat where "MAX_SEMS = 64"
definition SEM_NAME_MAX :: nat where "SEM_NAME_MAX = 24"
definition MAX_MSGQUEUES :: nat where "MAX_MSGQUEUES = 16"
definition MSGQUEUE_SIZE :: int where "MSGQUEUE_SIZE = 64"
definition MSG_MAX_DATA :: u32 where "MSG_MAX_DATA = 64"

record sem_t =
  sem_id :: int
  sem_name :: string
  sem_value :: int
  wait_head :: task_ptr
  wait_tail :: task_ptr

record message_t =
  msg_len :: u32
  msg_data :: "u8 list"

record msg_queue_t =
  mq_id :: int
  msgs :: "message_t list"
  mq_head :: int
  mq_tail :: int
  mq_num :: int
  recv_wait_head :: task_ptr
  recv_wait_tail :: task_ptr
  send_wait_head :: task_ptr
  send_wait_tail :: task_ptr

record ipc = sched +
  sem_table :: "sem_t list"
  sem_count :: int
  mq_table :: "msg_queue_t list"
  mq_count :: int

datatype ipc_result = Done int | Blocked

definition upd_sem :: "nat \<Rightarrow> (sem_t \<Rightarrow> sem_t) \<Rightarrow> 'a ipc_scheme \<Rightarrow> 'a ipc_scheme" where
  "upd_sem i f s = s\<lparr>sem_table := (sem_table s)[i := f (sem_table s ! i)]\<rparr>"

definition upd_mq :: "nat \<Rightarrow> (msg_queue_t \<Rightarrow> msg_queue_t) \<Rightarrow> 'a ipc_scheme \<Rightarrow> 'a ipc_scheme" where
  "upd_mq i f s = s\<lparr>mq_table := (mq_table s)[i := f (mq_table s ! i)]\<rparr>"

section \<open>Wait queues\<close>

text \<open>
  The code by which the current task joins the wait queue with the given ends, and by which the first
  task of a wait queue is woken. The three wait queues of the file share it.
\<close>

definition wait_join :: "task_ptr \<Rightarrow> task_ptr \<Rightarrow> nat \<Rightarrow> 'a sched_scheme \<Rightarrow> (task_ptr \<times> task_ptr) \<times> 'a sched_scheme" where
  "wait_join h t c s =
     (let s = task_block s;
          (tbl, h, t) = q_append (task_table s) h t c
      in ((h, t), s\<lparr>task_table := tbl\<rparr>))"

definition wake_first :: "task_ptr \<Rightarrow> task_ptr \<Rightarrow> 'a sched_scheme \<Rightarrow> (task_ptr \<times> task_ptr) \<times> 'a sched_scheme" where
  "wake_first h t s =
     (let (w, tbl, h, t) = q_pop (task_table s) h t
      in ((h, t), task_wake w (s\<lparr>task_table := tbl\<rparr>)))"

text \<open>
  Waking every task of a wait queue. On a list that runs into itself the loop does not end, which is
  the value \<open>None\<close>.
\<close>

partial_function (option) wake_all :: "string \<Rightarrow> int \<Rightarrow> task_ptr \<Rightarrow> 'a sched_scheme \<Rightarrow> 'a sched_scheme option" where
  "wake_all msg q_id h s =
     (case h of
        None \<Rightarrow> Some s
      | Some w \<Rightarrow>
          (let h = next_task (task_table s ! w);
               s = s\<lparr>task_table := set_next w None (task_table s)\<rparr>;
               s = klogln msg [AI q_id, AI (pid (task_table s ! w))] s
           in wake_all msg q_id h (task_wake (Some w) s)))"

section \<open>Semaphores\<close>

definition sem_init :: "'a ipc_scheme \<Rightarrow> 'a ipc_scheme" where
  "sem_init s =
     (let s = s\<lparr>sem_table := map (\<lambda>m. m\<lparr>sem_id := -1\<rparr>) (sem_table s)\<rparr>
      in klogln ''[ipc] Semaphore subsystem initialized (%d max)'' [AInt (of_nat MAX_SEMS)] s)"

definition sem_find_slot :: "'a ipc_scheme \<Rightarrow> int" where
  "sem_find_slot s = slot_or_minus1 (find_first (\<lambda>m. sem_id m < 0) (sem_table s))"

definition sem_create :: "string option \<Rightarrow> int \<Rightarrow> 'a ipc_scheme \<Rightarrow> (int \<times> 'a ipc_scheme) kres" where
  "sem_create nm initial_value s =
     (let slot = sem_find_slot s in
      if slot < 0 then Inr (-1, klogln ''[ipc] sem_create: no free slots!'' [] s)
      else
        bind_res (case nm of Some t \<Rightarrow> copy_name SEM_NAME_MAX t | None \<Rightarrow> Inr []) (\<lambda>nm'.
        (let n = sem_count s;
             v = (if initial_value < 0 then 0 else initial_value);
             s = s\<lparr>sem_count := n + 1\<rparr>;
             s = upd_sem (nat slot) (\<lambda>m. \<lparr>sem_id = n, sem_name = nm', sem_value = v, wait_head = None,
                   wait_tail = None\<rparr>) s;
             s = klogln ''[ipc] sem %d '%s' created (value=%d)'' [AI n, AStr nm', AI v] s
         in Inr (n, s))))"

definition sem_find :: "int \<Rightarrow> 'a ipc_scheme \<Rightarrow> nat option" where
  "sem_find k s = find_first (\<lambda>m. sem_id m = k) (sem_table s)"

definition sem_wait :: "int \<Rightarrow> 'a ipc_scheme \<Rightarrow> ipc_result \<times> 'a ipc_scheme" where
  "sem_wait k s =
     (if k < 0 \<or> sem_count s \<le> k then (Done (-1), s)
      else case sem_find k s of
        None \<Rightarrow> (Done (-1), s)
      | Some i \<Rightarrow>
          if 0 < sem_value (sem_table s ! i)
          then (Done 0, upd_sem i (\<lambda>m. m\<lparr>sem_value := sem_value m - 1\<rparr>) s)
          else case current_task s of
            None \<Rightarrow> (Done (-1), s)
          | Some c \<Rightarrow>
              (let m = sem_table s ! i;
                   s = klogln ''[ipc] sem %d '%s': task %d BLOCKED on wait''
                         [AI k, AStr (sem_name m), AI (pid (task_table s ! c))] s;
                   ((h, t), s) = wait_join (wait_head m) (wait_tail m) c s
               in (Blocked, upd_sem i (\<lambda>m. m\<lparr>wait_head := h, wait_tail := t\<rparr>) s)))"

definition sem_post :: "int \<Rightarrow> 'a ipc_scheme \<Rightarrow> int \<times> 'a ipc_scheme" where
  "sem_post k s =
     (if k < 0 \<or> sem_count s \<le> k then (-1, s)
      else case sem_find k s of
        None \<Rightarrow> (-1, s)
      | Some i \<Rightarrow>
          (let m = sem_table s ! i in
           case wait_head m of
             Some w \<Rightarrow>
               (let s = klogln ''[ipc] sem %d '%s': waking task %d''
                      [AI k, AStr (sem_name m), AI (pid (task_table s ! w))] s;
                    ((h, t), s) = wake_first (wait_head m) (wait_tail m) s
                in (0, upd_sem i (\<lambda>m. m\<lparr>wait_head := h, wait_tail := t\<rparr>) s))
           | None \<Rightarrow> (0, upd_sem i (\<lambda>m. m\<lparr>sem_value := sem_value m + 1\<rparr>) s)))"

definition sem_destroy :: "int \<Rightarrow> 'a ipc_scheme \<Rightarrow> (int \<times> 'a ipc_scheme) option" where
  "sem_destroy k s =
     (if k < 0 then Some (-1, s)
      else case sem_find k s of
        None \<Rightarrow> Some (-1, s)
      | Some i \<Rightarrow> do {
          s \<leftarrow> wake_all ''[ipc] sem %d destroyed, waking task %d'' k (wait_head (sem_table s ! i)) s;
          let s = upd_sem i (\<lambda>m. \<lparr>sem_id = -1, sem_name = [], sem_value = 0, wait_head = None, wait_tail = None\<rparr>) s;
          Some (0, klogln ''[ipc] sem %d destroyed'' [AI k] s) })"

section \<open>Message queues\<close>

definition msg_queue_init :: "'a ipc_scheme \<Rightarrow> 'a ipc_scheme" where
  "msg_queue_init s =
     (let s = s\<lparr>mq_table := map (\<lambda>m. m\<lparr>mq_id := -1\<rparr>) (mq_table s)\<rparr>
      in klogln ''[ipc] Message queue subsystem initialized (%d max)'' [AInt (of_nat MAX_MSGQUEUES)] s)"

definition mq_find_slot :: "'a ipc_scheme \<Rightarrow> int" where
  "mq_find_slot s = slot_or_minus1 (find_first (\<lambda>m. mq_id m < 0) (mq_table s))"

definition msg_queue_create :: "'a ipc_scheme \<Rightarrow> int \<times> 'a ipc_scheme" where
  "msg_queue_create s =
     (let slot = mq_find_slot s in
      if slot < 0 then (-1, klogln ''[ipc] msg_queue_create: no free slots!'' [] s)
      else
        (let n = mq_count s;
             s = s\<lparr>mq_count := n + 1\<rparr>;
             s = upd_mq (nat slot) (\<lambda>m. m\<lparr>mq_id := n, mq_head := 0, mq_tail := 0, mq_num := 0,
                   recv_wait_head := None, recv_wait_tail := None, send_wait_head := None,
                   send_wait_tail := None\<rparr>) s
         in (n, klogln ''[ipc] msg queue %d created'' [AI n] s)))"

definition mq_find :: "int \<Rightarrow> 'a ipc_scheme \<Rightarrow> nat option" where
  "mq_find k s = find_first (\<lambda>m. mq_id m = k) (mq_table s)"

text \<open>Reading the bytes at an address, and writing bytes to an address, in order.\<close>

fun vread :: "u32 \<Rightarrow> nat \<Rightarrow> 'a machine_scheme \<Rightarrow> u8 list kres" where
  "vread p 0 s = Inr []"
| "vread p (Suc n) s = bind_res (vload8 p s) (\<lambda>b. bind_res (vread (p + 1) n s) (\<lambda>bs. Inr (b # bs)))"

fun vwrite :: "u32 \<Rightarrow> u8 list \<Rightarrow> 'a machine_scheme \<Rightarrow> 'a machine_scheme kres" where
  "vwrite p [] s = Inr s"
| "vwrite p (b # bs) s = bind_res (vstore8 p b s) (vwrite (p + 1) bs)"

text \<open>
  The ring operations: storing a message (its bytes replace the first bytes of the slot's buffer) and
  taking the oldest one.
\<close>

definition mq_store :: "u32 \<Rightarrow> u8 list \<Rightarrow> msg_queue_t \<Rightarrow> msg_queue_t" where
  "mq_store len bytes m =
     (let i = nat (mq_tail m);
          old = msg_data (msgs m ! i)
      in m\<lparr>msgs := (msgs m)[i := \<lparr>msg_len = len, msg_data = bytes @ drop (length bytes) old\<rparr>],
           mq_tail := (mq_tail m + 1) mod MSGQUEUE_SIZE, mq_num := mq_num m + 1\<rparr>)"

definition mq_take :: "msg_queue_t \<Rightarrow> message_t \<times> msg_queue_t" where
  "mq_take m = (msgs m ! nat (mq_head m),
     m\<lparr>mq_head := (mq_head m + 1) mod MSGQUEUE_SIZE, mq_num := mq_num m - 1\<rparr>)"

text \<open>One round of the loop of \<open>msg_queue_send\<close> on slot \<open>i\<close>, and the rest of the function after it.\<close>

definition mq_send_round :: "nat \<Rightarrow> int \<Rightarrow> u32 \<Rightarrow> u32 \<Rightarrow> 'a ipc_scheme \<Rightarrow> (ipc_result \<times> 'a ipc_scheme) kres" where
  "mq_send_round i k data len s =
     (let m = mq_table s ! i in
      if MSGQUEUE_SIZE \<le> mq_num m then
        (case current_task s of
           None \<Rightarrow> Inr (Done (-1), s)
         | Some c \<Rightarrow>
             (let s = klogln ''[ipc] mq %d full, task %d BLOCKED on send'' [AI k, AI (pid (task_table s ! c))] s;
                  ((h, t), s) = wait_join (send_wait_head m) (send_wait_tail m) c s
              in Inr (Blocked, upd_mq i (\<lambda>m. m\<lparr>send_wait_head := h, send_wait_tail := t\<rparr>) s)))
      else
        bind_res (vread data (unat len) s) (\<lambda>bytes.
        (let s = upd_mq i (mq_store len bytes) s;
             m = mq_table s ! i
         in case recv_wait_head m of
              None \<Rightarrow> Inr (Done 0, s)
            | Some w \<Rightarrow>
                (let ((h, t), s) = wake_first (recv_wait_head m) (recv_wait_tail m) s;
                     s = upd_mq i (\<lambda>m. m\<lparr>recv_wait_head := h, recv_wait_tail := t\<rparr>) s
                 in Inr (Done 0, klogln ''[ipc] mq %d: waking recv task %d'' [AI k, AI (pid (task_table s ! w))] s)))))"

definition msg_queue_send :: "int \<Rightarrow> u32 \<Rightarrow> u32 \<Rightarrow> 'a ipc_scheme \<Rightarrow> (ipc_result \<times> 'a ipc_scheme) kres" where
  "msg_queue_send k data len s =
     (if k < 0 \<or> data = 0 then Inr (Done (-1), s)
      else case mq_find k s of
        None \<Rightarrow> Inr (Done (-1), s)
      | Some i \<Rightarrow> mq_send_round i k data (if MSG_MAX_DATA < len then MSG_MAX_DATA else len) s)"

definition mq_recv_round :: "nat \<Rightarrow> int \<Rightarrow> u32 \<Rightarrow> u32 \<Rightarrow> 'a ipc_scheme \<Rightarrow> (ipc_result \<times> 'a ipc_scheme) kres" where
  "mq_recv_round i k buf len_ptr s =
     (let m = mq_table s ! i in
      if mq_num m \<le> 0 then
        (case current_task s of
           None \<Rightarrow> Inr (Done (-1), s)
         | Some c \<Rightarrow>
             (let s = klogln ''[ipc] mq %d empty, task %d BLOCKED on recv'' [AI k, AI (pid (task_table s ! c))] s;
                  ((h, t), s) = wait_join (recv_wait_head m) (recv_wait_tail m) c s
              in Inr (Blocked, upd_mq i (\<lambda>m. m\<lparr>recv_wait_head := h, recv_wait_tail := t\<rparr>) s)))
      else
        (let (msg, m') = mq_take m in
         bind_res (vstore32 len_ptr (msg_len msg) s) (\<lambda>s.
         bind_res (vwrite buf (take (unat (msg_len msg)) (msg_data msg)) s) (\<lambda>s.
         (let s = upd_mq i (\<lambda>_. m') s;
              m = mq_table s ! i
          in case send_wait_head m of
               None \<Rightarrow> Inr (Done 0, s)
             | Some w \<Rightarrow>
                 (let ((h, t), s) = wake_first (send_wait_head m) (send_wait_tail m) s;
                      s = upd_mq i (\<lambda>m. m\<lparr>send_wait_head := h, send_wait_tail := t\<rparr>) s
                  in Inr (Done 0, klogln ''[ipc] mq %d: waking send task %d'' [AI k, AI (pid (task_table s ! w))] s)))))))"

definition msg_queue_recv :: "int \<Rightarrow> u32 \<Rightarrow> u32 \<Rightarrow> 'a ipc_scheme \<Rightarrow> (ipc_result \<times> 'a ipc_scheme) kres" where
  "msg_queue_recv k buf len_ptr s =
     (if k < 0 \<or> buf = 0 \<or> len_ptr = 0 then Inr (Done (-1), s)
      else case mq_find k s of
        None \<Rightarrow> Inr (Done (-1), s)
      | Some i \<Rightarrow> mq_recv_round i k buf len_ptr s)"

definition msg_queue_destroy :: "int \<Rightarrow> 'a ipc_scheme \<Rightarrow> (int \<times> 'a ipc_scheme) option" where
  "msg_queue_destroy k s =
     (if k < 0 then Some (-1, s)
      else case mq_find k s of
        None \<Rightarrow> Some (-1, s)
      | Some i \<Rightarrow> do {
          s \<leftarrow> wake_all ''[ipc] mq %d destroyed, waking recv task %d'' k (recv_wait_head (mq_table s ! i)) s;
          s \<leftarrow> wake_all ''[ipc] mq %d destroyed, waking send task %d'' k (send_wait_head (mq_table s ! i)) s;
          let s = upd_mq i (\<lambda>m. m\<lparr>mq_id := -1, mq_head := 0, mq_tail := 0, mq_num := 0, recv_wait_head := None,
                    recv_wait_tail := None, send_wait_head := None, send_wait_tail := None\<rparr>) s;
          Some (0, klogln ''[ipc] msg queue %d destroyed'' [AI k] s) })"

definition ipc_init :: "'a ipc_scheme \<Rightarrow> 'a ipc_scheme" where
  "ipc_init s =
     (let s = klogln ''[ipc] Initializing IPC subsystem...'' [] s;
          s = sem_init s;
          s = msg_queue_init s
      in klogln ''[ipc] IPC subsystem ready.'' [] s)"

end
