(* ===== verification/Sros_Ipc_Inv.thy ===== *)
theory Sros_Ipc_Inv
  imports Sros_Sched_Inv Sros_Ipc
begin

text \<open>
  The invariant of the IPC subsystem on top of the scheduler's: every wait queue is a list threaded
  through the process table, the wait queues are disjoint, and their tasks are blocked. \<open>spares\<close>
  says that a step of the scheduler leaves a set of tasks, and the data of the IPC subsystem, alone.
\<close>

section \<open>Definitions\<close>

definition spares :: "nat set \<Rightarrow> 'a sched_scheme \<Rightarrow> 'a sched_scheme \<Rightarrow> bool" where
  "spares X s s' \<longleftrightarrow> sched.more s' = sched.more s \<and> length (task_table s') = length (task_table s)
     \<and> (\<forall>j\<in>X. next_task (task_table s' ! j) = next_task (task_table s ! j)
          \<and> state (task_table s' ! j) = state (task_table s ! j) \<and> pid (task_table s' ! j) = pid (task_table s ! j))"

text \<open>The ends of the wait queues: of the semaphores, of the receivers and of the senders.\<close>

definition wait_ends :: "'a ipc_scheme \<Rightarrow> (task_ptr \<times> task_ptr) list" where
  "wait_ends s = map (\<lambda>m. (wait_head m, wait_tail m)) (sem_table s)
     @ map (\<lambda>m. (recv_wait_head m, recv_wait_tail m)) (mq_table s)
     @ map (\<lambda>m. (send_wait_head m, send_wait_tail m)) (mq_table s)"

definition waits_ok :: "task_tab \<Rightarrow> (task_ptr \<times> task_ptr) list \<Rightarrow> nat list list \<Rightarrow> bool" where
  "waits_ok tbl ends qs \<longleftrightarrow> length qs = length ends
     \<and> (\<forall>k<length ends. queue_rep tbl (fst (ends ! k)) (snd (ends ! k)) (qs ! k))
     \<and> (\<forall>k<length ends. \<forall>j<length ends. k \<noteq> j \<longrightarrow> set (qs ! k) \<inter> set (qs ! j) = {})
     \<and> (\<forall>k<length ends. \<forall>i\<in>set (qs ! k). state (tbl ! i) = TASK_BLOCKED \<and> 0 \<le> pid (tbl ! i))"

definition sems_ok :: "sem_t list \<Rightarrow> int \<Rightarrow> nat list list \<Rightarrow> bool" where
  "sems_ok sems cnt qs \<longleftrightarrow> length sems = 64 \<and> 0 \<le> cnt
     \<and> (\<forall>i<64. 0 \<le> sem_value (sems ! i) \<and> (qs ! i \<noteq> [] \<longrightarrow> sem_value (sems ! i) = 0) \<and> sem_id (sems ! i) < cnt)
     \<and> (\<forall>i<64. \<forall>j<64. 0 \<le> sem_id (sems ! i) \<and> sem_id (sems ! i) = sem_id (sems ! j) \<longrightarrow> i = j)"

definition mq_ok :: "msg_queue_t \<Rightarrow> bool" where
  "mq_ok m \<longleftrightarrow> length (msgs m) = 64 \<and> 0 \<le> mq_head m \<and> mq_head m < 64 \<and> 0 \<le> mq_num m \<and> mq_num m \<le> 64
     \<and> mq_tail m = (mq_head m + mq_num m) mod 64
     \<and> (\<forall>g\<in>set (msgs m). length (msg_data g) = 64 \<and> unat (msg_len g) \<le> 64)"

definition mqs_ok :: "msg_queue_t list \<Rightarrow> int \<Rightarrow> bool" where
  "mqs_ok mqs cnt \<longleftrightarrow> length mqs = 16 \<and> 0 \<le> cnt \<and> (\<forall>i<16. mq_ok (mqs ! i) \<and> mq_id (mqs ! i) < cnt)
     \<and> (\<forall>i<16. \<forall>j<16. 0 \<le> mq_id (mqs ! i) \<and> mq_id (mqs ! i) = mq_id (mqs ! j) \<longrightarrow> i = j)"

definition ipc_inv :: "'a ipc_scheme \<Rightarrow> nat list \<Rightarrow> nat list list \<Rightarrow> bool" where
  "ipc_inv s rq qs \<longleftrightarrow> sched_inv s rq \<and> waits_ok (task_table s) (wait_ends s) qs
     \<and> sems_ok (sem_table s) (sem_count s) qs \<and> mqs_ok (mq_table s) (mq_count s)"

section \<open>What the scheduler leaves alone\<close>

lemma spares_refl [simp]: "spares X s s"
  by (simp add: spares_def)

lemma spares_trans: "spares X s t \<Longrightarrow> spares X t u \<Longrightarrow> spares X s u"
  by (simp add: spares_def)

lemma spares_more: "machine.more s' = machine.more s \<Longrightarrow> spares X s s'"
  by (cases s; cases s') (simp add: spares_def)

lemma spares_klog [simp]: "spares X s (klog fm as s)"
  by (simp add: spares_more more_klog)

lemma spares_upd_task: "i \<notin> X \<Longrightarrow> spares X s (upd_task i f s)"
  by (auto simp: spares_def upd_task_def nth_upd)

lemma spares_upd_next:
  "next_task (f (task_table s ! i)) = next_task (task_table s ! i) \<Longrightarrow> state (f (task_table s ! i)) = state (task_table s ! i)
    \<Longrightarrow> pid (f (task_table s ! i)) = pid (task_table s ! i) \<Longrightarrow> spares X s (upd_task i f s)"
  by (auto simp: spares_def upd_task_def nth_upd)

lemma spares_enqueue:
  assumes "queue_rep (task_table s) (ready_head s) (ready_tail s) rq" and "i < length (task_table s)"
    and "X \<inter> set rq = {}" and "i \<notin> X"
  shows "spares X s (enqueue_ready i s)"
proof -
  obtain tbl h t where a: "q_append (task_table s) (ready_head s) (ready_tail s) i = (tbl, h, t)"
    by (metis prod_cases3)
  have "tbl ! j = task_table s ! j" if "j \<in> X" for j
    using tq.append_other [OF assms(1,2) a] that assms(3,4) by blast
  moreover have "length tbl = length (task_table s)"
    using tq.append_same [OF assms(1,2) a] by (simp add: same_but_next_def)
  ultimately show ?thesis by (simp add: spares_def enqueue_ready_def a)
qed

lemma spares_dequeue:
  assumes "queue_rep (task_table s) (ready_head s) (ready_tail s) rq" and "X \<inter> set rq = {}"
  shows "spares X s (snd (dequeue_ready s))"
proof -
  obtain r tbl h t where p: "q_pop (task_table s) (ready_head s) (ready_tail s) = (r, tbl, h, t)"
    by (metis prod_cases4)
  have "tbl ! j = task_table s ! j" if "j \<in> X" for j
    using tq.pop_other [OF assms(1) p] that assms(2) by blast
  moreover have "length tbl = length (task_table s)"
    using tq.pop_same [OF assms(1) p] by (simp add: same_but_next_def)
  ultimately show ?thesis by (simp add: spares_def dequeue_ready_def p)
qed

lemma spares_pick_next:
  assumes "queue_rep (task_table s) (ready_head s) (ready_tail s) rq" and "X \<inter> set rq = {}"
    and "rq = [] \<Longrightarrow> c \<notin> X" and "pick_next regs c s = Inr (r, s')"
  shows "spares X s s'"
proof (cases "rq = []")
  case True
  then show ?thesis
    using assms by (auto simp: pick_next_None spares_upd_task split: if_splits)
next
  case False
  obtain r tbl h t where p: "q_pop (task_table s) (ready_head s) (ready_tail s) = (r, tbl, h, t)"
    by (metis prod_cases4)
  obtain n s1 where d: "dequeue_ready s = (Some n, s1)" "n \<in> set rq"
    using q_pop_rep(1) [OF assms(1) p] False by (simp add: dequeue_ready_def p)
  have "spares X s s1" using spares_dequeue [OF assms(1,2)] d(1) by simp
  then show ?thesis
    using assms(2,4) d by (auto simp: pick_next_def Let_def spares_def upd_task_def klog_def nth_upd)
qed

text \<open>A tick spares the blocked tasks, unless the only task that could run is the blocked one.\<close>

lemma spares_timer [simp]: "spares X s (s\<lparr>timer_ticks := v\<rparr>)"
  by (simp add: spares_def)

lemma tick_spares:
  assumes inv: "sched_inv s rq" and "scheduler_tick regs s = Inr (r, s')"
    and blk: "\<And>j. j \<in> X \<Longrightarrow> state (task_table s ! j) = TASK_BLOCKED"
    and idle: "\<And>c. rq = [] \<Longrightarrow> current_task s = Some c \<Longrightarrow> c \<notin> X"
  shows "spares X s s'"
proof -
  obtain c where cur: "current_task s = Some c" and q: "queue_rep (task_table s) (ready_head s) (ready_tail s) rq"
    and ok: "tasks_ok (task_table s) rq c (next_pid s) (task_count s)"
    by (rule sched_invE [OF inv])
  note t = tasks_okD [OF ok]
  have X: "X \<inter> set rq = {}" using blk blocked_outside [OF inv] by blast
  define s1 where "s1 = upd_task c (\<lambda>t. t\<lparr>kernel_esp := regs\<rparr>) (s\<lparr>timer_ticks := timer_ticks s + 1\<rparr>)"
  have s1: "spares X s s1"
    unfolding s1_def by (rule spares_trans [OF spares_timer spares_upd_next]) simp_all
  have q1: "queue_rep (task_table s1) (ready_head s1) (ready_tail s1) rq"
    using queue_rep_upd [OF q, of "\<lambda>t. t\<lparr>kernel_esp := regs\<rparr>" c] by (simp add: s1_def)
  have st1: "state (task_table s1 ! c) = state (task_table s ! c)" using t(1,2) by (simp add: s1_def)
  define s2 where "s2 = upd_task c (\<lambda>t. t\<lparr>state := TASK_READY\<rparr>) s1"
  have q2: "queue_rep (task_table s2) (ready_head s2) (ready_tail s2) rq"
    using queue_rep_upd [OF q1, of "\<lambda>t. t\<lparr>state := TASK_READY\<rparr>" c] by (simp add: s2_def)
  have l: "c < length (task_table s2)" using t(1,2) by (simp add: s2_def s1_def)
  note e = enqueue_ready_props [OF q2 l t(3)]
  consider (skip) "s' = s" | (leave) "state (task_table s ! c) = TASK_ZOMBIE \<or> state (task_table s ! c) = TASK_BLOCKED"
      "pick_next regs c s1 = Inr (r, s')"
    | (rot) "state (task_table s ! c) \<noteq> TASK_BLOCKED" "pick_next regs c (enqueue_ready c s2) = Inr (r, s')"
    | (alone) "state (task_table s ! c) \<noteq> TASK_BLOCKED" "s' = upd_task c (\<lambda>t. t\<lparr>state := TASK_RUNNING\<rparr>) s1"
    using assms(2) cur
    unfolding scheduler_tick_def bind_res_Inr_iff Let_def s2_def s1_def
    by (auto split: if_splits simp: t(1) t(2))
  then show ?thesis
  proof cases
    case skip
    then show ?thesis by simp
  next
    case leave
    show ?thesis
      using spares_trans [OF s1 spares_pick_next [OF q1 X _ leave(2)]] idle cur by blast
  next
    case rot
    have c: "c \<notin> X" using blk rot(1) by blast
    have "spares X s1 s2" unfolding s2_def by (rule spares_upd_task [OF c])
    moreover have "spares X s2 (enqueue_ready c s2)" by (rule spares_enqueue [OF q2 l X c])
    moreover have "spares X (enqueue_ready c s2) s'"
      using spares_pick_next [OF e(1) _ _ rot(2)] X c by auto
    ultimately show ?thesis using s1 spares_trans by blast
  next
    case alone
    have c: "c \<notin> X" using blk alone(1) by blast
    show ?thesis unfolding alone(2) by (rule spares_trans [OF s1 spares_upd_task [OF c]])
  qed
qed

lemma install_spares:
  assumes inv: "sched_inv s rq" and "i < 64" and "X \<inter> set rq = {}" and "i \<notin> X" and "i \<notin> set rq"
  shows "spares X s (install_task i t s)"
proof -
  obtain c where q: "queue_rep (task_table s) (ready_head s) (ready_tail s) rq"
    and ok: "tasks_ok (task_table s) rq c (next_pid s) (task_count s)"
    by (rule sched_invE [OF inv])
  define s1 where "s1 = (upd_task i (\<lambda>_. t) s)\<lparr>next_pid := next_pid s + 1\<rparr>"
  have "spares X s s1"
    using spares_upd_task [OF assms(4), of s "\<lambda>_. t"] by (simp add: spares_def s1_def)
  moreover have "queue_rep (task_table s1) (ready_head s1) (ready_tail s1) rq"
    using queue_rep_outside [OF q assms(5)] by (simp add: s1_def)
  then have "spares X s1 (enqueue_ready i s1)"
    by (rule spares_enqueue) (use assms tasks_okD(1) [OF ok] in \<open>simp_all add: s1_def\<close>)
  moreover have "spares X (enqueue_ready i s1) (install_task i t s)"
    by (simp add: install_task_def Let_def spares_def s1_def)
  ultimately show ?thesis using spares_trans by blast
qed

lemma installs_spares:
  assumes inv: "sched_inv s rq" and "installs s i t p s'" and "X \<inter> set rq = {}"
    and pids: "\<And>j. j \<in> X \<Longrightarrow> 0 \<le> pid (task_table s ! j)"
  shows "spares X s s'"
proof -
  obtain s1 where s1: "machine.more s1 = machine.more s" "machine.more s' = machine.more (install_task i t s1)"
    and i: "i < 64" "pid (task_table s ! i) < 0"
    using assms(2) by (auto simp: installs_def)
  have "i \<notin> set rq" using inv i(2) by (auto simp: sched_inv_def dest!: tasks_okD(5))
  moreover have "i \<notin> X" using pids i(2) by force
  moreover have "sched_inv s1 rq" using sched_inv_more [OF s1(1)] inv by simp
  ultimately have "spares X s1 (install_task i t s1)" using install_spares [OF _ i(1) assms(3)] by blast
  then show ?thesis
    using spares_trans [OF spares_more [OF s1(1)]] spares_trans [OF _ spares_more [OF s1(2)]] by blast
qed

lemma wake_spares:
  assumes inv: "sched_inv s rq" and "i < 64" and "i \<notin> set rq" and "X \<inter> set rq = {}" and "i \<notin> X"
  shows "spares X s (task_wake (Some i) s)"
proof -
  obtain c where q: "queue_rep (task_table s) (ready_head s) (ready_tail s) rq"
    and ok: "tasks_ok (task_table s) rq c (next_pid s) (task_count s)"
    by (rule sched_invE [OF inv])
  let ?s = "upd_task i (\<lambda>t. t\<lparr>state := TASK_READY\<rparr>) s"
  have "queue_rep (task_table ?s) (ready_head ?s) (ready_tail ?s) rq" using queue_rep_outside [OF q assms(3)] by simp
  then have "spares X ?s (enqueue_ready i ?s)"
    by (rule spares_enqueue) (use assms tasks_okD(1) [OF ok] in simp_all)
  then show ?thesis using spares_trans [OF spares_upd_task [OF assms(5)]] by (simp add: task_wake_def)
qed

lemma wait_spares:
  assumes inv: "sched_inv s rq" and cur: "current_task s = Some c"
    and st: "state (task_table s ! c) \<noteq> TASK_ZOMBIE" and r: "task_wait_round p s = Inr (r, s')"
    and blk: "\<And>j. j \<in> X \<Longrightarrow> state (task_table s ! j) = TASK_BLOCKED" and "c \<notin> X"
  shows "spares X s s'"
  using task_wait_round_cases [OF inv cur st r]
proof (elim disjE exE conjE)
  fix i fm as s1
  assume a: "state (task_table s ! i) = TASK_ZOMBIE" "machine.more s1 = machine.more s"
    "s' = klog fm as ((upd_task i (\<lambda>t. free_task) s1)\<lparr>task_count := task_count s - 1\<rparr>)"
  have i: "i \<notin> X" using blk a(1) by (force simp: task_consts)
  have "spares X s1 s'" using spares_upd_task [OF i, of s1 "\<lambda>_. free_task"] unfolding a(3) by (simp add: spares_def klog_def)
  then show ?thesis using spares_trans [OF spares_more [OF a(2)]] by blast
next
  assume "s' = upd_task c (\<lambda>t. t\<lparr>state := TASK_BLOCKED\<rparr>) s"
  then show ?thesis using spares_upd_task [OF assms(6)] by simp
qed (auto intro: spares_more)

lemma exit_spares:
  assumes inv: "sched_inv s rq" and cur: "current_task s = Some c" and "X \<inter> set rq = {}" and "c \<notin> X"
    and par: "\<And>q. 0 \<le> parent_pid (task_table s ! c) \<Longrightarrow> task_from_pid (parent_pid (task_table s ! c)) s = Some q
      \<Longrightarrow> q \<notin> X"
  shows "spares X s (task_exit code s)"
proof -
  have ok: "tasks_ok (task_table s) rq c (next_pid s) (task_count s)" using inv cur by (simp add: sched_inv_cur)
  define s0 where "s0 = klogln ''[sched] task %d (%s) exiting with code %d''
      [AI (pid (task_table s ! c)), AStr (name (task_table s ! c)), AI code] s"
  define s1 where "s1 = upd_task c (\<lambda>t. t\<lparr>exit_code := code, state := TASK_ZOMBIE\<rparr>) s0"
  have "sched_inv s0 rq" using inv by (simp add: s0_def)
  then have i1: "sched_inv s1 rq" unfolding s1_def by (rule upd_cur_inv) (simp_all add: s0_def cur)
  have s1: "spares X s s1"
    unfolding s1_def s0_def by (rule spares_trans [OF spares_klog spares_upd_task [OF assms(4)]])
  define pp where "pp = parent_pid (task_table s ! c)"
  have fp: "task_from_pid pp s1 = task_from_pid pp s"
  proof -
    have "map pid (task_table s1) = map pid (task_table s)"
      using tasks_okD(1,2) [OF ok] by (simp add: s1_def s0_def map_update list_update_same_conv)
    moreover have "task_from_pid pp t = find_first (\<lambda>x. x = pp) (map pid (task_table t))" for t :: "'a sched_scheme"
      by (simp add: task_from_pid_def find_first_map)
    ultimately show ?thesis by simp
  qed
  have "spares X s (klog fm as (task_wake (Some q) s1))"
    if "0 \<le> pp" "task_from_pid pp s1 = Some q" "state (task_table s1 ! q) = TASK_BLOCKED" for fm as q
  proof -
    have "q \<notin> X" using par that(1,2) fp by (simp add: pp_def)
    then show ?thesis
      using wake_spares [OF i1 task_from_pid_props(1) [OF i1 that(2)] blocked_outside [OF i1 that(3)] assms(3)]
        spares_trans [OF s1] spares_trans [OF _ spares_klog] by blast
  qed
  then show ?thesis
    unfolding task_exit_def cur option.case Let_def s0_def [symmetric] s1_def [symmetric] pp_def [symmetric]
    using s1 by (auto simp: task_wake_def split: option.splits)
qed

section \<open>Wait queues\<close>

lemma waits_okD:
  assumes "waits_ok tbl ends qs" and "k < length ends"
  shows "length qs = length ends" "queue_rep tbl (fst (ends ! k)) (snd (ends ! k)) (qs ! k)"
    "\<And>i. i \<in> set (qs ! k) \<Longrightarrow> state (tbl ! i) = TASK_BLOCKED \<and> 0 \<le> pid (tbl ! i) \<and> i < length tbl"
    "\<And>j. j < length ends \<Longrightarrow> k \<noteq> j \<Longrightarrow> set (qs ! k) \<inter> set (qs ! j) = {}"
  using assms by (auto simp: waits_ok_def queue_rep_def)

lemma in_concatD: "i \<in> set (concat qs) \<Longrightarrow> \<exists>k<length qs. i \<in> set (qs ! k)"
  by (metis (no_types, lifting) UN_iff in_set_conv_nth set_concat)

lemma waiting_blocked:
  assumes "waits_ok tbl ends qs" and "i \<in> set (concat qs)"
  shows "state (tbl ! i) = TASK_BLOCKED" "0 \<le> pid (tbl ! i)" "i < length tbl"
proof -
  obtain k where "k < length ends" "i \<in> set (qs ! k)"
    using in_concatD [OF assms(2)] assms(1) by (auto simp: waits_ok_def)
  from waits_okD(3) [OF assms(1) this] show "state (tbl ! i) = TASK_BLOCKED" "0 \<le> pid (tbl ! i)" "i < length tbl" by auto
qed

lemma waits_ok_cong:
  assumes "waits_ok tbl ends qs" and "length tbl' = length tbl"
    and "\<And>j. j \<in> set (concat qs) \<Longrightarrow> next_task (tbl' ! j) = next_task (tbl ! j)
          \<and> state (tbl' ! j) = state (tbl ! j) \<and> pid (tbl' ! j) = pid (tbl ! j)"
  shows "waits_ok tbl' ends qs"
proof -
  have l: "length qs = length ends" using assms(1) by (simp add: waits_ok_def)
  have m: "i \<in> set (concat qs)" if "k < length ends" "i \<in> set (qs ! k)" for i k using that l by auto
  have "queue_rep tbl' (fst (ends ! k)) (snd (ends ! k)) (qs ! k)" if k: "k < length ends" for k
    by (rule queue_rep_cong [OF waits_okD(2) [OF assms(1) k]]) (use assms(2,3) m [OF k] in auto)
  then show ?thesis using assms(1,3) m unfolding waits_ok_def by metis
qed

lemma waits_ok_spares: "waits_ok (task_table s) ends qs \<Longrightarrow> spares (set (concat qs)) s s' \<Longrightarrow> waits_ok (task_table s') ends qs"
  by (erule waits_ok_cong) (auto simp: spares_def)

text \<open>The replacement of one queue by another.\<close>

lemma waits_ok_replace:
  assumes "waits_ok tbl ends qs" and k: "k < length ends" and len: "length tbl' = length tbl"
    and "queue_rep tbl' h t xs"
    and "\<And>i. i \<in> set xs \<Longrightarrow> state (tbl' ! i) = TASK_BLOCKED \<and> 0 \<le> pid (tbl' ! i)"
    and "\<And>j. j < length ends \<Longrightarrow> j \<noteq> k \<Longrightarrow> set xs \<inter> set (qs ! j) = {}"
    and "\<And>j i. j < length ends \<Longrightarrow> j \<noteq> k \<Longrightarrow> i \<in> set (qs ! j) \<Longrightarrow> next_task (tbl' ! i) = next_task (tbl ! i)
          \<and> state (tbl' ! i) = state (tbl ! i) \<and> pid (tbl' ! i) = pid (tbl ! i)"
  shows "waits_ok tbl' (ends[k := (h, t)]) (qs[k := xs])"
proof -
  note w = waits_okD [OF assms(1)]
  have l: "length qs = length ends" using w(1) [OF k] .
  have other: "queue_rep tbl' (fst (ends ! j)) (snd (ends ! j)) (qs ! j)" if "j < length ends" "j \<noteq> k" for j
    by (rule queue_rep_cong [OF w(2) [OF that(1)]]) (use assms(7) [OF that] len in auto)
  have st: "state (tbl' ! i) = TASK_BLOCKED \<and> 0 \<le> pid (tbl' ! i)" if "j < length ends" "j \<noteq> k" "i \<in> set (qs ! j)" for i j
    using assms(7) [OF that] w(3) [OF that(1,3)] by simp
  have dis: "set (qs ! i) \<inter> set (qs ! j) = {}" if "i < length ends" "j < length ends" "i \<noteq> j" for i j
    using w(4) [OF that(1) that(2)] that(3) by blast
  have dk: "set (qs ! j) \<inter> set xs = {}" if "j < length ends" "j \<noteq> k" for j using assms(6) [OF that] by blast
  show ?thesis
    unfolding waits_ok_def using assms(4,5,6) other st dis dk k l by (auto simp: nth_list_update)
qed

lemma in_other_queue:
  "waits_ok tbl ends qs \<Longrightarrow> j < length ends \<Longrightarrow> i \<in> set (qs ! j) \<Longrightarrow> i \<in> set (concat qs)"
  by (auto simp: waits_ok_def)

lemma wait_join_props:
  assumes inv: "sched_inv s rq" and cur: "current_task s = Some c" and w: "waits_ok (task_table s) ends qs"
    and k: "k < length ends" and c: "c \<notin> set (concat qs)"
    and j: "wait_join (fst (ends ! k)) (snd (ends ! k)) c s = ((h, t), s')"
  shows "sched_inv s' rq" "waits_ok (task_table s') (ends[k := (h, t)]) (qs[k := qs ! k @ [c]])"
    "sched.more s' = sched.more s" "current_task s' = current_task s"
    "state (task_table s' ! c) = TASK_BLOCKED" "machine.more s = machine.more s0 \<Longrightarrow> sched.more s' = sched.more s0"
proof -
  have ok: "tasks_ok (task_table s) rq c (next_pid s) (task_count s)" using inv cur by (simp add: sched_inv_cur)
  note tk = tasks_okD [OF ok]
  let ?b = "task_block s"
  have tb: "task_table ?b = (task_table s)[c := (task_table s ! c)\<lparr>state := TASK_BLOCKED\<rparr>]" "current_task ?b = Some c"
    "ready_head ?b = ready_head s" "ready_tail ?b = ready_tail s" "next_pid ?b = next_pid s" "task_count ?b = task_count s"
    "sched.more ?b = sched.more s"
    by (simp_all add: task_block_def cur) (simp add: upd_task_def)
  have invb: "sched_inv ?b rq" using task_block_inv [OF inv] .
  then have qb: "queue_rep (task_table ?b) (ready_head s) (ready_tail s) rq"
    and okb: "tasks_ok (task_table ?b) rq c (next_pid s) (task_count s)"
    by (simp_all add: sched_inv_cur [OF tb(2)] tb(3-6))
  have wb: "waits_ok (task_table ?b) ends qs"
    by (rule waits_ok_cong [OF w]) (use c in \<open>auto simp: tb nth_upd\<close>)
  obtain tbl where a: "q_append (task_table ?b) (fst (ends ! k)) (snd (ends ! k)) c = (tbl, h, t)"
    and s': "s' = ?b\<lparr>task_table := tbl\<rparr>"
    using j by (auto simp: wait_join_def Let_def split: prod.splits)
  have cl: "c < length (task_table ?b)" using tk(1,2) by (simp add: tb)
  have ck: "c \<notin> set (qs ! k)" using in_other_queue [OF w k] c by blast
  note rep = tq.append_rep [OF waits_okD(2) [OF wb k] cl ck a]
  note same = tq.append_same [OF waits_okD(2) [OF wb k] cl a]
  note other = tq.append_other [OF waits_okD(2) [OF wb k] cl a]
  note f = same_but_next_fields [OF same]
  have "queue_rep tbl (ready_head s) (ready_tail s) rq"
  proof (rule queue_rep_cong [OF qb])
    fix i assume i: "i \<in> set rq"
    then have "i \<notin> set (qs ! k)" "i \<noteq> c"
      using waits_okD(3) [OF w k] tk(3) tk(5) [OF i] by (auto simp: task_consts)
    then show "next_task (tbl ! i) = next_task (task_table ?b ! i)" using other by simp
  qed (simp add: f)
  then show "sched_inv s' rq" using tasks_ok_same [OF same okb] tb by (simp add: sched_inv_def s')
  show "waits_ok (task_table s') (ends[k := (h, t)]) (qs[k := qs ! k @ [c]])"
  proof -
    have "waits_ok tbl (ends[k := (h, t)]) (qs[k := qs ! k @ [c]])"
    proof (rule waits_ok_replace [OF wb k _ rep])
      show "state (tbl ! i) = TASK_BLOCKED \<and> 0 \<le> pid (tbl ! i)" if "i \<in> set (qs ! k @ [c])" for i
        using that waits_okD(3) [OF wb k, of i] tk(1,2,4) by (auto simp: f tb)
      show "set (qs ! k @ [c]) \<inter> set (qs ! j) = {}" if "j < length ends" "j \<noteq> k" for j
        using waits_okD(4) [OF wb k that(1)] that(2) in_other_queue [OF w that(1), of c] c by auto
      show "next_task (tbl ! i) = next_task (task_table ?b ! i) \<and> state (tbl ! i) = state (task_table ?b ! i)
          \<and> pid (tbl ! i) = pid (task_table ?b ! i)" if "j < length ends" "j \<noteq> k" "i \<in> set (qs ! j)" for i j
      proof -
        have "i \<notin> set (qs ! k)" using waits_okD(4) [OF wb k that(1)] that(2,3) by blast
        moreover have "i \<noteq> c" using in_other_queue [OF w that(1,3)] c by blast
        ultimately show ?thesis using other by simp
      qed
    qed (simp add: f)
    then show ?thesis by (simp add: s')
  qed
  show "sched.more s' = sched.more s" "current_task s' = current_task s" using tb(2,7) cur by (simp_all add: s')
  show "state (task_table s' ! c) = TASK_BLOCKED" using tk(1,2) by (simp add: s' f tb)
  show "machine.more s = machine.more s0 \<Longrightarrow> sched.more s' = sched.more s0"
    using \<open>sched.more s' = sched.more s\<close> by (cases s; cases s0) simp
qed

text \<open>Waking the first task of a queue: \<open>s1\<close> is the state after it was unlinked (and logged).\<close>

lemma wake_props:
  assumes inv: "sched_inv s rq" and w: "waits_ok (task_table s) ends qs" and k: "k < length ends"
    and qk: "qs ! k = i # ws" and cur: "current_task s \<noteq> Some i"
    and p: "q_pop (task_table s) (fst (ends ! k)) (snd (ends ! k)) = (r, tbl, h, t)"
    and s1: "machine.more s1 = machine.more (s\<lparr>task_table := tbl\<rparr>)"
  shows "r = Some i" "sched_inv (task_wake (Some i) s1) (rq @ [i])"
    "waits_ok (task_table (task_wake (Some i) s1)) (ends[k := (h, t)]) (qs[k := ws])"
    "sched.more (task_wake (Some i) s1) = sched.more s" "current_task (task_wake (Some i) s1) = current_task s"
    "state (task_table (task_wake (Some i) s1) ! i) = TASK_READY"
proof -
  note rep = tq.pop_rep [OF waits_okD(2) [OF w k] p] and same = tq.pop_same [OF waits_okD(2) [OF w k] p]
    and other = tq.pop_other [OF waits_okD(2) [OF w k] p]
  note f = same_but_next_fields [OF same]
  show "r = Some i" using rep qk by simp
  have i: "state (task_table s ! i) = TASK_BLOCKED" "0 \<le> pid (task_table s ! i)" "i < length (task_table s)"
    using waits_okD(3) [OF w k, of i] qk by auto
  have m: "task_table s1 = tbl" "ready_head s1 = ready_head s" "ready_tail s1 = ready_tail s"
    "current_task s1 = current_task s" "next_pid s1 = next_pid s" "task_count s1 = task_count s" "sched.more s1 = sched.more s"
    using more_fields [OF s1] by simp_all (use s1 in \<open>cases s; cases s1; simp\<close>)
  obtain c where q: "queue_rep (task_table s) (ready_head s) (ready_tail s) rq" and c: "current_task s = Some c"
    and ok: "tasks_ok (task_table s) rq c (next_pid s) (task_count s)"
    by (rule sched_invE [OF inv])
  have "queue_rep tbl (ready_head s) (ready_tail s) rq"
  proof (rule queue_rep_cong [OF q])
    fix j assume "j \<in> set rq"
    then have "j \<notin> set (qs ! k)" using waits_okD(3) [OF w k, of j] tasks_okD(5) [OF ok, of j] by (auto simp: task_consts)
    then show "next_task (tbl ! j) = next_task (task_table s ! j)" using other by simp
  qed (simp add: f)
  then have inv1: "sched_inv s1 rq" using tasks_ok_same [OF same ok] c by (simp add: sched_inv_def m)
  have irq: "i \<notin> set rq" using blocked_outside [OF inv i(1)] .
  have i64: "i < 64" using i(3) tasks_okD(1) [OF ok] by simp
  note wk = wake_inv [OF inv1 i64 irq]
  show "sched_inv (task_wake (Some i) s1) (rq @ [i])" "current_task (task_wake (Some i) s1) = current_task s"
    using wk(1,2) cur i(2) by (simp_all add: m f)
  have sb: "same_but_next (tbl[i := (tbl ! i)\<lparr>state := TASK_READY\<rparr>]) (task_table (task_wake (Some i) s1))"
    using wk(3) cur i(2) by (simp add: m f)
  then show "state (task_table (task_wake (Some i) s1) ! i) = TASK_READY"
    using same_but_next_fields(4) [OF sb, of i] i(3) f(1) by simp
  have d: "distinct (i # ws)" using waits_okD(2) [OF w k] qk by (auto simp: queue_rep_def)
  have w1: "waits_ok tbl (ends[k := (h, t)]) (qs[k := ws])"
  proof (rule waits_ok_replace [OF w k])
    show "queue_rep tbl h t ws" using rep qk by simp
    show "state (tbl ! j) = TASK_BLOCKED \<and> 0 \<le> pid (tbl ! j)" if "j \<in> set ws" for j
      using waits_okD(3) [OF w k, of j] qk that by (simp add: f)
    show "set ws \<inter> set (qs ! j) = {}" if "j < length ends" "j \<noteq> k" for j
      using waits_okD(4) [OF w k that(1)] that(2) qk by auto
    show "next_task (tbl ! a) = next_task (task_table s ! a) \<and> state (tbl ! a) = state (task_table s ! a)
        \<and> pid (tbl ! a) = pid (task_table s ! a)" if "j < length ends" "j \<noteq> k" "a \<in> set (qs ! j)" for a j
    proof -
      have "a \<notin> set (qs ! k)" using waits_okD(4) [OF w k that(1)] that(2,3) by blast
      then show ?thesis using other by simp
    qed
  qed (simp add: f)
  have out: "i \<notin> set (concat (qs[k := ws]))"
  proof
    assume "i \<in> set (concat (qs[k := ws]))"
    then obtain j where j: "j < length ends" "i \<in> set (qs[k := ws] ! j)"
      using in_concatD waits_okD(1) [OF w k] by (metis length_list_update)
    then show False
      using d waits_okD(4) [OF w k j(1)] qk waits_okD(1) [OF w k] k by (cases "j = k") auto
  qed
  have "set (concat (qs[k := ws])) \<inter> set rq = {}"
    using waiting_blocked(1) [OF w1] tasks_okD(5) [OF ok] by (force simp: f task_consts)
  then have sp: "spares (set (concat (qs[k := ws]))) s1 (task_wake (Some i) s1)"
    using wake_spares [OF inv1 i64 irq _ out] by blast
  show "waits_ok (task_table (task_wake (Some i) s1)) (ends[k := (h, t)]) (qs[k := ws])"
    using waits_ok_spares [OF _ sp] w1 m(1) by simp
  show "sched.more (task_wake (Some i) s1) = sched.more s" using sp m(7) by (simp add: spares_def)
qed

lemma wake_first_props:
  assumes "sched_inv s rq" and "waits_ok (task_table s) ends qs" and "k < length ends"
    and "qs ! k = i # ws" and "current_task s \<noteq> Some i"
    and "wake_first (fst (ends ! k)) (snd (ends ! k)) s = ((h, t), s')"
  shows "sched_inv s' (rq @ [i])" "waits_ok (task_table s') (ends[k := (h, t)]) (qs[k := ws])"
    "sched.more s' = sched.more s" "current_task s' = current_task s" "state (task_table s' ! i) = TASK_READY"
proof -
  obtain r tbl where p: "q_pop (task_table s) (fst (ends ! k)) (snd (ends ! k)) = (r, tbl, h, t)"
    and s': "s' = task_wake r (s\<lparr>task_table := tbl\<rparr>)"
    using assms(6) by (auto simp: wake_first_def split: prod.splits)
  note w = wake_props [OF assms(1-5) p refl]
  then show "sched_inv s' (rq @ [i])" "waits_ok (task_table s') (ends[k := (h, t)]) (qs[k := ws])"
    "sched.more s' = sched.more s" "current_task s' = current_task s" "state (task_table s' ! i) = TASK_READY"
    by (simp_all add: s')
qed

text \<open>Waking every task of a queue ends, and wakes them in order.\<close>

lemma wake_all_props:
  assumes "sched_inv s rq" and "waits_ok (task_table s) ends qs" and "k < length ends" and "qs ! k = ws"
    and "\<forall>i\<in>set ws. current_task s \<noteq> Some i"
  shows "\<exists>s'. wake_all msg n (fst (ends ! k)) s = Some s' \<and> sched_inv s' (rq @ ws)
    \<and> waits_ok (task_table s') (ends[k := (None, None)]) (qs[k := []]) \<and> sched.more s' = sched.more s
    \<and> current_task s' = current_task s \<and> (\<forall>i\<in>set ws. state (task_table s' ! i) = TASK_READY)"
  using assms
proof (induction ws arbitrary: s rq ends qs)
  case Nil
  have e: "ends ! k = (None, None)" "ends[k := (None, None)] = ends" "qs[k := []] = qs"
    using waits_okD(2) [OF Nil.prems(2,3)] Nil.prems(3,4)
    by (auto simp: queue_rep_def prod_eq_iff list_update_same_conv) (metis list_update_id)
  show ?case using Nil.prems by (simp add: e wake_all.simps)
next
  case (Cons i ws)
  note q = waits_okD(2) [OF Cons.prems(2,3)]
  have h: "fst (ends ! k) = Some i" using q Cons.prems(4) by (simp add: queue_rep_def)
  obtain r tbl h' t' where p: "q_pop (task_table s) (fst (ends ! k)) (snd (ends ! k)) = (r, tbl, h', t')"
    by (metis prod_cases4)
  have ph: "tbl = set_next i None (task_table s)" "h' = next_task (task_table s ! i)"
    using p h by (auto simp: q_pop_def Let_def)
  define s1 where "s1 = klogln msg [AI n, AI (pid (tbl ! i))] (s\<lparr>task_table := tbl\<rparr>)"
  define s2 where "s2 = task_wake (Some i) s1"
  have m1: "machine.more s1 = machine.more (s\<lparr>task_table := tbl\<rparr>)" by (simp add: s1_def)
  have "current_task s \<noteq> Some i" using Cons.prems(5) by simp
  note w = wake_props [OF Cons.prems(1-4) this p m1, folded s2_def]
  have eq: "wake_all msg n (fst (ends ! k)) s = wake_all msg n h' s2"
    unfolding h by (subst wake_all.simps) (simp add: ph s1_def s2_def Let_def)
  have hk: "fst (ends[k := (h', t')] ! k) = h'" using Cons.prems(3) by simp
  have l: "k < length (ends[k := (h', t')])" "qs[k := ws] ! k = ws"
    using Cons.prems(3) waits_okD(1) [OF Cons.prems(2,3)] by simp_all
  have cs: "\<forall>i\<in>set ws. current_task s2 \<noteq> Some i" using Cons.prems(5) w(5) by simp
  from Cons.IH [OF w(2,3) l cs] obtain s' where s': "wake_all msg n h' s2 = Some s'" "sched_inv s' ((rq @ [i]) @ ws)"
    "waits_ok (task_table s') (ends[k := (None, None)]) (qs[k := []])" "sched.more s' = sched.more s2"
    "current_task s' = current_task s2" "\<forall>i\<in>set ws. state (task_table s' ! i) = TASK_READY"
    unfolding hk by auto
  have "i \<in> set (rq @ [i] @ ws)" by simp
  then have "state (task_table s' ! i) = TASK_READY"
    using s'(2) by (auto simp: sched_inv_def dest!: tasks_okD(5))
  then show ?case using s' w(4,5) eq by simp
qed

end
