(* ===== verification/Sros_Ipc_Step.thy ===== *)
theory Sros_Ipc_Step
  imports Sros_Ipc_Inv
begin

text \<open>
  Executions of the system: the steps of the scheduler and of the IPC operations, labelled with what
  they did to a semaphore or a message queue. Two steps are restricted, each where the code goes wrong otherwise: a clock
  tick takes a blocked task off the processor only when another task is ready (an idle task always
  is), and a task does not exit while its parent waits on a semaphore or a message queue.
\<close>

section \<open>Definitions\<close>

definition running :: "'a sched_scheme \<Rightarrow> bool" where
  "running s \<longleftrightarrow> (case current_task s of None \<Rightarrow> False | Some c \<Rightarrow> state (task_table s ! c) = TASK_RUNNING)"

definition can_leave :: "'a sched_scheme \<Rightarrow> bool" where
  "can_leave s \<longleftrightarrow> (case current_task s of None \<Rightarrow> True
     | Some c \<Rightarrow> state (task_table s ! c) = TASK_BLOCKED \<longrightarrow> ready_head s \<noteq> None)"

fun chain :: "task_tab \<Rightarrow> nat \<Rightarrow> task_ptr \<Rightarrow> nat list" where
  "chain tbl 0 p = []"
| "chain tbl (Suc n) None = []"
| "chain tbl (Suc n) (Some i) = i # chain tbl n (next_task (tbl ! i))"

definition on_queue :: "'a ipc_scheme \<Rightarrow> nat \<Rightarrow> bool" where
  "on_queue s i \<longleftrightarrow> (\<exists>e\<in>set (wait_ends s). i \<in> set (chain (task_table s) 64 (fst e)))"

definition parent_free :: "'a ipc_scheme \<Rightarrow> bool" where
  "parent_free s \<longleftrightarrow> (case current_task s of None \<Rightarrow> True | Some c \<Rightarrow>
     (case task_from_pid (parent_pid (task_table s ! c)) s of None \<Rightarrow> True | Some q \<Rightarrow> \<not> on_queue s q))"

datatype ipc_label = Internal | SemWaited int ipc_result | SemPosted int int | SemDestroyed int
  | MqSent int "u8 list" | MqReceived int "u8 list" | MqDestroyed int

text \<open>The bytes of a stored message, and the messages of a queue, the oldest first.\<close>

definition payload :: "message_t \<Rightarrow> u8 list" where
  "payload g = take (unat (msg_len g)) (msg_data g)"

definition mq_contents :: "msg_queue_t \<Rightarrow> u8 list list" where
  "mq_contents m = map payload (ring_list (msgs m) (nat (mq_head m)) (nat (mq_num m)))"

inductive ipc_step :: "u32 \<Rightarrow> 'a ipc_scheme \<Rightarrow> ipc_label \<Rightarrow> 'a ipc_scheme \<Rightarrow> bool" for bss_end where
  s_tick: "can_leave s \<Longrightarrow> scheduler_tick regs s = Inr (r, s') \<Longrightarrow> ipc_step bss_end s Internal s'"
| s_create: "running s \<Longrightarrow> task_create nm entry s = Inr (p, s') \<Longrightarrow> ipc_step bss_end s Internal s'"
| s_fork: "running s \<Longrightarrow> task_fork bss_end regs s = Inr (p, s') \<Longrightarrow> ipc_step bss_end s Internal s'"
| s_exit: "running s \<Longrightarrow> parent_free s \<Longrightarrow> ipc_step bss_end s Internal (task_exit code s)"
| s_wait: "running s \<Longrightarrow> task_wait p s = Inr (r, s') \<Longrightarrow> ipc_step bss_end s Internal s'"
| s_wait_round: "running s \<Longrightarrow> task_wait_round p s = Inr (r, s') \<Longrightarrow> ipc_step bss_end s Internal s'"
| s_sem_create: "running s \<Longrightarrow> sem_create nm v s = Inr (k, s') \<Longrightarrow> ipc_step bss_end s Internal s'"
| s_sem_wait: "running s \<Longrightarrow> sem_wait k s = (r, s') \<Longrightarrow> ipc_step bss_end s (SemWaited k r) s'"
| s_sem_post: "running s \<Longrightarrow> sem_post k s = (r, s') \<Longrightarrow> ipc_step bss_end s (SemPosted k r) s'"
| s_sem_destroy: "running s \<Longrightarrow> sem_destroy k s = Some (r, s') \<Longrightarrow> ipc_step bss_end s (SemDestroyed k) s'"
| s_mq_create: "running s \<Longrightarrow> msg_queue_create s = (k, s') \<Longrightarrow> ipc_step bss_end s Internal s'"
| s_mq_send: "running s \<Longrightarrow> msg_queue_send k data len s = Inr (Done 0, s')
    \<Longrightarrow> vread data (unat (if MSG_MAX_DATA < len then MSG_MAX_DATA else len)) s = Inr bs
    \<Longrightarrow> ipc_step bss_end s (MqSent k bs) s'"
| s_mq_send_wait: "running s \<Longrightarrow> msg_queue_send k data len s = Inr (r, s') \<Longrightarrow> r \<noteq> Done 0
    \<Longrightarrow> ipc_step bss_end s Internal s'"
| s_mq_recv: "running s \<Longrightarrow> msg_queue_recv k buf lp s = Inr (Done 0, s') \<Longrightarrow> mq_find k s = Some i
    \<Longrightarrow> bs = payload (fst (mq_take (mq_table s ! i))) \<Longrightarrow> ipc_step bss_end s (MqReceived k bs) s'"
| s_mq_recv_wait: "running s \<Longrightarrow> msg_queue_recv k buf lp s = Inr (r, s') \<Longrightarrow> r \<noteq> Done 0
    \<Longrightarrow> ipc_step bss_end s Internal s'"
| s_mq_destroy: "running s \<Longrightarrow> msg_queue_destroy k s = Some (r, s') \<Longrightarrow> ipc_step bss_end s (MqDestroyed k) s'"

inductive ipc_run :: "u32 \<Rightarrow> 'a ipc_scheme \<Rightarrow> ipc_label list \<Rightarrow> 'a ipc_scheme \<Rightarrow> bool" for bss_end where
  run_none: "ipc_run bss_end s [] s"
| run_step: "ipc_step bss_end s l s1 \<Longrightarrow> ipc_run bss_end s1 ls s2 \<Longrightarrow> ipc_run bss_end s (l # ls) s2"

text \<open>What a label does to the balance of semaphore \<open>k\<close>: its value less the number of its waiters.\<close>

definition sem_delta :: "int \<Rightarrow> ipc_label \<Rightarrow> int" where
  "sem_delta k l = (case l of SemPosted j r \<Rightarrow> if j = k \<and> r = 0 then 1 else 0
     | SemWaited j r \<Rightarrow> if j = k \<and> r \<noteq> Done (-1) then -1 else 0
     | _ \<Rightarrow> 0)"

definition sem_balance :: "'a ipc_scheme \<Rightarrow> nat list list \<Rightarrow> nat \<Rightarrow> int" where
  "sem_balance s qs i = sem_value (sem_table s ! i) - int (length (qs ! i))"

definition sem_kept :: "'a ipc_scheme \<Rightarrow> nat list list \<Rightarrow> ipc_label \<Rightarrow> 'a ipc_scheme \<Rightarrow> nat list list \<Rightarrow> bool" where
  "sem_kept s qs l s' qs' \<longleftrightarrow> (\<forall>k i. 0 \<le> k \<and> sem_find k s = Some i \<and> l \<noteq> SemDestroyed k \<longrightarrow>
     sem_find k s' = Some i \<and> sem_balance s' qs' i = sem_balance s qs i + sem_delta k l)"

text \<open>What a step means for the message queues: what was there and was sent is what was received and is left.\<close>

definition mq_sent :: "int \<Rightarrow> ipc_label \<Rightarrow> u8 list list" where
  "mq_sent k l = (case l of MqSent j bs \<Rightarrow> if j = k then [bs] else [] | _ \<Rightarrow> [])"

definition mq_received :: "int \<Rightarrow> ipc_label \<Rightarrow> u8 list list" where
  "mq_received k l = (case l of MqReceived j bs \<Rightarrow> if j = k then [bs] else [] | _ \<Rightarrow> [])"

definition mq_kept :: "'a ipc_scheme \<Rightarrow> ipc_label \<Rightarrow> 'a ipc_scheme \<Rightarrow> bool" where
  "mq_kept s l s' \<longleftrightarrow> (\<forall>k i. 0 \<le> k \<and> mq_find k s = Some i \<and> l \<noteq> MqDestroyed k \<longrightarrow>
     mq_find k s' = Some i \<and> mq_contents (mq_table s ! i) @ mq_sent k l
       = mq_received k l @ mq_contents (mq_table s' ! i))"

section \<open>The tables\<close>

lemma sched_more_fields:
  fixes s s' :: "'a ipc_scheme"
  assumes "sched.more s' = sched.more s"
  shows "sem_table s' = sem_table s" "sem_count s' = sem_count s" "mq_table s' = mq_table s" "mq_count s' = mq_count s"
    "wait_ends s' = wait_ends s"
  using assms by (cases s; cases s'; simp add: wait_ends_def)+

lemma machine_more_sched: "machine.more s' = machine.more s \<Longrightarrow> sched.more s' = sched.more s"
  by (cases s; cases s') simp

lemma upd_sem_simps [simp]:
  "task_table (upd_sem i f s) = task_table s" "current_task (upd_sem i f s) = current_task s"
  "sem_table (upd_sem i f s) = (sem_table s)[i := f (sem_table s ! i)]" "sem_count (upd_sem i f s) = sem_count s"
  "mq_table (upd_sem i f s) = mq_table s" "mq_count (upd_sem i f s) = mq_count s" "sched_inv (upd_sem i f s) rq = sched_inv s rq"
  by (simp_all add: upd_sem_def sched_inv_def)

lemma upd_mq_simps [simp]:
  "task_table (upd_mq i g s) = task_table s" "current_task (upd_mq i g s) = current_task s"
  "sem_table (upd_mq i g s) = sem_table s" "sem_count (upd_mq i g s) = sem_count s"
  "mq_table (upd_mq i g s) = (mq_table s)[i := g (mq_table s ! i)]" "mq_count (upd_mq i g s) = mq_count s" "sched_inv (upd_mq i g s) rq = sched_inv s rq"
  by (simp_all add: upd_mq_def sched_inv_def)

lemma klog_ipc [simp]:
  fixes s :: "'a ipc_scheme"
  shows "sem_table (klog fm as s) = sem_table s" "sem_count (klog fm as s) = sem_count s"
    "mq_table (klog fm as s) = mq_table s" "mq_count (klog fm as s) = mq_count s" "wait_ends (klog fm as s) = wait_ends s"
  by (simp_all add: klog_def wait_ends_def)

lemma ipc_inv_klog [simp]: "ipc_inv (klog fm as s) rq qs = ipc_inv s rq qs"
  by (simp add: ipc_inv_def)

lemma wait_ends_upd_sem:
  "i < length (sem_table s) \<Longrightarrow> wait_ends (upd_sem i f s)
     = (wait_ends s)[i := (wait_head (f (sem_table s ! i)), wait_tail (f (sem_table s ! i)))]"
  by (simp add: wait_ends_def map_update list_update_append)

lemma wait_ends_upd_mq:
  assumes "length (sem_table s) = 64" "length (mq_table s) = 16" "i < 16"
  shows "wait_ends (upd_mq i g s)
     = (wait_ends s)[64 + i := (recv_wait_head (g (mq_table s ! i)), recv_wait_tail (g (mq_table s ! i))),
         80 + i := (send_wait_head (g (mq_table s ! i)), send_wait_tail (g (mq_table s ! i)))]"
  using assms by (simp add: wait_ends_def map_update list_update_append)

lemma wait_ends_nth:
  assumes "length (sem_table s) = 64" "length (mq_table s) = 16"
  shows "length (wait_ends s) = 96"
    "i < 64 \<Longrightarrow> wait_ends s ! i = (wait_head (sem_table s ! i), wait_tail (sem_table s ! i))"
    "j < 16 \<Longrightarrow> wait_ends s ! (64 + j) = (recv_wait_head (mq_table s ! j), recv_wait_tail (mq_table s ! j))"
    "j < 16 \<Longrightarrow> wait_ends s ! (80 + j) = (send_wait_head (mq_table s ! j), send_wait_tail (mq_table s ! j))"
  using assms by (auto simp: wait_ends_def nth_append)

lemma ipc_invD:
  assumes "ipc_inv s rq qs"
  shows "sched_inv s rq" "waits_ok (task_table s) (wait_ends s) qs" "sems_ok (sem_table s) (sem_count s) qs"
    "length (mq_table s) = 16" "mqs_ok (mq_table s) (mq_count s)" "length (sem_table s) = 64"
    "length (wait_ends s) = 96" "length qs = 96"
proof -
  show a: "sched_inv s rq" "waits_ok (task_table s) (wait_ends s) qs" "sems_ok (sem_table s) (sem_count s) qs"
    "mqs_ok (mq_table s) (mq_count s)" "length (mq_table s) = 16"
    using assms by (auto simp: ipc_inv_def mqs_ok_def)
  show "length (sem_table s) = 64" using a(3) by (simp add: sems_ok_def)
  with a(5) show "length (wait_ends s) = 96" by (simp add: wait_ends_nth)
  with a(2) show "length qs = 96" by (simp add: waits_ok_def)
qed

text \<open>A running task is on no wait queue.\<close>

lemma running_cur:
  assumes "ipc_inv s rq qs" and "running s"
  obtains c where "current_task s = Some c" "c \<notin> set (concat qs)" "state (task_table s ! c) = TASK_RUNNING"
  using assms waiting_blocked(1) [OF ipc_invD(2) [OF assms(1)]]
  by (fastforce simp: running_def task_consts split: option.splits)

text \<open>A semaphore is found by its identifier, at one place.\<close>

lemma sem_find_iff:
  assumes "sems_ok (sem_table s) cnt qs" and "0 \<le> k"
  shows "sem_find k s = Some i \<longleftrightarrow> i < 64 \<and> sem_id (sem_table s ! i) = k"
proof
  assume "sem_find k s = Some i"
  then show "i < 64 \<and> sem_id (sem_table s ! i) = k"
    using find_first_SomeD(1,2) [of _ "sem_table s" i] assms(1) by (fastforce simp: sem_find_def sems_ok_def)
next
  assume a: "i < 64 \<and> sem_id (sem_table s ! i) = k"
  show "sem_find k s = Some i"
    unfolding sem_find_def
    by (rule find_first_unique) (use a assms in \<open>auto simp: sems_ok_def\<close>)
qed

lemma mq_find_iff:
  assumes "mqs_ok (mq_table s) cnt" and "0 \<le> k"
  shows "mq_find k s = Some i \<longleftrightarrow> i < 16 \<and> mq_id (mq_table s ! i) = k"
proof
  assume "mq_find k s = Some i"
  then show "i < 16 \<and> mq_id (mq_table s ! i) = k"
    using find_first_SomeD(1,2) [of _ "mq_table s" i] assms(1) by (fastforce simp: mq_find_def mqs_ok_def)
next
  assume a: "i < 16 \<and> mq_id (mq_table s ! i) = k"
  show "mq_find k s = Some i"
    unfolding mq_find_def
    by (rule find_first_unique) (use a assms in \<open>auto simp: mqs_ok_def\<close>)
qed

lemma mq_kept_same:
  "mq_table s' = mq_table s \<Longrightarrow> (\<And>k. mq_sent k l = [] \<and> mq_received k l = []) \<Longrightarrow> mq_kept s l s'"
  by (simp add: mq_kept_def mq_find_def)

text \<open>A step that leaves the IPC data and the waiting tasks alone.\<close>

lemma ipc_inv_spares:
  assumes "ipc_inv s rq qs" and "sched_inv s' rq'" and "spares (set (concat qs)) s s'"
  shows "ipc_inv s' rq' qs" "sem_kept s qs Internal s' qs" "mq_kept s Internal s'"
proof -
  have m: "sched.more s' = sched.more s" using assms(3) by (simp add: spares_def)
  note f = sched_more_fields [OF m]
  show "ipc_inv s' rq' qs"
    using assms waits_ok_spares [OF ipc_invD(2) [OF assms(1)] assms(3)] by (simp add: ipc_inv_def f)
  show "sem_kept s qs Internal s' qs"
    by (simp add: sem_kept_def sem_find_def sem_balance_def sem_delta_def f)
  show "mq_kept s Internal s'" by (rule mq_kept_same) (simp_all add: f mq_sent_def mq_received_def)
qed

section \<open>Steps of the scheduler\<close>

lemma waiting_not_ready:
  assumes "ipc_inv s rq qs"
  shows "set (concat qs) \<inter> set rq = {}"
  using waiting_blocked(1) [OF ipc_invD(2) [OF assms]] blocked_outside [OF ipc_invD(1) [OF assms]] by blast

lemma chain_queue: "queue_rep tbl h t xs \<Longrightarrow> length xs \<le> n \<Longrightarrow> chain tbl n h = xs"
proof (induction xs arbitrary: h t n)
  case Nil
  then show ?case by (cases n) (simp_all add: queue_rep_def)
next
  case (Cons x xs)
  then obtain m where n: "n = Suc m" by (cases n) auto
  have h: "h = Some x" "linked tbl (x # xs)" using Cons.prems(1) by (simp_all add: queue_rep_def)
  have nx: "next_task (tbl ! x) = (if xs = [] then None else Some (hd xs))" "linked tbl xs"
    using h(2) by (cases xs; simp)+
  have "queue_rep tbl (next_task (tbl ! x)) (if xs = [] then None else Some (last xs)) xs"
    using Cons.prems(1) nx by (auto simp: queue_rep_def)
  from Cons.IH [OF this] Cons.prems(2) show ?case by (simp add: n h(1))
qed

lemma queue_short:
  assumes "queue_rep tbl h t xs" and "length tbl = 64"
  shows "length xs \<le> 64"
proof -
  have "card (set xs) \<le> card {..<64::nat}" using assms by (intro card_mono) (auto simp: queue_rep_def)
  then show ?thesis using assms(1) by (simp add: queue_rep_def distinct_card)
qed

lemma on_queue_iff:
  assumes "ipc_inv s rq qs"
  shows "on_queue s i \<longleftrightarrow> i \<in> set (concat qs)"
proof -
  note w = ipc_invD(2) [OF assms] and l = ipc_invD(7,8) [OF assms]
  have tl: "length (task_table s) = 64"
    using ipc_invD(1) [OF assms] by (auto simp: sched_inv_def dest: tasks_okD(1))
  have c: "chain (task_table s) 64 (fst (wait_ends s ! k)) = qs ! k" if "k < 96" for k
  proof -
    have "k < length (wait_ends s)" using that l by simp
    note q = waits_okD(2) [OF w this]
    show ?thesis by (rule chain_queue [OF q queue_short [OF q tl]])
  qed
  have "on_queue s i \<longleftrightarrow> (\<exists>k<96. i \<in> set (chain (task_table s) 64 (fst (wait_ends s ! k))))"
    unfolding on_queue_def using l(1) by (metis in_set_conv_nth)
  also have "\<dots> \<longleftrightarrow> (\<exists>k<96. i \<in> set (qs ! k))" using c by auto
  also have "\<dots> \<longleftrightarrow> i \<in> set (concat qs)" 
    using in_concatD [of i qs] in_other_queue [OF w] l by auto
  finally show ?thesis .
qed

lemma ipc_tick:
  assumes inv: "ipc_inv s rq qs" and "can_leave s" and "scheduler_tick regs s = Inr (r, s')"
  shows "\<exists>rq'. ipc_inv s' rq' qs \<and> sem_kept s qs Internal s' qs \<and> mq_kept s Internal s'"
proof -
  note i = ipc_invD(1) [OF inv]
  obtain rq' where r: "sched_inv s' rq'" using tick_inv [OF i assms(3)] by blast
  have "spares (set (concat qs)) s s'"
  proof (rule tick_spares [OF i assms(3)])
    show "state (task_table s ! j) = TASK_BLOCKED" if "j \<in> set (concat qs)" for j
      using waiting_blocked(1) [OF ipc_invD(2) [OF inv] that] .
    show "c \<notin> set (concat qs)" if "rq = []" "current_task s = Some c" for c
    proof
      assume "c \<in> set (concat qs)"
      then have "state (task_table s ! c) = TASK_BLOCKED" using waiting_blocked(1) [OF ipc_invD(2) [OF inv]] by blast
      moreover have "ready_head s = None" using i that(1) by (auto simp: sched_inv_def queue_rep_def)
      ultimately show False using assms(2) that(2) by (simp add: can_leave_def)
    qed
  qed
  then show ?thesis using ipc_inv_spares [OF inv r] by blast
qed

lemma ipc_installs:
  assumes inv: "ipc_inv s rq qs" and "(machine.more s' = machine.more s) \<or> (\<exists>i t p. installs s i t p s')"
  shows "\<exists>rq'. ipc_inv s' rq' qs \<and> sem_kept s qs Internal s' qs \<and> mq_kept s Internal s'"
proof -
  note i = ipc_invD(1) [OF inv]
  have "\<exists>rq'. sched_inv s' rq' \<and> spares (set (concat qs)) s s'" using assms(2)
  proof
    assume "machine.more s' = machine.more s"
    then show ?thesis using sched_inv_more i spares_more by blast
  next
    assume "\<exists>i t p. installs s i t p s'"
    then show ?thesis
      using installs_inv(1) [OF i] installs_spares [OF i _ waiting_not_ready [OF inv]]
        waiting_blocked(2) [OF ipc_invD(2) [OF inv]] by blast
  qed
  then show ?thesis using ipc_inv_spares [OF inv] by blast
qed

lemma ipc_create:
  "ipc_inv s rq qs \<Longrightarrow> task_create nm entry s = Inr (p, s') \<Longrightarrow> \<exists>rq'. ipc_inv s' rq' qs \<and> sem_kept s qs Internal s' qs \<and> mq_kept s Internal s'"
  by (rule ipc_installs, assumption) (use task_create_cases ipc_invD(1) in blast)

lemma ipc_fork:
  "ipc_inv s rq qs \<Longrightarrow> task_fork b regs s = Inr (p, s') \<Longrightarrow> \<exists>rq'. ipc_inv s' rq' qs \<and> sem_kept s qs Internal s' qs \<and> mq_kept s Internal s'"
  by (rule ipc_installs, assumption) (use task_fork_cases ipc_invD(1) in blast)

lemma ipc_exit:
  assumes inv: "ipc_inv s rq qs" and "running s" and "parent_free s"
  shows "\<exists>rq'. ipc_inv (task_exit code s) rq' qs \<and> sem_kept s qs Internal (task_exit code s) qs \<and> mq_kept s Internal (task_exit code s)"
proof -
  note i = ipc_invD(1) [OF inv]
  obtain c where c: "current_task s = Some c" "c \<notin> set (concat qs)" by (rule running_cur [OF inv assms(2)])
  obtain rq' where r: "sched_inv (task_exit code s) rq'" using task_exit_inv [OF i] by blast
  have "spares (set (concat qs)) s (task_exit code s)"
    by (rule exit_spares [OF i c(1) waiting_not_ready [OF inv] c(2)])
      (use assms(3) c(1) on_queue_iff [OF inv] in \<open>simp add: parent_free_def\<close>)
  then show ?thesis using ipc_inv_spares [OF inv r] by blast
qed

lemma ipc_wait_round:
  assumes inv: "ipc_inv s rq qs" and "running s" and "task_wait_round p s = Inr (r, s')"
  shows "\<exists>rq'. ipc_inv s' rq' qs \<and> sem_kept s qs Internal s' qs \<and> mq_kept s Internal s'"
proof -
  note i = ipc_invD(1) [OF inv]
  obtain c where c: "current_task s = Some c" "c \<notin> set (concat qs)" "state (task_table s ! c) = TASK_RUNNING"
    by (rule running_cur [OF inv assms(2)])
  have z: "state (task_table s ! c) \<noteq> TASK_ZOMBIE" using c(3) by (simp add: task_consts)
  have "spares (set (concat qs)) s s'"
    using wait_spares [OF i c(1) z assms(3)] waiting_blocked(1) [OF ipc_invD(2) [OF inv]] c(2) by blast
  then show ?thesis using ipc_inv_spares [OF inv task_wait_round_inv [OF i c(1) z assms(3)]] by blast
qed

lemma ipc_wait:
  assumes inv: "ipc_inv s rq qs" and "running s" and "task_wait p s = Inr (r, s')"
  shows "\<exists>rq'. ipc_inv s' rq' qs \<and> sem_kept s qs Internal s' qs \<and> mq_kept s Internal s'"
proof -
  obtain c where c: "current_task s = Some c" by (rule running_cur [OF inv assms(2)])
  define s0 where "s0 = klogln ''[sched] task %d waiting for child pid=%d'' [AI (pid (task_table s ! c)), AI p] s"
  have "ipc_inv s0 rq qs" "running s0" "task_wait_round p s0 = Inr (r, s')"
    using assms c by (simp_all add: s0_def running_def task_wait_def)
  from ipc_wait_round [OF this] show ?thesis
    by (simp add: s0_def sem_kept_def sem_find_def sem_balance_def mq_kept_def mq_find_def)
qed

end
