(* ===== verification/Sros_Ipc_Sem.thy ===== *)
theory Sros_Ipc_Sem
  imports Sros_Ipc_Step
begin

text \<open>
  The semaphore operations on the invariant: each outcome of \<open>sem_wait\<close>, \<open>sem_post\<close>, \<open>sem_create\<close> and
  \<open>sem_destroy\<close>, with the effect on the balance of every semaphore.
\<close>

section \<open>Steps of the semaphores\<close>

lemma sems_ok_upd:
  assumes "sems_ok sems cnt qs" and "sem_id m = sem_id (sems ! i)" and "0 \<le> sem_value m" and "length qs = 96"
    and "xs \<noteq> [] \<Longrightarrow> sem_value m = 0" and "i < 64"
  shows "sems_ok (sems[i := m]) cnt (qs[i := xs])"
proof -
  have l: "length sems = 64" using assms(1) by (simp add: sems_ok_def)
  have "sem_id (sems[i := m] ! j) = sem_id (sems ! j)" for j using assms(2) by (simp add: nth_upd)
  moreover have "0 \<le> sem_value (sems[i := m] ! j) \<and> (qs[i := xs] ! j \<noteq> [] \<longrightarrow> sem_value (sems[i := m] ! j) = 0)" if "j < 64" for j
    using assms that l by (cases "j = i") (auto simp: sems_ok_def)
  ultimately show ?thesis using assms(1) by (simp add: sems_ok_def)
qed

text \<open>
  The update of one semaphore whose wait queue has become \<open>xs\<close>, its identifier kept: the invariant
  holds, and the other semaphores keep their balance.
\<close>

lemma upd_sem_inv:
  assumes inv: "ipc_inv s rq qs" and k: "0 \<le> k" and i: "sem_find k s = Some i" and more: "sched.more s1 = sched.more s"
    and "sched_inv s1 rq'" and "waits_ok (task_table s1) ((wait_ends s)[i := (h, t)]) (qs[i := xs])"
    and f: "sem_id (f (sem_table s ! i)) = sem_id (sem_table s ! i)" "wait_head (f (sem_table s ! i)) = h"
      "wait_tail (f (sem_table s ! i)) = t" "sem_value (f (sem_table s ! i)) = v"
    and v: "0 \<le> v" "xs \<noteq> [] \<Longrightarrow> v = 0"
  shows "ipc_inv (upd_sem i f s1) rq' (qs[i := xs])"
    "v - int (length xs) = sem_value (sem_table s ! i) - int (length (qs ! i)) + sem_delta k l
      \<Longrightarrow> (\<And>j. j \<noteq> k \<Longrightarrow> sem_delta j l = 0) \<Longrightarrow> sem_kept s qs l (upd_sem i f s1) (qs[i := xs])"
proof -
  note ok = ipc_invD(3) [OF inv] and len = ipc_invD(6,8) [OF inv] and m = sched_more_fields [OF more]
  have i64: "i < 64" "sem_id (sem_table s ! i) = k" using i sem_find_iff [OF ok k] by auto
  let ?t = "upd_sem i f s1" and ?m = "f (sem_table s ! i)"
  have st: "sem_table ?t = (sem_table s)[i := ?m]" "sem_count ?t = sem_count s" "mq_table ?t = mq_table s"
    "mq_count ?t = mq_count s"
    by (simp_all add: m)
  have we: "wait_ends ?t = (wait_ends s)[i := (h, t)]"
    using wait_ends_upd_sem [of i s1 f] i64(1) len(1) f by (simp add: m)
  have ok': "sems_ok (sem_table ?t) (sem_count ?t) (qs[i := xs])"
    unfolding st by (rule sems_ok_upd [OF ok]) (use f v len i64 in simp_all)
  then show "ipc_inv ?t rq' (qs[i := xs])"
    using assms(5,6) ipc_invD(4,5) [OF inv] by (simp add: ipc_inv_def we st(3,4) del: upd_sem_simps(3-6))
  assume b: "v - int (length xs) = sem_value (sem_table s ! i) - int (length (qs ! i)) + sem_delta k l"
    and d: "\<And>j. j \<noteq> k \<Longrightarrow> sem_delta j l = 0"
  show "sem_kept s qs l ?t (qs[i := xs])"
    unfolding sem_kept_def
  proof (intro allI impI)
    fix n j
    assume a: "0 \<le> n \<and> sem_find n s = Some j \<and> l \<noteq> SemDestroyed n"
    then have j: "j < 64" "sem_id (sem_table s ! j) = n" "0 \<le> n" using sem_find_iff [OF ok] by auto
    have "sem_id (sem_table ?t ! j) = n" unfolding st(1) using j(2) f(1) by (auto simp: nth_upd)
    then have "sem_find n ?t = Some j" using sem_find_iff [OF ok' j(3)] j(1) by blast
    moreover have "sem_balance ?t (qs[i := xs]) j = sem_balance s qs j + sem_delta n l"
    proof (cases "j = i")
      case True
      then show ?thesis using b f(4) i64 len j(2) unfolding sem_balance_def st(1) by simp
    next
      case False
      have u: "\<forall>i<64. \<forall>j<64. 0 \<le> sem_id (sem_table s ! i) \<and> sem_id (sem_table s ! i) = sem_id (sem_table s ! j) \<longrightarrow> i = j"
        using ok by (simp add: sems_ok_def)
      have "n \<noteq> k" using u [rule_format, of i j] False i64 j k by auto
      then show ?thesis using d False unfolding sem_balance_def st(1) by simp
    qed
    ultimately show "sem_find n ?t = Some j \<and> sem_balance ?t (qs[i := xs]) j = sem_balance s qs j + sem_delta n l" ..
  qed
qed

lemma sem_queue:
  assumes inv: "ipc_inv s rq qs" and "0 \<le> k" and "sem_find k s = Some i"
  shows "i < 64" "i < length (wait_ends s)" "wait_ends s ! i = (wait_head (sem_table s ! i), wait_tail (sem_table s ! i))"
    "queue_rep (task_table s) (wait_head (sem_table s ! i)) (wait_tail (sem_table s ! i)) (qs ! i)"
    "0 \<le> sem_value (sem_table s ! i)" "qs ! i \<noteq> [] \<Longrightarrow> sem_value (sem_table s ! i) = 0"
    "qs[i := qs ! i] = qs" "sem_count s > k"
proof -
  note ok = ipc_invD(3) [OF inv]
  show i: "i < 64" using sem_find_iff [OF ok assms(2), of i] assms(3) by simp
  show il: "i < length (wait_ends s)" using i ipc_invD(7) [OF inv] by simp
  show e: "wait_ends s ! i = (wait_head (sem_table s ! i), wait_tail (sem_table s ! i))"
    using wait_ends_nth(2) [OF ipc_invD(6,4) [OF inv] i] .
  show "queue_rep (task_table s) (wait_head (sem_table s ! i)) (wait_tail (sem_table s ! i)) (qs ! i)"
    using waits_okD(2) [OF ipc_invD(2) [OF inv] il] by (simp add: e)
  show "0 \<le> sem_value (sem_table s ! i)" "qs ! i \<noteq> [] \<Longrightarrow> sem_value (sem_table s ! i) = 0"
    using ok i by (auto simp: sems_ok_def)
  show "sem_count s > k" using ok i sem_find_iff [OF ok assms(2), of i] assms(3) by (auto simp: sems_ok_def)
qed simp

text \<open>The three outcomes of \<open>sem_wait\<close>.\<close>

lemma sem_wait_cases:
  assumes inv: "ipc_inv s rq qs" and run: "running s" and wt: "sem_wait k s = (r, s')"
  shows "\<exists>qs'. ipc_inv s' rq qs' \<and> sem_kept s qs (SemWaited k r) s' qs' \<and> mq_table s' = mq_table s
    \<and> (r = Done (-1) \<and> s' = s \<and> qs' = qs \<and> (k < 0 \<or> sem_find k s = None)
       \<or> 0 \<le> k \<and> (\<exists>i. sem_find k s = Some i \<and>
          (r = Done 0 \<and> 0 < sem_value (sem_table s ! i) \<and> sem_value (sem_table s' ! i) = sem_value (sem_table s ! i) - 1
             \<and> qs' = qs \<and> task_table s' = task_table s
           \<or> r = Blocked \<and> sem_value (sem_table s ! i) = 0 \<and> (\<exists>c. current_task s = Some c \<and> current_task s' = Some c
               \<and> qs' = qs[i := qs ! i @ [c]] \<and> state (task_table s' ! c) = TASK_BLOCKED))))"
proof (cases "0 \<le> k \<and> sem_find k s \<noteq> None")
  case False
  then have "r = Done (-1)" "s' = s" "k < 0 \<or> sem_find k s = None"
    using wt by (auto simp: sem_wait_def split: if_splits option.splits)
  moreover have "sem_kept s qs (SemWaited k (Done (-1))) s qs" by (simp add: sem_kept_def sem_delta_def)
  ultimately show ?thesis using inv by blast
next
  case True
  then obtain i where k: "0 \<le> k" and i: "sem_find k s = Some i" by auto
  note q = sem_queue [OF inv k i] and w = ipc_invD(2) [OF inv]
  let ?m = "sem_table s ! i"
  obtain c where c: "current_task s = Some c" "c \<notin> set (concat qs)" by (rule running_cur [OF inv run])
  show ?thesis
  proof (cases "0 < sem_value ?m")
    case pos: True
    let ?f = "\<lambda>m. m\<lparr>sem_value := sem_value m - 1\<rparr>"
    have s': "s' = upd_sem i ?f s" and r: "r = Done 0" using wt k i q(8) pos by (auto simp: sem_wait_def)
    have e: "(wait_ends s)[i := (wait_head ?m, wait_tail ?m)] = wait_ends s" using q(3) by (metis list_update_id)
    have nil: "qs ! i = []" using q(6) pos by force
    note u = upd_sem_inv [OF inv k i refl ipc_invD(1) [OF inv], where h = "wait_head ?m" and t = "wait_tail ?m"
        and xs = "qs ! i" and f = ?f and v = "sem_value ?m - 1"]
    have "ipc_inv s' rq qs" using u(1) w pos nil q(7) by (simp add: e s')
    moreover have "sem_kept s qs (SemWaited k r) s' qs"
      using u(2) w pos nil q(7) by (simp add: e s' r sem_delta_def)
    ultimately show ?thesis using k i pos r q(1) ipc_invD(6) [OF inv] by (intro exI [of _ qs]) (auto simp: s')
  next
    case zero: False
    then have v0: "sem_value ?m = 0" using q(5) by simp
    define s0 where "s0 = klogln ''[ipc] sem %d '%s': task %d BLOCKED on wait''
        [AI k, AStr (sem_name ?m), AI (pid (task_table s ! c))] s"
    have s0: "sched_inv s0 rq" "task_table s0 = task_table s" "current_task s0 = Some c" "sched.more s0 = sched.more s"
      using ipc_invD(1) [OF inv] machine_more_sched [OF more_klog, of _ _ s] c(1) by (simp_all add: s0_def)
    obtain h t s1 where j: "wait_join (wait_head ?m) (wait_tail ?m) c s0 = ((h, t), s1)" by (metis prod.collapse)
    let ?f = "\<lambda>m. m\<lparr>wait_head := h, wait_tail := t\<rparr>"
    have s': "s' = upd_sem i ?f s1" and r: "r = Blocked"
      using wt k i q(8) zero c(1) j unfolding sem_wait_def s0_def by (auto simp: Let_def)
    have w0: "waits_ok (task_table s0) (wait_ends s) qs" using w by (simp add: s0)
    have j': "wait_join (fst (wait_ends s ! i)) (snd (wait_ends s ! i)) c s0 = ((h, t), s1)" using j by (simp add: q(3))
    note p = wait_join_props [OF s0(1,3) w0 q(2) c(2) j']
    have m1: "sched.more s1 = sched.more s" using p(3) s0(4) by simp
    note u = upd_sem_inv [OF inv k i m1 p(1,2), where f = ?f and v = 0]
    have "ipc_inv s' rq (qs[i := qs ! i @ [c]])" "sem_kept s qs (SemWaited k r) s' (qs[i := qs ! i @ [c]])"
      using u v0 by (simp_all add: s' r sem_delta_def)
    then show ?thesis using k i v0 r c(1) p(4,5) s0(3) by (intro exI [of _ "qs[i := qs ! i @ [c]]"]) (simp add: s' sched_more_fields [OF m1])
  qed
qed

text \<open>The three outcomes of \<open>sem_post\<close>.\<close>

lemma sem_post_cases:
  assumes inv: "ipc_inv s rq qs" and run: "running s" and post: "sem_post k s = (r, s')"
  shows "\<exists>rq' qs'. ipc_inv s' rq' qs' \<and> sem_kept s qs (SemPosted k r) s' qs' \<and> mq_table s' = mq_table s
    \<and> (r = -1 \<and> s' = s \<and> (k < 0 \<or> sem_find k s = None)
       \<or> r = 0 \<and> 0 \<le> k \<and> (\<exists>i. sem_find k s = Some i \<and> qs' = qs[i := tl (qs ! i)] \<and>
        (if qs ! i = [] then sem_value (sem_table s' ! i) = sem_value (sem_table s ! i) + 1 \<and> rq' = rq
         else sem_value (sem_table s' ! i) = 0 \<and> rq' = rq @ [hd (qs ! i)]
           \<and> state (task_table s' ! hd (qs ! i)) = TASK_READY)))"
proof (cases "0 \<le> k \<and> sem_find k s \<noteq> None")
  case False
  then have "r = -1" "s' = s" "k < 0 \<or> sem_find k s = None"
    using post by (auto simp: sem_post_def split: if_splits option.splits)
  moreover have "sem_kept s qs (SemPosted k (-1)) s qs" by (simp add: sem_kept_def sem_delta_def)
  ultimately show ?thesis using inv by blast
next
  case True
  then obtain i where k: "0 \<le> k" and i: "sem_find k s = Some i" by auto
  note q = sem_queue [OF inv k i] and w = ipc_invD(2) [OF inv]
  let ?m = "sem_table s ! i"
  show ?thesis
  proof (cases "qs ! i")
    case Nil
    have h: "wait_head ?m = None" "wait_tail ?m = None" using q(4) Nil by (auto simp: queue_rep_def)
    let ?f = "\<lambda>m. m\<lparr>sem_value := sem_value m + 1\<rparr>"
    have s': "s' = upd_sem i ?f s" and r: "r = 0" using post k i q(8) h by (auto simp: sem_post_def Let_def)
    have e: "(wait_ends s)[i := (wait_head ?m, wait_tail ?m)] = wait_ends s" using q(3) by (metis list_update_id)
    note u = upd_sem_inv [OF inv k i refl ipc_invD(1) [OF inv], where h = "wait_head ?m" and t = "wait_tail ?m"
        and xs = "qs ! i" and f = ?f and v = "sem_value ?m + 1"]
    have "ipc_inv s' rq qs" "sem_kept s qs (SemPosted k r) s' qs"
      using u w Nil q(5,7) by (simp_all add: e s' r sem_delta_def)
    then show ?thesis
      using k i r q(1,7) ipc_invD(6) [OF inv] Nil by (intro exI [of _ rq] exI [of _ qs]) (simp add: s')
  next
    case (Cons x xs)
    have h: "wait_head ?m = Some x" using q(4) Cons by (simp add: queue_rep_def)
    have v0: "sem_value ?m = 0" using q(6) Cons by simp
    obtain c where c: "current_task s = Some c" "c \<notin> set (concat qs)" by (rule running_cur [OF inv run])
    have cx: "x \<noteq> c" using c(2) in_other_queue [OF w q(2), of x] Cons by auto
    define s0 where "s0 = klogln ''[ipc] sem %d '%s': waking task %d'' [AI k, AStr (sem_name ?m), AI (pid (task_table s ! x))] s"
    have s0: "sched_inv s0 rq" "task_table s0 = task_table s" "current_task s0 = Some c" "sched.more s0 = sched.more s"
      using ipc_invD(1) [OF inv] machine_more_sched [OF more_klog, of _ _ s] c(1) by (simp_all add: s0_def)
    obtain h' t' s1 where wf: "wake_first (wait_head ?m) (wait_tail ?m) s0 = ((h', t'), s1)"
      by (metis prod.collapse)
    let ?f = "\<lambda>m. m\<lparr>wait_head := h', wait_tail := t'\<rparr>"
    have s': "s' = upd_sem i ?f s1" and r: "r = 0"
      using post k i q(8) h wf unfolding sem_post_def s0_def by (auto simp: Let_def)
    have w0: "waits_ok (task_table s0) (wait_ends s) qs" "current_task s0 \<noteq> Some x" using w cx by (simp_all add: s0)
    have wf': "wake_first (fst (wait_ends s ! i)) (snd (wait_ends s ! i)) s0 = ((h', t'), s1)" using wf by (simp add: q(3))
    note p = wake_first_props [OF s0(1) w0(1) q(2) Cons w0(2) wf']
    have m1: "sched.more s1 = sched.more s" using p(3) s0(4) by simp
    note u = upd_sem_inv [OF inv k i m1 p(1,2), where f = ?f and v = 0]
    have "ipc_inv s' (rq @ [x]) (qs[i := xs])" "sem_kept s qs (SemPosted k r) s' (qs[i := xs])"
      using u v0 Cons by (simp_all add: s' r sem_delta_def)
    moreover have "sem_value (sem_table s' ! i) = 0"
      using v0 q(1) ipc_invD(6) [OF inv] sched_more_fields [OF m1] by (simp add: s')
    ultimately show ?thesis
      using k i r p(5) Cons by (intro exI [of _ "rq @ [x]"] exI [of _ "qs[i := xs]"]) (simp add: s' sched_more_fields [OF m1])
  qed
qed

lemma sem_create_step:
  assumes inv: "ipc_inv s rq qs" and cr: "sem_create nm v s = Inr (k, s')"
  shows "\<exists>qs'. ipc_inv s' rq qs' \<and> sem_kept s qs Internal s' qs' \<and> mq_table s' = mq_table s"
proof (cases "sem_find_slot s < 0")
  case True
  then have "\<exists>fm as. s' = klog fm as s" using cr by (auto simp: sem_create_def Let_def)
  then show ?thesis using inv by (auto simp: sem_kept_def sem_find_def sem_balance_def sem_delta_def)
next
  case False
  note ok = ipc_invD(3) [OF inv] and len = ipc_invD(6-8) [OF inv]
  obtain i where i: "find_first (\<lambda>m. sem_id m < 0) (sem_table s) = Some i"
    using False by (cases "find_first (\<lambda>m. sem_id m < 0) (sem_table s)") (auto simp: sem_find_slot_def)
  have i64: "i < 64" "sem_id (sem_table s ! i) < 0" "nat (sem_find_slot s) = i"
    using find_first_SomeD(1,2) [OF i] len i by (auto simp: sem_find_slot_def)
  obtain nm' fm as where s': "s' = klog fm as (upd_sem i (\<lambda>m. \<lparr>sem_id = sem_count s, sem_name = nm',
      sem_value = (if v < 0 then 0 else v), wait_head = None, wait_tail = None\<rparr>) (s\<lparr>sem_count := sem_count s + 1\<rparr>))"
    using cr False i64(3) by (auto simp: sem_create_def Let_def bind_res_Inr_iff)
  let ?n = "\<lparr>sem_id = sem_count s, sem_name = nm', sem_value = (if v < 0 then 0 else v), wait_head = None, wait_tail = None\<rparr>"
  have st: "sem_table s' = (sem_table s)[i := ?n]" "sem_count s' = sem_count s + 1" "mq_table s' = mq_table s"
    "task_table s' = task_table s" "mq_count s' = mq_count s"
    by (simp_all add: s')
  have si: "sched_inv s' rq" using ipc_invD(1) [OF inv] by (simp add: s') (simp add: sched_inv_def)
  have we: "wait_ends s' = (wait_ends s)[i := (None, None)]"
    using wait_ends_upd_sem [of i "s\<lparr>sem_count := sem_count s + 1\<rparr>"] i64 len by (simp add: s') (simp add: wait_ends_def)
  have w: "waits_ok (task_table s') (wait_ends s') (qs[i := []])"
    unfolding we st by (rule waits_ok_replace [OF ipc_invD(2) [OF inv]]) (use i64 len in \<open>auto simp: queue_rep_def\<close>)
  have nth: "sem_table s' ! j = (if j = i then ?n else sem_table s ! j)" for j
    unfolding st(1) using i64 len(1) by (auto simp: nth_upd)
  have fresh: "sem_id (sem_table s ! j) < sem_count s" if "j < 64" for j using ok that by (simp add: sems_ok_def)
  have u: "j = n" if "j < 64" "n < 64" "0 \<le> sem_id (sem_table s' ! j)" "sem_id (sem_table s' ! j) = sem_id (sem_table s' ! n)" for j n
    using that fresh [of j] fresh [of n] ok by (auto simp: nth sems_ok_def split: if_splits)
  have "0 \<le> sem_value (sem_table s' ! j) \<and> (qs[i := []] ! j \<noteq> [] \<longrightarrow> sem_value (sem_table s' ! j) = 0)
      \<and> sem_id (sem_table s' ! j) < sem_count s + 1" if "j < 64" for j
    using ok that fresh [OF that] len(3) by (auto simp: nth sems_ok_def nth_list_update)
  with u have ok': "sems_ok (sem_table s') (sem_count s') (qs[i := []])"
    using ok len by (auto simp: sems_ok_def st(1,2))
  then have "ipc_inv s' rq (qs[i := []])" using si w ipc_invD(4,5) [OF inv] by (simp add: ipc_inv_def st(3,5))
  moreover have "sem_kept s qs Internal s' (qs[i := []])"
    unfolding sem_kept_def
  proof (intro allI impI)
    fix n j
    assume a: "0 \<le> n \<and> sem_find n s = Some j \<and> Internal \<noteq> SemDestroyed n"
    then have j: "j < 64" "sem_id (sem_table s ! j) = n" "0 \<le> n" using sem_find_iff [OF ok] by auto
    then have "j \<noteq> i" using i64 by auto
    then show "sem_find n s' = Some j \<and> sem_balance s' (qs[i := []]) j = sem_balance s qs j + sem_delta n Internal"
      using j by (simp add: sem_find_iff [OF ok'] nth sem_balance_def sem_delta_def)
  qed
  ultimately show ?thesis using st(3) by blast
qed

lemma sem_destroy_cases:
  assumes inv: "ipc_inv s rq qs" and run: "running s"
  shows "\<exists>r s' rq' qs'. sem_destroy k s = Some (r, s') \<and> ipc_inv s' rq' qs' \<and> sem_kept s qs (SemDestroyed k) s' qs' \<and> mq_table s' = mq_table s
    \<and> (r = -1 \<and> s' = s \<and> (k < 0 \<or> sem_find k s = None)
       \<or> r = 0 \<and> 0 \<le> k \<and> (\<exists>i. sem_find k s = Some i \<and> rq' = rq @ qs ! i \<and> qs' = qs[i := []]
           \<and> sem_find k s' = None \<and> (\<forall>j\<in>set (qs ! i). state (task_table s' ! j) = TASK_READY)))"
proof (cases "0 \<le> k \<and> sem_find k s \<noteq> None")
  case False
  then have "sem_destroy k s = Some (-1, s)" "k < 0 \<or> sem_find k s = None" by (auto simp: sem_destroy_def)
  moreover have "sem_kept s qs (SemDestroyed k) s qs" by (simp add: sem_kept_def sem_delta_def)
  ultimately show ?thesis using inv by blast
next
  case True
  then obtain i where k: "0 \<le> k" and i: "sem_find k s = Some i" by auto
  note q = sem_queue [OF inv k i] and w = ipc_invD(2) [OF inv] and ok = ipc_invD(3) [OF inv] and len = ipc_invD(6-8) [OF inv]
  let ?m = "sem_table s ! i" and ?msg = "''[ipc] sem %d destroyed, waking task %d''"
  have ik: "sem_id ?m = k" using sem_find_iff [OF ok k, of i] i by simp
  obtain c where c: "current_task s = Some c" "c \<notin> set (concat qs)" by (rule running_cur [OF inv run])
  have "\<forall>j\<in>set (qs ! i). current_task s \<noteq> Some j" using c in_other_queue [OF w q(2)] by auto
  from wake_all_props [OF ipc_invD(1) [OF inv] w q(2) refl this, of ?msg k, unfolded q(3) fst_conv]
  obtain s1 where s1: "wake_all ?msg k (wait_head ?m) s = Some s1" "sched_inv s1 (rq @ qs ! i)"
    "waits_ok (task_table s1) ((wait_ends s)[i := (None, None)]) (qs[i := []])" "sched.more s1 = sched.more s"
    "\<forall>j\<in>set (qs ! i). state (task_table s1 ! j) = TASK_READY"
    by auto
  note m = sched_more_fields [OF s1(4)]
  let ?n = "\<lparr>sem_id = -1, sem_name = [], sem_value = 0, wait_head = None, wait_tail = None\<rparr>"
  define s' where "s' = klogln ''[ipc] sem %d destroyed'' [AI k] (upd_sem i (\<lambda>m. ?n) s1)"
  have d: "sem_destroy k s = Some (0, s')"
    using k i s1(1) by (simp add: sem_destroy_def s'_def Let_def)
  have st: "sem_table s' = (sem_table s)[i := ?n]" "sem_count s' = sem_count s" "mq_table s' = mq_table s"
    "task_table s' = task_table s1" "mq_count s' = mq_count s"
    by (simp_all add: s'_def m)
  have nth: "sem_table s' ! j = (if j = i then ?n else sem_table s ! j)" for j
    unfolding st(1) using q(1) len(1) by (auto simp: nth_upd)
  have we: "wait_ends s' = (wait_ends s)[i := (None, None)]"
    using wait_ends_upd_sem [of i s1 "\<lambda>m. ?n"] q(1) len by (simp add: s'_def m)
  have "0 \<le> sem_value (sem_table s' ! j) \<and> (qs[i := []] ! j \<noteq> [] \<longrightarrow> sem_value (sem_table s' ! j) = 0)
      \<and> sem_id (sem_table s' ! j) < sem_count s" if "j < 64" for j
    using ok that len(3) by (auto simp: nth sems_ok_def nth_list_update)
  moreover have "j = n" if "j < 64" "n < 64" "0 \<le> sem_id (sem_table s' ! j)" "sem_id (sem_table s' ! j) = sem_id (sem_table s' ! n)" for j n
    using that ok by (auto simp: nth sems_ok_def split: if_splits)
  ultimately have ok': "sems_ok (sem_table s') (sem_count s') (qs[i := []])"
    using ok len by (auto simp: sems_ok_def st(1,2))
  have "ipc_inv s' (rq @ qs ! i) (qs[i := []])"
    using s1(2,3) ok' ipc_invD(4,5) [OF inv] by (simp add: ipc_inv_def we st) (simp add: s'_def)
  moreover have "sem_kept s qs (SemDestroyed k) s' (qs[i := []])"
    unfolding sem_kept_def
  proof (intro allI impI)
    fix n j
    assume a: "0 \<le> n \<and> sem_find n s = Some j \<and> SemDestroyed k \<noteq> SemDestroyed n"
    then have j: "j < 64" "sem_id (sem_table s ! j) = n" "0 \<le> n" "n \<noteq> k" using sem_find_iff [OF ok] by auto
    then have "j \<noteq> i" using ik by auto
    then show "sem_find n s' = Some j \<and> sem_balance s' (qs[i := []]) j = sem_balance s qs j + sem_delta n (SemDestroyed k)"
      using j by (simp add: sem_find_iff [OF ok'] nth sem_balance_def sem_delta_def)
  qed
  moreover have "sem_find k s' = None"
  proof (rule ccontr)
    assume "sem_find k s' \<noteq> None"
    then obtain j where "sem_find k s' = Some j" by auto
    then have "j < 64" "sem_id (sem_table s' ! j) = k" using sem_find_iff [OF ok' k, of j] by auto
    then have "j \<noteq> i" "sem_id (sem_table s ! j) = k" using k by (auto simp: nth split: if_splits)
    moreover have "sem_find k s = Some j" using sem_find_iff [OF ok k, of j] \<open>j < 64\<close> calculation(2) by simp
    ultimately show False using i by simp
  qed
  ultimately show ?thesis using d k i s1(5) by (auto simp: st(3,4))
qed

end
