(* ===== verification/Sros_Ipc_Mq.thy ===== *)
theory Sros_Ipc_Mq
  imports Sros_Ipc_Sem
begin

text \<open>
  The message queues on the invariant: the ring of messages is a FIFO queue, and each outcome of the
  operations keeps the invariant. The last theorem, \<open>ipc_step_inv\<close>, is the invariant for every step.
\<close>

section \<open>Definitions\<close>

text \<open>
  A message queue has two wait queues, of receivers and of senders: their ends, and their place among
  the wait queues of the system.
\<close>

definition set_ends :: "bool \<Rightarrow> task_ptr \<Rightarrow> task_ptr \<Rightarrow> msg_queue_t \<Rightarrow> msg_queue_t" where
  "set_ends recv h t m = (if recv then m\<lparr>recv_wait_head := h, recv_wait_tail := t\<rparr>
     else m\<lparr>send_wait_head := h, send_wait_tail := t\<rparr>)"

definition ends_of :: "bool \<Rightarrow> msg_queue_t \<Rightarrow> task_ptr \<times> task_ptr" where
  "ends_of recv m = (if recv then (recv_wait_head m, recv_wait_tail m) else (send_wait_head m, send_wait_tail m))"

definition end_index :: "bool \<Rightarrow> nat \<Rightarrow> nat" where
  "end_index recv i = (if recv then 64 + i else 80 + i)"

section \<open>Steps of the message queues\<close>

lemma nat_tail:
  assumes "mq_ok m"
  shows "nat (mq_tail m) = (nat (mq_head m) + nat (mq_num m)) mod length (msgs m)" "nat (mq_head m) < length (msgs m)"
  using assms by (auto simp: mq_ok_def nat_mod_distrib nat_add_distrib)

lemma mq_store_ok:
  assumes ok: "mq_ok m" and "mq_num m < 64" and b: "length bytes = unat len" "length bytes \<le> 64"
  shows "mq_ok (mq_store len bytes m)" "mq_contents (mq_store len bytes m) = mq_contents m @ [bytes]"
proof -
  note t = nat_tail [OF ok]
  let ?i = "nat (mq_tail m)"
  have i: "?i < length (msgs m)" unfolding t(1) using ok by (intro mod_less_divisor) (auto simp: mq_ok_def)
  have old: "length (msg_data (msgs m ! ?i)) = 64" using ok i by (auto simp: mq_ok_def)
  let ?g = "\<lparr>msg_len = len, msg_data = bytes @ drop (length bytes) (msg_data (msgs m ! ?i))\<rparr>"
  have "length (msg_data ?g) = 64 \<and> unat (msg_len ?g) \<le> 64" using b old by simp
  moreover have "\<forall>g\<in>set (msgs m). length (msg_data g) = 64 \<and> unat (msg_len g) \<le> 64" using ok by (simp add: mq_ok_def)
  ultimately have "\<forall>g\<in>set ((msgs m)[?i := ?g]). length (msg_data g) = 64 \<and> unat (msg_len g) \<le> 64"
    using set_update_subset_insert [of "msgs m" ?i ?g] by blast
  moreover have "(mq_tail m + 1) mod 64 = (mq_head m + (mq_num m + 1)) mod 64"
  proof -
    have "mq_tail m = (mq_head m + mq_num m) mod 64" using ok by (simp add: mq_ok_def)
    then have "(mq_tail m + 1) mod 64 = (mq_head m + mq_num m + 1) mod 64" by (simp only: mod_add_left_eq)
    then show ?thesis by (simp only: add.assoc)
  qed
  moreover have "length (msgs m) = 64 \<and> 0 \<le> mq_head m \<and> mq_head m < 64 \<and> 0 \<le> mq_num m + 1 \<and> mq_num m + 1 \<le> 64"
    using ok assms(2) by (simp add: mq_ok_def)
  ultimately show "mq_ok (mq_store len bytes m)"
    unfolding mq_ok_def mq_store_def Let_def MSGQUEUE_SIZE_def by simp
  have n: "nat (mq_num m + 1) = Suc (nat (mq_num m))" "nat (mq_num m) < length (msgs m)"
    using ok assms(2) by (auto simp: mq_ok_def)
  show "mq_contents (mq_store len bytes m) = mq_contents m @ [bytes]"
    using ring_list_put [OF n(2) t(1), of ?g] b
    by (simp add: mq_contents_def mq_store_def Let_def n(1) payload_def)
qed

lemma mq_take_ok:
  assumes ok: "mq_ok m" and "0 < mq_num m" and "mq_take m = (g, m')"
  shows "mq_ok m'" "mq_contents m = payload g # mq_contents m'" "g \<in> set (msgs m)"
proof -
  note t = nat_tail [OF ok]
  have m': "g = msgs m ! nat (mq_head m)" "m' = m\<lparr>mq_head := (mq_head m + 1) mod 64, mq_num := mq_num m - 1\<rparr>"
    using assms(3) by (auto simp: mq_take_def MSGQUEUE_SIZE_def)
  have "mq_tail m = ((mq_head m + 1) mod 64 + (mq_num m - 1)) mod 64"
    using ok by (simp add: mq_ok_def mod_add_left_eq)
  then show "mq_ok m'" using ok assms(2) by (simp add: mq_ok_def m'(2))
  show "g \<in> set (msgs m)" using t(2) m'(1) by simp
  have h: "nat ((mq_head m + 1) mod 64) = Suc (nat (mq_head m)) mod length (msgs m)"
    using ok by (auto simp: mq_ok_def nat_mod_distrib nat_add_distrib)
  have n: "nat (mq_num m) = Suc (nat (mq_num m - 1))" using assms(2) by simp
  show "mq_contents m = payload g # mq_contents m'"
    unfolding mq_contents_def n ring_list_get [OF t(2)] by (simp add: m' h)
qed

lemma internal_simps [simp]: "sem_delta k Internal = 0" "mq_sent k Internal = []" "mq_received k Internal = []"
  by (simp_all add: sem_delta_def mq_sent_def mq_received_def)

lemma sem_keptD:
  "sem_kept s qs l s' qs' \<Longrightarrow> 0 \<le> k \<Longrightarrow> sem_find k s = Some i \<Longrightarrow> l \<noteq> SemDestroyed k
    \<Longrightarrow> sem_find k s' = Some i \<and> sem_balance s' qs' i = sem_balance s qs i + sem_delta k l"
  by (simp add: sem_kept_def)

lemma mq_keptD:
  "mq_kept s l s' \<Longrightarrow> 0 \<le> k \<Longrightarrow> mq_find k s = Some i \<Longrightarrow> l \<noteq> MqDestroyed k \<Longrightarrow> mq_find k s' = Some i
    \<and> mq_contents (mq_table s ! i) @ mq_sent k l = mq_received k l @ mq_contents (mq_table s' ! i)"
  by (simp add: mq_kept_def)

text \<open>Internal steps before or after a labelled one.\<close>

lemma kept_trans:
  assumes "sem_kept s qs l s1 qs1" "sem_kept s1 qs1 l' s2 qs2" "mq_kept s l s1" "mq_kept s1 l' s2"
    and "l = Internal \<and> l'' = l' \<or> l' = Internal \<and> l'' = l"
  shows "sem_kept s qs l'' s2 qs2" "mq_kept s l'' s2"
proof -
  show "sem_kept s qs l'' s2 qs2"
    unfolding sem_kept_def
  proof (intro allI impI)
    fix k i
    assume a: "0 \<le> k \<and> sem_find k s = Some i \<and> l'' \<noteq> SemDestroyed k"
    then have b: "l \<noteq> SemDestroyed k" "l' \<noteq> SemDestroyed k" using assms(5) by auto
    note x = sem_keptD [OF assms(1) _ _ b(1), of i]
    show "sem_find k s2 = Some i \<and> sem_balance s2 qs2 i = sem_balance s qs i + sem_delta k l''"
      using x sem_keptD [OF assms(2) _ _ b(2), of i] a assms(5) by auto
  qed
  show "mq_kept s l'' s2"
    unfolding mq_kept_def
  proof (intro allI impI)
    fix k i
    assume a: "0 \<le> k \<and> mq_find k s = Some i \<and> l'' \<noteq> MqDestroyed k"
    then have b: "l \<noteq> MqDestroyed k" "l' \<noteq> MqDestroyed k" using assms(5) by auto
    note x = mq_keptD [OF assms(3) _ _ b(1), of i]
    show "mq_find k s2 = Some i
        \<and> mq_contents (mq_table s ! i) @ mq_sent k l'' = mq_received k l'' @ mq_contents (mq_table s2 ! i)"
      using x mq_keptD [OF assms(4) _ _ b(2), of i] a assms(5) by auto
  qed
qed

text \<open>The update of one message queue.\<close>

lemma upd_mq_inv:
  assumes inv: "ipc_inv s rq qs" and k: "0 \<le> k" and i: "mq_find k s = Some i" and more: "sched.more s1 = sched.more s"
    and "sched_inv s1 rq'" and w: "waits_ok (task_table s1) ((wait_ends s)[64 + i := rp, 80 + i := sp]) qs'"
    and qs: "\<And>j. j < 64 \<Longrightarrow> qs' ! j = qs ! j"
    and g: "mq_id (g (mq_table s ! i)) = mq_id (mq_table s ! i)" "mq_ok (g (mq_table s ! i))"
      "(recv_wait_head (g (mq_table s ! i)), recv_wait_tail (g (mq_table s ! i))) = rp"
      "(send_wait_head (g (mq_table s ! i)), send_wait_tail (g (mq_table s ! i))) = sp"
    and c: "mq_contents (mq_table s ! i) @ mq_sent k l = mq_received k l @ mq_contents (g (mq_table s ! i))"
    and l: "\<And>j. sem_delta j l = 0" "\<And>j. j \<noteq> k \<Longrightarrow> mq_sent j l = [] \<and> mq_received j l = []"
  shows "ipc_inv (upd_mq i g s1) rq' qs'" "sem_kept s qs l (upd_mq i g s1) qs'" "mq_kept s l (upd_mq i g s1)"
proof -
  note ok = ipc_invD(5) [OF inv] and len = ipc_invD(4,6-8) [OF inv] and m = sched_more_fields [OF more]
  have i16: "i < 16" "mq_id (mq_table s ! i) = k" using mq_find_iff [OF ok k, of i] i by simp_all
  define t where "t = upd_mq i g s1"
  let ?m = "g (mq_table s ! i)"
  have st: "sem_table t = sem_table s" "sem_count t = sem_count s" "mq_table t = (mq_table s)[i := ?m]"
    "mq_count t = mq_count s" "task_table t = task_table s1" "sched_inv t rq' = sched_inv s1 rq'"
    by (simp_all add: m t_def)
  have we: "wait_ends t = (wait_ends s)[64 + i := rp, 80 + i := sp]"
    using wait_ends_upd_mq [of s1 i g] i16 len g by (simp add: m t_def)
  have nth: "mq_table t ! j = (if j = i then ?m else mq_table s ! j)" for j
    unfolding st(3) using i16(1) len(1) by (auto simp: nth_upd)
  have id: "mq_id (mq_table t ! j) = mq_id (mq_table s ! j)" for j unfolding nth using g(1) by simp
  have "length (mq_table t) = 16" using len by (simp add: st(3))
  moreover have "mq_ok (mq_table t ! j)" if "j < 16" for j
    unfolding nth using ok that g(2) by (simp add: mqs_ok_def)
  ultimately have ok': "mqs_ok (mq_table t) (mq_count t)" using ok len by (simp add: mqs_ok_def id st(4))
  have sok: "sems_ok (sem_table t) (sem_count t) qs'"
    using ipc_invD(3) [OF inv] qs by (simp add: st(1,2) sems_ok_def)
  have "ipc_inv t rq' qs'"
    using assms(5) w ok' sok by (simp add: ipc_inv_def we st(5,6))
  moreover have "sem_kept s qs l t qs'"
  proof -
    have "sem_find n t = sem_find n s" for n by (simp add: sem_find_def st(1))
    moreover have "j < 64" if "0 \<le> n" "sem_find n s = Some j" for n j
      using sem_find_iff [OF ipc_invD(3) [OF inv] that(1)] that(2) by blast
    ultimately show ?thesis using qs l(1) unfolding sem_kept_def sem_balance_def st(1) by simp metis
  qed
  moreover have "mq_kept s l t"
    unfolding mq_kept_def
  proof (intro allI impI)
    fix n j
    assume a: "0 \<le> n \<and> mq_find n s = Some j \<and> l \<noteq> MqDestroyed n"
    then have j: "j < 16" "mq_id (mq_table s ! j) = n" "0 \<le> n" using mq_find_iff [OF ok] by auto
    have u: "\<forall>i<16. \<forall>j<16. 0 \<le> mq_id (mq_table s ! i) \<and> mq_id (mq_table s ! i) = mq_id (mq_table s ! j) \<longrightarrow> i = j"
      using ok by (simp add: mqs_ok_def)
    have "mq_find n t = Some j" using mq_find_iff [OF ok' j(3)] j(1,2) id by blast
    moreover have "mq_contents (mq_table s ! j) @ mq_sent n l = mq_received n l @ mq_contents (mq_table t ! j)"
    proof (cases "j = i")
      case True
      then show ?thesis using c i16 j(2) by (simp only: nth) simp
    next
      case False
      have "n \<noteq> k" using u [rule_format, of i j] False i16 j k by auto
      then show ?thesis using l(2) False by (simp only: nth) simp
    qed
    ultimately show "mq_find n t = Some j \<and>
        mq_contents (mq_table s ! j) @ mq_sent n l = mq_received n l @ mq_contents (mq_table t ! j)" ..
  qed
  ultimately show "ipc_inv (upd_mq i g s1) rq' qs'" "sem_kept s qs l (upd_mq i g s1) qs'" "mq_kept s l (upd_mq i g s1)"
    by (simp_all add: t_def)
qed


lemma mq_queue:
  assumes inv: "ipc_inv s rq qs" and "0 \<le> k" and "mq_find k s = Some i"
  shows "i < 16" "64 + i < length (wait_ends s)" "80 + i < length (wait_ends s)"
    "wait_ends s ! (64 + i) = (recv_wait_head (mq_table s ! i), recv_wait_tail (mq_table s ! i))"
    "wait_ends s ! (80 + i) = (send_wait_head (mq_table s ! i), send_wait_tail (mq_table s ! i))"
    "mq_ok (mq_table s ! i)"
    "(wait_ends s)[64 + i := wait_ends s ! (64 + i), 80 + i := wait_ends s ! (80 + i)] = wait_ends s"
proof -
  note ok = ipc_invD(5) [OF inv]
  show i: "i < 16" using mq_find_iff [OF ok assms(2), of i] assms(3) by simp
  show "64 + i < length (wait_ends s)" "80 + i < length (wait_ends s)" using i ipc_invD(7) [OF inv] by simp_all
  show "wait_ends s ! (64 + i) = (recv_wait_head (mq_table s ! i), recv_wait_tail (mq_table s ! i))"
    "wait_ends s ! (80 + i) = (send_wait_head (mq_table s ! i), send_wait_tail (mq_table s ! i))"
    using wait_ends_nth(3,4) [OF ipc_invD(6,4) [OF inv] i] by simp_all
  show "mq_ok (mq_table s ! i)" using ok i by (simp add: mqs_ok_def)
qed simp

lemma set_ends_simps [simp]:
  "mq_id (set_ends b h t m) = mq_id m" "mq_ok (set_ends b h t m) = mq_ok m" "mq_contents (set_ends b h t m) = mq_contents m"
  by (simp_all add: set_ends_def mq_ok_def mq_contents_def)

lemma mq_ends:
  assumes inv: "ipc_inv s rq qs" and "0 \<le> k" and "mq_find k s = Some i"
  shows "end_index b i < length (wait_ends s)" "wait_ends s ! end_index b i = ends_of b (mq_table s ! i)" "\<not> end_index b i < 64"
    "(wait_ends s)[64 + i := (recv_wait_head (set_ends b h t (mq_table s ! i)), recv_wait_tail (set_ends b h t (mq_table s ! i))),
       80 + i := (send_wait_head (set_ends b h t (mq_table s ! i)), send_wait_tail (set_ends b h t (mq_table s ! i)))]
     = (wait_ends s)[end_index b i := (h, t)]"
proof -
  note q = mq_queue [OF assms]
  show "end_index b i < length (wait_ends s)" "wait_ends s ! end_index b i = ends_of b (mq_table s ! i)" "\<not> end_index b i < 64"
    using q by (simp_all add: end_index_def ends_of_def)
  show "(wait_ends s)[64 + i := (recv_wait_head (set_ends b h t (mq_table s ! i)), recv_wait_tail (set_ends b h t (mq_table s ! i))),
       80 + i := (send_wait_head (set_ends b h t (mq_table s ! i)), send_wait_tail (set_ends b h t (mq_table s ! i)))]
     = (wait_ends s)[end_index b i := (h, t)]"
    unfolding set_ends_def end_index_def using q(4,5)
    by (auto simp: list_update_swap list_update_same_conv q(2,3) nth_list_update_neq)
qed

text \<open>Replacing the ends of one wait queue after a change that affected only that queue.\<close>

lemma mq_ends_inv:
  assumes inv: "ipc_inv s rq qs" and k: "0 \<le> k" and i: "mq_find k s = Some i" and more: "sched.more s1 = sched.more s"
    and "sched_inv s1 rq'" and w: "waits_ok (task_table s1) ((wait_ends s)[end_index b i := (h, t)]) (qs[end_index b i := xs])"
  shows "ipc_inv (upd_mq i (set_ends b h t) s1) rq' (qs[end_index b i := xs])"
    "sem_kept s qs Internal (upd_mq i (set_ends b h t) s1) (qs[end_index b i := xs])"
    "mq_kept s Internal (upd_mq i (set_ends b h t) s1)"
proof -
  note e = mq_ends [OF inv k i]
  have q: "(qs[end_index b i := xs]) ! j = qs ! j" if "j < 64" for j using that e(3) [of b] by (auto simp: nth_list_update_neq)
  note u = upd_mq_inv [OF inv k i more assms(5) w [folded e(4)] q, where g = "set_ends b h t" and l = Internal]
  show "ipc_inv (upd_mq i (set_ends b h t) s1) rq' (qs[end_index b i := xs])"
    "sem_kept s qs Internal (upd_mq i (set_ends b h t) s1) (qs[end_index b i := xs])"
    "mq_kept s Internal (upd_mq i (set_ends b h t) s1)"
    using u mq_queue(6) [OF inv k i] by simp_all
qed

lemma mq_block:
  assumes inv: "ipc_inv s rq qs" and run: "running s" and k: "0 \<le> k" and i: "mq_find k s = Some i" and c: "current_task s = Some c"
    and more: "machine.more s0 = machine.more s"
    and j: "wait_join (fst (ends_of b (mq_table s ! i))) (snd (ends_of b (mq_table s ! i))) c s0 = ((h, t), s1)"
  shows "\<exists>qs'. ipc_inv (upd_mq i (set_ends b h t) s1) rq qs' \<and> sem_kept s qs Internal (upd_mq i (set_ends b h t) s1) qs'
    \<and> mq_kept s Internal (upd_mq i (set_ends b h t) s1)"
proof -
  note e = mq_ends [OF inv k i] and m = more_fields [OF more]
  have c': "c \<notin> set (concat qs)" using running_cur [OF inv run] c by (metis option.inject)
  have s0: "sched_inv s0 rq" "current_task s0 = Some c" "waits_ok (task_table s0) (wait_ends s) qs"
    using ipc_invD(1,2) [OF inv] sched_inv_more [OF more] c by (simp_all add: m)
  note p = wait_join_props [OF s0 e(1) c' j [folded e(2)]]
  have "sched.more s1 = sched.more s" using p(3) machine_more_sched [OF more] by simp
  from mq_ends_inv [OF inv k i this p(1,2)] show ?thesis by blast
qed

lemma mq_wake:
  assumes inv: "ipc_inv s rq qs" and run: "running s" and k: "0 \<le> k" and i: "mq_find k s = Some i"
    and w: "fst (ends_of b (mq_table s ! i)) = Some x"
    and wf: "wake_first (fst (ends_of b (mq_table s ! i))) (snd (ends_of b (mq_table s ! i))) s = ((h, t), s1)"
  shows "\<exists>rq' qs'. ipc_inv (upd_mq i (set_ends b h t) s1) rq' qs' \<and> sem_kept s qs Internal (upd_mq i (set_ends b h t) s1) qs'
    \<and> mq_kept s Internal (upd_mq i (set_ends b h t) s1)"
proof -
  note e = mq_ends [OF inv k i] and wt = ipc_invD(2) [OF inv]
  let ?e = "end_index b i"
  have "queue_rep (task_table s) (Some x) (snd (ends_of b (mq_table s ! i))) (qs ! ?e)"
    using waits_okD(2) [OF wt e(1) [of b]] w by (simp add: e(2))
  then obtain xs where xs: "qs ! ?e = x # xs" by (cases "qs ! ?e") (auto simp: queue_rep_def)
  obtain c where c: "current_task s = Some c" "c \<notin> set (concat qs)" by (rule running_cur [OF inv run])
  have cx: "current_task s \<noteq> Some x" using c in_other_queue [OF wt e(1) [of b], of x] xs by auto
  note p = wake_first_props [OF ipc_invD(1) [OF inv] wt e(1) xs cx wf [folded e(2)]]
  from mq_ends_inv [OF inv k i p(3,1,2)] show ?thesis by blast
qed

lemma vread_length: "vread p n s = Inr bs \<Longrightarrow> length bs = n"
  by (induction n arbitrary: p bs) (auto simp: bind_res_Inr_iff)

lemma more_vwrite: "vwrite p bs s = Inr s' \<Longrightarrow> machine.more s' = machine.more s"
proof (induction bs arbitrary: p s)
  case (Cons b bs)
  then obtain s1 where "vstore8 p b s = Inr s1" "vwrite (p + 1) bs s1 = Inr s'" by (auto simp: bind_res_Inr_iff)
  then show ?case using Cons.IH vstore8_only by fastforce
qed simp

lemma unat_le_64: "unat (if MSG_MAX_DATA < len then MSG_MAX_DATA else len) \<le> 64"
  by (simp add: MSG_MAX_DATA_def word_less_nat_alt not_less)

lemma set_ends_eq:
  "(\<lambda>m. m\<lparr>recv_wait_head := h, recv_wait_tail := t\<rparr>) = set_ends True h t"
  "(\<lambda>m. m\<lparr>send_wait_head := h, send_wait_tail := t\<rparr>) = set_ends False h t"
  by (simp_all add: set_ends_def fun_eq_iff)

lemma kept_klog [simp]:
  "sem_kept s qs l (klog fm as s') qs' = sem_kept s qs l s' qs'" "mq_kept s l (klog fm as s') = mq_kept s l s'"
  by (simp_all add: sem_kept_def mq_kept_def sem_find_def mq_find_def sem_balance_def)

text \<open>A wake-up that follows a labelled change of the queue.\<close>

lemma mq_then_wake:
  assumes inv: "ipc_inv s1 rq1 qs1" and kept: "sem_kept s qs l s1 qs1" "mq_kept s l s1" and run: "running s1"
    and k: "0 \<le> k" and i: "mq_find k s1 = Some i"
    and s': "s' = (case fst (ends_of b (mq_table s1 ! i)) of None \<Rightarrow> s1
      | Some x \<Rightarrow> (let ((h, t), s2) = wake_first (fst (ends_of b (mq_table s1 ! i))) (snd (ends_of b (mq_table s1 ! i))) s1
          in klog fm (as x (upd_mq i (set_ends b h t) s2)) (upd_mq i (set_ends b h t) s2)))"
  shows "\<exists>rq' qs'. ipc_inv s' rq' qs' \<and> sem_kept s qs l s' qs' \<and> mq_kept s l s'"
proof (cases "fst (ends_of b (mq_table s1 ! i))")
  case None
  then show ?thesis using inv kept s' by auto
next
  case (Some x)
  obtain h t s2 where w: "wake_first (fst (ends_of b (mq_table s1 ! i))) (snd (ends_of b (mq_table s1 ! i))) s1 = ((h, t), s2)"
    by (metis prod.collapse)
  from mq_wake [OF inv run k i Some w] obtain rq' qs' where
    m: "ipc_inv (upd_mq i (set_ends b h t) s2) rq' qs'" "sem_kept s1 qs1 Internal (upd_mq i (set_ends b h t) s2) qs'"
    "mq_kept s1 Internal (upd_mq i (set_ends b h t) s2)"
    by blast
  have "s' = klog fm (as x (upd_mq i (set_ends b h t) s2)) (upd_mq i (set_ends b h t) s2)"
    unfolding s' by (simp add: Some w [unfolded Some])
  then show ?thesis
    using m(1) kept_trans [OF kept(1) m(2) kept(2) m(3), of l] by auto
qed

lemma running_simps [simp]: "running (upd_mq i g s) = running s" "running (klog fm as s) = running s"
  by (simp_all add: running_def split: option.splits)

lemma mq_send_step:
  assumes inv: "ipc_inv s rq qs" and run: "running s" and snd: "msg_queue_send k data len s = Inr (r, s')"
  shows "\<exists>rq' qs' l. ipc_inv s' rq' qs' \<and> sem_kept s qs l s' qs' \<and> mq_kept s l s'
    \<and> (if r = Done 0 then \<exists>bs. vread data (unat (if MSG_MAX_DATA < len then MSG_MAX_DATA else len)) s = Inr bs \<and> l = MqSent k bs
       else l = Internal)"
proof (cases "(k < 0 \<or> data = 0) \<or> mq_find k s = None")
  case True
  then have "r = Done (-1)" "s' = s" using snd by (auto simp: msg_queue_send_def split: if_splits)
  moreover have "sem_kept s qs Internal s qs" "mq_kept s Internal s" by (simp_all add: sem_kept_def mq_kept_def)
  ultimately show ?thesis using inv by auto
next
  case False
  then obtain i where i: "mq_find k s = Some i" and k: "0 \<le> k" by auto
  note q = mq_queue [OF inv k i]
  let ?m = "mq_table s ! i"
  let ?len = "if MSG_MAX_DATA < len then MSG_MAX_DATA else len"
  obtain c where c: "current_task s = Some c" by (rule running_cur [OF inv run])
  have rd: "mq_send_round i k data ?len s = Inr (r, s')" using snd False i by (simp add: msg_queue_send_def)
  show ?thesis
  proof (cases "MSGQUEUE_SIZE \<le> mq_num ?m")
    case True
    define s0 where "s0 = klogln ''[ipc] mq %d full, task %d BLOCKED on send'' [AI k, AI (pid (task_table s ! c))] s"
    obtain h t s1 where j: "wait_join (send_wait_head ?m) (send_wait_tail ?m) c s0 = ((h, t), s1)" by (metis prod.collapse)
    have s': "s' = upd_mq i (set_ends False h t) s1" "r = Blocked"
      using rd True c j by (auto simp: mq_send_round_def Let_def s0_def set_ends_eq)
    have "machine.more s0 = machine.more s" by (simp add: s0_def)
    from mq_block [OF inv run k i c this, of False h t s1] j show ?thesis
      by (auto simp: s' ends_of_def)
  next
    case space: False
    then obtain bs where bs: "vread data (unat ?len) s = Inr bs" using rd by (auto simp: mq_send_round_def Let_def bind_res_Inr_iff)
    have st: "mq_ok (mq_store ?len bs ?m)" "mq_contents (mq_store ?len bs ?m) = mq_contents ?m @ [bs]"
      using mq_store_ok [OF q(6), of bs ?len] vread_length [OF bs] unat_le_64 [of len] space by (simp_all add: MSGQUEUE_SIZE_def)
    have f: "mq_id (mq_store l bs m) = mq_id m" "recv_wait_head (mq_store l bs m) = recv_wait_head m"
      "recv_wait_tail (mq_store l bs m) = recv_wait_tail m" "send_wait_head (mq_store l bs m) = send_wait_head m"
      "send_wait_tail (mq_store l bs m) = send_wait_tail m" for l bs m
      by (simp_all add: mq_store_def Let_def)
    define s1 where "s1 = upd_mq i (mq_store ?len bs) s"
    have w: "waits_ok (task_table s) ((wait_ends s)[64 + i := wait_ends s ! (64 + i), 80 + i := wait_ends s ! (80 + i)]) qs"
      using ipc_invD(2) [OF inv] by (simp only: q(7))
    note u = upd_mq_inv [OF inv k i refl ipc_invD(1) [OF inv] w refl, where g = "mq_store ?len bs" and l = "MqSent k bs", folded s1_def]
    have s1: "ipc_inv s1 rq qs" "sem_kept s qs (MqSent k bs) s1 qs" "mq_kept s (MqSent k bs) s1"
      using u st by (simp_all add: f q(4,5) mq_sent_def mq_received_def sem_delta_def)
    have i1: "mq_find k s1 = Some i" using mq_keptD [OF s1(3) k i] by simp
    have run1: "running s1" using run by (simp add: s1_def)
    have "r = Done 0 \<and> s' = (case fst (ends_of True (mq_table s1 ! i)) of None \<Rightarrow> s1
      | Some x \<Rightarrow> (let ((h, t), s2) = wake_first (fst (ends_of True (mq_table s1 ! i))) (snd (ends_of True (mq_table s1 ! i))) s1
          in klogln ''[ipc] mq %d: waking recv task %d'' [AI k, AI (pid (task_table (upd_mq i (set_ends True h t) s2) ! x))]
             (upd_mq i (set_ends True h t) s2)))"
      using rd space unfolding mq_send_round_def Let_def bs bind_res.simps s1_def [symmetric]
      by (auto simp: ends_of_def set_ends_eq split: option.splits prod.splits)
    then show ?thesis
      using mq_then_wake [OF s1 run1 k i1, where b = True and fm = "''[ipc] mq %d: waking recv task %d'' @ [LF]"
          and as = "\<lambda>x s. [AI k, AI (pid (task_table s ! x))]"] bs by auto
  qed
qed

lemma mq_recv_step:
  assumes inv: "ipc_inv s rq qs" and run: "running s" and rcv: "msg_queue_recv k buf lp s = Inr (r, s')"
  shows "\<exists>rq' qs' l. ipc_inv s' rq' qs' \<and> sem_kept s qs l s' qs' \<and> mq_kept s l s'
    \<and> (if r = Done 0 then \<exists>i. mq_find k s = Some i \<and> l = MqReceived k (payload (fst (mq_take (mq_table s ! i))))
       else l = Internal)"
proof (cases "(k < 0 \<or> buf = 0 \<or> lp = 0) \<or> mq_find k s = None")
  case True
  then have "r = Done (-1)" "s' = s" using rcv by (auto simp: msg_queue_recv_def split: if_splits)
  moreover have "sem_kept s qs Internal s qs" "mq_kept s Internal s" by (simp_all add: sem_kept_def mq_kept_def)
  ultimately show ?thesis using inv by auto
next
  case False
  then obtain i where i: "mq_find k s = Some i" and k: "0 \<le> k" by auto
  note q = mq_queue [OF inv k i]
  let ?m = "mq_table s ! i"
  obtain c where c: "current_task s = Some c" by (rule running_cur [OF inv run])
  have rd: "mq_recv_round i k buf lp s = Inr (r, s')" using rcv False i by (simp add: msg_queue_recv_def)
  show ?thesis
  proof (cases "mq_num ?m \<le> 0")
    case True
    define s0 where "s0 = klogln ''[ipc] mq %d empty, task %d BLOCKED on recv'' [AI k, AI (pid (task_table s ! c))] s"
    obtain h t s1 where j: "wait_join (recv_wait_head ?m) (recv_wait_tail ?m) c s0 = ((h, t), s1)" by (metis prod.collapse)
    have s': "s' = upd_mq i (set_ends True h t) s1" "r = Blocked"
      using rd True c j by (auto simp: mq_recv_round_def Let_def s0_def set_ends_eq)
    have "machine.more s0 = machine.more s" by (simp add: s0_def)
    from mq_block [OF inv run k i c this, of True h t s1] j show ?thesis
      by (auto simp: s' ends_of_def)
  next
    case some: False
    obtain g m' where tk: "mq_take ?m = (g, m')" by (cases "mq_take ?m")
    note t = mq_take_ok [OF q(6) _ tk]
    have m': "mq_id m' = mq_id ?m" "recv_wait_head m' = recv_wait_head ?m" "recv_wait_tail m' = recv_wait_tail ?m"
      "send_wait_head m' = send_wait_head ?m" "send_wait_tail m' = send_wait_tail ?m"
      using tk by (auto simp: mq_take_def)
    obtain sa sb where sab: "vstore32 lp (msg_len g) s = Inr sa" "vwrite buf (take (unat (msg_len g)) (msg_data g)) sa = Inr sb"
      using rd some tk by (auto simp: mq_recv_round_def Let_def bind_res_Inr_iff)
    have mb: "machine.more sb = machine.more s" using more_vwrite [OF sab(2)] more_vstore32 [OF sab(1)] by simp
    note f = more_fields [OF mb] and f' = sched_more_fields [OF machine_more_sched [OF mb]]
    define s1 where "s1 = upd_mq i (\<lambda>_. m') sb"
    have w: "waits_ok (task_table sb) ((wait_ends s)[64 + i := wait_ends s ! (64 + i), 80 + i := wait_ends s ! (80 + i)]) qs"
      using ipc_invD(2) [OF inv] by (simp only: q(7) f)
    have sib: "sched_inv sb rq" using sched_inv_more [OF mb] ipc_invD(1) [OF inv] by simp
    note u = upd_mq_inv [OF inv k i machine_more_sched [OF mb] sib w refl, where g = "\<lambda>_. m'" and l = "MqReceived k (payload g)",
        folded s1_def]
    have s1: "ipc_inv s1 rq qs" "sem_kept s qs (MqReceived k (payload g)) s1 qs" "mq_kept s (MqReceived k (payload g)) s1"
      using u t some by (simp_all add: m' q(4,5) mq_sent_def mq_received_def sem_delta_def)
    have i1: "mq_find k s1 = Some i" using mq_keptD [OF s1(3) k i] by simp
    have run1: "running s1" using run by (simp add: s1_def) (simp add: running_def f split: option.splits)
    have "r = Done 0 \<and> s' = (case fst (ends_of False (mq_table s1 ! i)) of None \<Rightarrow> s1
      | Some x \<Rightarrow> (let ((h, t), s2) = wake_first (fst (ends_of False (mq_table s1 ! i))) (snd (ends_of False (mq_table s1 ! i))) s1
          in klogln ''[ipc] mq %d: waking send task %d'' [AI k, AI (pid (task_table (upd_mq i (set_ends False h t) s2) ! x))]
             (upd_mq i (set_ends False h t) s2)))"
      using rd some unfolding mq_recv_round_def Let_def tk prod.case sab bind_res.simps s1_def [symmetric]
      by (auto simp: ends_of_def set_ends_eq split: option.splits prod.splits)
    then show ?thesis
      using mq_then_wake [OF s1 run1 k i1, where b = False and fm = "''[ipc] mq %d: waking send task %d'' @ [LF]"
          and as = "\<lambda>x s. [AI k, AI (pid (task_table s ! x))]"] i tk by auto
  qed
qed

text \<open>A slot of the queue table reset to an empty queue with a new identifier, or none.\<close>

lemma mq_reset_inv:
  assumes inv: "ipc_inv s rq qs" and i: "i < 16" and more: "sched.more s1 = sched.more s" and "sched_inv s1 rq'"
    and w: "waits_ok (task_table s1) ((wait_ends s)[64 + i := (None, None), 80 + i := (None, None)]) (qs[64 + i := [], 80 + i := []])"
    and s': "s' = (upd_mq i (\<lambda>m. m\<lparr>mq_id := n, mq_head := 0, mq_tail := 0, mq_num := 0, recv_wait_head := None,
        recv_wait_tail := None, send_wait_head := None, send_wait_tail := None\<rparr>) s1)\<lparr>mq_count := cnt\<rparr>"
    and n: "n = -1 \<and> cnt = mq_count s \<or> n = mq_count s \<and> cnt = mq_count s + 1"
    and l: "mq_id (mq_table s ! i) < 0 \<and> l = Internal \<or> l = MqDestroyed (mq_id (mq_table s ! i))"
  shows "ipc_inv s' rq' (qs[64 + i := [], 80 + i := []])" "sem_kept s qs l s' (qs[64 + i := [], 80 + i := []])" "mq_kept s l s'"
proof -
  note ok = ipc_invD(5) [OF inv] and len = ipc_invD(4,6-8) [OF inv] and m = sched_more_fields [OF more]
  let ?g = "\<lambda>m. m\<lparr>mq_id := n, mq_head := 0, mq_tail := 0, mq_num := 0, recv_wait_head := None,
        recv_wait_tail := None, send_wait_head := None, send_wait_tail := None\<rparr>"
  let ?qs = "qs[64 + i := [], 80 + i := []]"
  have st: "sem_table s' = sem_table s" "sem_count s' = sem_count s" "mq_table s' = (mq_table s)[i := ?g (mq_table s ! i)]"
    "mq_count s' = cnt" "task_table s' = task_table s1"
    by (simp_all add: s' m)
  have si: "sched_inv s' rq'" using assms(4) upd_mq_simps(7) [of i ?g s1 rq'] by (simp add: s' sched_inv_def del: upd_mq_simps)
  have we: "wait_ends s' = (wait_ends s)[64 + i := (None, None), 80 + i := (None, None)]"
    using wait_ends_upd_mq [of s1 i ?g] i len by (simp add: s' m) (simp add: wait_ends_def)
  have nth: "mq_table s' ! j = (if j = i then ?g (mq_table s ! i) else mq_table s ! j)" for j
    unfolding st(3) using i len(1) by (auto simp: nth_upd)
  have fresh: "mq_id (mq_table s ! j) < mq_count s" "mq_ok (mq_table s ! j)" if "j < 16" for j using ok that by (auto simp: mqs_ok_def)
  have u: "\<forall>i<16. \<forall>j<16. 0 \<le> mq_id (mq_table s ! i) \<and> mq_id (mq_table s ! i) = mq_id (mq_table s ! j) \<longrightarrow> i = j"
    and cnt0: "0 \<le> mq_count s"
    using ok by (auto simp: mqs_ok_def)
  have "mq_ok (mq_table s' ! j) \<and> mq_id (mq_table s' ! j) < cnt" if "j < 16" for j
    unfolding nth using fresh [OF that] fresh [OF i] n cnt0 by (auto simp: mq_ok_def)
  moreover have "a = j" if "a < 16" "j < 16" "0 \<le> mq_id (mq_table s' ! a)" "mq_id (mq_table s' ! a) = mq_id (mq_table s' ! j)" for a j
    using that(3,4) u [rule_format, of a j] fresh(1) [OF that(1)] fresh(1) [OF that(2)] that(1,2) n
    unfolding nth by (auto split: if_splits)
  moreover have "0 \<le> cnt" "length (mq_table s') = 16" using ok n len by (auto simp: mqs_ok_def st(3))
  ultimately have ok': "mqs_ok (mq_table s') (mq_count s')" unfolding mqs_ok_def st(4) by blast
  have qs: "?qs ! j = qs ! j" if "j < 64" for j using that by simp
  then have "sems_ok (sem_table s') (sem_count s') ?qs" using ipc_invD(3) [OF inv] by (simp add: st(1,2) sems_ok_def)
  then show "ipc_inv s' rq' ?qs" using si w ok' by (simp add: ipc_inv_def we st(5))
  have ld: "sem_delta j l = 0" "l \<noteq> SemDestroyed j" for j using l by (auto simp: sem_delta_def)
  show "sem_kept s qs l s' ?qs"
    unfolding sem_kept_def
  proof (intro allI impI)
    fix a j
    assume x: "0 \<le> a \<and> sem_find a s = Some j \<and> l \<noteq> SemDestroyed a"
    then have "j < 64" using sem_find_iff [OF ipc_invD(3) [OF inv]] by blast
    then have "?qs ! j = qs ! j" by (rule qs)
    then show "sem_find a s' = Some j \<and> sem_balance s' ?qs j = sem_balance s qs j + sem_delta a l"
      using x ld unfolding sem_balance_def st(1) by (simp add: sem_find_def st(1) del: One_nat_def)
  qed
  show "mq_kept s l s'"
    unfolding mq_kept_def
  proof (intro allI impI)
    fix a j
    assume x: "0 \<le> a \<and> mq_find a s = Some j \<and> l \<noteq> MqDestroyed a"
    then have j: "j < 16" "mq_id (mq_table s ! j) = a" "0 \<le> a" using mq_find_iff [OF ok] by auto
    then have "j \<noteq> i" using l x by auto
    moreover have "mq_find a s' = Some j" using mq_find_iff [OF ok' j(3)] j(1,2) calculation nth by simp
    ultimately show "mq_find a s' = Some j \<and> mq_contents (mq_table s ! j) @ mq_sent a l
        = mq_received a l @ mq_contents (mq_table s' ! j)"
      using l by (auto simp: nth mq_sent_def mq_received_def)
  qed
qed

lemma upd_mq_count: "upd_mq i g (s\<lparr>mq_count := n\<rparr>) = (upd_mq i g s)\<lparr>mq_count := n\<rparr>"
  by (cases s) (simp add: upd_mq_def)

lemma mq_create_step:
  assumes inv: "ipc_inv s rq qs" and cr: "msg_queue_create s = (k, s')"
  shows "\<exists>rq' qs'. ipc_inv s' rq' qs' \<and> sem_kept s qs Internal s' qs' \<and> mq_kept s Internal s'"
proof (cases "mq_find_slot s < 0")
  case True
  then obtain fm as where "s' = klog fm as s" using cr by (auto simp: msg_queue_create_def Let_def)
  moreover have "sem_kept s qs Internal s qs" "mq_kept s Internal s" by (simp_all add: sem_kept_def mq_kept_def)
  ultimately show ?thesis using inv by (intro exI [of _ rq] exI [of _ qs]) simp
next
  case False
  note ok = ipc_invD(5) [OF inv] and len = ipc_invD(4,6-8) [OF inv] and w = ipc_invD(2) [OF inv]
  obtain i where i: "find_first (\<lambda>m. mq_id m < 0) (mq_table s) = Some i"
    using False by (cases "find_first (\<lambda>m. mq_id m < 0) (mq_table s)") (auto simp: mq_find_slot_def)
  have i16: "i < 16" "mq_id (mq_table s ! i) < 0" "nat (mq_find_slot s) = i"
    using find_first_SomeD(1,2) [OF i] len i by (auto simp: mq_find_slot_def)
  let ?g = "\<lambda>m. m\<lparr>mq_id := mq_count s, mq_head := 0, mq_tail := 0, mq_num := 0, recv_wait_head := None,
        recv_wait_tail := None, send_wait_head := None, send_wait_tail := None\<rparr>"
  obtain fm as where s': "s' = klog fm as ((upd_mq i ?g s)\<lparr>mq_count := mq_count s + 1\<rparr>)"
    using cr False i16(3) by (auto simp: msg_queue_create_def Let_def upd_mq_count)
  have w1: "waits_ok (task_table s) ((wait_ends s)[64 + i := (None, None)]) (qs[64 + i := []])"
    by (rule waits_ok_replace [OF w]) (use i16 len in \<open>auto simp: queue_rep_def\<close>)
  have w2: "waits_ok (task_table s) ((wait_ends s)[64 + i := (None, None), 80 + i := (None, None)]) (qs[64 + i := [], 80 + i := []])"
    by (rule waits_ok_replace [OF w1]) (use i16 len in \<open>auto simp: queue_rep_def\<close>)
  from mq_reset_inv [OF inv i16(1) refl ipc_invD(1) [OF inv] w2 refl, of "mq_count s" "mq_count s + 1" Internal] i16(2)
  show ?thesis by (auto simp: s')
qed

lemma mq_destroy_cases:
  assumes inv: "ipc_inv s rq qs" and run: "running s"
  shows "\<exists>r s' rq' qs'. msg_queue_destroy k s = Some (r, s') \<and> ipc_inv s' rq' qs' \<and> sem_kept s qs (MqDestroyed k) s' qs'
    \<and> mq_kept s (MqDestroyed k) s' \<and> (r = -1 \<and> s' = s \<and> (k < 0 \<or> mq_find k s = None)
      \<or> r = 0 \<and> 0 \<le> k \<and> (\<exists>i. mq_find k s = Some i \<and> rq' = rq @ qs ! (64 + i) @ qs ! (80 + i)))"
proof (cases "0 \<le> k \<and> mq_find k s \<noteq> None")
  case False
  then have "msg_queue_destroy k s = Some (-1, s)" "k < 0 \<or> mq_find k s = None" by (auto simp: msg_queue_destroy_def)
  moreover have "sem_kept s qs (MqDestroyed k) s qs" "mq_kept s (MqDestroyed k) s"
    by (simp_all add: sem_kept_def sem_delta_def mq_kept_def mq_sent_def mq_received_def)
  ultimately show ?thesis using inv by blast
next
  case True
  then obtain i where k: "0 \<le> k" and i: "mq_find k s = Some i" by auto
  note q = mq_queue [OF inv k i] and w = ipc_invD(2) [OF inv] and len = ipc_invD(4,6-8) [OF inv]
  let ?m = "mq_table s ! i"
  let ?m1 = "''[ipc] mq %d destroyed, waking recv task %d''" and ?m2 = "''[ipc] mq %d destroyed, waking send task %d''"
  have ik: "mq_id ?m = k" using mq_find_iff [OF ipc_invD(5) [OF inv] k, of i] i by simp
  obtain c where c: "current_task s = Some c" "c \<notin> set (concat qs)" by (rule running_cur [OF inv run])
  have "\<forall>j\<in>set (qs ! (64 + i)). current_task s \<noteq> Some j" using c in_other_queue [OF w q(2)] by auto
  from wake_all_props [OF ipc_invD(1) [OF inv] w q(2) refl this, of ?m1 k, unfolded q(4) fst_conv]
  obtain s1 where s1: "wake_all ?m1 k (recv_wait_head ?m) s = Some s1" "sched_inv s1 (rq @ qs ! (64 + i))"
    "waits_ok (task_table s1) ((wait_ends s)[64 + i := (None, None)]) (qs[64 + i := []])" "sched.more s1 = sched.more s"
    "current_task s1 = current_task s"
    by auto
  note f1 = sched_more_fields [OF s1(4)]
  have e2: "80 + i < length ((wait_ends s)[64 + i := (None, None)])" "(qs[64 + i := []]) ! (80 + i) = qs ! (80 + i)"
    "((wait_ends s)[64 + i := (None, None)]) ! (80 + i) = (send_wait_head ?m, send_wait_tail ?m)"
    using q(3,5) by simp_all
  have "\<forall>j\<in>set (qs ! (80 + i)). current_task s1 \<noteq> Some j" using c in_other_queue [OF w q(3)] s1(5) by auto
  from wake_all_props [OF s1(2,3) e2(1,2) this, of ?m2 k, unfolded e2(3) fst_conv]
  obtain s2 where s2: "wake_all ?m2 k (send_wait_head ?m) s1 = Some s2" "sched_inv s2 ((rq @ qs ! (64 + i)) @ qs ! (80 + i))"
    "waits_ok (task_table s2) ((wait_ends s)[64 + i := (None, None), 80 + i := (None, None)]) (qs[64 + i := [], 80 + i := []])"
    "sched.more s2 = sched.more s1"
    by auto
  let ?g = "\<lambda>m. m\<lparr>mq_id := -1, mq_head := 0, mq_tail := 0, mq_num := 0, recv_wait_head := None,
        recv_wait_tail := None, send_wait_head := None, send_wait_tail := None\<rparr>"
  have m2: "sched.more s2 = sched.more s" using s1(4) s2(4) by simp
  have cnt: "(upd_mq i ?g s2)\<lparr>mq_count := mq_count s\<rparr> = upd_mq i ?g s2"
    using sched_more_fields(4) [OF m2] by (simp add: upd_mq_def)
  define s' where "s' = klogln ''[ipc] msg queue %d destroyed'' [AI k] (upd_mq i ?g s2)"
  have d: "msg_queue_destroy k s = Some (0, s')"
    using k i s1(1) s2(1) by (simp add: msg_queue_destroy_def s'_def Let_def f1)
  from mq_reset_inv [OF inv q(1) m2 s2(2,3) refl, of "-1" "mq_count s" "MqDestroyed k"] ik
  have "ipc_inv s' (rq @ qs ! (64 + i) @ qs ! (80 + i)) (qs[64 + i := [], 80 + i := []])"
    "sem_kept s qs (MqDestroyed k) s' (qs[64 + i := [], 80 + i := []])" "mq_kept s (MqDestroyed k) s'"
    unfolding cnt by (simp_all add: s'_def)
  then show ?thesis using d k i by blast
qed

section \<open>Executions\<close>

theorem ipc_step_inv:
  assumes "ipc_step b s l s'" and inv: "ipc_inv s rq qs"
  shows "\<exists>rq' qs'. ipc_inv s' rq' qs' \<and> sem_kept s qs l s' qs' \<and> mq_kept s l s'"
proof -
  have mq: "mq_kept s l t" if "mq_table t = mq_table s" "\<And>k. mq_sent k l = [] \<and> mq_received k l = []" for t :: "'a ipc_scheme" and l
    using mq_kept_same that by blast
  from assms(1) show ?thesis
  proof cases
    case (s_sem_create nm v k)
    then show ?thesis using sem_create_step [OF inv] mq by fastforce
  next
    case (s_sem_wait k r)
    then show ?thesis using sem_wait_cases [OF inv] mq [of s' "SemWaited k r"] by (fastforce simp: mq_sent_def mq_received_def)
  next
    case (s_sem_post k r)
    then show ?thesis using sem_post_cases [OF inv] mq [of s' "SemPosted k r"] by (fastforce simp: mq_sent_def mq_received_def)
  next
    case (s_sem_destroy k r)
    then show ?thesis using sem_destroy_cases [OF inv, of k] mq [of s' "SemDestroyed k"] by (fastforce simp: mq_sent_def mq_received_def)
  next
    case (s_mq_send k data len bs)
    then show ?thesis using mq_send_step [OF inv s_mq_send(2,3)] by auto
  next
    case (s_mq_send_wait k data len r)
    then show ?thesis using mq_send_step [OF inv s_mq_send_wait(2,3)] by auto
  next
    case (s_mq_recv k buf lp i bs)
    then show ?thesis using mq_recv_step [OF inv s_mq_recv(2,3)] by auto
  next
    case (s_mq_recv_wait k buf lp r)
    then show ?thesis using mq_recv_step [OF inv s_mq_recv_wait(2,3)] by auto
  next
    case (s_mq_destroy k r)
    then show ?thesis using mq_destroy_cases [OF inv, of k] by auto
  next
    case (s_mq_create k)
    then show ?thesis using mq_create_step [OF inv] by blast
  next
    case (s_tick regs r)
    then show ?thesis using ipc_tick [OF inv] by metis
  next
    case (s_create nm entry p)
    then show ?thesis using ipc_create [OF inv] by metis
  next
    case (s_fork regs p)
    then show ?thesis using ipc_fork [OF inv] by metis
  next
    case (s_exit code)
    then show ?thesis using ipc_exit [OF inv] by metis
  next
    case (s_wait p r)
    then show ?thesis using ipc_wait [OF inv] by metis
  next
    case (s_wait_round p r)
    then show ?thesis using ipc_wait_round [OF inv] by metis
  qed
qed

end
