(* ===== verification/Sros_Sched_Props.thy ===== *)
theory Sros_Sched_Props
  imports Sros_Sched_Inv
begin

unbundle bit_operations_syntax

text \<open>The correctness properties of the scheduler and of process management.\<close>



text \<open>
  C17. Round robin: while only clock ticks happen, the task at position \<open>k\<close> of the ready queue runs
  after \<open>k + 1\<close> ticks, and it resumes from the register frame it was interrupted with.
\<close>

theorem ready_task_resumes:
  assumes "ticks s rs e s'" and "sched_inv s rq" and "current_task s = Some c"
    and "state (task_table s ! c) = TASK_RUNNING" and "length rs = Suc k" and "k < length rq"
  shows "e = kernel_esp (task_table s ! (rq ! k)) \<and> current_task s' = Some (rq ! k)"
  using resumes_at [OF assms] .

text \<open>
  After any number of ticks, the current task followed by the ready queue is the original one
  rotated by that number: no task is lost, duplicated or overtaken.
\<close>

theorem ticks_rotate:
  assumes "ticks s rs e s'" and "sched_inv s rq" and "current_task s = Some c"
    and "state (task_table s ! c) = TASK_RUNNING" and "1 < task_count s"
  shows "\<exists>c' rq'. current_task s' = Some c' \<and> sched_inv s' rq' \<and> c' # rq' = rotate (length rs) (c # rq)"
  using rotates [OF assms] by blast

lemma demo_ticks:
  obtains s' where "ticks (demo_sched (demo_task 0 (-1) TASK_RUNNING 0) (demo_task 1 0 TASK_READY 0x2000) [1])
     [0x1000] 0x2000 s'"
proof -
  let ?s = "demo_sched (demo_task 0 (-1) TASK_RUNNING 0) (demo_task 1 0 TASK_READY 0x2000) [1]"
  have i: "sched_inv ?s [1]" by (rule demo_inv) (simp_all add: demo_task_def)
  have c: "clock_frame 0x1000 ?s" by (rule demo_clock)
  have "\<exists>s'. scheduler_tick 0x1000 ?s = Inr (0x2000, s')"
    using tick_rotate [OF i _ _ _ _ c, of 0] by (auto simp: demo_sched_def demo_task_def task_consts)
  then show thesis using ticks_one [OF c] that by blast
qed

theorem ready_task_resumes_witness:
  "\<exists>s'. ticks (demo_sched (demo_task 0 (-1) TASK_RUNNING 0) (demo_task 1 0 TASK_READY 0x2000) [1])
     [0x1000] 0x2000 s' \<and> current_task s' = Some 1"
proof -
  let ?s = "demo_sched (demo_task 0 (-1) TASK_RUNNING 0) (demo_task 1 0 TASK_READY 0x2000) [1]"
  obtain s' where t: "ticks ?s [0x1000] 0x2000 s'" by (rule demo_ticks)
  have "sched_inv ?s [1]" by (rule demo_inv) (simp_all add: demo_task_def)
  with ready_task_resumes [OF t, of "[1]" 0 0] t show ?thesis
    by (auto simp: demo_sched_def demo_task_def)
qed

theorem ticks_rotate_witness:
  "\<exists>s' rq'. ticks (demo_sched (demo_task 0 (-1) TASK_RUNNING 0) (demo_task 1 0 TASK_READY 0x2000) [1])
     [0x1000] 0x2000 s' \<and> sched_inv s' rq' \<and> rq' = [0]"
proof -
  let ?s = "demo_sched (demo_task 0 (-1) TASK_RUNNING 0) (demo_task 1 0 TASK_READY 0x2000) [1]"
  obtain s' where t: "ticks ?s [0x1000] 0x2000 s'" by (rule demo_ticks)
  have "sched_inv ?s [1]" by (rule demo_inv) (simp_all add: demo_task_def)
  with ticks_rotate [OF t, of "[1]" 0] t show ?thesis
    by (auto simp: demo_sched_def demo_task_def)
qed


lemma unpaged:
  assumes "\<not> paging s"
  shows "vload32 a s = Inr (load32 (phys s) a)" "vstore32 a v s = Inr (s\<lparr>phys := store32 (phys s) a v\<rparr>)"
    "vload8 a s = Inr (phys s a)" "vstore8 a b s = Inr (s\<lparr>phys := (phys s)(a := b)\<rparr>)"
  using assms by (simp_all add: vload32_def vstore32_def vload8_def vstore8_def translate_def)

lemma unpaged_vmemcpy: "\<not> paging s \<Longrightarrow> \<exists>m. vmemcpy d p n s = Inr (s\<lparr>phys := m\<rparr>)"
proof (induction n arbitrary: d p s)
  case 0
  then show ?case by (auto intro: exI [of _ "phys s"])
next
  case (Suc n)
  obtain m where "vmemcpy (d + 1) (p + 1) n (s\<lparr>phys := (phys s)(d := phys s p)\<rparr>)
      = Inr (s\<lparr>phys := (phys s)(d := phys s p)\<rparr>\<lparr>phys := m\<rparr>)"
    using Suc.IH [of "s\<lparr>phys := (phys s)(d := phys s p)\<rparr>"] Suc.prems by auto
  then show ?case by (auto simp: unpaged [OF Suc.prems] intro: exI [of _ m])
qed

text \<open>Over cleared memory there is nothing to clone.\<close>

lemma clone_empty:
  assumes "\<not> paging s" and "phys s = (\<lambda>_. 0)"
  shows "fold_res (clone_pde k o_pd n_pd) is s = Inr s"
proof -
  have z: "store32 (\<lambda>_. 0) a 0 = (\<lambda>_. 0)" "load32 (\<lambda>_. 0) a = 0" for a
    by (simp_all add: store32_def load32_def fun_eq_iff)
  have "s\<lparr>phys := \<lambda>_. 0\<rparr> = s" using assms(2) by (cases s) simp
  then have "clone_pde k o_pd n_pd i s = Inr s" for i
    by (simp add: clone_pde_def Let_def unpaged [OF assms(1)] assms(2) z)
  then show ?thesis by (induction "is") simp_all
qed


lemma task_exit_parent:
  assumes "sched_inv s rq" and "current_task s = Some c" and "q < 64" and "q \<noteq> c"
    and "pid (task_table s ! q) = parent_pid (task_table s ! c)" and "0 \<le> parent_pid (task_table s ! c)"
    and "state (task_table s ! q) = TASK_BLOCKED"
  shows "sched_inv (task_exit code s) (rq @ [q]) \<and> state (task_table (task_exit code s) ! q) = TASK_READY
    \<and> state (task_table (task_exit code s) ! c) = TASK_ZOMBIE \<and> exit_code (task_table (task_exit code s) ! c) = code
    \<and> sched.more (task_exit code s) = sched.more s"
proof -
  have ok: "tasks_ok (task_table s) rq c (next_pid s) (task_count s)" using assms(1,2) by (simp add: sched_inv_cur)
  note t = tasks_okD [OF ok]
  define s0 where "s0 = klogln ''[sched] task %d (%s) exiting with code %d''
      [AI (pid (task_table s ! c)), AStr (name (task_table s ! c)), AI code] s"
  define s1 where "s1 = upd_task c (\<lambda>t. t\<lparr>exit_code := code, state := TASK_ZOMBIE\<rparr>) s0"
  have tab: "task_table s1 = (task_table s)[c := (task_table s ! c)\<lparr>exit_code := code, state := TASK_ZOMBIE\<rparr>]"
    by (simp add: s1_def s0_def)
  have "sched_inv s0 rq" using assms(1) by (simp add: s0_def)
  then have i1: "sched_inv s1 rq" unfolding s1_def by (rule upd_cur_inv) (simp_all add: s0_def assms(2))
  have pid: "pid (task_table s1 ! j) = pid (task_table s ! j)" for j by (simp add: tab nth_upd)
  have uniq: "\<forall>i<64. \<forall>j<64. 0 \<le> pid (task_table s ! i) \<and> pid (task_table s ! i) = pid (task_table s ! j) \<longrightarrow> i = j"
    using ok by (simp add: tasks_ok_def)
  have "find_first (\<lambda>t. pid t = parent_pid (task_table s ! c)) (task_table s1) = Some q"
  proof (rule find_first_unique)
    show "q < length (task_table s1)" using assms(3) t(1) by (simp add: tab)
    show "pid (task_table s1 ! q) = parent_pid (task_table s ! c)" using assms(5) by (simp add: pid)
    fix j
    assume "j < length (task_table s1)" "pid (task_table s1 ! j) = parent_pid (task_table s ! c)"
    then have "j < 64" "pid (task_table s ! j) = parent_pid (task_table s ! c)"
      using t(1) by (simp_all add: tab) (simp add: pid flip: tab)
    then show "j = q" using uniq [rule_format, of j q] assms(3,5,6) by simp
  qed
  then have fp: "task_from_pid (parent_pid (task_table s ! c)) s1 = Some q" by (simp add: task_from_pid_def)
  have z: "current_task s1 = Some c" "state (task_table s1 ! c) = TASK_ZOMBIE" "state (task_table s1 ! q) = TASK_BLOCKED"
    using assms(2,3,4,7) t(1,2) by (simp_all add: s1_def s0_def)
  have ex: "task_exit code s = klogln ''[sched] woke up parent %d'' [AI (parent_pid (task_table s ! c))] (task_wake (Some q) s1)"
    unfolding task_exit_def assms(2) option.case Let_def s0_def [symmetric] s1_def [symmetric]
    using fp z(3) assms(6) by (simp add: task_wake_def)
  note w = exit_wake_inv [OF i1 z(1,2) fp assms(6) z(3)]
  have "same_but_next ((task_table s1)[q := (task_table s1 ! q)\<lparr>state := TASK_READY\<rparr>]) (task_table (task_wake (Some q) s1))"
    using wake_inv(3) [OF i1 assms(3) blocked_outside [OF i1 z(3)]] z(1) assms(4,5,6) by (simp add: pid)
  note f = same_but_next_fields [OF this]
  have "sched.more (task_wake (Some q) s1) = sched.more s"
    by (simp add: task_wake_def enqueue_ready_def Let_def s1_def s0_def upd_task_def klog_def split: prod.splits)
  then show ?thesis using w t(1,2) assms(3,4) unfolding ex by (simp add: f tab) (simp add: klog_def)
qed



text \<open>
  C26. \<open>task_wait\<close> by a running task returns the pid of a zombie child, whose slot becomes free; or -1
  when the task has no matching child; or blocks the task, and only when it has a matching child and
  none of them is a zombie.
\<close>

theorem task_wait_result:
  assumes "sched_inv s rq" and "current_task s = Some c" and "state (task_table s ! c) = TASK_RUNNING"
    and "task_wait p s = Inr (r, s')"
  shows "sched_inv s' rq \<and>
    (case r of
       WaitDone k \<Rightarrow>
         (k = -1 \<and> (\<forall>i<64. \<not> is_child (pid (task_table s ! c)) p (task_table s ! i)) \<and> task_table s' = task_table s)
         \<or> (\<exists>i<64. k = pid (task_table s ! i) \<and> is_child (pid (task_table s ! c)) p (task_table s ! i)
              \<and> state (task_table s ! i) = TASK_ZOMBIE \<and> task_table s' = (task_table s)[i := free_task]
              \<and> task_count s' = task_count s - 1)
     | WaitBlocked \<Rightarrow>
         (\<exists>i<64. is_child (pid (task_table s ! c)) p (task_table s ! i))
         \<and> (\<forall>i<64. is_child (pid (task_table s ! c)) p (task_table s ! i) \<longrightarrow> state (task_table s ! i) \<noteq> TASK_ZOMBIE)
         \<and> state (task_table s' ! c) = TASK_BLOCKED)"
proof -
  have st: "state (task_table s ! c) \<noteq> TASK_ZOMBIE" using assms(3) by (simp add: task_consts)
  define s0 where "s0 = klogln ''[sched] task %d waiting for child pid=%d'' [AI (pid (task_table s ! c)), AI p] s"
  have tt: "task_table s0 = task_table s" "current_task s0 = Some c" "task_count s0 = task_count s"
    using assms(2) by (simp_all add: s0_def)
  have r: "task_wait_round p s0 = Inr (r, s')" using assms(2,4) by (simp add: task_wait_def s0_def)
  have i0: "sched_inv s0 rq" using assms(1) by (simp add: s0_def)
  have c: "c < length (task_table s)" using assms(1,2) by (auto simp: sched_inv_cur tasks_ok_def)
  have inv': "sched_inv s' rq" using task_wait_inv [OF assms(1,2) st assms(4)] .
  have st0: "state (task_table s0 ! c) \<noteq> TASK_ZOMBIE" using st by (simp add: tt)
  from task_wait_round_cases [OF i0 tt(2) st0 r, unfolded tt] show ?thesis
  proof (elim disjE exE conjE)
    fix i fm as s1
    assume a: "r = WaitDone (pid (task_table s ! i))" "i < 64" "is_child (pid (task_table s ! c)) p (task_table s ! i)"
      "state (task_table s ! i) = TASK_ZOMBIE" "machine.more s1 = machine.more s0"
      "s' = klog fm as ((upd_task i (\<lambda>t. free_task) s1)\<lparr>task_count := task_count s - 1\<rparr>)"
    have "task_table s' = (task_table s)[i := free_task]" "task_count s' = task_count s - 1"
      using more_fields(1) [OF a(5)] by (simp_all add: a(6) tt)
    then show ?thesis using inv' a(1-4) by auto
  next
    assume a: "r = WaitDone (- 1)" "\<forall>i<64. \<not> is_child (pid (task_table s ! c)) p (task_table s ! i)"
      "machine.more s' = machine.more s0"
    then show ?thesis using inv' more_fields(1) [OF a(3)] by (simp add: tt)
  next
    assume a: "r = WaitBlocked" "s' = upd_task c (\<lambda>t. t\<lparr>state := TASK_BLOCKED\<rparr>) s0"
    assume b: "\<forall>i<64. is_child (pid (task_table s ! c)) p (task_table s ! i) \<longrightarrow> state (task_table s ! i) \<noteq> TASK_ZOMBIE"
    fix i
    assume "i < 64" "is_child (pid (task_table s ! c)) p (task_table s ! i)"
    with a b c inv' show ?thesis by (auto simp: tt)
  qed
qed

theorem task_wait_result_witness:
  "\<exists>s'. task_wait (-1) (demo_sched (demo_task 0 (-1) TASK_RUNNING 0) (demo_task 1 0 TASK_ZOMBIE 0) [])
      = Inr (WaitDone 1, s') \<and> sched_inv s' []"
proof -
  let ?s = "demo_sched (demo_task 0 (-1) TASK_RUNNING 0) (demo_task 1 0 TASK_ZOMBIE 0) []"
  have i: "sched_inv ?s []" by (rule demo_inv) (simp_all add: demo_task_def task_consts)
  obtain s' where r: "task_wait (-1) ?s = Inr (WaitDone 1, s')"
    by (simp add: task_wait_def task_wait_round_def Let_def demo_sched_def demo_task_def klog_def is_child_def task_consts)
  from task_wait_result [OF i _ _ r, of 0] r show ?thesis by (simp add: demo_sched_def demo_task_def)
qed

end
