(* ===== verification/Sros_Ipc_Props.thy ===== *)
theory Sros_Ipc_Props
  imports Sros_Ipc_Mq Sros_Sched_Props
begin

text \<open>
  The properties of semaphores and message queues: over whole executions, and of each operation.
\<close>

section \<open>Definitions\<close>

text \<open>A counting semaphore with a queue of waiting tasks, as it is meant to work.\<close>

fun abs_wait :: "nat \<Rightarrow> int \<times> nat list \<Rightarrow> ipc_result \<times> (int \<times> nat list)" where
  "abs_wait c (v, ws) = (if 0 < v then (Done 0, (v - 1, ws)) else (Blocked, (v, ws @ [c])))"

fun abs_post :: "int \<times> nat list \<Rightarrow> int \<times> nat list" where
  "abs_post (v, []) = (v + 1, [])"
| "abs_post (v, w # ws) = (v, ws)"

definition sem_abs :: "'a ipc_scheme \<Rightarrow> nat list list \<Rightarrow> nat \<Rightarrow> int \<times> nat list" where
  "sem_abs s qs i = (sem_value (sem_table s ! i), qs ! i)"

text \<open>The successful posts of semaphore \<open>k\<close> in an execution, and the waits on it that did not fail.\<close>

definition sem_posts :: "int \<Rightarrow> ipc_label list \<Rightarrow> nat" where
  "sem_posts k ls = length (filter (\<lambda>l. l = SemPosted k 0) ls)"

definition sem_waits :: "int \<Rightarrow> ipc_label list \<Rightarrow> nat" where
  "sem_waits k ls = length (filter (\<lambda>l. case l of SemWaited j r \<Rightarrow> j = k \<and> r \<noteq> Done (-1) | _ \<Rightarrow> False) ls)"

text \<open>The data before \<open>ipc_init\<close>: zero-initialised tables of the right sizes.\<close>

definition ipc_blank :: "'a ipc_scheme \<Rightarrow> bool" where
  "ipc_blank s \<longleftrightarrow> length (sem_table s) = 64 \<and> length (mq_table s) = 16 \<and> sem_count s = 0 \<and> mq_count s = 0
     \<and> (\<forall>m\<in>set (sem_table s). sem_value m = 0 \<and> wait_head m = None \<and> wait_tail m = None)
     \<and> (\<forall>m\<in>set (mq_table s). mq_ok m \<and> recv_wait_head m = None \<and> recv_wait_tail m = None
          \<and> send_wait_head m = None \<and> send_wait_tail m = None)"

text \<open>A system with one semaphore and one message queue, for the examples.\<close>

definition demo_mq :: "int \<Rightarrow> msg_queue_t" where
  "demo_mq n = \<lparr>mq_id = n, msgs = replicate 64 \<lparr>msg_len = 0, msg_data = replicate 64 0\<rparr>, mq_head = 0, mq_tail = 0,
     mq_num = 0, recv_wait_head = None, recv_wait_tail = None, send_wait_head = None, send_wait_tail = None\<rparr>"

definition demo_sem :: "int \<Rightarrow> int \<Rightarrow> sem_t" where
  "demo_sem n v = \<lparr>sem_id = n, sem_name = [], sem_value = v, wait_head = None, wait_tail = None\<rparr>"

definition demo_ipc :: "task_t \<Rightarrow> task_t \<Rightarrow> nat list \<Rightarrow> int \<Rightarrow> ipc" where
  "demo_ipc t0 t1 rq v = \<lparr>phys = store32 (\<lambda>_. 0) 0x1030 32, cr3 = 0, paging = False, page_frames = [],
     page_frame_count = 0, serial_log = [], task_table = t0 # t1 # replicate 62 free_task, task_count = 2,
     next_pid = 2, current_task = Some 0, ready_head = (if rq = [] then None else Some 1),
     ready_tail = (if rq = [] then None else Some 1), tss_esp0 = 0, timer_ticks = 0,
     sem_table = demo_sem 0 v # replicate 63 (demo_sem (-1) 0), sem_count = 1,
     mq_table = demo_mq 0 # replicate 15 (demo_mq (-1)), mq_count = 1\<rparr>"

definition demo_boot :: ipc where
  "demo_boot = (demo_ipc free_task free_task [] 0)\<lparr>next_pid := 0, sem_table := replicate 64 (demo_sem 0 0), sem_count := 0,
     mq_table := replicate 16 (demo_mq 0), mq_count := 0\<rparr>"

section \<open>Examples\<close>

lemma demo_ipc_inv:
  assumes "pid t0 = 0" "pid t1 = 1" "rq = (if state t1 = TASK_READY then [1] else [])" "next_task t1 = None" "0 \<le> v"
  shows "ipc_inv (demo_ipc t0 t1 rq v) rq (replicate 96 [])"
proof -
  let ?s = "demo_ipc t0 t1 rq v"
  have tab: "task_table ?s = t0 # t1 # replicate 62 free_task" by (simp add: demo_ipc_def)
  have si: "sched_inv ?s rq"
    using demo_tasks_ok [OF assms(1-3)] assms by (auto simp: sched_inv_def demo_ipc_def queue_rep_def)
  have sem: "sem_table ?s ! i = (if i = 0 then demo_sem 0 v else demo_sem (-1) 0)" if "i < 64" for i
    using that by (cases i) (auto simp: demo_ipc_def)
  have mq: "mq_table ?s ! i = (if i = 0 then demo_mq 0 else demo_mq (-1))" if "i < 16" for i
    using that by (cases i) (auto simp: demo_ipc_def)
  have l: "length (sem_table ?s) = 64" "length (mq_table ?s) = 16" by (simp_all add: demo_ipc_def)
  have "set (wait_ends ?s) \<subseteq> {(None, None)}" by (auto simp: wait_ends_def demo_ipc_def demo_sem_def demo_mq_def)
  then have ends: "wait_ends ?s ! k = (None, None)" if "k < 96" for k
    using that wait_ends_nth(1) [OF l] by (metis nth_mem singletonD subsetD)
  have "waits_ok (task_table ?s) (wait_ends ?s) (replicate 96 [])"
    using ends wait_ends_nth(1) [OF l] by (simp add: waits_ok_def queue_rep_def)
  moreover have "sems_ok (sem_table ?s) (sem_count ?s) (replicate 96 [])"
    unfolding sems_ok_def using l(1) assms(5) by (auto simp: sem demo_sem_def split: if_splits) (simp_all add: demo_ipc_def)
  moreover have "mqs_ok (mq_table ?s) (mq_count ?s)"
    unfolding mqs_ok_def using l(2) by (auto simp: mq demo_mq_def mq_ok_def split: if_splits) (simp_all add: demo_ipc_def)
  ultimately show ?thesis using si by (simp add: ipc_inv_def)
qed

section \<open>Executions\<close>

lemma ipc_run_kept:
  assumes "ipc_run b s ls s'" and "ipc_inv s rq qs"
  shows "\<exists>rq' qs'. ipc_inv s' rq' qs'
    \<and> (\<forall>k i. 0 \<le> k \<and> sem_find k s = Some i \<and> SemDestroyed k \<notin> set ls \<longrightarrow> sem_find k s' = Some i
         \<and> sem_balance s' qs' i = sem_balance s qs i + sum_list (map (sem_delta k) ls))
    \<and> (\<forall>k i. 0 \<le> k \<and> mq_find k s = Some i \<and> MqDestroyed k \<notin> set ls \<longrightarrow> mq_find k s' = Some i
         \<and> mq_contents (mq_table s ! i) @ concat (map (mq_sent k) ls)
             = concat (map (mq_received k) ls) @ mq_contents (mq_table s' ! i))"
  using assms
proof (induction s ls s' arbitrary: rq qs rule: ipc_run.induct)
  case (run_none s)
  then show ?case by (intro exI [of _ rq] exI [of _ qs]) auto
next
  case (run_step s l s1 ls s2)
  obtain rq1 qs1 where o: "ipc_inv s1 rq1 qs1" "sem_kept s qs l s1 qs1" "mq_kept s l s1"
    using ipc_step_inv [OF run_step.hyps(1) run_step.prems] by blast
  from run_step.IH [OF o(1)] obtain rq2 qs2 where t: "ipc_inv s2 rq2 qs2"
    and ts: "\<And>k i. 0 \<le> k \<Longrightarrow> sem_find k s1 = Some i \<Longrightarrow> SemDestroyed k \<notin> set ls \<Longrightarrow> sem_find k s2 = Some i
         \<and> sem_balance s2 qs2 i = sem_balance s1 qs1 i + sum_list (map (sem_delta k) ls)"
    and tm: "\<And>k i. 0 \<le> k \<Longrightarrow> mq_find k s1 = Some i \<Longrightarrow> MqDestroyed k \<notin> set ls \<Longrightarrow> mq_find k s2 = Some i
         \<and> mq_contents (mq_table s1 ! i) @ concat (map (mq_sent k) ls)
             = concat (map (mq_received k) ls) @ mq_contents (mq_table s2 ! i)"
    by blast
  have "sem_find k s2 = Some i \<and> sem_balance s2 qs2 i = sem_balance s qs i + sum_list (map (sem_delta k) (l # ls))"
    if "0 \<le> k" "sem_find k s = Some i" "SemDestroyed k \<notin> set (l # ls)" for k i
    using sem_keptD [OF o(2) that(1,2)] ts [OF that(1)] that(3) by auto
  moreover have "mq_find k s2 = Some i \<and> mq_contents (mq_table s ! i) @ concat (map (mq_sent k) (l # ls))
      = concat (map (mq_received k) (l # ls)) @ mq_contents (mq_table s2 ! i)"
    if "0 \<le> k" "mq_find k s = Some i" "MqDestroyed k \<notin> set (l # ls)" for k i
  proof -
    have a: "mq_find k s1 = Some i" "mq_contents (mq_table s ! i) @ mq_sent k l = mq_received k l @ mq_contents (mq_table s1 ! i)"
      using mq_keptD [OF o(3) that(1,2)] that(3) by auto
    then show ?thesis using tm [OF that(1) a(1)] that(3) by simp (metis append_assoc)
  qed
  ultimately show ?case using t by (intro exI [of _ rq2] exI [of _ qs2]) blast
qed

lemma sum_delta: "sum_list (map (sem_delta k) ls) = int (sem_posts k ls) - int (sem_waits k ls)"
  by (induction ls) (auto simp: sem_posts_def sem_waits_def sem_delta_def split: ipc_label.splits)


lemma demo_running: "state t0 = TASK_RUNNING \<Longrightarrow> running (demo_ipc t0 t1 rq v)"
  by (simp add: running_def demo_ipc_def)




section \<open>Semaphores\<close>



text \<open>
  \<open>sem_destroy\<close> returns; it makes every waiting task ready, in the order in which they waited, and
  the identifier is no longer found.
\<close>

theorem sem_destroy_wakes_all:
  assumes "ipc_inv s rq qs" and "running s" and "0 \<le> k" and "sem_find k s = Some i"
  shows "\<exists>s'. sem_destroy k s = Some (0, s') \<and> ipc_inv s' (rq @ qs ! i) (qs[i := []]) \<and> sem_find k s' = None
    \<and> (\<forall>j\<in>set (qs ! i). state (task_table s' ! j) = TASK_READY)"
  using sem_destroy_cases [OF assms(1,2), of k] assms(3,4) by auto

theorem sem_destroy_wakes_all_witness:
  "\<exists>s'. sem_destroy 0 (demo_ipc (demo_task 0 (-1) TASK_RUNNING 0) (demo_task 1 0 TASK_READY 0) [1] 0) = Some (0, s')
    \<and> sem_find 0 s' = None"
proof -
  let ?s = "demo_ipc (demo_task 0 (-1) TASK_RUNNING 0) (demo_task 1 0 TASK_READY 0) [1] 0"
  have i: "ipc_inv ?s [1] (replicate 96 [])" by (rule demo_ipc_inv) (simp_all add: demo_task_def)
  have r: "running ?s" by (rule demo_running) (simp add: demo_task_def)
  have "sem_find 0 ?s = Some 0" by (simp add: sem_find_def demo_ipc_def demo_sem_def)
  from sem_destroy_wakes_all [OF i r _ this] show ?thesis by auto
qed

text \<open>
  With no other task ready, the tick after a blocked \<open>sem_wait\<close> gives the processor back to the
  blocked task: it runs again, \<open>sem_wait\<close> returns 0 without a post, and the task is still on the wait
  queue.
\<close>

lemma chain_cong: "(\<And>i. next_task (tbl' ! i) = next_task (tbl ! i)) \<Longrightarrow> chain tbl' n p = chain tbl n p"
  by (induction tbl n p rule: chain.induct) auto

theorem sem_wait_alone:
  assumes "ipc_inv s [] qs" and "running s" and "current_task s = Some c" and "sem_wait k s = (Blocked, s1)"
    and "clock_frame regs s1"
  shows "\<exists>s2. scheduler_tick regs s1 = Inr (regs, s2) \<and> current_task s2 = Some c
    \<and> state (task_table s2 ! c) = TASK_RUNNING \<and> on_queue s2 c"
proof -
  obtain i qs' where i: "sem_find k s = Some i" "0 \<le> k" "ipc_inv s1 [] qs'" "qs' = qs[i := qs ! i @ [c]]"
    "current_task s1 = Some c" "state (task_table s1 ! c) = TASK_BLOCKED"
    using sem_wait_cases [OF assms(1,2,4)] assms(3) by auto
  have il: "i < length qs" using sem_queue(1) [OF assms(1) i(2,1)] ipc_invD(8) [OF assms(1)] by simp
  have "c \<in> set (concat qs')" using il i(4) by (metis UN_I in_set_conv_decomp nth_list_update_eq nth_mem length_list_update set_concat)
  then have on: "on_queue s1 c" using on_queue_iff [OF i(3)] by simp
  note si = ipc_invD(1) [OF i(3)]
  obtain s2 where s2: "scheduler_tick regs s1 = Inr (regs, s2)" "current_task s2 = Some c"
    "task_table s2 = (task_table s1)[c := (task_table s1 ! c)\<lparr>kernel_esp := regs, state := TASK_RUNNING\<rparr>]"
    using tick_alone [OF si i(5) assms(5)] i(6) by blast
  have "spares {} s1 s2" using tick_spares [OF si s2(1)] by blast
  then have "wait_ends s2 = wait_ends s1" using sched_more_fields(5) by (auto simp: spares_def)
  moreover have "chain (task_table s2) n p = chain (task_table s1) n p" for n p
    by (rule chain_cong) (simp add: s2(3) nth_upd)
  ultimately have "on_queue s2 c" using on by (simp add: on_queue_def)
  moreover have "c < length (task_table s1)" using si i(5) by (auto simp: sched_inv_def tasks_ok_def)
  ultimately show ?thesis using s2 by auto
qed

theorem sem_wait_alone_witness:
  "\<exists>s1 s2. sem_wait 0 (demo_ipc (demo_task 0 (-1) TASK_RUNNING 0) (demo_task 1 0 TASK_BLOCKED 0) [] 0) = (Blocked, s1)
    \<and> scheduler_tick 0x1000 s1 = Inr (0x1000, s2) \<and> state (task_table s2 ! 0) = TASK_RUNNING"
proof -
  let ?s = "demo_ipc (demo_task 0 (-1) TASK_RUNNING 0) (demo_task 1 0 TASK_BLOCKED 0) [] 0"
  have i: "ipc_inv ?s [] (replicate 96 [])" by (rule demo_ipc_inv) (simp_all add: demo_task_def task_consts)
  have r: "running ?s" by (rule demo_running) (simp add: demo_task_def)
  obtain s1 where w: "sem_wait 0 ?s = (Blocked, s1)" "phys s1 = phys ?s" "paging s1 = False"
    by (simp add: sem_wait_def sem_find_def demo_ipc_def demo_sem_def Let_def wait_join_def q_append_def task_block_def
        klog_def upd_task_def upd_sem_def)
  have "clock_frame 0x1000 s1"
    using w(2,3) by (simp add: clock_frame_def vload32_def translate_def R_int_no_def demo_ipc_def)
  from sem_wait_alone [OF i r _ w(1) this, of 0] w(1) show ?thesis by (auto simp: demo_ipc_def)
qed

text \<open>
  C28. Every state the system reaches from boot, by any sequence of steps, satisfies the invariant:
  the ready queue and all wait queues are well-formed and disjoint, waiting tasks are blocked, and
  semaphore values are non-negative.
\<close>

lemma boot_fields:
  fixes s :: "'a ipc_scheme"
  shows "sched.more (scheduler_init s) = sched.more s"
  by (simp add: scheduler_init_def Let_def upd_task_def klog_def)

lemma mq_ok_id [simp]: "mq_ok (m\<lparr>mq_id := n\<rparr>) = mq_ok m"
  by (simp add: mq_ok_def)

lemma ipc_init_inv:
  assumes "sched_inv s rq" and b: "ipc_blank s"
  shows "ipc_inv (ipc_init s) rq (replicate 96 [])"
proof -
  define t where "t = ipc_init s"
  have st: "sem_table t = map (\<lambda>m. m\<lparr>sem_id := -1\<rparr>) (sem_table s)" "mq_table t = map (\<lambda>m. m\<lparr>mq_id := -1\<rparr>) (mq_table s)"
    "task_table t = task_table s" "sem_count t = 0" "mq_count t = 0"
    using b by (simp_all add: t_def ipc_init_def sem_init_def msg_queue_init_def Let_def klog_def ipc_blank_def)
  have si: "sched_inv t rq"
    using assms(1) by (simp add: t_def ipc_init_def sem_init_def msg_queue_init_def Let_def klog_def sched_inv_def)
  have l: "length (sem_table t) = 64" "length (mq_table t) = 16" using b by (simp_all add: st ipc_blank_def)
  have sem: "sem_id (sem_table t ! i) = -1" "sem_value (sem_table t ! i) = 0" if "i < 64" for i
    using that b by (simp_all add: st ipc_blank_def)
  have mq: "mq_id (mq_table t ! i) = -1" "mq_ok (mq_table t ! i)" if "i < 16" for i
    using that b by (simp_all add: st ipc_blank_def)
  have "set (wait_ends t) \<subseteq> {(None, None)}" using b by (auto simp: wait_ends_def st ipc_blank_def)
  then have "wait_ends t ! k = (None, None)" if "k < 96" for k
    using that wait_ends_nth(1) [OF l] by (metis nth_mem singletonD subsetD)
  then have "waits_ok (task_table t) (wait_ends t) (replicate 96 [])"
    using wait_ends_nth(1) [OF l] by (simp add: waits_ok_def queue_rep_def)
  moreover have "sems_ok (sem_table t) (sem_count t) (replicate 96 [])" using l(1) by (simp add: sems_ok_def sem st(4))
  moreover have "mqs_ok (mq_table t) (mq_count t)" using l(2) by (simp add: mqs_ok_def mq st(5))
  ultimately show ?thesis using si by (simp add: ipc_inv_def t_def)
qed



section \<open>Messages\<close>

lemma phys_wake_first: "wake_first h t s = (e, s') \<Longrightarrow> phys s' = phys s \<and> paging s' = paging s"
  by (auto simp: wake_first_def task_wake_def enqueue_ready_def upd_task_def Let_def split: prod.splits option.splits)

lemma vread_flat: "\<not> paging s \<Longrightarrow> vread p n s = Inr (map (\<lambda>j. phys s (p + of_nat j)) [0..<n])"
proof (induction n arbitrary: p)
  case (Suc n)
  have "map (\<lambda>j. phys s (p + of_nat j)) [0..<Suc n] = phys s p # map (\<lambda>j. phys s (p + 1 + of_nat j)) [0..<n]"
    by (simp add: map_upt_Suc add.assoc del: upt_Suc)
  then show ?case using Suc by (simp add: vload8_def translate_def)
qed simp

lemma vwrite_flat:
  "\<not> paging s \<Longrightarrow> length bs \<le> 64 \<Longrightarrow> \<exists>m. vwrite p bs s = Inr (s\<lparr>phys := m\<rparr>)
    \<and> (\<forall>j<length bs. m (p + of_nat j) = bs ! j) \<and> (\<forall>x. (\<forall>j<length bs. x \<noteq> p + of_nat j) \<longrightarrow> m x = phys s x)"
proof (induction bs arbitrary: p s)
  case Nil
  then show ?case by (intro exI [of _ "phys s"]) simp
next
  case (Cons b bs)
  let ?s = "s\<lparr>phys := (phys s)(p := b)\<rparr>"
  have "\<not> paging ?s" "length bs \<le> 64" using Cons.prems by simp_all
  from Cons.IH [OF this, of "p + 1"] obtain m where m: "vwrite (p + 1) bs ?s = Inr (?s\<lparr>phys := m\<rparr>)"
    "\<forall>j<length bs. m (p + 1 + of_nat j) = bs ! j" "\<forall>x. (\<forall>j<length bs. x \<noteq> p + 1 + of_nat j) \<longrightarrow> m x = phys ?s x"
    by blast
  have ne: "p \<noteq> p + 1 + of_nat j" if "j < length bs" for j
  proof
    assume "p = p + 1 + of_nat j"
    then have "(of_nat (Suc j) :: u32) = of_nat 0" by (simp add: add.assoc)
    then show False using that Cons.prems(2) of_nat_u32_inject [of "Suc j" 0] by simp
  qed
  have "m p = b" using m(3) ne by simp
  then have "m (p + of_nat j) = (b # bs) ! j" if "j < length (b # bs)" for j
    using that m(2) by (cases j) (auto simp: add.assoc)
  moreover have "m x = phys s x" if x: "\<forall>j<length (b # bs). x \<noteq> p + of_nat j" for x
  proof -
    have "x \<noteq> p" using x [rule_format, of 0] by simp
    moreover have "x \<noteq> p + 1 + of_nat j" if "j < length bs" for j
      using x [rule_format, of "Suc j"] that by (simp add: add.assoc)
    ultimately show ?thesis using m(3) by simp
  qed
  moreover have "vwrite p (b # bs) s = Inr (s\<lparr>phys := m\<rparr>)"
    using Cons.prems(1) m(1) by (simp add: vstore8_def translate_def)
  ultimately show ?case by blast
qed

text \<open>Sending and receiving with paging off: the calls return, and the receiver's memory holds the message.\<close>

lemma send_flat:
  assumes flat: "\<not> paging s" and k: "0 \<le> k" and i: "mq_find k s = Some i" and "mq_num (mq_table s ! i) < 64"
    and "data \<noteq> 0" and len: "unat len \<le> 64"
  shows "\<exists>s1. msg_queue_send k data len s = Inr (Done 0, s1) \<and> phys s1 = phys s \<and> paging s1 = paging s"
proof -
  define bs where "bs = map (\<lambda>j. phys s (data + of_nat j)) [0..<unat len]"
  have snd: "msg_queue_send k data len s = mq_send_round i k data len s"
    using k i assms(5) len by (auto simp: msg_queue_send_def MSG_MAX_DATA_def word_less_nat_alt)
  have rd: "vread data (unat len) s = Inr bs" using vread_flat [OF flat] by (simp add: bs_def)
  define t where "t = upd_mq i (mq_store len bs) s"
  have pt: "phys t = phys s" "paging t = paging s" by (simp_all add: t_def upd_mq_def)
  show ?thesis
  proof (cases "recv_wait_head (mq_table t ! i)")
    case None
    then have "msg_queue_send k data len s = Inr (Done 0, t)"
      using assms(4) unfolding snd mq_send_round_def Let_def rd bind_res.simps t_def [symmetric]
      by (simp add: MSGQUEUE_SIZE_def)
    then show ?thesis using pt by simp
  next
    case (Some x)
    obtain h tl t2 where w: "wake_first (Some x) (recv_wait_tail (mq_table t ! i)) t = ((h, tl), t2)" by (metis prod.collapse)
    have "\<exists>s1. msg_queue_send k data len s = Inr (Done 0, s1) \<and> phys s1 = phys t2 \<and> paging s1 = paging t2"
      using assms(4) Some w unfolding snd mq_send_round_def Let_def rd bind_res.simps t_def [symmetric]
      by (auto simp: MSGQUEUE_SIZE_def upd_mq_def klog_def)
    then show ?thesis using pt phys_wake_first [OF w] by auto
  qed
qed

lemma recv_memory:
  assumes flat: "\<not> paging s" and lb: "length bs = unat len" "length bs \<le> 64"
    and dis: "\<And>j. j < unat len \<Longrightarrow> 4 \<le> buf + of_nat j - lp"
  shows "\<exists>m. vwrite buf bs (s\<lparr>phys := store32 (phys s) lp len\<rparr>) = Inr (s\<lparr>phys := m\<rparr>) \<and> load32 m lp = len
    \<and> (\<forall>j<unat len. m (buf + of_nat j) = bs ! j)"
proof -
  let ?sa = "s\<lparr>phys := store32 (phys s) lp len\<rparr>"
  have "\<not> paging ?sa" using flat by simp
  from vwrite_flat [OF this lb(2), of buf] obtain m where m: "vwrite buf bs ?sa = Inr (?sa\<lparr>phys := m\<rparr>)"
    "\<forall>j<unat len. m (buf + of_nat j) = bs ! j" "\<forall>x. (\<forall>j<unat len. x \<noteq> buf + of_nat j) \<longrightarrow> m x = store32 (phys s) lp len x"
    using lb by auto
  have "m (lp + a) = store32 (phys s) lp len (lp + a)" if "a < 4" for a
  proof -
    have "lp + a \<noteq> buf + of_nat j" if "j < unat len" for j
      using dis [OF that] \<open>a < 4\<close> by (metis add_diff_cancel_left' leD)
    then show ?thesis using m(3) by blast
  qed
  then have "load32 m lp = len" using load32_cong [of m lp "store32 (phys s) lp len"] by simp
  then show ?thesis using m(1,2) by auto
qed

lemma recv_flat:
  assumes flat: "\<not> paging s" and k: "0 \<le> k" and i: "mq_find k s = Some i" and "0 < mq_num (mq_table s ! i)"
    and nn: "buf \<noteq> 0" "lp \<noteq> 0" and tk: "mq_take (mq_table s ! i) = (g, m')" and g: "payload g = bs" "msg_len g = len"
    and lb: "length bs = unat len" "length bs \<le> 64" and dis: "\<And>j. j < unat len \<Longrightarrow> 4 \<le> buf + of_nat j - lp"
  shows "\<exists>s2. msg_queue_recv k buf lp s = Inr (Done 0, s2) \<and> load32 (phys s2) lp = len
    \<and> (\<forall>j<unat len. phys s2 (buf + of_nat j) = bs ! j)"
proof -
  let ?sa = "s\<lparr>phys := store32 (phys s) lp len\<rparr>"
  obtain m where m: "vwrite buf bs ?sa = Inr (s\<lparr>phys := m\<rparr>)" "load32 m lp = len" "\<forall>j<unat len. m (buf + of_nat j) = bs ! j"
    using recv_memory [OF flat lb dis] by auto
  define sb where "sb = upd_mq i (\<lambda>_. m') (s\<lparr>phys := m\<rparr>)"
  have pb: "phys sb = m" by (simp add: sb_def upd_mq_def)
  have vs: "vstore32 lp (msg_len g) s = Inr ?sa" using flat g(2) by (simp add: vstore32_def translate_def)
  have vw: "vwrite buf (take (unat (msg_len g)) (msg_data g)) ?sa = Inr (s\<lparr>phys := m\<rparr>)"
    using m(1) g(1) by (simp add: payload_def)
  have rcv: "msg_queue_recv k buf lp s = mq_recv_round i k buf lp s" using k i nn by (simp add: msg_queue_recv_def)
  show ?thesis
  proof (cases "send_wait_head (mq_table sb ! i)")
    case None
    then have "msg_queue_recv k buf lp s = Inr (Done 0, sb)"
      using assms(4) unfolding rcv mq_recv_round_def Let_def tk prod.case vs vw bind_res.simps sb_def [symmetric] by simp
    then show ?thesis using pb m by simp
  next
    case (Some x)
    obtain h tl t2 where w: "wake_first (Some x) (send_wait_tail (mq_table sb ! i)) sb = ((h, tl), t2)" by (metis prod.collapse)
    have "\<exists>s2. msg_queue_recv k buf lp s = Inr (Done 0, s2) \<and> phys s2 = phys t2"
      using assms(4) Some w
      unfolding rcv mq_recv_round_def Let_def tk prod.case vs vw bind_res.simps sb_def [symmetric]
      by (auto simp: upd_mq_def klog_def)
    then show ?thesis using pb m phys_wake_first [OF w] by auto
  qed
qed



text \<open>
  \<open>task_exit\<close> wakes a blocked parent whatever it is blocked on: a parent at the head of the wait
  queue of a semaphore becomes ready although nobody posted, and stays linked from the semaphore while
  it is in the ready queue.
\<close>

theorem task_exit_wakes_waiting_parent:
  assumes "ipc_inv s rq qs" and "running s" and "current_task s = Some c"
    and "i < 64" and "wait_head (sem_table s ! i) = Some q"
    and "pid (task_table s ! q) = parent_pid (task_table s ! c)"
  shows "sched_inv (task_exit code s) (rq @ [q]) \<and> state (task_table (task_exit code s) ! q) = TASK_READY
    \<and> wait_head (sem_table (task_exit code s) ! i) = Some q \<and> sem_value (sem_table (task_exit code s) ! i) = 0"
proof -
  note w = ipc_invD(2) [OF assms(1)] and len = ipc_invD(4,6,7) [OF assms(1)]
  have il: "i < length (wait_ends s)" using assms(4) len by simp
  have "queue_rep (task_table s) (Some q) (wait_tail (sem_table s ! i)) (qs ! i)"
    using waits_okD(2) [OF w il] wait_ends_nth(2) [OF len(2,1) assms(4)] assms(5) by simp
  then have q: "q \<in> set (qs ! i)" "qs ! i \<noteq> []" by (auto simp: queue_rep_def split: if_splits)
  note b = waits_okD(3) [OF w il q(1)]
  have "q < 64" using b ipc_invD(1) [OF assms(1)] by (auto simp: sched_inv_def tasks_ok_def)
  moreover have "q \<noteq> c" using assms(2,3) b by (auto simp: running_def task_consts)
  moreover have "0 \<le> parent_pid (task_table s ! c)" using assms(6) b by simp
  ultimately have e: "sched_inv (task_exit code s) (rq @ [q]) \<and> state (task_table (task_exit code s) ! q) = TASK_READY
      \<and> sched.more (task_exit code s) = sched.more s"
    using task_exit_parent [OF ipc_invD(1) [OF assms(1)] assms(3) _ _ assms(6)] b by auto
  have "sem_value (sem_table s ! i) = 0" using ipc_invD(3) [OF assms(1)] assms(4) q(2) by (auto simp: sems_ok_def)
  then show ?thesis using e sched_more_fields(1) [of "task_exit code s" s] assms(5) by simp
qed

theorem task_exit_wakes_waiting_parent_witness:
  "\<exists>s :: ipc. wait_head (sem_table s ! 0) = Some 1 \<and> state (task_table s ! 1) = TASK_BLOCKED
    \<and> state (task_table (task_exit 0 s) ! 1) = TASK_READY \<and> wait_head (sem_table (task_exit 0 s) ! 0) = Some 1"
proof -
  let ?d = "demo_ipc (demo_task 0 1 TASK_RUNNING 0) (demo_task 1 (-1) TASK_BLOCKED 0) [] 0"
  let ?f = "\<lambda>m. m\<lparr>wait_head := Some 1, wait_tail := Some 1\<rparr>"
  let ?s = "upd_sem 0 ?f ?d"
  have i: "ipc_inv ?d [] (replicate 96 [])" by (rule demo_ipc_inv) (simp_all add: demo_task_def task_consts)
  have f: "sem_find 0 ?d = Some 0" "length (sem_table ?d) = 64" "sem_value (sem_table ?d ! 0) = 0"
    "next_task (task_table ?d ! 1) = None" "length (task_table ?d) = 64"
    "state (task_table ?d ! 1) = TASK_BLOCKED" "pid (task_table ?d ! 1) = 1"
    by (simp_all add: sem_find_def demo_ipc_def demo_sem_def demo_task_def)
  have w: "waits_ok (task_table ?d) ((wait_ends ?d)[0 := (Some 1, Some 1)]) ((replicate 96 [])[0 := [1]])"
    by (rule waits_ok_replace [OF ipc_invD(2) [OF i]]) (use f ipc_invD(7) [OF i] in \<open>auto simp: queue_rep_def\<close>)
  have inv: "ipc_inv ?s [] ((replicate 96 [])[0 := [1]])"
    by (rule upd_sem_inv(1) [OF i _ f(1) refl ipc_invD(1) [OF i] w]) (use f(3) in simp_all)
  have h: "wait_head (sem_table ?s ! 0) = Some 1" using f(2) by simp
  have "running ?d" by (rule demo_running) (simp add: demo_task_def)
  then have r: "running ?s" by (simp add: running_def split: option.splits)
  have p: "current_task ?s = Some 0" "pid (task_table ?s ! 1) = parent_pid (task_table ?s ! 0)"
    by (simp_all add: demo_ipc_def demo_task_def)
  have st: "state (task_table ?s ! 1) = TASK_BLOCKED" using f(6) by simp
  have "0 < (64 :: nat)" by simp
  from task_exit_wakes_waiting_parent [OF inv r p(1) this h p(2), of 0] h st show ?thesis by (intro exI [of _ ?s]) blast
qed

end
