(* ===== verification/Sros_Ata.thy ===== *)
theory Sros_Ata
  imports Sros_Machine
begin

unbundle bit_operations_syntax

text \<open>
  The ATA driver (\<open>src/drivers/ata.c\<close>) and the block layer on it (\<open>src/fs/ramdisk.c\<close>). Transfers go
  through the ports of the primary channel, answered by the device parameter. \<open>drive\<close> is what the
  driver relies on: an ATA drive in PIO mode that is never busy and reports no errors.
\<close>

section \<open>State and constants\<close>

record disk_io = io_state +
  disk_log :: "(string \<times> arg list) list"

definition dlog :: "string \<Rightarrow> arg list \<Rightarrow> 'a disk_io_scheme \<Rightarrow> 'a disk_io_scheme" where
  "dlog fmt as s = s\<lparr>disk_log := disk_log s @ [(fmt @ [LF], as)]\<rparr>"

definition ATA_PRIMARY_DATA :: u16 where "ATA_PRIMARY_DATA = 0x1F0"
definition ATA_PRIMARY_SECTORS :: u16 where "ATA_PRIMARY_SECTORS = 0x1F2"
definition ATA_PRIMARY_LBA_LO :: u16 where "ATA_PRIMARY_LBA_LO = 0x1F3"
definition ATA_PRIMARY_LBA_MID :: u16 where "ATA_PRIMARY_LBA_MID = 0x1F4"
definition ATA_PRIMARY_LBA_HI :: u16 where "ATA_PRIMARY_LBA_HI = 0x1F5"
definition ATA_PRIMARY_DRIVE :: u16 where "ATA_PRIMARY_DRIVE = 0x1F6"
definition ATA_PRIMARY_CMD :: u16 where "ATA_PRIMARY_CMD = 0x1F7"
definition ATA_PRIMARY_ALTSTAT :: u16 where "ATA_PRIMARY_ALTSTAT = 0x3F6"
definition ATA_CMD_READ :: u8 where "ATA_CMD_READ = 0x20"
definition ATA_CMD_WRITE :: u8 where "ATA_CMD_WRITE = 0x30"
definition ATA_CMD_IDENTIFY :: u8 where "ATA_CMD_IDENTIFY = 0xEC"
definition ATA_DRIVE_MASTER :: u8 where "ATA_DRIVE_MASTER = 0xE0"
definition ATA_STATUS_ERR :: u8 where "ATA_STATUS_ERR = 0x01"
definition ATA_STATUS_DRQ :: u8 where "ATA_STATUS_DRQ = 0x08"
definition ATA_STATUS_BSY :: u8 where "ATA_STATUS_BSY = 0x80"
definition ATA_SECTOR_SIZE :: nat where "ATA_SECTOR_SIZE = 512"

lemmas ata_ports = ATA_PRIMARY_DATA_def ATA_PRIMARY_SECTORS_def ATA_PRIMARY_LBA_LO_def ATA_PRIMARY_LBA_MID_def
  ATA_PRIMARY_LBA_HI_def ATA_PRIMARY_DRIVE_def ATA_PRIMARY_CMD_def ATA_PRIMARY_ALTSTAT_def

lemmas ata_consts = ata_ports ATA_CMD_READ_def ATA_CMD_WRITE_def ATA_CMD_IDENTIFY_def ATA_DRIVE_MASTER_def
  ATA_STATUS_ERR_def ATA_STATUS_DRQ_def ATA_STATUS_BSY_def ATA_SECTOR_SIZE_def

section \<open>Polling\<close>

text \<open>The bodies of the timeout loops run 29999999 times at most.\<close>

definition ATA_POLLS :: nat where "ATA_POLLS = 29999999"

fun ata_wait_busy_loop :: "device \<Rightarrow> nat \<Rightarrow> 'a io_state_scheme \<Rightarrow> int \<times> 'a io_state_scheme" where
  "ata_wait_busy_loop dev 0 s = (-1, s)"
| "ata_wait_busy_loop dev (Suc n) s =
     (let (st, s) = inb dev ATA_PRIMARY_ALTSTAT s in
      if st AND ATA_STATUS_BSY = 0 then (0, s) else ata_wait_busy_loop dev n s)"

definition ata_wait_busy :: "device \<Rightarrow> 'a io_state_scheme \<Rightarrow> int \<times> 'a io_state_scheme" where
  "ata_wait_busy dev s = ata_wait_busy_loop dev ATA_POLLS s"

fun ata_wait_drq_loop :: "device \<Rightarrow> nat \<Rightarrow> 'a io_state_scheme \<Rightarrow> int \<times> 'a io_state_scheme" where
  "ata_wait_drq_loop dev 0 s = (-1, s)"
| "ata_wait_drq_loop dev (Suc n) s =
     (let (st, s) = inb dev ATA_PRIMARY_ALTSTAT s in
      if st AND ATA_STATUS_ERR \<noteq> 0 then (-1, s)
      else if st AND ATA_STATUS_DRQ \<noteq> 0 then (0, s)
      else ata_wait_drq_loop dev n s)"

definition ata_wait_drq :: "device \<Rightarrow> 'a io_state_scheme \<Rightarrow> int \<times> 'a io_state_scheme" where
  "ata_wait_drq dev s =
     (let (r, s) = ata_wait_busy dev s in
      if r < 0 then (-1, s) else ata_wait_drq_loop dev ATA_POLLS s)"

definition ata_delay :: "device \<Rightarrow> 'a io_state_scheme \<Rightarrow> 'a io_state_scheme" where
  "ata_delay dev s =
     (let s = snd (inb dev ATA_PRIMARY_ALTSTAT s);
          s = snd (inb dev ATA_PRIMARY_ALTSTAT s);
          s = snd (inb dev ATA_PRIMARY_ALTSTAT s)
      in snd (inb dev ATA_PRIMARY_ALTSTAT s))"

section \<open>Transfers\<close>

fun inw_n :: "device \<Rightarrow> u16 \<Rightarrow> nat \<Rightarrow> 'a io_state_scheme \<Rightarrow> u16 list \<times> 'a io_state_scheme" where
  "inw_n dev port 0 s = ([], s)"
| "inw_n dev port (Suc n) s = (let (v, s) = inw dev port s; (vs, s) = inw_n dev port n s in (v # vs, s))"

text \<open>The two bytes of a word, the low one first, and the words of a list of bytes.\<close>

fun word_bytes :: "u16 list \<Rightarrow> u8 list" where
  "word_bytes [] = []"
| "word_bytes (w # ws) = ucast w # ucast (drop_bit 8 w) # word_bytes ws"

fun byte_words :: "u8 list \<Rightarrow> u16 list" where
  "byte_words (a # b # bs) = (ucast a OR push_bit 8 (ucast b)) # byte_words bs"
| "byte_words bs = []"

text \<open>Bytes stored into a buffer from an index on.\<close>

definition store_at :: "nat \<Rightarrow> 'a list \<Rightarrow> 'a list \<Rightarrow> 'a list" where
  "store_at off xs buf = take off buf @ xs @ drop (off + length xs) buf"

text \<open>The registers of a command, shared by reading and writing.\<close>

definition ata_command :: "u32 \<Rightarrow> u8 \<Rightarrow> u8 \<Rightarrow> 'a io_state_scheme \<Rightarrow> 'a io_state_scheme" where
  "ata_command lba count cmd s =
     (let s = outb ATA_PRIMARY_SECTORS count s;
          s = outb ATA_PRIMARY_LBA_LO (ucast lba) s;
          s = outb ATA_PRIMARY_LBA_MID (ucast (drop_bit 8 lba)) s;
          s = outb ATA_PRIMARY_LBA_HI (ucast (drop_bit 16 lba)) s;
          s = outb ATA_PRIMARY_DRIVE (ATA_DRIVE_MASTER OR (ucast (drop_bit 24 lba) AND 0x0F)) s
      in outb ATA_PRIMARY_CMD cmd s)"

fun ata_read_loop :: "device \<Rightarrow> nat list \<Rightarrow> u8 list \<Rightarrow> 'a io_state_scheme \<Rightarrow> bool \<times> u8 list \<times> 'a io_state_scheme" where
  "ata_read_loop dev [] buf s = (True, buf, s)"
| "ata_read_loop dev (i # is) buf s =
     (let (r, s) = ata_wait_drq dev s in
      if r < 0 then (False, buf, s)
      else (let (ws, s) = inw_n dev ATA_PRIMARY_DATA 256 s
            in ata_read_loop dev is (store_at (i * ATA_SECTOR_SIZE) (word_bytes ws) buf) s))"

definition ata_read_sectors :: "device \<Rightarrow> u32 \<Rightarrow> u8 \<Rightarrow> u8 list \<Rightarrow> 'a io_state_scheme \<Rightarrow> int \<times> u8 list \<times> 'a io_state_scheme" where
  "ata_read_sectors dev lba count buf s =
     (if count = 0 then (0, buf, s)
      else (let (r, s) = ata_wait_busy dev s in
        if r < 0 then (-1, buf, s)
        else (let s = ata_command lba count ATA_CMD_READ s;
                  (ok, buf, s) = ata_read_loop dev [0..<unat count] buf s
              in if ok then (int (unat count) * int ATA_SECTOR_SIZE, buf, s) else (-1, buf, s))))"

fun outw_list :: "u16 \<Rightarrow> u16 list \<Rightarrow> 'a io_state_scheme \<Rightarrow> 'a io_state_scheme" where
  "outw_list port [] s = s"
| "outw_list port (w # ws) s = outw_list port ws (outw port w s)"

fun ata_write_loop :: "device \<Rightarrow> nat list \<Rightarrow> u8 list \<Rightarrow> 'a io_state_scheme \<Rightarrow> bool \<times> 'a io_state_scheme" where
  "ata_write_loop dev [] buf s = (True, s)"
| "ata_write_loop dev (i # is) buf s =
     (let (r, s) = ata_wait_drq dev s in
      if r < 0 then (False, s)
      else ata_write_loop dev is buf
        (outw_list ATA_PRIMARY_DATA (byte_words (take ATA_SECTOR_SIZE (drop (i * ATA_SECTOR_SIZE) buf))) s))"

definition ata_write_sectors :: "device \<Rightarrow> u32 \<Rightarrow> u8 \<Rightarrow> u8 list \<Rightarrow> 'a io_state_scheme \<Rightarrow> int \<times> 'a io_state_scheme" where
  "ata_write_sectors dev lba count buf s =
     (if count = 0 then (0, s)
      else (let (r, s) = ata_wait_busy dev s in
        if r < 0 then (-1, s)
        else (let s = ata_command lba count ATA_CMD_WRITE s;
                  (ok, s) = ata_write_loop dev [0..<unat count] buf s
              in if \<not> ok then (-1, s)
                 else (let (r, s) = ata_wait_busy dev s
                       in if r < 0 then (-1, s) else (int (unat count) * int ATA_SECTOR_SIZE, s)))))"

section \<open>Detection\<close>

definition ata_identify :: "'a io_state_scheme \<Rightarrow> 'a io_state_scheme" where
  "ata_identify s =
     (let s = outb ATA_PRIMARY_SECTORS 0 s;
          s = outb ATA_PRIMARY_LBA_LO 0 s;
          s = outb ATA_PRIMARY_LBA_MID 0 s;
          s = outb ATA_PRIMARY_LBA_HI 0 s
      in outb ATA_PRIMARY_CMD ATA_CMD_IDENTIFY s)"

text \<open>The characters of words 27 to 46, the high byte first, without the spaces around them.\<close>

definition ata_model :: "u16 list \<Rightarrow> string" where
  "ata_model ident =
     (let model = concat (map (\<lambda>w. [char_of (unat (drop_bit 8 w)), char_of (unat (w AND 0xFF))])
                           (take 20 (drop 27 ident)));
          start = dropWhile (\<lambda>c. c = CHR '' '') model
      in rev (dropWhile (\<lambda>c. c = CHR '' '') (rev start)))"

definition ata_total_sectors :: "u16 list \<Rightarrow> u32" where
  "ata_total_sectors ident = ucast (ident ! 60) OR push_bit 16 (ucast (ident ! 61))"

definition ata_init :: "device \<Rightarrow> 'a disk_io_scheme \<Rightarrow> int \<times> 'a disk_io_scheme" where
  "ata_init dev s =
     (let s = dlog ''[ata] Initializing...'' [] s;
          s = outb ATA_PRIMARY_DRIVE ATA_DRIVE_MASTER s;
          s = ata_delay dev s;
          (st, s) = inb dev ATA_PRIMARY_CMD s
      in if st = 0xFF then (-1, dlog ''[ata] No device on primary master'' [] s)
         else (let s = ata_identify s;
                   s = ata_delay dev s;
                   (r, s) = ata_wait_drq dev s
               in if r < 0 then (-1, dlog ''[ata] IDENTIFY failed'' [] s)
                  else (let (ident, s) = inw_n dev ATA_PRIMARY_DATA 256 s
                        in if ident ! 0 AND 0x8000 \<noteq> 0
                           then (-1, dlog ''[ata] Not an ATA device (ATAPI)'' [] s)
                           else (0, dlog ''[ata] Detected: %s (%u MB)''
                                      [AStr (takeWhile (\<lambda>c. c \<noteq> CHR 0x00) (ata_model ident)),
                                       AInt (ata_total_sectors ident div 2048)] s))))"

section \<open>The block layer\<close>

definition FS_BLOCK_SIZE :: nat where "FS_BLOCK_SIZE = 4096"
definition DISK_BLOCKS :: u32 where "DISK_BLOCKS = 1024"
definition SECTORS_PER_BLOCK :: nat where "SECTORS_PER_BLOCK = FS_BLOCK_SIZE div ATA_SECTOR_SIZE"

definition ramdisk_init :: "device \<Rightarrow> 'a disk_io_scheme \<Rightarrow> 'a disk_io_scheme" where
  "ramdisk_init dev s =
     (let (r, s) = ata_init dev s in
      if r < 0 then dlog ''[disk] WARNING: No ATA disk found!'' [] s
      else dlog ''[disk] ATA disk ready'' [] s)"

text \<open>\<open>block_read\<close> takes the contents of the buffer, which a block number out of range leaves in place.\<close>

definition block_read :: "device \<Rightarrow> u32 \<Rightarrow> u8 list \<Rightarrow> 'a disk_io_scheme \<Rightarrow> u8 list \<times> 'a disk_io_scheme" where
  "block_read dev block_no buf s =
     (if DISK_BLOCKS \<le> block_no then (buf, s)
      else (let lba = block_no * of_nat SECTORS_PER_BLOCK;
                (r, buf, s) = ata_read_sectors dev lba (of_nat SECTORS_PER_BLOCK) buf s
            in if r < 0
               then (replicate FS_BLOCK_SIZE 0 @ drop FS_BLOCK_SIZE buf,
                     dlog ''[disk] ERROR: block_read(%d) failed'' [AInt block_no] s)
               else (buf, s)))"

definition block_write :: "device \<Rightarrow> u32 \<Rightarrow> u8 list \<Rightarrow> 'a disk_io_scheme \<Rightarrow> 'a disk_io_scheme" where
  "block_write dev block_no buf s =
     (if DISK_BLOCKS \<le> block_no then s
      else (let lba = block_no * of_nat SECTORS_PER_BLOCK;
                (r, s) = ata_write_sectors dev lba (of_nat SECTORS_PER_BLOCK) buf s
            in if r < 0 then dlog ''[disk] ERROR: block_write(%d) failed'' [AInt block_no] s else s))"

section \<open>The drive\<close>

text \<open>
  What the driver relies on. A drive in PIO mode holds a medium of 16-bit words, the task file and
  the transfer under way: words it still sends, or the next place and the number of words it still
  takes. A sector count of 0 stands for 256.
\<close>

datatype transfer = Idle | Sending "u16 list" | Taking nat nat

record drive =
  medium :: "nat \<Rightarrow> u16"
  ident_data :: "u16 list"
  r_count :: u8
  r_lo :: u8
  r_mid :: u8
  r_hi :: u8
  r_dev :: u8
  transfer :: transfer

definition drive_lba :: "drive \<Rightarrow> nat" where
  "drive_lba d = unat (r_lo d) + 256 * unat (r_mid d) + 65536 * unat (r_hi d) + 16777216 * unat (r_dev d AND 0x0F)"

definition drive_words :: "drive \<Rightarrow> nat" where
  "drive_words d = 256 * (if r_count d = 0 then 256 else unat (r_count d))"

definition drive_cmd :: "u8 \<Rightarrow> drive \<Rightarrow> drive" where
  "drive_cmd c d =
     (if c = ATA_CMD_READ
        then d\<lparr>transfer := Sending (map (medium d) [256 * drive_lba d ..< 256 * drive_lba d + drive_words d])\<rparr>
      else if c = ATA_CMD_WRITE then d\<lparr>transfer := Taking (256 * drive_lba d) (drive_words d)\<rparr>
      else if c = ATA_CMD_IDENTIFY then d\<lparr>transfer := Sending (ident_data d)\<rparr>
      else d\<lparr>transfer := Idle\<rparr>)"

fun drive_step :: "io_event \<Rightarrow> drive \<Rightarrow> drive" where
  "drive_step (Out8 port v) d =
     (if port = ATA_PRIMARY_SECTORS then d\<lparr>r_count := v\<rparr>
      else if port = ATA_PRIMARY_LBA_LO then d\<lparr>r_lo := v\<rparr>
      else if port = ATA_PRIMARY_LBA_MID then d\<lparr>r_mid := v\<rparr>
      else if port = ATA_PRIMARY_LBA_HI then d\<lparr>r_hi := v\<rparr>
      else if port = ATA_PRIMARY_DRIVE then d\<lparr>r_dev := v\<rparr>
      else if port = ATA_PRIMARY_CMD then drive_cmd v d
      else d)"
| "drive_step (In16 port v) d =
     (if port = ATA_PRIMARY_DATA
      then (case transfer d of Sending (w # ws) \<Rightarrow> d\<lparr>transfer := Sending ws\<rparr> | _ \<Rightarrow> d)
      else d)"
| "drive_step (Out16 port v) d =
     (if port = ATA_PRIMARY_DATA
      then (case transfer d of
              Taking p (Suc n) \<Rightarrow> d\<lparr>medium := (medium d)(p := v), transfer := Taking (Suc p) n\<rparr>
            | _ \<Rightarrow> d)
      else d)"
| "drive_step _ d = d"

definition drive_run :: "io_event list \<Rightarrow> drive \<Rightarrow> drive" where
  "drive_run tr d = fold drive_step tr d"

fun transferring :: "transfer \<Rightarrow> bool" where
  "transferring (Sending (w # ws)) = True"
| "transferring (Taking p (Suc n)) = True"
| "transferring _ = False"

definition drive_status :: "drive \<Rightarrow> u8" where
  "drive_status d = 0x40 OR (if transferring (transfer d) then ATA_STATUS_DRQ else 0)"

text \<open>A device that answers like the drive on the status and data ports.\<close>

definition follows_drive :: "device \<Rightarrow> drive \<Rightarrow> bool" where
  "follows_drive dev d0 \<longleftrightarrow>
     (\<forall>tr. ucast (dev tr ATA_PRIMARY_ALTSTAT) = drive_status (drive_run tr d0) \<and>
           ucast (dev tr ATA_PRIMARY_CMD) = drive_status (drive_run tr d0) \<and>
           (\<forall>w ws. transfer (drive_run tr d0) = Sending (w # ws) \<longrightarrow> ucast (dev tr ATA_PRIMARY_DATA) = w))"

text \<open>The device that is the drive.\<close>

definition drive_device :: "drive \<Rightarrow> device" where
  "drive_device d0 tr port =
     (if port = ATA_PRIMARY_DATA
      then (case transfer (drive_run tr d0) of Sending (w # ws) \<Rightarrow> ucast w | _ \<Rightarrow> 0)
      else ucast (drive_status (drive_run tr d0)))"

definition drive_of :: "drive \<Rightarrow> 'a io_state_scheme \<Rightarrow> drive" where
  "drive_of d0 s = drive_run (io_trace s) d0"

definition drive_block :: "drive \<Rightarrow> nat \<Rightarrow> u8 list" where
  "drive_block d n = word_bytes (map (medium d) [2048 * n ..< 2048 * n + 2048])"

definition disk_blk :: "drive \<Rightarrow> 'a io_state_scheme \<Rightarrow> nat \<Rightarrow> u8 list" where
  "disk_blk d0 s n = drive_block (drive_of d0 s) n"

definition blank_drive :: drive where
  "blank_drive = \<lparr>medium = \<lambda>i. 0, ident_data = replicate 256 0x2020, r_count = 0, r_lo = 0, r_mid = 0, r_hi = 0,
     r_dev = 0, transfer = Idle\<rparr>"

text \<open>Everything but the trace is kept by what goes over the ports.\<close>

definition ports_only :: "'a io_state_scheme \<Rightarrow> 'a io_state_scheme \<Rightarrow> bool" where
  "ports_only s s' \<longleftrightarrow> (\<exists>tr. s' = s\<lparr>io_trace := tr\<rparr>)"

text \<open>A function with a stretch of its values replaced by a list.\<close>

definition overlay :: "(nat \<Rightarrow> 'a) \<Rightarrow> nat \<Rightarrow> 'a list \<Rightarrow> nat \<Rightarrow> 'a" where
  "overlay m p xs i = (if p \<le> i \<and> i < p + length xs then xs ! (i - p) else m i)"

section \<open>Bytes and words\<close>

lemma word_bytes_length [simp]: "length (word_bytes ws) = 2 * length ws"
  by (induction ws) auto

lemma word_bytes_append [simp]: "word_bytes (xs @ ys) = word_bytes xs @ word_bytes ys"
  by (induction xs) auto

lemma byte_words_length [simp]: "length (byte_words bs) = length bs div 2"
  by (induction bs rule: byte_words.induct) auto

lemma le_bytes_u16: "(ucast (ucast w :: u8) OR push_bit 8 (ucast (ucast (drop_bit 8 w) :: u8)) :: u16) = w"
proof (rule bit_word_eqI)
  fix n
  assume n: "n < LENGTH(16)"
  then consider "n < 8" | "8 \<le> n" by linarith
  then show "bit (ucast (ucast w :: u8) OR push_bit 8 (ucast (ucast (drop_bit 8 w) :: u8)) :: u16) n = bit w n"
    using n by cases (auto simp: bit_simps)
qed

lemma byte_words_word_bytes [simp]: "byte_words (word_bytes ws) = ws"
  by (induction ws) (simp_all add: le_bytes_u16)

lemma u16_low_byte: "(ucast (ucast a OR push_bit 8 (ucast b) :: u16) :: u8) = (a :: u8)"
  by (rule bit_word_eqI) (auto simp: bit_simps)

lemma u16_high_byte: "(ucast (drop_bit 8 (ucast (a :: u8) :: u16) OR drop_bit 8 (push_bit 8 (ucast b))) :: u8) = (b :: u8)"
proof (rule bit_word_eqI)
  fix n
  assume n: "n < LENGTH(8)"
  have "\<not> bit a (8 + n)"
    using bit_imp_le_length [of a "8 + n"] by auto
  then show "bit (ucast (drop_bit 8 (ucast a :: u16) OR drop_bit 8 (push_bit 8 (ucast b))) :: u8) n = bit b n"
    using n by (simp add: bit_simps)
qed

lemma word_bytes_byte_words: "even (length bs) \<Longrightarrow> word_bytes (byte_words bs) = bs"
  by (induction bs rule: byte_words.induct) (simp_all add: u16_low_byte u16_high_byte)

lemma byte_words_append:
  "even (length xs) \<Longrightarrow> byte_words (xs @ ys) = byte_words xs @ byte_words ys"
  by (induction xs rule: byte_words.induct) auto

lemma store_at_length [simp]: "off + length xs \<le> length buf \<Longrightarrow> length (store_at off xs buf) = length buf"
  by (simp add: store_at_def)

lemma drive_of_out8 [simp]: "drive_of d0 (outb p v s) = drive_step (Out8 p v) (drive_of d0 s)"
  by (simp add: drive_of_def drive_run_def outb_def)

lemma drive_of_out16 [simp]: "drive_of d0 (outw p v s) = drive_step (Out16 p v) (drive_of d0 s)"
  by (simp add: drive_of_def drive_run_def outw_def)

lemma ports_only_refl [simp]: "ports_only s s"
  unfolding ports_only_def by (rule exI [of _ "io_trace s"]) simp

lemma ports_only_trans [trans]: "ports_only s t \<Longrightarrow> ports_only t u \<Longrightarrow> ports_only s u"
  by (auto simp: ports_only_def)

lemma ports_only_outb [simp]: "ports_only s (outb p v s)" "ports_only s (outw p w s)"
  by (auto simp: ports_only_def outb_def outw_def)

lemma ports_only_eq:
  assumes "ports_only s s'" and "io_trace s' = io_trace s"
  shows "s' = s"
  using assms by (auto simp: ports_only_def)

lemma inb_status:
  assumes "follows_drive dev d0"
  shows "\<exists>s'. inb dev ATA_PRIMARY_ALTSTAT s = (drive_status (drive_of d0 s), s') \<and>
    drive_of d0 s' = drive_of d0 s \<and> ports_only s s'"
  using assms by (auto simp: inb_def Let_def follows_drive_def drive_of_def drive_run_def ports_only_def)

lemma drive_status_bits:
  "drive_status d AND ATA_STATUS_BSY = 0" "drive_status d AND ATA_STATUS_ERR = 0"
  "drive_status d AND ATA_STATUS_DRQ \<noteq> 0 \<longleftrightarrow> transferring (transfer d)"
  by (simp_all add: drive_status_def ATA_STATUS_BSY_def ATA_STATUS_ERR_def ATA_STATUS_DRQ_def)

lemma ATA_POLLS_Suc: obtains n where "ATA_POLLS = Suc n"
  by (rule that [of 29999998]) (simp add: ATA_POLLS_def)

lemma wait_busy_ok:
  assumes "follows_drive dev d0"
  shows "\<exists>s'. ata_wait_busy dev s = (0, s') \<and> drive_of d0 s' = drive_of d0 s \<and> ports_only s s'"
proof -
  obtain n where n: "ATA_POLLS = Suc n" by (rule ATA_POLLS_Suc)
  show ?thesis
    using inb_status [OF assms, of s] unfolding ata_wait_busy_def n by (auto simp: drive_status_bits)
qed

lemma wait_drq_ok:
  assumes "follows_drive dev d0" and "transferring (transfer (drive_of d0 s))"
  shows "\<exists>s'. ata_wait_drq dev s = (0, s') \<and> drive_of d0 s' = drive_of d0 s \<and> ports_only s s'"
proof -
  obtain s1 where 1: "ata_wait_busy dev s = (0, s1)" "drive_of d0 s1 = drive_of d0 s" "ports_only s s1"
    using wait_busy_ok [OF assms(1)] by blast
  obtain s2 where 2: "inb dev ATA_PRIMARY_ALTSTAT s1 = (drive_status (drive_of d0 s1), s2)"
    "drive_of d0 s2 = drive_of d0 s1" "ports_only s1 s2"
    using inb_status [OF assms(1)] by blast
  have st: "drive_status (drive_of d0 s1) AND ATA_STATUS_DRQ \<noteq> 0"
    using assms(2) 1(2) by (simp add: drive_status_bits)
  obtain n where n: "ATA_POLLS = Suc n" by (rule ATA_POLLS_Suc)
  show ?thesis
    using 1 2 st ports_only_trans [OF 1(3) 2(3)] unfolding ata_wait_drq_def n by (auto simp: drive_status_bits(2))
qed

lemma inw_n_sending:
  assumes "follows_drive dev d0" and "transfer (drive_of d0 s) = Sending (ws @ rest)"
  shows "\<exists>s'. inw_n dev ATA_PRIMARY_DATA (length ws) s = (ws, s') \<and>
    drive_of d0 s' = (drive_of d0 s)\<lparr>transfer := Sending rest\<rparr> \<and> ports_only s s'"
  using assms(2)
proof (induction ws arbitrary: s)
  case Nil
  then have "drive_of d0 s = (drive_of d0 s)\<lparr>transfer := Sending rest\<rparr>"
    by simp
  then show ?case by auto
next
  case (Cons w ws)
  obtain s1 where 1: "inw dev ATA_PRIMARY_DATA s = (w, s1)"
    "drive_of d0 s1 = (drive_of d0 s)\<lparr>transfer := Sending (ws @ rest)\<rparr>" "ports_only s s1"
    using assms(1) Cons.prems
    by (auto simp: inw_def Let_def follows_drive_def drive_of_def drive_run_def ports_only_def)
  obtain s2 where 2: "inw_n dev ATA_PRIMARY_DATA (length ws) s1 = (ws, s2)"
    "drive_of d0 s2 = (drive_of d0 s1)\<lparr>transfer := Sending rest\<rparr>" "ports_only s1 s2"
    using Cons.IH [of s1] 1(2) by auto
  show ?case
    using 1 2 ports_only_trans [OF 1(3) 2(3)] by auto
qed

lemma overlay_Nil [simp]: "overlay m p [] = m"
  by (auto simp: overlay_def fun_eq_iff)

lemma overlay_Cons: "overlay (m(p := x)) (Suc p) xs = overlay m p (x # xs)"
  by (auto simp: overlay_def fun_eq_iff nth_Cons' not_less_eq_eq le_antisym)

lemma overlay_Cons_if: "overlay (\<lambda>a. if a = p then x else m a) (Suc p) xs = overlay m p (x # xs)"
  using overlay_Cons [of m p x xs] by (simp add: fun_upd_def)

lemma overlay_append: "overlay (overlay m p xs) (p + length xs) ys = overlay m p (xs @ ys)"
  by (auto simp: overlay_def fun_eq_iff nth_append)

lemma overlay_inside: "map (overlay m p xs) [p ..< p + length xs] = xs"
  by (rule nth_equalityI) (simp_all add: overlay_def)

lemma overlay_outside:
  "b \<le> p \<or> p + length xs \<le> a \<Longrightarrow> map (overlay m p xs) [a ..< b] = map m [a ..< b]"
  by (auto simp: overlay_def)

lemma outw_list_taking:
  assumes "transfer (drive_of d0 s) = Taking p (length ws + n)"
  shows "drive_of d0 (outw_list ATA_PRIMARY_DATA ws s) =
     (drive_of d0 s)\<lparr>medium := overlay (medium (drive_of d0 s)) p ws, transfer := Taking (p + length ws) n\<rparr>
     \<and> ports_only s (outw_list ATA_PRIMARY_DATA ws s)"
  using assms
proof (induction ws arbitrary: s p)
  case Nil
  then show ?case by simp
next
  case (Cons w ws)
  have t: "transfer (drive_of d0 (outw ATA_PRIMARY_DATA w s)) = Taking (Suc p) (length ws + n)"
    using Cons.prems by simp
  have "ports_only s (outw_list ATA_PRIMARY_DATA (w # ws) s)"
    using ports_only_trans [OF ports_only_outb(2)] Cons.IH [OF t] by auto
  then show ?case
    using conjunct1 [OF Cons.IH [OF t]] Cons.prems by (simp add: overlay_Cons_if)
qed

lemma u32_digits:
  "n mod 256 + 256 * (n div 256 mod 256) + 65536 * (n div 65536 mod 256) + 16777216 * (n div 16777216) = (n :: nat)"
proof -
  have "n div 65536 = n div 256 div 256" "n div 16777216 = n div 256 div 256 div 256"
    by (simp_all flip: div_mult2_eq)
  moreover have "a mod 256 + 256 * (a div 256) = a" for a :: nat
    by (rule mod_mult_div_eq)
  from this [of n] this [of "n div 256"] this [of "n div 256 div 256"] show ?thesis
    unfolding calculation by linarith
qed

text \<open>The registers name the address and the count of the command.\<close>

lemma ata_command_drive:
  assumes "unat lba < 268435456"
  shows "drive_of d0 (ata_command lba count cmd s) =
      drive_cmd cmd (drive_of d0 s\<lparr>r_count := count, r_lo := ucast lba, r_mid := ucast (drop_bit 8 lba),
        r_hi := ucast (drop_bit 16 lba), r_dev := ATA_DRIVE_MASTER OR (ucast (drop_bit 24 lba) AND 0x0F)\<rparr>)"
    and "drive_lba (d\<lparr>r_count := count, r_lo := ucast lba, r_mid := ucast (drop_bit 8 lba),
        r_hi := ucast (drop_bit 16 lba), r_dev := ATA_DRIVE_MASTER OR (ucast (drop_bit 24 lba) AND 0x0F)\<rparr>) = unat lba"
    and "ports_only s (ata_command lba count cmd s)"
proof -
  show "drive_of d0 (ata_command lba count cmd s) =
      drive_cmd cmd (drive_of d0 s\<lparr>r_count := count, r_lo := ucast lba, r_mid := ucast (drop_bit 8 lba),
        r_hi := ucast (drop_bit 16 lba), r_dev := ATA_DRIVE_MASTER OR (ucast (drop_bit 24 lba) AND 0x0F)\<rparr>)"
    by (simp add: ata_command_def Let_def ata_ports)
  have "(ATA_DRIVE_MASTER OR (ucast (drop_bit 24 lba) AND 0x0F)) AND (0x0F :: u8) = ucast (drop_bit 24 lba) AND 0x0F"
    by (simp add: ATA_DRIVE_MASTER_def bit.conj_disj_distrib2 and.assoc)
  moreover have "unat (ucast (drop_bit 24 lba) AND 0x0F :: u8) = unat lba div 16777216"
  proof -
    have "unat (ucast (drop_bit 24 lba) AND 0x0F :: u8) = unat (take_bit 4 (ucast (drop_bit 24 lba) :: u8))"
      by (simp add: take_bit_eq_mask mask_eq_exp_minus_1)
    also have "\<dots> = unat lba div 16777216"
      using assms by (simp only: unat_drop_bit_eq unsigned_take_bit_eq unsigned_ucast_eq)
        (simp add: take_bit_eq_mod drop_bit_eq_div)
    finally show ?thesis .
  qed
  moreover have "unat (ucast lba :: u8) = unat lba mod 256" "unat (ucast (drop_bit 8 lba) :: u8) = unat lba div 256 mod 256"
    "unat (ucast (drop_bit 16 lba) :: u8) = unat lba div 65536 mod 256"
    by (simp_all add: unat_div drop_bit_eq_div take_bit_eq_mod unsigned_ucast_eq)
  moreover have "unat lba mod 256 + 256 * (unat lba div 256 mod 256) + 65536 * (unat lba div 65536 mod 256)
      + 16777216 * (unat lba div 16777216) = unat lba"
    by (rule u32_digits)
  ultimately show "drive_lba (d\<lparr>r_count := count, r_lo := ucast lba, r_mid := ucast (drop_bit 8 lba),
        r_hi := ucast (drop_bit 16 lba), r_dev := ATA_DRIVE_MASTER OR (ucast (drop_bit 24 lba) AND 0x0F)\<rparr>) = unat lba"
    by (simp add: drive_lba_def)
  show "ports_only s (ata_command lba count cmd s)"
    by (auto simp: ata_command_def Let_def ports_only_def outb_def)
qed


lemma store_at_store_at:
  assumes "off + length xs + length ys \<le> length buf"
  shows "store_at (off + length xs) ys (store_at off xs buf) = store_at off (xs @ ys) buf"
  using assms by (simp add: store_at_def add.commute add.left_commute)

lemma store_at_Nil [simp]: "store_at off [] buf = buf"
  by (simp add: store_at_def)

lemma store_at_all: "length xs = length buf \<Longrightarrow> store_at 0 xs buf = xs"
  by (simp add: store_at_def)

lemma transferring_Taking: "transferring (Taking p n) \<longleftrightarrow> 0 < n"
  by (cases n) simp_all

lemma read_loop_ok:
  assumes "follows_drive dev d0" and "transfer (drive_of d0 s) = Sending ws"
    and "length ws = 256 * k" and "512 * (i + k) \<le> length buf"
  shows "\<exists>s'. ata_read_loop dev [i ..< i + k] buf s = (True, store_at (512 * i) (word_bytes ws) buf, s') \<and>
    drive_of d0 s' = (drive_of d0 s)\<lparr>transfer := Sending []\<rparr> \<and> ports_only s s'"
  using assms(2-4)
proof (induction k arbitrary: i ws buf s)
  case 0
  then have "drive_of d0 s = (drive_of d0 s)\<lparr>transfer := Sending []\<rparr>" by simp
  then show ?case using 0 by auto
next
  case (Suc k)
  let ?x = "take 256 ws" and ?y = "drop 256 ws"
  have len: "length ?x = 256" "length ?y = 256 * k"
    using Suc.prems(2) by simp_all
  have "transferring (transfer (drive_of d0 s))"
    using Suc.prems(1,2) by (cases ws) auto
  from wait_drq_ok [OF assms(1) this] obtain s1
    where 1: "ata_wait_drq dev s = (0, s1)" "drive_of d0 s1 = drive_of d0 s" "ports_only s s1" by blast
  have "transfer (drive_of d0 s1) = Sending (?x @ ?y)"
    using Suc.prems(1) 1(2) by simp
  from inw_n_sending [OF assms(1) this] obtain s2
    where 2: "inw_n dev ATA_PRIMARY_DATA 256 s1 = (?x, s2)"
      "drive_of d0 s2 = (drive_of d0 s1)\<lparr>transfer := Sending ?y\<rparr>" "ports_only s1 s2"
    using len(1) by auto
  let ?b = "store_at (512 * i) (word_bytes ?x) buf"
  have lb: "length ?b = length buf"
    using Suc.prems(3) len(1) by simp
  obtain s3 where 3: "ata_read_loop dev [Suc i ..< Suc i + k] ?b s2 = (True, store_at (512 * Suc i) (word_bytes ?y) ?b, s3)"
      "drive_of d0 s3 = (drive_of d0 s2)\<lparr>transfer := Sending []\<rparr>" "ports_only s2 s3"
    using Suc.IH [of s2 ?y "Suc i" ?b] 2(2) len(2) lb Suc.prems(3) by auto
  have sp: "store_at (512 * Suc i) (word_bytes ?y) ?b = store_at (512 * i) (word_bytes ws) buf"
    using store_at_store_at [of "512 * i" "word_bytes ?x" "word_bytes ?y" buf] Suc.prems(3) len
    by (simp add: add.commute flip: word_bytes_append)
  have up: "[i ..< i + Suc k] = i # [Suc i ..< Suc i + k]"
    by (simp add: upt_conv_Cons)
  have run: "ata_read_loop dev [i ..< i + Suc k] buf s = (True, store_at (512 * i) (word_bytes ws) buf, s3)"
    unfolding up using 1(1) 2(1) 3(1) sp by (simp add: ATA_SECTOR_SIZE_def mult.commute)
  have "ports_only s s3"
    using 1(3) 2(3) 3(3) by (blast intro: ports_only_trans)
  then show ?case
    using run 1(2) 2(2) 3(2) by simp
qed

lemma write_loop_ok:
  assumes "follows_drive dev d0" and "transfer (drive_of d0 s) = Taking p (256 * k)" and "512 * (i + k) \<le> length buf"
  shows "\<exists>s'. ata_write_loop dev [i ..< i + k] buf s = (True, s') \<and>
    drive_of d0 s' = (drive_of d0 s)\<lparr>medium := overlay (medium (drive_of d0 s)) p (byte_words (take (512 * k) (drop (512 * i) buf))),
      transfer := Taking (p + 256 * k) 0\<rparr> \<and> ports_only s s'"
  using assms(2,3)
proof (induction k arbitrary: i p s)
  case 0
  then show ?case by simp
next
  case (Suc k)
  have "transferring (transfer (drive_of d0 s))"
    using Suc.prems(1) by (simp add: transferring_Taking)
  from wait_drq_ok [OF assms(1) this] obtain s1
    where 1: "ata_wait_drq dev s = (0, s1)" "drive_of d0 s1 = drive_of d0 s" "ports_only s s1" by blast
  define ws where "ws = byte_words (take 512 (drop (512 * i) buf))"
  have lw: "length ws = 256"
    using Suc.prems(2) by (simp add: ws_def)
  define s2 where "s2 = outw_list ATA_PRIMARY_DATA ws s1"
  have 2: "drive_of d0 s2 = (drive_of d0 s1)\<lparr>medium := overlay (medium (drive_of d0 s1)) p ws,
      transfer := Taking (p + 256) (256 * k)\<rparr>" "ports_only s1 s2"
    using outw_list_taking [of d0 s1 p ws "256 * k"] Suc.prems(1) 1(2) lw by (simp_all add: s2_def)
  obtain s3 where 3: "ata_write_loop dev [Suc i ..< Suc i + k] buf s2 = (True, s3)"
      "drive_of d0 s3 = (drive_of d0 s2)\<lparr>medium := overlay (medium (drive_of d0 s2)) (p + 256)
         (byte_words (take (512 * k) (drop (512 * Suc i) buf))), transfer := Taking (p + 256 + 256 * k) 0\<rparr>"
      "ports_only s2 s3"
    using Suc.IH [of s2 "p + 256" "Suc i"] 2(1) Suc.prems(2) by auto
  have sp: "ws @ byte_words (take (512 * k) (drop (512 * Suc i) buf)) = byte_words (take (512 * Suc k) (drop (512 * i) buf))"
    using byte_words_append [of "take 512 (drop (512 * i) buf)" "take (512 * k) (drop (512 * Suc i) buf)"] Suc.prems(2)
    by (simp add: ws_def take_add add.commute)
  have up: "[i ..< i + Suc k] = i # [Suc i ..< Suc i + k]"
    by (simp add: upt_conv_Cons)
  have run: "ata_write_loop dev [i ..< i + Suc k] buf s = (True, s3)"
    unfolding up using 1(1) 3(1) by (simp add: ATA_SECTOR_SIZE_def mult.commute s2_def ws_def)
  have "ports_only s s3"
    using 1(3) 2(2) 3(3) by (blast intro: ports_only_trans)
  then show ?case
    using run 1(2) 2(1) 3(2) overlay_append [of "medium (drive_of d0 s)" p ws] lw sp by simp
qed


lemma ata_read_sectors_ok:
  assumes "follows_drive dev d0" and "unat lba < 268435456" and "count \<noteq> 0" and "length buf = 512 * unat count"
  shows "\<exists>s'. ata_read_sectors dev lba count buf s =
      (512 * int (unat count),
       word_bytes (map (medium (drive_of d0 s)) [256 * unat lba ..< 256 * unat lba + 256 * unat count]), s') \<and>
    medium (drive_of d0 s') = medium (drive_of d0 s) \<and> ports_only s s'"
proof -
  obtain s1 where 1: "ata_wait_busy dev s = (0, s1)" "drive_of d0 s1 = drive_of d0 s" "ports_only s s1"
    using wait_busy_ok [OF assms(1)] by blast
  define s2 where "s2 = ata_command lba count ATA_CMD_READ s1"
  define ws where "ws = map (medium (drive_of d0 s)) [256 * unat lba ..< 256 * unat lba + 256 * unat count]"
  have w: "drive_words (d\<lparr>r_count := count, r_lo := a, r_mid := b, r_hi := c, r_dev := e\<rparr>) = 256 * unat count" for d a b c e
    using assms(3) by (simp add: drive_words_def)
  have 2: "transfer (drive_of d0 s2) = Sending ws" "medium (drive_of d0 s2) = medium (drive_of d0 s)" "ports_only s1 s2"
    by (simp_all add: s2_def ata_command_drive [OF assms(2)] 1(2) w drive_cmd_def ws_def)
  obtain s3 where 3: "ata_read_loop dev [0 ..< 0 + unat count] buf s2 = (True, store_at (512 * 0) (word_bytes ws) buf, s3)"
      "drive_of d0 s3 = (drive_of d0 s2)\<lparr>transfer := Sending []\<rparr>" "ports_only s2 s3"
    using read_loop_ok [OF assms(1) 2(1), of "unat count" 0 buf] assms(4) by (auto simp: ws_def)
  have "store_at 0 (word_bytes ws) buf = word_bytes ws"
    using assms(4) by (simp add: store_at_all ws_def)
  then have run: "ata_read_sectors dev lba count buf s = (512 * int (unat count), word_bytes ws, s3)"
    using assms(3) 1(1) 3(1) by (simp add: ata_read_sectors_def s2_def ATA_SECTOR_SIZE_def)
  have "ports_only s s3"
    using 1(3) 2(3) 3(3) by (blast intro: ports_only_trans)
  then show ?thesis
    using run 2(2) 3(2) by (simp add: ws_def)
qed

lemma ata_write_sectors_ok:
  assumes "follows_drive dev d0" and "unat lba < 268435456" and "count \<noteq> 0" and "length buf = 512 * unat count"
  shows "\<exists>s'. ata_write_sectors dev lba count buf s = (512 * int (unat count), s') \<and>
    medium (drive_of d0 s') = overlay (medium (drive_of d0 s)) (256 * unat lba) (byte_words buf) \<and> ports_only s s'"
proof -
  obtain s1 where 1: "ata_wait_busy dev s = (0, s1)" "drive_of d0 s1 = drive_of d0 s" "ports_only s s1"
    using wait_busy_ok [OF assms(1)] by blast
  define s2 where "s2 = ata_command lba count ATA_CMD_WRITE s1"
  have w: "drive_words (d\<lparr>r_count := count, r_lo := a, r_mid := b, r_hi := c, r_dev := e\<rparr>) = 256 * unat count" for d a b c e
    using assms(3) by (simp add: drive_words_def)
  have 2: "transfer (drive_of d0 s2) = Taking (256 * unat lba) (256 * unat count)"
      "medium (drive_of d0 s2) = medium (drive_of d0 s)" "ports_only s1 s2"
    by (simp_all add: s2_def ata_command_drive [OF assms(2)] 1(2) w drive_cmd_def ATA_CMD_READ_def ATA_CMD_WRITE_def)
  obtain s3 where 3: "ata_write_loop dev [0 ..< 0 + unat count] buf s2 = (True, s3)"
      "medium (drive_of d0 s3) = overlay (medium (drive_of d0 s2)) (256 * unat lba) (byte_words buf)" "ports_only s2 s3"
    using write_loop_ok [OF assms(1) 2(1), of 0 buf] assms(4) by auto
  obtain s4 where 4: "ata_wait_busy dev s3 = (0, s4)" "drive_of d0 s4 = drive_of d0 s3" "ports_only s3 s4"
    using wait_busy_ok [OF assms(1)] by blast
  have run: "ata_write_sectors dev lba count buf s = (512 * int (unat count), s4)"
    using assms(3) 1(1) 3(1) 4(1) by (simp add: ata_write_sectors_def s2_def ATA_SECTOR_SIZE_def)
  have "ports_only s s4"
    using 1(3) 2(3) 3(3) 4(3) by (blast intro: ports_only_trans)
  then show ?thesis
    using run 2(2) 3(2) 4(2) by simp
qed

section \<open>Blocks\<close>

lemma disk_blk_length [simp]: "length (disk_blk d0 s n) = 4096"
  by (simp add: disk_blk_def drive_block_def)

lemma block_lba:
  assumes "block_no < DISK_BLOCKS"
  shows "unat (block_no * of_nat SECTORS_PER_BLOCK) = 8 * unat block_no"
    and "(of_nat SECTORS_PER_BLOCK :: u8) = 8" and "unat block_no < 1024"
proof -
  show n: "unat block_no < 1024"
    using assms by (simp add: DISK_BLOCKS_def word_less_nat_alt)
  show "(of_nat SECTORS_PER_BLOCK :: u8) = 8"
    by (simp add: SECTORS_PER_BLOCK_def FS_BLOCK_SIZE_def ATA_SECTOR_SIZE_def)
  show "unat (block_no * of_nat SECTORS_PER_BLOCK) = 8 * unat block_no"
    using n by (simp add: SECTORS_PER_BLOCK_def FS_BLOCK_SIZE_def ATA_SECTOR_SIZE_def unat_word_ariths)
qed

lemma block_read_ok:
  assumes "follows_drive dev d0" and "n < DISK_BLOCKS" and "length buf = 4096"
  shows "\<exists>s'. block_read dev n buf s = (disk_blk d0 s (unat n), s') \<and> disk_blk d0 s' = disk_blk d0 s \<and> ports_only s s'"
proof -
  note lba = block_lba [OF assms(2)]
  have l: "unat (n * of_nat SECTORS_PER_BLOCK) < 268435456" "length buf = 512 * unat (8 :: u8)"
    using lba assms(3) by simp_all
  show ?thesis
    using ata_read_sectors_ok [OF assms(1) l(1) _ l(2), of s] assms(2)
    by (auto simp: block_read_def lba disk_blk_def [abs_def] drive_block_def)
qed

lemma block_write_ok:
  assumes "follows_drive dev d0" and "n < DISK_BLOCKS" and "length buf = 4096"
  shows "disk_blk d0 (block_write dev n buf s) = (disk_blk d0 s)(unat n := buf) \<and> ports_only s (block_write dev n buf s)"
proof -
  note lba = block_lba [OF assms(2)]
  have l: "unat (n * of_nat SECTORS_PER_BLOCK) < 268435456" "length buf = 512 * unat (8 :: u8)"
    using lba assms(3) by simp_all
  obtain s' where s': "ata_write_sectors dev (n * of_nat SECTORS_PER_BLOCK) 8 buf s = (512 * int (unat (8 :: u8)), s')"
      "medium (drive_of d0 s') = overlay (medium (drive_of d0 s)) (2048 * unat n) (byte_words buf)" "ports_only s s'"
    using ata_write_sectors_ok [OF assms(1) l(1) _ l(2), of s] lba by auto
  have w: "block_write dev n buf s = s'"
    using s'(1) assms(2) by (simp add: block_write_def lba)
  have "disk_blk d0 s' k = ((disk_blk d0 s)(unat n := buf)) k" for k
  proof (cases "k = unat n")
    case True
    then show ?thesis
      using s'(2) assms(3) overlay_inside [of _ "2048 * unat n" "byte_words buf"]
      by (simp add: disk_blk_def drive_block_def word_bytes_byte_words)
  next
    case False
    then have "2048 * k + 2048 \<le> 2048 * unat n \<or> 2048 * unat n + 2048 \<le> 2048 * k" by linarith
    then show ?thesis
      using s'(2) assms(3) False
        arg_cong [OF overlay_outside [of "2048 * k + 2048" "2048 * unat n" "byte_words buf" "2048 * k"], of word_bytes]
      by (simp only: disk_blk_def drive_block_def fun_upd_apply byte_words_length) simp
  qed
  then show ?thesis
    using w s'(3) by auto
qed


lemma block_out_of_range:
  "DISK_BLOCKS \<le> n \<Longrightarrow> block_read dev n buf s = (buf, s)"
  "DISK_BLOCKS \<le> n \<Longrightarrow> block_write dev n buf s = s"
  by (simp_all add: block_read_def block_write_def)

section \<open>The block device as an interface\<close>

text \<open>
  What a client of the block layer relies on: while the device is \<open>ok\<close>, its blocks behave like an
  array that reading leaves alone and writing updates in one place.
\<close>

locale block_device =
  fixes bread :: "u32 \<Rightarrow> u8 list \<Rightarrow> 'd \<Rightarrow> u8 list \<times> 'd"
    and bwrite :: "u32 \<Rightarrow> u8 list \<Rightarrow> 'd \<Rightarrow> 'd"
    and blocks :: "'d \<Rightarrow> nat \<Rightarrow> u8 list"
    and ok :: bool
  assumes read_block: "ok \<Longrightarrow> n < DISK_BLOCKS \<Longrightarrow> length buf = 4096 \<Longrightarrow> fst (bread n buf d) = blocks d (unat n)"
    and read_keeps: "ok \<Longrightarrow> n < DISK_BLOCKS \<Longrightarrow> length buf = 4096 \<Longrightarrow> blocks (snd (bread n buf d)) = blocks d"
    and write_block: "ok \<Longrightarrow> n < DISK_BLOCKS \<Longrightarrow> length buf = 4096 \<Longrightarrow> blocks (bwrite n buf d) = (blocks d)(unat n := buf)"
    and out_of_range: "DISK_BLOCKS \<le> n \<Longrightarrow> bread n buf d = (buf, d)" "DISK_BLOCKS \<le> n \<Longrightarrow> bwrite n buf d = d"
begin

lemma read_after_write:
  assumes "ok" "n < DISK_BLOCKS" "length buf = 4096" "length b = 4096"
  shows "fst (bread n b (bwrite n buf d)) = buf"
  using assms by (simp add: read_block write_block)

lemma read_other:
  assumes "ok" "n < DISK_BLOCKS" "k < DISK_BLOCKS" "k \<noteq> n" "length buf = 4096" "length b = 4096"
  shows "fst (bread k b (bwrite n buf d)) = fst (bread k b d)"
  using assms by (simp add: read_block write_block word_unat_eq_iff)

lemma write_twice:
  assumes "ok" "n < DISK_BLOCKS" "length buf = 4096" "length buf' = 4096"
  shows "blocks (bwrite n buf' (bwrite n buf d)) = blocks (bwrite n buf' d)"
  using assms by (simp add: write_block)

lemma write_swap:
  assumes "ok" "n < DISK_BLOCKS" "k < DISK_BLOCKS" "k \<noteq> n" "length buf = 4096" "length buf' = 4096"
  shows "blocks (bwrite k buf' (bwrite n buf d)) = blocks (bwrite n buf (bwrite k buf' d))"
  using assms by (simp add: write_block fun_upd_twist word_unat_eq_iff)

text \<open>A sequence of writes leaves in each block what was written there last.\<close>

lemma writes_last:
  assumes "ok" "\<forall>(n, buf) \<in> set ws. n < DISK_BLOCKS \<and> length buf = 4096"
  shows "blocks (fold (\<lambda>(n, buf). bwrite n buf) ws d) k =
    (case map_of (rev (map (\<lambda>(n, buf). (unat n, buf)) ws)) k of None \<Rightarrow> blocks d k | Some buf \<Rightarrow> buf)"
  using assms(2)
proof (induction ws arbitrary: d)
  case Nil
  then show ?case by simp
next
  case (Cons w ws)
  then show ?case
    using assms(1) by (cases w) (auto simp: write_block map_add_def split: option.splits)
qed

end

interpretation disk: block_device "block_read dev" "block_write dev" "disk_blk d0" "follows_drive dev d0"
  for dev d0
proof
  fix n :: u32 and buf :: "u8 list" and s :: "'b disk_io_scheme"
  assume a: "follows_drive dev d0" "n < DISK_BLOCKS" "length buf = 4096"
  show "fst (block_read dev n buf s) = disk_blk d0 s (unat n)" and "disk_blk d0 (snd (block_read dev n buf s)) = disk_blk d0 s"
    using block_read_ok [OF a, of s] by auto
  show "disk_blk d0 (block_write dev n buf s) = (disk_blk d0 s)(unat n := buf)"
    using block_write_ok [OF a, of s] by blast
qed (simp_all add: block_out_of_range)


lemma ucast_u16_u32_u16: "(ucast (ucast (w :: u16) :: u32) :: u16) = w"
  by (rule bit_word_eqI) (simp add: bit_simps)

lemma drive_device_follows: "follows_drive (drive_device d0) d0"
  by (auto simp: follows_drive_def drive_device_def ata_ports ucast_u16_u32_u16)

section \<open>Failures\<close>

lemma wait_busy_timeout:
  assumes "\<And>tr. ucast (dev tr ATA_PRIMARY_ALTSTAT) AND ATA_STATUS_BSY \<noteq> 0"
  shows "\<exists>s'. ata_wait_busy_loop dev n s = (-1, s') \<and> ports_only s s' \<and> length (io_trace s') = length (io_trace s) + n"
proof (induction n arbitrary: s)
  case 0
  then show ?case by simp
next
  case (Suc n)
  define s1 where "s1 = snd (inb dev ATA_PRIMARY_ALTSTAT s)"
  have 1: "inb dev ATA_PRIMARY_ALTSTAT s = (ucast (dev (io_trace s) ATA_PRIMARY_ALTSTAT), s1)"
    "ports_only s s1" "length (io_trace s1) = Suc (length (io_trace s))"
    by (auto simp: s1_def inb_def Let_def ports_only_def)
  obtain s2 where 2: "ata_wait_busy_loop dev n s1 = (-1, s2)" "ports_only s1 s2"
    "length (io_trace s2) = length (io_trace s1) + n"
    using Suc.IH by blast
  then show ?case
    using 1 assms [of "io_trace s"] ports_only_trans [OF 1(2) 2(2)] by simp
qed



text \<open>
  C10. The disk is an array of 1024 blocks: on a drive that answers the ATA commands, what a read of
  a block delivers after any sequence of block writes is what was written to that block last, or
  what the drive held before.
\<close>

theorem block_read_last_write:
  assumes "follows_drive dev d0" and "\<forall>(n, buf) \<in> set ws. n < DISK_BLOCKS \<and> length buf = 4096"
    and "k < DISK_BLOCKS" and "length b = 4096"
  shows "fst (block_read dev k b (fold (\<lambda>(n, buf). block_write dev n buf) ws s)) =
    (case map_of (rev ws) k of None \<Rightarrow> disk_blk d0 s (unat k) | Some buf \<Rightarrow> buf)"
proof -
  have "map_of (map (\<lambda>(n, buf). (unat n, buf)) xs) (unat k) = map_of xs k" for xs :: "(u32 \<times> u8 list) list"
    by (induction xs) (auto simp: word_unat_eq_iff)
  then show ?thesis
    by (simp add: disk.read_block [OF assms(1,3,4)] disk.writes_last [OF assms(1,2)] rev_map)
qed

theorem block_read_last_write_witness:
  "fst (block_read (drive_device blank_drive) 5 (replicate 4096 0)
     (block_write (drive_device blank_drive) 6 (replicate 4096 3)
       (block_write (drive_device blank_drive) 5 (replicate 4096 7) \<lparr>io_trace = [], disk_log = []\<rparr>)))
   = replicate 4096 7"
  using block_read_last_write [OF drive_device_follows,
      of "[(5, replicate 4096 7), (6, replicate 4096 3)]" 5 "replicate 4096 0" blank_drive "\<lparr>io_trace = [], disk_log = []\<rparr>"]
  by (simp add: DISK_BLOCKS_def)

text \<open>
  Detection of the disk: on a drive whose identification data has 256 words and is not that of a
  packet device, \<open>ata_init\<close> succeeds, prints the trimmed model name and the capacity in MB from words
  60 and 61, and leaves every block as it was.
\<close>

theorem ata_init_detects:
  assumes "follows_drive dev d0" and "length (ident_data (drive_of d0 s)) = 256"
    and "ident_data (drive_of d0 s) ! 0 AND 0x8000 = 0"
  shows "fst (ata_init dev s) = 0 \<and>
    disk_log (snd (ata_init dev s)) = disk_log s @
      [(''[ata] Initializing...'' @ [LF], []),
       (''[ata] Detected: %s (%u MB)'' @ [LF],
        [AStr (takeWhile (\<lambda>c. c \<noteq> CHR 0x00) (ata_model (ident_data (drive_of d0 s)))),
         AInt (ata_total_sectors (ident_data (drive_of d0 s)) div 2048)])] \<and>
    disk_blk d0 (snd (ata_init dev s)) = disk_blk d0 s"
proof -
  define s1 where "s1 = outb ATA_PRIMARY_DRIVE ATA_DRIVE_MASTER (dlog ''[ata] Initializing...'' [] s)"
  define s2 where "s2 = ata_delay dev s1"
  define s3 where "s3 = snd (inb dev ATA_PRIMARY_CMD s2)"
  define s4 where "s4 = ata_delay dev (ata_identify s3)"
  have delay: "drive_of d0 (ata_delay dev t) = drive_of d0 t" "ports_only t (ata_delay dev t)" for t :: "'a disk_io_scheme"
    by (auto simp: ata_delay_def inb_def Let_def drive_of_def drive_run_def ports_only_def)
  have 1: "medium (drive_of d0 s1) = medium (drive_of d0 s)" "ident_data (drive_of d0 s1) = ident_data (drive_of d0 s)"
    by (simp_all add: s1_def ata_ports dlog_def drive_of_def drive_run_def outb_def)
  have 3: "inb dev ATA_PRIMARY_CMD s2 = (drive_status (drive_of d0 s2), s3)" "drive_of d0 s3 = drive_of d0 s1" "ports_only s2 s3"
    using assms(1) delay(1) [of s1]
    by (auto simp: s3_def s2_def inb_def Let_def follows_drive_def drive_of_def drive_run_def ports_only_def)
  have 4: "medium (drive_of d0 s4) = medium (drive_of d0 s)" "transfer (drive_of d0 s4) = Sending (ident_data (drive_of d0 s))"
    using 1 3(2) by (simp_all add: s4_def delay ata_identify_def Let_def ata_consts drive_cmd_def)
  have "transferring (transfer (drive_of d0 s4))"
    using 4(2) assms(2) by (cases "ident_data (drive_of d0 s)") auto
  from wait_drq_ok [OF assms(1) this] obtain s5
    where 5: "ata_wait_drq dev s4 = (0, s5)" "drive_of d0 s5 = drive_of d0 s4" "ports_only s4 s5" by blast
  obtain s6 where 6: "inw_n dev ATA_PRIMARY_DATA 256 s5 = (ident_data (drive_of d0 s), s6)"
      "medium (drive_of d0 s6) = medium (drive_of d0 s)" "ports_only s5 s6"
    using inw_n_sending [OF assms(1), of s5 "ident_data (drive_of d0 s)" "[]"] 4 5(2) assms(2) by auto
  have "drive_status (drive_of d0 s2) \<noteq> 0xFF"
    by (simp add: drive_status_def ATA_STATUS_DRQ_def)
  then have run: "ata_init dev s = (0, dlog ''[ata] Detected: %s (%u MB)''
      [AStr (takeWhile (\<lambda>c. c \<noteq> CHR 0x00) (ata_model (ident_data (drive_of d0 s)))),
       AInt (ata_total_sectors (ident_data (drive_of d0 s)) div 2048)] s6)"
    using 3(1) 5(1) 6(1) assms(3)
    by (simp add: ata_init_def Let_def s1_def [symmetric] s2_def [symmetric] s4_def [symmetric])
  have "ports_only s1 s6"
    using delay(2) [of s1] 3(3) 5(3) 6(3) delay(2) [of "ata_identify s3"]
    by (auto simp: s2_def s4_def ata_identify_def outb_def Let_def ports_only_def)
  then have "disk_log s6 = disk_log s @ [(''[ata] Initializing...'' @ [LF], [])]"
    by (auto simp: ports_only_def s1_def outb_def dlog_def)
  then show ?thesis
    unfolding run using 6(2) by (simp_all add: dlog_def disk_blk_def [abs_def] drive_block_def drive_of_def)
qed

theorem ata_init_detects_witness:
  "fst (ata_init (drive_device blank_drive) \<lparr>io_trace = [], disk_log = []\<rparr>) = 0"
  using ata_init_detects [OF drive_device_follows, of blank_drive "\<lparr>io_trace = [], disk_log = []\<rparr>"]
  by (simp add: blank_drive_def drive_of_def drive_run_def)

end
