(* ===== verification/Sros_String.thy ===== *)
theory Sros_String
  imports Sros_Machine
begin

unbundle bit_operations_syntax

text \<open>
  The string functions of \<open>src/kernel/string.c\<close>. A pointer argument is the list of bytes from the
  pointer to the end of its object; reading or writing past that end is the result \<open>Overrun\<close>. The
  reference definitions are those of C: \<open>cstr\<close> is the text before the first NUL.
\<close>

section \<open>The functions\<close>

fun strlen_loop :: "u8 list \<Rightarrow> u32 \<Rightarrow> u32 kres" where
  "strlen_loop [] len = Inl Overrun"
| "strlen_loop (c # cs) len = (if c = 0 then Inr len else strlen_loop cs (len + 1))"

definition strlen :: "u8 list \<Rightarrow> u32 kres" where
  "strlen str = strlen_loop str 0"

fun strcmp :: "u8 list \<Rightarrow> u8 list \<Rightarrow> int kres" where
  "strcmp (a # as) (b # bs) =
     (if a \<noteq> 0 \<and> a = b then strcmp as bs
      else Inr (if a > b then 1 else if a < b then -1 else 0))"
| "strcmp _ _ = Inl Overrun"

fun strncmp_loop :: "u8 list \<Rightarrow> u8 list \<Rightarrow> nat \<Rightarrow> int kres" where
  "strncmp_loop str1 str2 0 = Inr 0"
| "strncmp_loop (c1 # s1) (c2 # s2) (Suc n) =
     (if c1 \<noteq> c2 then Inr (uint c1 - uint c2)
      else if c1 = 0 then Inr 0
      else strncmp_loop s1 s2 n)"
| "strncmp_loop _ _ (Suc n) = Inl Overrun"

definition strncmp :: "u8 list \<Rightarrow> u8 list \<Rightarrow> u32 \<Rightarrow> int kres" where
  "strncmp str1 str2 num = (if num = 0 then Inr 0 else strncmp_loop str1 str2 (unat num))"

text \<open>The copying functions return the new contents of the destination.\<close>

fun strcpy :: "u8 list \<Rightarrow> u8 list \<Rightarrow> u8 list kres" where
  "strcpy (d # ds) (c # cs) = (if c = 0 then Inr (0 # ds) else bind_res (strcpy ds cs) (\<lambda>r. Inr (c # r)))"
| "strcpy _ _ = Inl Overrun"

fun memset :: "u8 list \<Rightarrow> u8 \<Rightarrow> nat \<Rightarrow> u8 list kres" where
  "memset s c 0 = Inr s"
| "memset s c (Suc n) = (if n < length s then memset (s[n := c]) c n else Inl Overrun)"

fun memcpy :: "u8 list \<Rightarrow> u8 list \<Rightarrow> nat \<Rightarrow> u8 list kres" where
  "memcpy dest src 0 = Inr dest"
| "memcpy (d # ds) (c # cs) (Suc n) = bind_res (memcpy ds cs n) (\<lambda>r. Inr (c # r))"
| "memcpy _ _ (Suc n) = Inl Overrun"

section \<open>Reference definitions\<close>

definition cstr :: "u8 list \<Rightarrow> u8 list" where
  "cstr buf = takeWhile (\<lambda>c. c \<noteq> 0) buf"

text \<open>The order of the texts, byte by byte, a prefix first.\<close>

fun text_order :: "u8 list \<Rightarrow> u8 list \<Rightarrow> int" where
  "text_order [] [] = 0"
| "text_order [] (b # bs) = -1"
| "text_order (a # as) [] = 1"
| "text_order (a # as) (b # bs) = (if a > b then 1 else if a < b then -1 else text_order as bs)"

section \<open>Correctness\<close>

lemma cstr_simps [simp]:
  "cstr [] = []" "cstr (0 # bs) = []" "c \<noteq> 0 \<Longrightarrow> cstr (c # bs) = c # cstr bs"
  by (simp_all add: cstr_def)

lemma cstr_terminated: "0 \<notin> set xs \<Longrightarrow> cstr (xs @ 0 # ys) = xs"
  by (subst cstr_def, subst takeWhile_append2) auto

lemma strlen_loop_ok: "0 \<in> set str \<Longrightarrow> strlen_loop str len = Inr (len + of_nat (length (cstr str)))"
  by (induction str len rule: strlen_loop.induct) (auto simp: cstr_def)

lemma text_order_zero: "text_order xs ys = 0 \<longleftrightarrow> xs = ys"
  by (induction xs ys rule: text_order.induct) (auto simp: not_less_iff_gr_or_eq)

lemma strcmp_ok: "0 \<in> set a \<Longrightarrow> 0 \<in> set b \<Longrightarrow> strcmp a b = Inr (text_order (cstr a) (cstr b))"
proof (induction a b rule: strcmp.induct)
  case (1 a as b bs)
  show ?case
  proof (cases "a \<noteq> 0 \<and> a = b")
    case True
    then show ?thesis using 1 by auto
  next
    case False
    then have "text_order (cstr (a # as)) (cstr (b # bs)) = (if a > b then 1 else if a < b then -1 else 0)"
      by (cases "a = 0"; cases "b = 0") (auto simp: word_greater_zero_iff)
    then show ?thesis using False by auto
  qed
qed simp_all

lemma memset_ok: "n \<le> length s \<Longrightarrow> memset s c n = Inr (replicate n c @ drop n s)"
proof (induction n arbitrary: s)
  case (Suc n)
  have "replicate n c @ drop n (s[n := c]) = replicate (Suc n) c @ drop (Suc n) s"
    using Suc.prems by (simp add: Cons_nth_drop_Suc [symmetric] replicate_append_same [symmetric] drop_update_cancel)
  then show ?case using Suc by simp
qed simp

lemma memcpy_ok: "n \<le> length dest \<Longrightarrow> n \<le> length src \<Longrightarrow> memcpy dest src n = Inr (take n src @ drop n dest)"
  by (induction dest src n rule: memcpy.induct) auto

lemma memcpy_overrun: "length dest < n \<or> length src < n \<Longrightarrow> memcpy dest src n = Inl Overrun"
  by (induction dest src n rule: memcpy.induct) auto

lemma strcpy_ok:
  assumes "0 \<in> set src" and "length (cstr src) < length dest"
  shows "strcpy dest src = Inr (cstr src @ 0 # drop (Suc (length (cstr src))) dest)"
  using assms
proof (induction dest src rule: strcpy.induct)
  case (1 d ds c cs)
  then show ?case by (cases "c = 0") auto
qed simp_all

text \<open>
  C22. \<open>strcmp\<close> on two NUL-terminated strings is the byte order of their texts: it returns 0 exactly
  when they are equal, and otherwise the sign of the first difference.
\<close>

theorem strcmp_equiv:
  assumes "0 \<in> set a" and "0 \<in> set b"
  shows "strcmp a b = Inr (text_order (cstr a) (cstr b)) \<and> (strcmp a b = Inr 0 \<longleftrightarrow> cstr a = cstr b)"
  using strcmp_ok [OF assms] by (simp add: text_order_zero)

theorem strcmp_equiv_witness: "strcmp [0x61, 0x62, 0] [0x61, 0, 0x62] = Inr 1 \<and> cstr [0x61, 0x62, 0] \<noteq> cstr [0x61, 0, 0x62]"
  using strcmp_equiv [of "[0x61, 0x62, 0]" "[0x61, 0, 0x62]"] by simp

text \<open>
  A string copied by \<open>strcpy\<close> into an array with room for it and its terminator is read back by
  \<open>strlen\<close> and \<open>strcmp\<close> as the same string, and the rest of the array keeps its bytes.
\<close>

theorem strcpy_round_trip:
  assumes "0 \<in> set src" and "length (cstr src) < length dest"
  shows "\<exists>r. strcpy dest src = Inr r \<and> strcmp r src = Inr 0 \<and> strlen r = strlen src \<and> length r = length dest \<and>
    drop (Suc (length (cstr src))) r = drop (Suc (length (cstr src))) dest"
proof -
  define r where "r = cstr src @ 0 # drop (Suc (length (cstr src))) dest"
  have z: "0 \<notin> set (cstr src)"
    by (auto simp: cstr_def dest: set_takeWhileD)
  then have "cstr r = cstr src" and "0 \<in> set r"
    by (simp_all add: r_def cstr_terminated)
  then show ?thesis
    using strcpy_ok [OF assms] assms by (auto simp: r_def [symmetric] strcmp_ok text_order_zero strlen_def strlen_loop_ok)
      (simp_all add: r_def)
qed

theorem strcpy_round_trip_witness:
  "\<exists>r. strcpy [1, 2, 3, 4] [0x61, 0] = Inr r \<and> strcmp r [0x61, 0] = Inr 0 \<and> strlen r = strlen [0x61, 0] \<and> length r = 4 \<and>
    drop (Suc 1) r = drop (Suc 1) [1, 2, 3, 4]"
  using strcpy_round_trip [of "[0x61, 0]" "[1, 2, 3, 4]"] by simp

end
