(* ===== verification/Sros_Sfs.thy ===== *)
theory Sros_Sfs
  imports Sros_Ata Sros_String
begin

unbundle bit_operations_syntax

text \<open>
  The file system (\<open>src/fs/sfs.c\<close>, \<open>src/fs/sfs.h\<close>) over the block layer of \<open>Sros_Ata\<close>. On-disk
  structures are packed little-endian bytes; the functions decode and encode them where the C code
  copies bytes into and out of a struct. \<open>stale\<close> is what a local block buffer holds before anything
  is stored into it: a block number out of range leaves such a buffer unfilled.
\<close>

section \<open>Data\<close>

definition SFS_MAGIC :: u32 where "SFS_MAGIC = 0x53465321"
definition SFS_FILE :: u8 where "SFS_FILE = 0"
definition SFS_DIR :: u8 where "SFS_DIR = 1"
definition MAX_FILENAME :: nat where "MAX_FILENAME = 28"
definition SFS_DIRECT_BLOCKS :: nat where "SFS_DIRECT_BLOCKS = 12"
definition MAX_FILES :: nat where "MAX_FILES = 16"
definition ROOT_INO :: u32 where "ROOT_INO = 1"
definition INODE_BITMAP_BLOCK :: u32 where "INODE_BITMAP_BLOCK = 1"
definition BLOCK_BITMAP_BLOCK :: u32 where "BLOCK_BITMAP_BLOCK = 2"
definition INODE_TABLE_START :: u32 where "INODE_TABLE_START = 3"
definition INODE_TABLE_BLOCKS :: u32 where "INODE_TABLE_BLOCKS = 2"
definition DATA_BLOCK_START :: u32 where "DATA_BLOCK_START = 5"

record super_block =
  magic :: u32
  total_blocks :: u32
  inode_count :: u32
  inode_bitmap_start :: u32
  block_bitmap_start :: u32
  inode_table_start :: u32
  data_block_start :: u32

record sfs_inode =
  i_ino :: u32
  i_size :: u32
  i_type :: u8
  block_count :: u32
  i_blocks :: "u32 list"

record dentry =
  d_ino :: u32
  d_name :: "u8 list"

record file_t =
  f_ino :: u32
  f_offset :: u32
  f_mode :: u8
  in_use :: u8

record sfs =
  disk :: disk_io
  sb :: super_block
  mounted :: bool
  file_table :: "file_t list"
  stale :: "u8 list"

section \<open>Packed layout\<close>

definition le32 :: "u32 \<Rightarrow> u8 list" where
  "le32 w = [ucast w, ucast (drop_bit 8 w), ucast (drop_bit 16 w), ucast (drop_bit 24 w)]"

definition get32 :: "nat \<Rightarrow> u8 list \<Rightarrow> u32" where
  "get32 off bs = ucast (bs ! off) OR push_bit 8 (ucast (bs ! (off + 1)))
     OR push_bit 16 (ucast (bs ! (off + 2))) OR push_bit 24 (ucast (bs ! (off + 3)))"

definition sizeof_super_block :: nat where "sizeof_super_block = 28"
definition sizeof_sfs_inode :: nat where "sizeof_sfs_inode = 61"
definition sizeof_dentry :: nat where "sizeof_dentry = 32"

definition INODES_PER_BLOCK :: nat where "INODES_PER_BLOCK = FS_BLOCK_SIZE div sizeof_sfs_inode"
definition MAX_INODES :: u32 where "MAX_INODES = INODE_TABLE_BLOCKS * of_nat INODES_PER_BLOCK"
definition dentries_per_block :: nat where "dentries_per_block = FS_BLOCK_SIZE div sizeof_dentry"

definition sb_bytes :: "super_block \<Rightarrow> u8 list" where
  "sb_bytes b = le32 (magic b) @ le32 (total_blocks b) @ le32 (inode_count b) @ le32 (inode_bitmap_start b)
     @ le32 (block_bitmap_start b) @ le32 (inode_table_start b) @ le32 (data_block_start b)"

definition bytes_sb :: "u8 list \<Rightarrow> super_block" where
  "bytes_sb bs = \<lparr>magic = get32 0 bs, total_blocks = get32 4 bs, inode_count = get32 8 bs,
     inode_bitmap_start = get32 12 bs, block_bitmap_start = get32 16 bs, inode_table_start = get32 20 bs,
     data_block_start = get32 24 bs\<rparr>"

definition inode_bytes :: "sfs_inode \<Rightarrow> u8 list" where
  "inode_bytes i = le32 (i_ino i) @ le32 (i_size i) @ [i_type i] @ le32 (block_count i) @ concat (map le32 (i_blocks i))"

definition bytes_inode :: "u8 list \<Rightarrow> sfs_inode" where
  "bytes_inode bs = \<lparr>i_ino = get32 0 bs, i_size = get32 4 bs, i_type = bs ! 8, block_count = get32 9 bs,
     i_blocks = map (\<lambda>k. get32 (13 + 4 * k) bs) [0..<SFS_DIRECT_BLOCKS]\<rparr>"

definition dentry_bytes :: "dentry \<Rightarrow> u8 list" where
  "dentry_bytes d = le32 (d_ino d) @ d_name d"

definition bytes_dentry :: "u8 list \<Rightarrow> dentry" where
  "bytes_dentry bs = \<lparr>d_ino = get32 0 bs, d_name = take MAX_FILENAME (drop 4 bs)\<rparr>"

text \<open>The bytes of a struct at an offset of a block.\<close>

definition field_at :: "nat \<Rightarrow> nat \<Rightarrow> u8 list \<Rightarrow> u8 list" where
  "field_at off n block = take n (drop off block)"

section \<open>Blocks of the file system\<close>

definition bread :: "device \<Rightarrow> u32 \<Rightarrow> u8 list \<Rightarrow> sfs \<Rightarrow> u8 list \<times> sfs" where
  "bread dev n buf s = (let (b, d) = block_read dev n buf (disk s) in (b, s\<lparr>disk := d\<rparr>))"

definition bwrite :: "device \<Rightarrow> u32 \<Rightarrow> u8 list \<Rightarrow> sfs \<Rightarrow> sfs" where
  "bwrite dev n buf s = s\<lparr>disk := block_write dev n buf (disk s)\<rparr>"

definition slog :: "string \<Rightarrow> arg list \<Rightarrow> sfs \<Rightarrow> sfs" where
  "slog fmt as s = s\<lparr>disk := dlog fmt as (disk s)\<rparr>"

section \<open>Bitmaps\<close>

definition bitmap_bit :: "u8 list \<Rightarrow> nat \<Rightarrow> bool" where
  "bitmap_bit bitmap i \<longleftrightarrow> bitmap ! (i div 8) AND push_bit (i mod 8) 1 \<noteq> 0"

fun bitmap_scan :: "u8 list \<Rightarrow> nat \<Rightarrow> nat \<Rightarrow> int kres" where
  "bitmap_scan bitmap i 0 = Inr (-1)"
| "bitmap_scan bitmap i (Suc n) =
     (if length bitmap \<le> i div 8 then Inl Overrun
      else if \<not> bitmap_bit bitmap i then Inr (int i)
      else bitmap_scan bitmap (Suc i) n)"

definition bitmap_find_first_zero :: "u8 list \<Rightarrow> int \<Rightarrow> int kres" where
  "bitmap_find_first_zero bitmap max_bits = bitmap_scan bitmap 0 (nat max_bits)"

definition bitmap_set :: "u8 list \<Rightarrow> nat \<Rightarrow> u8 list kres" where
  "bitmap_set bitmap idx =
     (if idx div 8 < length bitmap
      then Inr (bitmap[idx div 8 := bitmap ! (idx div 8) OR push_bit (idx mod 8) 1]) else Inl Overrun)"

definition bitmap_clear :: "u8 list \<Rightarrow> nat \<Rightarrow> u8 list kres" where
  "bitmap_clear bitmap idx =
     (if idx div 8 < length bitmap
      then Inr (bitmap[idx div 8 := bitmap ! (idx div 8) AND NOT (push_bit (idx mod 8) 1)]) else Inl Overrun)"

text \<open>A path is null or a C string; the result is the name in the root directory.\<close>

definition path_parse :: "u8 list option \<Rightarrow> u8 list option \<times> u32" where
  "path_parse path =
     (case path of
        None \<Rightarrow> (None, ROOT_INO)
      | Some p \<Rightarrow>
          (if p = [] then (None, ROOT_INO)
           else (let rest = dropWhile (\<lambda>c. c = 0x2F) p
                 in if rest = [] then (None, ROOT_INO) else (Some rest, ROOT_INO))))"

section \<open>Inodes and blocks\<close>

definition sfs_alloc_inode :: "device \<Rightarrow> sfs \<Rightarrow> (int \<times> sfs) kres" where
  "sfs_alloc_inode dev s =
     (let (bitmap, s) = bread dev (inode_bitmap_start (sb s)) (stale s) s in
      bind_res (bitmap_find_first_zero bitmap (sint (inode_count (sb s)))) (\<lambda>ino.
        if ino < 0 then Inr (-1, s)
        else bind_res (bitmap_set bitmap (nat ino)) (\<lambda>bitmap.
          Inr (ino, bwrite dev (inode_bitmap_start (sb s)) bitmap s))))"

definition sfs_free_inode :: "device \<Rightarrow> u32 \<Rightarrow> sfs \<Rightarrow> sfs kres" where
  "sfs_free_inode dev ino s =
     (if ino = 0 \<or> inode_count (sb s) \<le> ino then Inr s
      else (let (bitmap, s) = bread dev (inode_bitmap_start (sb s)) (stale s) s in
        bind_res (bitmap_clear bitmap (unat ino)) (\<lambda>bitmap.
          Inr (bwrite dev (inode_bitmap_start (sb s)) bitmap s))))"

definition inode_block :: "super_block \<Rightarrow> u32 \<Rightarrow> u32" where
  "inode_block b ino = inode_table_start b + (ino - 1) div of_nat INODES_PER_BLOCK"

definition inode_offset :: "u32 \<Rightarrow> nat" where
  "inode_offset ino = unat ((ino - 1) mod of_nat INODES_PER_BLOCK) * sizeof_sfs_inode"

text \<open>\<open>None\<close> is the result -1, which leaves the caller's struct as it was.\<close>

definition sfs_read_inode :: "device \<Rightarrow> u32 \<Rightarrow> sfs \<Rightarrow> sfs_inode option \<times> sfs" where
  "sfs_read_inode dev ino s =
     (if ino = 0 \<or> inode_count (sb s) \<le> ino then (None, s)
      else (let (buf, s) = bread dev (inode_block (sb s) ino) (stale s) s
            in (Some (bytes_inode (field_at (inode_offset ino) sizeof_sfs_inode buf)), s)))"

definition sfs_write_inode :: "device \<Rightarrow> sfs_inode \<Rightarrow> sfs \<Rightarrow> int \<times> sfs" where
  "sfs_write_inode dev inode s =
     (if i_ino inode = 0 \<or> inode_count (sb s) \<le> i_ino inode then (-1, s)
      else (let block_no = inode_block (sb s) (i_ino inode);
                (buf, s) = bread dev block_no (stale s) s
            in (0, bwrite dev block_no (store_at (inode_offset (i_ino inode)) (inode_bytes inode) buf) s)))"

definition sfs_alloc_block :: "device \<Rightarrow> sfs \<Rightarrow> (int \<times> sfs) kres" where
  "sfs_alloc_block dev s =
     (let (bitmap, s) = bread dev (block_bitmap_start (sb s)) (stale s) s in
      bind_res (bitmap_find_first_zero bitmap (sint (total_blocks (sb s)))) (\<lambda>idx.
        if idx < 0 \<or> idx < sint (data_block_start (sb s)) then Inr (-1, s)
        else bind_res (bitmap_set bitmap (nat idx)) (\<lambda>bitmap.
          Inr (idx, bwrite dev (block_bitmap_start (sb s)) bitmap s))))"

definition sfs_free_block :: "device \<Rightarrow> u32 \<Rightarrow> sfs \<Rightarrow> sfs kres" where
  "sfs_free_block dev block_no s =
     (if block_no < data_block_start (sb s) \<or> total_blocks (sb s) \<le> block_no then Inr s
      else (let (bitmap, s) = bread dev (block_bitmap_start (sb s)) (stale s) s in
        bind_res (bitmap_clear bitmap (unat block_no)) (\<lambda>bitmap.
          Inr (bwrite dev (block_bitmap_start (sb s)) bitmap s))))"

section \<open>Formatting and mounting\<close>

definition zero_block :: "u8 list" where "zero_block = replicate FS_BLOCK_SIZE 0"

definition zero_inode :: sfs_inode where
  "zero_inode = \<lparr>i_ino = 0, i_size = 0, i_type = 0, block_count = 0, i_blocks = replicate SFS_DIRECT_BLOCKS 0\<rparr>"

definition blank_sb :: super_block where
  "blank_sb = \<lparr>magic = SFS_MAGIC, total_blocks = DISK_BLOCKS, inode_count = MAX_INODES,
     inode_bitmap_start = INODE_BITMAP_BLOCK, block_bitmap_start = BLOCK_BITMAP_BLOCK,
     inode_table_start = INODE_TABLE_START, data_block_start = DATA_BLOCK_START\<rparr>"

text \<open>The first block of a directory: the entries \<open>.\<close> and \<open>..\<close>, then zeros.\<close>

definition dir_block :: "u32 \<Rightarrow> u32 \<Rightarrow> u8 list" where
  "dir_block self parent =
     store_at 0 (dentry_bytes \<lparr>d_ino = self, d_name = 0x2E # replicate 27 0\<rparr>
               @ dentry_bytes \<lparr>d_ino = parent, d_name = 0x2E # 0x2E # replicate 26 0\<rparr>) zero_block"

text \<open>\<open>bitmap_set\<close> on the bits 0 to n - 1.\<close>

definition bitmap_set_upto :: "nat \<Rightarrow> u8 list \<Rightarrow> u8 list kres" where
  "bitmap_set_upto n bitmap = fold_res (\<lambda>i b. bitmap_set b i) [0..<n] bitmap"

definition sfs_format :: "device \<Rightarrow> sfs \<Rightarrow> sfs kres" where
  "sfs_format dev s =
     (let s = slog ''[sfs] Formatting...'' [] s;
          s = s\<lparr>sb := blank_sb\<rparr>;
          s = bwrite dev 0 (store_at 0 (sb_bytes (sb s)) zero_block) s in
      bind_res (bitmap_set zero_block 0) (\<lambda>block.
      let s = bwrite dev INODE_BITMAP_BLOCK block s in
      bind_res (bitmap_set_upto (unat DATA_BLOCK_START) zero_block) (\<lambda>block.
      let s = bwrite dev BLOCK_BITMAP_BLOCK block s;
          s = bwrite dev INODE_TABLE_START zero_block s;
          s = bwrite dev (INODE_TABLE_START + 1) zero_block s in
      bind_res (sfs_alloc_block dev s) (\<lambda>(root_block, s).
      let block = dir_block ROOT_INO ROOT_INO;
          s = bwrite dev (of_int root_block) block s;
          root_inode = zero_inode\<lparr>i_ino := ROOT_INO, i_type := SFS_DIR, i_size := of_nat (2 * sizeof_dentry),
            block_count := 1, i_blocks := (replicate SFS_DIRECT_BLOCKS 0)[0 := of_int root_block]\<rparr>;
          (_, s) = sfs_write_inode dev root_inode s;
          (block, s) = bread dev INODE_BITMAP_BLOCK block s in
      bind_res (bitmap_set block (unat ROOT_INO)) (\<lambda>block.
        Inr (slog ''[sfs] Format complete.'' [] (bwrite dev INODE_BITMAP_BLOCK block s)))))))"

definition sfs_mount :: "device \<Rightarrow> sfs \<Rightarrow> int \<times> sfs" where
  "sfs_mount dev s =
     (let s = slog ''[sfs] Mounting...'' [] s;
          (block, s) = bread dev 0 (stale s) s;
          s = s\<lparr>sb := bytes_sb (field_at 0 sizeof_super_block block)\<rparr>
      in if magic (sb s) \<noteq> SFS_MAGIC then (-1, slog ''[sfs] ERROR: bad magic 0x%x'' [AInt (magic (sb s))] s)
         else (0, slog ''[sfs] Mount OK: %d inodes, %d data blocks''
                    [AInt (inode_count (sb s)), AInt (total_blocks (sb s) - data_block_start (sb s))]
                    (s\<lparr>file_table := map (\<lambda>f. f\<lparr>in_use := 0\<rparr>) (file_table s), mounted := True\<rparr>)))"

section \<open>Directories\<close>

definition dentry_at :: "nat \<Rightarrow> u8 list \<Rightarrow> dentry" where
  "dentry_at di block = bytes_dentry (field_at (di * sizeof_dentry) sizeof_dentry block)"

text \<open>The entries of one block; \<open>name\<close> is the text of a C string.\<close>

fun lookup_block :: "u8 list \<Rightarrow> nat list \<Rightarrow> u8 list \<Rightarrow> int option kres" where
  "lookup_block block [] name = Inr None"
| "lookup_block block (di # dis) name =
     (let d = dentry_at di block in
      if d_ino d \<noteq> 0
      then bind_res (strcmp (d_name d) (name @ [0])) (\<lambda>c.
             if c = 0 then Inr (Some (sint (d_ino d))) else lookup_block block dis name)
      else lookup_block block dis name)"

fun lookup_blocks :: "device \<Rightarrow> u32 list \<Rightarrow> nat list \<Rightarrow> u8 list \<Rightarrow> u8 list \<Rightarrow> sfs \<Rightarrow> (int \<times> sfs) kres" where
  "lookup_blocks dev blocks [] block name s = Inr (-1, s)"
| "lookup_blocks dev blocks (bi # bis) block name s =
     (if length blocks \<le> bi then Inl Overrun
      else (let (block, s) = bread dev (blocks ! bi) block s in
        bind_res (lookup_block block [0..<dentries_per_block] name) (\<lambda>r.
          case r of Some ino \<Rightarrow> Inr (ino, s) | None \<Rightarrow> lookup_blocks dev blocks bis block name s)))"

definition sfs_lookup :: "device \<Rightarrow> u32 \<Rightarrow> u8 list \<Rightarrow> sfs \<Rightarrow> (int \<times> sfs) kres" where
  "sfs_lookup dev dir_ino name s =
     (case sfs_read_inode dev dir_ino s of
        (None, s) \<Rightarrow> Inr (-1, s)
      | (Some dir_inode, s) \<Rightarrow>
          if i_type dir_inode \<noteq> SFS_DIR then Inr (-1, s)
          else lookup_blocks dev (i_blocks dir_inode) [0..<unat (block_count dir_inode)] (stale s) name s)"

text \<open>
  The name stored over the old bytes of an entry: at most 27 characters and no terminator of its
  own, then a NUL in the last place.
\<close>

definition put_name :: "u8 list \<Rightarrow> u8 list \<Rightarrow> u8 list" where
  "put_name name old = (store_at 0 (take (MAX_FILENAME - 1) name) old)[MAX_FILENAME - 1 := 0]"

text \<open>The first free entry of a block, or the last entry looked at.\<close>

fun free_entry :: "u8 list \<Rightarrow> nat list \<Rightarrow> dentry \<Rightarrow> nat option \<times> dentry" where
  "free_entry block [] d = (None, d)"
| "free_entry block (di # dis) d =
     (let d = dentry_at di block in if d_ino d = 0 then (Some di, d) else free_entry block dis d)"

fun add_entry :: "device \<Rightarrow> u32 list \<Rightarrow> nat list \<Rightarrow> u8 list \<Rightarrow> dentry \<Rightarrow> u32 \<Rightarrow> u8 list \<Rightarrow> sfs \<Rightarrow> (bool \<times> dentry \<times> sfs) kres" where
  "add_entry dev blocks [] block d ino name s = Inr (False, d, s)"
| "add_entry dev blocks (bi # bis) block d ino name s =
     (if length blocks \<le> bi then Inl Overrun
      else (let (block, s) = bread dev (blocks ! bi) block s in
        case free_entry block [0..<dentries_per_block] d of
          (Some di, d) \<Rightarrow>
            (let d = \<lparr>d_ino = ino, d_name = put_name name (d_name d)\<rparr>
             in Inr (True, d, bwrite dev (blocks ! bi) (store_at (di * sizeof_dentry) (dentry_bytes d) block) s))
        | (None, d) \<Rightarrow> add_entry dev blocks bis block d ino name s))"

text \<open>The new inode of \<open>sfs_create\<close>, with its block when it is a directory; \<open>None\<close> when there is no block.\<close>

definition new_dir :: "device \<Rightarrow> u32 \<Rightarrow> u32 \<Rightarrow> sfs_inode \<Rightarrow> sfs \<Rightarrow> (sfs_inode option \<times> sfs) kres" where
  "new_dir dev new_ino parent_ino inode s =
     bind_res (sfs_alloc_block dev s) (\<lambda>(block_no, s).
       if block_no < 0 then Inr (None, s)
       else Inr (Some (inode\<lparr>i_blocks := (i_blocks inode)[0 := of_int block_no], block_count := 1,
                             i_size := of_nat (2 * sizeof_dentry)\<rparr>),
                 bwrite dev (of_int block_no) (dir_block new_ino parent_ino) s))"

definition create_fail :: "device \<Rightarrow> u32 \<Rightarrow> sfs \<Rightarrow> (int \<times> sfs) kres" where
  "create_fail dev new_ino s = bind_res (sfs_free_inode dev new_ino s) (\<lambda>s. Inr (-1, s))"

definition create_done :: "device \<Rightarrow> sfs_inode \<Rightarrow> u8 list \<Rightarrow> int \<Rightarrow> sfs \<Rightarrow> (int \<times> sfs) kres" where
  "create_done dev parent name new_ino s =
     (let (_, s) = sfs_write_inode dev (parent\<lparr>i_size := i_size parent + of_nat sizeof_dentry\<rparr>) s
      in Inr (new_ino, slog (''[sfs] create '' @ [CHR 0x27] @ ''%s'' @ [CHR 0x27] @ '' -> ino %d'') [AStr (map (\<lambda>c. char_of (unat c)) name), AI new_ino] s))"

definition create_entry :: "device \<Rightarrow> sfs_inode \<Rightarrow> u8 list \<Rightarrow> int \<Rightarrow> sfs \<Rightarrow> (int \<times> sfs) kres" where
  "create_entry dev parent name new_ino s =
     bind_res (add_entry dev (i_blocks parent) [0..<unat (block_count parent)] (stale s)
         (bytes_dentry (stale s)) (of_int new_ino) name s) (\<lambda>(written, d, s).
       if written then create_done dev parent name new_ino s
       else if of_nat SFS_DIRECT_BLOCKS \<le> block_count parent then create_fail dev (of_int new_ino) s
       else bind_res (sfs_alloc_block dev s) (\<lambda>(new_block, s).
         if new_block < 0 then create_fail dev (of_int new_ino) s
         else (let d = \<lparr>d_ino = of_int new_ino, d_name = put_name name (d_name d)\<rparr>;
                   s = bwrite dev (of_int new_block) (store_at 0 (dentry_bytes d) zero_block) s;
                   parent = parent\<lparr>i_blocks := (i_blocks parent)[unat (block_count parent) := of_int new_block],
                                   block_count := block_count parent + 1\<rparr>
               in create_done dev parent name new_ino s)))"

definition sfs_create :: "device \<Rightarrow> u32 \<Rightarrow> u8 list \<Rightarrow> u8 \<Rightarrow> sfs \<Rightarrow> (int \<times> sfs) kres" where
  "sfs_create dev parent_ino name ty s =
     (case sfs_read_inode dev parent_ino s of
        (None, s) \<Rightarrow> Inr (-1, s)
      | (Some parent, s) \<Rightarrow>
          if i_type parent \<noteq> SFS_DIR then Inr (-1, s)
          else bind_res (sfs_lookup dev parent_ino name s) (\<lambda>(found, s).
            if 0 \<le> found then Inr (-1, s)
            else bind_res (sfs_alloc_inode dev s) (\<lambda>(new_ino, s).
              if new_ino < 0 then Inr (-1, s)
              else (let inode = zero_inode\<lparr>i_ino := of_int new_ino, i_type := ty\<rparr> in
                bind_res (if ty = SFS_DIR then new_dir dev (of_int new_ino) parent_ino inode s else Inr (Some inode, s))
                  (\<lambda>(r, s). case r of
                     None \<Rightarrow> create_fail dev (of_int new_ino) s
                   | Some inode \<Rightarrow> create_entry dev parent name new_ino (snd (sfs_write_inode dev inode s)))))))"

section \<open>Files\<close>

text \<open>
  The loops of reading and writing: \<open>done\<close> counts the bytes so far. \<open>buf\<close> is the caller's buffer.
\<close>

definition chunk :: "u32 \<Rightarrow> u32 \<Rightarrow> u32 \<Rightarrow> u32" where
  "chunk sz n cur =
     (let to_copy = of_nat FS_BLOCK_SIZE - cur mod of_nat FS_BLOCK_SIZE
      in if to_copy > sz - n then sz - n else to_copy)"

lemma chunk_bounds:
  assumes "n < sz"
  shows "0 < chunk sz n cur" and "chunk sz n cur \<le> sz - n"
proof -
  have m: "unat (cur mod of_nat FS_BLOCK_SIZE) < 4096"
    by (simp add: FS_BLOCK_SIZE_def unat_mod)
  then have "0 < unat (of_nat FS_BLOCK_SIZE - cur mod of_nat FS_BLOCK_SIZE :: u32)"
    by (simp add: unat_sub_if' FS_BLOCK_SIZE_def)
  moreover have "0 < unat (sz - n)"
    using assms by (simp add: unat_sub_if' word_less_nat_alt)
  ultimately show "0 < chunk sz n cur" and "chunk sz n cur \<le> sz - n"
    by (simp_all add: chunk_def Let_def word_less_nat_alt word_le_nat_alt)
qed

lemma chunk_decreases:
  assumes "n < sz"
  shows "unat (sz - (n + chunk sz n cur)) < unat (sz - n)"
proof -
  have "sz - (n + chunk sz n cur) = (sz - n) - chunk sz n cur"
    by simp
  moreover have "unat ((sz - n) - chunk sz n cur) = unat (sz - n) - unat (chunk sz n cur)"
    using chunk_bounds(2) [OF assms] by (simp add: unat_sub)
  moreover have "0 < unat (chunk sz n cur)" and "unat (chunk sz n cur) \<le> unat (sz - n)"
    using chunk_bounds [OF assms, of cur] by (simp_all add: word_less_nat_alt word_le_nat_alt)
  ultimately show ?thesis
    by (simp only:)
qed

function read_loop :: "device \<Rightarrow> sfs_inode \<Rightarrow> u8 list \<Rightarrow> u32 \<Rightarrow> u32 \<Rightarrow> u32 \<Rightarrow> u8 list \<Rightarrow> sfs \<Rightarrow> (u32 \<times> u8 list \<times> sfs) kres" where
  "read_loop dev inode buf sz offset n block s =
     (if n < sz then
        (let cur = offset + n; idx = unat (cur div of_nat FS_BLOCK_SIZE) in
         if unat (block_count inode) \<le> idx then Inr (n, buf, s)
         else if length (i_blocks inode) \<le> idx then Inl Overrun
         else (let (block, s) = bread dev (i_blocks inode ! idx) block s;
                   to_copy = chunk sz n cur in
           if length buf < unat n + unat to_copy then Inl Overrun
           else read_loop dev inode
                  (store_at (unat n) (field_at (unat (cur mod of_nat FS_BLOCK_SIZE)) (unat to_copy) block) buf)
                  sz offset (n + to_copy) block s))
      else Inr (n, buf, s))"
  by pat_completeness auto
termination
  by (relation "measure (\<lambda>(dev, inode, buf, sz, offset, n, block, s). unat (sz - n))")
    (simp_all add: chunk_decreases)

definition sfs_read_file :: "device \<Rightarrow> sfs_inode \<Rightarrow> u8 list \<Rightarrow> u32 \<Rightarrow> u32 \<Rightarrow> sfs \<Rightarrow> (u32 \<times> u8 list \<times> sfs) kres" where
  "sfs_read_file dev inode buf sz offset s =
     (if i_size inode \<le> offset then Inr (0, buf, s)
      else (let sz = if offset + sz > i_size inode then i_size inode - offset else sz
            in read_loop dev inode buf sz offset 0 (stale s) s))"

text \<open>The block a write goes to, allocated when the file has no such block; \<open>None\<close> ends the loop.\<close>

definition write_block :: "device \<Rightarrow> nat \<Rightarrow> sfs_inode \<Rightarrow> sfs \<Rightarrow> (sfs_inode option \<times> sfs) kres" where
  "write_block dev idx inode s =
     (if unat (block_count inode) \<le> idx then
        (if SFS_DIRECT_BLOCKS \<le> idx then Inr (None, s)
         else bind_res (sfs_alloc_block dev s) (\<lambda>(new_block, s).
           if new_block < 0 then Inr (None, s)
           else Inr (Some (inode\<lparr>i_blocks := (i_blocks inode)[idx := of_int new_block],
                                 block_count := block_count inode + 1\<rparr>), s)))
      else Inr (Some inode, s))"

function write_loop :: "device \<Rightarrow> sfs_inode \<Rightarrow> u8 list \<Rightarrow> u32 \<Rightarrow> u32 \<Rightarrow> u32 \<Rightarrow> u8 list \<Rightarrow> sfs \<Rightarrow> (u32 \<times> sfs_inode \<times> sfs) kres" where
  "write_loop dev inode buf sz offset n block s =
     (if n < sz then
        (let cur = offset + n; idx = unat (cur div of_nat FS_BLOCK_SIZE) in
         bind_res (write_block dev idx inode s) (\<lambda>(r, s).
           case r of
             None \<Rightarrow> Inr (n, inode, s)
           | Some inode \<Rightarrow>
               if length (i_blocks inode) \<le> idx then Inl Overrun
               else (let (block, s) = bread dev (i_blocks inode ! idx) block s;
                         to_copy = chunk sz n cur in
                 if length buf < unat n + unat to_copy then Inl Overrun
                 else (let block = store_at (unat (cur mod of_nat FS_BLOCK_SIZE)) (field_at (unat n) (unat to_copy) buf) block
                       in write_loop dev inode buf sz offset (n + to_copy) block
                            (bwrite dev (i_blocks inode ! idx) block s)))))
      else Inr (n, inode, s))"
  by pat_completeness auto
termination
  by (relation "measure (\<lambda>(dev, inode, buf, sz, offset, n, block, s). unat (sz - n))")
    (simp_all add: chunk_decreases)

definition sfs_write_file :: "device \<Rightarrow> sfs_inode \<Rightarrow> u8 list \<Rightarrow> u32 \<Rightarrow> u32 \<Rightarrow> sfs \<Rightarrow> (u32 \<times> sfs_inode \<times> sfs) kres" where
  "sfs_write_file dev inode buf sz offset s =
     bind_res (write_loop dev inode buf sz offset 0 (stale s) s) (\<lambda>(n, inode, s).
       Inr (n, if offset + n > i_size inode then inode\<lparr>i_size := offset + n\<rparr> else inode, s))"

section \<open>System call interface\<close>

definition sys_open :: "device \<Rightarrow> u8 list option \<Rightarrow> sfs \<Rightarrow> (int \<times> sfs) kres" where
  "sys_open dev path s =
     (if \<not> mounted s then Inr (-1, s)
      else (case path_parse path of
              (None, _) \<Rightarrow> Inr (-1, s)
            | (Some name, parent_ino) \<Rightarrow>
                bind_res (sfs_lookup dev parent_ino name s) (\<lambda>(ino, s).
                  if ino < 0 then Inr (-1, s)
                  else (case find_first (\<lambda>f. in_use f = 0) (file_table s) of
                          None \<Rightarrow> Inr (-1, s)
                        | Some fd \<Rightarrow>
                            Inr (int fd, s\<lparr>file_table := (file_table s)[fd :=
                              \<lparr>f_ino = of_int ino, f_offset = 0, f_mode = 2, in_use = 1\<rparr>]\<rparr>)))))"

definition fd_open :: "int \<Rightarrow> sfs \<Rightarrow> bool" where
  "fd_open fd s \<longleftrightarrow> \<not> (fd < 0 \<or> fd \<ge> int MAX_FILES \<or> in_use (file_table s ! nat fd) = 0)"

definition advance :: "int \<Rightarrow> u32 \<Rightarrow> sfs \<Rightarrow> sfs" where
  "advance fd n s = s\<lparr>file_table := (file_table s)[nat fd :=
     (file_table s ! nat fd)\<lparr>f_offset := f_offset (file_table s ! nat fd) + n\<rparr>]\<rparr>"

definition sys_read :: "device \<Rightarrow> int \<Rightarrow> u8 list \<Rightarrow> u32 \<Rightarrow> sfs \<Rightarrow> (int \<times> u8 list \<times> sfs) kres" where
  "sys_read dev fd buf count s =
     (if \<not> fd_open fd s then Inr (-1, buf, s)
      else (case sfs_read_inode dev (f_ino (file_table s ! nat fd)) s of
              (None, s) \<Rightarrow> Inr (-1, buf, s)
            | (Some inode, s) \<Rightarrow>
                bind_res (sfs_read_file dev inode buf count (f_offset (file_table s ! nat fd)) s)
                  (\<lambda>(n, buf, s). Inr (sint n, buf, advance fd n s))))"

definition sys_write :: "device \<Rightarrow> int \<Rightarrow> u8 list \<Rightarrow> u32 \<Rightarrow> sfs \<Rightarrow> (int \<times> sfs) kres" where
  "sys_write dev fd buf count s =
     (if \<not> fd_open fd s then Inr (-1, s)
      else (case sfs_read_inode dev (f_ino (file_table s ! nat fd)) s of
              (None, s) \<Rightarrow> Inr (-1, s)
            | (Some inode, s) \<Rightarrow>
                bind_res (sfs_write_file dev inode buf count (f_offset (file_table s ! nat fd)) s)
                  (\<lambda>(n, inode, s). Inr (sint n, snd (sfs_write_inode dev inode (advance fd n s))))))"

definition sys_close :: "int \<Rightarrow> sfs \<Rightarrow> sfs" where
  "sys_close fd s =
     (if fd < 0 \<or> fd \<ge> int MAX_FILES then s
      else s\<lparr>file_table := (file_table s)[nat fd := (file_table s ! nat fd)\<lparr>in_use := 0\<rparr>]\<rparr>)"

section \<open>Listing\<close>

text \<open>Printing a name that fills its array runs on past the array.\<close>

definition name_text :: "u8 list \<Rightarrow> string kres" where
  "name_text name = (if 0 \<in> set name then Inr (map (\<lambda>c. char_of (unat c)) (cstr name)) else Inl Overrun)"

fun dump_block :: "u8 list \<Rightarrow> nat list \<Rightarrow> sfs \<Rightarrow> sfs kres" where
  "dump_block block [] s = Inr s"
| "dump_block block (di # dis) s =
     (let d = dentry_at di block in
      if d_ino d \<noteq> 0
      then bind_res (name_text (d_name d)) (\<lambda>t. dump_block block dis (slog ''  %s (ino=%d)'' [AStr t, AInt (d_ino d)] s))
      else dump_block block dis s)"

fun dump_blocks :: "device \<Rightarrow> u32 list \<Rightarrow> nat list \<Rightarrow> u8 list \<Rightarrow> sfs \<Rightarrow> sfs kres" where
  "dump_blocks dev blocks [] block s = Inr s"
| "dump_blocks dev blocks (bi # bis) block s =
     (if length blocks \<le> bi then Inl Overrun
      else (let (block, s) = bread dev (blocks ! bi) block s
            in bind_res (dump_block block [0..<dentries_per_block] s) (dump_blocks dev blocks bis block)))"

definition sfs_dump :: "device \<Rightarrow> sfs \<Rightarrow> sfs kres" where
  "sfs_dump dev s =
     (let s = slog ([LF] @ ''=== SFS Dump ==='') [] s in
      if \<not> mounted s then Inr (slog (''  (not mounted)'' @ [LF] @ ''== end =='') [] s)
      else (let s = slog ''Super Block: magic=0x%x, total_blocks=%d'' [AInt (magic (sb s)), AInt (total_blocks (sb s))] s;
                s = slog ''  inodes=%d, data_blocks=%d~%d''
                      [AInt (inode_count (sb s)), AInt (data_block_start (sb s)), AInt (total_blocks (sb s) - 1)] s;
                s = slog ([LF] @ ''Root directory:'') [] s;
                (r, s) = sfs_read_inode dev ROOT_INO s;
                root_inode = (case r of Some i \<Rightarrow> i | None \<Rightarrow> bytes_inode (stale s))
            in bind_res (dump_blocks dev (i_blocks root_inode) [0..<unat (block_count root_inode)] (stale s) s)
                 (\<lambda>s. Inr (slog (''== end =='' @ [LF]) [] s))))"

declare read_loop.simps [simp del] write_loop.simps [simp del]

end
