(* ===== verification/Sros_Sfs_Disk.thy ===== *)
theory Sros_Sfs_Disk
  imports Sros_Sfs
begin

unbundle bit_operations_syntax

text \<open>
  The file system over the blocks of the disk: the packed layout round-trips, and each low-level
  function is a function on the array of blocks.
\<close>

definition blks :: "drive \<Rightarrow> sfs \<Rightarrow> nat \<Rightarrow> u8 list" where
  "blks d0 s = disk_blk d0 (disk s)"

definition moved :: "drive \<Rightarrow> sfs \<Rightarrow> sfs \<Rightarrow> (nat \<Rightarrow> u8 list) \<Rightarrow> bool" where
  "moved d0 s s' B \<longleftrightarrow> s' = s\<lparr>disk := disk s'\<rparr> \<and> blks d0 s' = B"

text \<open>A mounted file system of the standard geometry.\<close>

definition fs_std :: "device \<Rightarrow> drive \<Rightarrow> sfs \<Rightarrow> bool" where
  "fs_std dev d0 s \<longleftrightarrow> follows_drive dev d0 \<and> sb s = blank_sb \<and> length (stale s) = 4096 \<and> length (file_table s) = MAX_FILES"

definition inode_at :: "(nat \<Rightarrow> u8 list) \<Rightarrow> u32 \<Rightarrow> sfs_inode" where
  "inode_at B ino = bytes_inode (field_at (inode_offset ino) 61 (B (3 + (unat ino - 1) div 67)))"

definition put_inode :: "sfs_inode \<Rightarrow> (nat \<Rightarrow> u8 list) \<Rightarrow> nat \<Rightarrow> u8 list" where
  "put_inode i B = (let n = 3 + (unat (i_ino i) - 1) div 67
     in B(n := store_at (inode_offset (i_ino i)) (inode_bytes i) (B n)))"

definition valid_ino :: "u32 \<Rightarrow> bool" where
  "valid_ino ino \<longleftrightarrow> 0 < ino \<and> ino < 134"

definition free_bit :: "u8 list \<Rightarrow> nat \<Rightarrow> nat option" where
  "free_bit bitmap n = find_first (\<lambda>i. \<not> bitmap_bit bitmap i) [0..<n]"

definition mark_bit :: "u8 list \<Rightarrow> nat \<Rightarrow> u8 list" where
  "mark_bit bitmap idx = bitmap[idx div 8 := bitmap ! (idx div 8) OR push_bit (idx mod 8) 1]"

section \<open>Layout\<close>

lemma le32_length [simp]: "length (le32 w) = 4"
  by (simp add: le32_def)

lemma get32_drop: "off \<le> length bs \<Longrightarrow> get32 off bs = get32 0 (drop off bs)"
  by (simp add: get32_def)

lemma get32_numeral: "numeral k \<le> length bs \<Longrightarrow> get32 (numeral k) bs = get32 0 (drop (numeral k) bs)"
  by (rule get32_drop)

lemma get32_le32_end [simp]: "get32 0 (le32 w) = w"
  by (simp add: get32_def le32_def le_bytes_u32)

lemma get32_le32 [simp]: "get32 0 (le32 w @ ys) = w"
  by (simp add: get32_def le32_def le_bytes_u32)

lemma get32_at: "length xs = off \<Longrightarrow> get32 off (xs @ le32 w @ ys) = w"
  by (simp add: get32_drop)

lemma concat_le32_length [simp]: "length (concat (map le32 ws)) = 4 * length ws"
  by (induction ws) auto

lemma concat_le32_split:
  assumes "k < length ws"
  shows "concat (map le32 ws) = concat (map le32 (take k ws)) @ le32 (ws ! k) @ concat (map le32 (drop (Suc k) ws))"
  by (subst id_take_nth_drop [OF assms]) simp

lemma inode_bytes_length: "length (i_blocks i) = 12 \<Longrightarrow> length (inode_bytes i) = 61"
  by (simp add: inode_bytes_def)

lemma bytes_inode_bytes:
  assumes "length (i_blocks i) = 12"
  shows "bytes_inode (inode_bytes i) = i"
proof -
  let ?h = "le32 (i_ino i) @ le32 (i_size i) @ [i_type i] @ le32 (block_count i)"
  have b: "get32 (13 + 4 * k) (inode_bytes i) = i_blocks i ! k" if "k < 12" for k
  proof -
    have "inode_bytes i = (?h @ concat (map le32 (take k (i_blocks i)))) @ le32 (i_blocks i ! k)
        @ concat (map le32 (drop (Suc k) (i_blocks i)))"
      using concat_le32_split [of k "i_blocks i"] that assms by (simp add: inode_bytes_def)
    moreover have "length (?h @ concat (map le32 (take k (i_blocks i)))) = 13 + 4 * k"
      using that assms by simp
    ultimately show ?thesis by (simp only: get32_at)
  qed
  have "map (\<lambda>k. get32 (13 + 4 * k) (inode_bytes i)) [0..<12] = i_blocks i"
    using assms b by (intro nth_equalityI) simp_all
  moreover have "get32 0 (inode_bytes i) = i_ino i"
    by (simp add: inode_bytes_def)
  moreover have "get32 4 (inode_bytes i) = i_size i"
    unfolding inode_bytes_def by (rule get32_at) simp
  moreover have "get32 9 (inode_bytes i) = block_count i"
    using get32_at [of "le32 (i_ino i) @ le32 (i_size i) @ [i_type i]" 9 "block_count i" "concat (map le32 (i_blocks i))"]
    by (simp add: inode_bytes_def)
  moreover have "inode_bytes i ! 8 = i_type i"
    by (simp add: inode_bytes_def nth_append)
  ultimately show ?thesis
    by (simp add: bytes_inode_def SFS_DIRECT_BLOCKS_def)
qed

lemma sb_bytes_length: "length (sb_bytes b) = 28"
  by (simp add: sb_bytes_def)

lemma bytes_sb_bytes: "bytes_sb (sb_bytes b) = b"
  by (cases b) (simp add: bytes_sb_def sb_bytes_def get32_numeral)

lemma dentry_bytes_length: "length (d_name d) = 28 \<Longrightarrow> length (dentry_bytes d) = 32"
  by (simp add: dentry_bytes_def)

lemma bytes_dentry_bytes: "length (d_name d) = 28 \<Longrightarrow> bytes_dentry (dentry_bytes d) = d"
  by (simp add: bytes_dentry_def dentry_bytes_def MAX_FILENAME_def)

lemma field_store_same:
  assumes "off + length xs \<le> length buf"
  shows "field_at off (length xs) (store_at off xs buf) = xs"
  using assms by (simp add: field_at_def store_at_def)

lemma store_at_nth:
  assumes "off + length xs \<le> length buf" and "k < length buf"
  shows "store_at off xs buf ! k = (if off \<le> k \<and> k < off + length xs then xs ! (k - off) else buf ! k)"
  using assms by (auto simp: store_at_def nth_append min_def)

lemma field_at_nth: "k < n \<Longrightarrow> off + n \<le> length buf \<Longrightarrow> field_at off n buf ! k = buf ! (off + k)"
  by (simp add: field_at_def)

lemma field_at_length [simp]: "off + n \<le> length buf \<Longrightarrow> length (field_at off n buf) = n"
  by (simp add: field_at_def)

lemma field_store_other:
  assumes "off + length xs \<le> length buf" and "off' + n \<le> length buf"
    and "off' + n \<le> off \<or> off + length xs \<le> off'"
  shows "field_at off' n (store_at off xs buf) = field_at off' n buf"
  using assms by (intro nth_equalityI) (auto simp: field_at_nth store_at_nth)

section \<open>Bitmaps\<close>

lemma mark_bit_length [simp]: "length (mark_bit bitmap i) = length bitmap"
  by (simp add: mark_bit_def)

lemma bitmap_set_mark: "i < 8 * length bitmap \<Longrightarrow> bitmap_set bitmap i = Inr (mark_bit bitmap i)"
  by (simp add: bitmap_set_def mark_bit_def less_mult_imp_div_less mult.commute)

lemma bitmap_bit_iff: "bitmap_bit bitmap i \<longleftrightarrow> bit (bitmap ! (i div 8)) (i mod 8)"
proof -
  have "(w :: u8) AND push_bit n 1 \<noteq> 0 \<longleftrightarrow> bit w n" for w n
    by (simp add: push_bit_eq_mult and_exp_eq_0_iff_not_bit)
  then show ?thesis
    by (simp add: bitmap_bit_def)
qed

lemma bitmap_bit_mark:
  assumes "i < 8 * length bitmap"
  shows "bitmap_bit (mark_bit bitmap i) j \<longleftrightarrow> j = i \<or> bitmap_bit bitmap j"
proof (cases "j div 8 = i div 8")
  case True
  have "j = i \<longleftrightarrow> j mod 8 = i mod 8"
    using True by (metis div_mult_mod_eq)
  then show ?thesis
    using True assms by (auto simp: bitmap_bit_iff mark_bit_def bit_simps less_mult_imp_div_less mult.commute)
next
  case False
  then show ?thesis
    by (auto simp: bitmap_bit_iff mark_bit_def)
qed

lemma bitmap_scan_find:
  "i + n \<le> 8 * length bitmap \<Longrightarrow> bitmap_scan bitmap i n =
     Inr (case find_first (\<lambda>i. \<not> bitmap_bit bitmap i) [i..<i + n] of None \<Rightarrow> -1 | Some k \<Rightarrow> int (i + k))"
proof (induction n arbitrary: i)
  case (Suc n)
  have "[i..<i + Suc n] = i # [Suc i..<Suc i + n]"
    by (simp add: upt_conv_Cons)
  moreover have "i div 8 < length bitmap"
    using Suc.prems by (simp add: less_mult_imp_div_less mult.commute)
  ultimately show ?case
    using Suc.IH [of "Suc i"] Suc.prems by (auto split: option.splits)
qed simp

lemma bitmap_find_free:
  "n \<le> 8 * length bitmap \<Longrightarrow> bitmap_find_first_zero bitmap (int n) = Inr (slot_or_minus1 (free_bit bitmap n))"
  using bitmap_scan_find [of 0 n bitmap]
  by (simp add: bitmap_find_first_zero_def free_bit_def slot_or_minus1_def split: option.splits)

lemma free_bit_Some: "free_bit bitmap n = Some i \<longleftrightarrow> i < n \<and> \<not> bitmap_bit bitmap i \<and> (\<forall>j<i. bitmap_bit bitmap j)"
  by (auto simp: free_bit_def find_first_Some_iff)

lemma free_bit_None: "free_bit bitmap n = None \<longleftrightarrow> (\<forall>i<n. bitmap_bit bitmap i)"
  by (auto simp: free_bit_def find_first_None_iff)

section \<open>Reading and writing blocks\<close>

lemma movedD:
  assumes "moved d0 s s' B"
  shows "blks d0 s' = B" and "sb s' = sb s" and "stale s' = stale s" and "file_table s' = file_table s"
    and "mounted s' = mounted s"
proof -
  have "s' = s\<lparr>disk := disk s'\<rparr>" and b: "blks d0 s' = B"
    using assms by (simp_all add: moved_def)
  then show "sb s' = sb s" "stale s' = stale s" "file_table s' = file_table s" "mounted s' = mounted s"
    by (metis sfs.select_convs sfs.surjective sfs.update_convs(1))+
  show "blks d0 s' = B" by (rule b)
qed

lemma moved_refl: "moved d0 s s (blks d0 s)"
  by (simp add: moved_def)

lemma moved_trans [trans]: "moved d0 s t B \<Longrightarrow> moved d0 t u C \<Longrightarrow> moved d0 s u C"
  unfolding moved_def by (metis (no_types, lifting) sfs.surjective sfs.update_convs(1))

lemma fs_std_moved: "fs_std dev d0 s \<Longrightarrow> moved d0 s s' B \<Longrightarrow> fs_std dev d0 s'"
  using movedD [of d0 s s' B] by (simp add: fs_std_def)

lemma blks_length [simp]: "length (blks d0 s n) = 4096"
  by (simp add: blks_def)

lemma bread_ok:
  assumes "follows_drive dev d0" and "n < DISK_BLOCKS" and "length buf = 4096"
  obtains s' where "bread dev n buf s = (blks d0 s (unat n), s')" and "moved d0 s s' (blks d0 s)"
proof -
  from block_read_ok [OF assms, of "disk s"] obtain d
    where d: "block_read dev n buf (disk s) = (disk_blk d0 (disk s) (unat n), d)" "disk_blk d0 d = disk_blk d0 (disk s)"
    by blast
  then have "bread dev n buf s = (blks d0 s (unat n), s\<lparr>disk := d\<rparr>)"
    by (simp add: bread_def blks_def)
  then show thesis
    by (rule that) (simp add: moved_def blks_def d)
qed

lemma bwrite_ok:
  assumes "follows_drive dev d0" and "n < DISK_BLOCKS" and "length buf = 4096"
  shows "moved d0 s (bwrite dev n buf s) ((blks d0 s)(unat n := buf))"
  using block_write_ok [OF assms, of "disk s"] by (simp add: moved_def bwrite_def blks_def)

lemma slog_moved: "moved d0 s (slog fmt as s) (blks d0 s)"
  by (simp add: moved_def slog_def blks_def disk_blk_def [abs_def] drive_block_def dlog_def drive_of_def)

lemmas sfs_consts = INODE_BITMAP_BLOCK_def BLOCK_BITMAP_BLOCK_def INODE_TABLE_START_def DATA_BLOCK_START_def
  DISK_BLOCKS_def MAX_INODES_def INODE_TABLE_BLOCKS_def INODES_PER_BLOCK_def sizeof_sfs_inode_def FS_BLOCK_SIZE_def

lemma blank_sb_fields [simp]:
  "magic blank_sb = SFS_MAGIC" "total_blocks blank_sb = 1024" "inode_count blank_sb = 134" "inode_bitmap_start blank_sb = 1"
  "block_bitmap_start blank_sb = 2" "inode_table_start blank_sb = 3" "data_block_start blank_sb = 5"
  by (simp_all add: blank_sb_def sfs_consts)

text \<open>Where an inode lies.\<close>

lemma valid_ino_unat: "valid_ino ino \<longleftrightarrow> 0 < unat ino \<and> unat ino < 134"
  by (simp add: valid_ino_def word_less_nat_alt)

lemma valid_ino_iff: "fs_std dev d0 s \<Longrightarrow> ino = 0 \<or> inode_count (sb s) \<le> ino \<longleftrightarrow> \<not> valid_ino ino"
  by (auto simp: fs_std_def valid_ino_def not_less word_neq_0_conv)

lemma unat_pred: "valid_ino ino \<Longrightarrow> unat (ino - 1) = unat ino - 1"
  by (simp add: valid_ino_unat unat_sub_if' )

lemma inode_block_nat:
  assumes "valid_ino ino"
  shows "unat (inode_block blank_sb ino) = 3 + (unat ino - 1) div 67"
    and "inode_block blank_sb ino < DISK_BLOCKS" and "inode_offset ino = (unat ino - 1) mod 67 * 61"
proof -
  have d: "unat ((ino - 1) div 67) = (unat ino - 1) div 67"
    using unat_pred [OF assms] by (simp add: unat_div)
  have "(unat ino - 1) div 67 < 2"
    by (rule less_mult_imp_div_less) (use assms in \<open>auto simp: valid_ino_unat\<close>)
  then show *: "unat (inode_block blank_sb ino) = 3 + (unat ino - 1) div 67"
    by (simp add: inode_block_def sfs_consts unat_word_ariths(1) d)
  then show "inode_block blank_sb ino < DISK_BLOCKS"
    using \<open>(unat ino - 1) div 67 < 2\<close> by (simp add: word_less_nat_alt DISK_BLOCKS_def)
  show "inode_offset ino = (unat ino - 1) mod 67 * 61"
    using unat_pred [OF assms] by (simp add: inode_offset_def sfs_consts unat_mod)
qed

lemma inode_offset_bound: "valid_ino ino \<Longrightarrow> inode_offset ino + 61 \<le> 4096"
  using mod_less_divisor [of 67 "unat ino - 1"] inode_block_nat(3) [of ino] by simp

lemma read_inode_ok:
  assumes "fs_std dev d0 s" and "valid_ino ino"
  obtains s' where "sfs_read_inode dev ino s = (Some (inode_at (blks d0 s) ino), s')" and "moved d0 s s' (blks d0 s)"
proof -
  have f: "follows_drive dev d0" "length (stale s) = 4096" "sb s = blank_sb"
    using assms(1) by (simp_all add: fs_std_def)
  obtain s' where s': "bread dev (inode_block blank_sb ino) (stale s) s = (blks d0 s (3 + (unat ino - 1) div 67), s')"
      "moved d0 s s' (blks d0 s)"
    using bread_ok [OF f(1) inode_block_nat(2) [OF assms(2)] f(2), of s] inode_block_nat(1) [OF assms(2)] by metis
  then have "sfs_read_inode dev ino s = (Some (inode_at (blks d0 s) ino), s')"
    using valid_ino_iff [OF assms(1)] assms(2)
    unfolding sfs_read_inode_def by (simp add: f(3) inode_at_def sizeof_sfs_inode_def)
  then show thesis
    using s'(2) by (rule that)
qed

lemma read_inode_invalid: "fs_std dev d0 s \<Longrightarrow> \<not> valid_ino ino \<Longrightarrow> sfs_read_inode dev ino s = (None, s)"
  using valid_ino_iff [of dev d0 s ino] unfolding sfs_read_inode_def by simp

lemma write_inode_ok:
  assumes "fs_std dev d0 s" and "valid_ino (i_ino i)" and "length (i_blocks i) = 12"
  obtains s' where "sfs_write_inode dev i s = (0, s')" and "moved d0 s s' (put_inode i (blks d0 s))"
proof -
  let ?n = "inode_block blank_sb (i_ino i)"
  have f: "follows_drive dev d0" "length (stale s) = 4096" "sb s = blank_sb"
    using assms(1) by (simp_all add: fs_std_def)
  note n = inode_block_nat [OF assms(2)]
  obtain s1 where s1: "bread dev ?n (stale s) s = (blks d0 s (unat ?n), s1)" "moved d0 s s1 (blks d0 s)"
    using bread_ok [OF f(1) n(2) f(2), of s] by metis
  let ?b = "store_at (inode_offset (i_ino i)) (inode_bytes i) (blks d0 s (unat ?n))"
  have "length ?b = 4096"
    using inode_offset_bound [OF assms(2)] assms(3) by (simp add: inode_bytes_length)
  from bwrite_ok [OF f(1) n(2) this, of s1]
  have m: "moved d0 s (bwrite dev ?n ?b s1) (put_inode i (blks d0 s))"
    using moved_trans [OF s1(2)] movedD(1) [OF s1(2)] by (simp add: put_inode_def Let_def n(1))
  have "sfs_write_inode dev i s = (0, bwrite dev ?n ?b s1)"
    using valid_ino_iff [OF assms(1)] assms(2) s1(1)
    unfolding sfs_write_inode_def Let_def by (simp add: f(3))
  then show thesis
    using m by (rule that)
qed

lemma write_inode_invalid:
  "fs_std dev d0 s \<Longrightarrow> \<not> valid_ino (i_ino i) \<Longrightarrow> sfs_write_inode dev i s = (-1, s)"
  using valid_ino_iff [of dev d0 s "i_ino i"] unfolding sfs_write_inode_def by simp

lemma inode_at_put:
  assumes "valid_ino ino" and "valid_ino (i_ino i)" and "length (i_blocks i) = 12" and "\<And>n. length (B n) = 4096"
  shows "inode_at (put_inode i B) ino = (if ino = i_ino i then i else inode_at B ino)"
proof (cases "(unat ino - 1) div 67 = (unat (i_ino i) - 1) div 67")
  case True
  note o = inode_block_nat(3) [OF assms(1)] inode_block_nat(3) [OF assms(2)]
  show ?thesis
  proof (cases "ino = i_ino i")
    case True
    then show ?thesis
      using field_store_same [of "inode_offset ino" "inode_bytes i"] inode_offset_bound [OF assms(1)] assms(3,4)
      by (simp add: inode_at_def put_inode_def Let_def inode_bytes_length bytes_inode_bytes)
  next
    case False
    have "unat ino - 1 \<noteq> unat (i_ino i) - 1"
      using False assms(1,2) by (auto simp: valid_ino_unat word_unat_eq_iff)
    then have "(unat ino - 1) mod 67 \<noteq> (unat (i_ino i) - 1) mod 67"
      using True by (metis div_mult_mod_eq)
    then have "inode_offset ino + 61 \<le> inode_offset (i_ino i) \<or> inode_offset (i_ino i) + 61 \<le> inode_offset ino"
      unfolding o by linarith
    then show ?thesis
      using True False field_store_other [of "inode_offset (i_ino i)" "inode_bytes i" _ "inode_offset ino" 61]
        inode_offset_bound [OF assms(1)] inode_offset_bound [OF assms(2)] assms(3,4)
      by (simp add: inode_at_def put_inode_def Let_def inode_bytes_length)
  qed
next
  case False
  then show ?thesis
    by (auto simp: inode_at_def put_inode_def Let_def)
qed

lemma put_inode_other: "n \<noteq> 3 \<Longrightarrow> n \<noteq> 4 \<Longrightarrow> valid_ino (i_ino i) \<Longrightarrow> put_inode i B n = B n"
  by (auto simp: put_inode_def Let_def valid_ino_unat)

lemma put_inode_length:
  "(\<And>n. length (B n) = 4096) \<Longrightarrow> valid_ino (i_ino i) \<Longrightarrow> length (i_blocks i) = 12 \<Longrightarrow> length (put_inode i B n) = 4096"
  using inode_offset_bound [of "i_ino i"] by (simp add: put_inode_def Let_def inode_bytes_length)

section \<open>Allocation\<close>

lemma claim_bit:
  assumes "fs_std dev d0 s" and "n < DISK_BLOCKS" and "m \<le> 32768"
  obtains s1 where "bread dev n (stale s) s = (blks d0 s (unat n), s1)" and "moved d0 s s1 (blks d0 s)"
    and "bitmap_find_first_zero (blks d0 s (unat n)) (int m) = Inr (slot_or_minus1 (free_bit (blks d0 s (unat n)) m))"
    and "\<And>i. i < m \<Longrightarrow> bitmap_set (blks d0 s (unat n)) i = Inr (mark_bit (blks d0 s (unat n)) i) \<and>
      moved d0 s (bwrite dev n (mark_bit (blks d0 s (unat n)) i) s1) ((blks d0 s)(unat n := mark_bit (blks d0 s (unat n)) i))"
proof -
  have f: "follows_drive dev d0" "length (stale s) = 4096"
    using assms(1) by (simp_all add: fs_std_def)
  obtain s1 where s1: "bread dev n (stale s) s = (blks d0 s (unat n), s1)" "moved d0 s s1 (blks d0 s)"
    using bread_ok [OF f(1) assms(2) f(2), of s] by blast
  show thesis
  proof (rule that [OF s1])
    show "bitmap_find_first_zero (blks d0 s (unat n)) (int m) = Inr (slot_or_minus1 (free_bit (blks d0 s (unat n)) m))"
      using assms(3) by (simp add: bitmap_find_free)
    show "bitmap_set (blks d0 s (unat n)) i = Inr (mark_bit (blks d0 s (unat n)) i) \<and>
      moved d0 s (bwrite dev n (mark_bit (blks d0 s (unat n)) i) s1) ((blks d0 s)(unat n := mark_bit (blks d0 s (unat n)) i))"
      if "i < m" for i
      using that assms(3) bwrite_ok [OF f(1) assms(2), of "mark_bit (blks d0 s (unat n)) i" s1]
        moved_trans [OF s1(2)] movedD(1) [OF s1(2)] by (simp add: bitmap_set_mark)
  qed
qed

lemma alloc_block_ok:
  assumes "fs_std dev d0 s" and "\<forall>i<5. bitmap_bit (blks d0 s 2) i"
  obtains (full) s' where "free_bit (blks d0 s 2) 1024 = None" and "sfs_alloc_block dev s = Inr (-1, s')" and "moved d0 s s' (blks d0 s)"
  | (block) i s' where "free_bit (blks d0 s 2) 1024 = Some i" and "5 \<le> i" and "i < 1024"
      and "sfs_alloc_block dev s = Inr (int i, s')" and "moved d0 s s' ((blks d0 s)(2 := mark_bit (blks d0 s 2) i))"
proof -
  obtain s1 where s1: "bread dev 2 (stale s) s = (blks d0 s 2, s1)" "moved d0 s s1 (blks d0 s)"
    and scan: "bitmap_find_first_zero (blks d0 s 2) 1024 = Inr (slot_or_minus1 (free_bit (blks d0 s 2) 1024))"
    and set: "\<And>i. i < 1024 \<Longrightarrow> bitmap_set (blks d0 s 2) i = Inr (mark_bit (blks d0 s 2) i) \<and>
      moved d0 s (bwrite dev 2 (mark_bit (blks d0 s 2) i) s1) ((blks d0 s)(2 := mark_bit (blks d0 s 2) i))"
    using claim_bit [OF assms(1), of 2 1024] by (auto simp: DISK_BLOCKS_def)
  have sb: "sb s = blank_sb" "sb s1 = blank_sb"
    using assms(1) movedD(2) [OF s1(2)] by (simp_all add: fs_std_def)
  show thesis
  proof (cases "free_bit (blks d0 s 2) 1024")
    case None
    then have "sfs_alloc_block dev s = Inr (-1, s1)"
      using s1(1) scan by (simp add: sfs_alloc_block_def sb)
    then show ?thesis using None s1(2) by (intro full)
  next
    case (Some i)
    then have i: "i < 1024" "5 \<le> i"
      using assms(2) by (auto simp: free_bit_Some intro: leI)
    then have "sfs_alloc_block dev s = Inr (int i, bwrite dev 2 (mark_bit (blks d0 s 2) i) s1)"
      using s1(1) scan Some set [of i] by (simp add: sfs_alloc_block_def sb)
    then show ?thesis
      using Some i set [of i] by (intro block) auto
  qed
qed

lemma alloc_inode_ok:
  assumes "fs_std dev d0 s"
  obtains (full) s' where "free_bit (blks d0 s 1) 134 = None" and "sfs_alloc_inode dev s = Inr (-1, s')" and "moved d0 s s' (blks d0 s)"
  | (ino) i s' where "free_bit (blks d0 s 1) 134 = Some i" and "i < 134"
      and "sfs_alloc_inode dev s = Inr (int i, s')" and "moved d0 s s' ((blks d0 s)(1 := mark_bit (blks d0 s 1) i))"
proof -
  obtain s1 where s1: "bread dev 1 (stale s) s = (blks d0 s 1, s1)" "moved d0 s s1 (blks d0 s)"
    and scan: "bitmap_find_first_zero (blks d0 s 1) 134 = Inr (slot_or_minus1 (free_bit (blks d0 s 1) 134))"
    and set: "\<And>i. i < 134 \<Longrightarrow> bitmap_set (blks d0 s 1) i = Inr (mark_bit (blks d0 s 1) i) \<and>
      moved d0 s (bwrite dev 1 (mark_bit (blks d0 s 1) i) s1) ((blks d0 s)(1 := mark_bit (blks d0 s 1) i))"
    using claim_bit [OF assms(1), of 1 134] by (auto simp: DISK_BLOCKS_def)
  have sb: "sb s = blank_sb" "sb s1 = blank_sb"
    using assms(1) movedD(2) [OF s1(2)] by (simp_all add: fs_std_def)
  show thesis
  proof (cases "free_bit (blks d0 s 1) 134")
    case None
    then have "sfs_alloc_inode dev s = Inr (-1, s1)"
      using s1(1) scan by (simp add: sfs_alloc_inode_def sb)
    then show ?thesis using None s1(2) by (intro full)
  next
    case (Some i)
    then have i: "i < 134"
      by (auto simp: free_bit_Some)
    then have "sfs_alloc_inode dev s = Inr (int i, bwrite dev 1 (mark_bit (blks d0 s 1) i) s1)"
      using s1(1) scan Some set [of i] by (simp add: sfs_alloc_inode_def sb)
    then show ?thesis
      using Some i set [of i] by (intro ino) auto
  qed
qed

end
