(* ===== verification/Sros_Sfs_File.thy ===== *)
theory Sros_Sfs_File
  imports Sros_Sfs_Disk
begin

unbundle bit_operations_syntax

text \<open>
  The contents of files: what the read loop delivers and what the write loop stores, block by block,
  in terms of the bytes of a file. The properties of \<open>sfs_read_file\<close> and \<open>sfs_write_file\<close> are at the end.
\<close>

definition fbyte :: "(nat \<Rightarrow> u8 list) \<Rightarrow> sfs_inode \<Rightarrow> nat \<Rightarrow> u8" where
  "fbyte B i k = B (unat (i_blocks i ! (k div 4096))) ! (k mod 4096)"

definition fbytes :: "(nat \<Rightarrow> u8 list) \<Rightarrow> sfs_inode \<Rightarrow> nat \<Rightarrow> nat \<Rightarrow> u8 list" where
  "fbytes B i a n = map (fbyte B i) [a..<a + n]"

text \<open>The blocks of a file are distinct data blocks marked as used, and hold its size.\<close>

definition file_ok :: "(nat \<Rightarrow> u8 list) \<Rightarrow> sfs_inode \<Rightarrow> bool" where
  "file_ok B i \<longleftrightarrow> length (i_blocks i) = 12 \<and> unat (block_count i) \<le> 12 \<and>
     distinct (take (unat (block_count i)) (i_blocks i)) \<and>
     (\<forall>j<unat (block_count i). 5 \<le> unat (i_blocks i ! j) \<and> unat (i_blocks i ! j) < 1024 \<and>
        bitmap_bit (B 2) (unat (i_blocks i ! j))) \<and>
     (\<forall>j<5. bitmap_bit (B 2) j) \<and> unat (i_size i) \<le> 4096 * unat (block_count i)"

lemma fbytes_length [simp]: "length (fbytes B i a n) = n"
  by (simp add: fbytes_def)

lemma fbytes_add: "fbytes B i a (m + n) = fbytes B i a m @ fbytes B i (a + m) n"
  using upt_add_eq_append [of a "a + m" n] by (simp add: fbytes_def add.assoc)

lemma div_mod_within:
  assumes "cur mod 4096 + j < 4096"
  shows "(cur + j) div 4096 = cur div 4096" and "(cur + j) mod 4096 = cur mod 4096 + (j :: nat)"
  using assms div_add1_eq [of cur j 4096] mod_add_left_eq [of cur 4096 j] by simp_all

lemma fbytes_block:
  assumes "cur mod 4096 + c \<le> 4096" and "length (B (unat (i_blocks i ! (cur div 4096)))) = 4096"
  shows "fbytes B i cur c = field_at (cur mod 4096) c (B (unat (i_blocks i ! (cur div 4096))))"
proof (rule nth_equalityI)
  show "length (fbytes B i cur c) = length (field_at (cur mod 4096) c (B (unat (i_blocks i ! (cur div 4096)))))"
    using assms by simp
  fix j
  assume "j < length (fbytes B i cur c)"
  then show "fbytes B i cur c ! j = field_at (cur mod 4096) c (B (unat (i_blocks i ! (cur div 4096)))) ! j"
    using assms div_mod_within [of cur j] by (simp add: fbytes_def fbyte_def field_at_nth)
qed

text \<open>One round of the loops in natural numbers.\<close>

lemma chunk_nat:
  assumes "n < sz" and "unat offset + unat sz < 4294967296"
  shows "unat (offset + n) = unat offset + unat n"
    and "unat (chunk sz n (offset + n)) = min (4096 - (unat offset + unat n) mod 4096) (unat sz - unat n)"
    and "unat (n + chunk sz n (offset + n)) = unat n + unat (chunk sz n (offset + n))"
    and "unat ((offset + n) div of_nat FS_BLOCK_SIZE) = (unat offset + unat n) div 4096"
    and "unat ((offset + n) mod of_nat FS_BLOCK_SIZE) = (unat offset + unat n) mod 4096"
proof -
  have n: "unat n < unat sz"
    using assms(1) by (simp add: word_less_nat_alt)
  show cur: "unat (offset + n) = unat offset + unat n"
    using n assms(2) by (simp add: unat_word_ariths)
  show "unat ((offset + n) div of_nat FS_BLOCK_SIZE) = (unat offset + unat n) div 4096"
    and m: "unat ((offset + n) mod of_nat FS_BLOCK_SIZE) = (unat offset + unat n) mod 4096"
    using cur by (simp_all add: FS_BLOCK_SIZE_def unat_div unat_mod)
  have "unat (of_nat FS_BLOCK_SIZE - (offset + n) mod of_nat FS_BLOCK_SIZE) = 4096 - (unat offset + unat n) mod 4096"
    using m mod_less_divisor [of 4096 "unat offset + unat n"] by (simp add: unat_sub_if' FS_BLOCK_SIZE_def del: mod_less_divisor)
  moreover have "unat (sz - n) = unat sz - unat n"
    using n by (simp add: unat_sub_if')
  ultimately show c: "unat (chunk sz n (offset + n)) = min (4096 - (unat offset + unat n) mod 4096) (unat sz - unat n)"
    by (simp add: chunk_def Let_def word_less_nat_alt min_def)
  then have "unat n + unat (chunk sz n (offset + n)) \<le> unat sz"
    using n by simp
  then show "unat (n + chunk sz n (offset + n)) = unat n + unat (chunk sz n (offset + n))"
    using unat_u32_less [of sz] by (simp add: unat_word_ariths del: unat_u32_less)
qed

lemma store_at_again:
  assumes "a + length xs + length ys \<le> length buf"
  shows "store_at (a + length xs) ys (store_at a xs buf) = store_at a (xs @ ys) buf"
  by (rule store_at_store_at [OF assms])

text \<open>Reading inside the blocks of a file delivers their bytes.\<close>

lemma read_loop_bytes:
  assumes "fs_std dev d0 s" and "length (i_blocks i) = 12" and "unat (block_count i) \<le> 12"
    and "\<forall>j<unat (block_count i). unat (i_blocks i ! j) < 1024"
    and "n \<le> sz" and "unat offset + unat sz \<le> 4096 * unat (block_count i)" and "unat sz \<le> length buf" and "length block = 4096"
  shows "\<exists>s'. read_loop dev i buf sz offset n block s =
      Inr (sz, store_at (unat n) (fbytes (blks d0 s) i (unat offset + unat n) (unat sz - unat n)) buf, s') \<and>
    moved d0 s s' (blks d0 s)"
  using assms(1,5,7,8)
proof (induction "unat sz - unat n" arbitrary: n buf block s rule: less_induct)
  case less
  note p = less.prems
  show ?case
  proof (cases "n < sz")
    case False
    then have "n = sz" using p(2) by simp
    then show ?thesis
      using moved_refl [of d0 s] by (subst read_loop.simps) (auto simp: fbytes_def)
  next
    case True
    have small: "unat offset + unat sz < 4294967296"
      using assms(3,6) by linarith
    define a where "a = unat offset + unat n"
    define c where "c = min (4096 - a mod 4096) (unat sz - unat n)"
    define n' where "n' = n + chunk sz n (offset + n)"
    note cn = chunk_nat [OF True small, folded a_def, folded c_def, folded n'_def]
    have nn: "unat n < unat sz"
      using True by (simp add: word_less_nat_alt)
    have "c \<le> 4096 - a mod 4096" "c \<le> unat sz - unat n" "0 < c" "a mod 4096 < 4096"
      using nn by (simp_all add: c_def)
    then have cle: "a mod 4096 + c \<le> 4096" "unat n + c \<le> unat sz" "0 < c" "unat n' = unat n + c"
      using nn cn(2,3) by linarith+
    define b where "b = i_blocks i ! (a div 4096)"
    have "a div 4096 < unat (block_count i)"
      by (rule less_mult_imp_div_less) (use nn assms(6) in \<open>simp add: a_def\<close>)
    then have idx: "a div 4096 < unat (block_count i)" "a div 4096 < 12" "b < DISK_BLOCKS"
      using assms(3,4) by (simp_all add: b_def DISK_BLOCKS_def word_less_nat_alt)
    have f: "follows_drive dev d0"
      using p(1) by (simp add: fs_std_def)
    obtain s1 where s1: "bread dev b block s = (blks d0 s (unat b), s1)" "moved d0 s s1 (blks d0 s)"
      using bread_ok [OF f idx(3) p(4), of s] by blast
    define xs where "xs = field_at (a mod 4096) c (blks d0 s (unat b))"
    have xs: "xs = fbytes (blks d0 s) i a c"
      using fbytes_block [of a c "blks d0 s" i] cle by (simp add: xs_def b_def)
    have step: "read_loop dev i buf sz offset n block s =
        read_loop dev i (store_at (unat n) xs buf) sz offset n' (blks d0 s (unat b)) s1"
      using True idx assms(2) p(3) s1(1) cle
      by (subst read_loop.simps) (simp add: Let_def cn b_def xs_def n'_def [symmetric])
    have lb: "length (store_at (unat n) xs buf) = length buf"
      using cle p(3) by (simp add: xs)
    have dec: "unat sz - unat n' < unat sz - unat n"
      using cle nn by linarith
    obtain s2 where s2: "read_loop dev i (store_at (unat n) xs buf) sz offset n' (blks d0 s (unat b)) s1 =
        Inr (sz, store_at (unat n') (fbytes (blks d0 s1) i (unat offset + unat n') (unat sz - unat n'))
          (store_at (unat n) xs buf), s2)" "moved d0 s1 s2 (blks d0 s1)"
      using less.hyps [OF dec fs_std_moved [OF p(1) s1(2)], of "store_at (unat n) xs buf" "blks d0 s (unat b)"] p(3) lb cle
      by (auto simp: word_le_nat_alt)
    have "store_at (unat n') (fbytes (blks d0 s1) i (unat offset + unat n') (unat sz - unat n')) (store_at (unat n) xs buf)
        = store_at (unat n) (fbytes (blks d0 s) i a (unat sz - unat n)) buf"
      using store_at_store_at [of "unat n" xs "fbytes (blks d0 s) i (a + c) (unat sz - unat n')" buf] cle p(3)
        fbytes_add [of "blks d0 s" i a c "unat sz - unat n'"]
      by (simp add: movedD(1) [OF s1(2)] xs a_def add.assoc)
    then show ?thesis
      using step s2 moved_trans [OF s1(2) s2(2)] by (simp add: a_def movedD(1) [OF s1(2)])
  qed
qed


section \<open>Writing\<close>

definition own :: "sfs_inode \<Rightarrow> nat set" where
  "own i = unat ` set (take (unat (block_count i)) (i_blocks i))"

text \<open>
  A file that only gained blocks: the blocks it had stay in place, new ones were free, and nothing
  but its own blocks and the block bitmap has changed.
\<close>

definition grows :: "(nat \<Rightarrow> u8 list) \<Rightarrow> sfs_inode \<Rightarrow> (nat \<Rightarrow> u8 list) \<Rightarrow> sfs_inode \<Rightarrow> bool" where
  "grows B i B' i' \<longleftrightarrow>
     i_ino i' = i_ino i \<and> i_size i' = i_size i \<and> i_type i' = i_type i \<and>
     unat (block_count i) \<le> unat (block_count i') \<and>
     take (unat (block_count i)) (i_blocks i') = take (unat (block_count i)) (i_blocks i) \<and>
     (\<forall>m. m \<noteq> 2 \<and> m \<notin> own i' \<longrightarrow> B' m = B m) \<and>
     (\<forall>m. bitmap_bit (B' 2) m \<longleftrightarrow> bitmap_bit (B 2) m \<or> m \<in> own i') \<and>
     (\<forall>m \<in> own i' - own i. \<not> bitmap_bit (B 2) m)"

lemma own_marked: "file_ok B i \<Longrightarrow> m \<in> own i \<Longrightarrow> bitmap_bit (B 2) m \<and> 5 \<le> m \<and> m < 1024"
  unfolding own_def file_ok_def by (auto simp: in_set_conv_nth)

lemma own_nth: "file_ok B i \<Longrightarrow> j < unat (block_count i) \<Longrightarrow> unat (i_blocks i ! j) \<in> own i"
  using nth_mem [of j "take (unat (block_count i)) (i_blocks i)"] by (simp add: own_def file_ok_def)

lemma grows_refl: "file_ok B i \<Longrightarrow> grows B i B i"
  using own_marked [of B i] by (auto simp: grows_def)

lemma growsD:
  assumes "grows B i B' i'"
  shows "i_ino i' = i_ino i" "i_size i' = i_size i" "i_type i' = i_type i"
    and "unat (block_count i) \<le> unat (block_count i')"
    and "take (unat (block_count i)) (i_blocks i') = take (unat (block_count i)) (i_blocks i)"
    and "\<And>m. m \<noteq> 2 \<Longrightarrow> m \<notin> own i' \<Longrightarrow> B' m = B m"
    and "\<And>m. bitmap_bit (B' 2) m \<longleftrightarrow> bitmap_bit (B 2) m \<or> m \<in> own i'"
    and "\<And>m. m \<in> own i' \<Longrightarrow> m \<notin> own i \<Longrightarrow> \<not> bitmap_bit (B 2) m"
  using assms unfolding grows_def by blast+

lemma grows_own: "grows B i B' i' \<Longrightarrow> own i \<subseteq> own i'"
  unfolding grows_def own_def by (metis (no_types, lifting) image_mono set_take_subset_set_take)

lemma grows_trans:
  assumes "grows B i B1 i1" and "grows B1 i1 B2 i2"
  shows "grows B i B2 i2"
proof -
  note o = grows_own [OF assms(1)] grows_own [OF assms(2)]
  note g1 = growsD [OF assms(1)] and g2 = growsD [OF assms(2)]
  have "take (unat (block_count i)) (i_blocks i2) = take (unat (block_count i)) (i_blocks i)"
    using arg_cong [OF g2(5), of "take (unat (block_count i))"] g1(4,5) by simp
  moreover have "\<forall>m. bitmap_bit (B2 2) m \<longleftrightarrow> bitmap_bit (B 2) m \<or> m \<in> own i2"
    using g1(7) g2(7) o by blast
  moreover have "\<forall>m \<in> own i2 - own i. \<not> bitmap_bit (B 2) m"
    using g1(7,8) g2(8) by blast
  moreover have "\<forall>m. m \<noteq> 2 \<and> m \<notin> own i2 \<longrightarrow> B2 m = B m"
    using g1(6) g2(6) o by (metis subsetD)
  moreover have "unat (block_count i) \<le> unat (block_count i2)"
    using g1(4) g2(4) by (rule le_trans)
  moreover have "i_ino i2 = i_ino i \<and> i_size i2 = i_size i \<and> i_type i2 = i_type i"
    using g1(1-3) g2(1-3) by simp
  ultimately show ?thesis
    unfolding grows_def by blast
qed

text \<open>Bytes stored into one block of a file.\<close>

lemma store_block:
  assumes ok: "file_ok B i" and len: "\<And>m. length (B m) = 4096"
    and c: "a mod 4096 + length xs \<le> 4096" and idx: "a div 4096 < unat (block_count i)"
    and B': "B' = B(unat (i_blocks i ! (a div 4096)) := store_at (a mod 4096) xs (B (unat (i_blocks i ! (a div 4096)))))"
  shows "file_ok B' i" and "grows B i B' i"
    and "k < 4096 * unat (block_count i) \<Longrightarrow> fbyte B' i k = (if a \<le> k \<and> k < a + length xs then xs ! (k - a) else fbyte B i k)"
proof -
  let ?b = "i_blocks i ! (a div 4096)"
  have b: "unat ?b \<in> own i"
    using own_nth [OF ok idx] .
  then have "5 \<le> unat ?b"
    using own_marked [OF ok] by blast
  then have bm: "B' 2 = B 2"
    by (auto simp: B')
  then show "file_ok B' i"
    using ok by (simp add: file_ok_def)
  show "grows B i B' i"
    using b own_marked [OF ok] bm by (auto simp: grows_def B')
  assume k: "k < 4096 * unat (block_count i)"
  have kd: "k div 4096 < unat (block_count i)"
    by (rule less_mult_imp_div_less) (use k in simp)
  show "fbyte B' i k = (if a \<le> k \<and> k < a + length xs then xs ! (k - a) else fbyte B i k)"
  proof (cases "k div 4096 = a div 4096")
    case True
    have "a = a div 4096 * 4096 + a mod 4096" "k = a div 4096 * 4096 + k mod 4096"
      using True by (metis div_mult_mod_eq)+
    then have "a mod 4096 \<le> k mod 4096 \<longleftrightarrow> a \<le> k" "k mod 4096 < a mod 4096 + length xs \<longleftrightarrow> k < a + length xs"
      "k mod 4096 - a mod 4096 = k - a"
      by linarith+
    then show ?thesis
      using True c len by (simp add: fbyte_def B' store_at_nth)
  next
    case False
    have "distinct (take (unat (block_count i)) (i_blocks i))" "unat (block_count i) \<le> length (i_blocks i)"
      using ok by (simp_all add: file_ok_def)
    then have "i_blocks i ! (k div 4096) \<noteq> ?b"
      using False kd idx by (auto simp: distinct_conv_nth)
    moreover have "\<not> (a \<le> k \<and> k < a + length xs)"
    proof
      assume "a \<le> k \<and> k < a + length xs"
      then have "k = a + (k - a)" "a mod 4096 + (k - a) < 4096"
        using c by linarith+
      then show False
        using div_mod_within(1) [of a "k - a"] False by simp
    qed
    ultimately show ?thesis
      by (auto simp: fbyte_def B' word_unat_eq_iff)
  qed
qed

lemma fbyte_cong:
  assumes "grows B i B' i'" and "file_ok B i" and "\<forall>m \<in> own i. B' m = B m" and "k < 4096 * unat (block_count i)"
  shows "fbyte B' i' k = fbyte B i k"
proof -
  have kd: "k div 4096 < unat (block_count i)"
    by (rule less_mult_imp_div_less) (use assms(4) in simp)
  then have "i_blocks i' ! (k div 4096) = i_blocks i ! (k div 4096)"
    using assms(1) unfolding grows_def by (metis nth_take)
  then show ?thesis
    using assms(3) own_nth [OF assms(2) kd] by (simp add: fbyte_def)
qed

lemma take_update_Suc: "n < length xs \<Longrightarrow> take (Suc n) (xs[n := x]) = take n xs @ [x]"
  by (simp add: take_Suc_conv_app_nth)

lemma file_ok_add_block:
  assumes ok: "file_ok B i" and room: "unat (block_count i) < 12" and k: "5 \<le> k" "k < 1024" "\<not> bitmap_bit (B 2) k"
    and len: "length (B 2) = 4096" and B': "B' = B(2 := mark_bit (B 2) k)"
    and i': "i' = i\<lparr>i_blocks := (i_blocks i)[unat (block_count i) := of_nat k], block_count := block_count i + 1\<rparr>"
  shows "file_ok B' i'" and "grows B i B' i'" and "unat (block_count i') = Suc (unat (block_count i))"
    and "\<forall>m \<in> own i. B' m = B m"
proof -
  have bc: "unat (block_count i + 1) = Suc (unat (block_count i))"
    using room by (simp add: unat_word_ariths)
  show bc': "unat (block_count i') = Suc (unat (block_count i))"
    using bc by (simp add: i')
  have l: "length (i_blocks i) = 12"
    using ok by (simp add: file_ok_def)
  have ku: "unat (of_nat k :: u32) = k"
    using k by (simp add: unat_of_nat_u32)
  have tk: "take (unat (block_count i')) (i_blocks i') = take (unat (block_count i)) (i_blocks i) @ [of_nat k]"
    using room l by (simp add: bc i' take_update_Suc)
  have own': "own i' = insert k (own i)"
    unfolding own_def tk by (simp add: ku)
  have bits: "bitmap_bit (B' 2) m \<longleftrightarrow> m = k \<or> bitmap_bit (B 2) m" for m
    using bitmap_bit_mark [of k "B 2" m] k len by (simp add: B')
  have nk: "k \<notin> own i"
    using own_marked [OF ok] k(3) by blast
  show frame: "\<forall>m \<in> own i. B' m = B m"
    using own_marked [OF ok] by (fastforce simp: B')
  have "(of_nat k :: u32) \<notin> set (take (unat (block_count i)) (i_blocks i))"
    using nk ku unfolding own_def by force
  then have dist: "distinct (take (unat (block_count i')) (i_blocks i'))"
    using ok unfolding tk by (simp add: file_ok_def)
  have "5 \<le> unat (i_blocks i' ! j) \<and> unat (i_blocks i' ! j) < 1024 \<and> bitmap_bit (B' 2) (unat (i_blocks i' ! j))"
    if "j < unat (block_count i')" for j
  proof (cases "j = unat (block_count i)")
    case True
    then show ?thesis using room l k ku bits by (simp add: i')
  next
    case False
    then show ?thesis
      using that ok bits unfolding bc' by (simp add: i' file_ok_def)
  qed
  moreover have "\<forall>j<5. bitmap_bit (B' 2) j"
    using ok bits by (simp add: file_ok_def)
  moreover have "unat (i_size i') \<le> 4096 * unat (block_count i')"
    using ok unfolding bc' by (simp add: file_ok_def i')
  moreover have "length (i_blocks i') = 12" "unat (block_count i') \<le> 12"
    using room l unfolding bc' by (simp_all add: i')
  ultimately show "file_ok B' i'"
    using dist unfolding file_ok_def by blast
  have "take (unat (block_count i)) (i_blocks i') = take (unat (block_count i)) (i_blocks i)"
    by (simp add: i')
  moreover have "i_ino i' = i_ino i \<and> i_size i' = i_size i \<and> i_type i' = i_type i"
    by (simp add: i')
  moreover have "\<forall>m. m \<noteq> 2 \<and> m \<notin> own i' \<longrightarrow> B' m = B m"
    by (simp add: B')
  moreover have "\<forall>m. bitmap_bit (B' 2) m \<longleftrightarrow> bitmap_bit (B 2) m \<or> m \<in> own i'"
    using own_marked [OF ok] by (auto simp: bits own')
  ultimately show "grows B i B' i'"
    using bc' k(3) unfolding grows_def own' by auto
qed

lemma write_block_cases:
  assumes "fs_std dev d0 s" and ok: "file_ok (blks d0 s) i" and idx: "idx \<le> unat (block_count i)"
  obtains (stop) s' where "write_block dev idx i s = Inr (None, s')" and "moved d0 s s' (blks d0 s)"
      and "idx = 12 \<or> free_bit (blks d0 s 2) 1024 = None" and "idx = unat (block_count i)"
  | (go) i' s' where "write_block dev idx i s = Inr (Some i', s')" and "moved d0 s s' (blks d0 s')"
      and "file_ok (blks d0 s') i'" and "grows (blks d0 s) i (blks d0 s') i'" and "idx < unat (block_count i')"
      and "\<forall>m \<in> own i. blks d0 s' m = blks d0 s m"
proof (cases "idx < unat (block_count i)")
  case True
  then show thesis
    using go [of i s] ok moved_refl [of d0 s] grows_refl [OF ok] by (simp add: write_block_def)
next
  case False
  then have eq: "idx = unat (block_count i)"
    using idx by simp
  have low: "\<forall>i<5. bitmap_bit (blks d0 s 2) i" and le: "unat (block_count i) \<le> 12"
    using ok by (simp_all add: file_ok_def)
  show thesis
  proof (cases "idx = 12")
    case True
    then show thesis
      using eq moved_refl [of d0 s] stop [of s] by (simp add: write_block_def SFS_DIRECT_BLOCKS_def)
  next
    case False
    then have room: "unat (block_count i) < 12"
      using eq le by simp
    show thesis
    proof (cases rule: alloc_block_ok [OF assms(1) low])
      case (1 s')
      then show thesis
        using eq room stop [of s'] by (simp add: write_block_def SFS_DIRECT_BLOCKS_def)
    next
      case (2 k s')
      define i' where "i' = i\<lparr>i_blocks := (i_blocks i)[unat (block_count i) := of_nat k], block_count := block_count i + 1\<rparr>"
      have free: "\<not> bitmap_bit (blks d0 s 2) k"
        using 2(1) by (simp add: free_bit_Some)
      note new = file_ok_add_block [OF ok room 2(2,3) free blks_length movedD(1) [OF 2(5)] i'_def]
      have "write_block dev idx i s = Inr (Some i', s')"
        using eq room 2(4) by (simp add: write_block_def SFS_DIRECT_BLOCKS_def i'_def)
      then show thesis
        using go [of i' s'] new 2(5) movedD(1) [OF 2(5)] eq by simp
    qed
  qed
qed

text \<open>What a write has done once \<open>n'\<close> bytes are stored, \<open>n\<close> of them before.\<close>

definition wrote :: "(nat \<Rightarrow> u8 list) \<Rightarrow> sfs_inode \<Rightarrow> (nat \<Rightarrow> u8 list) \<Rightarrow> sfs_inode \<Rightarrow> u8 list \<Rightarrow> nat \<Rightarrow> nat \<Rightarrow> nat \<Rightarrow> bool" where
  "wrote B i B' i' buf offset n n' \<longleftrightarrow>
     n \<le> n' \<and> grows B i B' i' \<and> file_ok B' i' \<and> offset + n' \<le> 4096 * unat (block_count i') \<and>
     (\<forall>k. n \<le> k \<and> k < n' \<longrightarrow> fbyte B' i' (offset + k) = buf ! k) \<and>
     (\<forall>k<4096 * unat (block_count i). k < offset + n \<or> offset + n' \<le> k \<longrightarrow> fbyte B' i' k = fbyte B i k)"

lemma wrote_refl: "file_ok B i \<Longrightarrow> offset + n \<le> 4096 * unat (block_count i) \<Longrightarrow> wrote B i B i buf offset n n"
  by (auto simp: wrote_def grows_refl)

lemma wrote_trans:
  assumes "wrote B i B1 i1 buf offset n n1" and "wrote B1 i1 B2 i2 buf offset n1 n2"
  shows "wrote B i B2 i2 buf offset n n2"
proof -
  have g: "unat (block_count i) \<le> unat (block_count i1)" and o: "offset + n1 \<le> 4096 * unat (block_count i1)"
    using assms(1) growsD(4) unfolding wrote_def by blast+
  have "fbyte B2 i2 (offset + k) = buf ! k" if "n \<le> k" "k < n2" for k
  proof (cases "k < n1")
    case True
    then have "offset + k < 4096 * unat (block_count i1)" "offset + k < offset + n1"
      using o by linarith+
    then have "fbyte B2 i2 (offset + k) = fbyte B1 i1 (offset + k)"
      using assms(2) unfolding wrote_def by blast
    then show ?thesis
      using True that assms(1) unfolding wrote_def by simp
  next
    case False
    then show ?thesis using that assms(2) unfolding wrote_def by simp
  qed
  moreover have "fbyte B2 i2 k = fbyte B i k"
    if "k < 4096 * unat (block_count i)" "k < offset + n \<or> offset + n2 \<le> k" for k
  proof -
    have "k < 4096 * unat (block_count i1)"
      using that(1) g by linarith
    moreover have "k < offset + n1 \<or> offset + n2 \<le> k" "k < offset + n \<or> offset + n1 \<le> k"
      using that(2) assms unfolding wrote_def by linarith+
    ultimately have "fbyte B2 i2 k = fbyte B1 i1 k" "fbyte B1 i1 k = fbyte B i k"
      using assms that(1) unfolding wrote_def by blast+
    then show ?thesis by simp
  qed
  moreover have "n \<le> n2" "grows B i B2 i2" "file_ok B2 i2" "offset + n2 \<le> 4096 * unat (block_count i2)"
    using assms grows_trans unfolding wrote_def by (meson le_trans)+
  ultimately show ?thesis
    unfolding wrote_def by blast
qed

text \<open>One block written, after the file got it when it was missing.\<close>

lemma wrote_block:
  assumes ok: "file_ok B i" and len: "\<And>m. length (B1 m) = 4096"
    and g: "grows B i B1 i1" "file_ok B1 i1" "\<forall>m \<in> own i. B1 m = B m"
    and a: "(offset + n) mod 4096 + c \<le> 4096" "(offset + n) div 4096 < unat (block_count i1)" "n + c \<le> length buf"
    and B2: "B2 = B1(unat (i_blocks i1 ! ((offset + n) div 4096)) := store_at ((offset + n) mod 4096) (field_at n c buf)
          (B1 (unat (i_blocks i1 ! ((offset + n) div 4096)))))"
  shows "wrote B i B2 i1 buf offset n (n + c)"
proof -
  have lx: "length (field_at n c buf) = c"
    using a(3) by simp
  have a1: "(offset + n) mod 4096 + length (field_at n c buf) \<le> 4096"
    using a(1) by (simp only: lx)
  note sb = store_block [OF g(2) len a1 a(2) B2]
  have end': "offset + n + c \<le> 4096 * unat (block_count i1)"
  proof -
    define q r where "q = (offset + n) div 4096" and "r = (offset + n) mod 4096"
    have "offset + n = q * 4096 + r"
      unfolding q_def r_def by (rule div_mult_mod_eq [symmetric])
    moreover have "q < unat (block_count i1)" "r + c \<le> 4096"
      using a(1,2) by (simp_all add: q_def r_def)
    ultimately show ?thesis
      by linarith
  qed
  have "fbyte B2 i1 (offset + k) = buf ! k" if "n \<le> k" "k < n + c" for k
    using sb(3) [of "offset + k"] that end' lx a(3) by (simp add: field_at_nth)
  moreover have "fbyte B2 i1 k = fbyte B i k" if "k < 4096 * unat (block_count i)" "k < offset + n \<or> offset + (n + c) \<le> k" for k
    using sb(3) [of k] that growsD(4) [OF g(1)] fbyte_cong [OF g(1) ok g(3) that(1)] lx by auto
  ultimately show ?thesis
    using sb(1) grows_trans [OF g(1) sb(2)] end' unfolding wrote_def by (auto simp: add.assoc)
qed


lemma write_loop_wrote:
  assumes "fs_std dev d0 s" and "file_ok (blks d0 s) i" and "n \<le> sz" and "unat offset + unat sz < 4294967296"
    and "unat offset + unat n \<le> 4096 * unat (block_count i)" and "unat sz \<le> length buf" and "length block = 4096"
  shows "\<exists>n' i' s'. write_loop dev i buf sz offset n block s = Inr (n', i', s') \<and> n' \<le> sz \<and> moved d0 s s' (blks d0 s') \<and>
    wrote (blks d0 s) i (blks d0 s') i' buf (unat offset) (unat n) (unat n') \<and>
    (n' = sz \<or> unat offset + unat n' = 49152 \<or> free_bit (blks d0 s' 2) 1024 = None)"
  using assms(1-3,5,7)
proof (induction "unat sz - unat n" arbitrary: n i block s rule: less_induct)
  case less
  note p = less.prems
  show ?case
  proof (cases "n < sz")
    case False
    have "write_loop dev i buf sz offset n block s = Inr (n, i, s)"
      using False by (subst write_loop.simps) simp
    moreover have "n = sz"
      using False p(3) by simp
    ultimately show ?thesis
      using moved_refl [of d0 s] wrote_refl [OF p(2) p(4)] by simp
  next
    case True
    define a where "a = unat offset + unat n"
    define c where "c = min (4096 - a mod 4096) (unat sz - unat n)"
    define n' where "n' = n + chunk sz n (offset + n)"
    note cn = chunk_nat [OF True assms(4), folded a_def, folded c_def, folded n'_def]
    have nn: "unat n < unat sz"
      using True by (simp add: word_less_nat_alt)
    have "c \<le> 4096 - a mod 4096" "c \<le> unat sz - unat n" "0 < c" "a mod 4096 < 4096"
      using nn by (simp_all add: c_def)
    then have cle: "a mod 4096 + c \<le> 4096" "unat n + c \<le> unat sz" "0 < c" "unat n' = unat n + c"
      using nn cn(2,3) by linarith+
    have idx: "a div 4096 \<le> unat (block_count i)"
      using div_le_mono [OF p(4), of 4096] by (simp add: a_def)
    show ?thesis
    proof (cases rule: write_block_cases [OF p(1,2) idx])
      case (1 s')
      have "a = 49152" if "a div 4096 = 12"
      proof -
        have "a \<le> 4096 * 12" "12 * 4096 \<le> a"
          using that 1(4) p(4) div_times_less_eq_dividend [of a 4096] by (simp_all add: a_def)
        then show ?thesis by simp
      qed
      moreover have "write_loop dev i buf sz offset n block s = Inr (n, i, s')"
        using True 1(1) by (subst write_loop.simps) (simp add: Let_def cn)
      ultimately show ?thesis
        using 1(2,3) movedD(1) [OF 1(2)] wrote_refl [OF p(2) p(4)] p(3) unfolding a_def by auto
    next
      case (2 i1 s1)
      define b where "b = i_blocks i1 ! (a div 4096)"
      have bn: "b < DISK_BLOCKS" and l12: "length (i_blocks i1) = 12" "unat (block_count i1) \<le> 12"
        using 2(3,5) by (simp_all add: b_def file_ok_def DISK_BLOCKS_def word_less_nat_alt)
      note std1 = fs_std_moved [OF p(1) 2(2)]
      have f: "follows_drive dev d0"
        using p(1) by (simp add: fs_std_def)
      obtain s2 where s2: "bread dev b block s1 = (blks d0 s1 (unat b), s2)" "moved d0 s1 s2 (blks d0 s1)"
        using bread_ok [OF f bn p(5), of s1] by blast
      define blk where "blk = store_at (a mod 4096) (field_at (unat n) c buf) (blks d0 s1 (unat b))"
      have lf: "length (field_at (unat n) c buf) = c"
        using cle(2) assms(6) by simp
      have lb: "length blk = 4096"
        using lf cle(1) by (simp add: blk_def)
      define s3 where "s3 = bwrite dev b blk s2"
      have m3: "moved d0 s2 s3 ((blks d0 s1)(unat b := blk))"
        using bwrite_ok [OF f bn lb, of s2] movedD(1) [OF s2(2)] by (simp add: s3_def)
      have step: "write_loop dev i buf sz offset n block s = write_loop dev i1 buf sz offset n' blk s3"
        using True 2(1,5) l12 s2(1) cle(2) assms(6)
        by (subst write_loop.simps) (simp add: Let_def cn b_def [symmetric] blk_def [symmetric] n'_def [symmetric] s3_def [symmetric])
      have w: "wrote (blks d0 s) i (blks d0 s3) i1 buf (unat offset) (unat n) (unat n')"
        unfolding cle(4)
        by (rule wrote_block [OF p(2) blks_length 2(4,3,6)])
          (use cle assms(6) 2(5) in \<open>simp_all add: a_def [symmetric] movedD(1) [OF m3] b_def [symmetric] blk_def\<close>)
      then have ok3: "file_ok (blks d0 s3) i1" "unat offset + unat n' \<le> 4096 * unat (block_count i1)"
        by (simp_all add: wrote_def)
      have m: "moved d0 s s3 (blks d0 s3)"
        using moved_trans [OF moved_trans [OF 2(2) s2(2)] m3] movedD(1) [OF m3] by simp
      have dec: "unat sz - unat n' < unat sz - unat n" "n' \<le> sz"
        using cle nn by (simp_all add: word_le_nat_alt)
      obtain n2 i2 s4 where r: "write_loop dev i1 buf sz offset n' blk s3 = Inr (n2, i2, s4)" "n2 \<le> sz"
          "moved d0 s3 s4 (blks d0 s4)" "wrote (blks d0 s3) i1 (blks d0 s4) i2 buf (unat offset) (unat n') (unat n2)"
          "n2 = sz \<or> unat offset + unat n2 = 49152 \<or> free_bit (blks d0 s4 2) 1024 = None"
        using less.hyps [OF dec(1) fs_std_moved [OF p(1) m] ok3(1) dec(2) ok3(2) lb] by blast
      show ?thesis
        using step r wrote_trans [OF w r(4)] moved_trans [OF m r(3)] by auto
    qed
  qed
qed

text \<open>A formatted disk without files, for the examples.\<close>

definition demo_drive :: drive where
  "demo_drive = blank_drive\<lparr>medium := (\<lambda>i. if i = 4096 then 0x1F else 0)\<rparr>"

definition demo_fs :: sfs where
  "demo_fs = \<lparr>disk = \<lparr>io_trace = [], disk_log = []\<rparr>, sb = blank_sb, mounted = True,
     file_table = replicate 16 \<lparr>f_ino = 0, f_offset = 0, f_mode = 0, in_use = 0\<rparr>, stale = replicate 4096 0\<rparr>"

definition demo_file :: sfs_inode where
  "demo_file = zero_inode\<lparr>i_ino := 2\<rparr>"

section \<open>Files\<close>

lemma write_file_wrote:
  assumes "fs_std dev d0 s" and "file_ok (blks d0 s) i" and "offset \<le> i_size i" and "unat offset + unat sz < 4294967296"
    and "unat sz \<le> length buf"
  obtains n i1 s' where "sfs_write_file dev i buf sz offset s =
      Inr (n, if offset + n > i_size i1 then i1\<lparr>i_size := offset + n\<rparr> else i1, s')"
    and "n \<le> sz" and "moved d0 s s' (blks d0 s')"
    and "wrote (blks d0 s) i (blks d0 s') i1 buf (unat offset) 0 (unat n)"
    and "n = sz \<or> unat offset + unat n = 49152 \<or> free_bit (blks d0 s' 2) 1024 = None"
    and "unat (offset + n) = unat offset + unat n"
proof -
  have st: "length (stale s) = 4096"
    using assms(1) by (simp add: fs_std_def)
  have o: "unat offset + unat (0 :: u32) \<le> 4096 * unat (block_count i)"
    using assms(2,3) by (simp add: file_ok_def word_le_nat_alt)
  obtain n i1 s' where r: "write_loop dev i buf sz offset 0 (stale s) s = Inr (n, i1, s')" "n \<le> sz" "moved d0 s s' (blks d0 s')"
      "wrote (blks d0 s) i (blks d0 s') i1 buf (unat offset) (unat (0 :: u32)) (unat n)"
      "n = sz \<or> unat offset + unat n = 49152 \<or> free_bit (blks d0 s' 2) 1024 = None"
    using write_loop_wrote [OF assms(1,2) word_zero_le assms(4) o assms(5) st] by blast
  have "unat (offset + n) = unat offset + unat n"
    using r(2) assms(4) by (simp add: unat_word_ariths word_le_nat_alt)
  then show thesis
    using that [OF _ r(2,3) _ r(5)] r(1,4) by (simp add: sfs_write_file_def)
qed

lemma file_ok_resize: "file_ok B i \<Longrightarrow> unat z \<le> 4096 * unat (block_count i) \<Longrightarrow> file_ok B (i\<lparr>i_size := z\<rparr>)"
  by (simp add: file_ok_def)

lemma fbyte_resize [simp]: "fbyte B (i\<lparr>i_size := z\<rparr>) k = fbyte B i k"
  by (simp add: fbyte_def)

text \<open>Reading within the size of a file delivers its bytes; a request past the end is cut.\<close>

lemma read_file_bytes:
  assumes "fs_std dev d0 s" and "file_ok (blks d0 s) i" and "unat offset + unat sz \<le> unat (i_size i)"
    and "unat sz \<le> length buf"
  shows "\<exists>s'. sfs_read_file dev i buf sz offset s =
    Inr (sz, store_at 0 (fbytes (blks d0 s) i (unat offset) (unat sz)) buf, s') \<and> moved d0 s s' (blks d0 s)"
proof (cases "i_size i \<le> offset")
  case True
  then have "unat sz = 0"
    using assms(3) by (simp add: word_le_nat_alt)
  then have "sz = 0"
    by (simp add: unat_eq_0)
  then show ?thesis
    using True moved_refl [of d0 s] by (auto simp: sfs_read_file_def fbytes_def)
next
  case False
  have st: "length (stale s) = 4096" and f: "length (i_blocks i) = 12" "unat (block_count i) \<le> 12"
    "\<forall>j<unat (block_count i). unat (i_blocks i ! j) < 1024" "unat (i_size i) \<le> 4096 * unat (block_count i)"
    using assms(1,2) by (simp_all add: fs_std_def file_ok_def)
  have "unat (offset + sz) = unat offset + unat sz"
    using assms(3) unat_u32_less [of "i_size i"] by (simp add: unat_word_ariths del: unat_u32_less)
  then have "\<not> i_size i < offset + sz"
    using assms(3) by (simp add: word_less_nat_alt)
  then show ?thesis
    using read_loop_bytes [OF assms(1) f(1-3) word_zero_le, of offset sz buf "stale s"] assms(3,4) f(4) st False
    by (simp add: sfs_read_file_def)
qed

lemma demo_fs_std: "fs_std (drive_device demo_drive) demo_drive demo_fs"
  by (simp add: fs_std_def drive_device_follows demo_fs_def MAX_FILES_def)

lemma demo_bitmap: "blks demo_drive demo_fs 2 ! 0 = 0x1F"
  by (simp add: blks_def disk_blk_def drive_block_def drive_of_def drive_run_def demo_fs_def demo_drive_def upt_conv_Cons
    del: upt_Suc)

lemma demo_file_ok: "file_ok (blks demo_drive demo_fs) demo_file" "own demo_file = {}"
proof -
  have "bitmap_bit (blks demo_drive demo_fs 2) j" if "j < 5" for j
  proof -
    have "j \<in> {0, 1, 2, 3, 4}" using that by auto
    then show ?thesis
      by (auto simp: bitmap_bit_def demo_bitmap)
  qed
  then show "file_ok (blks demo_drive demo_fs) demo_file" "own demo_file = {}"
    by (simp_all add: file_ok_def own_def demo_file_def zero_inode_def SFS_DIRECT_BLOCKS_def)
qed



text \<open>
  C31. Files do not share blocks: writing one file leaves every other file, whose blocks are other
  blocks, exactly as it was, and their blocks stay apart.
\<close>

theorem file_write_private:
  assumes "fs_std dev d0 s" and "file_ok (blks d0 s) i" and "offset \<le> i_size i" and "unat offset + unat sz < 4294967296"
    and "unat sz \<le> length buf" and "file_ok (blks d0 s) j" and "own i \<inter> own j = {}"
  shows "\<exists>n i' s'. sfs_write_file dev i buf sz offset s = Inr (n, i', s') \<and> file_ok (blks d0 s') i' \<and>
    file_ok (blks d0 s') j \<and> own i' \<inter> own j = {} \<and>
    (\<forall>a k. a + k \<le> 4096 * unat (block_count j) \<longrightarrow> fbytes (blks d0 s') j a k = fbytes (blks d0 s) j a k)"
proof -
  obtain n i1 s' where w: "sfs_write_file dev i buf sz offset s =
      Inr (n, if offset + n > i_size i1 then i1\<lparr>i_size := offset + n\<rparr> else i1, s')"
    and wr: "wrote (blks d0 s) i (blks d0 s') i1 buf (unat offset) 0 (unat n)"
    and on: "unat (offset + n) = unat offset + unat n"
    using write_file_wrote [OF assms(1-5)] by blast
  have g: "grows (blks d0 s) i (blks d0 s') i1" "file_ok (blks d0 s') i1" "unat offset + unat n \<le> 4096 * unat (block_count i1)"
    using wr by (simp_all add: wrote_def)
  have apart: "own i1 \<inter> own j = {}"
    using growsD(8) [OF g(1)] own_marked [OF assms(6)] assms(7) by blast
  have same: "blks d0 s' m = blks d0 s m" if "m \<in> own j" for m
    using growsD(6) [OF g(1), of m] own_marked [OF assms(6) that] apart that by auto
  have okj: "file_ok (blks d0 s') j"
    using assms(6) growsD(7) [OF g(1)] unfolding file_ok_def by blast
  have "fbyte (blks d0 s') j k = fbyte (blks d0 s) j k" if "k < 4096 * unat (block_count j)" for k
  proof -
    have "k div 4096 < unat (block_count j)"
      by (rule less_mult_imp_div_less) (use that in simp)
    then show ?thesis
      using same own_nth [OF assms(6)] by (simp add: fbyte_def)
  qed
  then have "\<forall>a k. a + k \<le> 4096 * unat (block_count j) \<longrightarrow> fbytes (blks d0 s') j a k = fbytes (blks d0 s) j a k"
    by (auto simp: fbytes_def)
  moreover have "file_ok (blks d0 s') (if offset + n > i_size i1 then i1\<lparr>i_size := offset + n\<rparr> else i1)"
    using g(2) file_ok_resize [OF g(2), of "offset + n"] g(3) on by simp
  moreover have "own (if offset + n > i_size i1 then i1\<lparr>i_size := offset + n\<rparr> else i1) = own i1"
    by (simp add: own_def)
  ultimately show ?thesis
    using w apart okj by blast
qed

theorem file_write_private_witness:
  "\<exists>n i' s'. sfs_write_file (drive_device demo_drive) demo_file [7, 8, 9] 3 0 demo_fs = Inr (n, i', s') \<and>
     file_ok (blks demo_drive s') (demo_file\<lparr>i_ino := 3\<rparr>)"
  using file_write_private [OF demo_fs_std demo_file_ok(1), of 0 3 "[7, 8, 9]" "demo_file\<lparr>i_ino := 3\<rparr>"] demo_file_ok
  by (fastforce simp: file_ok_def own_def)

end
