(* ===== verification/Sros_Sfs_Dir.thy ===== *)
theory Sros_Sfs_Dir
  imports Sros_Sfs_File
begin

unbundle bit_operations_syntax

text \<open>
  Directories: the entries of a directory as a list, what a lookup finds in it, and how creating a
  file changes it.
\<close>

definition block_dents :: "u8 list \<Rightarrow> dentry list" where
  "block_dents block = map (\<lambda>di. dentry_at di block) [0..<128]"

definition dents :: "(nat \<Rightarrow> u8 list) \<Rightarrow> u32 list \<Rightarrow> dentry list" where
  "dents B bs = concat (map (\<lambda>b. block_dents (B (unat b))) bs)"

definition named :: "u8 list \<Rightarrow> dentry \<Rightarrow> bool" where
  "named name d \<longleftrightarrow> d_ino d \<noteq> 0 \<and> cstr (d_name d) = name"

definition lookup_in :: "dentry list \<Rightarrow> u8 list \<Rightarrow> int" where
  "lookup_in ds name = (case List.find (named name) ds of None \<Rightarrow> -1 | Some d \<Rightarrow> sint (d_ino d))"

definition dir_blocks :: "sfs_inode \<Rightarrow> u32 list" where
  "dir_blocks i = take (unat (block_count i)) (i_blocks i)"

text \<open>
  A directory: used entries have terminated names and the numbers of inodes, free ones are blank.
\<close>

definition dent_ok :: "dentry \<Rightarrow> bool" where
  "dent_ok d \<longleftrightarrow> (if d_ino d = 0 then d_name d = replicate 28 0 else 0 \<in> set (d_name d) \<and> d_ino d < 134)"

definition dir_ok :: "(nat \<Rightarrow> u8 list) \<Rightarrow> sfs_inode \<Rightarrow> bool" where
  "dir_ok B i \<longleftrightarrow> file_ok B i \<and> i_type i = SFS_DIR \<and> (\<forall>d \<in> set (dents B (dir_blocks i)). dent_ok d)"

section \<open>Looking up\<close>

lemma dentry_at_store:
  assumes "length (d_name d) = 28" and "length block = 4096" and "di < 128" and "dj < 128"
  shows "dentry_at dj (store_at (di * 32) (dentry_bytes d) block) = (if dj = di then d else dentry_at dj block)"
proof -
  have l: "length (dentry_bytes d) = 32"
    using assms(1) by (rule dentry_bytes_length)
  show ?thesis
  proof (cases "dj = di")
    case True
    then show ?thesis
      using field_store_same [of "di * 32" "dentry_bytes d" block] l assms
      by (simp add: dentry_at_def sizeof_dentry_def bytes_dentry_bytes)
  next
    case False
    then have "dj * 32 + 32 \<le> di * 32 \<or> di * 32 + 32 \<le> dj * 32"
      by linarith
    then show ?thesis
      using False field_store_other [of "di * 32" "dentry_bytes d" block "dj * 32" 32] l assms
      by (simp add: dentry_at_def sizeof_dentry_def)
  qed
qed

lemma dentry_name_length: "length block = 4096 \<Longrightarrow> di < 128 \<Longrightarrow> length (d_name (dentry_at di block)) = 28"
  by (simp add: dentry_at_def bytes_dentry_def field_at_def sizeof_dentry_def MAX_FILENAME_def)

lemma lookup_block_find:
  assumes "0 \<notin> set name" and "\<forall>di \<in> set dis. d_ino (dentry_at di block) \<noteq> 0 \<longrightarrow> 0 \<in> set (d_name (dentry_at di block))"
  shows "lookup_block block dis name =
    Inr (map_option (\<lambda>d. sint (d_ino d)) (List.find (named name) (map (\<lambda>di. dentry_at di block) dis)))"
  using assms(2)
proof (induction dis)
  case (Cons di dis)
  have "cstr (name @ [0]) = name"
    using assms(1) by (rule cstr_terminated)
  then have "strcmp (d_name (dentry_at di block)) (name @ [0]) = Inr (text_order (cstr (d_name (dentry_at di block))) name)"
    if "d_ino (dentry_at di block) \<noteq> 0"
    using Cons.prems that by (simp add: strcmp_ok)
  then show ?case
    using Cons by (auto simp: Let_def named_def text_order_zero)
qed simp

lemma dents_Cons: "dents B (b # bs) = block_dents (B (unat b)) @ dents B bs"
  by (simp add: dents_def)

lemma lookup_blocks_ok:
  assumes "fs_std dev d0 s" and "0 \<notin> set name" and "\<forall>bi \<in> set bis. bi < length blocks \<and> unat (blocks ! bi) < 1024"
    and "\<forall>d \<in> set (dents (blks d0 s) (map (nth blocks) bis)). dent_ok d" and "length block = 4096"
  shows "\<exists>s'. lookup_blocks dev blocks bis block name s = Inr (lookup_in (dents (blks d0 s) (map (nth blocks) bis)) name, s') \<and>
    moved d0 s s' (blks d0 s)"
  using assms
proof (induction bis arbitrary: s block)
  case Nil
  then show ?case
    using moved_refl [of d0 s] by (simp add: lookup_in_def dents_def)
next
  case (Cons bi bis)
  let ?b = "blks d0 s (unat (blocks ! bi))"
  have f: "follows_drive dev d0" "blocks ! bi < DISK_BLOCKS"
    using Cons.prems(1,3) by (simp_all add: fs_std_def DISK_BLOCKS_def word_less_nat_alt)
  obtain s1 where s1: "bread dev (blocks ! bi) block s = (?b, s1)" "moved d0 s s1 (blks d0 s)"
    using bread_ok [OF f Cons.prems(5), of s] by blast
  have "\<forall>di \<in> set [0..<128]. d_ino (dentry_at di ?b) \<noteq> 0 \<longrightarrow> 0 \<in> set (d_name (dentry_at di ?b))"
    using Cons.prems(4) by (auto simp: dents_Cons block_dents_def dent_ok_def)
  from lookup_block_find [OF assms(2) this]
  have lb: "lookup_block ?b [0..<128] name = Inr (map_option (\<lambda>d. sint (d_ino d)) (List.find (named name) (block_dents ?b)))"
    by (simp add: block_dents_def)
  have d128: "dentries_per_block = 128"
    by (simp add: dentries_per_block_def FS_BLOCK_SIZE_def sizeof_dentry_def)
  show ?case
  proof (cases "List.find (named name) (block_dents ?b)")
    case None
    obtain s2 where s2: "lookup_blocks dev blocks bis ?b name s1 =
        Inr (lookup_in (dents (blks d0 s1) (map (nth blocks) bis)) name, s2)" "moved d0 s1 s2 (blks d0 s1)"
      using Cons.IH [of s1 ?b] fs_std_moved [OF Cons.prems(1) s1(2)] Cons.prems(2-4) movedD(1) [OF s1(2)]
      by (auto simp: dents_Cons)
    have "lookup_blocks dev blocks (bi # bis) block name s = lookup_blocks dev blocks bis ?b name s1"
      using Cons.prems(3) s1(1) lb None by (simp add: d128)
    then show ?thesis
      using s2 moved_trans [OF s1(2) s2(2)] None movedD(1) [OF s1(2)] by (simp add: lookup_in_def dents_Cons find_append)
  next
    case (Some d)
    then have "lookup_blocks dev blocks (bi # bis) block name s = Inr (sint (d_ino d), s1)"
      using Cons.prems(3) s1(1) lb by (simp add: d128)
    then show ?thesis
      using s1(2) Some by (simp add: lookup_in_def dents_Cons find_append)
  qed
qed

lemma dir_blocks_map: "file_ok B i \<Longrightarrow> map (nth (i_blocks i)) [0..<unat (block_count i)] = dir_blocks i"
  unfolding dir_blocks_def file_ok_def by (intro nth_equalityI) auto

lemma sfs_lookup_ok:
  assumes "fs_std dev d0 s" and "valid_ino ino" and "dir_ok (blks d0 s) (inode_at (blks d0 s) ino)" and "0 \<notin> set name"
  obtains s' where "sfs_lookup dev ino name s =
      Inr (lookup_in (dents (blks d0 s) (dir_blocks (inode_at (blks d0 s) ino))) name, s')"
    and "moved d0 s s' (blks d0 s)"
proof -
  let ?i = "inode_at (blks d0 s) ino"
  have ok: "file_ok (blks d0 s) ?i" "i_type ?i = SFS_DIR" "\<forall>d \<in> set (dents (blks d0 s) (dir_blocks ?i)). dent_ok d"
    using assms(3) by (simp_all add: dir_ok_def)
  obtain s1 where s1: "sfs_read_inode dev ino s = (Some ?i, s1)" "moved d0 s s1 (blks d0 s)"
    using read_inode_ok [OF assms(1,2)] by blast
  have st: "length (stale s1) = 4096" "blks d0 s1 = blks d0 s"
    using assms(1) movedD [OF s1(2)] by (simp_all add: fs_std_def)
  have r: "\<forall>bi \<in> set [0..<unat (block_count ?i)]. bi < length (i_blocks ?i) \<and> unat (i_blocks ?i ! bi) < 1024"
    using ok(1) by (auto simp: file_ok_def)
  obtain s2 where s2: "lookup_blocks dev (i_blocks ?i) [0..<unat (block_count ?i)] (stale s1) name s1 =
      Inr (lookup_in (dents (blks d0 s) (dir_blocks ?i)) name, s2)" "moved d0 s1 s2 (blks d0 s)"
    using lookup_blocks_ok [OF fs_std_moved [OF assms(1) s1(2)] assms(4) r _ st(1)] ok(3)
    by (auto simp: dir_blocks_map [OF ok(1)] st(2))
  have "sfs_lookup dev ino name s = Inr (lookup_in (dents (blks d0 s) (dir_blocks ?i)) name, s2)"
    using s1(1) ok(2) s2(1) by (simp add: sfs_lookup_def)
  then show thesis
    using that moved_trans [OF s1(2) s2(2)] by blast
qed

section \<open>Adding an entry\<close>

lemma put_name_length: "length old = 28 \<Longrightarrow> length (put_name name old) = 28"
  by (simp add: put_name_def MAX_FILENAME_def)

lemma put_name_blank:
  assumes "length name \<le> 27"
  shows "put_name name (replicate 28 0) = name @ replicate (28 - length name) 0"
proof -
  have "store_at 0 name (replicate 28 0) = name @ replicate (28 - length name) 0"
    using assms by (simp add: store_at_def)
  moreover have "(name @ replicate (28 - length name) 0)[27 := 0] = name @ replicate (28 - length name) 0"
    using assms by (intro list_update_same_conv [THEN iffD2]) (auto simp: nth_append)
  ultimately show ?thesis
    using assms by (simp add: put_name_def MAX_FILENAME_def)
qed

lemma cstr_put_name_blank: "length name \<le> 27 \<Longrightarrow> 0 \<notin> set name \<Longrightarrow> cstr (put_name name (replicate 28 0)) = name"
  using cstr_terminated [of name "replicate (27 - length name) 0"] Suc_diff_le [of "length name" 27]
  by (simp add: put_name_blank flip: replicate_Suc)

lemma free_entry_find:
  "free_entry block dis d = (case find_first (\<lambda>di. d_ino (dentry_at di block) = 0) dis of
     Some k \<Rightarrow> (Some (dis ! k), dentry_at (dis ! k) block)
   | None \<Rightarrow> (None, if dis = [] then d else dentry_at (last dis) block))"
  by (induction dis arbitrary: d) (auto simp: Let_def split: option.splits)

lemma block_dents_split:
  "di < 128 \<Longrightarrow> block_dents block =
     map (\<lambda>dj. dentry_at dj block) [0..<di] @ dentry_at di block # map (\<lambda>dj. dentry_at dj block) [Suc di..<128]"
  unfolding block_dents_def using upt_add_eq_append [of 0 di "128 - di"] upt_conv_Cons [of di 128] by simp

lemma block_dents_store:
  assumes "length (d_name d) = 28" and "length block = 4096" and "di < 128"
  shows "block_dents (store_at (di * 32) (dentry_bytes d) block) =
    map (\<lambda>dj. dentry_at dj block) [0..<di] @ d # map (\<lambda>dj. dentry_at dj block) [Suc di..<128]"
  using assms(3) by (simp add: block_dents_split [OF assms(3)] dentry_at_store [OF assms])

lemma dents_frame: "(\<forall>b \<in> set bs. B' (unat b) = B (unat b)) \<Longrightarrow> dents B' bs = dents B bs"
  by (induction bs) (simp_all add: dents_def)

text \<open>The first free entry of the directory receives the new name; or there is none and nothing changes.\<close>

lemma add_entry_cases:
  assumes "fs_std dev d0 s" and "\<forall>bi \<in> set bis. bi < length blocks \<and> unat (blocks ! bi) < 1024"
    and "distinct (map (nth blocks) bis)" and "length block = 4096"
  obtains (full) d' s' where "add_entry dev blocks bis block d ino name s = Inr (False, d', s')"
      and "moved d0 s s' (blks d0 s)" and "\<forall>x \<in> set (dents (blks d0 s) (map (nth blocks) bis)). d_ino x \<noteq> 0"
      and "d' = (if bis = [] then d else last (dents (blks d0 s) (map (nth blocks) bis)))"
  | (added) as x cs b block' s' where
      "add_entry dev blocks bis block d ino name s = Inr (True, \<lparr>d_ino = ino, d_name = put_name name (d_name x)\<rparr>, s')"
      and "moved d0 s s' ((blks d0 s)(unat b := block'))" and "b \<in> set (map (nth blocks) bis)" and "length block' = 4096"
      and "dents (blks d0 s) (map (nth blocks) bis) = as @ x # cs" and "d_ino x = 0"
      and "dents ((blks d0 s)(unat b := block')) (map (nth blocks) bis) =
        as @ \<lparr>d_ino = ino, d_name = put_name name (d_name x)\<rparr> # cs"
  using assms
proof (induction bis arbitrary: s block d thesis)
  case Nil
  show ?case
    using Nil.prems(1) [of d s] moved_refl [of d0 s] by (simp add: dents_def)
next
  case (Cons bi bis)
  let ?b = "blocks ! bi" and ?rest = "map (nth blocks) bis"
  define B where "B = blks d0 s"
  have d128: "dentries_per_block = 128"
    by (simp add: dentries_per_block_def FS_BLOCK_SIZE_def sizeof_dentry_def)
  have f: "follows_drive dev d0" "?b < DISK_BLOCKS"
    using Cons.prems(3,4) by (simp_all add: fs_std_def DISK_BLOCKS_def word_less_nat_alt)
  obtain s1 where s1: "bread dev ?b block s = (B (unat ?b), s1)" "moved d0 s s1 B"
    using bread_ok [OF f Cons.prems(6), of s] unfolding B_def by blast
  note std1 = fs_std_moved [OF Cons.prems(3) s1(2)] and b1 = movedD(1) [OF s1(2)]
  have lenB: "length (B n) = 4096" for n
    by (simp add: B_def)
  show ?case
  proof (cases "find_first (\<lambda>di. d_ino (dentry_at di (B (unat ?b))) = 0) [0..<128]")
    case (Some k)
    define x where "x = dentry_at k (B (unat ?b))"
    have k: "k < 128" "d_ino x = 0"
      using find_first_SomeD(1,2) [OF Some] by (simp_all add: x_def)
    define new where "new = \<lparr>d_ino = ino, d_name = put_name name (d_name x)\<rparr>"
    define blk where "blk = store_at (k * 32) (dentry_bytes new) (B (unat ?b))"
    have ln: "length (d_name new) = 28"
      using dentry_name_length [OF lenB k(1)] by (simp add: new_def x_def put_name_length)
    have lb: "length blk = 4096"
      using k(1) lenB by (simp add: blk_def dentry_bytes_length [OF ln])
    have run: "add_entry dev blocks (bi # bis) block d ino name s = Inr (True, new, bwrite dev ?b blk s1)"
      using Cons.prems(4) s1(1) Some k(1)
      by (simp add: d128 free_entry_find x_def new_def blk_def sizeof_dentry_def Let_def)
    have m: "moved d0 s (bwrite dev ?b blk s1) (B(unat ?b := blk))"
      using moved_trans [OF s1(2) bwrite_ok [OF f lb, of s1]] b1 by simp
    have "\<forall>b \<in> set ?rest. unat b \<noteq> unat ?b"
      using Cons.prems(5) by (metis distinct.simps(2) list.simps(9) word_unat_eq_iff)
    then have rest: "dents (B(unat ?b := blk)) ?rest = dents B ?rest"
      by (intro dents_frame) simp
    let ?as = "map (\<lambda>dj. dentry_at dj (B (unat ?b))) [0..<k]"
    let ?cs = "map (\<lambda>dj. dentry_at dj (B (unat ?b))) [Suc k..<128] @ dents B ?rest"
    show ?thesis
    proof (rule Cons.prems(2) [unfolded B_def [symmetric], OF run [unfolded new_def] m _ lb _ k(2)])
      show "?b \<in> set (map (nth blocks) (bi # bis))" by simp
      show "dents B (map (nth blocks) (bi # bis)) = ?as @ x # ?cs"
        using block_dents_split [OF k(1)] by (simp add: dents_Cons x_def)
      show "dents (B(unat ?b := blk)) (map (nth blocks) (bi # bis)) =
          ?as @ \<lparr>d_ino = ino, d_name = put_name name (d_name x)\<rparr> # ?cs"
        using block_dents_store [OF ln lenB k(1)] rest by (simp add: dents_Cons blk_def new_def)
    qed
  next
    case None
    have nz: "\<forall>x \<in> set (block_dents (B (unat ?b))). d_ino x \<noteq> 0"
      using None by (auto simp: find_first_None_iff block_dents_def)
    have run: "add_entry dev blocks (bi # bis) block d ino name s =
        add_entry dev blocks bis (B (unat ?b)) (dentry_at 127 (B (unat ?b))) ino name s1"
      using Cons.prems(4) s1(1) None by (simp add: d128 free_entry_find)
    have pre: "\<forall>bi\<in>set bis. bi < length blocks \<and> unat (blocks ! bi) < 1024" "distinct ?rest"
      using Cons.prems(4,5) by simp_all
    show ?thesis
    proof (rule Cons.IH [OF _ _ std1 pre lenB, of "unat ?b" "dentry_at 127 (B (unat ?b))"])
      fix d' s'
      assume a: "add_entry dev blocks bis (B (unat ?b)) (dentry_at 127 (B (unat ?b))) ino name s1 = Inr (False, d', s')"
        "moved d0 s1 s' (blks d0 s1)" "\<forall>x\<in>set (dents (blks d0 s1) ?rest). d_ino x \<noteq> 0"
        "d' = (if bis = [] then dentry_at 127 (B (unat ?b)) else last (dents (blks d0 s1) ?rest))"
      have "d' = last (dents B (map (nth blocks) (bi # bis)))"
        using a(4) b1 by (cases bis) (simp_all add: dents_def block_dents_def last_map)
      then show ?thesis
        using Cons.prems(1) [of d' s'] a run nz moved_trans [OF s1(2) a(2)] b1
        by (auto simp: dents_Cons B_def [symmetric])
    next
      fix as x cs b block' s'
      assume a: "add_entry dev blocks bis (B (unat ?b)) (dentry_at 127 (B (unat ?b))) ino name s1 =
          Inr (True, \<lparr>d_ino = ino, d_name = put_name name (d_name x)\<rparr>, s')"
        "moved d0 s1 s' ((blks d0 s1)(unat b := block'))" "b \<in> set ?rest" "length block' = 4096"
        "dents (blks d0 s1) ?rest = as @ x # cs" "d_ino x = 0"
        "dents ((blks d0 s1)(unat b := block')) ?rest = as @ \<lparr>d_ino = ino, d_name = put_name name (d_name x)\<rparr> # cs"
      have "unat ?b \<noteq> unat b"
        using a(3) Cons.prems(5) by (auto simp flip: word_unat_eq_iff)
      then have eq: "(B(unat b := block')) (unat ?b) = B (unat ?b)" by simp
      show ?thesis
      proof (rule Cons.prems(2) [unfolded B_def [symmetric], OF run [unfolded a(1)] _ _ a(4) _ a(6)])
        show "moved d0 s s' (B(unat b := block'))"
          using moved_trans [OF s1(2) a(2)] b1 by simp
        show "b \<in> set (map (nth blocks) (bi # bis))" using a(3) by simp
        show "dents B (map (nth blocks) (bi # bis)) = (block_dents (B (unat ?b)) @ as) @ x # cs"
          using a(5) b1 by (simp add: dents_Cons)
        show "dents (B(unat b := block')) (map (nth blocks) (bi # bis)) =
            (block_dents (B (unat ?b)) @ as) @ \<lparr>d_ino = ino, d_name = put_name name (d_name x)\<rparr> # cs"
          using a(7) b1 eq by (simp only: dents_Cons list.map append_assoc)
      qed
    qed
  qed
qed

text \<open>
  What creating the file \<open>name\<close> in directory \<open>p\<close> needs: the directory has a free entry and its size
  field counts at most its entries, inode \<open>k\<close> is the first free one, and the name is new and fits.
\<close>

definition can_create :: "(nat \<Rightarrow> u8 list) \<Rightarrow> u32 \<Rightarrow> u8 list \<Rightarrow> nat \<Rightarrow> bool" where
  "can_create B p name k \<longleftrightarrow> valid_ino p \<and> dir_ok B (inode_at B p) \<and> i_ino (inode_at B p) = p \<and>
     bitmap_bit (B 1) 0 \<and> bitmap_bit (B 1) (unat p) \<and> free_bit (B 1) 134 = Some k \<and>
     unat (i_size (inode_at B p) + 32) \<le> 4096 * unat (block_count (inode_at B p)) \<and>
     (\<exists>d \<in> set (dents B (dir_blocks (inode_at B p))). d_ino d = 0) \<and>
     0 \<notin> set name \<and> length name \<le> 27 \<and> List.find (named name) (dents B (dir_blocks (inode_at B p))) = None"

section \<open>Creating a file\<close>

text \<open>The directory with one more entry.\<close>

lemma lookup_in_replace:
  assumes "d_ino x = 0" and "d_ino new \<noteq> 0"
  shows "name \<noteq> cstr (d_name new) \<Longrightarrow> lookup_in (as @ new # cs) name = lookup_in (as @ x # cs) name"
    and "name = cstr (d_name new) \<Longrightarrow> List.find (named name) (as @ x # cs) = None \<Longrightarrow>
      lookup_in (as @ new # cs) name = sint (d_ino new)"
proof -
  have nx: "\<not> named name x"
    using assms(1) by (simp add: named_def)
  show "lookup_in (as @ new # cs) name = lookup_in (as @ x # cs) name" if "name \<noteq> cstr (d_name new)"
    using that nx by (auto simp: lookup_in_def find_append named_def split: option.splits)
  show "lookup_in (as @ new # cs) name = sint (d_ino new)"
    if "name = cstr (d_name new)" "List.find (named name) (as @ x # cs) = None"
    using that assms nx by (auto simp: lookup_in_def find_append named_def split: option.splits)
qed

lemma sint_small: "(w :: u32) < 134 \<Longrightarrow> sint w = int (unat w)"
proof -
  assume "w < 134"
  then have "uint w < 134"
    by (simp add: word_less_def)
  then have "signed_take_bit 31 (uint w) = uint w"
    by (intro signed_take_bit_int_eq_self) (auto intro: order.trans [of _ 0])
  then show ?thesis
    by (simp add: sint_uint)
qed

lemma lookup_in_negative:
  assumes "\<forall>d \<in> set ds. dent_ok d"
  shows "lookup_in ds name < 0 \<longleftrightarrow> List.find (named name) ds = None"
proof (cases "List.find (named name) ds")
  case (Some d)
  then have "d \<in> set ds" "d_ino d \<noteq> 0"
    by (auto simp: find_Some_iff named_def)
  then have "d_ino d < 134"
    using assms by (auto simp: dent_ok_def)
  then show ?thesis
    using Some by (simp add: lookup_in_def sint_small)
qed (simp add: lookup_in_def)

lemma zero_inode_blocks: "length (i_blocks zero_inode) = 12"
  by (simp add: zero_inode_def SFS_DIRECT_BLOCKS_def)

lemma file_ok_frame: "B' 2 = B 2 \<Longrightarrow> file_ok B' i = file_ok B i"
  by (simp add: file_ok_def)

lemma own_dir_blocks: "unat ` set (dir_blocks i) = own i"
  by (simp add: own_def dir_blocks_def)

lemma dents_meta_frame:
  assumes "file_ok B i" and "\<And>n. 5 \<le> n \<Longrightarrow> B' n = B n"
  shows "dents B' (dir_blocks i) = dents B (dir_blocks i)"
  using own_marked [OF assms(1)] assms(2) unfolding own_dir_blocks [symmetric] by (intro dents_frame) blast

text \<open>The entry and the size of the directory are written.\<close>

lemma create_entry_ok:
  assumes std: "fs_std dev d0 s" and ok: "file_ok (blks d0 s) P" and v: "valid_ino (i_ino P)"
    and slot: "\<exists>d \<in> set (dents (blks d0 s) (dir_blocks P)). d_ino d = 0"
  obtains as x cs s' where "create_entry dev P name (int k) s = Inr (int k, s')" and "moved d0 s s' (blks d0 s')"
    and "dents (blks d0 s) (dir_blocks P) = as @ x # cs" and "d_ino x = 0"
    and "dents (blks d0 s') (dir_blocks P) = as @ \<lparr>d_ino = of_nat k, d_name = put_name name (d_name x)\<rparr> # cs"
    and "\<And>i. valid_ino i \<Longrightarrow> inode_at (blks d0 s') i = (if i = i_ino P then P\<lparr>i_size := i_size P + 32\<rparr> else inode_at (blks d0 s) i)"
    and "blks d0 s' 2 = blks d0 s 2"
proof -
  let ?B = "blks d0 s" and ?bis = "[0..<unat (block_count P)]"
  have st: "length (stale s) = 4096" and l12: "length (i_blocks P) = 12"
    using std ok by (simp_all add: fs_std_def file_ok_def)
  note dm = dir_blocks_map [OF ok]
  have r: "\<forall>bi \<in> set ?bis. bi < length (i_blocks P) \<and> unat (i_blocks P ! bi) < 1024" "distinct (map (nth (i_blocks P)) ?bis)"
    using ok unfolding dm by (auto simp: file_ok_def dir_blocks_def)
  show thesis
  proof (rule add_entry_cases [OF std r st, of "bytes_dentry (stale s)" "of_int (int k)" name])
    fix d' s'
    assume "\<forall>x \<in> set (dents ?B (map (nth (i_blocks P)) ?bis)). d_ino x \<noteq> 0"
    then show thesis using slot unfolding dm by blast
  next
    fix as x cs b block' s1
    assume a: "add_entry dev (i_blocks P) ?bis (stale s) (bytes_dentry (stale s)) (of_int (int k)) name s =
        Inr (True, \<lparr>d_ino = of_int (int k), d_name = put_name name (d_name x)\<rparr>, s1)"
      and m: "moved d0 s s1 (?B(unat b := block'))" and b: "b \<in> set (map (nth (i_blocks P)) ?bis)" and lb: "length block' = 4096"
      and ds: "dents ?B (map (nth (i_blocks P)) ?bis) = as @ x # cs" "d_ino x = 0"
        "dents (?B(unat b := block')) (map (nth (i_blocks P)) ?bis) =
          as @ \<lparr>d_ino = of_int (int k), d_name = put_name name (d_name x)\<rparr> # cs"
    define B1 where "B1 = ?B(unat b := block')"
    have ub: "5 \<le> unat b"
      using b own_marked [OF ok] unfolding dm own_dir_blocks [symmetric] by blast
    have lB1: "length (B1 n) = 4096" for n
      using lb by (simp add: B1_def)
    define P' where "P' = P\<lparr>i_size := i_size P + 32\<rparr>"
    have P': "i_ino P' = i_ino P" "length (i_blocks P') = 12" "valid_ino (i_ino P')"
      using v l12 by (simp_all add: P'_def)
    obtain s2 where s2: "sfs_write_inode dev P' s1 = (0, s2)" "moved d0 s1 s2 (put_inode P' B1)"
      using write_inode_ok [OF fs_std_moved [OF std m] P'(3,2)] movedD(1) [OF m] unfolding B1_def by metis
    define s3 where "s3 = slog (''[sfs] create '' @ [CHR 0x27] @ ''%s'' @ [CHR 0x27] @ '' -> ino %d'')
      [AStr (map (\<lambda>c. char_of (unat c)) name), AI (int k)] s2"
    have b3: "blks d0 s3 = put_inode P' B1"
      using movedD(1) [OF slog_moved] movedD(1) [OF s2(2)] by (simp add: s3_def)
    have m3: "moved d0 s s3 (blks d0 s3)"
      using moved_trans [OF moved_trans [OF m s2(2)] slog_moved] by (simp add: s3_def moved_def)
    have run: "create_entry dev P name (int k) s = Inr (int k, s3)"
      using a s2(1) by (simp add: create_entry_def create_done_def s3_def P'_def sizeof_dentry_def)
    have "dents (blks d0 s3) (dir_blocks P) = dents B1 (dir_blocks P)"
      using ok ub put_inode_other [of _ P' B1] P'(3) unfolding b3
      by (intro dents_meta_frame) (auto simp: file_ok_def B1_def)
    then have d3: "dents (blks d0 s3) (dir_blocks P) = as @ \<lparr>d_ino = of_nat k, d_name = put_name name (d_name x)\<rparr> # cs"
      using ds(3) unfolding dm by (simp add: B1_def)
    have i3: "inode_at (blks d0 s3) i = (if i = i_ino P then P\<lparr>i_size := i_size P + 32\<rparr> else inode_at ?B i)"
      if "valid_ino i" for i
    proof -
      have "inode_at B1 i = inode_at ?B i"
        using ub that unfolding inode_at_def B1_def by (auto simp: valid_ino_unat)
      then show ?thesis
        using inode_at_put [OF that P'(3,2) lB1] unfolding b3 P'(1) by (simp add: P'_def)
    qed
    have "blks d0 s3 2 = ?B 2"
      using put_inode_other [of 2 P' B1] P'(3) ub by (simp add: b3 B1_def)
    then show thesis
      using ds(1,2) unfolding dm by (intro that [OF run m3 _ _ d3 i3])
  qed
qed

text \<open>The inode of a new file is allocated and written before its entry.\<close>

lemma create_file_prefix:
  assumes std: "fs_std dev d0 s" and p: "valid_ino p" and dir: "dir_ok (blks d0 s) (inode_at (blks d0 s) p)"
    and free: "free_bit (blks d0 s 1) 134 = Some k" and k: "0 < k"
    and name: "0 \<notin> set name" "List.find (named name) (dents (blks d0 s) (dir_blocks (inode_at (blks d0 s) p))) = None"
  obtains s' where "sfs_create dev p name SFS_FILE s = create_entry dev (inode_at (blks d0 s) p) name (int k) s'"
    and "moved d0 s s' (put_inode (zero_inode\<lparr>i_ino := of_nat k, i_type := SFS_FILE\<rparr>)
      ((blks d0 s)(1 := mark_bit (blks d0 s 1) k)))"
proof -
  let ?B = "blks d0 s" and ?I = "zero_inode\<lparr>i_ino := of_nat k, i_type := SFS_FILE\<rparr>"
  obtain s1 where s1: "sfs_read_inode dev p s = (Some (inode_at ?B p), s1)" "moved d0 s s1 ?B"
    using read_inode_ok [OF std p] by blast
  note std1 = fs_std_moved [OF std s1(2)] and b1 = movedD(1) [OF s1(2)]
  obtain s2 where s2: "sfs_lookup dev p name s1 = Inr (-1, s2)" "moved d0 s1 s2 ?B"
    using sfs_lookup_ok [OF std1 p _ name(1)] dir name(2) unfolding b1 by (auto simp: lookup_in_def)
  note std2 = fs_std_moved [OF std1 s2(2)] and b2 = movedD(1) [OF s2(2)]
  obtain s3 where s3: "sfs_alloc_inode dev s2 = Inr (int k, s3)" "moved d0 s2 s3 (?B(1 := mark_bit (?B 1) k))"
    using alloc_inode_ok [OF std2] free unfolding b2 by (metis option.distinct(1) option.inject)
  have "k < 134"
    using free by (simp add: free_bit_Some)
  then have "valid_ino (i_ino ?I)" "length (i_blocks ?I) = 12"
    using k by (simp_all add: valid_ino_unat unat_of_nat_u32 zero_inode_blocks)
  from write_inode_ok [OF fs_std_moved [OF std2 s3(2)] this] obtain s4
    where s4: "sfs_write_inode dev ?I s3 = (0, s4)" "moved d0 s3 s4 (put_inode ?I (?B(1 := mark_bit (?B 1) k)))"
    unfolding movedD(1) [OF s3(2)] by blast
  have "sfs_create dev p name SFS_FILE s = create_entry dev (inode_at ?B p) name (int k) s4"
    using dir s1(1) s2(1) s3(1) s4(1) by (simp add: sfs_create_def dir_ok_def SFS_FILE_def SFS_DIR_def)
  then show thesis
    using that moved_trans [OF moved_trans [OF moved_trans [OF s1(2) s2(2)] s3(2)] s4(2)] by blast
qed

lemma dir_ok_resize:
  assumes "dir_ok B i" and "B' 2 = B 2" and "\<forall>d \<in> set (dents B' (dir_blocks i)). dent_ok d"
    and "unat (i_size i + 32) \<le> 4096 * unat (block_count i)"
  shows "dir_ok B' (i\<lparr>i_size := i_size i + 32\<rparr>)"
  using assms by (simp add: dir_ok_def file_ok_def dir_blocks_def)

lemma created_file:
  assumes std: "fs_std dev d0 s" and can: "can_create (blks d0 s) p name k"
  obtains as x cs s' where "sfs_create dev p name SFS_FILE s = Inr (int k, s')" and "fs_std dev d0 s'"
    and "dents (blks d0 s) (dir_blocks (inode_at (blks d0 s) p)) = as @ x # cs" and "d_ino x = 0"
    and "dents (blks d0 s') (dir_blocks (inode_at (blks d0 s) p)) = as @ \<lparr>d_ino = of_nat k, d_name = put_name name (d_name x)\<rparr> # cs"
    and "inode_at (blks d0 s') p = inode_at (blks d0 s) p\<lparr>i_size := i_size (inode_at (blks d0 s) p) + 32\<rparr>"
    and "inode_at (blks d0 s') (of_nat k) = zero_inode\<lparr>i_ino := of_nat k, i_type := SFS_FILE\<rparr>"
    and "blks d0 s' 2 = blks d0 s 2"
proof -
  have p: "valid_ino p" and dir: "dir_ok (blks d0 s) (inode_at (blks d0 s) p)" and pino: "i_ino (inode_at (blks d0 s) p) = p"
    and used: "bitmap_bit (blks d0 s 1) 0" "bitmap_bit (blks d0 s 1) (unat p)"
    and free: "free_bit (blks d0 s 1) 134 = Some k"
    and slot: "\<exists>d \<in> set (dents (blks d0 s) (dir_blocks (inode_at (blks d0 s) p))). d_ino d = 0"
    and name: "0 \<notin> set name" "length name \<le> 27" "List.find (named name) (dents (blks d0 s) (dir_blocks (inode_at (blks d0 s) p))) = None"
    using can unfolding can_create_def by blast+
  define B where "B = blks d0 s"
  define P where "P = inode_at B p"
  define I where "I = zero_inode\<lparr>i_ino := of_nat k, i_type := SFS_FILE\<rparr>"
  have k: "k < 134" "0 < k" "unat p \<noteq> k"
    using free used by (auto simp: free_bit_Some intro: gr0I)
  then have ku: "unat (of_nat k :: u32) = k"
    by (simp add: unat_of_nat_u32)
  then have I: "valid_ino (i_ino I)" "length (i_blocks I) = 12" "i_ino I = of_nat k" "of_nat k \<noteq> p" "of_nat k < (134 :: u32)"
    using k by (auto simp: I_def valid_ino_unat zero_inode_blocks word_less_nat_alt)
  obtain s1 where s1: "sfs_create dev p name SFS_FILE s = create_entry dev P name (int k) s1"
      "moved d0 s s1 (put_inode I (B(1 := mark_bit (B 1) k)))"
    using create_file_prefix [OF std p dir free k(2) name(1,3)] unfolding B_def P_def I_def by blast
  have l1: "length ((B(1 := mark_bit (B 1) k)) n) = 4096" for n
    by (simp add: B_def)
  have B1: "blks d0 s1 n = B n" if "n = 2 \<or> 5 \<le> n" for n
    using that put_inode_other [of n I] I(1) by (auto simp: movedD(1) [OF s1(2)])
  have P1: "inode_at (blks d0 s1) i = (if i = of_nat k then I else inode_at B i)" if "valid_ino i" for i
  proof -
    have "inode_at (B(1 := mark_bit (B 1) k)) i = inode_at B i"
      by (simp add: inode_at_def)
    then show ?thesis
      using inode_at_put [OF that I(1,2), of "B(1 := mark_bit (B 1) k)"] l1 by (simp only: movedD(1) [OF s1(2)] I(3))
  qed
  have okP: "file_ok B P" "dir_ok B P"
    using dir by (simp_all add: dir_ok_def B_def P_def)
  have ok1: "file_ok (blks d0 s1) P"
    using okP(1) B1 by (simp add: file_ok_def)
  have ds1: "dents (blks d0 s1) (dir_blocks P) = dents B (dir_blocks P)"
    using B1 by (intro dents_meta_frame [OF okP(1)]) simp
  have vP: "valid_ino (i_ino P)" "i_ino P = p"
    using p pino by (simp_all add: P_def B_def)
  have slot1: "\<exists>d \<in> set (dents (blks d0 s1) (dir_blocks P)). d_ino d = 0"
    using slot unfolding ds1 by (simp add: B_def P_def)
  obtain as x cs s' where c: "create_entry dev P name (int k) s1 = Inr (int k, s')" "moved d0 s1 s' (blks d0 s')"
      and ds: "dents B (dir_blocks P) = as @ x # cs" "d_ino x = 0"
        "dents (blks d0 s') (dir_blocks P) = as @ \<lparr>d_ino = of_nat k, d_name = put_name name (d_name x)\<rparr> # cs"
      and ino: "\<And>i. valid_ino i \<Longrightarrow> inode_at (blks d0 s') i = (if i = p then P\<lparr>i_size := i_size P + 32\<rparr> else inode_at (blks d0 s1) i)"
      and b2: "blks d0 s' 2 = blks d0 s1 2"
    by (rule create_entry_ok [OF fs_std_moved [OF std s1(2)] ok1 vP(1) slot1, of name k, unfolded ds1 vP(2)]) (rule that)
  have "inode_at (blks d0 s') (of_nat k) = I"
    using ino [of "of_nat k"] P1 [of "of_nat k"] I by simp
  then show thesis
    using that [of s' as x cs] s1(1) c(1) fs_std_moved [OF fs_std_moved [OF std s1(2)] c(2)] ds ino [OF p] b2 B1 [of 2]
    by (simp add: B_def P_def I_def)
qed

end
