(* ===== verification/Sros_Sfs_Format.thy ===== *)
theory Sros_Sfs_Format
  imports Sros_Sfs_Dir
begin

unbundle bit_operations_syntax

text \<open>
  Formatting and mounting: the disk \<open>sfs_format\<close> leaves behind, block by block, and that \<open>sfs_mount\<close>
  accepts it as a file system with an empty root directory.
\<close>

section \<open>Formatting\<close>

text \<open>A bitmap block with bits in its first byte only.\<close>

definition bm :: "u8 \<Rightarrow> u8 list" where
  "bm v = v # replicate 4095 0"

definition root_inode :: sfs_inode where
  "root_inode = zero_inode\<lparr>i_ino := 1, i_type := SFS_DIR, i_size := 64, block_count := 1, i_blocks := 5 # replicate 11 0\<rparr>"

definition formatted :: "(nat \<Rightarrow> u8 list) \<Rightarrow> bool" where
  "formatted B \<longleftrightarrow> B 0 = store_at 0 (sb_bytes blank_sb) zero_block \<and> B 1 = bm 3 \<and> B 2 = bm 0x3F \<and>
     inode_at B 1 = root_inode \<and> B 5 = dir_block 1 1"

lemma bm_length [simp]: "length (bm v) = 4096"
  by (simp add: bm_def)

lemma bm_zero: "bm 0 = zero_block"
  by (simp add: bm_def zero_block_def FS_BLOCK_SIZE_def flip: replicate_Suc)

lemma zero_block_length [simp]: "length zero_block = 4096"
  by (simp add: zero_block_def FS_BLOCK_SIZE_def)

lemma bm_mark: "i < 8 \<Longrightarrow> mark_bit (bm v) i = bm (v OR push_bit i 1)"
  by (simp add: mark_bit_def bm_def)

lemma bm_set: "i < 8 \<Longrightarrow> bitmap_set (bm v) i = Inr (bm (v OR push_bit i 1))"
  by (simp add: bitmap_set_mark bm_mark)

lemma bm_bit: "i < 32768 \<Longrightarrow> bitmap_bit (bm v) i \<longleftrightarrow> i < 8 \<and> bit v i"
proof -
  assume i: "i < 32768"
  show ?thesis
  proof (cases "i < 8")
    case False
    then have "0 < i div 8" "i div 8 < 4096"
      using i by (auto simp: div_greater_zero_iff less_mult_imp_div_less)
    then have "bm v ! (i div 8) = 0"
      by (simp add: bm_def nth_Cons')
    then show ?thesis using False by (simp add: bitmap_bit_iff)
  qed (simp add: bitmap_bit_iff bm_def)
qed

lemma bm_free:
  assumes "n \<le> 32768" and "k < n" and "k < 8" and "\<not> bit v k" and "\<forall>j<k. bit v j"
  shows "free_bit (bm v) n = Some k"
  using assms by (auto simp: free_bit_Some bm_bit)

lemma dir_block_length: "length (dir_block a b) = 4096"
  by (simp add: dir_block_def dentry_bytes_length)

lemma bwrite_moved:
  assumes "follows_drive dev d0" and "moved d0 s t C" and "length b = 4096" and "n < 1024"
  shows "moved d0 s (bwrite dev n b t) (C(unat n := b))"
  using moved_trans [OF assms(2) bwrite_ok [OF assms(1) _ assms(3), of n t]] movedD(1) [OF assms(2)] assms(4)
  by (simp add: DISK_BLOCKS_def)

lemma bitmap_set_upto_5: "bitmap_set_upto 5 zero_block = Inr (bm 0x1F)"
  by (simp add: bitmap_set_upto_def bm_zero [symmetric] bm_set upt_conv_Cons)

lemma valid_root: "valid_ino 1"
  by (simp add: valid_ino_def)

text \<open>The blocks written before the root directory.\<close>

definition format_base :: "(nat \<Rightarrow> u8 list) \<Rightarrow> nat \<Rightarrow> u8 list" where
  "format_base B = B(0 := store_at 0 (sb_bytes blank_sb) zero_block, 1 := bm 1, 2 := bm 0x1F, 3 := zero_block, 4 := zero_block)"

lemma sfs_format_ok:
  assumes "follows_drive dev d0" and "length (stale s) = 4096" and "length (file_table s) = MAX_FILES"
  obtains s' where "sfs_format dev s = Inr s'" and "fs_std dev d0 s'" and "formatted (blks d0 s')"
proof -
  note f = assms(1)
  define s1 where "s1 = (slog ''[sfs] Formatting...'' [] s)\<lparr>sb := blank_sb\<rparr>"
  have std1: "fs_std dev d0 s1"
    using assms by (simp add: fs_std_def s1_def slog_def)
  have lb0: "length (store_at 0 (sb_bytes blank_sb) zero_block) = 4096"
    by (simp add: sb_bytes_length)
  define s2 where "s2 = bwrite dev 4 zero_block (bwrite dev 3 zero_block (bwrite dev 2 (bm 0x1F)
    (bwrite dev 1 (bm 1) (bwrite dev 0 (store_at 0 (sb_bytes blank_sb) zero_block) s1))))"
  define B2 where "B2 = format_base (blks d0 s1)"
  have m2: "moved d0 s1 s2 B2"
    using bwrite_moved [OF f bwrite_moved [OF f bwrite_moved [OF f bwrite_moved [OF f bwrite_moved
      [OF f moved_refl lb0, of 0 s1] bm_length, of 1 1] bm_length, of 2 "0x1F"] zero_block_length, of 3] zero_block_length, of 4]
    by (simp add: s2_def B2_def format_base_def)
  note std2 = fs_std_moved [OF std1 m2] and b2 = movedD(1) [OF m2]
  have bm2: "B2 2 = bm 0x1F" "B2 1 = bm 1"
    by (simp_all add: B2_def format_base_def)
  have bits: "bit (0x1F :: u8) j" if "j < 5" for j
    using that by (simp add: less_Suc_eq numeral_eq_Suc) auto
  have low: "\<forall>i<5. bitmap_bit (blks d0 s2 2) i" and five: "free_bit (blks d0 s2 2) 1024 = Some 5"
    using bits by (auto simp: b2 bm2 bm_bit intro!: bm_free)
  obtain s3 where s3: "sfs_alloc_block dev s2 = Inr (5, s3)" "moved d0 s2 s3 (B2(2 := bm 0x3F))"
    using alloc_block_ok [OF std2 low] five by (auto simp: b2 bm2 bm_mark)
  define s4 where "s4 = bwrite dev 5 (dir_block 1 1) s3"
  have m4: "moved d0 s1 s4 (B2(2 := bm 0x3F, 5 := dir_block 1 1))"
    using bwrite_moved [OF f moved_trans [OF m2 s3(2)] dir_block_length, of 5 1 1] by (simp add: s4_def)
  have ri: "valid_ino (i_ino root_inode)" "length (i_blocks root_inode) = 12"
    by (simp_all add: root_inode_def valid_root)
  define B5 where "B5 = put_inode root_inode (B2(2 := bm 0x3F, 5 := dir_block 1 1))"
  obtain s5 where s5: "sfs_write_inode dev root_inode s4 = (0, s5)" "moved d0 s4 s5 B5"
    using write_inode_ok [OF fs_std_moved [OF std1 m4] ri] unfolding movedD(1) [OF m4] B5_def by blast
  have l5: "length ((B2(2 := bm 0x3F, 5 := dir_block 1 1)) n) = 4096" for n
    by (simp add: dir_block_length B2_def format_base_def sb_bytes_length)
  have B5: "B5 n = (B2(2 := bm 0x3F, 5 := dir_block 1 1)) n" if "n \<noteq> 3" "n \<noteq> 4" for n
    unfolding B5_def by (rule put_inode_other [OF that ri(1)])
  have root5: "inode_at B5 1 = root_inode"
    using inode_at_put [OF valid_root ri, of "B2(2 := bm 0x3F, 5 := dir_block 1 1)"] l5
    unfolding B5_def by (simp add: root_inode_def)
  obtain s6 where s6: "bread dev 1 (dir_block 1 1) s5 = (bm 1, s6)" "moved d0 s5 s6 B5"
    using bread_ok [OF f, of 1 "dir_block 1 1" s5] B5 [of 1] bm2 movedD(1) [OF s5(2)]
    by (auto simp: DISK_BLOCKS_def dir_block_length)
  define s7 where "s7 = slog ''[sfs] Format complete.'' [] (bwrite dev 1 (bm 3) s6)"
  have m6: "moved d0 s1 (bwrite dev 1 (bm 3) s6) (B5(1 := bm 3))"
    using bwrite_moved [OF f moved_trans [OF moved_trans [OF m4 s5(2)] s6(2)] bm_length, of 1 3] by simp
  have m7: "moved d0 s1 s7 (B5(1 := bm 3))"
    using moved_trans [OF m6 slog_moved] movedD(1) [OF m6] by (simp add: s7_def)
  have rw: "zero_inode\<lparr>i_ino := 1, i_type := SFS_DIR, i_size := 2 * of_nat sizeof_dentry, block_count := 1,
      i_blocks := (replicate SFS_DIRECT_BLOCKS 0)[0 := of_int 5]\<rparr> = root_inode"
    by (simp add: root_inode_def sizeof_dentry_def SFS_DIRECT_BLOCKS_def numeral_eq_Suc)
  have "sfs_format dev s = Inr s7"
    using s3(1) s5(1) s6(1) bm_set [of 1 1] rw
    by (simp add: sfs_format_def Let_def s1_def [symmetric] sfs_consts ROOT_INO_def bm_set bm_zero [symmetric]
        bitmap_set_upto_5 [unfolded bm_zero [symmetric]] s2_def [unfolded bm_zero [symmetric], symmetric] s4_def s7_def)
  moreover have "formatted (B5(1 := bm 3))"
    using B5 [of 0] B5 [of 2] B5 [of 5] root5
    by (simp add: formatted_def B2_def format_base_def inode_at_def)
  ultimately show thesis
    using that fs_std_moved [OF std1 m7] movedD(1) [OF m7] by simp
qed

lemma dentry_at_zero: "j < 128 \<Longrightarrow> dentry_at j zero_block = \<lparr>d_ino = 0, d_name = replicate 28 0\<rparr>"
  by (simp add: dentry_at_def field_at_def zero_block_def FS_BLOCK_SIZE_def bytes_dentry_def get32_def
      sizeof_dentry_def MAX_FILENAME_def)

lemma dir_block_dents:
  "block_dents (dir_block a b) = \<lparr>d_ino = a, d_name = 0x2E # replicate 27 0\<rparr> #
     \<lparr>d_ino = b, d_name = 0x2E # 0x2E # replicate 26 0\<rparr> # replicate 126 \<lparr>d_ino = 0, d_name = replicate 28 0\<rparr>"
proof -
  let ?d1 = "\<lparr>d_ino = a, d_name = 0x2E # replicate 27 0\<rparr>" and ?d2 = "\<lparr>d_ino = b, d_name = 0x2E # 0x2E # replicate 26 0\<rparr>"
  let ?z1 = "store_at (0 * 32) (dentry_bytes ?d1) zero_block"
  have l: "length (dentry_bytes ?d1) = 32" "length (dentry_bytes ?d2) = 32"
    by (rule dentry_bytes_length, simp)+
  have eq: "dir_block a b = store_at (1 * 32) (dentry_bytes ?d2) ?z1"
    using store_at_store_at [of 0 "dentry_bytes ?d1" "dentry_bytes ?d2" zero_block] l by (simp add: dir_block_def)
  have lz: "length ?z1 = 4096"
    using l by simp
  have at: "dentry_at j (dir_block a b) = (if j = 1 then ?d2 else if j = 0 then ?d1 else \<lparr>d_ino = 0, d_name = replicate 28 0\<rparr>)"
    if "j < 128" for j
    using that dentry_at_store [of ?d2 ?z1 1 j] dentry_at_store [of ?d1 zero_block 0 j] lz unfolding eq
    by (simp add: dentry_at_zero)
  have "[0..<128] = 0 # 1 # [2..<128]"
    by (simp add: upt_conv_Cons)
  moreover have "map (\<lambda>j. dentry_at j (dir_block a b)) [2..<128] = map (\<lambda>j. \<lparr>d_ino = 0, d_name = replicate 28 0\<rparr>) [2..<128]"
    by (intro map_cong refl) (simp add: at del: upt_rec_numeral)
  then have "map (\<lambda>j. dentry_at j (dir_block a b)) [2..<128] = replicate (128 - 2) \<lparr>d_ino = 0, d_name = replicate 28 0\<rparr>"
    by (simp only: map_replicate_const length_upt)
  ultimately have "block_dents (dir_block a b) = dentry_at 0 (dir_block a b) # dentry_at 1 (dir_block a b) #
      replicate (128 - 2) \<lparr>d_ino = 0, d_name = replicate 28 0\<rparr>"
    by (simp only: block_dents_def list.map)
  then show ?thesis
    by (simp add: at)
qed

lemma formatted_root:
  assumes "formatted B"
  shows "dents B (dir_blocks (inode_at B 1)) = block_dents (dir_block 1 1)" and "dir_ok B (inode_at B 1)"
proof -
  have r: "inode_at B 1 = root_inode" "B 5 = dir_block 1 1" "B 2 = bm 0x3F"
    using assms by (simp_all add: formatted_def)
  have db: "dir_blocks root_inode = [5]"
    by (simp add: dir_blocks_def root_inode_def)
  show d: "dents B (dir_blocks (inode_at B 1)) = block_dents (dir_block 1 1)"
    by (simp add: r db dents_def)
  have "bit (0x3F :: u8) j" if "j < 6" for j
    using that by (simp add: less_Suc_eq numeral_eq_Suc) auto
  then have "file_ok B root_inode"
    by (auto simp: file_ok_def root_inode_def r bm_bit)
  then show "dir_ok B (inode_at B 1)"
    unfolding dir_ok_def d by (auto simp: r(1) dir_block_dents dent_ok_def root_inode_def)
qed

lemma find_root:
  assumes "name \<noteq> [0x2E]" and "name \<noteq> [0x2E, 0x2E]"
  shows "List.find (named name) (block_dents (dir_block a b)) = None"
proof -
  have "cstr (0x2E # replicate 27 0) = [0x2E :: u8]" "cstr (0x2E # 0x2E # replicate 26 0) = [0x2E, 0x2E :: u8]"
    using cstr_terminated [of "[0x2E]" "replicate 26 0"] cstr_terminated [of "[0x2E, 0x2E]" "replicate 25 0"]
    by (simp_all flip: replicate_Suc)
  then show ?thesis
    using assms by (auto simp: find_None_iff dir_block_dents named_def)
qed

lemma formatted_can_create:
  assumes "formatted B" and "0 \<notin> set name" and "length name \<le> 27" and "name \<noteq> [0x2E]" and "name \<noteq> [0x2E, 0x2E]"
  shows "can_create B 1 name 2"
proof -
  have r: "inode_at B 1 = root_inode" "B 1 = bm 3"
    using assms(1) by (simp_all add: formatted_def)
  have "bit (3 :: u8) j" if "j < 2" for j
    using that by (simp add: less_Suc_eq numeral_eq_Suc) auto
  then have "free_bit (bm 3) 134 = Some 2" "bitmap_bit (bm 3) 0" "bitmap_bit (bm 3) 1"
    by (auto simp: bm_bit intro!: bm_free)
  moreover have "\<exists>d \<in> set (block_dents (dir_block 1 1)). d_ino d = 0"
    by (simp add: dir_block_dents)
  ultimately show ?thesis
    using formatted_root [OF assms(1)] find_root [OF assms(4,5), of 1 1] assms(2,3) valid_root r
    by (simp add: can_create_def root_inode_def)
qed

lemma sfs_mount_ok:
  assumes "follows_drive dev d0" and "length (stale s) = 4096" and "length (file_table s) = MAX_FILES"
    and "blks d0 s 0 = store_at 0 (sb_bytes blank_sb) zero_block"
  obtains s' where "sfs_mount dev s = (0, s')" and "fs_std dev d0 s'" and "blks d0 s' = blks d0 s" and "mounted s'"
    and "\<forall>f \<in> set (file_table s'). in_use f = 0"
proof -
  define s1 where "s1 = slog ''[sfs] Mounting...'' [] s"
  have 1: "blks d0 s1 = blks d0 s" "stale s1 = stale s" "file_table s1 = file_table s"
    using movedD [OF slog_moved] by (simp_all add: s1_def)
  obtain s2 where s2: "bread dev 0 (stale s1) s1 = (blks d0 s 0, s2)" "moved d0 s1 s2 (blks d0 s)"
    using bread_ok [OF assms(1), of 0 "stale s1" s1] assms(2) by (auto simp: DISK_BLOCKS_def 1)
  have "field_at 0 28 (blks d0 s 0) = sb_bytes blank_sb"
    using field_store_same [of 0 "sb_bytes blank_sb" zero_block] by (simp add: assms(4) sb_bytes_length)
  then have sb: "bytes_sb (field_at 0 sizeof_super_block (blks d0 s 0)) = blank_sb"
    by (simp add: sizeof_super_block_def bytes_sb_bytes)
  define s3 where "s3 = s2\<lparr>sb := blank_sb, file_table := map (\<lambda>f. f\<lparr>in_use := 0\<rparr>) (file_table s), mounted := True\<rparr>"
  define s4 where "s4 = slog ''[sfs] Mount OK: %d inodes, %d data blocks'' [AInt 134, AInt (1024 - 5)] s3"
  have run: "sfs_mount dev s = (0, s4)"
    using s2(1) sb movedD(4) [OF s2(2)] 1(3)
    by (simp add: sfs_mount_def s1_def [symmetric] s3_def s4_def)
  note 2 = movedD [OF s2(2)]
  have 4: "blks d0 s4 = blks d0 s" "stale s4 = stale s" "sb s4 = blank_sb" "mounted s4"
    "file_table s4 = map (\<lambda>f. f\<lparr>in_use := 0\<rparr>) (file_table s)"
    using movedD [OF slog_moved [of d0 s3]] 2 1 by (simp_all add: s4_def s3_def blks_def)
  then have "fs_std dev d0 s4"
    using assms by (simp add: fs_std_def)
  then show thesis
    using run 4 by (intro that) auto
qed





text \<open>
  The name of an entry is stored without a terminator of its own: over an entry with a longer name
  it keeps the tail of that name. \<open>sfs_create\<close> does this when the blocks of the directory are full: the
  entry of the new block starts from the last entry it looked at.
\<close>

lemma put_name_leftover:
  assumes "0 \<notin> set name" and "length name \<le> 27" and "length old = 28" and "length name \<le> length (cstr old)"
    and "length (cstr old) \<le> 27"
  shows "cstr (put_name name old) = name @ drop (length name) (cstr old)"
proof -
  let ?c = "length (cstr old)"
  have z: "0 \<notin> set (cstr old)"
    by (auto simp: cstr_def dest: set_takeWhileD)
  have nz: "old ! ?c = 0"
    using nth_length_takeWhile [of "\<lambda>c. c \<noteq> 0" old] assms(3,5) by (simp add: cstr_def)
  have old: "old = cstr old @ 0 # drop (Suc ?c) old"
    using id_take_nth_drop [of ?c old] assms(3,5) nz takeWhile_eq_take [of "\<lambda>c. c \<noteq> 0" old] by (simp add: cstr_def)
  have "store_at 0 name old = name @ drop (length name) old"
    by (simp add: store_at_def)
  also have "\<dots> = (name @ drop (length name) (cstr old)) @ 0 # drop (Suc ?c) old"
    using assms(4) by (subst old) simp
  finally have st: "store_at 0 name old = (name @ drop (length name) (cstr old)) @ 0 # drop (Suc ?c) old" .
  have "(\<dots>)[27 := 0] = (name @ drop (length name) (cstr old)) @ (0 # drop (Suc ?c) old)[27 - ?c := 0]"
    using assms(4,5) by (simp add: list_update_append)
  moreover have "\<exists>r. (0 # drop (Suc ?c) old)[27 - ?c := 0] = 0 # r"
    by (cases "27 - ?c") auto
  ultimately obtain r where "put_name name old = (name @ drop (length name) (cstr old)) @ 0 # r"
    using assms(2) st by (auto simp: put_name_def MAX_FILENAME_def)
  moreover have "0 \<notin> set (name @ drop (length name) (cstr old))"
    using assms(1) z by (auto dest: in_set_dropD)
  ultimately show ?thesis
    using cstr_terminated by metis
qed

end
