(* ===== verification/Sros_Vga.thy ===== *)
theory Sros_Vga
  imports Sros_Serial Sros_Machine
begin

unbundle bit_operations_syntax

text \<open>
  The text console (\<open>src/drivers/vga.c\<close>). The video memory is a function from cell numbers, because
  the driver does not keep its accesses inside the 2000 cells of the screen; the cursor registers
  are ports. The lemmas show what printed lines look like on the screen.
\<close>

section \<open>The driver\<close>

definition VGA_WIDTH :: int where "VGA_WIDTH = 80"
definition VGA_HEIGHT :: int where "VGA_HEIGHT = 25"
definition WHITE_ON_BLACK :: u8 where "WHITE_ON_BLACK = 0x0F"
definition CURSOR_LEFT :: u8 where "CURSOR_LEFT = 0x01"
definition CURSOR_RIGHT :: u8 where "CURSOR_RIGHT = 0x02"

lemmas vga_consts = VGA_WIDTH_def VGA_HEIGHT_def WHITE_ON_BLACK_def CURSOR_LEFT_def CURSOR_RIGHT_def

record vga = io_state +
  vga_buffer :: "int \<Rightarrow> u16"
  cursor_row :: int
  cursor_col :: int
  vga_serial :: "(string \<times> arg list) list"

text \<open>A character is signed: its sign extends into the attribute byte.\<close>

definition vga_cell :: "u8 \<Rightarrow> u8 \<Rightarrow> u16" where
  "vga_cell c color = push_bit 8 (ucast color) OR scast c"

definition vga_putchar_at :: "u8 \<Rightarrow> u8 \<Rightarrow> int \<Rightarrow> int \<Rightarrow> vga \<Rightarrow> vga" where
  "vga_putchar_at c color row col s =
     s\<lparr>vga_buffer := (vga_buffer s)(row * VGA_WIDTH + col := vga_cell c color)\<rparr>"

fun vga_clear_cells :: "(int \<times> int) list \<Rightarrow> vga \<Rightarrow> vga" where
  "vga_clear_cells [] s = s"
| "vga_clear_cells ((row, col) # rcs) s = vga_clear_cells rcs (vga_putchar_at 0x20 WHITE_ON_BLACK row col s)"

definition vga_init :: "vga \<Rightarrow> vga" where
  "vga_init s = (vga_clear_cells (concat (map (\<lambda>row. map (\<lambda>col. (row, col)) [0..VGA_WIDTH - 1]) [0..VGA_HEIGHT - 1])) s)
     \<lparr>cursor_col := 0, cursor_row := 0\<rparr>"

text \<open>The rows are copied upwards cell by cell, then the last one is blanked.\<close>

fun vga_copy_up :: "(int \<times> int) list \<Rightarrow> (int \<Rightarrow> u16) \<Rightarrow> int \<Rightarrow> u16" where
  "vga_copy_up [] b = b"
| "vga_copy_up ((row, col) # rcs) b =
     vga_copy_up rcs (b((row - 1) * VGA_WIDTH + col := b (row * VGA_WIDTH + col)))"

fun vga_blank_row :: "int list \<Rightarrow> (int \<Rightarrow> u16) \<Rightarrow> int \<Rightarrow> u16" where
  "vga_blank_row [] b = b"
| "vga_blank_row (col # cols) b =
     vga_blank_row cols (b((VGA_HEIGHT - 1) * VGA_WIDTH + col := vga_cell 0x20 WHITE_ON_BLACK))"

definition vga_scroll :: "vga \<Rightarrow> vga" where
  "vga_scroll s = s\<lparr>vga_buffer := vga_blank_row [0..VGA_WIDTH - 1]
     (vga_copy_up (concat (map (\<lambda>row. map (\<lambda>col. (row, col)) [0..VGA_WIDTH - 1]) [1..VGA_HEIGHT - 1])) (vga_buffer s))\<rparr>"

definition vga_set_cursor :: "int \<Rightarrow> int \<Rightarrow> vga \<Rightarrow> vga" where
  "vga_set_cursor row col s =
     (let pos = of_int (row * VGA_WIDTH + col) :: u16;
          s = outb 0x3D4 0x0F s;
          s = outb 0x3D5 (ucast (pos AND 0xFF)) s;
          s = outb 0x3D4 0x0E s
      in outb 0x3D5 (ucast (drop_bit 8 pos AND 0xFF)) s)"

definition vga_newline :: "vga \<Rightarrow> vga" where
  "vga_newline s =
     (let s = s\<lparr>cursor_col := 0, cursor_row := cursor_row s + 1\<rparr>
      in if cursor_row s \<ge> VGA_HEIGHT then (vga_scroll s)\<lparr>cursor_row := VGA_HEIGHT - 1\<rparr> else s)"

definition vga_plain :: "u8 \<Rightarrow> vga \<Rightarrow> vga" where
  "vga_plain c s =
     (let s = (if cursor_col s = VGA_WIDTH
               then vga_scroll (s\<lparr>cursor_col := 0, cursor_row := cursor_row s + 1\<rparr>) else s);
          s = vga_putchar_at c WHITE_ON_BLACK (cursor_row s) (cursor_col s) s;
          s = s\<lparr>cursor_col := cursor_col s + 1\<rparr>
      in if cursor_col s = VGA_WIDTH then s\<lparr>cursor_col := 0, cursor_row := cursor_row s + 1\<rparr> else s)"

definition vga_putc :: "u8 \<Rightarrow> vga \<Rightarrow> vga" where
  "vga_putc c s =
     (let s = (if c = 0x08 then
                 (let s = s\<lparr>cursor_col := cursor_col s - 1\<rparr>
                  in vga_putchar_at 0x20 WHITE_ON_BLACK (cursor_row s) (cursor_col s) s)
               else if c = 0x0A then vga_newline s
               else if c = CURSOR_LEFT then (if cursor_col s > 0 then s\<lparr>cursor_col := cursor_col s - 1\<rparr> else s)
               else if c = CURSOR_RIGHT then (if cursor_col s < VGA_WIDTH - 1 then s\<lparr>cursor_col := cursor_col s + 1\<rparr> else s)
               else vga_plain c s)
      in vga_set_cursor (cursor_row s) (cursor_col s) s)"

fun vga_puts :: "u8 list \<Rightarrow> vga \<Rightarrow> vga" where
  "vga_puts [] s = s"
| "vga_puts (c # cs) s = vga_puts cs (vga_putc c s)"

definition bytes_of :: "string \<Rightarrow> u8 list" where
  "bytes_of t = map of_char t"

definition vga_puthex :: "u32 \<Rightarrow> vga \<Rightarrow> vga" where
  "vga_puthex n s = vga_puts (map (\<lambda>i. of_char (hex_digit (drop_bit i n))) hex_shifts) (vga_puts (bytes_of ''0x'') s)"

text \<open>\<open>None\<close>: a conversion without its argument, or a final \<open>%\<close>, after which the C loop leaves the string.\<close>

fun vga_printf :: "string \<Rightarrow> arg list \<Rightarrow> vga \<Rightarrow> vga option" where
  "vga_printf [] as s = Some s"
| "vga_printf [c] as s = (if c = CHR ''%'' then None else Some (vga_putc (of_char c) s))"
| "vga_printf (c # d # fs) as s =
     (if c = CHR ''%'' then
        (if d = CHR ''s'' then
           (case as of AStr t # as \<Rightarrow> vga_printf fs as (vga_puts (bytes_of t) s) | _ \<Rightarrow> None)
         else if d = CHR ''d'' \<or> d = CHR ''x'' then
           (case as of AInt v # as \<Rightarrow> vga_printf fs as (vga_puthex v s) | _ \<Rightarrow> None)
         else if d = CHR ''c'' then
           (case as of AInt v # as \<Rightarrow> vga_printf fs as (vga_putc (ucast v) s) | _ \<Rightarrow> None)
         else if d = CHR ''%'' then vga_printf fs as (vga_putc (of_char CHR ''%'') s)
         else vga_printf fs as (vga_putc (of_char d) (vga_putc (of_char CHR ''%'') s)))
      else vga_printf (d # fs) as (vga_putc (of_char c) s))"

text \<open>\<open>panic\<close> up to its endless loop.\<close>

definition panic :: "string \<Rightarrow> vga \<Rightarrow> vga" where
  "panic msg s =
     (let s = vga_puts (bytes_of ''KERNEL PANIC: '') s;
          s = vga_puts (bytes_of msg) s
      in s\<lparr>vga_serial := vga_serial s @ [(''KERNEL PANIC: %s'' @ [LF], [AStr msg])]\<rparr>)"

section \<open>Scrolling and clearing\<close>

abbreviation vga_blank :: u16 where "vga_blank \<equiv> vga_cell 0x20 WHITE_ON_BLACK"

lemma upto_shift: "map (\<lambda>c. k + c) [a..b] = [k + a..k + b]"
proof (induction "nat (b - a + 1)" arbitrary: a)
  case 0
  then show ?case by simp
next
  case (Suc n)
  then have "a \<le> b" by simp
  then show ?case
    using Suc.hyps(1) [of "a + 1"] Suc.hyps(2) by (simp add: upto_rec1 [of a] upto_rec1 [of "k + a"] add.assoc)
qed

lemma cells_upto:
  assumes "lo \<le> hi + 1"
  shows "map (\<lambda>(row, col). (row + k) * 80 + col) (concat (map (\<lambda>row. map (\<lambda>col. (row, col)) [0..79]) [lo..hi]))
    = [(lo + k) * 80..(hi + 1 + k) * 80 - 1]"
  using assms
proof (induction "nat (hi + 1 - lo)" arbitrary: hi)
  case 0
  then show ?case by simp
next
  case (Suc n)
  then have h: "lo \<le> hi" and n: "n = nat (hi - 1 + 1 - lo)" by simp_all
  have "[lo..hi] = [lo..hi - 1] @ [hi]"
    using h by (simp add: upto_rec2)
  moreover have "map (\<lambda>col. (hi + k) * 80 + col) [0..79] = [(hi + k) * 80..(hi + k) * 80 + 79]"
    using upto_shift [of "(hi + k) * 80" 0 79] by simp
  moreover have "[(lo + k) * 80..(hi - 1 + 1 + k) * 80 - 1] @ [(hi + k) * 80..(hi + k) * 80 + 79] = [(lo + k) * 80..(hi + 1 + k) * 80 - 1]"
    using h upto_split1 [of "(lo + k) * 80" "(hi + k) * 80" "(hi + 1 + k) * 80 - 1"] by (simp add: algebra_simps)
  ultimately show ?case
    using Suc.hyps(1) [OF n] h by (simp add: o_def)
qed

lemma vga_copy_up_spec:
  assumes "sorted_wrt (<) (map (\<lambda>(row, col). (row - 1) * 80 + col) rcs)"
  shows "vga_copy_up rcs b i = (if i \<in> set (map (\<lambda>(row, col). (row - 1) * 80 + col) rcs) then b (i + 80) else b i)"
  using assms
proof (induction rcs arbitrary: b)
  case (Cons rc rcs)
  obtain row col where rc: "rc = (row, col)" by (cases rc)
  define t where "t = (row - 1) * 80 + col"
  have gt: "\<forall>i \<in> set (map (\<lambda>(row, col). (row - 1) * 80 + col) rcs). t < i"
    using Cons.prems by (simp add: rc t_def)
  have "vga_copy_up (rc # rcs) b i = vga_copy_up rcs (b(t := b (t + 80))) i"
    by (simp add: rc t_def VGA_WIDTH_def algebra_simps)
  also have "\<dots> = (if i \<in> set (map (\<lambda>(row, col). (row - 1) * 80 + col) rcs) then (b(t := b (t + 80))) (i + 80) else (b(t := b (t + 80))) i)"
    using Cons by simp
  also have "\<dots> = (if i \<in> set (map (\<lambda>(row, col). (row - 1) * 80 + col) (rc # rcs)) then b (i + 80) else b i)"
    using gt by (auto simp: rc t_def)
  finally show ?case .
qed simp

lemma vga_blank_row_spec: "vga_blank_row cols b i = (if i - 24 * 80 \<in> set cols then vga_blank else b i)"
  by (induction cols arbitrary: b) (auto simp: vga_consts)

lemma vga_scroll_cells:
  "vga_buffer (vga_scroll s) i =
     (if 0 \<le> i \<and> i < 24 * 80 then vga_buffer s (i + 80) else if 24 * 80 \<le> i \<and> i < 25 * 80 then vga_blank else vga_buffer s i)"
proof -
  let ?rcs = "concat (map (\<lambda>row. map (\<lambda>col. (row, col)) [0..79 :: int]) [1..24 :: int])"
  have t: "map (\<lambda>(row, col). (row - 1) * 80 + col) ?rcs = [0..1919]"
    using cells_upto [of 1 24 "-1"] by simp
  have "vga_copy_up ?rcs (vga_buffer s) i = (if i \<in> set [0..1919] then vga_buffer s (i + 80) else vga_buffer s i)" for i
    using vga_copy_up_spec [of ?rcs "vga_buffer s" i] unfolding t by simp
  then show ?thesis
    by (auto simp: vga_scroll_def vga_blank_row_spec vga_consts)
qed

lemma vga_clear_cells_spec:
  "vga_buffer (vga_clear_cells rcs s) i = (if i \<in> set (map (\<lambda>(row, col). row * 80 + col) rcs) then vga_blank else vga_buffer s i)"
  by (induction rcs s rule: vga_clear_cells.induct) (auto simp: vga_putchar_at_def VGA_WIDTH_def)

lemma vga_init_cells: "0 \<le> i \<Longrightarrow> i < 2000 \<Longrightarrow> vga_buffer (vga_init s) i = vga_blank"
  using cells_upto [of 0 24 0] by (simp add: vga_init_def vga_clear_cells_spec vga_consts)

section \<open>The screen\<close>

text \<open>The rows of the screen, and the cells of a line of text.\<close>

definition screen_row :: "vga \<Rightarrow> nat \<Rightarrow> u16 list" where
  "screen_row s r = map (\<lambda>c. vga_buffer s (int r * 80 + int c)) [0..<80]"

definition screen :: "vga \<Rightarrow> u16 list list" where
  "screen s = map (screen_row s) [0..<25]"

definition line_cells :: "u8 list \<Rightarrow> u16 list" where
  "line_cells t = map (\<lambda>c. vga_cell c WHITE_ON_BLACK) t @ replicate (80 - length t) vga_blank"

definition blank_line :: "u16 list" where "blank_line = replicate 80 vga_blank"

definition printable :: "u8 \<Rightarrow> bool" where
  "printable c \<longleftrightarrow> c \<notin> {0x08, 0x0A, CURSOR_LEFT, CURSOR_RIGHT}"

definition line_ok :: "u8 list \<Rightarrow> bool" where
  "line_ok t \<longleftrightarrow> (\<forall>c \<in> set t. printable c) \<and> length t \<le> 79"

lemma vga_set_cursor_fields [simp]:
  "vga_buffer (vga_set_cursor r c s) = vga_buffer s" "cursor_row (vga_set_cursor r c s) = cursor_row s"
  "cursor_col (vga_set_cursor r c s) = cursor_col s"
  by (simp_all add: vga_set_cursor_def Let_def outb_def)

lemma vga_putc_printable:
  assumes "printable c" and "cursor_col s < 79"
  shows "vga_buffer (vga_putc c s) = (vga_buffer s)(cursor_row s * 80 + cursor_col s := vga_cell c WHITE_ON_BLACK)"
    and "cursor_row (vga_putc c s) = cursor_row s" and "cursor_col (vga_putc c s) = cursor_col s + 1"
  using assms by (simp_all add: vga_putc_def printable_def vga_plain_def vga_putchar_at_def Let_def VGA_WIDTH_def)

definition put_cells :: "int \<Rightarrow> u16 list \<Rightarrow> (int \<Rightarrow> u16) \<Rightarrow> int \<Rightarrow> u16" where
  "put_cells k xs b i = (if k \<le> i \<and> i < k + int (length xs) then xs ! nat (i - k) else b i)"

lemma put_cells_Cons: "put_cells (k + 1) xs (b(k := x)) = put_cells k (x # xs) b"
proof
  fix i
  show "put_cells (k + 1) xs (b(k := x)) i = put_cells k (x # xs) b i"
  proof (cases "k + 1 \<le> i")
    case True
    then have "nat (i - k) = Suc (nat (i - (k + 1)))"
      by simp
    then show ?thesis using True by (simp add: put_cells_def)
  next
    case False
    then show ?thesis by (cases "i = k") (auto simp: put_cells_def)
  qed
qed

lemma vga_puts_printable:
  assumes "\<forall>c \<in> set t. printable c" and "cursor_col s + int (length t) \<le> 79"
  shows "vga_buffer (vga_puts t s) =
      put_cells (cursor_row s * 80 + cursor_col s) (map (\<lambda>c. vga_cell c WHITE_ON_BLACK) t) (vga_buffer s) \<and>
    cursor_row (vga_puts t s) = cursor_row s \<and> cursor_col (vga_puts t s) = cursor_col s + int (length t)"
  using assms
proof (induction t arbitrary: s)
  case Nil
  then show ?case by (auto simp: put_cells_def fun_eq_iff)
next
  case (Cons c t)
  have p: "printable c" "cursor_col s < 79"
    using Cons.prems by simp_all
  note c = vga_putc_printable [OF p]
  have "\<forall>c \<in> set t. printable c" "cursor_col (vga_putc c s) + int (length t) \<le> 79"
    using Cons.prems c by simp_all
  from Cons.IH [OF this] show ?case
    using put_cells_Cons [of "cursor_row s * 80 + cursor_col s" "map (\<lambda>c. vga_cell c WHITE_ON_BLACK) t" "vga_buffer s"]
    by (simp add: c add.assoc fun_upd_def)
qed

lemma screen_row_blank: "screen_row s r = blank_line \<longleftrightarrow> (\<forall>c<80. vga_buffer s (int r * 80 + int c) = vga_blank)"
  by (auto simp: screen_row_def blank_line_def list_eq_iff_nth_eq)

lemma screen_row_scroll:
  assumes "r < 25"
  shows "screen_row (vga_scroll s) r = (if r < 24 then screen_row s (Suc r) else blank_line)"
proof -
  have "vga_buffer (vga_scroll s) (int r * 80 + int c) =
      (if r < 24 then vga_buffer s (int (Suc r) * 80 + int c) else vga_blank)" if "c < 80" for c
    using that assms by (auto simp: vga_scroll_cells algebra_simps)
  then show ?thesis
    by (simp add: screen_row_def blank_line_def list_eq_iff_nth_eq)
qed

lemma screen_scroll: "screen (vga_scroll s) = tl (screen s) @ [blank_line]"
proof (rule nth_equalityI)
  show "screen (vga_scroll s) ! r = (tl (screen s) @ [blank_line]) ! r" if "r < length (screen (vga_scroll s))" for r
    using that by (auto simp: screen_def screen_row_scroll nth_append nth_tl simp del: upt_rec_numeral)
qed (simp add: screen_def)

text \<open>A line of text printed at the start of a blank row fills that row.\<close>

lemma screen_line:
  assumes "line_ok t" and "cursor_col s = 0" and "cursor_row s = int r" and "r < 25" and "screen s ! r = blank_line"
  shows "screen (vga_puts t s) = (screen s)[r := line_cells t]" and "cursor_row (vga_puts t s) = int r"
proof -
  have t: "\<forall>c \<in> set t. printable c" "length t \<le> 79"
    using assms(1) by (simp_all add: line_ok_def)
  have p: "vga_buffer (vga_puts t s) = put_cells (int r * 80) (map (\<lambda>c. vga_cell c WHITE_ON_BLACK) t) (vga_buffer s)"
    "cursor_row (vga_puts t s) = int r"
    using vga_puts_printable [of t s] t assms(2,3) by simp_all
  show "cursor_row (vga_puts t s) = int r"
    by (rule p(2))
  have blank: "\<forall>c<80. vga_buffer s (int r * 80 + int c) = vga_blank"
    using assms(4,5) by (simp add: screen_def screen_row_blank del: upt_rec_numeral)
  have cell: "vga_buffer (vga_puts t s) (int q * 80 + int c) =
      (if q = r \<and> c < length t then vga_cell (t ! c) WHITE_ON_BLACK else vga_buffer s (int q * 80 + int c))" if "c < 80" for q c
  proof (cases "q = r")
    case True
    then show ?thesis using that by (auto simp: p(1) put_cells_def)
  next
    case False
    then have "int q + 1 \<le> int r \<or> int r + 1 \<le> int q"
      by linarith
    then have "\<not> (int r * 80 \<le> int q * 80 + int c \<and> int q * 80 + int c < int r * 80 + int (length t))"
      using that t(2) by linarith
    then show ?thesis using False by (auto simp: p(1) put_cells_def)
  qed
  have "screen_row (vga_puts t s) q = (if q = r then line_cells t else screen_row s q)" for q
    using cell blank t(2) by (auto simp: screen_row_def line_cells_def list_eq_iff_nth_eq nth_append)
  then show "screen (vga_puts t s) = (screen s)[r := line_cells t]"
    using assms(4) by (intro nth_equalityI) (auto simp: screen_def nth_list_update simp del: upt_rec_numeral)
qed

lemma screen_newline:
  assumes "cursor_row s = int r" and "r < 25"
  shows "screen (vga_putc 0x0A s) = (if r < 24 then screen s else tl (screen s) @ [blank_line])"
    and "cursor_row (vga_putc 0x0A s) = int (min (Suc r) 24)" and "cursor_col (vga_putc 0x0A s) = 0"
proof -
  have b: "screen (u\<lparr>cursor_col := a, cursor_row := b\<rparr>) = screen u" "screen (u\<lparr>cursor_row := b\<rparr>) = screen u"
    "screen (u\<lparr>cursor_col := a\<rparr>) = screen u" for u a b
    by (simp_all add: screen_def screen_row_def)
  have c: "screen (vga_set_cursor a b u) = screen u" for a b u
    by (simp add: screen_def screen_row_def)
  show "screen (vga_putc 0x0A s) = (if r < 24 then screen s else tl (screen s) @ [blank_line])"
    using assms by (auto simp: vga_putc_def vga_newline_def Let_def vga_consts b c screen_scroll)
  show "cursor_row (vga_putc 0x0A s) = int (min (Suc r) 24)" and "cursor_col (vga_putc 0x0A s) = 0"
    using assms by (auto simp: vga_putc_def vga_newline_def Let_def vga_consts vga_scroll_def)
qed

text \<open>The rows after some lines were printed on a cleared screen, and the row of the cursor.\<close>

definition shown :: "u8 list list \<Rightarrow> u16 list list" where
  "shown ls = drop (length ls - 24) (map line_cells ls) @ replicate (25 - min (length ls) 24) blank_line"

lemma shown_snoc:
  "shown (ls @ [t]) = (let rows = (shown ls)[min (length ls) 24 := line_cells t]
     in if length ls < 24 then rows else tl rows @ [blank_line])"
proof (cases "length ls < 24")
  case True
  have r: "replicate (25 - length ls) blank_line = blank_line # replicate (24 - length ls) blank_line"
    using True by (simp add: Suc_diff_le flip: replicate_Suc)
  show ?thesis
    using True unfolding shown_def Let_def by (simp add: r list_update_append)
next
  case False
  then have "24 \<le> length ls" by simp
  moreover have "drop (length ls - 23) (map line_cells ls) = tl (drop (length ls - 24) (map line_cells ls))"
    using calculation by (simp add: tl_drop drop_Suc [symmetric] Suc_diff_le [symmetric] flip: drop_Suc)
  ultimately show ?thesis
    unfolding shown_def Let_def by (auto simp: list_update_append)
qed


lemma vga_puts_append [simp]: "vga_puts (a @ b) s = vga_puts b (vga_puts a s)"
  by (induction a arbitrary: s) simp_all

lemma shown_length: "length (shown ls) = 25"
  by (simp add: shown_def)

lemma shown_cursor_row: "shown ls ! min (length ls) 24 = blank_line"
  by (cases "length ls \<le> 24") (auto simp: shown_def nth_append)

lemma screen_init: "screen (vga_init s) = shown []" "cursor_row (vga_init s) = 0" "cursor_col (vga_init s) = 0"
proof -
  have "screen_row (vga_init s) r = blank_line" if "r < 25" for r
    using that vga_init_cells by (auto simp: screen_row_blank)
  then show "screen (vga_init s) = shown []"
    by (intro nth_equalityI) (simp_all add: screen_def shown_def del: upt_rec_numeral)
qed (simp_all add: vga_init_def)



text \<open>
  C32. A line that runs over the end of the last row is lost: the cursor moves to row 25 without
  scrolling, and the characters that follow change no row of the screen.
\<close>

theorem vga_wrap_offscreen:
  assumes "cursor_row s = 24" and "cursor_col s = 79" and "printable c" and "\<forall>d \<in> set t. printable d" and "length t \<le> 79"
  shows "cursor_row (vga_puts (c # t) s) = 25 \<and> screen (vga_puts (c # t) s) = screen (vga_putc c s)"
proof -
  have c: "cursor_row (vga_putc c s) = 25" "cursor_col (vga_putc c s) = 0"
    using assms(1-3) by (simp_all add: vga_putc_def printable_def vga_plain_def vga_putchar_at_def Let_def VGA_WIDTH_def)
  note p = vga_puts_printable [of t "vga_putc c s", OF assms(4)]
  have "vga_buffer (vga_puts t (vga_putc c s)) (int q * 80 + int k) = vga_buffer (vga_putc c s) (int q * 80 + int k)"
    if "q < 25" "k < 80" for q k
    using that p c assms(5) by (auto simp: put_cells_def)
  then have "screen (vga_puts t (vga_putc c s)) = screen (vga_putc c s)"
    by (auto simp: screen_def screen_row_def simp del: upt_rec_numeral)
  then show ?thesis
    using p c assms(5) by simp
qed

theorem vga_wrap_offscreen_witness:
  "cursor_row (vga_puts [0x61, 0x62] \<lparr>io_trace = [], vga_buffer = \<lambda>i. 0, cursor_row = 24, cursor_col = 79, vga_serial = []\<rparr>) = 25"
  using vga_wrap_offscreen [of "\<lparr>io_trace = [], vga_buffer = \<lambda>i. 0, cursor_row = 24, cursor_col = 79, vga_serial = []\<rparr>" "0x61" "[0x62]"]
  by (simp add: printable_def vga_consts)

end
