(* ===== verification/Sros_Pci.thy ===== *)
theory Sros_Pci
  imports Sros_Io
begin

unbundle bit_operations_syntax

text \<open>
  The PCI bus scan (\<open>src/drivers/pci.c\<close>). The configuration space is read through an address and a
  data port; \<open>config_space\<close> says that the data port answers from a fixed table. Under it, both
  searches find the first matching function of the bus in the order of the reference enumeration.
\<close>

section \<open>Data\<close>

definition PCI_CONFIG_ADDRESS :: u16 where "PCI_CONFIG_ADDRESS = 0x0CF8"
definition PCI_CONFIG_DATA :: u16 where "PCI_CONFIG_DATA = 0x0CFC"
definition PCI_VENDOR_ID :: u8 where "PCI_VENDOR_ID = 0x00"
definition PCI_DEVICE_ID :: u8 where "PCI_DEVICE_ID = 0x02"
definition PCI_COMMAND :: u8 where "PCI_COMMAND = 0x04"
definition PCI_CLASS_SUBCLASS :: u8 where "PCI_CLASS_SUBCLASS = 0x08"
definition PCI_HEADER_TYPE :: u8 where "PCI_HEADER_TYPE = 0x0E"
definition PCI_BAR0 :: u8 where "PCI_BAR0 = 0x10"
definition PCI_INTERRUPT_LINE :: u8 where "PCI_INTERRUPT_LINE = 0x3C"
definition PCI_CMD_IO_SPACE :: u16 where "PCI_CMD_IO_SPACE = 0x0001"
definition PCI_CMD_MEM_SPACE :: u16 where "PCI_CMD_MEM_SPACE = 0x0002"
definition PCI_CMD_BUS_MASTER :: u16 where "PCI_CMD_BUS_MASTER = 0x0004"

lemmas pci_consts = PCI_CONFIG_ADDRESS_def PCI_CONFIG_DATA_def PCI_VENDOR_ID_def PCI_DEVICE_ID_def PCI_COMMAND_def
  PCI_CLASS_SUBCLASS_def PCI_HEADER_TYPE_def PCI_BAR0_def PCI_INTERRUPT_LINE_def

record pci_device_t =
  bus :: u8
  dev :: u8
  func :: u8
  vendor_id :: u16
  device_id :: u16
  class_code :: u8
  sub_class :: u8
  prog_if :: u8
  irq_line :: u8
  bar :: "u32 list"

section \<open>Configuration space\<close>

definition pci_address :: "u8 \<Rightarrow> u8 \<Rightarrow> u8 \<Rightarrow> u8 \<Rightarrow> u32" where
  "pci_address b d f offset = 0x80000000 OR push_bit 16 (ucast b) OR push_bit 11 (ucast d) OR push_bit 8 (ucast f)
     OR ucast (offset AND 0xFC)"

definition pci_config_read :: "device \<Rightarrow> u8 \<Rightarrow> u8 \<Rightarrow> u8 \<Rightarrow> u8 \<Rightarrow> 'a io_state_scheme \<Rightarrow> u32 \<times> 'a io_state_scheme" where
  "pci_config_read hw b d f offset s = inl hw PCI_CONFIG_DATA (outl PCI_CONFIG_ADDRESS (pci_address b d f offset) s)"

definition pci_config_write :: "u8 \<Rightarrow> u8 \<Rightarrow> u8 \<Rightarrow> u8 \<Rightarrow> u32 \<Rightarrow> 'a io_state_scheme \<Rightarrow> 'a io_state_scheme" where
  "pci_config_write b d f offset v s = outl PCI_CONFIG_DATA v (outl PCI_CONFIG_ADDRESS (pci_address b d f offset) s)"

fun pci_read_bars :: "device \<Rightarrow> u8 \<Rightarrow> u8 \<Rightarrow> u8 \<Rightarrow> nat list \<Rightarrow> 'a io_state_scheme \<Rightarrow> u32 list \<times> 'a io_state_scheme" where
  "pci_read_bars hw b d f [] s = ([], s)"
| "pci_read_bars hw b d f (i # is) s =
     (let (v, s) = pci_config_read hw b d f (PCI_BAR0 + of_nat i * 4) s;
          (vs, s) = pci_read_bars hw b d f is s
      in (v # vs, s))"

section \<open>Scanning\<close>

text \<open>
  One round of the innermost loop: the device was found, the loop goes on with the next function
  (\<open>continue\<close> or the end of the body), or it leaves the device (\<open>break\<close>).
\<close>

datatype probe = Found pci_device_t | Next_func | Break_dev

definition pci_absent :: "u16 \<Rightarrow> bool" where
  "pci_absent vendor \<longleftrightarrow> vendor = 0xFFFF \<or> vendor = 0x0000"

definition pci_multifunction :: "device \<Rightarrow> u8 \<Rightarrow> u8 \<Rightarrow> u8 \<Rightarrow> 'a io_state_scheme \<Rightarrow> probe \<times> 'a io_state_scheme" where
  "pci_multifunction hw b d f s =
     (if f = 0
      then (let (v, s) = pci_config_read hw b d 0 PCI_HEADER_TYPE s;
                header_type = ucast (drop_bit 16 v AND 0xFF) :: u8
            in if header_type AND 0x80 = 0 then (Break_dev, s) else (Next_func, s))
      else (Next_func, s))"

definition probe_id :: "device \<Rightarrow> u16 \<Rightarrow> u16 \<Rightarrow> u8 \<Rightarrow> u8 \<Rightarrow> u8 \<Rightarrow> 'a io_state_scheme \<Rightarrow> probe \<times> 'a io_state_scheme" where
  "probe_id hw vid did b d f s =
     (let (v, s) = pci_config_read hw b d f PCI_VENDOR_ID s; vendor = ucast (v AND 0xFFFF) :: u16 in
      if pci_absent vendor then (if f = 0 then Break_dev else Next_func, s)
      else (let (v, s) = pci_config_read hw b d f PCI_DEVICE_ID s; device = ucast (drop_bit 16 v) :: u16 in
        if vendor = vid \<and> device = did
        then (let (class_reg, s) = pci_config_read hw b d f PCI_CLASS_SUBCLASS s;
                  (iv, s) = pci_config_read hw b d f PCI_INTERRUPT_LINE s;
                  (bars, s) = pci_read_bars hw b d f [0..<6] s
              in (Found \<lparr>bus = b, dev = d, func = f, vendor_id = vendor, device_id = device,
                    class_code = ucast (drop_bit 24 class_reg AND 0xFF), sub_class = ucast (drop_bit 16 class_reg AND 0xFF),
                    prog_if = ucast (drop_bit 8 class_reg AND 0xFF), irq_line = ucast (iv AND 0xFF), bar = bars\<rparr>, s))
        else pci_multifunction hw b d f s))"

definition probe_class :: "device \<Rightarrow> u8 \<Rightarrow> u8 \<Rightarrow> u8 \<Rightarrow> u8 \<Rightarrow> u8 \<Rightarrow> 'a io_state_scheme \<Rightarrow> probe \<times> 'a io_state_scheme" where
  "probe_class hw cc sc b d f s =
     (let (v, s) = pci_config_read hw b d f PCI_VENDOR_ID s; vendor = ucast (v AND 0xFFFF) :: u16 in
      if pci_absent vendor then (if f = 0 then Break_dev else Next_func, s)
      else (let (class_reg, s) = pci_config_read hw b d f PCI_CLASS_SUBCLASS s in
        if ucast (drop_bit 24 class_reg AND 0xFF) = cc \<and> ucast (drop_bit 16 class_reg AND 0xFF) = sc
        then (let (v, s) = pci_config_read hw b d f PCI_DEVICE_ID s; device = ucast (drop_bit 16 v) :: u16;
                  (iv, s) = pci_config_read hw b d f PCI_INTERRUPT_LINE s;
                  (bars, s) = pci_read_bars hw b d f [0..<6] s
              in (Found \<lparr>bus = b, dev = d, func = f, vendor_id = vendor, device_id = device, class_code = cc, sub_class = sc,
                    prog_if = ucast (drop_bit 8 class_reg AND 0xFF), irq_line = ucast (iv AND 0xFF), bar = bars\<rparr>, s))
        else pci_multifunction hw b d f s))"

text \<open>The three loops of a search, with the body as a parameter.\<close>

fun pci_funcs :: "(nat \<Rightarrow> 's \<Rightarrow> probe \<times> 's) \<Rightarrow> nat list \<Rightarrow> 's \<Rightarrow> pci_device_t option \<times> 's" where
  "pci_funcs body [] s = (None, s)"
| "pci_funcs body (f # fs) s =
     (case body f s of
        (Found p, s) \<Rightarrow> (Some p, s)
      | (Next_func, s) \<Rightarrow> pci_funcs body fs s
      | (Break_dev, s) \<Rightarrow> (None, s))"

fun pci_devs :: "(nat \<Rightarrow> nat \<Rightarrow> 's \<Rightarrow> probe \<times> 's) \<Rightarrow> nat list \<Rightarrow> 's \<Rightarrow> pci_device_t option \<times> 's" where
  "pci_devs body [] s = (None, s)"
| "pci_devs body (d # ds) s =
     (case pci_funcs (body d) [0..<8] s of
        (Some p, s) \<Rightarrow> (Some p, s)
      | (None, s) \<Rightarrow> pci_devs body ds s)"

fun pci_buses :: "(nat \<Rightarrow> nat \<Rightarrow> nat \<Rightarrow> 's \<Rightarrow> probe \<times> 's) \<Rightarrow> nat list \<Rightarrow> 's \<Rightarrow> pci_device_t option \<times> 's" where
  "pci_buses body [] s = (None, s)"
| "pci_buses body (b # bs) s =
     (case pci_devs (body b) [0..<32] s of
        (Some p, s) \<Rightarrow> (Some p, s)
      | (None, s) \<Rightarrow> pci_buses body bs s)"

text \<open>\<open>None\<close> is the result -1; \<open>Some\<close> is 0 with the struct filled in.\<close>

definition pci_find_device :: "device \<Rightarrow> u16 \<Rightarrow> u16 \<Rightarrow> 'a io_state_scheme \<Rightarrow> pci_device_t option \<times> 'a io_state_scheme" where
  "pci_find_device hw vid did s =
     pci_buses (\<lambda>b d f. probe_id hw vid did (of_nat b) (of_nat d) (of_nat f)) [0..<256] s"

definition pci_find_by_class :: "device \<Rightarrow> u8 \<Rightarrow> u8 \<Rightarrow> 'a io_state_scheme \<Rightarrow> pci_device_t option \<times> 'a io_state_scheme" where
  "pci_find_by_class hw cc sc s =
     pci_buses (\<lambda>b d f. probe_class hw cc sc (of_nat b) (of_nat d) (of_nat f)) [0..<256] s"

definition pci_enable_bus_master :: "device \<Rightarrow> pci_device_t \<Rightarrow> 'a io_state_scheme \<Rightarrow> 'a io_state_scheme" where
  "pci_enable_bus_master hw p s =
     (let (v, s) = pci_config_read hw (bus p) (dev p) (func p) PCI_COMMAND s;
          cmd = ucast (v AND 0xFFFF) :: u16;
          cmd = cmd OR (PCI_CMD_IO_SPACE OR PCI_CMD_MEM_SPACE OR PCI_CMD_BUS_MASTER)
      in pci_config_write (bus p) (dev p) (func p) PCI_COMMAND (ucast cmd) s)"

section \<open>The reference enumeration\<close>

text \<open>The configuration space as a table by address.\<close>

definition config_space :: "device \<Rightarrow> (u32 \<Rightarrow> u32) \<Rightarrow> bool" where
  "config_space hw cfg \<longleftrightarrow> (\<forall>tr a. hw (tr @ [Out32 PCI_CONFIG_ADDRESS a]) PCI_CONFIG_DATA = cfg a)"

definition cfg_vendor :: "(u32 \<Rightarrow> u32) \<Rightarrow> u8 \<Rightarrow> u8 \<Rightarrow> u8 \<Rightarrow> u16" where
  "cfg_vendor cfg b d f = ucast (cfg (pci_address b d f PCI_VENDOR_ID) AND 0xFFFF)"

definition cfg_multi :: "(u32 \<Rightarrow> u32) \<Rightarrow> u8 \<Rightarrow> u8 \<Rightarrow> bool" where
  "cfg_multi cfg b d \<longleftrightarrow> (ucast (drop_bit 16 (cfg (pci_address b d 0 PCI_HEADER_TYPE)) AND 0xFF) :: u8) AND 0x80 \<noteq> 0"

text \<open>The functions of a device: none without function 0, only function 0 unless it is marked as one of several.\<close>

definition dev_funcs :: "(u32 \<Rightarrow> u32) \<Rightarrow> nat \<Rightarrow> nat \<Rightarrow> nat list" where
  "dev_funcs cfg b d =
     (if pci_absent (cfg_vendor cfg (of_nat b) (of_nat d) 0) then []
      else 0 # (if cfg_multi cfg (of_nat b) (of_nat d)
                then filter (\<lambda>f. \<not> pci_absent (cfg_vendor cfg (of_nat b) (of_nat d) (of_nat f))) [1..<8] else []))"

definition all_funcs :: "(u32 \<Rightarrow> u32) \<Rightarrow> (nat \<times> nat \<times> nat) list" where
  "all_funcs cfg = concat (map (\<lambda>b. concat (map (\<lambda>d. map (\<lambda>f. (b, d, f)) (dev_funcs cfg b d)) [0..<32])) [0..<256])"

definition cfg_device :: "(u32 \<Rightarrow> u32) \<Rightarrow> nat \<times> nat \<times> nat \<Rightarrow> pci_device_t" where
  "cfg_device cfg bdf = (case bdf of (b, d, f) \<Rightarrow>
     (let at = (\<lambda>off. cfg (pci_address (of_nat b) (of_nat d) (of_nat f) off)) in
      \<lparr>bus = of_nat b, dev = of_nat d, func = of_nat f, vendor_id = ucast (at PCI_VENDOR_ID AND 0xFFFF),
       device_id = ucast (drop_bit 16 (at PCI_DEVICE_ID)), class_code = ucast (drop_bit 24 (at PCI_CLASS_SUBCLASS) AND 0xFF),
       sub_class = ucast (drop_bit 16 (at PCI_CLASS_SUBCLASS) AND 0xFF), prog_if = ucast (drop_bit 8 (at PCI_CLASS_SUBCLASS) AND 0xFF),
       irq_line = ucast (at PCI_INTERRUPT_LINE AND 0xFF), bar = map (\<lambda>i. at (PCI_BAR0 + of_nat i * 4)) [0..<6]\<rparr>))"

section \<open>Correctness\<close>

lemma config_read:
  "config_space hw cfg \<Longrightarrow> fst (pci_config_read hw b d f off s) = cfg (pci_address b d f off)"
  by (simp add: pci_config_read_def inl_def outl_def Let_def config_space_def)

lemma config_read_obtain:
  assumes "config_space hw cfg"
  obtains s' where "pci_config_read hw b d f off s = (cfg (pci_address b d f off), s')"
  using config_read [OF assms] by (metis prod.collapse)

lemma read_bars:
  assumes "config_space hw cfg"
  shows "fst (pci_read_bars hw b d f is s) = map (\<lambda>i. cfg (pci_address b d f (PCI_BAR0 + of_nat i * 4))) is"
proof (induction "is" arbitrary: s)
  case (Cons i "is")
  obtain s' where "pci_config_read hw b d f (PCI_BAR0 + of_nat i * 4) s = (cfg (pci_address b d f (PCI_BAR0 + of_nat i * 4)), s')"
    by (rule config_read_obtain [OF assms])
  then show ?case
    using Cons.IH [of s'] by (simp add: split_beta)
qed simp

text \<open>What a body of the loops answers, as a function of the table.\<close>

definition probe_result :: "(u32 \<Rightarrow> u32) \<Rightarrow> (pci_device_t \<Rightarrow> bool) \<Rightarrow> nat \<Rightarrow> nat \<Rightarrow> nat \<Rightarrow> probe" where
  "probe_result cfg P b d f =
     (if pci_absent (cfg_vendor cfg (of_nat b) (of_nat d) (of_nat f)) then (if f = 0 then Break_dev else Next_func)
      else if P (cfg_device cfg (b, d, f)) then Found (cfg_device cfg (b, d, f))
      else if f = 0 \<and> \<not> cfg_multi cfg (of_nat b) (of_nat d) then Break_dev else Next_func)"

lemma multifunction_result:
  assumes "config_space hw cfg"
  shows "fst (pci_multifunction hw b d f s) = (if f = 0 \<and> \<not> cfg_multi cfg b d then Break_dev else Next_func)"
proof -
  obtain s' where "pci_config_read hw b d 0 PCI_HEADER_TYPE s = (cfg (pci_address b d 0 PCI_HEADER_TYPE), s')"
    by (rule config_read_obtain [OF assms])
  then show ?thesis
    by (simp add: pci_multifunction_def cfg_multi_def)
qed

lemma of_nat_u8_zero: "f < 8 \<Longrightarrow> (of_nat f :: u8) = 0 \<longleftrightarrow> f = 0"
  using unat_of_nat_u8 [of f] by (auto simp: unat_eq_0 [symmetric])

lemma probe_id_result:
  assumes "config_space hw cfg" and "f < 8"
  shows "fst (probe_id hw vid did (of_nat b) (of_nat d) (of_nat f) s) =
    probe_result cfg (\<lambda>p. vendor_id p = vid \<and> device_id p = did) b d f"
  using assms(2)
  by (simp add: probe_id_def probe_result_def cfg_vendor_def cfg_device_def Let_def split_beta config_read [OF assms(1)]
      read_bars [OF assms(1)] multifunction_result [OF assms(1)] of_nat_u8_zero)

lemma probe_class_result:
  assumes "config_space hw cfg" and "f < 8"
  shows "fst (probe_class hw cc sc (of_nat b) (of_nat d) (of_nat f) s) =
    probe_result cfg (\<lambda>p. class_code p = cc \<and> sub_class p = sc) b d f"
  using assms(2)
  by (auto simp: probe_class_def probe_result_def cfg_vendor_def cfg_device_def Let_def split_beta config_read [OF assms(1)]
      read_bars [OF assms(1)] multifunction_result [OF assms(1)] of_nat_u8_zero)

text \<open>The loops without the port traffic.\<close>

fun scan_funcs :: "(nat \<Rightarrow> probe) \<Rightarrow> nat list \<Rightarrow> pci_device_t option" where
  "scan_funcs R [] = None"
| "scan_funcs R (f # fs) = (case R f of Found p \<Rightarrow> Some p | Next_func \<Rightarrow> scan_funcs R fs | Break_dev \<Rightarrow> None)"

lemma pci_funcs_scan:
  assumes "\<And>f s. f \<in> set fs \<Longrightarrow> fst (body f s) = R f"
  shows "fst (pci_funcs body fs s) = scan_funcs R fs"
  using assms
proof (induction fs arbitrary: s)
  case (Cons f fs)
  obtain r s' where "body f s = (r, s')" by (cases "body f s")
  moreover have "r = R f"
    using Cons.prems [of f s] calculation by simp
  ultimately show ?case
    using Cons.IH [of s'] Cons.prems by (simp split: probe.splits)
qed simp

lemma scan_later_funcs:
  assumes "0 \<notin> set fs"
  shows "scan_funcs (probe_result cfg P b d) fs = List.find P (map (\<lambda>f. cfg_device cfg (b, d, f))
    (filter (\<lambda>f. \<not> pci_absent (cfg_vendor cfg (of_nat b) (of_nat d) (of_nat f))) fs))"
  using assms by (induction fs) (auto simp: probe_result_def)

lemma scan_device:
  "scan_funcs (probe_result cfg P b d) [0..<8] = List.find P (map (\<lambda>f. cfg_device cfg (b, d, f)) (dev_funcs cfg b d))"
proof -
  have "[0..<8] = 0 # [1..<8]"
    by (simp add: upt_conv_Cons)
  then show ?thesis
    using scan_later_funcs [of "[1..<8]" cfg P b d]
    by (auto simp: dev_funcs_def probe_result_def simp del: upt_rec_numeral)
qed

lemma pci_devs_find:
  assumes "\<And>d s. d \<in> set ds \<Longrightarrow> fst (pci_funcs (body d) [0..<8] s) = List.find P (xs d)"
  shows "fst (pci_devs body ds s) = List.find P (concat (map xs ds))"
  using assms
proof (induction ds arbitrary: s)
  case (Cons d ds)
  obtain r s' where r: "pci_funcs (body d) [0..<8] s = (r, s')" by (cases "pci_funcs (body d) [0..<8] s")
  then have "r = List.find P (xs d)"
    using Cons.prems [of d s] by simp
  then show ?case
    using Cons.IH [of s'] Cons.prems r by (auto simp: find_append simp del: upt_rec_numeral split: option.splits)
qed simp

lemma pci_buses_find:
  assumes "\<And>b s. b \<in> set bs \<Longrightarrow> fst (pci_devs (body b) [0..<32] s) = List.find P (xs b)"
  shows "fst (pci_buses body bs s) = List.find P (concat (map xs bs))"
  using assms
proof (induction bs arbitrary: s)
  case (Cons b bs)
  obtain r s' where r: "pci_devs (body b) [0..<32] s = (r, s')" by (cases "pci_devs (body b) [0..<32] s")
  then have "r = List.find P (xs b)"
    using Cons.prems [of b s] by simp
  then show ?case
    using Cons.IH [of s'] Cons.prems r by (auto simp: find_append simp del: upt_rec_numeral split: option.splits)
qed simp

lemma pci_scan_find:
  assumes "\<And>b d f s. f < 8 \<Longrightarrow> fst (body b d f s) = probe_result cfg P b d f"
  shows "fst (pci_buses body [0..<256] s) = List.find P (map (cfg_device cfg) (all_funcs cfg))"
proof -
  have "fst (pci_funcs (body b d) [0..<8] s) = List.find P (map (\<lambda>f. cfg_device cfg (b, d, f)) (dev_funcs cfg b d))" for b d s
    using pci_funcs_scan [of "[0..<8]" "body b d" "probe_result cfg P b d" s] assms by (simp add: scan_device del: upt_rec_numeral)
  then have "fst (pci_devs (body b) [0..<32] s) =
      List.find P (concat (map (\<lambda>d. map (\<lambda>f. cfg_device cfg (b, d, f)) (dev_funcs cfg b d)) [0..<32]))" for b s
    by (rule pci_devs_find)
  then have "fst (pci_buses body [0..<256] s) = List.find P (concat (map (\<lambda>b.
      concat (map (\<lambda>d. map (\<lambda>f. cfg_device cfg (b, d, f)) (dev_funcs cfg b d)) [0..<32])) [0..<256]))"
    by (rule pci_buses_find)
  then show ?thesis
    by (simp add: all_funcs_def map_concat o_def del: upt_rec_numeral)
qed

text \<open>
  C33. The bus searches agree with the reference enumeration: over a configuration space that answers from a fixed
  table, \<open>pci_find_device\<close> and \<open>pci_find_by_class\<close> deliver the first function, by bus, device and
  function number, among those present that has the identifiers, with its description read from the table, and -1
  exactly when there is none. Functions above 0 count only on devices marked as having several.
\<close>

theorem pci_search_equiv:
  assumes "config_space hw cfg"
  shows "fst (pci_find_device hw vid did s) =
      List.find (\<lambda>p. vendor_id p = vid \<and> device_id p = did) (map (cfg_device cfg) (all_funcs cfg)) \<and>
    fst (pci_find_by_class hw cc sc s) =
      List.find (\<lambda>p. class_code p = cc \<and> sub_class p = sc) (map (cfg_device cfg) (all_funcs cfg))"
  unfolding pci_find_device_def pci_find_by_class_def
  by (intro conjI pci_scan_find probe_id_result probe_class_result assms)

theorem pci_search_equiv_witness:
  "fst (pci_find_device (\<lambda>tr port. 0xFFFFFFFF) 0x10EC 0x8139 \<lparr>io_trace = []\<rparr>) = None"
proof -
  have "config_space (\<lambda>tr port. 0xFFFFFFFF) (\<lambda>a. 0xFFFFFFFF)"
    by (simp add: config_space_def)
  moreover have "dev_funcs (\<lambda>a. 0xFFFFFFFF) b d = []" for b d
    by (simp add: dev_funcs_def cfg_vendor_def pci_absent_def)
  then have "all_funcs (\<lambda>a. 0xFFFFFFFF) = []"
    by (simp add: all_funcs_def)
  ultimately show ?thesis
    using pci_search_equiv [of "\<lambda>tr port. 0xFFFFFFFF" "\<lambda>a. 0xFFFFFFFF" "0x10EC" "0x8139" "\<lparr>io_trace = []\<rparr>" 0 0] by simp
qed

end
