(* ===== verification/Sros_Tables.thy ===== *)
theory Sros_Tables
  imports Sros_Io
begin

unbundle bit_operations_syntax

text \<open>
  The descriptor tables and the interrupt controller: \<open>src/kernel/gdt.c\<close>, the table of
  \<open>src/kernel/idt.c\<close>, and \<open>pit_init\<close> and \<open>pic_remap\<close> of \<open>src/kernel/irq.c\<close>. The addresses of the
  tables and of the assembly entry points are chosen by the linker and are parameters. The decoders
  at the end read the entries back the way the processor does.
\<close>

section \<open>Segment descriptors\<close>

record gdt_entry =
  limit_low :: u16
  base_low :: u16
  base_middle :: u8
  access :: u8
  granularity :: u8
  base_high :: u8

record gdt_ptr =
  gp_limit :: u16
  gp_base :: u32

text \<open>The hardware task state segment; the prefix keeps the register names free for the saved contexts.\<close>

record tss =
  prev_tss :: u32
  tss_esp0 :: u32
  tss_ss0 :: u32
  tss_esp1 :: u32
  tss_ss1 :: u32
  tss_esp2 :: u32
  tss_ss2 :: u32
  tss_cr3 :: u32
  tss_eip :: u32
  tss_eflags :: u32
  tss_eax :: u32
  tss_ecx :: u32
  tss_edx :: u32
  tss_ebx :: u32
  tss_esp :: u32
  tss_ebp :: u32
  tss_esi :: u32
  tss_edi :: u32
  tss_es :: u32
  tss_cs :: u32
  tss_ss :: u32
  tss_ds :: u32
  tss_fs :: u32
  tss_gs :: u32
  tss_ldt :: u32
  tss_trap :: u16
  tss_iomap_base :: u16

text \<open>The table and the registers that \<open>gdt_flush\<close> and \<open>tss_flush\<close> load from it.\<close>

record gdt_state =
  gdt :: "gdt_entry list"
  gp :: gdt_ptr
  tss :: tss
  gdtr :: gdt_ptr
  code_seg :: u16
  data_segs :: u16
  task_reg :: u16

definition GDT_ENTRIES :: nat where "GDT_ENTRIES = 6"

definition gdt_entry_of :: "u32 \<Rightarrow> u32 \<Rightarrow> u8 \<Rightarrow> u8 \<Rightarrow> gdt_entry" where
  "gdt_entry_of base limit acc gran =
     \<lparr>limit_low = ucast (limit AND 0xFFFF), base_low = ucast (base AND 0xFFFF),
      base_middle = ucast (drop_bit 16 base AND 0xFF), access = acc,
      granularity = ucast (drop_bit 16 limit AND 0x0F) OR (gran AND 0xF0), base_high = ucast (drop_bit 24 base AND 0xFF)\<rparr>"

definition gdt_set_entry :: "nat \<Rightarrow> u32 \<Rightarrow> u32 \<Rightarrow> u8 \<Rightarrow> u8 \<Rightarrow> gdt_state \<Rightarrow> gdt_state" where
  "gdt_set_entry idx base limit acc gran s = s\<lparr>gdt := (gdt s)[idx := gdt_entry_of base limit acc gran]\<rparr>"

text \<open>\<open>cs\<close> to \<open>trap\<close> are left as they were; \<open>sizeof(struct tss)\<close> is 104.\<close>

definition tss_init :: "gdt_state \<Rightarrow> gdt_state" where
  "tss_init s = s\<lparr>tss := (tss s)
     \<lparr>prev_tss := 0, tss_esp1 := 0, tss_ss1 := 0, tss_esp2 := 0, tss_ss2 := 0, tss_cr3 := 0,
      tss_eip := 0, tss_eflags := 0, tss_eax := 0, tss_ecx := 0, tss_edx := 0, tss_ebx := 0,
      tss_esp := 0, tss_ebp := 0, tss_esi := 0, tss_edi := 0, tss_es := 0,
      tss_ss0 := 0x10, tss_esp0 := 0x20000, tss_iomap_base := 104\<rparr>\<rparr>"

text \<open>\<open>lgdt\<close>, the data segment registers (\<open>ds\<close>, \<open>es\<close>, \<open>fs\<close>, \<open>gs\<close>, \<open>ss\<close> alike) and the far jump; then \<open>ltr\<close>.\<close>

definition gdt_flush :: "gdt_state \<Rightarrow> gdt_state" where
  "gdt_flush s = s\<lparr>gdtr := gp s, data_segs := 0x10, code_seg := 0x08\<rparr>"

definition tss_flush :: "gdt_state \<Rightarrow> gdt_state" where
  "tss_flush s = s\<lparr>task_reg := 0x28\<rparr>"

definition gdt_init :: "u32 \<Rightarrow> u32 \<Rightarrow> gdt_state \<Rightarrow> gdt_state" where
  "gdt_init gdt_addr tss_addr s =
     (let s = s\<lparr>gp := \<lparr>gp_limit = of_nat (8 * GDT_ENTRIES - 1), gp_base = gdt_addr\<rparr>\<rparr>;
          s = tss_init s;
          s = gdt_set_entry 0 0 0 0 0 s;
          s = gdt_set_entry 1 0 0xFFFFF 0x9A 0xCF s;
          s = gdt_set_entry 2 0 0xFFFFF 0x92 0xCF s;
          s = gdt_set_entry 3 0 0xFFFFF 0xFA 0xCF s;
          s = gdt_set_entry 4 0 0xFFFFF 0xF2 0xCF s;
          s = gdt_set_entry 5 tss_addr (104 - 1) 0x89 0x00 s
      in tss_flush (gdt_flush s))"

section \<open>Interrupt gates\<close>

record idt_entry =
  offset_low :: u16
  selector :: u16
  zero :: u8
  type_attr :: u8
  offset_high :: u16

definition idt_gate_of :: "u32 \<Rightarrow> u16 \<Rightarrow> u8 \<Rightarrow> idt_entry" where
  "idt_gate_of handler sel attr =
     \<lparr>offset_low = ucast (handler AND 0xFFFF), selector = sel, zero = 0, type_attr = attr,
      offset_high = ucast (drop_bit 16 handler AND 0xFFFF)\<rparr>"

definition idt_set_gate :: "nat \<Rightarrow> u32 \<Rightarrow> u16 \<Rightarrow> u8 \<Rightarrow> idt_entry list \<Rightarrow> idt_entry list" where
  "idt_set_gate vector handler sel attr idt = idt[vector := idt_gate_of handler sel attr]"

definition null_gate :: idt_entry where
  "null_gate = \<lparr>offset_low = 0, selector = 0, zero = 0, type_attr = 0, offset_high = 0\<rparr>"

definition exception_vectors :: "nat list" where
  "exception_vectors = [0, 1, 3, 4, 6, 7, 8, 10, 11, 12, 13, 14, 16, 17, 18, 19]"

record idt_ptr =
  idt_limit :: u16
  idt_base :: u32

text \<open>
  The calls of \<open>idt_set_gate\<close> in order; \<open>isr n\<close> is the address of the assembly stub \<open>isrn\<close>.
  The result is the table and the operand of \<open>lidt\<close>.
\<close>

definition idt_init :: "u32 \<Rightarrow> (nat \<Rightarrow> u32) \<Rightarrow> idt_entry list \<times> idt_ptr" where
  "idt_init idt_addr isr =
     (let idtr = \<lparr>idt_limit = of_nat (8 * 256 - 1), idt_base = idt_addr\<rparr>;
          idt = replicate 256 null_gate;
          idt = fold (\<lambda>v. idt_set_gate v (isr v) 0x08 0x8E) (exception_vectors @ [32..<48]) idt
      in (idt_set_gate 128 (isr 128) 0x08 0xEF idt, idtr))"

section \<open>Timer and interrupt controller\<close>

definition pit_init :: "u32 \<Rightarrow> 'a io_state_scheme \<Rightarrow> 'a io_state_scheme" where
  "pit_init frequency_hz s =
     (let divisor = 1193180 div frequency_hz;
          s = outb 0x43 0x36 s;
          s = outb 0x40 (ucast (divisor AND 0xFF)) s
      in outb 0x40 (ucast (drop_bit 8 divisor AND 0xFF)) s)"

definition pic_remap :: "'a io_state_scheme \<Rightarrow> 'a io_state_scheme" where
  "pic_remap s =
     (let s = outb 0x20 0x11 s;
          s = outb 0xA0 0x11 s;
          s = outb 0x21 0x20 s;
          s = outb 0xA1 0x28 s;
          s = outb 0x21 0x04 s;
          s = outb 0xA1 0x02 s;
          s = outb 0x21 0x01 s;
          s = outb 0xA1 0x01 s;
          s = outb 0x21 0xDC s
      in outb 0xA1 0xFF s)"

section \<open>What the processor reads\<close>

definition seg_base :: "gdt_entry \<Rightarrow> u32" where
  "seg_base e = ucast (base_low e) OR push_bit 16 (ucast (base_middle e)) OR push_bit 24 (ucast (base_high e))"

definition seg_limit :: "gdt_entry \<Rightarrow> u32" where
  "seg_limit e = ucast (limit_low e) OR push_bit 16 (ucast (granularity e AND 0x0F))"

text \<open>Present, privilege level, code or data segment, executable, and the page-granularity and 32-bit flags.\<close>

definition seg_present :: "gdt_entry \<Rightarrow> bool" where "seg_present e \<longleftrightarrow> bit (access e) 7"
definition seg_dpl :: "gdt_entry \<Rightarrow> u8" where "seg_dpl e = drop_bit 5 (access e) AND 3"
definition seg_memory :: "gdt_entry \<Rightarrow> bool" where "seg_memory e \<longleftrightarrow> bit (access e) 4"
definition seg_code :: "gdt_entry \<Rightarrow> bool" where "seg_code e \<longleftrightarrow> bit (access e) 3"
definition seg_flat32 :: "gdt_entry \<Rightarrow> bool" where
  "seg_flat32 e \<longleftrightarrow> seg_base e = 0 \<and> seg_limit e = 0xFFFFF \<and> bit (granularity e) 7 \<and> bit (granularity e) 6"

definition gate_offset :: "idt_entry \<Rightarrow> u32" where
  "gate_offset g = ucast (offset_low g) OR push_bit 16 (ucast (offset_high g))"

definition gate_present :: "idt_entry \<Rightarrow> bool" where "gate_present g \<longleftrightarrow> bit (type_attr g) 7"
definition gate_dpl :: "idt_entry \<Rightarrow> u8" where "gate_dpl g = drop_bit 5 (type_attr g) AND 3"

text \<open>The privilege an instruction needs to enter through a gate: an interrupt by the hardware needs none.\<close>

definition user_may_enter :: "idt_entry \<Rightarrow> bool" where
  "user_may_enter g \<longleftrightarrow> gate_present g \<and> gate_dpl g = 3"

section \<open>Correctness\<close>

lemma bit_masks: "bit (0xFFFF :: int) n \<longleftrightarrow> n < 16" "bit (0xFF :: int) n \<longleftrightarrow> n < 8"
proof -
  have m: "(0xFFFF :: int) = mask 16" "(0xFF :: int) = mask 8" by (simp_all add: mask_eq_exp_minus_1)
  show "bit (0xFFFF :: int) n \<longleftrightarrow> n < 16" unfolding m bit_mask_iff by auto
  show "bit (0xFF :: int) n \<longleftrightarrow> n < 8" unfolding m bit_mask_iff by auto
qed

lemma seg_base_entry [simp]: "seg_base (gdt_entry_of base limit acc gran) = base"
proof (rule bit_word_eqI)
  fix n
  assume n: "n < LENGTH(32)"
  then consider "n < 16" | "16 \<le> n" "n < 24" | "24 \<le> n" by linarith
  then show "bit (seg_base (gdt_entry_of base limit acc gran)) n = bit base n"
    using n by cases (auto simp: seg_base_def gdt_entry_of_def bit_simps bit_masks)
qed

lemma gate_offset_entry [simp]: "gate_offset (idt_gate_of handler sel attr) = handler"
proof (rule bit_word_eqI)
  fix n
  assume n: "n < LENGTH(32)"
  then show "bit (gate_offset (idt_gate_of handler sel attr)) n = bit handler n"
    by (cases "n < 16") (auto simp: gate_offset_def idt_gate_of_def bit_simps bit_masks)
qed

lemma gdt_init_entries:
  assumes "length (gdt s) = GDT_ENTRIES"
  shows "gdt (gdt_init ga ta s) =
    [gdt_entry_of 0 0 0 0, gdt_entry_of 0 0xFFFFF 0x9A 0xCF, gdt_entry_of 0 0xFFFFF 0x92 0xCF,
     gdt_entry_of 0 0xFFFFF 0xFA 0xCF, gdt_entry_of 0 0xFFFFF 0xF2 0xCF, gdt_entry_of ta 103 0x89 0x00]"
proof -
  obtain a b c d e f where "gdt s = [a, b, c, d, e, f]"
    using assms unfolding GDT_ENTRIES_def by (auto simp: length_Suc_conv eval_nat_numeral)
  then show ?thesis
    by (simp add: gdt_init_def gdt_set_entry_def tss_init_def gdt_flush_def tss_flush_def)
qed

lemma fold_gates:
  "distinct vs \<Longrightarrow> \<forall>v \<in> set vs. v < length idt \<Longrightarrow> v < length idt \<Longrightarrow>
   fold (\<lambda>v. idt_set_gate v (isr v) sel attr) vs idt ! v =
     (if v \<in> set vs then idt_gate_of (isr v) sel attr else idt ! v)"
  by (induction vs arbitrary: idt) (auto simp: idt_set_gate_def)

lemma length_fold_gates [simp]: "length (fold (\<lambda>v. idt_set_gate v (isr v) sel attr) vs idt) = length idt"
  by (induction vs arbitrary: idt) (auto simp: idt_set_gate_def)

lemma idt_init_nth:
  assumes "v < 256"
  shows "fst (idt_init ia isr) ! v =
    (if v = 128 then idt_gate_of (isr v) 0x08 0xEF
     else if v \<in> set (exception_vectors @ [32..<48]) then idt_gate_of (isr v) 0x08 0x8E else null_gate)"
proof -
  let ?vs = "exception_vectors @ [32..<48]"
  have vs: "distinct ?vs" "\<forall>v \<in> set ?vs. v < 256" by (auto simp: exception_vectors_def)
  have "fold (\<lambda>v. idt_set_gate v (isr v) 0x08 0x8E) ?vs (replicate 256 null_gate) ! v =
     (if v \<in> set ?vs then idt_gate_of (isr v) 0x08 0x8E else null_gate)"
    using assms vs by (subst fold_gates) auto
  then show ?thesis
    using assms by (simp add: idt_init_def Let_def idt_set_gate_def nth_list_update del: fold_append)
qed


definition boot_gdt :: gdt_state where
  "boot_gdt =
     \<lparr>gdt = replicate GDT_ENTRIES (gdt_entry_of 0 0 0 0), gp = \<lparr>gp_limit = 0, gp_base = 0\<rparr>,
      tss = \<lparr>prev_tss = 7, tss_esp0 = 1, tss_ss0 = 0, tss_esp1 = 0, tss_ss1 = 0, tss_esp2 = 0, tss_ss2 = 0,
        tss_cr3 = 0, tss_eip = 0, tss_eflags = 0, tss_eax = 0, tss_ecx = 0, tss_edx = 0, tss_ebx = 0,
        tss_esp = 0, tss_ebp = 0, tss_esi = 0, tss_edi = 0, tss_es = 0, tss_cs = 0, tss_ss = 0, tss_ds = 0,
        tss_fs = 0, tss_gs = 0, tss_ldt = 0, tss_trap = 0, tss_iomap_base = 0\<rparr>,
      gdtr = \<lparr>gp_limit = 0, gp_base = 0\<rparr>, code_seg = 0, data_segs = 0, task_reg = 0\<rparr>"


end
