(* ===== verification/Sros_Fmt.thy ===== *)
theory Sros_Fmt
  imports Sros_Machine
begin

unbundle bit_operations_syntax

text \<open>
  The formatting loop that \<open>fb_printf\<close> (\<open>src/drivers/framebuffer.c\<close>) and \<open>wm_printf\<close>
  (\<open>src/drivers/window.c\<close>) share but for two details: which letters print a decimal number, and the
  case of the hexadecimal digits. It fills a buffer of 256 bytes on the stack and tests the fill
  level once per format character, so that a store beyond the buffer is a branch of the model.
\<close>

section \<open>Numbers\<close>

text \<open>
  The loop \<open>while (n > 0)\<close> that collects the digits in \<open>tmp\<close>, lowest first; the base is the number of
  digits (for 16, \<open>n & 0xF\<close> and \<open>n >>= 4\<close>).
\<close>

function num_tmp :: "string \<Rightarrow> u32 \<Rightarrow> string" where
  "num_tmp digits n =
     (if 0 < n \<and> 2 \<le> length digits \<and> length digits \<le> 16
      then digits ! unat (n mod of_nat (length digits)) # num_tmp digits (n div of_nat (length digits)) else [])"
  by pat_completeness auto
termination
proof (relation "measure (\<lambda>(digits, n). unat n)")
  fix digits :: string and n :: u32
  assume a: "0 < n \<and> 2 \<le> length digits \<and> length digits \<le> 16"
  then have "unat (of_nat (length digits) :: u32) = length digits"
    by (simp add: unat_of_nat_u32)
  then show "((digits, n div of_nat (length digits)), digits, n) \<in> measure (\<lambda>(digits, n). unat n)"
    using a by (simp add: unat_div word_less_nat_alt)
qed simp

declare num_tmp.simps [simp del]

text \<open>The digits in the order they are stored, highest first.\<close>

definition fmt_num :: "string \<Rightarrow> u32 \<Rightarrow> string" where
  "fmt_num digits n = rev (if n = 0 then [CHR ''0''] else num_tmp digits n)"

definition dec_digits :: string where "dec_digits = ''0123456789''"
definition hex_upper :: string where "hex_upper = ''0123456789ABCDEF''"
definition hex_lower :: string where "hex_lower = ''0123456789abcdef''"

section \<open>The loop\<close>

text \<open>Stores at the end of the buffer.\<close>

definition buf_put :: "string \<Rightarrow> string \<Rightarrow> string kres" where
  "buf_put cs buf = (if length buf + length cs \<le> 256 then Inr (buf @ cs) else Inl Overrun)"

text \<open>
  A final \<open>%\<close> stores the terminator and moves the pointer beyond the format; like a conversion
  without its argument it reads memory outside the program's objects.
\<close>

fun fmt_loop :: "string \<Rightarrow> string \<Rightarrow> string \<Rightarrow> arg list \<Rightarrow> string \<Rightarrow> string kres" where
  "fmt_loop decs hex [] as buf = Inr buf"
| "fmt_loop decs hex [c] as buf =
     (if 255 \<le> length buf then Inr buf else if c = CHR ''%'' then Inl Overrun else buf_put [c] buf)"
| "fmt_loop decs hex (c # d # fs) as buf =
     (if 255 \<le> length buf then Inr buf
      else if c \<noteq> CHR ''%'' then bind_res (buf_put [c] buf) (fmt_loop decs hex (d # fs) as)
      else if d = CHR ''s'' then
        (case as of AStr t # as \<Rightarrow> fmt_loop decs hex fs as (buf @ take (255 - length buf) t) | _ \<Rightarrow> Inl Overrun)
      else if d \<in> set decs then
        (case as of AInt v # as \<Rightarrow> bind_res (buf_put (fmt_num dec_digits v) buf) (fmt_loop decs hex fs as) | _ \<Rightarrow> Inl Overrun)
      else if d = CHR ''x'' then
        (case as of AInt v # as \<Rightarrow> bind_res (buf_put (fmt_num hex v) buf) (fmt_loop decs hex fs as) | _ \<Rightarrow> Inl Overrun)
      else if d = CHR ''c'' then
        (case as of AInt v # as \<Rightarrow> bind_res (buf_put [char_of (unat v)] buf) (fmt_loop decs hex fs as) | _ \<Rightarrow> Inl Overrun)
      else if d = CHR ''%'' then bind_res (buf_put ''%'' buf) (fmt_loop decs hex fs as)
      else bind_res (buf_put [CHR ''%'', d] buf) (fmt_loop decs hex fs as))"

text \<open>The loop, the terminating \<open>buf[pos] = 0\<close>, and the text before the first NUL of the result.\<close>

definition fmt_text :: "string \<Rightarrow> string \<Rightarrow> string \<Rightarrow> arg list \<Rightarrow> u8 list kres" where
  "fmt_text decs hex fmt as =
     bind_res (fmt_loop decs hex fmt as []) (\<lambda>buf.
       if length buf \<le> 255 then Inr (map of_char (takeWhile (\<lambda>c. c \<noteq> CHR 0x00) buf)) else Inl Overrun)"

section \<open>What is printed\<close>

text \<open>The value of a numeral, and the text a format stands for.\<close>

definition digit_val :: "string \<Rightarrow> char \<Rightarrow> nat" where
  "digit_val digits c = (case find_first ((=) c) digits of Some i \<Rightarrow> i | None \<Rightarrow> 0)"

definition numeral_val :: "string \<Rightarrow> string \<Rightarrow> nat" where
  "numeral_val digits t = foldl (\<lambda>v c. v * length digits + digit_val digits c) 0 t"

fun fmt_expand :: "string \<Rightarrow> string \<Rightarrow> string \<Rightarrow> arg list \<Rightarrow> string option" where
  "fmt_expand decs hex [] as = Some []"
| "fmt_expand decs hex [c] as = (if c = CHR ''%'' then None else Some [c])"
| "fmt_expand decs hex (c # d # fs) as =
     (if c \<noteq> CHR ''%'' then map_option (Cons c) (fmt_expand decs hex (d # fs) as)
      else if d = CHR ''s'' then
        (case as of AStr t # as \<Rightarrow> map_option ((@) t) (fmt_expand decs hex fs as) | _ \<Rightarrow> None)
      else if d \<in> set decs then
        (case as of AInt v # as \<Rightarrow> map_option ((@) (fmt_num dec_digits v)) (fmt_expand decs hex fs as) | _ \<Rightarrow> None)
      else if d = CHR ''x'' then
        (case as of AInt v # as \<Rightarrow> map_option ((@) (fmt_num hex v)) (fmt_expand decs hex fs as) | _ \<Rightarrow> None)
      else if d = CHR ''c'' then
        (case as of AInt v # as \<Rightarrow> map_option (Cons (char_of (unat v))) (fmt_expand decs hex fs as) | _ \<Rightarrow> None)
      else if d = CHR ''%'' then map_option (Cons CHR ''%'') (fmt_expand decs hex fs as)
      else map_option ((@) [CHR ''%'', d]) (fmt_expand decs hex fs as))"

lemma digit_val_nth:
  assumes "distinct digits" "i < length digits"
  shows "digit_val digits (digits ! i) = i"
proof -
  have "find_first ((=) (digits ! i)) digits = Some i"
    using assms by (intro find_first_unique) (auto simp: nth_eq_iff_index_eq)
  then show ?thesis by (simp add: digit_val_def)
qed

lemma numeral_val_snoc: "numeral_val digits (t @ [c]) = numeral_val digits t * length digits + digit_val digits c"
  by (simp add: numeral_val_def)

lemma num_tmp_val:
  assumes "distinct digits" "2 \<le> length digits" "length digits \<le> 16"
  shows "numeral_val digits (rev (num_tmp digits n)) = unat n"
  using assms
proof (induction digits n rule: num_tmp.induct)
  case (1 digits n)
  have l: "unat (of_nat (length digits) :: u32) = length digits"
    using 1(4) by (simp add: unat_of_nat_u32)
  show ?case
  proof (cases "n = 0")
    case True
    then show ?thesis by (simp add: num_tmp.simps numeral_val_def)
  next
    case False
    let ?b = "of_nat (length digits) :: u32"
    have u: "unat (n mod ?b) = unat n mod length digits" "unat (n div ?b) = unat n div length digits"
      using l by (simp_all add: unat_mod unat_div)
    have lt: "unat n mod length digits < length digits" using 1(3) by (intro mod_less_divisor) linarith
    have "num_tmp digits n = digits ! (unat n mod length digits) # num_tmp digits (n div ?b)"
      using False 1(3,4) u(1) by (subst num_tmp.simps) (simp add: word_gt_0)
    then have "numeral_val digits (rev (num_tmp digits n)) =
        (unat n div length digits) * length digits + unat n mod length digits"
      using 1(1) False 1(2-4) u(2) digit_val_nth [OF 1(2) lt]
      by (simp add: numeral_val_snoc word_gt_0)
    then show ?thesis by simp
  qed
qed

lemma digit_tables [simp]:
  "distinct dec_digits" "length dec_digits = 10" "distinct hex_upper" "length hex_upper = 16"
  "distinct hex_lower" "length hex_lower = 16"
  by (simp_all add: dec_digits_def hex_upper_def hex_lower_def)

lemma fmt_num_val:
  assumes "distinct digits" "2 \<le> length digits" "length digits \<le> 16" "digits ! 0 = CHR ''0''"
  shows "numeral_val digits (fmt_num digits n) = unat n"
proof (cases "n = 0")
  case True
  have "digit_val digits CHR ''0'' = 0"
    using digit_val_nth [OF assms(1), of 0] assms(2,4) by (cases digits) auto
  then show ?thesis using True by (simp add: fmt_num_def numeral_val_def)
next
  case False
  then show ?thesis using num_tmp_val [OF assms(1-3)] by (simp add: fmt_num_def)
qed

lemma fmt_loop_expand:
  "fmt_expand decs hex fmt as = Some t \<Longrightarrow> length buf + length t \<le> 255 \<Longrightarrow>
   fmt_loop decs hex fmt as buf = Inr (buf @ t)"
proof (induction decs hex fmt as arbitrary: buf t rule: fmt_expand.induct)
  case (3 decs hex c d fs as)
  show ?case
  proof (cases "255 \<le> length buf")
    case True
    moreover from this 3(9) have "t = []" by (cases t) auto
    ultimately show ?thesis by simp
  next
    case False
    with 3 show ?thesis
      by (auto simp: buf_put_def split: if_splits list.splits arg.splits)
  qed
qed (auto simp: buf_put_def split: if_splits)

text \<open>
  A format whose expansion has at most 255 characters and no NUL is printed as exactly that
  expansion; in it, a number stands as the numeral that denotes it.
\<close>

theorem printf_text:
  assumes "fmt_expand decs hex fmt as = Some t" and "length t \<le> 255" and "CHR 0x00 \<notin> set t"
  shows "fmt_text decs hex fmt as = Inr (map of_char t) \<and>
    numeral_val dec_digits (fmt_num dec_digits n) = unat n \<and>
    numeral_val hex_upper (fmt_num hex_upper n) = unat n \<and> numeral_val hex_lower (fmt_num hex_lower n) = unat n"
proof -
  have "fmt_loop decs hex fmt as [] = Inr t"
    using fmt_loop_expand [OF assms(1), of "[]"] assms(2) by simp
  moreover have tw: "takeWhile (\<lambda>c. c \<noteq> CHR 0x00) t = t"
    using assms(3) by (auto simp: takeWhile_eq_all_conv)
  moreover have "dec_digits ! 0 = CHR ''0''" "hex_upper ! 0 = CHR ''0''" "hex_lower ! 0 = CHR ''0''"
    by (simp_all add: dec_digits_def hex_upper_def hex_lower_def)
  ultimately show ?thesis
    using assms(2) by (simp add: fmt_text_def fmt_num_val tw)
qed

theorem printf_text_witness:
  "fmt_text ''d'' hex_upper ''n=%d 0x%x'' [AInt 42, AInt 255] = Inr (map of_char ''n=42 0xFF'')"
proof -
  have t: "fmt_expand ''d'' hex_upper ''n=%d 0x%x'' [AInt 42, AInt 255] = Some ''n=42 0xFF''"
    by (simp add: fmt_num_def num_tmp.simps dec_digits_def hex_upper_def)
  show ?thesis
    using printf_text [OF t] by simp
qed

text \<open>
  C37. The test at the head of the loop does not keep a number inside the buffer: behind 254 characters
  of text, any number of three or more digits is stored beyond its end.
\<close>

theorem printf_overrun:
  assumes "length t = 254" and "100 \<le> n"
  shows "fmt_text ''d'' hex ''%s%d'' [AStr t, AInt n] = Inl Overrun"
proof -
  have d: "digit_val dec_digits c \<le> 9" for c
    using find_first_SomeD(1) [of "(=) c" dec_digits] by (fastforce simp: digit_val_def split: option.splits)
  have v: "numeral_val dec_digits (rev (num_tmp dec_digits n)) \<ge> 100"
    using assms(2) by (simp add: num_tmp_val word_le_nat_alt)
  have "3 \<le> length (num_tmp dec_digits n)"
  proof (rule ccontr)
    assume "\<not> 3 \<le> length (num_tmp dec_digits n)"
    then consider "num_tmp dec_digits n = []" | a where "num_tmp dec_digits n = [a]"
      | a b where "num_tmp dec_digits n = [a, b]"
      by (cases "num_tmp dec_digits n" rule: remdups_adj.cases) (auto simp: not_le)
    then show False
    proof cases
      case (3 a b)
      then show ?thesis using v d [of a] d [of b] by (simp add: numeral_val_def)
    next
      case (2 a)
      then show ?thesis using v d [of a] by (simp add: numeral_val_def)
    qed (use v in \<open>simp add: numeral_val_def\<close>)
  qed
  moreover have "n \<noteq> 0" using assms(2) by auto
  ultimately show ?thesis
    using assms(1) by (simp add: fmt_text_def fmt_num_def buf_put_def)
qed

theorem printf_overrun_witness:
  "fmt_text ''d'' hex_upper ''%s%d'' [AStr (replicate 254 CHR ''a''), AInt 100] = Inl Overrun"
  by (rule printf_overrun) simp_all

end
