(* ===== verification/Sros_Fb.thy ===== *)
theory Sros_Fb
  imports Sros_Font Sros_Mouse Sros_Paging Sros_Pci Sros_Fmt
begin

unbundle bit_operations_syntax

text \<open>
  The linear framebuffer of \<open>src/drivers/framebuffer.c\<close>: the Bochs VBE set-up, pixels, rectangles,
  characters, and the console on top of them. Video memory, and every other array of pixels the
  graphics code writes, is \<open>vram\<close>, a store of 32-bit words by address; a null pointer is address 0.
\<close>

section \<open>State\<close>

record framebuffer_t =
  fb_width :: u32
  fb_height :: u32
  fb_pitch :: u32
  fb_bpp :: u8
  fb_addr :: u32
  fb_phys_addr :: u32

record color_t =
  red :: u8
  green :: u8
  blue :: u8
  alpha :: u8

abbreviation rgb :: "u8 \<Rightarrow> u8 \<Rightarrow> u8 \<Rightarrow> color_t" where
  "rgb r g b \<equiv> \<lparr>red = r, green = g, blue = b, alpha = 0\<rparr>"

definition COLOR_BLACK :: color_t where "COLOR_BLACK = rgb 0 0 0"
definition COLOR_WHITE :: color_t where "COLOR_WHITE = rgb 255 255 255"

record gfx = mouse_state +
  fb :: framebuffer_t
  vram :: "u32 \<Rightarrow> u32"
  console_row :: int
  console_col :: int
  gfx_log :: "(string \<times> arg list) list"

definition glog :: "string \<Rightarrow> arg list \<Rightarrow> 'a gfx_scheme \<Rightarrow> 'a gfx_scheme" where
  "glog fmt as s = s\<lparr>gfx_log := gfx_log s @ [(fmt @ [LF], as)]\<rparr>"

section \<open>Bochs VBE\<close>

definition VBE_DISPI_IOPORT_INDEX :: u16 where "VBE_DISPI_IOPORT_INDEX = 0x01CE"
definition VBE_DISPI_IOPORT_DATA :: u16 where "VBE_DISPI_IOPORT_DATA = 0x01CF"
definition VBE_DISPI_INDEX_ID :: u16 where "VBE_DISPI_INDEX_ID = 0x00"
definition VBE_DISPI_INDEX_XRES :: u16 where "VBE_DISPI_INDEX_XRES = 0x01"
definition VBE_DISPI_INDEX_YRES :: u16 where "VBE_DISPI_INDEX_YRES = 0x02"
definition VBE_DISPI_INDEX_BPP :: u16 where "VBE_DISPI_INDEX_BPP = 0x03"
definition VBE_DISPI_INDEX_ENABLE :: u16 where "VBE_DISPI_INDEX_ENABLE = 0x04"
definition VBE_DISPI_INDEX_VIRT_WIDTH :: u16 where "VBE_DISPI_INDEX_VIRT_WIDTH = 0x06"
definition VBE_DISPI_INDEX_VIRT_HEIGHT :: u16 where "VBE_DISPI_INDEX_VIRT_HEIGHT = 0x07"
definition VBE_DISPI_DISABLED :: u16 where "VBE_DISPI_DISABLED = 0x00"
definition VBE_DISPI_ENABLED :: u16 where "VBE_DISPI_ENABLED = 0x01"
definition VBE_DISPI_LFB_ENABLED :: u16 where "VBE_DISPI_LFB_ENABLED = 0x40"
definition VBE_DISPI_ID_MIN :: u16 where "VBE_DISPI_ID_MIN = 0xB0C0"
definition VBE_DISPI_ID_MAX :: u16 where "VBE_DISPI_ID_MAX = 0xB0C5"
definition VBE_DISPI_LFB_PHYSICAL :: u32 where "VBE_DISPI_LFB_PHYSICAL = 0xE0000000"

text \<open>The file has its own copy of the configuration read.\<close>

definition fb_pci_config_read :: "device \<Rightarrow> u8 \<Rightarrow> u8 \<Rightarrow> u8 \<Rightarrow> u8 \<Rightarrow> 'a io_state_scheme \<Rightarrow> u32 \<times> 'a io_state_scheme" where
  "fb_pci_config_read hw b d f offset s =
     inl hw PCI_CONFIG_DATA (outl PCI_CONFIG_ADDRESS
       (0x80000000 OR push_bit 16 (ucast b) OR push_bit 11 (ucast d) OR push_bit 8 (ucast f) OR ucast (offset AND 0xFC)) s)"

text \<open>One device of the search: its linear framebuffer, when it is a VGA device that has one.\<close>

definition vga_lfb_at :: "device \<Rightarrow> nat \<Rightarrow> nat \<Rightarrow> 'a gfx_scheme \<Rightarrow> u32 option \<times> 'a gfx_scheme" where
  "vga_lfb_at hw b d s =
     (let (v, s) = fb_pci_config_read hw (of_nat b) (of_nat d) 0 0 s; vendor = ucast (v AND 0xFFFF) :: u16 in
      if vendor = 0xFFFF \<or> vendor = 0x0000 then (None, s)
      else (let (class_reg, s) = fb_pci_config_read hw (of_nat b) (of_nat d) 0 8 s in
        if drop_bit 24 class_reg AND 0xFF = 0x03 \<and> drop_bit 16 class_reg AND 0xFF = 0x00
        then (let (bar0, s) = fb_pci_config_read hw (of_nat b) (of_nat d) 0 0x10 s;
                  s = glog ''[pci] VGA device %d:%d BAR0=0x%x'' [AInt (of_nat b), AInt (of_nat d), AInt bar0] s;
                  lfb_addr = bar0 AND 0xFFFFFFF0
              in if lfb_addr \<noteq> 0 \<and> lfb_addr \<noteq> 0xFFFFFFF0 then (Some lfb_addr, s) else (None, s))
        else (None, s)))"

fun find_vga_lfb :: "device \<Rightarrow> (nat \<times> nat) list \<Rightarrow> 'a gfx_scheme \<Rightarrow> u32 \<times> 'a gfx_scheme" where
  "find_vga_lfb hw [] s = (0, s)"
| "find_vga_lfb hw ((b, d) # bds) s =
     (case vga_lfb_at hw b d s of (Some a, s) \<Rightarrow> (a, s) | (None, s) \<Rightarrow> find_vga_lfb hw bds s)"

definition pci_find_vga_lfb :: "device \<Rightarrow> 'a gfx_scheme \<Rightarrow> u32 \<times> 'a gfx_scheme" where
  "pci_find_vga_lfb hw s = find_vga_lfb hw (List.product [0..<256] [0..<32]) s"

definition vbe_write :: "u16 \<Rightarrow> u16 \<Rightarrow> 'a io_state_scheme \<Rightarrow> 'a io_state_scheme" where
  "vbe_write index v s = outw VBE_DISPI_IOPORT_DATA v (outw VBE_DISPI_IOPORT_INDEX index s)"

definition vbe_read :: "device \<Rightarrow> u16 \<Rightarrow> 'a io_state_scheme \<Rightarrow> u16 \<times> 'a io_state_scheme" where
  "vbe_read hw index s = inw hw VBE_DISPI_IOPORT_DATA (outw VBE_DISPI_IOPORT_INDEX index s)"

definition framebuffer_init :: "u32 \<Rightarrow> u32 \<Rightarrow> u32 \<Rightarrow> u32 \<Rightarrow> u8 \<Rightarrow> 'a gfx_scheme \<Rightarrow> 'a gfx_scheme" where
  "framebuffer_init phys_addr w h pitch bpp s =
     s\<lparr>fb := \<lparr>fb_width = w, fb_height = h, fb_pitch = pitch, fb_bpp = bpp, fb_addr = 0, fb_phys_addr = phys_addr\<rparr>\<rparr>"

definition vbe_init :: "device \<Rightarrow> u32 \<Rightarrow> u32 \<Rightarrow> u8 \<Rightarrow> 'a gfx_scheme \<Rightarrow> int \<times> 'a gfx_scheme" where
  "vbe_init hw w h bpp s =
     (let (vid, s) = vbe_read hw VBE_DISPI_INDEX_ID s in
      if vid < VBE_DISPI_ID_MIN \<or> VBE_DISPI_ID_MAX < vid
      then (-1, glog ''[vbe] not found (id=0x%x)'' [AInt (ucast vid)] s)
      else
       (let s = glog ''[vbe] found (id=0x%x), initializing %d x %d x %dbpp'' [AInt (ucast vid), AInt w, AInt h, AInt (ucast bpp)] s;
            s = vbe_write VBE_DISPI_INDEX_ENABLE VBE_DISPI_DISABLED s;
            s = vbe_write VBE_DISPI_INDEX_XRES (ucast w) s;
            s = vbe_write VBE_DISPI_INDEX_YRES (ucast h) s;
            s = vbe_write VBE_DISPI_INDEX_BPP (ucast bpp) s;
            s = vbe_write VBE_DISPI_INDEX_VIRT_WIDTH (ucast w) s;
            s = vbe_write VBE_DISPI_INDEX_VIRT_HEIGHT (ucast h) s;
            s = vbe_write VBE_DISPI_INDEX_ENABLE (VBE_DISPI_ENABLED OR VBE_DISPI_LFB_ENABLED) s;
            (xres, s) = vbe_read hw VBE_DISPI_INDEX_XRES s;
            (yres, s) = vbe_read hw VBE_DISPI_INDEX_YRES s;
            (bpp_actual, s) = vbe_read hw VBE_DISPI_INDEX_BPP s;
            s = glog ''[vbe] mode set: %dx%d %dbpp (actual: %dx%d %dbpp)''
                  [AInt w, AInt h, AInt (ucast bpp), AInt (ucast xres), AInt (ucast yres), AInt (ucast bpp_actual)] s
        in if xres = 0 \<or> yres = 0 then (-1, glog ''[vbe] mode set failed!'' [] s)
           else
            (let (lfb_phys, s) = pci_find_vga_lfb hw s;
                 (lfb_phys, s) = (if lfb_phys = 0
                   then (VBE_DISPI_LFB_PHYSICAL, glog ''[vbe] using default LFB address 0x%x'' [AInt VBE_DISPI_LFB_PHYSICAL] s)
                   else (lfb_phys, glog ''[vbe] using PCI BAR0 LFB address 0x%x'' [AInt lfb_phys] s));
                 s = framebuffer_init lfb_phys (ucast xres) (ucast yres) (ucast xres * ucast (bpp_actual div 8)) (ucast bpp_actual) s
             in (0, glog ''[vbe] LFB at 0x%x, pitch=%d'' [AInt lfb_phys, AInt (fb_pitch (fb s))] s))))"

text \<open>The page tables belong to the machine, so mapping works on both states.\<close>

definition framebuffer_map :: "'a gfx_scheme \<Rightarrow> 'b machine_scheme \<Rightarrow> ('a gfx_scheme \<times> 'b machine_scheme) kres" where
  "framebuffer_map s k =
     (if fb_addr (fb s) \<noteq> 0 then Inr (s, k)
      else
       (let fb_size = fb_pitch (fb s) * fb_height (fb s);
            fb_pages = (fb_size + 0xFFF) div 0x1000;
            virt_base = 0xF0000000;
            phys = fb_phys_addr (fb s)
        in bind_res (fold_res (\<lambda>i. paging_map_page (virt_base + of_nat i * 0x1000) (phys + of_nat i * 0x1000) 0x07)
                       [0..<unat fb_pages] k) (\<lambda>k.
           let s = s\<lparr>fb := (fb s)\<lparr>fb_addr := virt_base\<rparr>\<rparr>;
               s = glog ''[fb] mapped 0x%x -> 0x%x (%u pages)'' [AInt phys, AInt virt_base, AInt fb_pages] s;
               s = glog ''[fb] %dx%d %dbpp pitch=%d'' [AInt (fb_width (fb s)), AInt (fb_height (fb s)), AInt (ucast (fb_bpp (fb s))), AInt (fb_pitch (fb s))] s
           in Inr (s, k))))"

section \<open>Pixels\<close>

definition color_to_pixel :: "color_t \<Rightarrow> u32" where
  "color_to_pixel c = push_bit 16 (ucast (red c)) OR push_bit 8 (ucast (green c)) OR ucast (blue c)"

text \<open>The assignments \<open>fb.addr[i] = v\<close>, and the guarded form of them that most drawing loops contain.\<close>

definition poke :: "u32 \<Rightarrow> u32 \<Rightarrow> 'a gfx_scheme \<Rightarrow> 'a gfx_scheme" where
  "poke i v s = s\<lparr>vram := (vram s)(fb_addr (fb s) + 4 * i := v)\<rparr>"

definition plot :: "u32 \<Rightarrow> u32 \<Rightarrow> u32 \<Rightarrow> 'a gfx_scheme \<Rightarrow> 'a gfx_scheme" where
  "plot sx sy v s =
     (if sx < fb_width (fb s) \<and> sy < fb_height (fb s) then poke (sy * (fb_pitch (fb s) div 4) + sx) v s else s)"

definition fb_putpixel :: "u32 \<Rightarrow> u32 \<Rightarrow> color_t \<Rightarrow> 'a gfx_scheme \<Rightarrow> 'a gfx_scheme" where
  "fb_putpixel x y c s =
     (if fb_width (fb s) \<le> x \<or> fb_height (fb s) \<le> y then s
      else if fb_addr (fb s) = 0 then s
      else poke (y * (fb_pitch (fb s) div 4) + x) (color_to_pixel c) s)"

definition fb_fill_rect :: "u32 \<Rightarrow> u32 \<Rightarrow> u32 \<Rightarrow> u32 \<Rightarrow> color_t \<Rightarrow> 'a gfx_scheme \<Rightarrow> 'a gfx_scheme" where
  "fb_fill_rect x y w h c s =
     (if fb_addr (fb s) = 0 then s
      else if fb_width (fb s) \<le> x \<or> fb_height (fb s) \<le> y then s
      else
       (let w = (if fb_width (fb s) < x + w then fb_width (fb s) - x else w);
            h = (if fb_height (fb s) < y + h then fb_height (fb s) - y else h)
        in fold (\<lambda>(row, col). poke ((y + of_nat row) * (fb_pitch (fb s) div 4) + x + of_nat col) (color_to_pixel c))
             (List.product [0..<unat h] [0..<unat w]) s))"

definition fb_clear :: "color_t \<Rightarrow> 'a gfx_scheme \<Rightarrow> 'a gfx_scheme" where
  "fb_clear c s = fb_fill_rect 0 0 (fb_width (fb s)) (fb_height (fb s)) c s"

section \<open>Characters\<close>

text \<open>The glyph of a character code (a space for codes outside the font), and whether a pixel of it is set.\<close>

definition glyph :: "int \<Rightarrow> u8 list" where
  "glyph c = font_vga8x16 ! nat ((if c < FONT_FIRST_CHAR \<or> FONT_FIRST_CHAR + FONT_NUM_CHARS \<le> c then 0x20 else c) - FONT_FIRST_CHAR)"

definition glyph_bit :: "int \<Rightarrow> nat \<Rightarrow> nat \<Rightarrow> bool" where
  "glyph_bit c row col \<longleftrightarrow> (glyph c ! row) AND drop_bit col 0x80 \<noteq> 0"

definition glyph_cells :: "(nat \<times> nat) list" where
  "glyph_cells = List.product [0..<FONT_CHAR_HEIGHT] [0..<FONT_CHAR_WIDTH]"

definition fb_putchar :: "int \<Rightarrow> u32 \<Rightarrow> u32 \<Rightarrow> color_t \<Rightarrow> color_t \<Rightarrow> 'a gfx_scheme \<Rightarrow> 'a gfx_scheme" where
  "fb_putchar c x y fg bg s =
     (if fb_addr (fb s) = 0 then s
      else if fb_width (fb s) < x + of_nat FONT_CHAR_WIDTH then s
      else if fb_height (fb s) < y + of_nat FONT_CHAR_HEIGHT then s
      else fold (\<lambda>(row, col). poke ((y + of_nat row) * (fb_pitch (fb s) div 4) + (x + of_nat col))
                    (if glyph_bit c row col then color_to_pixel fg else color_to_pixel bg)) glyph_cells s)"

text \<open>Texts are the characters before the terminator; a character is signed.\<close>

fun fb_puts :: "u8 list \<Rightarrow> u32 \<Rightarrow> u32 \<Rightarrow> color_t \<Rightarrow> color_t \<Rightarrow> 'a gfx_scheme \<Rightarrow> 'a gfx_scheme" where
  "fb_puts [] x y fg bg s = s"
| "fb_puts (c # cs) x y fg bg s =
     (let s = fb_putchar (sint c) x y fg bg s;
          x = x + of_nat FONT_CHAR_WIDTH
      in if fb_width (fb s) < x + of_nat FONT_CHAR_WIDTH then s else fb_puts cs x y fg bg s)"

section \<open>The console\<close>

definition console_fg :: color_t where "console_fg = COLOR_WHITE"
definition console_bg :: color_t where "console_bg = COLOR_BLACK"

definition CONSOLE_COLS :: "'a gfx_scheme \<Rightarrow> u32" where
  "CONSOLE_COLS s = fb_width (fb s) div of_nat FONT_CHAR_WIDTH"

definition CONSOLE_ROWS :: "'a gfx_scheme \<Rightarrow> u32" where
  "CONSOLE_ROWS s = fb_height (fb s) div of_nat FONT_CHAR_HEIGHT"

text \<open>
  \<open>memcpy\<close> of whole words from the first up; the byte count of its only call is a multiple of 16.
\<close>

definition copy_words :: "u32 \<Rightarrow> u32 \<Rightarrow> nat \<Rightarrow> 'a gfx_scheme \<Rightarrow> 'a gfx_scheme" where
  "copy_words d p n s = fold (\<lambda>i s. s\<lparr>vram := (vram s)(d + 4 * of_nat i := vram s (p + 4 * of_nat i))\<rparr>) [0..<n] s"

definition fb_console_scroll :: "'a gfx_scheme \<Rightarrow> 'a gfx_scheme" where
  "fb_console_scroll s =
     (let pitch_dwords = fb_pitch (fb s) div 4;
          row_bytes = fb_pitch (fb s);
          total_rows = CONSOLE_ROWS s;
          line = of_nat FONT_CHAR_HEIGHT * pitch_dwords;
          s = fold (\<lambda>row s. copy_words (fb_addr (fb s) + 4 * ((of_nat row - 1) * line)) (fb_addr (fb s) + 4 * (of_nat row * line))
                      (unat (of_nat FONT_CHAR_HEIGHT * row_bytes) div 4) s) [1..<unat total_rows] s;
          total_cols = CONSOLE_COLS s * of_nat FONT_CHAR_WIDTH
      in fold (\<lambda>(row, col). poke ((total_rows - 1) * line + (of_nat row * pitch_dwords + of_nat col)) (color_to_pixel console_bg))
           (List.product [0..<FONT_CHAR_HEIGHT] [0..<unat total_cols]) s)"

definition fb_console_init :: "'a gfx_scheme \<Rightarrow> 'a gfx_scheme" where
  "fb_console_init s = (fb_clear console_bg s)\<lparr>console_row := 0, console_col := 0\<rparr>"

definition console_put :: "int \<Rightarrow> 'a gfx_scheme \<Rightarrow> 'a gfx_scheme" where
  "console_put c s = fb_putchar c (of_int (console_col s * int FONT_CHAR_WIDTH)) (of_int (console_row s * int FONT_CHAR_HEIGHT))
     console_fg console_bg s"

definition fb_console_putc :: "int \<Rightarrow> 'a gfx_scheme \<Rightarrow> 'a gfx_scheme" where
  "fb_console_putc c s =
     (let s = (if c = 0x08 then console_put 0x20 (if console_col s > 0 then s\<lparr>console_col := console_col s - 1\<rparr> else s)
               else if c = 0x0A then s\<lparr>console_col := 0, console_row := console_row s + 1\<rparr>
               else if c = 0x0D then s\<lparr>console_col := 0\<rparr>
               else if c = 0x09 then s\<lparr>console_col := (console_col s + 4) div 4 * 4\<rparr>
               else (let s = console_put c s in s\<lparr>console_col := console_col s + 1\<rparr>));
          max_col = CONSOLE_COLS s;
          max_row = CONSOLE_ROWS s;
          s = (if max_col \<le> of_int (console_col s) then s\<lparr>console_col := 0, console_row := console_row s + 1\<rparr> else s)
      in if max_row \<le> of_int (console_row s) then (fb_console_scroll s)\<lparr>console_row := sint (max_row - 1)\<rparr> else s)"

fun fb_console_puts :: "u8 list \<Rightarrow> 'a gfx_scheme \<Rightarrow> 'a gfx_scheme" where
  "fb_console_puts [] s = s"
| "fb_console_puts (c # cs) s = fb_console_puts cs (fb_console_putc (sint c) s)"

definition fb_printf :: "string \<Rightarrow> arg list \<Rightarrow> 'a gfx_scheme \<Rightarrow> 'a gfx_scheme kres" where
  "fb_printf fmt as s = bind_res (fmt_text ''d'' hex_upper fmt as) (\<lambda>buf. Inr (fb_console_puts buf s))"

section \<open>Stores and pixels\<close>

text \<open>The effect of a drawing loop as a list of stores, the last one to an address counting.\<close>

definition stores :: "(u32 \<times> u32) list \<Rightarrow> (u32 \<Rightarrow> u32) \<Rightarrow> u32 \<Rightarrow> u32" where
  "stores ps m = fold (\<lambda>(a, v) m. m(a := v)) ps m"

lemma stores_simps [simp]: "stores [] m = m" "stores ((a, v) # ps) m = stores ps (m(a := v))"
  by (simp_all add: stores_def)

lemma stores_append [simp]: "stores (ps @ qs) m = stores qs (stores ps m)"
  by (simp add: stores_def)

lemma stores_at: "stores ps m a = (case map_of (rev ps) a of None \<Rightarrow> m a | Some v \<Rightarrow> v)"
  by (induction ps rule: rev_induct) (auto simp: stores_def)

lemma stores_outside: "a \<notin> fst ` set ps \<Longrightarrow> stores ps m a = m a"
proof -
  assume "a \<notin> fst ` set ps"
  then have "map_of (rev ps) a = None" by (simp add: map_of_eq_None_iff)
  then show ?thesis by (simp add: stores_at)
qed

lemma stores_const:
  assumes "a \<in> fst ` set ps" and "\<forall>p \<in> set ps. fst p = a \<longrightarrow> snd p = v"
  shows "stores ps m a = v"
proof -
  have "map_of (rev ps) a \<noteq> None" using assms(1) by (simp add: map_of_eq_None_iff)
  then obtain w where w: "map_of (rev ps) a = Some w" by auto
  then have "(a, w) \<in> set ps" by (auto dest: map_of_SomeD)
  then show ?thesis using w assms(2) by (auto simp: stores_at)
qed

text \<open>Where the pixels of a well-formed framebuffer lie.\<close>

definition fb_ok :: "framebuffer_t \<Rightarrow> bool" where
  "fb_ok f \<longleftrightarrow> fb_addr f \<noteq> 0 \<and> unat (fb_width f) \<le> unat (fb_pitch f) div 4 \<and>
     unat (fb_height f) * unat (fb_pitch f) < 2 ^ 32 \<and> 0 < unat (fb_width f)"

definition px_addr :: "framebuffer_t \<Rightarrow> u32 \<Rightarrow> u32 \<Rightarrow> u32" where
  "px_addr f x y = fb_addr f + 4 * (y * (fb_pitch f div 4) + x)"

definition on_screen :: "framebuffer_t \<Rightarrow> u32 \<Rightarrow> u32 \<Rightarrow> bool" where
  "on_screen f x y \<longleftrightarrow> x < fb_width f \<and> y < fb_height f"

definition pixel :: "'a gfx_scheme \<Rightarrow> u32 \<Rightarrow> u32 \<Rightarrow> u32" where
  "pixel s x y = vram s (px_addr (fb s) x y)"

lemma px_index:
  assumes "fb_ok f" and "on_screen f x y"
  shows "unat (4 * (y * (fb_pitch f div 4) + x)) = 4 * (unat y * (unat (fb_pitch f) div 4) + unat x)"
    and "unat x < unat (fb_pitch f) div 4"
proof -
  let ?p = "unat (fb_pitch f) div 4"
  have x: "unat x < ?p" and y: "unat y + 1 \<le> unat (fb_height f)"
    using assms by (auto simp: fb_ok_def on_screen_def word_less_nat_alt)
  then show "unat x < ?p" by simp
  have "(unat y + 1) * ?p \<le> unat (fb_height f) * ?p" using y by (rule mult_le_mono1)
  then have "4 * (unat y * ?p + unat x) < 4 * (unat (fb_height f) * ?p)" using x by (simp add: algebra_simps)
  also have "\<dots> \<le> unat (fb_height f) * unat (fb_pitch f)"
    by (metis mult.left_commute mult_le_mono2 times_div_less_eq_dividend)
  also have "\<dots> < 4294967296" using assms(1) by (simp add: fb_ok_def)
  finally have b: "4 * (unat y * ?p + unat x) < 4294967296" .
  have "?p < 4294967296" using unat_u32_less [of "fb_pitch f"] by linarith
  then have "fb_pitch f div 4 = of_nat ?p" by (simp add: word_unat_eq_iff unat_div unat_of_nat_u32)
  then have "4 * (y * (fb_pitch f div 4) + x) = of_nat (4 * (unat y * ?p + unat x))" by simp
  then show "unat (4 * (y * (fb_pitch f div 4) + x)) = 4 * (unat y * ?p + unat x)"
    by (simp only: unat_of_nat_u32 [OF b])
qed

lemma px_addr_inj:
  assumes "fb_ok f" "on_screen f x y" "on_screen f x' y'"
  shows "px_addr f x y = px_addr f x' y' \<longleftrightarrow> x = x' \<and> y = y'"
proof
  assume "px_addr f x y = px_addr f x' y'"
  then have "4 * (y * (fb_pitch f div 4) + x) = 4 * (y' * (fb_pitch f div 4) + x')" by (simp add: px_addr_def)
  then have "unat y * (unat (fb_pitch f) div 4) + unat x = unat y' * (unat (fb_pitch f) div 4) + unat x'"
    using px_index(1) [OF assms(1,2)] px_index(1) [OF assms(1,3)] by simp
  from row_col_unique [OF this px_index(2) [OF assms(1,2)] px_index(2) [OF assms(1,3)]]
  show "x = x' \<and> y = y'" by (simp add: word_unat_eq_iff)
qed simp

lemma fold_poke:
  "fold (\<lambda>p. poke (i p) (v p)) ps s = s\<lparr>vram := stores (map (\<lambda>p. (fb_addr (fb s) + 4 * i p, v p)) ps) (vram s)\<rparr>"
  by (induction ps arbitrary: s) (simp_all add: poke_def)

lemma fold_plot:
  "fold (\<lambda>p. plot (x p) (y p) (v p)) ps s =
     s\<lparr>vram := stores (map (\<lambda>p. (px_addr (fb s) (x p) (y p), v p)) (filter (\<lambda>p. on_screen (fb s) (x p) (y p)) ps)) (vram s)\<rparr>"
  by (induction ps arbitrary: s) (simp_all add: plot_def poke_def px_addr_def on_screen_def)

text \<open>Filling a rectangle, clipped at the right and the lower edge of the screen.\<close>

definition in_rect :: "u32 \<Rightarrow> u32 \<Rightarrow> u32 \<Rightarrow> u32 \<Rightarrow> u32 \<Rightarrow> u32 \<Rightarrow> bool" where
  "in_rect x y w h px py \<longleftrightarrow> unat x \<le> unat px \<and> unat px < unat x + unat w \<and> unat y \<le> unat py \<and> unat py < unat y + unat h"

lemma clip_side:
  fixes x w lim :: u32
  assumes "x < lim" "unat x + unat w < 2 ^ 32"
  shows "unat (if lim < x + w then lim - x else w) = min (unat w) (unat lim - unat x)"
proof -
  have "unat (x + w) = unat x + unat w" using assms(2) by (simp add: unat_word_ariths)
  then show ?thesis
    using assms(1) by (auto simp: word_less_nat_alt unat_sub_if' min_def)
qed

lemma of_nat_in_range:
  fixes x px :: u32
  assumes "unat x + n < 2 ^ 32"
  shows "(\<exists>i<n. px = x + of_nat i) \<longleftrightarrow> unat x \<le> unat px \<and> unat px < unat x + n"
proof
  assume "\<exists>i<n. px = x + of_nat i"
  then obtain i where i: "i < n" "px = x + of_nat i" by auto
  then have "unat px = unat x + i" using assms by (simp add: unat_word_ariths unat_of_nat_u32)
  then show "unat x \<le> unat px \<and> unat px < unat x + n" using i by simp
next
  assume a: "unat x \<le> unat px \<and> unat px < unat x + n"
  then have "px = x + of_nat (unat px - unat x)" by (simp add: of_nat_diff)
  then show "\<exists>i<n. px = x + of_nat i" using a by (intro exI [of _ "unat px - unat x"]) auto
qed

lemma fb_fill_rect_stores:
  assumes "fb_addr (fb s) \<noteq> 0" "on_screen (fb s) x y" "unat x + unat w < 2 ^ 32" "unat y + unat h < 2 ^ 32"
  defines "ps \<equiv> List.product [0..<min (unat h) (unat (fb_height (fb s)) - unat y)] [0..<min (unat w) (unat (fb_width (fb s)) - unat x)]"
  shows "fb_fill_rect x y w h c s =
    s\<lparr>vram := stores (map (\<lambda>(row, col). (px_addr (fb s) (x + of_nat col) (y + of_nat row), color_to_pixel c)) ps) (vram s)\<rparr>"
proof -
  have "fb_fill_rect x y w h c s =
      fold (\<lambda>p. poke ((y + of_nat (fst p)) * (fb_pitch (fb s) div 4) + (x + of_nat (snd p))) (color_to_pixel c)) ps s"
    using assms(1,2) clip_side [OF _ assms(3), of "fb_width (fb s)"] clip_side [OF _ assms(4), of "fb_height (fb s)"]
    by (simp add: fb_fill_rect_def on_screen_def ps_def Let_def split_beta' add.assoc flip: linorder_not_less)
  then show ?thesis by (simp add: fold_poke px_addr_def split_beta')
qed

text \<open>
  \<open>fb_fill_rect\<close> paints exactly the part of the rectangle that is on the screen: every pixel of
  the screen inside the rectangle has the colour, every other word of memory keeps its value.
\<close>

theorem fb_fill_rect_exact:
  assumes "fb_ok (fb s)" and "unat x + unat w < 2 ^ 32" and "unat y + unat h < 2 ^ 32"
  shows "vram (fb_fill_rect x y w h c s) a =
    (if \<exists>px py. on_screen (fb s) px py \<and> in_rect x y w h px py \<and> a = px_addr (fb s) px py
     then color_to_pixel c else vram s a)"
proof (cases "on_screen (fb s) x y")
  case False
  then have "\<not> (on_screen (fb s) px py \<and> in_rect x y w h px py)" for px py
    by (auto simp: on_screen_def in_rect_def word_less_nat_alt)
  moreover have "fb_fill_rect x y w h c s = s"
    using False by (auto simp: fb_fill_rect_def on_screen_def not_less)
  ultimately show ?thesis by auto
next
  case True
  let ?w = "min (unat w) (unat (fb_width (fb s)) - unat x)" and ?h = "min (unat h) (unat (fb_height (fb s)) - unat y)"
  let ?ps = "map (\<lambda>(row, col). (px_addr (fb s) (x + of_nat col) (y + of_nat row), color_to_pixel c)) (List.product [0..<?h] [0..<?w])"
  have e: "vram (fb_fill_rect x y w h c s) = stores ?ps (vram s)"
    using fb_fill_rect_stores [OF _ True assms(2,3)] assms(1) by (simp add: fb_ok_def)
  have r: "on_screen (fb s) px py \<and> in_rect x y w h px py \<longleftrightarrow> (\<exists>i<?w. px = x + of_nat i) \<and> (\<exists>j<?h. py = y + of_nat j)" for px py
    using of_nat_in_range [of x ?w px] of_nat_in_range [of y ?h py] assms(2,3) True
    by (auto simp: on_screen_def in_rect_def word_less_nat_alt)
  have "a \<in> fst ` set ?ps \<longleftrightarrow> (\<exists>px py. on_screen (fb s) px py \<and> in_rect x y w h px py \<and> a = px_addr (fb s) px py)"
    unfolding r conj_assoc [symmetric] by force
  then show ?thesis
    unfolding e using stores_const [of a ?ps "color_to_pixel c" "vram s"] stores_outside [of a ?ps "vram s"] by auto
qed

text \<open>A screen of 40 by 32 pixels for the examples.\<close>

definition demo_fb_info :: framebuffer_t where
  "demo_fb_info = \<lparr>fb_width = 40, fb_height = 32, fb_pitch = 160, fb_bpp = 32, fb_addr = 0xF0000000, fb_phys_addr = 0xE0000000\<rparr>"

definition demo_gfx :: gfx where
  "demo_gfx = \<lparr>io_trace = [], mouse_buffer = replicate 64 \<lparr>buttons = 0, dx = 0, dy = 0\<rparr>, mouse_buf_head = 0, mouse_buf_tail = 0,
     mouse_cycle = 0, mouse_packet = [0, 0, 0], fb = demo_fb_info, vram = (\<lambda>a. 0), console_row = 0, console_col = 0, gfx_log = []\<rparr>"

lemma demo_fb_ok: "fb_ok demo_fb_info"
  by (simp add: fb_ok_def demo_fb_info_def)

theorem fb_fill_rect_exact_witness:
  "vram (fb_fill_rect 38 30 10 10 COLOR_WHITE demo_gfx) (px_addr demo_fb_info 39 31) = 0xFFFFFF"
proof -
  have "on_screen demo_fb_info 39 31" "in_rect 38 30 10 10 39 31"
    by (simp_all add: on_screen_def demo_fb_info_def in_rect_def)
  moreover have "color_to_pixel COLOR_WHITE = 0xFFFFFF" by (simp add: color_to_pixel_def COLOR_WHITE_def)
  moreover have "fb demo_gfx = demo_fb_info" by (simp add: demo_gfx_def)
  ultimately show ?thesis
    using fb_fill_rect_exact [of demo_gfx 38 10 30 10 COLOR_WHITE "px_addr demo_fb_info 39 31"] demo_fb_ok by auto
qed

end
