(* ===== verification/Sros_Cursor.thy ===== *)
theory Sros_Cursor
  imports Sros_Fb
begin

unbundle bit_operations_syntax

text \<open>
  The mouse pointer of \<open>src/drivers/cursor.c\<close>: a 16 by 16 sprite drawn over the framebuffer, with the
  pixels it covers kept aside. The lemmas show that the screen without the pointer is not changed by
  moving it about.
\<close>

section \<open>State\<close>

definition CURSOR_WIDTH :: nat where "CURSOR_WIDTH = 16"
definition CURSOR_HEIGHT :: nat where "CURSOR_HEIGHT = 16"

record cursor_t =
  cur_x :: int
  cur_y :: int
  old_x :: int
  old_y :: int
  cur_visible :: bool
  saved_bg :: "nat \<times> nat \<Rightarrow> u32"

record desk = gfx +
  g_cursor :: cursor_t

definition s_cursor_sprite :: "nat list list" where
  "s_cursor_sprite =
    [[1, 0, 0, 0, 0, 0, 0, 0, 0, 0, 0, 0, 0, 0, 0, 0],
     [1, 1, 0, 0, 0, 0, 0, 0, 0, 0, 0, 0, 0, 0, 0, 0],
     [1, 2, 1, 0, 0, 0, 0, 0, 0, 0, 0, 0, 0, 0, 0, 0],
     [1, 2, 2, 1, 0, 0, 0, 0, 0, 0, 0, 0, 0, 0, 0, 0],
     [1, 2, 2, 2, 1, 0, 0, 0, 0, 0, 0, 0, 0, 0, 0, 0],
     [1, 2, 2, 2, 2, 1, 0, 0, 0, 0, 0, 0, 0, 0, 0, 0],
     [1, 2, 2, 2, 2, 2, 1, 0, 0, 0, 0, 0, 0, 0, 0, 0],
     [1, 2, 2, 2, 2, 2, 2, 1, 0, 0, 0, 0, 0, 0, 0, 0],
     [1, 2, 2, 2, 2, 2, 2, 2, 1, 0, 0, 0, 0, 0, 0, 0],
     [1, 2, 2, 2, 2, 2, 2, 2, 2, 1, 0, 0, 0, 0, 0, 0],
     [1, 2, 2, 2, 2, 2, 2, 2, 2, 2, 1, 0, 0, 0, 0, 0],
     [1, 2, 2, 2, 2, 2, 2, 2, 2, 2, 2, 1, 0, 0, 0, 0],
     [1, 1, 1, 1, 1, 1, 1, 1, 1, 1, 1, 1, 1, 0, 0, 0],
     [0, 0, 0, 0, 0, 0, 0, 0, 0, 0, 0, 0, 0, 0, 0, 0],
     [0, 0, 0, 0, 0, 0, 0, 0, 0, 0, 0, 0, 0, 0, 0, 0],
     [0, 0, 0, 0, 0, 0, 0, 0, 0, 0, 0, 0, 0, 0, 0, 0]]"

definition s_cursor_black :: color_t where "s_cursor_black = rgb 0 0 0"
definition s_cursor_white :: color_t where "s_cursor_white = rgb 255 255 255"

abbreviation upd_cursor :: "(cursor_t \<Rightarrow> cursor_t) \<Rightarrow> 'a desk_scheme \<Rightarrow> 'a desk_scheme" where
  "upd_cursor f s \<equiv> s\<lparr>g_cursor := f (g_cursor s)\<rparr>"

text \<open>The cells of the sprite in the order of the loops, and the screen column and row of a cell.\<close>

definition cursor_cells :: "(nat \<times> nat) list" where
  "cursor_cells = List.product [0..<CURSOR_HEIGHT] [0..<CURSOR_WIDTH]"

abbreviation cell_x :: "int \<Rightarrow> nat \<times> nat \<Rightarrow> u32" where "cell_x x p \<equiv> of_int x + of_nat (snd p)"
abbreviation cell_y :: "int \<Rightarrow> nat \<times> nat \<Rightarrow> u32" where "cell_y y p \<equiv> of_int y + of_nat (fst p)"

section \<open>Drawing\<close>

definition clamp_position :: "framebuffer_t \<Rightarrow> int \<Rightarrow> int \<Rightarrow> int \<times> int" where
  "clamp_position f x y =
     (let x = (if x < 0 then 0 else x);
          y = (if y < 0 then 0 else y);
          x = (if x + int CURSOR_WIDTH > sint (fb_width f) then sint (fb_width f) - int CURSOR_WIDTH else x);
          y = (if y + int CURSOR_HEIGHT > sint (fb_height f) then sint (fb_height f) - int CURSOR_HEIGHT else y)
      in (x, y))"

definition save_cell :: "nat \<times> nat \<Rightarrow> 'a desk_scheme \<Rightarrow> 'a desk_scheme" where
  "save_cell p s =
     (let sx = cell_x (cur_x (g_cursor s)) p; sy = cell_y (cur_y (g_cursor s)) p in
      if sx < fb_width (fb s) \<and> sy < fb_height (fb s)
      then upd_cursor (\<lambda>c. c\<lparr>saved_bg := (saved_bg c)(p := vram s (fb_addr (fb s) + 4 * (sy * (fb_pitch (fb s) div 4) + sx)))\<rparr>) s
      else s)"

definition save_background :: "'a desk_scheme \<Rightarrow> 'a desk_scheme" where
  "save_background s = (if fb_addr (fb s) = 0 then s else fold save_cell cursor_cells s)"

definition restore_background :: "'a desk_scheme \<Rightarrow> 'a desk_scheme" where
  "restore_background s =
     (if fb_addr (fb s) = 0 then s
      else (let c = g_cursor s in
        fold (\<lambda>p. plot (cell_x (old_x c) p) (cell_y (old_y c) p) (saved_bg c p)) cursor_cells s))"

definition draw_cursor :: "'a desk_scheme \<Rightarrow> 'a desk_scheme" where
  "draw_cursor s =
     (if fb_addr (fb s) = 0 then s
      else (let c = g_cursor s in
        fold (\<lambda>p. plot (cell_x (cur_x c) p) (cell_y (cur_y c) p)
                   (if s_cursor_sprite ! fst p ! snd p = 1 then color_to_pixel s_cursor_black else color_to_pixel s_cursor_white))
          (filter (\<lambda>p. s_cursor_sprite ! fst p ! snd p \<noteq> 0) cursor_cells) s))"

section \<open>Interface\<close>

definition cursor_init :: "'a desk_scheme \<Rightarrow> 'a desk_scheme" where
  "cursor_init s =
     (let x = sint (fb_width (fb s) div 2);
          y = sint (fb_height (fb s) div 2);
          s = upd_cursor (\<lambda>c. c\<lparr>cur_x := x, cur_y := y, old_x := x, old_y := y, cur_visible := True\<rparr>) s;
          (x, y) = clamp_position (fb s) (cur_x (g_cursor s)) (cur_y (g_cursor s));
          s = upd_cursor (\<lambda>c. c\<lparr>cur_x := x, cur_y := y, old_x := x, old_y := y\<rparr>) s;
          s = (if fb_addr (fb s) \<noteq> 0 then draw_cursor (save_background s) else s)
      in glog ''[cursor] initialized at (%d, %d)'' [AI (cur_x (g_cursor s)), AI (cur_y (g_cursor s))] s)"

definition cursor_show :: "'a desk_scheme \<Rightarrow> 'a desk_scheme" where
  "cursor_show s =
     (if cur_visible (g_cursor s) then s
      else draw_cursor (save_background (upd_cursor (\<lambda>c. c\<lparr>cur_visible := True\<rparr>) s)))"

definition cursor_hide :: "'a desk_scheme \<Rightarrow> 'a desk_scheme" where
  "cursor_hide s =
     (if \<not> cur_visible (g_cursor s) then s
      else restore_background (upd_cursor (\<lambda>c. c\<lparr>cur_visible := False\<rparr>) s))"

definition cursor_move :: "int \<Rightarrow> int \<Rightarrow> 'a desk_scheme \<Rightarrow> 'a desk_scheme" where
  "cursor_move delx dely s =
     (if \<not> cur_visible (g_cursor s) \<or> fb_addr (fb s) = 0 then s
      else
       (let s = upd_cursor (\<lambda>c. c\<lparr>old_x := cur_x c, old_y := cur_y c\<rparr>) s;
            (x, y) = clamp_position (fb s) (cur_x (g_cursor s) + delx) (cur_y (g_cursor s) + dely);
            s = upd_cursor (\<lambda>c. c\<lparr>cur_x := x, cur_y := y\<rparr>) s
        in if cur_x (g_cursor s) = old_x (g_cursor s) \<and> cur_y (g_cursor s) = old_y (g_cursor s) then s
           else draw_cursor (save_background (restore_background s))))"

text \<open>The loop ends when the event buffer is empty; \<open>None\<close> if it never is.\<close>

partial_function (option) cursor_poll_mouse :: "'a desk_scheme \<Rightarrow> 'a desk_scheme option" where
  "cursor_poll_mouse s =
     (case mouse_read s of
        (None, s) \<Rightarrow> Some s
      | (Some ev, s) \<Rightarrow> cursor_poll_mouse (cursor_move (sint (dx ev)) (- sint (dy ev)) s))"

definition cursor_redraw :: "'a desk_scheme \<Rightarrow> 'a desk_scheme" where
  "cursor_redraw s =
     (if \<not> cur_visible (g_cursor s) \<or> fb_addr (fb s) = 0 then s else draw_cursor (save_background s))"

definition cursor_remove :: "'a desk_scheme \<Rightarrow> 'a desk_scheme" where
  "cursor_remove s =
     (if fb_addr (fb s) = 0 \<or> \<not> cur_visible (g_cursor s) then s
      else (let c = g_cursor s in
        fold (\<lambda>p. plot (cell_x (cur_x c) p) (cell_y (cur_y c) p) (saved_bg c p)) cursor_cells s))"

definition cursor_restore :: "'a desk_scheme \<Rightarrow> 'a desk_scheme" where
  "cursor_restore s =
     (if fb_addr (fb s) = 0 \<or> \<not> cur_visible (g_cursor s) then s
      else draw_cursor (save_background (upd_cursor (\<lambda>c. c\<lparr>old_x := cur_x c, old_y := cur_y c\<rparr>) s)))"

section \<open>The screen below the pointer\<close>

definition cell_on :: "framebuffer_t \<Rightarrow> int \<Rightarrow> int \<Rightarrow> nat \<times> nat \<Rightarrow> bool" where
  "cell_on f x y p \<longleftrightarrow> on_screen f (cell_x x p) (cell_y y p)"

definition cell_addr :: "framebuffer_t \<Rightarrow> int \<Rightarrow> int \<Rightarrow> nat \<times> nat \<Rightarrow> u32" where
  "cell_addr f x y p = px_addr f (cell_x x p) (cell_y y p)"

lemma plot_cells:
  "fold (\<lambda>p. plot (cell_x x p) (cell_y y p) (v p)) ps s =
     s\<lparr>vram := stores (map (\<lambda>p. (cell_addr (fb s) x y p, v p)) (filter (cell_on (fb s) x y) ps)) (vram s)\<rparr>"
  unfolding fold_plot cell_addr_def cell_on_def ..

lemma saved_same [simp]: "c\<lparr>saved_bg := saved_bg c\<rparr> = c"
  by (cases c) simp

lemma cursor_same [simp]: "s\<lparr>g_cursor := g_cursor s\<rparr> = (s :: 'a desk_scheme)"
  by (cases s) simp

definition saved_at :: "'a desk_scheme \<Rightarrow> (nat \<times> nat) list \<Rightarrow> nat \<times> nat \<Rightarrow> u32" where
  "saved_at s ps = (\<lambda>p. if p \<in> set ps \<and> cell_on (fb s) (cur_x (g_cursor s)) (cur_y (g_cursor s)) p
     then vram s (cell_addr (fb s) (cur_x (g_cursor s)) (cur_y (g_cursor s)) p) else saved_bg (g_cursor s) p)"

lemma save_cell_eq: "save_cell q s = upd_cursor (\<lambda>c. c\<lparr>saved_bg := saved_at s [q]\<rparr>) s"
proof (cases "cell_on (fb s) (cur_x (g_cursor s)) (cur_y (g_cursor s)) q")
  case True
  then have "saved_at s [q] = (saved_bg (g_cursor s))(q := vram s (cell_addr (fb s) (cur_x (g_cursor s)) (cur_y (g_cursor s)) q))"
    by (auto simp: saved_at_def)
  then show ?thesis
    using True by (simp add: save_cell_def cell_on_def on_screen_def cell_addr_def px_addr_def Let_def)
next
  case False
  then have "saved_at s [q] = saved_bg (g_cursor s)" by (auto simp: saved_at_def)
  then show ?thesis
    using False by (auto simp: save_cell_def cell_on_def on_screen_def Let_def)
qed

lemma save_cells: "fold save_cell ps s = upd_cursor (\<lambda>c. c\<lparr>saved_bg := saved_at s ps\<rparr>) s"
proof (induction ps arbitrary: s)
  case Nil
  have "saved_at s [] = saved_bg (g_cursor s)" by (simp add: saved_at_def)
  then show ?case by simp
next
  case (Cons q ps)
  have "saved_at (upd_cursor (\<lambda>c. c\<lparr>saved_bg := saved_at s [q]\<rparr>) s) ps = saved_at s (q # ps)"
    by (auto simp: saved_at_def)
  then show ?case by (simp add: Cons.IH save_cell_eq [of q])
qed

text \<open>Storing at some addresses the values another memory has there.\<close>

lemma stores_from:
  assumes "\<forall>p \<in> set ps. snd p = m0 (fst p)"
  shows "stores ps m a = (if a \<in> fst ` set ps then m0 a else m a)"
  using assms stores_const [of a ps "m0 a" m] stores_outside [of a ps m] by auto

definition beneath :: "'a desk_scheme \<Rightarrow> u32 \<Rightarrow> u32" where
  "beneath s = vram (cursor_remove s)"

lemma beneath_visible:
  assumes "fb_addr (fb s) \<noteq> 0" "cur_visible (g_cursor s)"
  shows "beneath s = stores (map (\<lambda>p. (cell_addr (fb s) (cur_x (g_cursor s)) (cur_y (g_cursor s)) p, saved_bg (g_cursor s) p))
    (filter (cell_on (fb s) (cur_x (g_cursor s)) (cur_y (g_cursor s))) cursor_cells)) (vram s)"
  using assms by (simp add: beneath_def cursor_remove_def Let_def plot_cells)

lemma draw_fields [simp]: "fb (draw_cursor s) = fb s" "g_cursor (draw_cursor s) = g_cursor s"
  by (simp_all add: draw_cursor_def Let_def plot_cells)

lemma save_fields [simp]:
  "fb (save_background s) = fb s" "vram (save_background s) = vram s"
  "cur_x (g_cursor (save_background s)) = cur_x (g_cursor s)"
  "cur_y (g_cursor (save_background s)) = cur_y (g_cursor s)"
  "cur_visible (g_cursor (save_background s)) = cur_visible (g_cursor s)"
  by (simp_all add: save_background_def save_cells)

lemma beneath_drawn:
  assumes "fb_addr (fb s) \<noteq> 0" "cur_visible (g_cursor s)"
  shows "beneath (draw_cursor (save_background s)) = vram s"
proof
  fix a
  let ?x = "cur_x (g_cursor s)" and ?y = "cur_y (g_cursor s)"
  let ?t = "save_background s"
  let ?on = "filter (cell_on (fb s) ?x ?y) cursor_cells"
  have t: "?t = s\<lparr>g_cursor := (g_cursor s)\<lparr>saved_bg := saved_at s cursor_cells\<rparr>\<rparr>"
    using assms(1) by (simp add: save_background_def save_cells)
  have d: "vram (draw_cursor ?t) a = vram s a" if "a \<notin> cell_addr (fb s) ?x ?y ` set ?on"
    using that assms(1) by (subst draw_cursor_def) (auto simp: t Let_def plot_cells intro!: stores_outside)
  have "beneath (draw_cursor ?t) a = stores (map (\<lambda>p. (cell_addr (fb s) ?x ?y p, saved_bg (g_cursor ?t) p)) ?on) (vram (draw_cursor ?t)) a"
    using assms by (subst beneath_visible) simp_all
  also have "\<dots> = (if a \<in> fst ` set (map (\<lambda>p. (cell_addr (fb s) ?x ?y p, saved_bg (g_cursor ?t) p)) ?on) then vram s a else vram (draw_cursor ?t) a)"
    by (rule stores_from) (simp add: t saved_at_def)
  also have "\<dots> = vram s a"
    using d by (auto simp: image_image)
  finally show "beneath (draw_cursor ?t) a = vram s a" .
qed

lemma cursor_move_fields:
  assumes "fb_addr (fb s) \<noteq> 0" "cur_visible (g_cursor s)"
  shows "beneath (cursor_move delx dely s) = beneath s" and "fb (cursor_move delx dely s) = fb s"
    and "cur_visible (g_cursor (cursor_move delx dely s))"
    and "(cur_x (g_cursor (cursor_move delx dely s)), cur_y (g_cursor (cursor_move delx dely s)))
      = clamp_position (fb s) (cur_x (g_cursor s) + delx) (cur_y (g_cursor s) + dely)"
proof -
  obtain x y where xy: "clamp_position (fb s) (cur_x (g_cursor s) + delx) (cur_y (g_cursor s) + dely) = (x, y)"
    by fastforce
  define t where "t = s\<lparr>g_cursor := (g_cursor s)\<lparr>old_x := cur_x (g_cursor s), old_y := cur_y (g_cursor s), cur_x := x, cur_y := y\<rparr>\<rparr>"
  have m: "cursor_move delx dely s =
      (if x = cur_x (g_cursor s) \<and> y = cur_y (g_cursor s) then t else draw_cursor (save_background (restore_background t)))"
    using assms xy by (simp add: cursor_move_def Let_def t_def)
  have r: "restore_background t = t\<lparr>vram := beneath s\<rparr>"
    using assms by (simp add: restore_background_def t_def Let_def plot_cells beneath_visible)
  have "beneath t = beneath s" if "x = cur_x (g_cursor s)" "y = cur_y (g_cursor s)"
    using assms that by (simp add: beneath_visible t_def)
  moreover have "beneath (draw_cursor (save_background (restore_background t))) = beneath s"
    unfolding r using assms by (subst beneath_drawn) (simp_all add: t_def)
  ultimately show "beneath (cursor_move delx dely s) = beneath s"
    by (simp add: m)
  show "fb (cursor_move delx dely s) = fb s" "cur_visible (g_cursor (cursor_move delx dely s))"
    using assms by (simp_all add: m r) (simp_all add: t_def)
  show "(cur_x (g_cursor (cursor_move delx dely s)), cur_y (g_cursor (cursor_move delx dely s)))
      = clamp_position (fb s) (cur_x (g_cursor s) + delx) (cur_y (g_cursor s) + dely)"
    unfolding xy by (simp add: m r) (simp add: t_def)
qed

lemma cursor_mouse [simp]:
  "mouse_inv (cursor_move delx dely s) = mouse_inv s" "mouse_queue (cursor_move delx dely s) = mouse_queue s"
  by (simp_all add: cursor_move_def restore_background_def save_background_def draw_cursor_def save_cells plot_cells
      mouse_inv_def mouse_queue_def Let_def split_beta)

lemma mouse_read_cursor [simp]:
  "fb (snd (mouse_read s)) = fb s" "vram (snd (mouse_read s)) = vram s" "g_cursor (snd (mouse_read s)) = g_cursor s"
  by (simp_all add: mouse_read_def)

lemma beneath_cong:
  assumes "fb s = fb t" "vram s = vram t" "g_cursor s = g_cursor t"
  shows "beneath s = beneath t"
  using assms by (simp add: beneath_def cursor_remove_def Let_def plot_cells)

text \<open>The position after a list of mouse events, and the pointer kept inside the screen.\<close>

definition moved_to :: "framebuffer_t \<Rightarrow> mouse_event_t list \<Rightarrow> int \<times> int \<Rightarrow> int \<times> int" where
  "moved_to f evs = fold (\<lambda>ev (x, y). clamp_position f (x + sint (dx ev)) (y - sint (dy ev))) evs"

definition inside :: "framebuffer_t \<Rightarrow> int \<times> int \<Rightarrow> bool" where
  "inside f = (\<lambda>(x, y). 0 \<le> x \<and> x + 16 \<le> sint (fb_width f) \<and> 0 \<le> y \<and> y + 16 \<le> sint (fb_height f))"

lemma clamp_inside:
  assumes "16 \<le> sint (fb_width f)" "16 \<le> sint (fb_height f)"
  shows "inside f (clamp_position f x y)"
  using assms by (simp add: inside_def clamp_position_def Let_def CURSOR_WIDTH_def CURSOR_HEIGHT_def)

lemma moved_inside:
  assumes "16 \<le> sint (fb_width f)" "16 \<le> sint (fb_height f)" "inside f p"
  shows "inside f (moved_to f evs p)"
  using assms(3) by (induction evs arbitrary: p) (auto simp: moved_to_def split_beta clamp_inside [OF assms(1,2)])

lemma cursor_poll_run:
  assumes "mouse_inv s" "fb_addr (fb s) \<noteq> 0" "cur_visible (g_cursor s)"
  shows "\<exists>t. cursor_poll_mouse s = Some t \<and> mouse_queue t = [] \<and> beneath t = beneath s \<and>
    (cur_x (g_cursor t), cur_y (g_cursor t)) = moved_to (fb s) (mouse_queue s) (cur_x (g_cursor s), cur_y (g_cursor s))"
  using assms
proof (induction "mouse_queue s" arbitrary: s)
  case Nil
  then have "fst (mouse_read s) = None" "mouse_queue (snd (mouse_read s)) = []"
    using mouse_read_queue [of s] by auto
  then show ?case
    using Nil by (subst cursor_poll_mouse.simps) (auto simp: moved_to_def split_beta intro: beneath_cong)
next
  case (Cons ev evs)
  let ?t = "snd (mouse_read s)"
  have r: "fst (mouse_read s) = Some ev" "mouse_queue ?t = evs"
    using Cons(2) mouse_read_queue [OF Cons(3)] by auto
  let ?u = "cursor_move (sint (dx ev)) (- sint (dy ev)) ?t"
  note mv = cursor_move_fields [of ?t "sint (dx ev)" "- sint (dy ev)"]
  have u: "mouse_queue ?u = evs" "mouse_inv ?u" "fb_addr (fb ?u) \<noteq> 0" "cur_visible (g_cursor ?u)" "fb ?u = fb s"
    using mouse_read_inv [OF Cons(3)] r(2) mv Cons(4,5) by simp_all
  have b: "beneath ?u = beneath s"
    using mv(1) Cons(4,5) beneath_cong [of ?t s] by simp
  obtain t where t: "cursor_poll_mouse ?u = Some t" "mouse_queue t = []" "beneath t = beneath ?u"
    "(cur_x (g_cursor t), cur_y (g_cursor t)) = moved_to (fb ?u) (mouse_queue ?u) (cur_x (g_cursor ?u), cur_y (g_cursor ?u))"
    using Cons(1) [OF u(1) [symmetric] u(2-4)] by blast
  have "cursor_poll_mouse s = cursor_poll_mouse ?u"
    by (subst cursor_poll_mouse.simps) (simp add: split_beta r(1))
  moreover have "(cur_x (g_cursor t), cur_y (g_cursor t)) = moved_to (fb s) (mouse_queue s) (cur_x (g_cursor s), cur_y (g_cursor s))"
    using t(4) mv(4) Cons(4,5) Cons(2) [symmetric] u(1,5) by (simp add: moved_to_def)
  ultimately show ?case using t b by auto
qed

text \<open>
  C36. \<open>cursor_poll_mouse\<close> always comes to an end with the event buffer empty. It has moved the pointer
  by every event in turn, upwards for positive \<open>dy\<close>, stopping at the edges of the screen, and the
  screen as it is without the pointer is what it was before.
\<close>

theorem cursor_poll_moves:
  assumes "mouse_inv s" and "fb_addr (fb s) \<noteq> 0" and "cur_visible (g_cursor s)"
    and "16 \<le> sint (fb_width (fb s))" and "16 \<le> sint (fb_height (fb s))"
    and "inside (fb s) (cur_x (g_cursor s), cur_y (g_cursor s))"
  shows "\<exists>t. cursor_poll_mouse s = Some t \<and> mouse_queue t = [] \<and> beneath t = beneath s \<and>
    (cur_x (g_cursor t), cur_y (g_cursor t)) = moved_to (fb s) (mouse_queue s) (cur_x (g_cursor s), cur_y (g_cursor s)) \<and>
    inside (fb s) (cur_x (g_cursor t), cur_y (g_cursor t))"
  using cursor_poll_run [OF assms(1-3)] moved_inside [OF assms(4-6)] by auto

definition demo_desk :: desk where
  "demo_desk = \<lparr>io_trace = [], mouse_buffer = replicate 64 \<lparr>buttons = 0, dx = 3, dy = 1\<rparr>, mouse_buf_head = 1, mouse_buf_tail = 0,
     mouse_cycle = 0, mouse_packet = [0, 0, 0], fb = demo_fb_info, vram = (\<lambda>a. 0), console_row = 0, console_col = 0, gfx_log = [],
     g_cursor = \<lparr>cur_x = 4, cur_y = 5, old_x = 4, old_y = 5, cur_visible = True, saved_bg = (\<lambda>p. 0)\<rparr>\<rparr>"

theorem cursor_poll_moves_witness:
  "\<exists>t. cursor_poll_mouse demo_desk = Some t \<and> (cur_x (g_cursor t), cur_y (g_cursor t)) = (7, 4)"
proof -
  have q: "mouse_queue demo_desk = [\<lparr>buttons = 0, dx = 3, dy = 1\<rparr>]"
    by (simp add: mouse_queue_def demo_desk_def ring_list_def ring_count_def)
  have f: "fb demo_desk = demo_fb_info" "g_cursor demo_desk = \<lparr>cur_x = 4, cur_y = 5, old_x = 4, old_y = 5, cur_visible = True, saved_bg = (\<lambda>p. 0)\<rparr>"
    "mouse_inv demo_desk"
    by (simp_all add: demo_desk_def mouse_inv_def)
  have i: "sint (fb_width demo_fb_info) = 40" "sint (fb_height demo_fb_info) = 32" "fb_addr demo_fb_info \<noteq> 0"
    by (simp_all add: demo_fb_info_def)
  have "inside demo_fb_info (4, 5)" "moved_to demo_fb_info [\<lparr>buttons = 0, dx = 3, dy = 1\<rparr>] (4, 5) = (7, 4)"
    by (simp_all add: inside_def moved_to_def clamp_position_def CURSOR_WIDTH_def CURSOR_HEIGHT_def i Let_def)
  then show ?thesis
    using cursor_poll_moves [of demo_desk] q f i by auto
qed

end
