(* ===== verification/Sros_Window.thy ===== *)
theory Sros_Window
  imports Sros_Cursor Sros_Heap_Props "HOL-Library.Monad_Syntax"
begin

unbundle bit_operations_syntax

text \<open>
  The window manager of \<open>src/drivers/window.c\<close>: windows on the kernel heap, linked in the order of
  their depth, composed onto the framebuffer, and driven by mouse events.

  The structs are a store \<open>wins\<close> by address, the pixel buffers lie in \<open>vram\<close>, and the bookkeeping of
  the heap is the byte memory \<open>kheap\<close> of \<open>Sros_Kmalloc\<close>. Walks along the list are partial functions:
  \<open>None\<close> stands for a walk, or a search of the heap, that does not end.
\<close>

section \<open>State\<close>

definition WM_MAX_WINDOWS :: int where "WM_MAX_WINDOWS = 16"
definition WM_TITLE_HEIGHT :: nat where "WM_TITLE_HEIGHT = 20"
definition WM_BORDER_WIDTH :: nat where "WM_BORDER_WIDTH = 2"
definition WM_CLOSE_BTN_W :: nat where "WM_CLOSE_BTN_W = 14"
definition WM_CLOSE_BTN_H :: nat where "WM_CLOSE_BTN_H = 14"
definition WM_CLOSE_BTN_MARG :: nat where "WM_CLOSE_BTN_MARG = 3"
definition WM_MAX_TITLE_LEN :: nat where "WM_MAX_TITLE_LEN = 31"

lemmas wm_consts = WM_MAX_WINDOWS_def WM_TITLE_HEIGHT_def WM_BORDER_WIDTH_def WM_CLOSE_BTN_W_def WM_CLOSE_BTN_H_def
  WM_CLOSE_BTN_MARG_def WM_MAX_TITLE_LEN_def

definition WM_DESKTOP_COLOR :: color_t where "WM_DESKTOP_COLOR = rgb 40 40 80"
definition WM_TITLE_ACTIVE :: color_t where "WM_TITLE_ACTIVE = rgb 50 80 200"
definition WM_TITLE_INACTIVE :: color_t where "WM_TITLE_INACTIVE = rgb 100 100 120"
definition WM_CLOSE_NORMAL :: color_t where "WM_CLOSE_NORMAL = rgb 200 50 50"
definition WM_CLOSE_X_COLOR :: color_t where "WM_CLOSE_X_COLOR = rgb 255 255 255"
definition WM_BORDER_ACTIVE :: color_t where "WM_BORDER_ACTIVE = rgb 80 110 230"
definition WM_BORDER_INACTIVE :: color_t where "WM_BORDER_INACTIVE = rgb 130 130 140"
definition WM_CONTENT_BG :: color_t where "WM_CONTENT_BG = rgb 245 245 245"
definition WM_TITLE_TEXT :: color_t where "WM_TITLE_TEXT = rgb 255 255 255"

definition MOUSE_LEFT_BTN :: u8 where "MOUSE_LEFT_BTN = 0x01"

text \<open>The title is the text before its terminator.\<close>

record window_t =
  win_x :: int
  win_y :: int
  win_width :: u32
  win_height :: u32
  content_w :: u32
  content_h :: u32
  title :: "u8 list"
  z_order :: u32
  win_visible :: bool
  win_focused :: bool
  win_buffer :: u32
  win_dirty :: bool
  win_next :: u32

record wm = desk +
  wins :: "u32 \<Rightarrow> window_t"
  windows :: u32
  focused :: u32
  win_count :: int
  needs_composite :: bool
  desktop_color :: color_t
  wm_buttons_last :: u8
  kheap :: mem

definition upd_win :: "u32 \<Rightarrow> (window_t \<Rightarrow> window_t) \<Rightarrow> 'a wm_scheme \<Rightarrow> 'a wm_scheme" where
  "upd_win p f s = s\<lparr>wins := (wins s)(p := f (wins s p))\<rparr>"

section \<open>The list\<close>

partial_function (option) insert_prev :: "(u32 \<Rightarrow> window_t) \<Rightarrow> u32 \<Rightarrow> u32 \<Rightarrow> u32 option" where
  "insert_prev ws z prev =
     (if win_next (ws prev) \<noteq> 0 \<and> z_order (ws (win_next (ws prev))) \<le> z
      then insert_prev ws z (win_next (ws prev)) else Some prev)"

definition insert_sorted :: "u32 \<Rightarrow> 'a wm_scheme \<Rightarrow> 'a wm_scheme option" where
  "insert_sorted win s =
     (if windows s = 0 \<or> z_order (wins s win) < z_order (wins s (windows s))
      then Some ((upd_win win (\<lambda>w. w\<lparr>win_next := windows s\<rparr>) s)\<lparr>windows := win\<rparr>)
      else do {
        prev \<leftarrow> insert_prev (wins s) (z_order (wins s win)) (windows s);
        (let s = upd_win win (\<lambda>w. w\<lparr>win_next := win_next (wins s prev)\<rparr>) s
         in Some (upd_win prev (\<lambda>w. w\<lparr>win_next := win\<rparr>) s)) })"

partial_function (option) unlink_from :: "u32 \<Rightarrow> u32 \<Rightarrow> 'a wm_scheme \<Rightarrow> 'a wm_scheme option" where
  "unlink_from win prev s =
     (if win_next (wins s prev) = 0 then Some s
      else if win_next (wins s prev) = win
      then Some (upd_win prev (\<lambda>w. w\<lparr>win_next := win_next (wins s win)\<rparr>) s)
      else unlink_from win (win_next (wins s prev)) s)"

definition remove_from_list :: "u32 \<Rightarrow> 'a wm_scheme \<Rightarrow> 'a wm_scheme option" where
  "remove_from_list win s =
     (if windows s = 0 then Some s
      else if windows s = win then Some (s\<lparr>windows := win_next (wins s win)\<rparr>)
      else unlink_from win (windows s) s)"

partial_function (option) max_z_order :: "(u32 \<Rightarrow> window_t) \<Rightarrow> u32 \<Rightarrow> u32 \<Rightarrow> u32 option" where
  "max_z_order ws max_z w =
     (if w = 0 then Some max_z
      else max_z_order ws (if max_z < z_order (ws w) then z_order (ws w) else max_z) (win_next (ws w)))"

definition get_next_z_order :: "'a wm_scheme \<Rightarrow> u32 option" where
  "get_next_z_order s = map_option (\<lambda>max_z. max_z + 1) (max_z_order (wins s) 0 (windows s))"

definition compute_window_size :: "window_t \<Rightarrow> window_t" where
  "compute_window_size w =
     w\<lparr>win_width := content_w w + of_nat (WM_BORDER_WIDTH * 2),
       win_height := content_h w + of_nat WM_TITLE_HEIGHT + of_nat WM_BORDER_WIDTH\<rparr>"

section \<open>Drawing a window\<close>

text \<open>The four sides of one of the two lines of the border.\<close>

definition draw_border :: "window_t \<Rightarrow> u32 \<Rightarrow> nat \<Rightarrow> 'a gfx_scheme \<Rightarrow> 'a gfx_scheme" where
  "draw_border w v b s =
     (let wx = of_int (win_x w); wy = of_int (win_y w); ww = win_width w; wh = win_height w;
          s = fold (\<lambda>cx. plot (wx + of_nat cx) (wy + of_nat b) v) [0..<unat ww] s;
          s = fold (\<lambda>cx. plot (wx + of_nat cx) (wy + wh - 1 - of_nat b) v) [0..<unat ww] s;
          s = fold (\<lambda>cy. plot (wx + of_nat b) (wy + of_nat cy) v) [0..<unat wh] s
      in fold (\<lambda>cy. plot (wx + ww - 1 - of_nat b) (wy + of_nat cy) v) [0..<unat wh] s)"

definition draw_title_bar :: "window_t \<Rightarrow> u32 \<Rightarrow> 'a gfx_scheme \<Rightarrow> 'a gfx_scheme" where
  "draw_title_bar w v s =
     fold (\<lambda>(ty, tx). plot (of_int (win_x w) + of_nat tx) (of_int (win_y w + int WM_BORDER_WIDTH) + of_nat ty) v)
       (List.product [0..<WM_TITLE_HEIGHT] [WM_BORDER_WIDTH..<unat (win_width w - of_nat WM_BORDER_WIDTH)]) s"

definition max_title_chars :: "window_t \<Rightarrow> u32" where
  "max_title_chars w =
     (win_width w - of_nat (WM_BORDER_WIDTH * 2) - 4 - of_nat WM_CLOSE_BTN_W - of_nat (WM_CLOSE_BTN_MARG * 2)) div of_nat FONT_CHAR_WIDTH"

definition draw_title_char :: "window_t \<Rightarrow> u32 \<Rightarrow> u32 \<Rightarrow> nat \<Rightarrow> 'a gfx_scheme \<Rightarrow> 'a gfx_scheme" where
  "draw_title_char w fg bg ci s =
     (let ch = uint (title w ! ci);
          cx = of_int (win_x w + int WM_BORDER_WIDTH + 4) + of_nat (ci * FONT_CHAR_WIDTH);
          cy = of_int (win_y w + int WM_BORDER_WIDTH) + of_nat ((WM_TITLE_HEIGHT - FONT_CHAR_HEIGHT) div 2)
      in fold (\<lambda>(row, col). plot (cx + of_nat col) (cy + of_nat row) (if glyph_bit ch row col then fg else bg)) glyph_cells s)"

definition draw_title :: "window_t \<Rightarrow> u32 \<Rightarrow> u32 \<Rightarrow> 'a gfx_scheme \<Rightarrow> 'a gfx_scheme" where
  "draw_title w fg bg s =
     fold (draw_title_char w fg bg) [0..<min (length (title w)) (unat (max_title_chars w))] s"

definition draw_close_button :: "window_t \<Rightarrow> 'a gfx_scheme \<Rightarrow> 'a gfx_scheme" where
  "draw_close_button w s =
     (let btn_x = of_int (win_x w + sint (win_width w) - int WM_BORDER_WIDTH - int WM_CLOSE_BTN_MARG - int WM_CLOSE_BTN_W);
          btn_y = of_int (win_y w + int WM_BORDER_WIDTH + int ((WM_TITLE_HEIGHT - WM_CLOSE_BTN_H) div 2));
          s = fold (\<lambda>(by, bx). plot (btn_x + of_nat bx) (btn_y + of_nat by) (color_to_pixel WM_CLOSE_NORMAL))
                (List.product [0..<WM_CLOSE_BTN_H] [0..<WM_CLOSE_BTN_W]) s
      in fold (\<lambda>i s.
             (let s = plot (btn_x + of_nat i) (btn_y + of_nat i) (color_to_pixel WM_CLOSE_X_COLOR) s
              in plot (btn_x + of_nat i) (btn_y + of_nat WM_CLOSE_BTN_H - 1 - of_nat i) (color_to_pixel WM_CLOSE_X_COLOR) s))
           [0..<WM_CLOSE_BTN_W] s)"

definition draw_window_frame :: "window_t \<Rightarrow> 'a gfx_scheme \<Rightarrow> 'a gfx_scheme" where
  "draw_window_frame w s =
     (let fg_border = color_to_pixel (if win_focused w then WM_BORDER_ACTIVE else WM_BORDER_INACTIVE);
          fg_title = color_to_pixel (if win_focused w then WM_TITLE_ACTIVE else WM_TITLE_INACTIVE);
          s = fold (draw_border w fg_border) [0..<WM_BORDER_WIDTH] s;
          s = draw_title_bar w fg_title s;
          s = draw_title w (color_to_pixel WM_TITLE_TEXT) fg_title s
      in draw_close_button w s)"

definition draw_window_content :: "window_t \<Rightarrow> 'a gfx_scheme \<Rightarrow> 'a gfx_scheme" where
  "draw_window_content w s =
     (if win_buffer w = 0 then s
      else
       (let content_x = of_int (win_x w + int WM_BORDER_WIDTH);
            content_y = of_int (win_y w + int WM_BORDER_WIDTH + int WM_TITLE_HEIGHT)
        in fold (\<lambda>(ry, rx) s. plot (content_x + of_nat rx) (content_y + of_nat ry)
                    (vram s (win_buffer w + 4 * (of_nat ry * content_w w + of_nat rx))) s)
             (List.product [0..<unat (content_h w)] [0..<unat (content_w w)]) s))"

definition window_contains :: "window_t \<Rightarrow> int \<Rightarrow> int \<Rightarrow> bool" where
  "window_contains w px py \<longleftrightarrow> win_x w \<le> px \<and> px < win_x w + sint (win_width w) \<and>
     win_y w \<le> py \<and> py < win_y w + sint (win_height w)"

section \<open>Windows\<close>

definition wm_init :: "'a wm_scheme \<Rightarrow> 'a wm_scheme" where
  "wm_init s =
     glog ''[wm] window manager initialized (%dx%d)'' [AInt (fb_width (fb s)), AInt (fb_height (fb s))]
       (s\<lparr>windows := 0, focused := 0, win_count := 0, needs_composite := True, desktop_color := WM_DESKTOP_COLOR\<rparr>)"

text \<open>The end of \<open>wm_focus_window\<close>: the window moves to the end of the list.\<close>

definition raise_window :: "u32 \<Rightarrow> 'a wm_scheme \<Rightarrow> 'a wm_scheme option" where
  "raise_window win s = do {
     new_z \<leftarrow> get_next_z_order s;
     s \<leftarrow> remove_from_list win s;
     s \<leftarrow> insert_sorted win (upd_win win (\<lambda>w. w\<lparr>z_order := new_z\<rparr>) s);
     Some ((upd_win win (\<lambda>w. w\<lparr>win_dirty := True\<rparr>) s)\<lparr>needs_composite := True\<rparr>) }"

definition wm_focus_window :: "u32 \<Rightarrow> 'a wm_scheme \<Rightarrow> 'a wm_scheme option" where
  "wm_focus_window win s =
     (if win = 0 then Some s
      else if focused s = win then Some (upd_win win (\<lambda>w. w\<lparr>win_focused := True\<rparr>) s)
      else
       (let s = (if focused s \<noteq> 0 then upd_win (focused s) (\<lambda>w. w\<lparr>win_focused := False\<rparr>) s else s);
            s = upd_win win (\<lambda>w. w\<lparr>win_focused := True\<rparr>) s
        in raise_window win (s\<lparr>focused := win\<rparr>)))"

text \<open>The struct as it is when its buffer is allocated; \<open>sizeof(window_t)\<close> is 80.\<close>

definition new_window :: "int \<Rightarrow> int \<Rightarrow> u32 \<Rightarrow> u32 \<Rightarrow> u8 list \<Rightarrow> window_t \<Rightarrow> window_t" where
  "new_window x y cw ch text w = compute_window_size
     (w\<lparr>win_x := x, win_y := y, content_w := cw, content_h := ch, win_visible := True, win_focused := False,
        win_dirty := True, win_next := 0, win_buffer := 0, title := take WM_MAX_TITLE_LEN text\<rparr>)"

definition fill_words :: "u32 \<Rightarrow> nat \<Rightarrow> u32 \<Rightarrow> 'a gfx_scheme \<Rightarrow> 'a gfx_scheme" where
  "fill_words p n v s = fold (\<lambda>i s. s\<lparr>vram := (vram s)(p + 4 * of_nat i := v)\<rparr>) [0..<n] s"

text \<open>The end of \<open>wm_create_window\<close>: the buffer is cleared, the window linked and focused.\<close>

definition place_window :: "u32 \<Rightarrow> int \<Rightarrow> int \<Rightarrow> u32 \<Rightarrow> u32 \<Rightarrow> u8 list \<Rightarrow> 'a wm_scheme \<Rightarrow> (u32 \<times> 'a wm_scheme) option" where
  "place_window win x y cw ch text s =
     (let s = fill_words (win_buffer (wins s win)) (unat (cw * ch)) (color_to_pixel WM_CONTENT_BG) s in do {
        z \<leftarrow> get_next_z_order s;
        s \<leftarrow> insert_sorted win (upd_win win (\<lambda>w. w\<lparr>z_order := z\<rparr>) s);
        s \<leftarrow> wm_focus_window win (s\<lparr>win_count := win_count s + 1\<rparr>);
        (let s = s\<lparr>needs_composite := True\<rparr>;
             w = wins s win
         in Some (win, glog (''[wm] created window '' @ [CHR 0x27] @ ''%s'' @ [CHR 0x27] @ '' at (%d,%d) %dx%d z=%u'')
              [AStr (map (\<lambda>c. char_of (unat c)) text), AI x, AI y, AInt (win_width w), AInt (win_height w), AInt (z_order w)] s)) })"

definition wm_create_window :: "int \<Rightarrow> int \<Rightarrow> u32 \<Rightarrow> u32 \<Rightarrow> u8 list \<Rightarrow> 'a wm_scheme \<Rightarrow> (u32 \<times> 'a wm_scheme) option" where
  "wm_create_window x y cw ch text s =
     (if WM_MAX_WINDOWS \<le> win_count s then Some (0, s)
      else do {
        (win, h) \<leftarrow> kmalloc (kheap s) 80;
        (let s = s\<lparr>kheap := h\<rparr> in
         if win = 0 then Some (0, s)
         else
          (let s = upd_win win (new_window x y cw ch text) s in do {
             (buf, h) \<leftarrow> kmalloc (kheap s) (cw * ch * 4);
             (let s = upd_win win (\<lambda>w. w\<lparr>win_buffer := buf\<rparr>) (s\<lparr>kheap := h\<rparr>) in
              if buf = 0 then Some (0, s\<lparr>kheap := kfree (kheap s) win\<rparr>)
              else place_window win x y cw ch text s) })) })"

definition wm_destroy_window :: "u32 \<Rightarrow> 'a wm_scheme \<Rightarrow> 'a wm_scheme option" where
  "wm_destroy_window win s =
     (if win = 0 then Some s
      else do {
        s \<leftarrow> remove_from_list win s;
        (let s = (if focused s = win then s\<lparr>focused := 0\<rparr> else s);
             s = (if win_buffer (wins s win) \<noteq> 0
                  then upd_win win (\<lambda>w. w\<lparr>win_buffer := 0\<rparr>) (s\<lparr>kheap := kfree (kheap s) (win_buffer (wins s win))\<rparr>)
                  else s);
             s = s\<lparr>win_count := win_count s - 1, needs_composite := True\<rparr>;
             s = glog (''[wm] destroyed window '' @ [CHR 0x27] @ ''%s'' @ [CHR 0x27]) [AStr (map (\<lambda>c. char_of (unat c)) (title (wins s win)))] s
         in Some (s\<lparr>kheap := kfree (kheap s) win\<rparr>)) })"

definition wm_move_window :: "u32 \<Rightarrow> int \<Rightarrow> int \<Rightarrow> 'a wm_scheme \<Rightarrow> 'a wm_scheme" where
  "wm_move_window win x y s =
     (if win = 0 then s
      else (upd_win win (\<lambda>w. w\<lparr>win_x := x, win_y := y, win_dirty := True\<rparr>) s)\<lparr>needs_composite := True\<rparr>)"

section \<open>Composition and input\<close>

partial_function (option) draw_windows :: "u32 \<Rightarrow> 'a wm_scheme \<Rightarrow> 'a wm_scheme option" where
  "draw_windows w s =
     (if w = 0 then Some s
      else
       (let s = (if win_visible (wins s w)
                 then upd_win w (\<lambda>w. w\<lparr>win_dirty := False\<rparr>)
                        (draw_window_content (wins s w) (draw_window_frame (wins s w) s))
                 else s)
        in draw_windows (win_next (wins s w)) s))"

text \<open>
  \<open>rep stosl\<close> with \<open>edi\<close> tied to \<open>fb.addr\<close> by the constraint \<open>"+D"\<close>: the instruction leaves \<open>edi\<close>, and
  thereby \<open>fb.addr\<close>, behind the last word it stored.
\<close>

definition clear_desktop :: "'a wm_scheme \<Rightarrow> 'a wm_scheme" where
  "clear_desktop s =
     (let bg = color_to_pixel (desktop_color s);
          pitch_dwords = fb_pitch (fb s) div 4;
          n = fb_height (fb s) * pitch_dwords;
          s = fill_words (fb_addr (fb s)) (unat n) bg s
      in s\<lparr>fb := (fb s)\<lparr>fb_addr := fb_addr (fb s) + 4 * n\<rparr>\<rparr>)"

definition wm_composite :: "'a wm_scheme \<Rightarrow> 'a wm_scheme option" where
  "wm_composite s =
     (if fb_addr (fb s) = 0 then Some s
      else if win_count s = 0 \<and> \<not> needs_composite s then Some s
      else
       (let cursor_was_visible = cur_visible (g_cursor s);
            s = (if cursor_was_visible then cursor_remove s else s)
        in if win_count s = 0
           then (let s = clear_desktop s;
                     s = (if cursor_was_visible then cursor_restore s else s)
                 in Some (s\<lparr>needs_composite := False\<rparr>))
           else do {
             s \<leftarrow> draw_windows (windows s) s;
             (let s = (if cursor_was_visible then cursor_restore s else s)
              in Some (s\<lparr>needs_composite := False\<rparr>)) }))"

partial_function (option) window_at :: "(u32 \<Rightarrow> window_t) \<Rightarrow> int \<Rightarrow> int \<Rightarrow> u32 \<Rightarrow> u32 \<Rightarrow> u32 option" where
  "window_at ws x y result w =
     (if w = 0 then Some result
      else window_at ws x y (if win_visible (ws w) \<and> window_contains (ws w) x y then w else result) (win_next (ws w)))"

definition wm_get_window_at :: "int \<Rightarrow> int \<Rightarrow> 'a wm_scheme \<Rightarrow> u32 option" where
  "wm_get_window_at x y s = window_at (wins s) x y 0 (windows s)"

definition wm_is_in_close_btn :: "u32 \<Rightarrow> int \<Rightarrow> int \<Rightarrow> 'a wm_scheme \<Rightarrow> bool" where
  "wm_is_in_close_btn win x y s =
     (if win = 0 then False
      else
       (let w = wins s win;
            btn_x = win_x w + sint (win_width w) - int WM_BORDER_WIDTH - int WM_CLOSE_BTN_MARG - int WM_CLOSE_BTN_W;
            btn_y = win_y w + int WM_BORDER_WIDTH + int ((WM_TITLE_HEIGHT - WM_CLOSE_BTN_H) div 2)
        in btn_x \<le> x \<and> x < btn_x + int WM_CLOSE_BTN_W \<and> btn_y \<le> y \<and> y < btn_y + int WM_CLOSE_BTN_H))"

definition wm_get_titlebar_rect :: "u32 \<Rightarrow> 'a wm_scheme \<Rightarrow> int \<times> int \<times> u32 \<times> u32" where
  "wm_get_titlebar_rect win s =
     (let w = wins s win
      in (win_x w + int WM_BORDER_WIDTH, win_y w + int WM_BORDER_WIDTH, win_width w - of_nat (WM_BORDER_WIDTH * 2), of_nat WM_TITLE_HEIGHT))"

definition wm_handle_click :: "int \<Rightarrow> int \<Rightarrow> u8 \<Rightarrow> 'a wm_scheme \<Rightarrow> (int \<times> 'a wm_scheme) option" where
  "wm_handle_click x y btns s =
     (if btns AND MOUSE_LEFT_BTN = 0 then Some (0, s)
      else do {
        win \<leftarrow> wm_get_window_at x y s;
        if win = 0 then Some (0, s)
        else if wm_is_in_close_btn win x y s
        then do { s \<leftarrow> wm_destroy_window win s; s \<leftarrow> wm_composite s; Some (1, s) }
        else do { s \<leftarrow> wm_focus_window win s; s \<leftarrow> wm_composite s; Some (1, s) } })"

partial_function (option) wm_poll :: "bool \<Rightarrow> 'a wm_scheme \<Rightarrow> (bool \<times> 'a wm_scheme) option" where
  "wm_poll click_handled s =
     (case mouse_read s of
        (None, s) \<Rightarrow> Some (click_handled, s)
      | (Some ev, s) \<Rightarrow>
         (let s = cursor_move (sint (dx ev)) (- sint (dy ev)) s;
              new_buttons = buttons ev AND MOUSE_LEFT_BTN;
              prev_buttons = wm_buttons_last s AND MOUSE_LEFT_BTN
          in do {
            (ch, s) \<leftarrow> (if new_buttons \<noteq> 0 \<and> prev_buttons = 0 \<and> \<not> click_handled
                         then do { (_, s) \<leftarrow> wm_handle_click (cur_x (g_cursor s)) (cur_y (g_cursor s)) (buttons ev) s; Some (True, s) }
                         else Some (click_handled, s));
            wm_poll ch (s\<lparr>wm_buttons_last := buttons ev\<rparr>) }))"

definition wm_update :: "'a wm_scheme \<Rightarrow> 'a wm_scheme option" where
  "wm_update s = do {
     (click_handled, s) \<leftarrow> wm_poll False s;
     if click_handled then Some s else if needs_composite s then wm_composite s else Some s }"

section \<open>Drawing into a window\<close>

definition win_poke :: "u32 \<Rightarrow> u32 \<Rightarrow> u32 \<Rightarrow> 'a wm_scheme \<Rightarrow> 'a wm_scheme" where
  "win_poke win i v s = s\<lparr>vram := (vram s)(win_buffer (wins s win) + 4 * i := v)\<rparr>"

definition win_changed :: "u32 \<Rightarrow> 'a wm_scheme \<Rightarrow> 'a wm_scheme" where
  "win_changed win s = (upd_win win (\<lambda>w. w\<lparr>win_dirty := True\<rparr>) s)\<lparr>needs_composite := True\<rparr>"

definition wm_fill_rect :: "u32 \<Rightarrow> u32 \<Rightarrow> u32 \<Rightarrow> u32 \<Rightarrow> u32 \<Rightarrow> color_t \<Rightarrow> 'a wm_scheme \<Rightarrow> 'a wm_scheme" where
  "wm_fill_rect win rx ry rw rh c s =
     (let w = wins s win in
      if win = 0 \<or> win_buffer w = 0 then s
      else if content_w w \<le> rx \<or> content_h w \<le> ry then s
      else
       (let rw = (if content_w w < rx + rw then content_w w - rx else rw);
            rh = (if content_h w < ry + rh then content_h w - ry else rh);
            s = fold (\<lambda>(row, col). win_poke win ((ry + of_nat row) * content_w w + (rx + of_nat col)) (color_to_pixel c))
                  (List.product [0..<unat rh] [0..<unat rw]) s
        in win_changed win s))"

definition wm_putpixel :: "u32 \<Rightarrow> u32 \<Rightarrow> u32 \<Rightarrow> color_t \<Rightarrow> 'a wm_scheme \<Rightarrow> 'a wm_scheme" where
  "wm_putpixel win px py c s =
     (let w = wins s win in
      if win = 0 \<or> win_buffer w = 0 then s
      else if content_w w \<le> px \<or> content_h w \<le> py then s
      else win_changed win (win_poke win (py * content_w w + px) (color_to_pixel c) s))"

definition wm_putchar :: "u32 \<Rightarrow> int \<Rightarrow> u32 \<Rightarrow> u32 \<Rightarrow> color_t \<Rightarrow> color_t \<Rightarrow> 'a wm_scheme \<Rightarrow> 'a wm_scheme" where
  "wm_putchar win ch px py fg bg s =
     (let w = wins s win in
      if win = 0 \<or> win_buffer w = 0 then s
      else if content_w w < px + of_nat FONT_CHAR_WIDTH then s
      else if content_h w < py + of_nat FONT_CHAR_HEIGHT then s
      else win_changed win
        (fold (\<lambda>(row, col). win_poke win ((py + of_nat row) * content_w w + (px + of_nat col))
                 (if glyph_bit ch row col then color_to_pixel fg else color_to_pixel bg)) glyph_cells s))"

fun wm_puts_from :: "u32 \<Rightarrow> u8 list \<Rightarrow> u32 \<Rightarrow> u32 \<Rightarrow> u32 \<Rightarrow> color_t \<Rightarrow> color_t \<Rightarrow> 'a wm_scheme \<Rightarrow> 'a wm_scheme" where
  "wm_puts_from win [] px cx cy fg bg s = s"
| "wm_puts_from win (c # cs) px cx cy fg bg s =
     (if c = 0x0A then wm_puts_from win cs px px (cy + of_nat FONT_CHAR_HEIGHT) fg bg s
      else
       (let s = wm_putchar win (sint c) cx cy fg bg s;
            cx = cx + of_nat FONT_CHAR_WIDTH
        in if content_w (wins s win) < cx + of_nat FONT_CHAR_WIDTH
           then wm_puts_from win cs px px (cy + of_nat FONT_CHAR_HEIGHT) fg bg s
           else wm_puts_from win cs px cx cy fg bg s))"

definition wm_puts :: "u32 \<Rightarrow> u8 list \<Rightarrow> u32 \<Rightarrow> u32 \<Rightarrow> color_t \<Rightarrow> color_t \<Rightarrow> 'a wm_scheme \<Rightarrow> 'a wm_scheme" where
  "wm_puts win text px py fg bg s = (if win = 0 then s else wm_puts_from win text px px py fg bg s)"

definition wm_printf :: "u32 \<Rightarrow> u32 \<Rightarrow> u32 \<Rightarrow> color_t \<Rightarrow> color_t \<Rightarrow> string \<Rightarrow> arg list \<Rightarrow> 'a wm_scheme \<Rightarrow> 'a wm_scheme kres" where
  "wm_printf win px py fg bg fmt as s =
     (if win = 0 then Inr s
      else bind_res (fmt_text ''du'' hex_lower fmt as) (\<lambda>buf. Inr (wm_puts win buf px py fg bg s)))"

end
