(* ===== verification/Sros_Window_List.thy ===== *)
theory Sros_Window_List
  imports Sros_Window
begin

text \<open>
  The linked list of the window manager as a list of addresses: what each walk and each change of
  links does to the list that a state represents.
\<close>

section \<open>Chains\<close>

text \<open>\<open>wseg ws h ps t\<close>: from \<open>h\<close>, the links pass through the windows \<open>ps\<close> and arrive at \<open>t\<close>.\<close>

fun wseg :: "(u32 \<Rightarrow> window_t) \<Rightarrow> u32 \<Rightarrow> u32 list \<Rightarrow> u32 \<Rightarrow> bool" where
  "wseg ws h [] t \<longleftrightarrow> h = t"
| "wseg ws h (p # ps) t \<longleftrightarrow> h = p \<and> p \<noteq> 0 \<and> wseg ws (win_next (ws p)) ps t"

abbreviation wchain :: "(u32 \<Rightarrow> window_t) \<Rightarrow> u32 \<Rightarrow> u32 list \<Rightarrow> bool" where
  "wchain ws h ps \<equiv> wseg ws h ps 0"

text \<open>States whose windows differ in their links only.\<close>

definition same_links :: "(u32 \<Rightarrow> window_t) \<Rightarrow> (u32 \<Rightarrow> window_t) \<Rightarrow> bool" where
  "same_links ws ws' \<longleftrightarrow> (\<forall>p. \<exists>n. ws' p = (ws p)\<lparr>win_next := n\<rparr>)"

lemma next_same [simp]: "w\<lparr>win_next := win_next w\<rparr> = (w :: window_t)"
  by (cases w) simp

lemma same_links_refl [simp]: "same_links ws ws"
  unfolding same_links_def by (intro allI, rule_tac x = "win_next (ws p)" in exI) simp

lemma same_links_upd:
  assumes "same_links ws ws'"
  shows "same_links ws (ws'(p := (ws' p)\<lparr>win_next := n\<rparr>))"
  unfolding same_links_def
proof
  fix q
  obtain k where "ws' q = (ws q)\<lparr>win_next := k\<rparr>" using assms unfolding same_links_def by blast
  then have "(ws'(p := (ws' p)\<lparr>win_next := n\<rparr>)) q = (ws q)\<lparr>win_next := (if q = p then n else k)\<rparr>" by auto
  then show "\<exists>k. (ws'(p := (ws' p)\<lparr>win_next := n\<rparr>)) q = (ws q)\<lparr>win_next := k\<rparr>" ..
qed

lemma wseg_append: "wseg ws h (xs @ ys) t \<longleftrightarrow> (\<exists>m. wseg ws h xs m \<and> wseg ws m ys t)"
  by (induction xs arbitrary: h) auto

lemma wseg_frame: "p \<notin> set xs \<Longrightarrow> wseg (ws(p := w)) h xs t = wseg ws h xs t"
  by (induction xs arbitrary: h) auto

lemma wseg_nonnull: "wseg ws h xs t \<Longrightarrow> 0 \<notin> set xs"
  by (induction xs arbitrary: h) auto

lemma wseg_head: "wchain ws h ps \<Longrightarrow> h = 0 \<longleftrightarrow> ps = []"
  by (cases ps) auto

lemma wseg_same: "(\<And>p. p \<in> set xs \<Longrightarrow> win_next (ws' p) = win_next (ws p)) \<Longrightarrow> wseg ws' h xs t = wseg ws h xs t"
  by (induction xs arbitrary: h) auto

lemma wseg_relink:
  assumes "wseg ws h (xs @ [p]) t" "p \<notin> set xs"
  shows "wseg (ws(p := (ws p)\<lparr>win_next := t'\<rparr>)) h (xs @ [p]) t'"
  using assms by (auto simp: wseg_append wseg_frame)

section \<open>Walks\<close>

lemma max_z_order_chain:
  "wchain ws h ps \<Longrightarrow> max_z_order ws m h = Some (fold (\<lambda>p m. max m (z_order (ws p))) ps m)"
proof (induction ps arbitrary: h m)
  case Nil
  then show ?case by (subst max_z_order.simps) simp
next
  case (Cons p ps)
  then show ?case by (subst max_z_order.simps) (simp add: max_def not_less less_imp_le)
qed

lemma fold_max_z:
  fixes f :: "u32 \<Rightarrow> u32"
  shows "m \<le> fold (\<lambda>p m. max m (f p)) ps m" and "p \<in> set ps \<Longrightarrow> f p \<le> fold (\<lambda>p m. max m (f p)) ps m"
    and "fold (\<lambda>p m. max m (f p)) ps m \<in> insert m (f ` set ps)"
proof -
  have m: "m \<le> fold (\<lambda>p m. max m (f p)) ps m" for m ps
  proof (induction ps arbitrary: m)
    case (Cons a ps)
    from order.trans [OF max.cobounded1 this] show ?case by simp
  qed simp
  then show "m \<le> fold (\<lambda>p m. max m (f p)) ps m" .
  show "p \<in> set ps \<Longrightarrow> f p \<le> fold (\<lambda>p m. max m (f p)) ps m"
    by (induction ps arbitrary: m) (auto intro: order.trans [OF _ m])
  show "fold (\<lambda>p m. max m (f p)) ps m \<in> insert m (f ` set ps)"
  proof (induction ps arbitrary: m)
    case (Cons q ps)
    from this [of "max m (f q)"] show ?case by (auto simp: max_def)
  qed simp
qed

lemma window_at_chain:
  "wchain ws h ps \<Longrightarrow> window_at ws x y r h =
     Some (last (r # filter (\<lambda>p. win_visible (ws p) \<and> window_contains (ws p) x y) ps))"
proof (induction ps arbitrary: h r)
  case Nil
  then show ?case by (subst window_at.simps) simp
next
  case (Cons p ps)
  then show ?case by (subst window_at.simps) auto
qed

lemma insert_prev_chain:
  "wchain ws (win_next (ws p)) ps \<Longrightarrow>
   insert_prev ws z p = Some (last (p # takeWhile (\<lambda>q. z_order (ws q) \<le> z) ps))"
proof (induction ps arbitrary: p)
  case Nil
  then show ?case by (subst insert_prev.simps) simp
next
  case (Cons q ps)
  then show ?case by (subst insert_prev.simps) auto
qed

section \<open>Changes of links\<close>

lemma upd_win_simps [simp]:
  "wins (upd_win p f s) = (wins s)(p := f (wins s p))" "windows (upd_win p f s) = windows s"
  "focused (upd_win p f s) = focused s" "win_count (upd_win p f s) = win_count s" "kheap (upd_win p f s) = kheap s"
  by (simp_all add: upd_win_def)

text \<open>A state that differs from another in links and in the head of the list only.\<close>

definition relinked :: "'a wm_scheme \<Rightarrow> 'a wm_scheme \<Rightarrow> bool" where
  "relinked s s' \<longleftrightarrow> (\<exists>ws h. s' = s\<lparr>wins := ws, windows := h\<rparr> \<and> same_links (wins s) ws)"

lemma wm_same_fields [simp]: "s\<lparr>wins := wins s\<rparr> = (s :: 'a wm_scheme)" "s\<lparr>windows := windows s\<rparr> = (s :: 'a wm_scheme)"
  by (cases s, simp)+

lemma relinked_refl [simp]: "relinked s s"
  unfolding relinked_def by (rule exI [of _ "wins s"], rule exI [of _ "windows s"]) simp

lemma relinked_upd: "relinked s s' \<Longrightarrow> relinked s (upd_win p (\<lambda>w. w\<lparr>win_next := n\<rparr>) s')"
  unfolding relinked_def
  by (elim exE conjE, rule_tac x = "ws(p := (ws p)\<lparr>win_next := n\<rparr>)" in exI, rule_tac x = h in exI)
    (auto simp: upd_win_def same_links_upd)

lemma relinked_head: "relinked s s' \<Longrightarrow> relinked s (s'\<lparr>windows := n\<rparr>)"
  unfolding relinked_def by (elim exE conjE, rule_tac x = ws in exI, rule_tac x = n in exI) auto

lemma insert_sorted_chain:
  assumes c: "wchain (wins s) (windows s) ps" and d: "distinct ps" "win \<notin> set ps" "win \<noteq> 0"
  defines "P \<equiv> \<lambda>q. z_order (wins s q) \<le> z_order (wins s win)"
  shows "\<exists>s'. insert_sorted win s = Some s' \<and> relinked s s' \<and>
    wchain (wins s') (windows s') (takeWhile P ps @ win # dropWhile P ps)"
proof (cases "windows s = 0 \<or> z_order (wins s win) < z_order (wins s (windows s))")
  case True
  then have "takeWhile P ps = [] \<and> dropWhile P ps = ps"
    using c by (cases ps) (auto simp: P_def)
  then show ?thesis
    using True c d by (auto simp: insert_sorted_def wseg_frame intro!: relinked_head relinked_upd)
next
  case False
  then obtain p qs where ps: "ps = p # qs" "windows s = p" "P p"
    using c by (cases ps) (auto simp: P_def)
  let ?xs = "takeWhile P ps" and ?ys = "dropWhile P ps"
  define l where "l = last ?xs"
  have prev: "insert_prev (wins s) (z_order (wins s win)) (windows s) = Some l"
    using insert_prev_chain [of "wins s" p qs] c ps by (simp add: P_def l_def)
  have xs: "?xs = butlast ?xs @ [l]" using ps(1,3) by (simp add: l_def)
  have dx: "l \<notin> set (butlast ?xs)" "l \<in> set ps" "l \<noteq> win" "win \<notin> set ?xs" "win \<notin> set ?ys" "l \<notin> set ?ys"
    using d xs by (metis distinct_append distinct_takeWhile not_distinct_conv_prefix,
      metis in_set_conv_decomp set_takeWhileD, metis in_set_conv_decomp set_takeWhileD,
      auto dest: set_takeWhileD set_dropWhileD, metis (no_types, lifting) disjoint_iff distinct_append in_set_conv_decomp takeWhile_dropWhile_id)
  obtain m where m: "wseg (wins s) (windows s) ?xs m" "wseg (wins s) m ?ys 0"
    using c by (metis takeWhile_dropWhile_id wseg_append)
  have nl: "win_next (wins s l) = m" using m(1) by (subst (asm) xs) (auto simp: wseg_append)
  let ?ws = "(wins s)(win := (wins s win)\<lparr>win_next := m\<rparr>)"
  have "wseg ?ws (windows s) ?xs m" using m(1) dx(4) by (simp add: wseg_frame)
  from wseg_relink [of ?ws "windows s" "butlast ?xs" l m win] this xs dx(1)
  have "wseg (?ws(l := (?ws l)\<lparr>win_next := win\<rparr>)) (windows s) ?xs win" by simp
  moreover have "wseg (?ws(l := (?ws l)\<lparr>win_next := win\<rparr>)) win (win # ?ys) 0"
    using m(2) dx(3,5,6) d(3) by (simp add: wseg_frame)
  ultimately have "wchain (?ws(l := (?ws l)\<lparr>win_next := win\<rparr>)) (windows s) (?xs @ win # ?ys)"
    using wseg_append by blast
  then show ?thesis
    using False prev nl by (auto simp: insert_sorted_def intro!: relinked_upd)
qed

lemma unlink_from_chain:
  assumes "wseg (wins s) p (p # ps) 0" "distinct (p # ps)" "p \<noteq> win"
  shows "\<exists>s'. unlink_from win p s = Some s' \<and> relinked s s' \<and> windows s' = windows s \<and>
    wseg (wins s') p (p # remove1 win ps) 0 \<and> (\<forall>q. q \<notin> set (p # ps) \<longrightarrow> wins s' q = wins s q)"
  using assms
proof (induction ps arbitrary: p)
  case Nil
  then show ?case by (subst unlink_from.simps) auto
next
  case (Cons q ps)
  show ?case
  proof (cases "q = win")
    case True
    then have "unlink_from win p s = Some (upd_win p (\<lambda>w. w\<lparr>win_next := win_next (wins s win)\<rparr>) s)"
      using Cons.prems by (subst unlink_from.simps) auto
    then show ?thesis
      using Cons.prems True by (auto simp: wseg_frame intro!: relinked_upd)
  next
    case False
    then have "unlink_from win p s = unlink_from win q s"
      using Cons.prems by (subst unlink_from.simps) auto
    moreover obtain s' where s': "unlink_from win q s = Some s'" "relinked s s'" "windows s' = windows s"
      "wseg (wins s') q (q # remove1 win ps) 0" "\<forall>r. r \<notin> set (q # ps) \<longrightarrow> wins s' r = wins s r"
      using Cons.IH [of q] Cons.prems False by auto
    moreover have "wins s' p = wins s p" using s'(5) Cons.prems(2) by auto
    ultimately show ?thesis
      using Cons.prems False by auto
  qed
qed

lemma remove_from_list_chain:
  assumes "wchain (wins s) (windows s) ps" "distinct ps"
  shows "\<exists>s'. remove_from_list win s = Some s' \<and> relinked s s' \<and> wchain (wins s') (windows s') (remove1 win ps)"
proof (cases ps)
  case Nil
  then show ?thesis using assms by (auto simp: remove_from_list_def)
next
  case (Cons p qs)
  show ?thesis
  proof (cases "p = win")
    case True
    then show ?thesis using assms Cons by (auto simp: remove_from_list_def intro!: relinked_head)
  next
    case False
    then show ?thesis
      using assms Cons unlink_from_chain [of s p qs win] by (auto simp: remove_from_list_def)
  qed
qed

lemma get_next_z_order_chain:
  assumes "wchain (wins s) (windows s) ps" "\<forall>p \<in> set ps. unat (z_order (wins s p)) \<le> n" "n < 4294967295"
  shows "\<exists>z. get_next_z_order s = Some z \<and> unat z \<le> n + 1 \<and> (\<forall>p \<in> set ps. z_order (wins s p) < z)"
proof -
  let ?f = "\<lambda>p. z_order (wins s p)"
  define m where "m = fold (\<lambda>p m. max m (?f p)) ps 0"
  have "m \<in> insert 0 (?f ` set ps)" unfolding m_def by (rule fold_max_z(3))
  then have n: "unat m \<le> n" using assms(2) by auto
  then have u: "unat (m + 1) = unat m + 1" using assms(3) by (simp add: unat_word_ariths)
  have "?f p < m + 1" if "p \<in> set ps" for p
    using fold_max_z(2) [OF that, of ?f 0] u by (simp add: m_def [symmetric] word_less_nat_alt word_le_nat_alt)
  then show ?thesis
    using max_z_order_chain [OF assms(1), of 0] u n by (simp add: get_next_z_order_def m_def)
qed

end
