(* ===== verification/Sros_Window_Inv.thy ===== *)
theory Sros_Window_Inv
  imports Sros_Window_List
begin

text \<open>
  The invariant of the window manager and its preservation: the list is in strict order of depth, the
  counter is its length, at most one window has the focus, and every window and its pixel buffer are
  blocks of their own on the kernel heap.
\<close>

section \<open>The invariant\<close>

text \<open>What no operation but creation and destruction touches.\<close>

definition win_mem :: "window_t \<Rightarrow> u32 \<times> u32 \<times> u32 \<times> u32 \<times> u32" where
  "win_mem w = (win_buffer w, content_w w, content_h w, win_width w, win_height w)"

definition win_reqs :: "(u32 \<Rightarrow> window_t) \<Rightarrow> u32 list \<Rightarrow> (u32 \<times> u32) list" where
  "win_reqs ws ps = map (\<lambda>p. (p, 80)) ps @ map (\<lambda>p. (win_buffer (ws p), content_w (ws p) * content_h (ws p) * 4)) ps"

definition win_sized :: "window_t \<Rightarrow> bool" where
  "win_sized w \<longleftrightarrow> win_width w = content_w w + 4 \<and> win_height w = content_h w + 22"

definition wlist_inv :: "nat \<Rightarrow> u32 list \<Rightarrow> 'a wm_scheme \<Rightarrow> bool" where
  "wlist_inv n ps s \<longleftrightarrow> wchain (wins s) (windows s) ps \<and> distinct ps \<and>
     sorted_wrt (\<lambda>p q. z_order (wins s p) < z_order (wins s q)) ps \<and> (\<forall>p \<in> set ps. unat (z_order (wins s p)) \<le> n)"

definition wfocus_inv :: "u32 list \<Rightarrow> 'a wm_scheme \<Rightarrow> bool" where
  "wfocus_inv ps s \<longleftrightarrow> (focused s \<noteq> 0 \<longrightarrow> focused s \<in> set ps) \<and> (\<forall>p \<in> set ps. win_focused (wins s p) \<longleftrightarrow> p = focused s)"

definition wm_inv :: "nat \<Rightarrow> u32 list \<Rightarrow> 'a wm_scheme \<Rightarrow> bool" where
  "wm_inv n ps s \<longleftrightarrow> wlist_inv n ps s \<and> wfocus_inv ps s \<and> win_count s = int (length ps) \<and> length ps \<le> 16 \<and>
     (\<forall>p \<in> set ps. win_sized (wins s p)) \<and> km.holds (kheap s) (win_reqs (wins s) ps)"

lemma wm_invD:
  assumes "wm_inv n ps s"
  shows "wchain (wins s) (windows s) ps" "distinct ps" "\<forall>p \<in> set ps. unat (z_order (wins s p)) \<le> n" "0 \<notin> set ps"
    "win_count s = int (length ps)" "length ps \<le> 16" "wlist_inv n ps s" "wfocus_inv ps s" "km.holds (kheap s) (win_reqs (wins s) ps)"
  using assms wseg_nonnull by (auto simp: wm_inv_def wlist_inv_def)

lemma relinkedD:
  assumes "relinked s s'"
  shows "focused s' = focused s" "win_count s' = win_count s" "kheap s' = kheap s" "z_order (wins s' p) = z_order (wins s p)"
    "win_focused (wins s' p) = win_focused (wins s p)" "win_mem (wins s' p) = win_mem (wins s p)"
proof -
  obtain ws h where s: "s' = s\<lparr>wins := ws, windows := h\<rparr>" "same_links (wins s) ws"
    using assms unfolding relinked_def by blast
  obtain k where "ws p = (wins s p)\<lparr>win_next := k\<rparr>" using s(2) unfolding same_links_def by blast
  then show "focused s' = focused s" "win_count s' = win_count s" "kheap s' = kheap s" "z_order (wins s' p) = z_order (wins s p)"
    "win_focused (wins s' p) = win_focused (wins s p)" "win_mem (wins s' p) = win_mem (wins s p)"
    by (simp_all add: s(1) win_mem_def)
qed

lemma win_reqs_cong: "(\<And>p. p \<in> set ps \<Longrightarrow> win_mem (ws p) = win_mem (ws' p)) \<Longrightarrow> win_reqs ws ps = win_reqs ws' ps"
  by (auto simp: win_reqs_def win_mem_def)

lemma win_sized_cong: "win_mem w = win_mem w' \<Longrightarrow> win_sized w = win_sized w'"
  by (auto simp: win_sized_def win_mem_def)

lemma sorted_by_cong: "(\<And>p. p \<in> set ps \<Longrightarrow> f p = g p) \<Longrightarrow> sorted_wrt (\<lambda>p q. f p < f q) ps = sorted_wrt (\<lambda>p q. g p < g q) ps"
  by (induction ps) auto

lemma wlist_inv_cong:
  assumes "windows s' = windows s" "\<And>p. p \<in> set ps \<Longrightarrow> win_next (wins s' p) = win_next (wins s p) \<and> z_order (wins s' p) = z_order (wins s p)"
  shows "wlist_inv n ps s' = wlist_inv n ps s"
  using assms wseg_same [of ps "wins s'" "wins s"] sorted_by_cong [of ps "\<lambda>p. z_order (wins s' p)" "\<lambda>p. z_order (wins s p)"]
  by (simp add: wlist_inv_def)

section \<open>Raising a window\<close>

text \<open>The common end of creation and focusing: a window outside the list, given the next depth, becomes its last.\<close>

lemma insert_last:
  assumes "wlist_inv n ps s" "win \<notin> set ps" "win \<noteq> 0" "\<forall>p \<in> set ps. z_order (wins s p) < z" "unat z \<le> n'" "n \<le> n'"
  shows "\<exists>s'. insert_sorted win (upd_win win (\<lambda>w. w\<lparr>z_order := z\<rparr>) s) = Some s' \<and> wlist_inv n' (ps @ [win]) s' \<and>
    relinked (upd_win win (\<lambda>w. w\<lparr>z_order := z\<rparr>) s) s'"
proof -
  let ?s = "upd_win win (\<lambda>w. w\<lparr>z_order := z\<rparr>) s"
  let ?P = "\<lambda>q. z_order (wins ?s q) \<le> z_order (wins ?s win)"
  have c: "wchain (wins ?s) (windows ?s) ps" "distinct ps"
    using assms(1,2) by (auto simp: wlist_inv_def wseg_frame)
  have "\<forall>q \<in> set ps. ?P q" using assms(2,4) by auto
  then have t: "takeWhile ?P ps = ps" "dropWhile ?P ps = []" by (auto simp: takeWhile_eq_all_conv)
  obtain s' where s': "insert_sorted win ?s = Some s'" "relinked ?s s'" "wchain (wins s') (windows s') (ps @ [win])"
    using insert_sorted_chain [OF c assms(2,3)] unfolding t by auto
  have z: "z_order (wins s' p) = (if p = win then z else z_order (wins s p))" for p
    using relinkedD(4) [OF s'(2)] by simp
  have "sorted_wrt (\<lambda>p q. z_order (wins s' p) < z_order (wins s' q)) ps"
    using assms(1,2) by (subst sorted_by_cong [of ps _ "\<lambda>p. z_order (wins s p)"]) (auto simp: z wlist_inv_def)
  then have "wlist_inv n' (ps @ [win]) s'"
    using s'(3) c(2) assms(1,2,4-6) by (auto simp: wlist_inv_def z sorted_wrt_append)
  then show ?thesis using s' by auto
qed

lemma sorted_wrt_remove1: "sorted_wrt P ps \<Longrightarrow> sorted_wrt P (remove1 x ps)"
  by (induction ps) (auto dest: notin_set_remove1)

lemma remove_keeps:
  assumes "wlist_inv n ps s"
  shows "\<exists>s'. remove_from_list win s = Some s' \<and> wlist_inv n (remove1 win ps) s' \<and> relinked s s'"
proof -
  obtain s' where s': "remove_from_list win s = Some s'" "relinked s s'" "wchain (wins s') (windows s') (remove1 win ps)"
    using remove_from_list_chain [of s ps win] assms by (auto simp: wlist_inv_def)
  note z = relinkedD(4) [OF s'(2)]
  have "sorted_wrt (\<lambda>p q. z_order (wins s p) < z_order (wins s q)) (remove1 win ps)"
    using assms by (simp add: wlist_inv_def sorted_wrt_remove1)
  then have "wlist_inv n (remove1 win ps) s'"
    using assms s'(3) by (auto simp: wlist_inv_def z dest: notin_set_remove1 in_set_remove1)
  then show ?thesis using s' by auto
qed

text \<open>Two states that agree on what raising a window leaves alone.\<close>

definition raised :: "'a wm_scheme \<Rightarrow> 'a wm_scheme \<Rightarrow> bool" where
  "raised s s' \<longleftrightarrow> focused s' = focused s \<and> win_count s' = win_count s \<and> kheap s' = kheap s \<and>
     (\<forall>p. win_focused (wins s' p) = win_focused (wins s p) \<and> win_mem (wins s' p) = win_mem (wins s p))"

lemma raised_relinked: "relinked s s' \<Longrightarrow> raised s s'"
  by (simp add: raised_def relinkedD)

lemma raised_trans: "raised s t \<Longrightarrow> raised t u \<Longrightarrow> raised s u"
  by (simp add: raised_def)

lemma raised_upd: "raised s (upd_win p (\<lambda>w. w\<lparr>z_order := z\<rparr>) s)" "raised s ((upd_win p (\<lambda>w. w\<lparr>win_dirty := d\<rparr>) s)\<lparr>needs_composite := b\<rparr>)"
  by (auto simp: raised_def win_mem_def)

lemma raise_window_inv:
  assumes inv: "wlist_inv n ps s" and win: "win \<in> set ps" and n: "n < 4294967295"
  shows "\<exists>s'. raise_window win s = Some s' \<and> raised s s' \<and> wlist_inv (n + 1) (remove1 win ps @ [win]) s'"
proof -
  have c: "wchain (wins s) (windows s) ps" "distinct ps" "\<forall>p \<in> set ps. unat (z_order (wins s p)) \<le> n"
    using inv by (auto simp: wlist_inv_def)
  have w: "win \<noteq> 0" "win \<notin> set (remove1 win ps)" using wseg_nonnull [OF c(1)] win c(2) by auto
  obtain z where z: "get_next_z_order s = Some z" "unat z \<le> n + 1" "\<forall>p \<in> set ps. z_order (wins s p) < z"
    using get_next_z_order_chain [OF c(1,3) n] by blast
  obtain u where u: "remove_from_list win s = Some u" "wlist_inv n (remove1 win ps) u" "relinked s u"
    using remove_keeps [OF inv] by blast
  have "\<forall>p \<in> set (remove1 win ps). z_order (wins u p) < z"
    using z(3) relinkedD(4) [OF u(3)] by (auto dest: notin_set_remove1)
  then obtain v where v: "insert_sorted win (upd_win win (\<lambda>w. w\<lparr>z_order := z\<rparr>) u) = Some v"
    "wlist_inv (n + 1) (remove1 win ps @ [win]) v" "relinked (upd_win win (\<lambda>w. w\<lparr>z_order := z\<rparr>) u) v"
    using insert_last [OF u(2) w(2,1) _ z(2)] by auto
  let ?r = "(upd_win win (\<lambda>w. w\<lparr>win_dirty := True\<rparr>) v)\<lparr>needs_composite := True\<rparr>"
  have "raised s ?r"
    using raised_relinked [OF u(3)] raised_upd(1) raised_relinked [OF v(3)] raised_upd(2) by (blast intro: raised_trans)
  moreover have "wlist_inv (n + 1) (remove1 win ps @ [win]) ?r"
    using v(2) by (subst wlist_inv_cong [of _ v]) auto
  ultimately show ?thesis
    using z(1) u(1) v(1) by (simp add: raise_window_def)
qed

lemma win_reqs_sub:
  assumes "km.holds m (win_reqs ws ps)" "distinct ps'" "set ps' \<subseteq> set ps"
  shows "km.holds m (win_reqs ws ps')"
proof (rule km.holds_perm [OF assms(1)])
  have f: "map fst (win_reqs ws qs) = qs @ map (\<lambda>p. win_buffer (ws p)) qs" for qs by (simp add: win_reqs_def o_def)
  have "distinct (ps @ map (\<lambda>p. win_buffer (ws p)) ps)" using assms(1) unfolding km.holds_def f by blast
  then show "distinct (map fst (win_reqs ws ps'))"
    unfolding f using assms(2,3) by (auto simp: distinct_map inj_on_def subset_iff)
  show "set (win_reqs ws ps') \<subseteq> set (win_reqs ws ps)" using assms(3) by (auto simp: win_reqs_def)
qed

lemma wm_focus_inv:
  assumes inv: "wm_inv n ps s" and win: "win \<in> set ps" and n: "n < 4294967295"
  shows "\<exists>s'. wm_focus_window win s = Some s' \<and> focused s' = win \<and>
    wm_inv (n + 1) (if focused s = win then ps else remove1 win ps @ [win]) s'"
proof (cases "focused s = win")
  case True
  have "win \<noteq> 0" using wm_invD(4) [OF inv] win by auto
  then have w: "wm_focus_window win s = Some (upd_win win (\<lambda>w. w\<lparr>win_focused := True\<rparr>) s)"
    using True by (simp add: wm_focus_window_def)
  have "wins s win = (wins s win)\<lparr>win_focused := True\<rparr>"
    using wm_invD(8) [OF inv] win True by (cases "wins s win") (auto simp: wfocus_inv_def)
  then have "upd_win win (\<lambda>w. w\<lparr>win_focused := True\<rparr>) s = s"
    by (simp add: upd_win_def fun_upd_idem)
  moreover have "wm_inv (n + 1) ps s" using inv by (auto simp: wm_inv_def wlist_inv_def)
  ultimately show ?thesis
    using w True by simp
next
  case False
  let ?qs = "remove1 win ps @ [win]"
  have w0: "win \<noteq> 0" using wm_invD(4) [OF inv] win by auto
  define t where "t = (upd_win win (\<lambda>w. w\<lparr>win_focused := True\<rparr>)
    (if focused s \<noteq> 0 then upd_win (focused s) (\<lambda>w. w\<lparr>win_focused := False\<rparr>) s else s))\<lparr>focused := win\<rparr>"
  have t: "focused t = win" "win_count t = win_count s" "kheap t = kheap s" "win_mem (wins t p) = win_mem (wins s p)" for p
    by (auto simp: t_def win_mem_def)
  have tf: "win_focused (wins t p) \<longleftrightarrow> p = win" if "p \<in> set ps" for p
  proof -
    have "win_focused (wins s p) \<longleftrightarrow> p = focused s" "p \<noteq> 0"
      using wm_invD(4,8) [OF inv] that by (auto simp: wfocus_inv_def)
    then show ?thesis by (simp add: t_def)
  qed
  have tl: "wlist_inv n ps t" using wm_invD(7) [OF inv] by (subst wlist_inv_cong [of t s]) (auto simp: t_def)
  obtain r where r: "raise_window win t = Some r" "raised t r" "wlist_inv (n + 1) ?qs r"
    using raise_window_inv [OF tl win n] by blast
  have set: "set ?qs = set ps" "distinct ?qs" using win wm_invD(2) [OF inv] by auto
  have len: "length ?qs = length ps"
    using distinct_card [OF set(2)] distinct_card [OF wm_invD(2) [OF inv]] set(1) by metis
  have m: "win_mem (wins r p) = win_mem (wins s p)" for p using r(2) t(4) by (simp add: raised_def)
  have "km.holds (kheap s) (win_reqs (wins r) ?qs)"
    using win_reqs_sub [OF wm_invD(9) [OF inv] set(2) eq_refl [OF set(1)]] win_reqs_cong [of ?qs "wins r" "wins s"] m by simp
  moreover have "wfocus_inv ?qs r" using r(2) tf t(1) win unfolding wfocus_inv_def raised_def set(1) by simp
  moreover have "\<forall>p \<in> set ?qs. win_sized (wins r p)"
    unfolding set(1) using inv win_sized_cong [OF m] by (simp add: wm_inv_def)
  ultimately have "wm_inv (n + 1) ?qs r"
    using r(2,3) t(2,3) len wm_invD(5,6) [OF inv] unfolding wm_inv_def raised_def by simp
  moreover have "wm_focus_window win s = Some r"
    using False w0 r(1) by (simp add: wm_focus_window_def t_def Let_def)
  ultimately show ?thesis using False r(2) t(1) by (auto simp: raised_def)
qed

section \<open>The mouse\<close>

text \<open>Operations on windows leave the mouse driver alone.\<close>

definition mouse_same :: "'a wm_scheme \<Rightarrow> 'a wm_scheme \<Rightarrow> bool" where
  "mouse_same s s' \<longleftrightarrow> mouse_inv s' = mouse_inv s \<and> mouse_queue s' = mouse_queue s"

lemma mouse_same_refl: "mouse_same s s"
  by (simp add: mouse_same_def)

lemma mouse_same_trans: "mouse_same s t \<Longrightarrow> mouse_same t u \<Longrightarrow> mouse_same s u"
  by (simp add: mouse_same_def)

lemma mouse_same_upd:
  "mouse_same s (upd_win p f s)" "mouse_same s (s\<lparr>windows := h\<rparr>)" "mouse_same s (s\<lparr>focused := h\<rparr>)" "mouse_same s (s\<lparr>kheap := k\<rparr>)"
  "mouse_same s (s\<lparr>win_count := c\<rparr>)" "mouse_same s (s\<lparr>needs_composite := b\<rparr>)" "mouse_same s (glog fmt as s)"
  by (simp_all add: mouse_same_def mouse_inv_def mouse_queue_def upd_win_def glog_def)

lemma relinked_mouse: "relinked s s' \<Longrightarrow> mouse_same s s'"
  by (auto simp: relinked_def mouse_same_def mouse_inv_def mouse_queue_def)

lemma wm_destroy_mouse:
  assumes "wm_inv n ps s" "wm_destroy_window win s = Some s'"
  shows "mouse_same s s'"
proof -
  obtain t where t: "remove_from_list win s = Some t" "relinked s t"
    using remove_keeps [OF wm_invD(7) [OF assms(1)]] by blast
  have "mouse_same t s'" if "win \<noteq> 0"
    using assms(2) t(1) that
    by (cases "focused t = win"; cases "win_buffer (wins t win) = 0")
      (auto simp: wm_destroy_window_def Let_def mouse_same_def mouse_inv_def mouse_queue_def upd_win_def glog_def)
  then show ?thesis
    using relinked_mouse [OF t(2)] assms(2) by (cases "win = 0") (auto simp: mouse_same_refl wm_destroy_window_def intro: mouse_same_trans)
qed

lemma raise_window_mouse:
  assumes "wlist_inv n ps s" "win \<in> set ps" "n < 4294967295" "raise_window win s = Some s'"
  shows "mouse_same s s'"
proof -
  have c: "wchain (wins s) (windows s) ps" "distinct ps" using assms(1) by (auto simp: wlist_inv_def)
  have w: "win \<noteq> 0" "win \<notin> set (remove1 win ps)" using wseg_nonnull [OF c(1)] assms(2) c(2) by auto
  obtain t where t: "remove_from_list win s = Some t" "relinked s t" "wlist_inv n (remove1 win ps) t"
    using remove_keeps [OF assms(1)] by blast
  obtain z where z: "get_next_z_order s = Some z" using assms(4) by (cases "get_next_z_order s") (auto simp: raise_window_def)
  let ?t = "upd_win win (\<lambda>w. w\<lparr>z_order := z\<rparr>) t"
  have "wchain (wins ?t) (windows ?t) (remove1 win ps)" "distinct (remove1 win ps)"
    using t(3) w(2) by (auto simp: wlist_inv_def wseg_frame)
  then obtain u where u: "insert_sorted win ?t = Some u" "relinked ?t u"
    using insert_sorted_chain w by blast
  have e: "s' = (upd_win win (\<lambda>w. w\<lparr>win_dirty := True\<rparr>) u)\<lparr>needs_composite := True\<rparr>"
    using assms(4) t(1) z u(1) by (simp add: raise_window_def)
  have "mouse_same u s'" unfolding e by (rule mouse_same_trans [OF mouse_same_upd(1) mouse_same_upd(6)])
  from mouse_same_trans [OF mouse_same_trans [OF relinked_mouse [OF t(2)] mouse_same_upd(1)] mouse_same_trans [OF relinked_mouse [OF u(2)] this]]
  show ?thesis .
qed

lemma wm_focus_mouse:
  assumes inv: "wm_inv n ps s" and win: "win \<in> set ps" "n < 4294967295" and f: "wm_focus_window win s = Some s'"
  shows "mouse_same s s'"
proof (cases "focused s = win")
  case True
  then show ?thesis using f wm_invD(4) [OF inv] win by (auto simp: wm_focus_window_def mouse_same_upd mouse_same_refl split: if_splits)
next
  case False
  have w0: "win \<noteq> 0" using wm_invD(4) [OF inv] win(1) by auto
  let ?t = "(upd_win win (\<lambda>w. w\<lparr>win_focused := True\<rparr>)
    (if focused s \<noteq> 0 then upd_win (focused s) (\<lambda>w. w\<lparr>win_focused := False\<rparr>) s else s))\<lparr>focused := win\<rparr>"
  have "mouse_same s ?t" by (simp add: mouse_same_def mouse_inv_def mouse_queue_def upd_win_def)
  moreover have "wlist_inv n ps ?t" using wm_invD(7) [OF inv] by (subst wlist_inv_cong [of ?t s]) auto
  moreover have "raise_window win ?t = Some s'"
    using f False w0 unfolding wm_focus_window_def Let_def by simp
  ultimately show ?thesis using raise_window_mouse win by (blast intro: mouse_same_trans)
qed

section \<open>Creation\<close>

lemma wm_inv_off:
  assumes "wm_inv n ps s" "\<And>p. p \<in> set ps \<Longrightarrow> wins s' p = wins s p" "windows s' = windows s" "focused s' = focused s"
    "win_count s' = win_count s" "km.holds (kheap s') (win_reqs (wins s) ps)"
  shows "wm_inv n ps s'"
  using assms wlist_inv_cong [of s' s ps n] win_reqs_cong [of ps "wins s'" "wins s"]
  by (auto simp: wm_inv_def wfocus_inv_def)

lemma wm_inv_frame:
  assumes "wins s' = wins s" "windows s' = windows s" "focused s' = focused s" "win_count s' = win_count s" "kheap s' = kheap s"
  shows "wm_inv n ps s' = wm_inv n ps s"
  using assms by (simp add: wm_inv_def wlist_inv_def wfocus_inv_def)

lemma fill_words_stores:
  "fill_words p n v s = s\<lparr>vram := stores (map (\<lambda>i. (p + 4 * of_nat i, v)) [0..<n]) (vram s)\<rparr>"
proof -
  have "fold (\<lambda>i s. s\<lparr>vram := (vram s)(p + 4 * of_nat i := v)\<rparr>) js s = s\<lparr>vram := stores (map (\<lambda>i. (p + 4 * of_nat i, v)) js) (vram s)\<rparr>" for js
    by (induction js arbitrary: s) simp_all
  then show ?thesis by (simp add: fill_words_def)
qed

text \<open>Linking a new window that is complete but for its depth.\<close>

lemma link_new:
  assumes inv: "wm_inv n ps s" and win: "win \<notin> set ps" "win \<noteq> 0" "length ps < 16" and n: "n < 4294967294"
    and w: "\<not> win_focused (wins s win)" "win_sized (wins s win)"
    and h: "km.holds (kheap s) (win_reqs (wins s) (ps @ [win]))"
  shows "\<exists>z t u. get_next_z_order s = Some z \<and> insert_sorted win (upd_win win (\<lambda>w. w\<lparr>z_order := z\<rparr>) s) = Some t \<and>
    wm_focus_window win (t\<lparr>win_count := win_count t + 1\<rparr>) = Some u \<and> focused u = win \<and> wm_inv (n + 2) (ps @ [win]) u \<and> mouse_same s u"
proof -
  obtain z where z: "get_next_z_order s = Some z" "unat z \<le> n + 1" "\<forall>p \<in> set ps. z_order (wins s p) < z"
    using get_next_z_order_chain [OF wm_invD(1,3) [OF inv]] n by auto
  obtain t where t: "insert_sorted win (upd_win win (\<lambda>w. w\<lparr>z_order := z\<rparr>) s) = Some t"
    "wlist_inv (n + 1) (ps @ [win]) t" "relinked (upd_win win (\<lambda>w. w\<lparr>z_order := z\<rparr>) s) t"
    using insert_last [OF wm_invD(7) [OF inv] win(1,2) z(3,2)] by auto
  let ?t = "t\<lparr>win_count := win_count t + 1\<rparr>"
  have r: "raised s t" using raised_trans [OF raised_upd(1) raised_relinked [OF t(3)]] .
  have m: "win_mem (wins t p) = win_mem (wins s p)" "win_focused (wins t p) = win_focused (wins s p)" for p
    using r by (simp_all add: raised_def)
  have f: "focused s \<noteq> win" using wm_invD(8) [OF inv] win by (auto simp: wfocus_inv_def)
  have "wlist_inv (n + 1) (ps @ [win]) ?t" using t(2) by (subst wlist_inv_cong [of _ t]) auto
  moreover have "wfocus_inv (ps @ [win]) ?t"
    using wm_invD(8) [OF inv] r w(1) f by (auto simp: wfocus_inv_def raised_def)
  moreover have "\<forall>p \<in> set (ps @ [win]). win_sized (wins ?t p)"
    using inv w(2) win_sized_cong [OF m(1)] by (simp add: wm_inv_def)
  moreover have "km.holds (kheap ?t) (win_reqs (wins ?t) (ps @ [win]))"
    using h r win_reqs_cong [of "ps @ [win]" "wins t" "wins s"] m(1) by (simp add: raised_def)
  ultimately have i: "wm_inv (n + 1) (ps @ [win]) ?t"
    using r wm_invD(5) [OF inv] win(3) by (simp add: wm_inv_def raised_def)
  from wm_focus_inv [OF this, of win] n f r win(1)
  obtain u where u: "wm_focus_window win ?t = Some u" "focused u = win" "wm_inv (n + 1 + 1) (ps @ [win]) u"
    by (auto simp: raised_def remove1_append)
  have "mouse_same ?t u" using wm_focus_mouse [OF i _ _ u(1)] n by simp
  then have "mouse_same s u"
    using mouse_same_trans [OF mouse_same_trans [OF mouse_same_upd(1) relinked_mouse [OF t(3)]] mouse_same_trans [OF mouse_same_upd(5)]] by blast
  then show ?thesis using z(1) t(1) u by auto
qed

lemma kheap_same [simp]: "s\<lparr>kheap := kheap s\<rparr> = (s :: 'a wm_scheme)"
  by (cases s) simp

lemma wm_inv_vram: "wm_inv n ps (s\<lparr>vram := m\<rparr>) = wm_inv n ps s"
  by (rule wm_inv_frame) simp_all

lemma place_window_inv:
  assumes inv: "wm_inv n ps s" and win: "win \<notin> set ps" "win \<noteq> 0" "length ps < 16" and n: "n < 4294967294"
    and w: "\<not> win_focused (wins s win)" "win_sized (wins s win)"
    and h: "km.holds (kheap s) (win_reqs (wins s) (ps @ [win]))"
  shows "\<exists>s'. place_window win x y cw ch text s = Some (win, s') \<and> focused s' = win \<and> wm_inv (n + 2) (ps @ [win]) s' \<and> mouse_same s s'"
proof -
  obtain m where m: "fill_words (win_buffer (wins s win)) (unat (cw * ch)) (color_to_pixel WM_CONTENT_BG) s = s\<lparr>vram := m\<rparr>"
    using fill_words_stores by blast
  let ?s = "s\<lparr>vram := m\<rparr>"
  have i: "wm_inv n ps ?s" using inv by (simp add: wm_inv_vram)
  obtain z t u where r: "get_next_z_order ?s = Some z" "insert_sorted win (upd_win win (\<lambda>w. w\<lparr>z_order := z\<rparr>) ?s) = Some t"
    "wm_focus_window win (t\<lparr>win_count := win_count t + 1\<rparr>) = Some u" "focused u = win" "wm_inv (n + 2) (ps @ [win]) u" "mouse_same ?s u"
    using link_new [OF i win n, of] w h by auto
  have "wm_inv (n + 2) (ps @ [win]) (glog f as (u\<lparr>needs_composite := True\<rparr>))" for f as
    using r(5) by (subst wm_inv_frame [of _ u]) (simp_all add: glog_def)
  moreover have "focused (glog f as (u\<lparr>needs_composite := True\<rparr>)) = win" for f as
    using r(4) by (simp add: glog_def)
  moreover have "mouse_same s (glog f as (u\<lparr>needs_composite := True\<rparr>))" for f as
    using r(6) by (simp add: mouse_same_def mouse_inv_def mouse_queue_def glog_def)
  ultimately show ?thesis
    using r(1-3) by (simp add: place_window_def m Let_def)
qed

text \<open>The requests of the list with the new window, from those of the list and its own two.\<close>

lemma holds_new:
  assumes "km.holds h ((buf, sz) # (win, 80) # win_reqs ws ps)" "win \<notin> set ps"
    and "win_buffer w = buf" "content_w w * content_h w * 4 = sz"
  shows "km.holds h (win_reqs (ws(win := w)) (ps @ [win]))"
proof (rule km.holds_perm [OF assms(1)])
  have f: "map fst (win_reqs ws qs) = qs @ map (\<lambda>p. win_buffer (ws p)) qs" for ws qs by (simp add: win_reqs_def o_def)
  have e: "map (\<lambda>p. win_buffer ((ws(win := w)) p)) ps = map (\<lambda>p. win_buffer (ws p)) ps" using assms(2) by auto
  have "distinct (map fst ((buf, sz) # (win, 80) # win_reqs ws ps))" using assms(1) unfolding km.holds_def by blast
  then show "distinct (map fst (win_reqs (ws(win := w)) (ps @ [win])))"
    using assms(2,3) unfolding f map_append e by (auto simp: f)
  show "set (win_reqs (ws(win := w)) (ps @ [win])) \<subseteq> set ((buf, sz) # (win, 80) # win_reqs ws ps)"
    using assms(2-4) by (auto simp: win_reqs_def)
qed

lemma kmalloc_any:
  assumes "km.holds m rs" "unat sz \<le> 4294967280"
  obtains "kmalloc m sz = Some (0, m)"
  | p m' where "kmalloc m sz = Some (p, m')" "p \<noteq> 0" "km.holds m' ((p, sz) # rs)"
proof (cases "sz = 0")
  case True
  then show ?thesis using that(1) by (simp add: kmalloc_def)
next
  case False
  then show ?thesis using km.holds_alloc [OF assms(1) _ assms(2)] that by (auto simp: unat_gt_0)
qed

lemma wm_create_inv:
  assumes inv: "wm_inv n ps s" and n: "n < 4294967294" and sz: "unat (cw * ch * 4) \<le> 4294967280"
  shows "\<exists>win s'. wm_create_window x y cw ch text s = Some (win, s') \<and> mouse_same s s' \<and>
    (if win = 0 then wm_inv n ps s' else win \<notin> set ps \<and> focused s' = win \<and> wm_inv (n + 2) (ps @ [win]) s')"
proof (cases "length ps < 16")
  case False
  then show ?thesis using inv wm_invD(5) [OF inv] by (simp add: wm_create_window_def WM_MAX_WINDOWS_def mouse_same_refl)
next
  case len: True
  then have c: "\<not> WM_MAX_WINDOWS \<le> win_count s" using wm_invD(5) [OF inv] by (simp add: WM_MAX_WINDOWS_def)
  show ?thesis
  proof (rule kmalloc_any [OF wm_invD(9) [OF inv], of 80])
    assume "kmalloc (kheap s) 80 = Some (0, kheap s)"
    then show ?thesis using inv c by (simp add: wm_create_window_def mouse_same_refl)
  next
    fix win m
    assume a: "kmalloc (kheap s) 80 = Some (win, m)" "win \<noteq> 0" "km.holds m ((win, 80) # win_reqs (wins s) ps)"
    have nw: "win \<notin> set ps" using a(3) by (auto simp: km.holds_def win_reqs_def image_iff)
    let ?t = "upd_win win (new_window x y cw ch text) (s\<lparr>kheap := m\<rparr>)"
    let ?u = "\<lambda>buf h. upd_win win (\<lambda>w. w\<lparr>win_buffer := buf\<rparr>) (?t\<lparr>kheap := h\<rparr>)"
    have cr: "wm_create_window x y cw ch text s = (if buf = 0 then Some (0, ?u buf h\<lparr>kheap := kfree h win\<rparr>)
        else place_window win x y cw ch text (?u buf h))" if "kmalloc m (cw * ch * 4) = Some (buf, h)" for buf h
      using a(1,2) c that by (simp add: wm_create_window_def)
    have off: "wm_inv n ps (?u buf h\<lparr>kheap := h'\<rparr>)" "wm_inv n ps (?u buf h')" if "km.holds h' (win_reqs (wins s) ps)" for buf h h'
      by (rule wm_inv_off [OF inv]; use nw that in auto)+
    have ms: "mouse_same s (?u buf h\<lparr>kheap := h'\<rparr>)" "mouse_same s (?u buf h)" for buf h h'
      by (simp_all add: mouse_same_def mouse_inv_def mouse_queue_def upd_win_def)
    show ?thesis
    proof (rule kmalloc_any [OF a(3) sz])
      assume "kmalloc m (cw * ch * 4) = Some (0, m)"
      then show ?thesis using cr off(1) [OF km.holds_free [OF a(3)]] ms(1) by simp
    next
      fix buf h
      assume b: "kmalloc m (cw * ch * 4) = Some (buf, h)" "buf \<noteq> 0" "km.holds h ((buf, cw * ch * 4) # (win, 80) # win_reqs (wins s) ps)"
      have "km.holds h (win_reqs (wins s) ps)"
        by (rule km.holds_perm [OF b(3)]) (use a(3) in \<open>auto simp: km.holds_def\<close>)
      from off(2) [OF this] have i: "wm_inv n ps (?u buf h)" .
      have "km.holds (kheap (?u buf h)) (win_reqs (wins (?u buf h)) (ps @ [win]))"
        using holds_new [OF b(3) nw, of "(new_window x y cw ch text (wins s win))\<lparr>win_buffer := buf\<rparr>"]
        by (simp add: new_window_def compute_window_size_def)
      from place_window_inv [OF i nw a(2) len n _ _ this, of x y cw ch "text"] show ?thesis
        using cr [OF b(1)] b(2) a(2) nw mouse_same_trans [OF ms(2)]
        by (auto simp: new_window_def compute_window_size_def win_sized_def wm_consts)
    qed
  qed simp
qed

section \<open>Destruction\<close>

lemma holds_split:
  assumes "km.holds h (win_reqs ws ps)" "win \<in> set ps" "distinct ps"
  shows "km.holds h ((win_buffer (ws win), content_w (ws win) * content_h (ws win) * 4) # (win, 80) # win_reqs ws (remove1 win ps))"
proof (rule km.holds_perm [OF assms(1)])
  have f: "map fst (win_reqs ws qs) = qs @ map (\<lambda>p. win_buffer (ws p)) qs" for qs by (simp add: win_reqs_def o_def)
  have "distinct (ps @ map (\<lambda>p. win_buffer (ws p)) ps)" using assms(1) unfolding km.holds_def f by blast
  then show "distinct (map fst ((win_buffer (ws win), content_w (ws win) * content_h (ws win) * 4) # (win, 80) # win_reqs ws (remove1 win ps)))"
    using assms(2,3) by (auto simp: f distinct_map inj_on_def dest: notin_set_remove1) (metis (no_types, lifting) disjoint_iff imageI)
  show "set ((win_buffer (ws win), content_w (ws win) * content_h (ws win) * 4) # (win, 80) # win_reqs ws (remove1 win ps)) \<subseteq> set (win_reqs ws ps)"
    using assms(2,3) by (auto simp: win_reqs_def)
qed

lemma wm_destroy_inv:
  assumes inv: "wm_inv n ps s" and win: "win \<in> set ps"
  shows "\<exists>s'. wm_destroy_window win s = Some s' \<and> wm_inv n (remove1 win ps) s' \<and>
    focused s' = (if focused s = win then 0 else focused s) \<and> (\<forall>p. p \<noteq> win \<longrightarrow> win_mem (wins s' p) = win_mem (wins s p))"
proof -
  let ?qs = "remove1 win ps" and ?buf = "win_buffer (wins s win)"
  have w: "win \<noteq> 0" "win \<notin> set ?qs" "set ?qs \<subseteq> set ps" "length ps = Suc (length ?qs)"
    using wm_invD(2,4) [OF inv] win by (auto simp: length_remove1 dest: notin_set_remove1 length_pos_if_in_set)
  note h = holds_split [OF wm_invD(9) [OF inv] win wm_invD(2) [OF inv]]
  have b: "?buf \<noteq> 0" using km.holds_nonnull [OF h] by auto
  obtain t where t: "remove_from_list win s = Some t" "wlist_inv n ?qs t" "relinked s t"
    using remove_keeps [OF wm_invD(7) [OF inv]] by blast
  note r = raised_relinked [OF t(3), unfolded raised_def]
  let ?f = "if focused s = win then 0 else focused s"
  let ?h = "kfree (kfree (kheap s) ?buf) win"
  obtain s' where s': "wm_destroy_window win s = Some s'" "focused s' = ?f" "kheap s' = ?h" "win_count s' = win_count s - 1"
    "wins s' = (wins t)(win := (wins t win)\<lparr>win_buffer := 0\<rparr>)" "windows s' = windows t"
    using t(1) w(1) b r by (auto simp: wm_destroy_window_def Let_def glog_def win_mem_def)
  have o: "wins s' p = wins t p" if "p \<in> set ?qs" for p using w(2) that by (auto simp: s'(5))
  have m: "win_mem (wins s' p) = win_mem (wins s p)" if "p \<in> set ?qs" for p using o [OF that] r by simp
  have "wlist_inv n ?qs s'" using t(2) o s'(6) by (subst wlist_inv_cong [of _ t]) auto
  moreover have "wfocus_inv ?qs s'"
    using wm_invD(2,4,8) [OF inv] r o w(2,3) unfolding wfocus_inv_def s'(2) by (auto simp: subset_iff)
  moreover have "\<forall>p \<in> set ?qs. win_sized (wins s' p)"
    using inv w(3) win_sized_cong [OF m] unfolding wm_inv_def by blast
  moreover have "km.holds (kheap s') (win_reqs (wins s') ?qs)"
    using km.holds_free [OF km.holds_free [OF h]] win_reqs_cong [of ?qs "wins s'" "wins s"] m s'(3) by simp
  ultimately have "wm_inv n ?qs s'"
    using s'(4) wm_invD(5,6) [OF inv] w(4) by (simp add: wm_inv_def)
  then show ?thesis using s'(1,2,5) r by auto
qed

end
