(* ===== verification/Sros_Window_Draw.thy ===== *)
theory Sros_Window_Draw
  imports Sros_Window_Inv
begin

unbundle bit_operations_syntax

text \<open>
  What the drawing functions of the window manager do to the screen: a window's frame stays inside its
  rectangle, its content area shows its buffer, and so the composition shows at every point the
  window that a click at that point would find.
\<close>

section \<open>Drawing inside a region\<close>

definition touches :: "(u32 \<Rightarrow> u32 \<Rightarrow> bool) \<Rightarrow> 'a gfx_scheme \<Rightarrow> 'a gfx_scheme \<Rightarrow> bool" where
  "touches A s s' \<longleftrightarrow> (\<exists>m. s' = s\<lparr>vram := m\<rparr> \<and>
     (\<forall>a. m a \<noteq> vram s a \<longrightarrow> (\<exists>x y. A x y \<and> on_screen (fb s) x y \<and> a = px_addr (fb s) x y)))"

lemma vram_same [simp]: "s\<lparr>vram := vram s\<rparr> = (s :: 'a gfx_scheme)"
  by (cases s) simp

lemma touches_refl [simp]: "touches A s s"
  unfolding touches_def by (rule exI [of _ "vram s"]) simp

lemma touches_fb: "touches A s s' \<Longrightarrow> fb s' = fb s"
  by (auto simp: touches_def)

lemma touches_trans:
  assumes "touches A s t" "touches A t u"
  shows "touches A s u"
proof -
  obtain m where m: "t = s\<lparr>vram := m\<rparr>" "\<forall>a. m a \<noteq> vram s a \<longrightarrow> (\<exists>x y. A x y \<and> on_screen (fb s) x y \<and> a = px_addr (fb s) x y)"
    using assms(1) unfolding touches_def by blast
  obtain k where k: "u = t\<lparr>vram := k\<rparr>" "\<forall>a. k a \<noteq> vram t a \<longrightarrow> (\<exists>x y. A x y \<and> on_screen (fb t) x y \<and> a = px_addr (fb t) x y)"
    using assms(2) unfolding touches_def by blast
  have "\<forall>a. k a \<noteq> vram s a \<longrightarrow> (\<exists>x y. A x y \<and> on_screen (fb s) x y \<and> a = px_addr (fb s) x y)"
    using m k by (metis gfx.select_convs(1,2) gfx.surjective gfx.update_convs(2))
  then show ?thesis unfolding touches_def using m(1) k(1) by (intro exI [of _ k]) simp
qed

lemma touches_plot: "A x y \<Longrightarrow> touches A s (plot x y v s)"
  unfolding touches_def
  by (rule exI [of _ "vram (plot x y v s)"]) (auto simp: plot_def poke_def on_screen_def px_addr_def)

lemma touches_fold: "(\<And>x s. x \<in> set xs \<Longrightarrow> touches A s (f x s)) \<Longrightarrow> touches A s (fold f xs s)"
  by (induction xs arbitrary: s) (auto intro: touches_trans)

lemma touches_pixel:
  assumes "touches A s s'" "fb_ok (fb s)" "on_screen (fb s) x y" "\<not> A x y"
  shows "pixel s' x y = pixel s x y"
  using assms px_addr_inj [OF assms(2,3)] unfolding touches_def pixel_def by force

lemma touches_other:
  assumes "touches A s s'" "\<And>x y. on_screen (fb s) x y \<Longrightarrow> a \<noteq> px_addr (fb s) x y"
  shows "vram s' a = vram s a"
  using assms unfolding touches_def by fastforce

section \<open>The frame\<close>

text \<open>The point lies in the rectangle of the window; the window has room for its title bar.\<close>

definition in_win :: "window_t \<Rightarrow> u32 \<Rightarrow> u32 \<Rightarrow> bool" where
  "in_win w x y \<longleftrightarrow> x - of_int (win_x w) < win_width w \<and> y - of_int (win_y w) < win_height w"

definition win_fits :: "window_t \<Rightarrow> bool" where
  "win_fits w \<longleftrightarrow> 28 \<le> unat (win_width w) \<and> 22 \<le> unat (win_height w) \<and>
     unat (win_width w) < 0x80000000 \<and> unat (win_height w) < 0x80000000"

lemma of_nat_below: "n < unat (w :: u32) \<Longrightarrow> of_nat n < w"
  by (simp add: word_less_nat_alt unat_of_nat_u32 less_trans [OF _ unat_u32_less])

lemma in_winI:
  assumes "i < unat (win_width w)" "j < unat (win_height w)"
  shows "in_win w (of_int (win_x w) + of_nat i) (of_int (win_y w) + of_nat j)"
  using assms by (simp add: in_win_def of_nat_below)

lemma minus_back: "n \<le> unat (w :: u32) \<Longrightarrow> w - of_nat n = of_nat (unat w - n)"
  by (simp add: of_nat_diff)

lemma touches_border:
  assumes "win_fits w" "b < 2"
  shows "touches (in_win w) s (draw_border w v b s)"
proof -
  have w: "b < unat (win_width w)" "b < unat (win_height w)" using assms by (auto simp: win_fits_def)
  have e: "win_width w - 1 - of_nat b = of_nat (unat (win_width w) - Suc b)" "win_height w - 1 - of_nat b = of_nat (unat (win_height w) - Suc b)"
    using w minus_back [of "Suc b" "win_width w"] minus_back [of "Suc b" "win_height w"] by (simp_all add: algebra_simps)
  have far: "in_win w (of_int (win_x w) + win_width w - 1 - of_nat b) (of_int (win_y w) + of_nat j)"
    "in_win w (of_int (win_x w) + of_nat i) (of_int (win_y w) + win_height w - 1 - of_nat b)"
    if "i < unat (win_width w)" "j < unat (win_height w)" for i j
    using in_winI [of "unat (win_width w) - Suc b" w j] in_winI [of i w "unat (win_height w) - Suc b"] that w
    unfolding add_diff_eq [symmetric] e [symmetric] by (simp_all add: add_diff_eq)
  show ?thesis
    unfolding draw_border_def Let_def
    by (intro touches_trans [OF touches_fold touches_trans [OF touches_fold touches_trans [OF touches_fold touches_fold]]] touches_plot)
      (use w far in \<open>auto intro!: in_winI\<close>)
qed

lemma touches_title_bar:
  assumes "win_fits w"
  shows "touches (in_win w) s (draw_title_bar w v s)"
  unfolding draw_title_bar_def
proof (rule touches_fold, clarify, rule touches_plot)
  fix ty tx
  assume "(ty, tx) \<in> set (List.product [0..<WM_TITLE_HEIGHT] [WM_BORDER_WIDTH..<unat (win_width w - of_nat WM_BORDER_WIDTH)])"
  then have "ty < 20" "tx < unat (win_width w) - 2"
    using assms by (auto simp: wm_consts win_fits_def unat_sub_if')
  then have "in_win w (of_int (win_x w) + of_nat tx) (of_int (win_y w) + of_nat (2 + ty))"
    using assms by (intro in_winI) (auto simp: win_fits_def)
  then show "in_win w (of_int (win_x w) + of_nat tx) (of_int (win_y w + int WM_BORDER_WIDTH) + of_nat ty)"
    by (simp add: wm_consts add.assoc)
qed

lemma touches_title:
  assumes "win_fits w"
  shows "touches (in_win w) s (draw_title w fg bg s)"
  unfolding draw_title_def
proof (rule touches_fold)
  fix ci s
  assume "ci \<in> set [0..<min (length (title w)) (unat (max_title_chars w))]"
  then have "ci < unat (max_title_chars w)" by simp
  moreover have "unat (max_title_chars w) = (unat (win_width w) - 28) div 8"
    using assms by (simp add: max_title_chars_def wm_consts font_consts win_fits_def unat_div unat_sub_if')
  ultimately have ci: "ci * 8 + 36 \<le> unat (win_width w)" using assms by (auto simp: win_fits_def)
  show "touches (in_win w) s (draw_title_char w fg bg ci s)"
    unfolding draw_title_char_def Let_def
  proof (rule touches_fold, clarify, rule touches_plot)
    fix row col
    assume "(row, col) \<in> set glyph_cells"
    then have "row < 16" "col < 8" by (auto simp: glyph_cells_def font_consts)
    then have "in_win w (of_int (win_x w) + of_nat (6 + ci * 8 + col)) (of_int (win_y w) + of_nat (4 + row))"
      using ci assms by (intro in_winI) (auto simp: win_fits_def)
    then show "in_win w (of_int (win_x w + int WM_BORDER_WIDTH + 4) + of_nat (ci * FONT_CHAR_WIDTH) + of_nat col)
        (of_int (win_y w + int WM_BORDER_WIDTH) + of_nat ((WM_TITLE_HEIGHT - FONT_CHAR_HEIGHT) div 2) + of_nat row)"
      by (simp add: wm_consts font_consts add.assoc)
  qed
qed

lemma touches_close_button:
  assumes "win_fits w"
  shows "touches (in_win w) s (draw_close_button w s)"
proof -
  let ?x = "of_int (win_x w + sint (win_width w) - int WM_BORDER_WIDTH - int WM_CLOSE_BTN_MARG - int WM_CLOSE_BTN_W) :: u32"
  let ?y = "of_int (win_y w + int WM_BORDER_WIDTH + int ((WM_TITLE_HEIGHT - WM_CLOSE_BTN_H) div 2)) :: u32"
  have x: "?x = of_int (win_x w) + of_nat (unat (win_width w) - 19)"
    using assms by (simp add: wm_consts win_fits_def of_nat_diff)
  have y: "?y = of_int (win_y w) + of_nat 5" by (simp add: wm_consts)
  have i: "in_win w (?x + of_nat i) (?y + of_nat j)" if "i < 14" "j < 14" for i j
    unfolding x y using in_winI [of "unat (win_width w) - 19 + i" w "5 + j"] that assms
    by (auto simp: win_fits_def add.assoc)
  have up: "?y + of_nat WM_CLOSE_BTN_H - 1 - of_nat j = ?y + of_nat (13 - j)" if "j < 14" for j
    using that by (simp add: wm_consts of_nat_diff)
  have k: "in_win w (?x + of_nat i) (?y + of_nat WM_CLOSE_BTN_H - 1 - of_nat i)" if "i < 14" for i
    unfolding up [OF that] using that by (intro i) simp_all
  show ?thesis
    unfolding draw_close_button_def Let_def
    by (intro touches_trans [OF touches_fold touches_fold], clarify)
      (use i k in \<open>auto simp: WM_CLOSE_BTN_H_def WM_CLOSE_BTN_W_def intro!: touches_plot touches_trans [OF touches_plot touches_plot]\<close>)
qed

lemma touches_frame:
  assumes "win_fits w"
  shows "touches (in_win w) s (draw_window_frame w s)"
  unfolding draw_window_frame_def Let_def
  by (intro touches_trans [OF touches_fold touches_trans [OF touches_title_bar touches_trans [OF touches_title touches_close_button]]])
    (use assms in \<open>auto intro: touches_border simp: WM_BORDER_WIDTH_def\<close>)

section \<open>The content\<close>

text \<open>Where in the content area a point of the screen lies.\<close>

definition cx_of :: "window_t \<Rightarrow> u32 \<Rightarrow> u32" where "cx_of w x = x - of_int (win_x w + 2)"
definition cy_of :: "window_t \<Rightarrow> u32 \<Rightarrow> u32" where "cy_of w y = y - of_int (win_y w + 22)"

definition in_content :: "window_t \<Rightarrow> u32 \<Rightarrow> u32 \<Rightarrow> bool" where
  "in_content w x y \<longleftrightarrow> cx_of w x < content_w w \<and> cy_of w y < content_h w"

definition buf_addr :: "window_t \<Rightarrow> u32 \<Rightarrow> u32 \<Rightarrow> u32" where
  "buf_addr w rx ry = win_buffer w + 4 * (ry * content_w w + rx)"

text \<open>The buffer of the window is not video memory.\<close>

definition buf_apart :: "framebuffer_t \<Rightarrow> window_t \<Rightarrow> bool" where
  "buf_apart f w \<longleftrightarrow> (\<forall>rx ry x y. rx < content_w w \<and> ry < content_h w \<and> on_screen f x y \<longrightarrow> buf_addr w rx ry \<noteq> px_addr f x y)"

lemma fold_plot_from:
  fixes s :: "'a gfx_scheme"
  assumes "\<And>p x y. p \<in> set ps \<Longrightarrow> on_screen (fb s) x y \<Longrightarrow> b p \<noteq> px_addr (fb s) x y"
  shows "fold (\<lambda>p s. plot (X p) (Y p) (vram s (b p)) s) ps s = fold (\<lambda>p. plot (X p) (Y p) (vram s (b p))) ps s"
proof -
  have gen: "fold (\<lambda>p s. plot (X p) (Y p) (vram s (b p)) s) ps t = fold (\<lambda>p. plot (X p) (Y p) (m (b p))) ps t"
    if "fb t = fb s" "\<And>p. p \<in> set ps \<Longrightarrow> vram t (b p) = m (b p)" for t :: "'a gfx_scheme" and m
    using that assms
  proof (induction ps arbitrary: t)
    case (Cons q ps)
    let ?t = "plot (X q) (Y q) (m (b q)) t"
    have "fb ?t = fb s" "\<And>p. p \<in> set ps \<Longrightarrow> vram ?t (b p) = m (b p)"
      using Cons.prems touches_other [OF touches_plot [of "\<lambda>_ _. True" "X q" "Y q" t "m (b q)"]]
        touches_fb [OF touches_plot [of "\<lambda>_ _. True" "X q" "Y q" t "m (b q)"]] by auto
    then show ?case using Cons.IH [of ?t] Cons.prems by simp
  qed simp
  show ?thesis by (rule gen [of s "vram s"]) simp_all
qed

lemma content_stores:
  assumes "win_buffer w \<noteq> 0" "buf_apart (fb s) w"
  defines "ps \<equiv> List.product [0..<unat (content_h w)] [0..<unat (content_w w)]"
  shows "draw_window_content w s = s\<lparr>vram := stores (map (\<lambda>(ry, rx).
      (px_addr (fb s) (of_int (win_x w + 2) + of_nat rx) (of_int (win_y w + 22) + of_nat ry), vram s (buf_addr w (of_nat rx) (of_nat ry))))
    (filter (\<lambda>(ry, rx). on_screen (fb s) (of_int (win_x w + 2) + of_nat rx) (of_int (win_y w + 22) + of_nat ry)) ps)) (vram s)\<rparr>"
proof -
  let ?X = "\<lambda>p. of_int (win_x w + 2) + of_nat (snd p) :: u32" and ?Y = "\<lambda>p. of_int (win_y w + 22) + of_nat (fst p) :: u32"
  let ?b = "\<lambda>p. buf_addr w (of_nat (snd p)) (of_nat (fst p))"
  have "?b p \<noteq> px_addr (fb s) x y" if "p \<in> set ps" "on_screen (fb s) x y" for p x y
    using assms(2) that unfolding buf_apart_def ps_def by (auto simp: of_nat_below)
  note e = fold_plot_from [OF this]
  have o: "win_x w + int WM_BORDER_WIDTH = win_x w + 2" "win_y w + int WM_BORDER_WIDTH + int WM_TITLE_HEIGHT = win_y w + 22"
    by (simp_all add: wm_consts)
  have "draw_window_content w s = fold (\<lambda>p s. plot (?X p) (?Y p) (vram s (?b p)) s) ps s"
    using assms(1) unfolding draw_window_content_def Let_def ps_def o by (simp add: buf_addr_def split_beta')
  also have "\<dots> = fold (\<lambda>p. plot (?X p) (?Y p) (vram s (?b p))) ps s" by (rule e)
  finally show ?thesis unfolding fold_plot by (simp add: split_beta')
qed

lemma touches_content: "touches (in_content w) s (draw_window_content w s)"
proof -
  have o: "win_x w + int WM_BORDER_WIDTH = win_x w + 2" "win_y w + int WM_BORDER_WIDTH + int WM_TITLE_HEIGHT = win_y w + 22"
    by (simp_all add: wm_consts)
  have "in_content w (of_int (win_x w + 2) + of_nat rx) (of_int (win_y w + 22) + of_nat ry)"
    if "rx < unat (content_w w)" "ry < unat (content_h w)" for rx ry
    using that by (simp add: in_content_def cx_of_def cy_of_def of_nat_below)
  then show ?thesis
    unfolding draw_window_content_def Let_def o by (auto intro!: touches_fold touches_plot)
qed

lemma content_pixel:
  assumes "fb_ok (fb s)" "on_screen (fb s) x y" "in_content w x y" "win_buffer w \<noteq> 0" "buf_apart (fb s) w"
  shows "pixel (draw_window_content w s) x y = vram s (buf_addr w (cx_of w x) (cy_of w y))"
proof -
  let ?X = "\<lambda>rx. of_int (win_x w + 2) + of_nat rx :: u32" and ?Y = "\<lambda>ry. of_int (win_y w + 22) + of_nat ry :: u32"
  let ?ps = "filter (\<lambda>(ry, rx). on_screen (fb s) (?X rx) (?Y ry)) (List.product [0..<unat (content_h w)] [0..<unat (content_w w)])"
  let ?st = "map (\<lambda>(ry, rx). (px_addr (fb s) (?X rx) (?Y ry), vram s (buf_addr w (of_nat rx) (of_nat ry)))) ?ps"
  have here: "?X (unat (cx_of w x)) = x" "?Y (unat (cy_of w y)) = y" by (simp_all add: cx_of_def cy_of_def)
  have "(unat (cy_of w y), unat (cx_of w x)) \<in> set ?ps"
    using assms(2,3) here by (simp add: in_content_def word_less_nat_alt)
  then have "px_addr (fb s) x y \<in> fst ` set ?st" using here by force
  moreover have "snd p = vram s (buf_addr w (cx_of w x) (cy_of w y))" if m: "p \<in> set ?st" and a: "fst p = px_addr (fb s) x y" for p
  proof -
    obtain rx ry where p: "p = (px_addr (fb s) (?X rx) (?Y ry), vram s (buf_addr w (of_nat rx) (of_nat ry)))" "on_screen (fb s) (?X rx) (?Y ry)"
      using m by auto
    then have "?X rx = x" "?Y ry = y" using a px_addr_inj [OF assms(1) p(2) assms(2)] by auto
    then have "of_nat rx = cx_of w x" "of_nat ry = cy_of w y" by (auto simp: cx_of_def cy_of_def)
    then show ?thesis using p(1) by simp
  qed
  ultimately show ?thesis
    using stores_const [of "px_addr (fb s) x y" ?st] content_stores [OF assms(4,5)] by (simp add: pixel_def)
qed

lemma content_in_win:
  assumes "win_fits w" "win_sized w" "in_content w x y"
  shows "in_win w x y"
proof -
  have "content_w w = win_width w - 4" "content_h w = win_height w - 22" using assms(2) by (simp_all add: win_sized_def)
  then have c: "unat (content_w w) = unat (win_width w) - 4" "unat (content_h w) = unat (win_height w) - 22"
    using assms(1) by (simp_all add: win_fits_def unat_sub_if')
  have u: "unat (cx_of w x) < unat (content_w w)" "unat (cy_of w y) < unat (content_h w)"
    using assms(3) by (simp_all add: in_content_def word_less_nat_alt)
  have "x = of_int (win_x w) + of_nat (2 + unat (cx_of w x))" "y = of_int (win_y w) + of_nat (22 + unat (cy_of w y))"
    by (simp_all add: cx_of_def cy_of_def)
  then show ?thesis
    using in_winI [of "2 + unat (cx_of w x)" w "22 + unat (cy_of w y)"] u c by simp
qed

section \<open>All windows\<close>

definition hit :: "(u32 \<Rightarrow> window_t) \<Rightarrow> u32 \<Rightarrow> u32 \<Rightarrow> u32 \<Rightarrow> bool" where
  "hit ws x y p \<longleftrightarrow> win_visible (ws p) \<and> in_win (ws p) x y"

definition drawable :: "framebuffer_t \<Rightarrow> window_t \<Rightarrow> bool" where
  "drawable f w \<longleftrightarrow> win_fits w \<and> win_sized w \<and> win_buffer w \<noteq> 0 \<and> buf_apart f w"

text \<open>States that differ in pixels and in the dirty flags only.\<close>

definition drawn :: "'a wm_scheme \<Rightarrow> 'a wm_scheme \<Rightarrow> bool" where
  "drawn s s' \<longleftrightarrow> (\<exists>m ws. s' = s\<lparr>vram := m, wins := ws\<rparr> \<and> (\<forall>p. \<exists>d. ws p = (wins s p)\<lparr>win_dirty := d\<rparr>))"

text \<open>What a pixel shows when the windows \<open>ps\<close> are drawn in order.\<close>

definition shows_top :: "'a wm_scheme \<Rightarrow> u32 list \<Rightarrow> 'b gfx_scheme \<Rightarrow> u32 \<Rightarrow> u32 \<Rightarrow> bool" where
  "shows_top s ps s' x y \<longleftrightarrow>
     (filter (hit (wins s) x y) ps = [] \<longrightarrow> pixel s' x y = pixel s x y) \<and>
     (filter (hit (wins s) x y) ps \<noteq> [] \<longrightarrow>
       (let w = wins s (last (filter (hit (wins s) x y) ps))
        in in_content w x y \<longrightarrow> pixel s' x y = vram s (buf_addr w (cx_of w x) (cy_of w y))))"

lemma window_pixel:
  fixes s :: "'a gfx_scheme"
  assumes "fb_ok (fb s)" "on_screen (fb s) x y" "drawable (fb s) w"
  shows "in_content w x y \<Longrightarrow> pixel (draw_window_content w (draw_window_frame w s)) x y = vram s (buf_addr w (cx_of w x) (cy_of w y))"
    and "\<not> in_win w x y \<Longrightarrow> pixel (draw_window_content w (draw_window_frame w s)) x y = pixel s x y"
proof -
  have w: "win_fits w" "win_sized w" "win_buffer w \<noteq> 0" "buf_apart (fb s) w" using assms(3) by (auto simp: drawable_def)
  let ?t = "draw_window_frame w s"
  note t = touches_frame [OF w(1), of s]
  have f: "fb ?t = fb s" by (rule touches_fb [OF t])
  show "pixel (draw_window_content w ?t) x y = vram s (buf_addr w (cx_of w x) (cy_of w y))" if c: "in_content w x y"
  proof -
    have "vram ?t (buf_addr w (cx_of w x) (cy_of w y)) = vram s (buf_addr w (cx_of w x) (cy_of w y))"
      by (rule touches_other [OF t]) (use w(4) c in \<open>auto simp: buf_apart_def in_content_def\<close>)
    then show ?thesis using content_pixel [of ?t x y w] assms(1,2) w c f by simp
  qed
  show "pixel (draw_window_content w ?t) x y = pixel s x y" if n: "\<not> in_win w x y"
  proof -
    have "\<not> in_content w x y" using content_in_win [OF w(1,2)] n by blast
    then have "pixel (draw_window_content w ?t) x y = pixel ?t x y"
      using touches_pixel [OF touches_content [of w ?t], of x y] assms(1,2) f by simp
    also have "\<dots> = pixel s x y" using touches_pixel [OF t assms(1,2) n] .
    finally show ?thesis .
  qed
qed

lemma drawn_refl: "drawn s s"
proof -
  have "\<exists>d. w = w\<lparr>win_dirty := d\<rparr>" for w :: window_t by (rule exI [of _ "win_dirty w"]) (cases w, simp)
  then show ?thesis unfolding drawn_def by (intro exI [of _ "vram s"] exI [of _ "wins s"]) simp
qed

lemma drawnD:
  assumes "drawn s s'"
  shows "fb s' = fb s" "windows s' = windows s" "focused s' = focused s" "win_count s' = win_count s" "kheap s' = kheap s"
    "g_cursor s' = g_cursor s" "\<exists>d. wins s' p = (wins s p)\<lparr>win_dirty := d\<rparr>" "needs_composite s' = needs_composite s"
  using assms by (auto simp: drawn_def)

lemma drawn_trans:
  assumes "drawn s t" "drawn t u"
  shows "drawn s u"
proof -
  obtain m ws where t: "t = s\<lparr>vram := m, wins := ws\<rparr>" "\<forall>p. \<exists>d. ws p = (wins s p)\<lparr>win_dirty := d\<rparr>"
    using assms(1) unfolding drawn_def by blast
  obtain k vs where u: "u = t\<lparr>vram := k, wins := vs\<rparr>" "\<forall>p. \<exists>d. vs p = (wins t p)\<lparr>win_dirty := d\<rparr>"
    using assms(2) unfolding drawn_def by blast
  have "\<exists>d. vs p = (wins s p)\<lparr>win_dirty := d\<rparr>" for p
  proof -
    obtain d e where "ws p = (wins s p)\<lparr>win_dirty := d\<rparr>" "vs p = (wins t p)\<lparr>win_dirty := e\<rparr>" using t(2) u(2) by blast
    then show ?thesis using t(1) by (intro exI [of _ e]) simp
  qed
  then show ?thesis unfolding drawn_def using t(1) u(1) by (intro exI [of _ k] exI [of _ vs]) simp
qed

lemma drawn_touches:
  assumes "touches A s t"
  shows "drawn s (upd_win p (\<lambda>w. w\<lparr>win_dirty := d\<rparr>) t)"
proof -
  obtain m where m: "t = s\<lparr>vram := m\<rparr>" using assms unfolding touches_def by blast
  have "\<exists>e. ((wins s)(p := (wins s p)\<lparr>win_dirty := d\<rparr>)) q = (wins s q)\<lparr>win_dirty := e\<rparr>" for q
    by (cases "q = p", force, rule exI [of _ "win_dirty (wins s q)"]) (cases "wins s q", simp)
  then show ?thesis unfolding drawn_def m
    by (intro exI [of _ m] exI [of _ "(wins s)(p := (wins s p)\<lparr>win_dirty := d\<rparr>)"]) (simp add: upd_win_def)
qed

text \<open>Drawing does not read the dirty flag.\<close>

lemma drawn_view:
  assumes "drawn s s'"
  shows "hit (wins s') x y p = hit (wins s) x y p" "in_content (wins s' p) x y = in_content (wins s p) x y"
    "buf_addr (wins s' p) i j = buf_addr (wins s p) i j" "cx_of (wins s' p) x = cx_of (wins s p) x" "cy_of (wins s' p) y = cy_of (wins s p) y"
    "drawable f (wins s' p) = drawable f (wins s p)" "win_next (wins s' p) = win_next (wins s p)"
proof -
  obtain d where "wins s' p = (wins s p)\<lparr>win_dirty := d\<rparr>" using drawnD(7) [OF assms] by blast
  then show "hit (wins s') x y p = hit (wins s) x y p" "in_content (wins s' p) x y = in_content (wins s p) x y"
    "buf_addr (wins s' p) i j = buf_addr (wins s p) i j" "cx_of (wins s' p) x = cx_of (wins s p) x" "cy_of (wins s' p) y = cy_of (wins s p) y"
    "drawable f (wins s' p) = drawable f (wins s p)" "win_next (wins s' p) = win_next (wins s p)"
    by (simp_all add: hit_def in_win_def in_content_def buf_addr_def cx_of_def cy_of_def drawable_def win_fits_def win_sized_def buf_apart_def)
qed

lemma draw_window_step:
  assumes "fb_ok (fb s)" "drawable (fb s) (wins s p)"
  defines "s1 \<equiv> (if win_visible (wins s p) then upd_win p (\<lambda>w. w\<lparr>win_dirty := False\<rparr>)
      (draw_window_content (wins s p) (draw_window_frame (wins s p) s)) else s)"
  shows "drawn s s1" and "\<And>a. (\<And>x y. on_screen (fb s) x y \<Longrightarrow> a \<noteq> px_addr (fb s) x y) \<Longrightarrow> vram s1 a = vram s a"
    and "\<And>x y. on_screen (fb s) x y \<Longrightarrow> shows_top s [p] s1 x y"
proof -
  let ?w = "wins s p" and ?A = "\<lambda>_ _. True :: bool"
  let ?t = "draw_window_content ?w (draw_window_frame ?w s)"
  have "win_fits ?w" using assms(2) by (simp add: drawable_def)
  moreover have weaken: "touches A t u \<Longrightarrow> touches ?A t u" for A and t u :: "'a wm_scheme" unfolding touches_def by blast
  ultimately have t: "touches ?A s ?t"
    using touches_trans [OF weaken [OF touches_frame] weaken [OF touches_content]] by blast
  then show "drawn s s1" using drawn_touches [OF t] by (simp add: s1_def drawn_refl)
  show "vram s1 a = vram s a" if "\<And>x y. on_screen (fb s) x y \<Longrightarrow> a \<noteq> px_addr (fb s) x y" for a
    using touches_other [OF t, of a] that by (auto simp: s1_def upd_win_def)
  show "shows_top s [p] s1 x y" if "on_screen (fb s) x y" for x y
  proof -
    have "fb ?t = fb s" by (rule touches_fb [OF t])
    then have "pixel (upd_win p (\<lambda>w. w\<lparr>win_dirty := False\<rparr>) ?t) x y = pixel ?t x y" by (simp add: pixel_def upd_win_def)
    then show ?thesis
      using window_pixel [OF assms(1) that assms(2)] by (auto simp: shows_top_def hit_def s1_def Let_def)
  qed
qed

lemma shows_top_Cons:
  assumes "shows_top s [p] s1 x y" "shows_top s1 ps s' x y" "drawn s s1"
    and "\<And>q. q \<in> set ps \<Longrightarrow> in_content (wins s q) x y \<Longrightarrow>
      vram s1 (buf_addr (wins s q) (cx_of (wins s q) x) (cy_of (wins s q) y)) = vram s (buf_addr (wins s q) (cx_of (wins s q) x) (cy_of (wins s q) y))"
  shows "shows_top s (p # ps) s' x y"
proof -
  note i = drawn_view [OF assms(3)]
  have h: "hit (wins s1) x y = hit (wins s) x y" by (rule ext) (rule i(1))
  show ?thesis
  proof (cases "filter (hit (wins s) x y) ps = []")
    case True
    then show ?thesis using assms(1,2) by (auto simp: shows_top_def h Let_def)
  next
    case False
    let ?q = "last (filter (hit (wins s) x y) ps)"
    have "?q \<in> set ps" using last_in_set [OF False] by auto
    then show ?thesis
      using assms(2) assms(4) [of ?q] False by (auto simp: shows_top_def h i Let_def)
  qed
qed

lemma draw_windows_pixels:
  assumes "wchain (wins s) h ps" "distinct ps" "fb_ok (fb s)" "\<forall>p \<in> set ps. drawable (fb s) (wins s p)"
  shows "\<exists>s'. draw_windows h s = Some s' \<and> drawn s s' \<and> (\<forall>x y. on_screen (fb s) x y \<longrightarrow> shows_top s ps s' x y)"
  using assms
proof (induction ps arbitrary: h s)
  case Nil
  then show ?case by (subst draw_windows.simps) (auto simp: drawn_refl shows_top_def)
next
  case (Cons p ps)
  define s1 where "s1 = (if win_visible (wins s p) then upd_win p (\<lambda>w. w\<lparr>win_dirty := False\<rparr>)
      (draw_window_content (wins s p) (draw_window_frame (wins s p) s)) else s)"
  have dp: "drawable (fb s) (wins s p)" using Cons.prems(4) by simp
  note st = draw_window_step [OF Cons.prems(3) dp, folded s1_def]
  note i = drawn_view [OF st(1)] and f = drawnD(1) [OF st(1)]
  have "draw_windows h s = draw_windows (win_next (wins s1 p)) s1"
    using Cons.prems(1) by (subst draw_windows.simps) (simp add: s1_def Let_def del: upd_win_simps)
  then have d: "draw_windows h s = draw_windows (win_next (wins s p)) s1" using i(7) [of p] by simp
  have "wchain (wins s1) (win_next (wins s p)) ps"
    using Cons.prems(1) i(7) by (subst wseg_same [of ps "wins s1" "wins s"]) auto
  then obtain s' where s': "draw_windows (win_next (wins s p)) s1 = Some s'" "drawn s1 s'"
    "\<forall>x y. on_screen (fb s1) x y \<longrightarrow> shows_top s1 ps s' x y"
    using Cons.IH [of s1 "win_next (wins s p)"] Cons.prems(2-4) i(6) f by auto
  have "shows_top s (p # ps) s' x y" if o: "on_screen (fb s) x y" for x y
  proof (rule shows_top_Cons [OF st(3) [OF o] _ st(1)])
    show "shows_top s1 ps s' x y" using s'(3) o f by simp
    fix q
    assume "q \<in> set ps" "in_content (wins s q) x y"
    then show "vram s1 (buf_addr (wins s q) (cx_of (wins s q) x) (cy_of (wins s q) y)) = vram s (buf_addr (wins s q) (cx_of (wins s q) x) (cy_of (wins s q) y))"
      using Cons.prems(4) by (intro st(2)) (auto simp: drawable_def buf_apart_def in_content_def)
  qed
  then show ?case using d s'(1) drawn_trans [OF st(1) s'(2)] by auto
qed

end
