(* ===== verification/Sros_Window_Run.thy ===== *)
theory Sros_Window_Run
  imports Sros_Window_Draw
begin

unbundle bit_operations_syntax

text \<open>
  Every operation of the window manager returns and keeps the invariant, so every history of client
  calls, clicks and mouse interrupts does.
\<close>

section \<open>Operations that leave the windows alone\<close>

text \<open>Equal up to pixels, the pointer, flags and the log.\<close>

definition wm_view :: "'a wm_scheme \<Rightarrow> 'a wm_scheme \<Rightarrow> bool" where
  "wm_view s s' \<longleftrightarrow> windows s' = windows s \<and> focused s' = focused s \<and> win_count s' = win_count s \<and> kheap s' = kheap s \<and>
     (\<forall>p. \<exists>d. wins s' p = (wins s p)\<lparr>win_dirty := d\<rparr>) \<and> mouse_inv s' = mouse_inv s \<and> mouse_queue s' = mouse_queue s"

lemma dirty_self: "\<exists>d. w = w\<lparr>win_dirty := d\<rparr>" for w :: window_t
  by (rule exI [of _ "win_dirty w"]) (cases w, simp)

lemma wm_view_trans:
  assumes "wm_view s t" "wm_view t u"
  shows "wm_view s u"
proof -
  have "\<exists>d. wins u p = (wins s p)\<lparr>win_dirty := d\<rparr>" for p
  proof -
    obtain d e where "wins t p = (wins s p)\<lparr>win_dirty := d\<rparr>" "wins u p = (wins t p)\<lparr>win_dirty := e\<rparr>"
      using assms unfolding wm_view_def by blast
    then show ?thesis by (intro exI [of _ e]) simp
  qed
  then show ?thesis using assms unfolding wm_view_def by simp
qed

lemma wm_inv_view:
  assumes "wm_view s s'"
  shows "wm_inv n ps s' = wm_inv n ps s"
proof -
  have w: "win_next (wins s' p) = win_next (wins s p) \<and> z_order (wins s' p) = z_order (wins s p)"
    "win_focused (wins s' p) = win_focused (wins s p)" "win_mem (wins s' p) = win_mem (wins s p)" for p
  proof -
    obtain d where "wins s' p = (wins s p)\<lparr>win_dirty := d\<rparr>" using assms unfolding wm_view_def by blast
    then show "win_next (wins s' p) = win_next (wins s p) \<and> z_order (wins s' p) = z_order (wins s p)"
      "win_focused (wins s' p) = win_focused (wins s p)" "win_mem (wins s' p) = win_mem (wins s p)"
      by (simp_all add: win_mem_def)
  qed
  have "windows s' = windows s" "focused s' = focused s" "win_count s' = win_count s" "kheap s' = kheap s"
    using assms by (simp_all add: wm_view_def)
  then show ?thesis
    using wlist_inv_cong [of s' s ps n] win_reqs_cong [of ps "wins s'" "wins s"] win_sized_cong [OF w(3)] w
    by (simp add: wm_inv_def wfocus_inv_def)
qed

lemma wm_view_upd:
  "wm_view s (s\<lparr>vram := m\<rparr>)" "wm_view s (s\<lparr>g_cursor := c\<rparr>)" "wm_view s (s\<lparr>needs_composite := b\<rparr>)" "wm_view s (s\<lparr>wm_buttons_last := k\<rparr>)"
  "wm_view s (s\<lparr>fb := f\<rparr>)" "wm_view s s" "wm_view s (glog fmt as s)"
  by (simp_all add: wm_view_def dirty_self mouse_inv_def mouse_queue_def glog_def)

lemma wm_view_dirty: "wm_view s (upd_win p (\<lambda>w. w\<lparr>win_dirty := d\<rparr>) s)"
proof -
  have "\<exists>e. wins (upd_win p (\<lambda>w. w\<lparr>win_dirty := d\<rparr>) s) q = (wins s q)\<lparr>win_dirty := e\<rparr>" for q
    by (cases "q = p") (use dirty_self in auto)
  then show ?thesis by (simp add: wm_view_def mouse_inv_def mouse_queue_def upd_win_def)
qed

lemma wm_view_touches: "touches A s t \<Longrightarrow> wm_view s t"
  unfolding touches_def by (auto simp: wm_view_upd)

lemma touches_any: "touches A s t \<Longrightarrow> touches (\<lambda>_ _. True) s t"
  unfolding touches_def by blast

lemma touches_draw: "touches (\<lambda>_ _. True) s (draw_window_content w (draw_window_frame w s))"
proof (rule touches_trans [OF _ touches_any [OF touches_content]])
  show "touches (\<lambda>_ _. True) s (draw_window_frame w s)"
    unfolding draw_window_frame_def draw_border_def draw_title_bar_def draw_title_def draw_title_char_def draw_close_button_def Let_def
    by (intro touches_trans [OF touches_fold touches_trans [OF touches_fold touches_trans [OF touches_fold touches_trans [OF touches_fold touches_fold]]]])
      (auto intro!: touches_plot touches_fold touches_trans [OF touches_fold touches_trans [OF touches_fold touches_trans [OF touches_fold touches_fold]]]
        touches_trans [OF touches_plot touches_plot])
qed

lemma draw_windows_view:
  "wchain (wins s) h ps \<Longrightarrow> \<exists>s'. draw_windows h s = Some s' \<and> wm_view s s'"
proof (induction ps arbitrary: h s)
  case Nil
  then show ?case by (subst draw_windows.simps) (simp add: wm_view_upd)
next
  case (Cons p ps)
  define s1 where "s1 = (if win_visible (wins s p) then upd_win p (\<lambda>w. w\<lparr>win_dirty := False\<rparr>)
      (draw_window_content (wins s p) (draw_window_frame (wins s p) s)) else s)"
  have v: "wm_view s s1"
    unfolding s1_def by (simp add: wm_view_upd(6) wm_view_trans [OF wm_view_touches [OF touches_draw] wm_view_dirty])
  have nx: "win_next (wins s1 q) = win_next (wins s q)" for q
  proof -
    obtain d where "wins s1 q = (wins s q)\<lparr>win_dirty := d\<rparr>" using v unfolding wm_view_def by blast
    then show ?thesis by simp
  qed
  have "wchain (wins s1) (win_next (wins s1 p)) ps"
    using Cons.prems nx by (subst wseg_same [of ps "wins s1" "wins s"]) auto
  then obtain s' where "draw_windows (win_next (wins s1 p)) s1 = Some s'" "wm_view s1 s'" using Cons.IH by blast
  moreover have "draw_windows h s = draw_windows (win_next (wins s1 p)) s1"
    using Cons.prems by (subst draw_windows.simps) (simp add: s1_def Let_def del: upd_win_simps)
  ultimately show ?case using wm_view_trans [OF v] by auto
qed

lemma cursor_remove_view: "wm_view s (cursor_remove s)" for s :: "'a wm_scheme"
  by (simp add: cursor_remove_def Let_def plot_cells wm_view_upd)

lemma cursor_draw_view: "wm_view s (draw_cursor (save_background s))" for s :: "'a wm_scheme"
proof -
  have "wm_view s (save_background s)" by (simp add: save_background_def save_cells wm_view_upd)
  moreover have "wm_view t (draw_cursor t)" for t :: "'a wm_scheme"
    by (simp add: draw_cursor_def Let_def plot_cells wm_view_upd)
  ultimately show ?thesis by (blast intro: wm_view_trans)
qed

lemma cursor_restore_view: "wm_view s (cursor_restore s)" for s :: "'a wm_scheme"
  unfolding cursor_restore_def
  by (auto simp: wm_view_upd(6) intro: wm_view_trans [OF wm_view_upd(2) cursor_draw_view])

lemma wm_composite_view:
  assumes "wchain (wins s) (windows s) ps"
  shows "\<exists>s'. wm_composite s = Some s' \<and> wm_view s s'"
proof -
  let ?t = "if cur_visible (g_cursor s) then cursor_remove s else s"
  have t: "wm_view s ?t" by (simp add: cursor_remove_view wm_view_upd)
  then have "wins ?t = wins s" "windows ?t = windows s" "win_count ?t = win_count s"
    by (simp_all add: cursor_remove_def Let_def plot_cells)
  then obtain u where u: "draw_windows (windows ?t) ?t = Some u" "wm_view ?t u"
    using draw_windows_view [of ?t "windows ?t" ps] assms by auto
  have c: "wm_view ?t (clear_desktop ?t)"
    unfolding clear_desktop_def Let_def fill_words_stores by (rule wm_view_trans [OF wm_view_upd(1) wm_view_upd(5)])
  have e: "wm_view v ((if b then cursor_restore v else v)\<lparr>needs_composite := False\<rparr>)" for v and b :: bool
    by (rule wm_view_trans [OF _ wm_view_upd(3)]) (simp add: cursor_restore_view wm_view_upd)
  show ?thesis
    using u(1) wm_view_trans [OF t wm_view_trans [OF u(2) e]] wm_view_trans [OF t wm_view_trans [OF c e]]
    by (simp add: wm_composite_def Let_def wm_view_upd)
qed

lemma wm_composite_inv:
  assumes "wm_inv n ps s"
  shows "\<exists>s'. wm_composite s = Some s' \<and> wm_inv n ps s' \<and> mouse_inv s' = mouse_inv s \<and> mouse_queue s' = mouse_queue s"
proof -
  obtain s' where "wm_composite s = Some s'" "wm_view s s'" using wm_composite_view [OF wm_invD(1) [OF assms]] by blast
  then show ?thesis using assms wm_inv_view [of s s'] by (auto simp: wm_view_def)
qed

section \<open>Clicks and mouse events\<close>

lemma wm_get_window_at_eq:
  assumes "wm_inv n ps s"
  shows "wm_get_window_at x y s = Some (last (0 # filter (\<lambda>p. win_visible (wins s p) \<and> window_contains (wins s p) x y) ps))"
  using window_at_chain [OF wm_invD(1) [OF assms]] by (simp add: wm_get_window_at_def)

lemma wm_handle_click_inv:
  assumes inv: "wm_inv n ps s" and n: "n < 4294967295"
  shows "\<exists>r s' qs. wm_handle_click x y b s = Some (r, s') \<and> wm_inv (n + 1) qs s' \<and> mouse_same s s'"
proof -
  obtain w where w: "wm_get_window_at x y s = Some w" "w = 0 \<or> w \<in> set ps"
    using wm_get_window_at_eq [OF inv, of x y] last_in_set [of "0 # filter (\<lambda>p. win_visible (wins s p) \<and> window_contains (wins s p) x y) ps"]
    by (auto split: if_splits)
  have i: "wm_inv (n + 1) ps s" using inv by (auto simp: wm_inv_def wlist_inv_def)
  have after: "\<exists>u. wm_composite t = Some u \<and> wm_inv (n + 1) qs u \<and> mouse_same s u" if "wm_inv (n + 1) qs t" "mouse_same s t" for t qs
    using wm_composite_inv [OF that(1)] that(2) by (auto simp: mouse_same_def)
  show ?thesis
  proof (cases "b AND MOUSE_LEFT_BTN = 0 \<or> w = 0")
    case True
    then show ?thesis using w(1) i by (auto simp: wm_handle_click_def mouse_same_refl)
  next
    case False
    then have wp: "w \<in> set ps" using w(2) by simp
    show ?thesis
    proof (cases "wm_is_in_close_btn w x y s")
      case True
      obtain t where t: "wm_destroy_window w s = Some t" "wm_inv n (remove1 w ps) t" using wm_destroy_inv [OF inv wp] by blast
      then have "wm_inv (n + 1) (remove1 w ps) t" by (auto simp: wm_inv_def wlist_inv_def)
      from after [OF this wm_destroy_mouse [OF inv t(1)]] show ?thesis
        using False True w(1) t(1) by (auto simp: wm_handle_click_def)
    next
      case no: False
      obtain t qs where t: "wm_focus_window w s = Some t" "wm_inv (n + 1) qs t" using wm_focus_inv [OF inv wp n] by blast
      from after [OF t(2) wm_focus_mouse [OF inv wp n t(1)]] show ?thesis
        using False no w(1) t(1) by (auto simp: wm_handle_click_def)
    qed
  qed
qed

lemma cursor_move_view: "wm_view s (cursor_move a b s)" for s :: "'a wm_scheme"
proof -
  have r: "wm_view t (restore_background t)" for t :: "'a wm_scheme"
    by (simp add: restore_background_def Let_def plot_cells wm_view_upd)
  show ?thesis
    unfolding cursor_move_def Let_def split_beta
    by (auto simp: wm_view_upd intro!: wm_view_trans [OF wm_view_upd(2) wm_view_trans [OF r cursor_draw_view]])
qed

text \<open>
  Polling: at most one press is handled per update, so the depth grows by at most one, and the loop
  ends when the event queue is empty.
\<close>

lemma wm_poll_step:
  assumes inv: "wm_inv n ps s" and n: "\<not> h \<Longrightarrow> n < 4294967295" and m: "mouse_inv s" and q: "mouse_queue s = ev # evs"
  shows "\<exists>h' v qs. wm_poll h s = wm_poll h' v \<and> wm_inv (if h' \<and> \<not> h then n + 1 else n) qs v \<and> mouse_inv v \<and> mouse_queue v = evs \<and> (h \<longrightarrow> h')"
proof -
  obtain t where r: "mouse_read s = (Some ev, t)" "mouse_queue t = evs"
    using q mouse_read_queue [OF m] by (cases "mouse_read s") auto
  then have t: "t = snd (mouse_read s)" by simp
  let ?u = "cursor_move (sint (dx ev)) (- sint (dy ev)) t"
  have "wm_inv n ps t" using inv by (subst wm_inv_frame [of t s]) (simp_all add: t mouse_read_def)
  then have u: "wm_inv n ps ?u" "mouse_inv ?u" "mouse_queue ?u = evs"
    using wm_inv_view [OF cursor_move_view, of n ps _ _ t] mouse_read_inv [OF m] r(2) by (simp_all add: t)
  let ?press = "buttons ev AND MOUSE_LEFT_BTN \<noteq> 0 \<and> wm_buttons_last ?u AND MOUSE_LEFT_BTN = 0 \<and> \<not> h"
  let ?act = "if ?press then do { (_, s) \<leftarrow> wm_handle_click (cur_x (g_cursor ?u)) (cur_y (g_cursor ?u)) (buttons ev) ?u; Some (True, s) } else Some (h, ?u)"
  obtain h' v qs where v: "?act = Some (h', v)" "wm_inv (if h' \<and> \<not> h then n + 1 else n) qs v" "mouse_same ?u v" "h \<longrightarrow> h'"
  proof (cases ?press)
    case True
    then obtain a v qs where "wm_handle_click (cur_x (g_cursor ?u)) (cur_y (g_cursor ?u)) (buttons ev) ?u = Some (a, v)" "wm_inv (n + 1) qs v" "mouse_same ?u v"
      using wm_handle_click_inv [OF u(1) n] by blast
    then show ?thesis using that [of True v qs] True by simp
  next
    case False
    then show ?thesis using that [of h ?u ps] u(1) by (auto simp: mouse_same_refl)
  qed
  let ?v = "v\<lparr>wm_buttons_last := buttons ev\<rparr>"
  have "mouse_inv ?v" "mouse_queue ?v = evs" using v(3) u(2,3) by (simp_all add: mouse_same_def mouse_inv_def mouse_queue_def)
  moreover have "wm_inv (if h' \<and> \<not> h then n + 1 else n) qs ?v" using v(2) wm_inv_view [OF wm_view_upd(4)] by blast
  moreover have "wm_poll h s = wm_poll h' ?v"
    by (subst wm_poll.simps) (simp only: r(1) prod.case option.case Let_def v(1) Option.bind.simps)
  ultimately show ?thesis using v(4) by blast
qed

lemma wm_poll_inv:
  assumes "wm_inv n ps s" "\<not> h \<Longrightarrow> n < 4294967295" "mouse_inv s"
  shows "\<exists>r s' qs. wm_poll h s = Some (r, s') \<and> wm_inv (if h then n else n + 1) qs s' \<and> mouse_inv s' \<and> mouse_queue s' = []"
  using assms
proof (induction "mouse_queue s" arbitrary: s ps h n)
  case Nil
  then have "fst (mouse_read s) = None" using mouse_read_queue [of s] by auto
  then have "mouse_read s = (None, s)" by (auto simp: mouse_read_def split: if_splits)
  moreover have "wm_inv (if h then n else n + 1) ps s" using Nil(2) by (auto simp: wm_inv_def wlist_inv_def)
  ultimately show ?case
    using Nil by (subst wm_poll.simps) auto
next
  case (Cons ev evs)
  obtain h' v qs where v: "wm_poll h s = wm_poll h' v" "wm_inv (if h' \<and> \<not> h then n + 1 else n) qs v" "mouse_inv v" "mouse_queue v = evs" "h \<longrightarrow> h'"
    using wm_poll_step [OF Cons(3,4,5) Cons(2) [symmetric]] by blast
  from Cons(1) [OF v(4) [symmetric] v(2) _ v(3), of h'] v(5) Cons(4)
  obtain r s' qs' where "wm_poll h' v = Some (r, s')" "wm_inv (if h' then if h' \<and> \<not> h then n + 1 else n else (if h' \<and> \<not> h then n + 1 else n) + 1) qs' s'"
    "mouse_inv s'" "mouse_queue s' = []" by (auto split: if_splits)
  then show ?case using v(1,5) by (auto split: if_splits)
qed

lemma wm_update_inv:
  assumes "wm_inv n ps s" "n < 4294967295" "mouse_inv s"
  shows "\<exists>s' qs. wm_update s = Some s' \<and> wm_inv (n + 1) qs s' \<and> mouse_inv s' \<and> mouse_queue s' = []"
proof -
  obtain r t qs where t: "wm_poll False s = Some (r, t)" "wm_inv (n + 1) qs t" "mouse_inv t" "mouse_queue t = []"
    using wm_poll_inv [OF assms(1) assms(2) assms(3), of False] by auto
  obtain u where "wm_composite t = Some u" "wm_inv (n + 1) qs u" "mouse_inv u" "mouse_queue u = []"
    using wm_composite_inv [OF t(2)] t(3,4) by auto
  then show ?thesis using t by (auto simp: wm_update_def)
qed

end
