(* ===== verification/Sros_Window_Shows.thy ===== *)
theory Sros_Window_Shows
  imports Sros_Window_Run
begin

text \<open>
  The composition on the invariant: the buffers lie on the heap and so apart from the framebuffer, the
  test for clicks and the drawing agree on where a window is, and hence the screen shows the top window.
\<close>

section \<open>What the composition shows\<close>

text \<open>
  A window that can be drawn without overflow of its coordinates: the position is a 32-bit
  integer, the title bar has room, and the size of the buffer does not wrap around.
\<close>

definition win_ready :: "window_t \<Rightarrow> bool" where
  "win_ready w \<longleftrightarrow> win_fits w \<and> - 0x80000000 \<le> win_x w \<and> win_x w < 0x80000000 \<and> - 0x80000000 \<le> win_y w \<and> win_y w < 0x80000000 \<and>
     unat (content_w w) * unat (content_h w) * 4 < 2 ^ 32"

text \<open>The framebuffer is mapped above the kernel heap and does not wrap around.\<close>

definition fb_above :: "framebuffer_t \<Rightarrow> bool" where
  "fb_above f \<longleftrightarrow> fb_ok f \<and> 0x240004 \<le> unat (fb_addr f) \<and> unat (fb_addr f) + unat (fb_height f) * unat (fb_pitch f) \<le> 2 ^ 32"

lemma coord_below:
  fixes x w :: u32
  assumes "- 0x80000000 \<le> k" "k < 0x80000000" "unat x < 0x80000000" "unat w < 0x80000000"
  shows "x - of_int k < w \<longleftrightarrow> k \<le> uint x \<and> uint x < k + sint w"
proof -
  have u: "uint v = int (unat v)" for v :: u32 by simp
  have x: "uint x < 0x80000000" "0 \<le> uint x" using assms(3) unfolding u by linarith+
  have w: "uint w < 0x80000000" "0 \<le> uint w" using assms(4) unfolding u by linarith+
  then have "signed_take_bit 31 (uint w) = uint w"
    by (intro signed_take_bit_int_eq_self) (auto intro: order.trans [of _ 0])
  then have sw: "sint w = uint w" by (simp add: sint_uint)
  have e: "x - of_int k = (of_int (uint x - k) :: u32)" by simp
  have "uint (x - of_int k) = (uint x - k) mod 4294967296"
    unfolding e uint_word_of_int by simp
  also have "\<dots> = (if k \<le> uint x then uint x - k else uint x - k + 4294967296)"
  proof (cases "k \<le> uint x")
    case False
    have "(uint x - k) mod 4294967296 = (uint x - k + 4294967296) mod 4294967296" by simp
    also have "\<dots> = uint x - k + 4294967296" using False x assms(1,2) by (intro mod_pos_pos_trivial) linarith+
    finally show ?thesis using False by simp
  qed (use x assms(1,2) in \<open>simp add: mod_pos_pos_trivial\<close>)
  finally have e: "uint (x - of_int k) = (if k \<le> uint x then uint x - k else uint x - k + 4294967296)" .
  have "uint (x - of_int k) < uint w \<longleftrightarrow> k \<le> uint x \<and> uint x < k + uint w"
  proof (cases "k \<le> uint x")
    case False
    moreover have "uint w \<le> uint x - k + 4294967296" using x w assms(1,2) by linarith
    ultimately show ?thesis using e by simp
  qed (use e in auto)
  then show ?thesis by (simp only: word_less_def sw)
qed

lemma on_screen_small:
  assumes "fb_ok f" "on_screen f x y"
  shows "unat x < 0x80000000" "unat y < 0x80000000"
proof -
  have x: "unat x < unat (fb_pitch f) div 4" using px_index(2) [OF assms] .
  then show "unat x < 0x80000000" using unat_u32_less [of "fb_pitch f"] by linarith
  have p: "4 \<le> unat (fb_pitch f)" using x by linarith
  have "unat y < unat (fb_height f)" using assms(2) by (simp add: on_screen_def word_less_nat_alt)
  moreover have "unat (fb_height f) * 4 \<le> unat (fb_height f) * unat (fb_pitch f)" using p by simp
  moreover have "unat (fb_height f) * unat (fb_pitch f) < 4294967296" using assms(1) by (simp add: fb_ok_def)
  ultimately show "unat y < 0x80000000" by linarith
qed

lemma contains_in_win:
  assumes "win_ready w" "fb_ok f" "on_screen f x y"
  shows "window_contains w (uint x) (uint y) = in_win w x y"
proof -
  have s: "unat (win_width w) < 0x80000000" "unat (win_height w) < 0x80000000"
    using assms(1) by (auto simp: win_ready_def win_fits_def)
  show ?thesis
    using assms(1) coord_below [of "win_x w" x "win_width w"] coord_below [of "win_y w" y "win_height w"]
      on_screen_small [OF assms(2,3)] s by (auto simp: win_ready_def window_contains_def in_win_def)
qed

lemma px_above:
  assumes "fb_above f" "on_screen f x y"
  shows "0x240004 \<le> unat (px_addr f x y)"
proof -
  let ?p = "unat (fb_pitch f) div 4"
  have ok: "fb_ok f" using assms(1) by (simp add: fb_above_def)
  have x: "unat x < ?p" and y: "unat y + 1 \<le> unat (fb_height f)"
    using px_index(2) [OF ok assms(2)] assms(2) by (auto simp: on_screen_def word_less_nat_alt)
  have "(unat y + 1) * ?p \<le> unat (fb_height f) * ?p" using y by (rule mult_le_mono1)
  then have "4 * (unat y * ?p + unat x) < 4 * (unat (fb_height f) * ?p)" using x by (simp add: algebra_simps)
  also have "\<dots> \<le> unat (fb_height f) * unat (fb_pitch f)"
    by (metis mult.left_commute mult_le_mono2 times_div_less_eq_dividend)
  finally have "unat (fb_addr f) + unat (4 * (y * (fb_pitch f div 4) + x)) < 4294967296"
    using px_index(1) [OF ok assms(2)] assms(1) by (simp add: fb_above_def)
  then have "unat (px_addr f x y) = unat (fb_addr f) + unat (4 * (y * (fb_pitch f div 4) + x))"
    unfolding px_addr_def by (subst unat_add_lem [THEN iffD1]) simp_all
  then show ?thesis using assms(1) by (simp add: fb_above_def)
qed

lemma buf_below:
  assumes "unat (content_w w) * unat (content_h w) * 4 < 2 ^ 32" "unat (win_buffer w) + unat (content_w w * content_h w * 4) \<le> 0x240004"
    and "rx < content_w w" "ry < content_h w"
  shows "unat (buf_addr w rx ry) < 0x240004"
proof -
  let ?c = "unat (content_w w)" and ?h = "unat (content_h w)"
  have r: "unat rx < ?c" "unat ry + 1 \<le> ?h" using assms(3,4) by (auto simp: word_less_nat_alt)
  have "(unat ry + 1) * ?c \<le> ?h * ?c" using r(2) by (rule mult_le_mono1)
  then have b: "4 * (unat ry * ?c + unat rx) < ?c * ?h * 4" using r(1) by (simp add: algebra_simps)
  have "content_w w * content_h w * 4 = of_nat (?c * ?h * 4)" by simp
  then have sz: "unat (content_w w * content_h w * 4) = ?c * ?h * 4" using assms(1) unat_of_nat_u32 [of "?c * ?h * 4"] by simp
  have "buf_addr w rx ry = of_nat (unat (win_buffer w) + 4 * (unat ry * ?c + unat rx))" by (simp add: buf_addr_def)
  moreover have "unat (win_buffer w) + 4 * (unat ry * ?c + unat rx) < 0x240004" using b sz assms(2) by linarith
  ultimately show ?thesis using unat_of_nat_u32 [of "unat (win_buffer w) + 4 * (unat ry * ?c + unat rx)"] by (simp only: )
qed

lemma holds_range:
  assumes "km.holds m rs" "(p, sz) \<in> set rs"
  shows "unat p + unat sz \<le> 0x240004"
  using assms km.used_range unfolding km.holds_def by fastforce

lemma wm_drawable:
  assumes inv: "wm_inv n ps s" and f: "fb_above f" and p: "p \<in> set ps" and r: "win_ready (wins s p)"
  shows "drawable f (wins s p)"
proof -
  let ?w = "wins s p"
  have m: "(win_buffer ?w, content_w ?w * content_h ?w * 4) \<in> set (win_reqs (wins s) ps)" using p by (auto simp: win_reqs_def)
  have "unat (buf_addr ?w rx ry) < 0x240004" if "rx < content_w ?w" "ry < content_h ?w" for rx ry
    using buf_below [OF _ holds_range [OF wm_invD(9) [OF inv] m] that] r by (simp add: win_ready_def)
  then have "buf_apart f ?w" unfolding buf_apart_def using px_above [OF f] by (metis not_le)
  moreover have "win_buffer ?w \<noteq> 0" using km.holds_nonnull [OF wm_invD(9) [OF inv] m] .
  moreover have "win_sized ?w" using inv p by (simp add: wm_inv_def)
  ultimately show ?thesis using r by (simp add: drawable_def win_ready_def)
qed

lemma cursor_restore_beneath:
  fixes s :: "'a desk_scheme"
  assumes "fb_addr (fb s) \<noteq> 0" "cur_visible (g_cursor s)"
  shows "beneath (cursor_restore s) = vram s"
  using assms beneath_drawn [of "upd_cursor (\<lambda>c. c\<lparr>old_x := cur_x c, old_y := cur_y c\<rparr>) s"] by (simp add: cursor_restore_def)

lemma cursor_remove_apart:
  assumes "\<And>x y. on_screen (fb s) x y \<Longrightarrow> a \<noteq> px_addr (fb s) x y"
  shows "vram (cursor_remove s) a = vram s a"
proof -
  have "touches (\<lambda>_ _. True) s (cursor_remove s)"
    unfolding cursor_remove_def Let_def by (auto intro!: touches_fold touches_plot)
  from touches_other [OF this] assms show ?thesis by blast
qed

lemma shows_window_at:
  assumes inv: "wm_inv n ps s" and ok: "fb_ok (fb s)" "on_screen (fb s) x y" "\<forall>p \<in> set ps. win_ready (wins s p)"
  shows "wm_get_window_at (uint x) (uint y) s = Some (last (0 # filter (hit (wins s) x y) ps))"
proof -
  have "filter (\<lambda>p. win_visible (wins s p) \<and> window_contains (wins s p) (uint x) (uint y)) ps = filter (hit (wins s) x y) ps"
    by (rule filter_cong) (use ok contains_in_win in \<open>auto simp: hit_def\<close>)
  then show ?thesis using wm_get_window_at_eq [OF inv] by simp
qed


lemma wm_composite_shows_aux:
  assumes inv: "wm_inv n ps s" and ne: "ps \<noteq> []" and f: "fb_above (fb s)" and r: "\<forall>p \<in> set ps. win_ready (wins s p)"
    and xy: "on_screen (fb s) x y"
  shows "\<exists>s'. wm_composite s = Some s' \<and> fb s' = fb s \<and>
    (let w = last (0 # filter (hit (wins s) x y) ps)
     in (w = 0 \<longrightarrow> beneath s' (px_addr (fb s) x y) = beneath s (px_addr (fb s) x y)) \<and>
        (w \<noteq> 0 \<and> in_content (wins s w) x y \<longrightarrow>
          beneath s' (px_addr (fb s) x y) = vram s (buf_addr (wins s w) (cx_of (wins s w) x) (cy_of (wins s w) y))))"
proof -
  let ?vis = "cur_visible (g_cursor s)"
  let ?t = "if ?vis then cursor_remove s else s"
  have ok: "fb_ok (fb s)" "fb_addr (fb s) \<noteq> 0" using f by (auto simp: fb_above_def fb_ok_def)
  have t: "?t = s\<lparr>vram := beneath s\<rparr>" using ok(2) by (simp add: beneath_def cursor_remove_def Let_def plot_cells)
  have d: "\<forall>p \<in> set ps. drawable (fb s) (wins s p)" using wm_drawable [OF inv f] r by blast
  obtain u where u: "draw_windows (windows s) (s\<lparr>vram := beneath s\<rparr>) = Some u" "drawn (s\<lparr>vram := beneath s\<rparr>) u"
    "shows_top (s\<lparr>vram := beneath s\<rparr>) ps u x y"
    using draw_windows_pixels [of "s\<lparr>vram := beneath s\<rparr>" "windows s" ps] wm_invD(1,2) [OF inv] ok(1) d xy by auto
  have fu: "fb u = fb s" "g_cursor u = g_cursor s" using drawnD [OF u(2)] by simp_all
  let ?s' = "(if ?vis then cursor_restore u else u)\<lparr>needs_composite := False\<rparr>"
  have c: "wm_composite s = Some ?s'"
    using ne wm_invD(5) [OF inv] u(1) t ok(2) by (simp add: wm_composite_def Let_def)
  have fr: "fb (cursor_restore u) = fb u" by (simp add: cursor_restore_def)
  have b: "beneath ?s' = vram u"
  proof (cases ?vis)
    case True
    have "beneath ?s' = beneath (cursor_restore u)" using True by (intro beneath_cong) simp_all
    then show ?thesis using cursor_restore_beneath [of u] True ok(2) fu by simp
  next
    case False
    then show ?thesis using fu by (simp add: beneath_def cursor_remove_def)
  qed
  have out: "beneath s (buf_addr (wins s w) (cx_of (wins s w) x) (cy_of (wins s w) y)) = vram s (buf_addr (wins s w) (cx_of (wins s w) x) (cy_of (wins s w) y))"
    if "w \<in> set ps" "in_content (wins s w) x y" for w
    unfolding beneath_def using d that by (intro cursor_remove_apart) (auto simp: drawable_def buf_apart_def in_content_def)
  have z: "0 \<notin> set ps" by (rule wm_invD(4) [OF inv])
  have l: "filter (hit (wins s) x y) ps \<noteq> [] \<Longrightarrow> last (filter (hit (wins s) x y) ps) \<in> set ps" using last_in_set by fastforce
  show ?thesis
    using c b fu fr u(3) out l z by (auto simp: shows_top_def pixel_def Let_def)
qed

end
