(* ===== verification/Sros_Window_Props.thy ===== *)
theory Sros_Window_Props
  imports Sros_Window_Shows
begin

unbundle bit_operations_syntax

text \<open>
  Histories of the window manager, and its properties: the invariant, what a click does, what the
  composition shows, and what it does to the framebuffer pointer when the last window is gone.
\<close>

section \<open>The other client operations\<close>

lemma wchain_unique: "wchain ws h ps \<Longrightarrow> wchain ws h qs \<Longrightarrow> ps = qs"
proof (induction ps arbitrary: h qs)
  case Nil
  then show ?case by (cases qs) auto
next
  case (Cons p ps)
  then show ?case by (cases qs) auto
qed

lemma win_poke_view: "wm_view s (fold (\<lambda>p. win_poke win (i p) (v p)) ps s)"
proof (induction ps arbitrary: s)
  case (Cons q ps)
  have "wm_view s (win_poke win (i q) (v q) s)" by (simp add: win_poke_def wm_view_upd)
  from wm_view_trans [OF this Cons] show ?case by simp
qed (simp add: wm_view_upd)

lemma win_changed_view: "wm_view s (win_changed win s)"
  unfolding win_changed_def by (rule wm_view_trans [OF wm_view_dirty wm_view_upd(3)])

lemma wm_fill_rect_view: "wm_view s (wm_fill_rect win rx ry rw rh c s)"
  unfolding wm_fill_rect_def Let_def split_beta'
  by (auto simp: wm_view_upd(6) intro!: wm_view_trans [OF win_poke_view win_changed_view])

lemma wm_putpixel_view: "wm_view s (wm_putpixel win px py c s)"
  unfolding wm_putpixel_def Let_def win_poke_def
  by (auto simp: wm_view_upd(6) intro!: wm_view_trans [OF wm_view_upd(1) win_changed_view])

lemma wm_putchar_view: "wm_view s (wm_putchar win ch px py fg bg s)"
  unfolding wm_putchar_def Let_def split_beta'
  by (auto simp: wm_view_upd(6) intro!: wm_view_trans [OF win_poke_view win_changed_view])

lemma wm_puts_view: "wm_view s (wm_puts win t px py fg bg s)"
proof -
  have "wm_view s (wm_puts_from win t px cx cy fg bg s)" for cx cy
  proof (induction win t px cx cy fg bg s rule: wm_puts_from.induct)
    case (2 win c cs px cx cy fg bg s)
    let ?s = "wm_putchar win (sint c) cx cy fg bg s"
    have "wm_view ?s (wm_puts_from win cs px px (cy + of_nat FONT_CHAR_HEIGHT) fg bg ?s)" if "c \<noteq> 0x0A"
      "content_w (wins ?s win) < cx + of_nat FONT_CHAR_WIDTH + of_nat FONT_CHAR_WIDTH" using 2(2) that by simp
    moreover have "wm_view ?s (wm_puts_from win cs px (cx + of_nat FONT_CHAR_WIDTH) cy fg bg ?s)" if "c \<noteq> 0x0A"
      "\<not> content_w (wins ?s win) < cx + of_nat FONT_CHAR_WIDTH + of_nat FONT_CHAR_WIDTH" using 2(3) that by simp
    ultimately show ?case
      using 2(1) wm_view_trans [OF wm_putchar_view [of s win "sint c" cx cy fg bg]] by (simp add: Let_def)
  qed (simp add: wm_view_upd)
  then show ?thesis by (simp add: wm_puts_def wm_view_upd)
qed

lemma wm_move_inv: "wm_inv n ps s \<Longrightarrow> wm_inv n ps (wm_move_window win x y s)"
proof -
  assume i: "wm_inv n ps s"
  let ?s = "wm_move_window win x y s"
  have w: "win_mem (wins ?s p) = win_mem (wins s p)" "win_focused (wins ?s p) = win_focused (wins s p)"
    "win_next (wins ?s p) = win_next (wins s p) \<and> z_order (wins ?s p) = z_order (wins s p)" for p
    by (auto simp: wm_move_window_def win_mem_def)
  have "windows ?s = windows s" "focused ?s = focused s" "win_count ?s = win_count s" "kheap ?s = kheap s"
    by (simp_all add: wm_move_window_def)
  then show ?thesis
    using i wlist_inv_cong [of ?s s ps n] win_reqs_cong [of ps "wins ?s" "wins s"] win_sized_cong [OF w(1)] w
    by (simp add: wm_inv_def wfocus_inv_def)
qed

section \<open>Histories\<close>

definition live :: "u32 \<Rightarrow> 'a wm_scheme \<Rightarrow> bool" where
  "live w s \<longleftrightarrow> (\<exists>ps. wchain (wins s) (windows s) ps \<and> w \<in> set ps)"

text \<open>
  What can happen from power-on: calls of clients on live windows, bytes from the mouse, and the
  update on every timer tick. The number bounds the depths given out so far.
\<close>

inductive wm_hist :: "wm \<Rightarrow> nat \<Rightarrow> wm \<Rightarrow> bool" for s0 where
  hist_init: "wm_hist s0 0 (wm_init s0)"
| hist_create: "wm_hist s0 n s \<Longrightarrow> unat (cw * ch * 4) \<le> 4294967280 \<Longrightarrow> wm_create_window x y cw ch t s = Some (w, s')
    \<Longrightarrow> wm_hist s0 (n + 2) s'"
| hist_destroy: "wm_hist s0 n s \<Longrightarrow> live w s \<Longrightarrow> wm_destroy_window w s = Some s' \<Longrightarrow> wm_hist s0 n s'"
| hist_focus: "wm_hist s0 n s \<Longrightarrow> live w s \<Longrightarrow> wm_focus_window w s = Some s' \<Longrightarrow> wm_hist s0 (n + 1) s'"
| hist_move: "wm_hist s0 n s \<Longrightarrow> wm_hist s0 n (wm_move_window w x y s)"
| hist_fill: "wm_hist s0 n s \<Longrightarrow> wm_hist s0 n (wm_fill_rect w rx ry rw rh c s)"
| hist_pixel: "wm_hist s0 n s \<Longrightarrow> wm_hist s0 n (wm_putpixel w px py c s)"
| hist_puts: "wm_hist s0 n s \<Longrightarrow> wm_hist s0 n (wm_puts w t px py fg bg s)"
| hist_byte: "wm_hist s0 n s \<Longrightarrow> wm_hist s0 n (mouse_handler hw s)"
| hist_update: "wm_hist s0 n s \<Longrightarrow> wm_update s = Some s' \<Longrightarrow> wm_hist s0 (n + 1) s'"

lemma mouse_handler_wm:
  "wm_inv n ps (mouse_handler hw s) = wm_inv n ps s" "mouse_inv s \<Longrightarrow> mouse_inv (mouse_handler hw s)"
proof -
  show "wm_inv n ps (mouse_handler hw s) = wm_inv n ps s"
    by (rule wm_inv_frame) (simp_all add: mouse_handler_def inb_def mouse_byte_def mouse_buffer_put_def Let_def)
  show "mouse_inv s \<Longrightarrow> mouse_inv (mouse_handler hw s)"
    unfolding mouse_handler_def inb_def Let_def by (simp add: mouse_byte_inv)
qed

lemma wm_hist_inv:
  assumes "wm_hist s0 n s" "km.holds (kheap s0) []" "mouse_inv s0" "n < 4294967295"
  shows "(\<exists>ps. wm_inv n ps s) \<and> mouse_inv s"
  using assms
proof (induction rule: wm_hist.induct)
  case hist_init
  have "wm_inv 0 [] (wm_init s0)"
    using hist_init by (simp add: wm_inv_def wlist_inv_def wfocus_inv_def wm_init_def glog_def win_reqs_def)
  moreover have "mouse_inv (wm_init s0)" using hist_init by (simp add: wm_init_def glog_def mouse_inv_def)
  ultimately show ?case by blast
next
  case (hist_create n s cw ch x y t w s')
  then obtain ps where ps: "wm_inv n ps s" "mouse_inv s" "n < 4294967294" by auto
  from wm_create_inv [OF ps(1,3) hist_create(2), of x y t] hist_create(3)
  have "mouse_same s s'" "if w = 0 then wm_inv n ps s' else wm_inv (n + 2) (ps @ [w]) s'" by auto
  moreover have "wm_inv n qs u \<Longrightarrow> wm_inv (n + 2) qs u" for qs and u :: wm by (auto simp: wm_inv_def wlist_inv_def)
  ultimately show ?case using ps(2) unfolding mouse_same_def by (metis (full_types))
next
  case (hist_destroy n s w s')
  then obtain ps where ps: "wm_inv n ps s" by auto
  then have "w \<in> set ps" using hist_destroy(2) wchain_unique [OF wm_invD(1) [OF ps]] by (auto simp: live_def)
  from wm_destroy_inv [OF ps this] hist_destroy(3) have "wm_inv n (remove1 w ps) s'" by auto
  then show ?case using wm_destroy_mouse [OF ps hist_destroy(3)] hist_destroy by (auto simp: mouse_same_def)
next
  case (hist_focus n s w s')
  then obtain ps where ps: "wm_inv n ps s" by auto
  then have w: "w \<in> set ps" using hist_focus(2) wchain_unique [OF wm_invD(1) [OF ps]] by (auto simp: live_def)
  have n: "n < 4294967295" using hist_focus by simp
  from wm_focus_inv [OF ps w n] hist_focus(3) have "\<exists>qs. wm_inv (n + 1) qs s'" by auto
  then show ?case using wm_focus_mouse [OF ps w n hist_focus(3)] hist_focus by (auto simp: mouse_same_def)
next
  case (hist_move n s w x y)
  then have "mouse_inv (wm_move_window w x y s)" by (simp add: wm_move_window_def mouse_inv_def upd_win_def)
  then show ?case using hist_move wm_move_inv by blast
next
  case (hist_fill n s w rx ry rw rh c)
  then show ?case using wm_inv_view [OF wm_fill_rect_view [of s w rx ry rw rh c]] wm_fill_rect_view [of s w rx ry rw rh c] unfolding wm_view_def by blast
next
  case (hist_pixel n s w px py c)
  then show ?case using wm_inv_view [OF wm_putpixel_view [of s w px py c]] wm_putpixel_view [of s w px py c] unfolding wm_view_def by blast
next
  case (hist_puts n s w t px py fg bg)
  then show ?case using wm_inv_view [OF wm_puts_view [of s w t px py fg bg]] wm_puts_view [of s w t px py fg bg] unfolding wm_view_def by blast
next
  case (hist_byte n s hw)
  then show ?case using mouse_handler_wm by blast
next
  case (hist_update n s s')
  then obtain ps where "wm_inv n ps s" "mouse_inv s" by auto
  then show ?case using wm_update_inv [of n ps s] hist_update by auto
qed

section \<open>Properties\<close>


definition demo_wm :: wm where
  "demo_wm = \<lparr>io_trace = [], mouse_buffer = replicate 64 \<lparr>buttons = 0, dx = 0, dy = 0\<rparr>, mouse_buf_head = 0, mouse_buf_tail = 0,
     mouse_cycle = 0, mouse_packet = [0, 0, 0], fb = demo_fb_info, vram = (\<lambda>a. 0x1234), console_row = 0, console_col = 0, gfx_log = [],
     g_cursor = \<lparr>cur_x = 4, cur_y = 5, old_x = 4, old_y = 5, cur_visible = True, saved_bg = (\<lambda>p. 0)\<rparr>,
     wins = (\<lambda>p. \<lparr>win_x = 1, win_y = 2, win_width = 34, win_height = 27, content_w = 30, content_h = 5, title = [],
       z_order = 1, win_visible = True, win_focused = True, win_buffer = 0, win_dirty = False, win_next = 0\<rparr>),
     windows = 0, focused = 0, win_count = 0, needs_composite = True, desktop_color = WM_DESKTOP_COLOR,
     wm_buttons_last = 0, kheap = kmalloc_init (\<lambda>_. 0)\<rparr>"

lemma demo_wm_mouse: "mouse_inv demo_wm"
  by (simp add: demo_wm_def mouse_inv_def)



lemma demo_heap:
  obtains h p b where "km.holds h [(p, 80), (b, 600)]"
proof -
  obtain m where m: "kmalloc (kmalloc_init (\<lambda>_. 0)) 80 = Some (adr 0x200004, m)" "heap_inv m [(88, True), (262056, False)]"
    by (rule kmalloc_first [of 80]) (simp_all add: need_size_nat)
  have "km.holds (kmalloc_init (\<lambda>_. 0)) []" using heap_init unfolding km.holds_def by auto
  from km.holds_alloc [OF this, of 80] m(1) have h: "km.holds m [(adr 0x200004, 80)]" by (auto simp: adr_def)
  obtain b m' where "kmalloc m 600 = Some (b, m')" "b \<noteq> 0"
    using kmalloc_refines_aux [OF m(2), of 600] by (auto simp: need_size_nat adr_def)
  then have "km.holds m' [(b, 600), (adr 0x200004, 80)]" using km.holds_alloc [OF h, of 600] by auto
  then have "km.holds m' [(adr 0x200004, 80), (b, 600)]" by (rule km.holds_perm) (use \<open>km.holds m' _\<close> in \<open>auto simp: km.holds_def\<close>)
  then show thesis by (rule that)
qed


text \<open>One window of 30 by 5 pixels, its buffer filled with one colour.\<close>

lemma demo_one_window:
  obtains s :: wm and p where "wm_inv 1 [p] s" "p \<noteq> 0" "fb s = demo_fb_info" "vram s = (\<lambda>a. 0x1234)" "focused s = p"
    "\<And>q. wins s q = (wins demo_wm p)\<lparr>win_buffer := win_buffer (wins s q)\<rparr>"
proof -
  obtain h p b where h: "km.holds h [(p, 80), (b, 600)]" by (rule demo_heap)
  let ?w = "(wins demo_wm p)\<lparr>win_buffer := b\<rparr>"
  let ?s = "demo_wm\<lparr>wins := (\<lambda>q. ?w), windows := p, focused := p, win_count := 1, kheap := h\<rparr>"
  have p: "p \<noteq> 0" using km.holds_nonnull [OF h] by auto
  have "win_reqs (wins ?s) [p] = [(p, 80), (b, 600)]" by (simp add: win_reqs_def demo_wm_def)
  then have "wm_inv 1 [p] ?s"
    using p h by (simp add: wm_inv_def wlist_inv_def wfocus_inv_def win_sized_def demo_wm_def)
  then show thesis using that [of p ?s] p by (simp add: demo_wm_def)
qed




text \<open>
  C35. When the last window is gone, the composition leaves the address of the framebuffer behind its
  last row, so that everything drawn from then on lands outside of the framebuffer.
\<close>

theorem wm_composite_moves_fb:
  assumes "fb_addr (fb s) \<noteq> 0" and "win_count s = 0" and "needs_composite s"
  shows "\<exists>s'. wm_composite s = Some s' \<and> fb s' = (fb s)\<lparr>fb_addr := fb_addr (fb s) + 4 * (fb_height (fb s) * (fb_pitch (fb s) div 4))\<rparr>"
proof -
  let ?t = "if cur_visible (g_cursor s) then cursor_remove s else s"
  have t: "fb ?t = fb s" "win_count ?t = 0" using assms(2) by (simp_all add: cursor_remove_def Let_def plot_cells)
  have c: "fb (clear_desktop ?t) = (fb s)\<lparr>fb_addr := fb_addr (fb s) + 4 * (fb_height (fb s) * (fb_pitch (fb s) div 4))\<rparr>"
    using t(1) by (simp add: clear_desktop_def Let_def fill_words_stores)
  have "fb (cursor_restore u) = fb u" for u :: "'a wm_scheme" by (simp add: cursor_restore_def)
  then show ?thesis using assms t c by (cases "cur_visible (g_cursor s)") (simp_all add: wm_composite_def Let_def)
qed

theorem wm_composite_moves_fb_witness:
  "\<exists>s'. wm_composite demo_wm = Some s' \<and> fb_addr (fb s') = 0xF0001400"
  using wm_composite_moves_fb [of demo_wm] by (auto simp: demo_wm_def demo_fb_info_def)

end
