(* ===== verification/Sros_Shell.thy ===== *)
theory Sros_Shell
  imports Sros_String Sros_Keyboard
begin

unbundle bit_operations_syntax

text \<open>
  The shell (\<open>src/user/shell.c\<close>): the wrappers of the system calls, the commands, the command parser,
  the history and the line editor.

  A system call is its number, its integer arguments and the bytes behind its pointer arguments; the
  kernel is a parameter that answers a call from the calls before it, so what is shown holds for
  every kernel. Arrays are lists of bytes, and an access beyond an array is the value \<open>Overrun\<close>. The
  two loops that may run forever, \<open>cat\<close> and \<open>mouse\<close>, are partial: \<open>None\<close> when they do.
\<close>

section \<open>System calls\<close>

record call =
  nr :: nat
  ints :: "u32 list"
  bytes :: "u8 list"

text \<open>\<open>r_eax\<close> is the result and \<open>r_out\<close> what the kernel stored in the buffer of the caller.\<close>

record reply =
  r_eax :: u32
  r_out :: "u8 list"

text \<open>
  \<open>key_waiting\<close> is \<open>kbd_buffer_has_data\<close>, which the shell calls directly.
\<close>

record kern =
  answer :: "call list \<Rightarrow> call \<Rightarrow> reply"
  key_waiting :: "call list \<Rightarrow> bool"

definition HISTORY_MAX :: nat where "HISTORY_MAX = 16"

record shell =
  calls :: "call list"
  line :: "u8 list"
  pos :: int
  line_len :: int
  saved_line :: "u8 list"
  saved_pos :: int
  history_index :: int
  history :: "u8 list list"
  history_count :: int

definition int80 :: "kern \<Rightarrow> nat \<Rightarrow> u32 list \<Rightarrow> u8 list \<Rightarrow> shell \<Rightarrow> reply \<times> shell" where
  "int80 k n is bs s =
     (let c = \<lparr>nr = n, ints = is, bytes = bs\<rparr>
      in (answer k (calls s) c, s\<lparr>calls := calls s @ [c]\<rparr>))"

text \<open>A call of which only the result in \<open>eax\<close> is used, as an \<open>int\<close>.\<close>

definition int80_int :: "kern \<Rightarrow> nat \<Rightarrow> u32 list \<Rightarrow> u8 list \<Rightarrow> shell \<Rightarrow> int \<times> shell" where
  "int80_int k n is bs s = (let (r, s) = int80 k n is bs s in (sint (r_eax r), s))"

definition putchar :: "kern \<Rightarrow> u8 \<Rightarrow> shell \<Rightarrow> shell" where
  "putchar k c s = snd (int80 k 1 [scast c] [] s)"

fun puts :: "kern \<Rightarrow> u8 list \<Rightarrow> shell \<Rightarrow> shell kres" where
  "puts k [] s = Inl Overrun"
| "puts k (c # cs) s = (if c \<noteq> 0 then puts k cs (putchar k c s) else Inr s)"

text \<open>\<open>puts\<close> of a text that has its terminator, as string literals have.\<close>

definition say :: "kern \<Rightarrow> string \<Rightarrow> shell \<Rightarrow> shell" where
  "say k t s = fold (putchar k) (chars t) s"

definition getchar :: "kern \<Rightarrow> shell \<Rightarrow> int \<times> shell" where
  "getchar k s = int80_int k 2 [] [] s"

definition fs_open :: "kern \<Rightarrow> u8 list \<Rightarrow> shell \<Rightarrow> int \<times> shell" where
  "fs_open k path s = int80_int k 4 [] path s"

text \<open>The buffer after the call: what the kernel stored, and zeros behind it.\<close>

definition buf_of :: "nat \<Rightarrow> reply \<Rightarrow> u8 list" where
  "buf_of n r = take n (r_out r @ replicate n 0)"

definition fs_read :: "kern \<Rightarrow> int \<Rightarrow> int \<Rightarrow> shell \<Rightarrow> int \<times> u8 list \<times> shell" where
  "fs_read k fd count s =
     (let (r, s) = int80 k 5 [of_int fd, of_int count] [] s
      in (sint (r_eax r), buf_of 256 r, s))"

definition fs_write :: "kern \<Rightarrow> int \<Rightarrow> u8 list \<Rightarrow> u32 \<Rightarrow> shell \<Rightarrow> int \<times> shell" where
  "fs_write k fd buf count s = int80_int k 6 [of_int fd, count] buf s"

definition fs_close :: "kern \<Rightarrow> int \<Rightarrow> shell \<Rightarrow> shell" where
  "fs_close k fd s = snd (int80 k 7 [of_int fd] [] s)"

definition fs_create :: "kern \<Rightarrow> u8 list \<Rightarrow> shell \<Rightarrow> int \<times> shell" where
  "fs_create k nm s = int80_int k 8 [] nm s"

abbreviation NL :: u8 where "NL \<equiv> 0x0A"
abbreviation SP :: u8 where "SP \<equiv> 0x20"

definition fs_ls :: "kern \<Rightarrow> shell \<Rightarrow> shell kres" where
  "fs_ls k s =
     (let (r, s) = int80 k 9 [512] [] s;
          n = sint (r_eax r);
          buf = buf_of 512 r
      in if 0 < n
         then (if n < 512 then bind_res (puts k (buf[nat n := 0]) s) (\<lambda>s. Inr (putchar k NL s)) else Inl Overrun)
         else Inr s)"

definition sys_kmalloc :: "kern \<Rightarrow> u32 \<Rightarrow> shell \<Rightarrow> u32 \<times> shell" where
  "sys_kmalloc k sz s = (let (r, s) = int80 k 10 [sz] [] s in (r_eax r, s))"

definition sys_kfree :: "kern \<Rightarrow> u32 \<Rightarrow> shell \<Rightarrow> shell" where
  "sys_kfree k p s = snd (int80 k 11 [p] [] s)"

definition sys_kmdump :: "kern \<Rightarrow> shell \<Rightarrow> shell" where
  "sys_kmdump k s = snd (int80 k 12 [] [] s)"

definition sys_exec :: "kern \<Rightarrow> u8 list \<Rightarrow> shell \<Rightarrow> int \<times> shell" where
  "sys_exec k path s = int80_int k 13 [] path s"

definition sys_sem_init :: "kern \<Rightarrow> u8 list \<Rightarrow> int \<Rightarrow> shell \<Rightarrow> int \<times> shell" where
  "sys_sem_init k nm v s = int80_int k 17 [of_int v] nm s"

definition sys_sem_wait :: "kern \<Rightarrow> int \<Rightarrow> shell \<Rightarrow> int \<times> shell" where
  "sys_sem_wait k i s = int80_int k 18 [of_int i] [] s"

definition sys_sem_post :: "kern \<Rightarrow> int \<Rightarrow> shell \<Rightarrow> int \<times> shell" where
  "sys_sem_post k i s = int80_int k 19 [of_int i] [] s"

definition sys_sem_destroy :: "kern \<Rightarrow> int \<Rightarrow> shell \<Rightarrow> int \<times> shell" where
  "sys_sem_destroy k i s = int80_int k 20 [of_int i] [] s"

definition sys_msg_get :: "kern \<Rightarrow> shell \<Rightarrow> int \<times> shell" where
  "sys_msg_get k s = int80_int k 21 [] [] s"

definition sys_msg_send :: "kern \<Rightarrow> int \<Rightarrow> u8 list \<Rightarrow> u32 \<Rightarrow> shell \<Rightarrow> int \<times> shell" where
  "sys_msg_send k q buf len s = int80_int k 22 [of_int q, len] buf s"

text \<open>The message and its length, which the kernel stores through the second pointer.\<close>

definition sys_msg_recv :: "kern \<Rightarrow> int \<Rightarrow> shell \<Rightarrow> int \<times> u8 list \<times> nat \<times> shell" where
  "sys_msg_recv k q s =
     (let (r, s) = int80 k 23 [of_int q] [] s in (sint (r_eax r), buf_of 64 r, length (r_out r), s))"

definition sys_msg_destroy :: "kern \<Rightarrow> int \<Rightarrow> shell \<Rightarrow> int \<times> shell" where
  "sys_msg_destroy k q s = int80_int k 24 [of_int q] [] s"

definition sys_fork :: "kern \<Rightarrow> shell \<Rightarrow> int \<times> shell" where
  "sys_fork k s = int80_int k 15 [] [] s"

definition sys_exit :: "kern \<Rightarrow> int \<Rightarrow> shell \<Rightarrow> shell" where
  "sys_exit k code s = snd (int80 k 14 [of_int code] [] s)"

definition sys_wait :: "kern \<Rightarrow> int \<Rightarrow> shell \<Rightarrow> int \<times> shell" where
  "sys_wait k p s = int80_int k 16 [of_int p] [] s"

definition sys_mouse_has_data :: "kern \<Rightarrow> shell \<Rightarrow> int \<times> shell" where
  "sys_mouse_has_data k s = int80_int k 25 [] [] s"

text \<open>The event is three bytes: the buttons and the two movements.\<close>

definition sys_mouse_read :: "kern \<Rightarrow> shell \<Rightarrow> mouse_event_t \<times> shell" where
  "sys_mouse_read k s =
     (let (r, s) = int80 k 26 [] [] s; b = buf_of 3 r
      in (\<lparr>buttons = b ! 0, dx = b ! 1, dy = b ! 2\<rparr>, s))"

section \<open>Numbers\<close>

definition hex_char :: "u32 \<Rightarrow> u8" where
  "hex_char digit = (if digit < 10 then 0x30 + ucast digit else 0x61 + ucast digit - 10)"

definition puthex_buf :: "u32 \<Rightarrow> u8 list" where
  "puthex_buf v = [0x30, 0x78] @ map (\<lambda>i. hex_char (drop_bit (28 - i * 4) v AND 0xF)) [0..<8] @ [0]"

definition puthex :: "kern \<Rightarrow> u32 \<Rightarrow> shell \<Rightarrow> shell kres" where
  "puthex k v s = puts k (puthex_buf v) s"

text \<open>Characters are signed: the comparisons are those of \<open>char\<close>.\<close>

definition between :: "u8 \<Rightarrow> u8 \<Rightarrow> u8 \<Rightarrow> bool" where
  "between lo hi c \<longleftrightarrow> sint lo \<le> sint c \<and> sint c \<le> sint hi"

fun hextoi_loop :: "u8 list \<Rightarrow> u32 \<Rightarrow> u32 kres" where
  "hextoi_loop [] v = Inl Overrun"
| "hextoi_loop (c # cs) v =
     (if c = 0 then Inr v
      else
       (let v = push_bit 4 v in
        if between 0x30 0x39 c then hextoi_loop cs (v OR scast (c - 0x30))
        else if between 0x61 0x66 c then hextoi_loop cs (v OR scast (c - 0x61 + 10))
        else if between 0x41 0x46 c then hextoi_loop cs (v OR scast (c - 0x41 + 10))
        else Inr v))"

definition hextoi :: "u8 list \<Rightarrow> u32 kres" where
  "hextoi t =
     (case t of
        a # b # cs \<Rightarrow> if a = 0x30 \<and> (b = 0x78 \<or> b = 0x58) then hextoi_loop cs 0 else hextoi_loop t 0
      | _ \<Rightarrow> hextoi_loop t 0)"

fun decimal_loop :: "u8 list \<Rightarrow> u32 \<Rightarrow> u32 option kres" where
  "decimal_loop [] v = Inl Overrun"
| "decimal_loop (c # cs) v =
     (if c = 0 then Inr (Some v)
      else if sint c < 0x30 \<or> 0x39 < sint c then Inr None
      else decimal_loop cs (v * 10 + scast (c - 0x30)))"

section \<open>Commands\<close>

text \<open>
  \<open>argv\<close> is the list of arguments, each the bytes from its pointer to the end of the command line.
\<close>

definition cmd_kmalloc :: "kern \<Rightarrow> u8 list list \<Rightarrow> shell \<Rightarrow> shell kres" where
  "cmd_kmalloc k argv s =
     (if length argv < 2 then Inr (say k (''Usage: kmalloc <size>'' @ [LF]) s)
      else bind_res (decimal_loop (argv ! 1) 0) (\<lambda>r.
        case r of
          None \<Rightarrow> Inr (say k (''Invalid size'' @ [LF]) s)
        | Some sz \<Rightarrow>
           (let (p, s) = sys_kmalloc k sz s;
                s = say k ''kmalloc('' s
            in bind_res (puts k (argv ! 1) s) (\<lambda>s.
               bind_res (puthex k p (say k '') = '' s)) (\<lambda>s. Inr (putchar k NL s))))))"

definition cmd_kfree :: "kern \<Rightarrow> u8 list list \<Rightarrow> shell \<Rightarrow> shell kres" where
  "cmd_kfree k argv s =
     (if length argv < 2
      then Inr (say k (''Example: kfree 0x200004'' @ [LF]) (say k (''Usage: kfree <hexaddr>'' @ [LF]) s))
      else bind_res (hextoi (argv ! 1)) (\<lambda>addr.
        (let s = sys_kfree k addr s
         in bind_res (puthex k addr (say k ''freed '' s)) (\<lambda>s. Inr (putchar k NL s)))))"

definition cmd_kmdump :: "kern \<Rightarrow> shell \<Rightarrow> shell" where
  "cmd_kmdump k s = sys_kmdump k s"

text \<open>The last line of the help text is UTF-8.\<close>

definition help_lines :: "string list" where
  "help_lines =
    [''Available commands:'',
     ''  help           - Show this help'',
     ''  echo <text>    - Print text'',
     ''  clear          - Clear screen'',
     ''  ls             - List files'',
     ''  cat <file>     - Show file content'',
     ''  touch <file>   - Create a file'',
     ''  write <file> <text> - Write text to file'',
     ''  kmalloc <size>      - Allocate heap memory'',
     ''  kfree <hexaddr>     - Free heap memory'',
     ''  kmdump              - Dump heap state'',
     ''  exec <file>         - Execute a user program'',
     ''  fork_test           - Test fork/wait/exit'',
     ''  sem_test            - Test semaphore (create/wait/post/destroy)'',
     ''  msg_test            - Test message queue (send/recv)'']"

definition help_mouse :: "u8 list" where
  "help_mouse = [0x20, 0x20, 0x6D, 0x6F, 0x75, 0x73, 0x65, 0x20, 0x20, 0x20, 0x20, 0x20, 0x20, 0x20, 0x20, 0x20, 0x20, 0x20, 0x20, 0x20, 0x20, 0x20, 0x2D, 0x20, 0xE5, 0xAE, 0x9E, 0xE6, 0x97, 0xB6, 0xE6, 0x98, 0xBE, 0xE7, 0xA4, 0xBA, 0xE9, 0xBC, 0xA0, 0xE6, 0xA0, 0x87, 0xE4, 0xBA, 0x8B, 0xE4, 0xBB, 0xB6, 0x0A]"

definition cmd_help :: "kern \<Rightarrow> shell \<Rightarrow> shell" where
  "cmd_help k s =
     (let s = fold (\<lambda>t. say k (t @ [LF])) help_lines s
      in fold (putchar k) help_mouse s)"

text \<open>The arguments from the second on, with a space after each but the last.\<close>

fun echo_args :: "kern \<Rightarrow> u8 list list \<Rightarrow> shell \<Rightarrow> shell kres" where
  "echo_args k [] s = Inr s"
| "echo_args k [a] s = puts k a s"
| "echo_args k (a # b # as) s = bind_res (puts k a s) (\<lambda>s. echo_args k (b # as) (putchar k SP s))"

definition cmd_echo :: "kern \<Rightarrow> u8 list list \<Rightarrow> shell \<Rightarrow> shell kres" where
  "cmd_echo k argv s =
     (if length argv = 1 then Inr (putchar k NL s)
      else bind_res (echo_args k (drop 1 argv) s) (\<lambda>s. Inr (putchar k NL s)))"

definition MOUSE_RIGHT_BTN :: u8 where "MOUSE_RIGHT_BTN = 0x02"
definition MOUSE_MIDDLE_BTN :: u8 where "MOUSE_MIDDLE_BTN = 0x04"

definition mouse_format_buttons :: "u8 \<Rightarrow> u8 list" where
  "mouse_format_buttons btns =
     [if btns AND 0x01 \<noteq> 0 then 0x4C else 0x2D, if btns AND MOUSE_MIDDLE_BTN \<noteq> 0 then 0x4D else 0x2D,
      if btns AND MOUSE_RIGHT_BTN \<noteq> 0 then 0x52 else 0x2D, 0]"

text \<open>One of the two movements.\<close>

definition show_delta :: "kern \<Rightarrow> i8 \<Rightarrow> shell \<Rightarrow> shell kres" where
  "show_delta k d s =
     (let s = (if 0 \<le> sint d then putchar k SP s else s);
          s = putchar k SP s;
          s = (if sint d < -9 \<or> 99 < sint d then s else putchar k SP s)
      in bind_res (puthex k (ucast d) s) (\<lambda>s. Inr (putchar k SP s)))"

definition show_event :: "kern \<Rightarrow> mouse_event_t \<Rightarrow> shell \<Rightarrow> shell kres" where
  "show_event k ev s =
     (let s = putchar k SP (putchar k 0x0D s)
      in bind_res (show_delta k (dx ev) s) (\<lambda>s.
         bind_res (show_delta k (dy ev) s) (\<lambda>s.
         bind_res (puts k (mouse_format_buttons (buttons ev)) s) (\<lambda>s.
         (let s = putchar k SP s in
          if buttons ev = 0 then Inr s
          else
           (let s = putchar k 0x28 s;
                s = (if buttons ev AND 0x01 \<noteq> 0 then putchar k 0x4C s else s);
                s = (if buttons ev AND MOUSE_RIGHT_BTN \<noteq> 0 then putchar k 0x52 s else s);
                s = (if buttons ev AND MOUSE_MIDDLE_BTN \<noteq> 0 then putchar k 0x4D s else s)
            in Inr (putchar k 0x29 s)))))))"

partial_function (option) mouse_loop :: "kern \<Rightarrow> shell \<Rightarrow> shell kres option" where
  "mouse_loop k s =
     (if key_waiting k (calls s) then Some (Inr s)
      else
       (case sys_mouse_has_data k s of (n, s) \<Rightarrow>
         if n = 0 then mouse_loop k s
         else (case sys_mouse_read k s of (ev, s) \<Rightarrow>
           (case show_event k ev s of Inl e \<Rightarrow> Some (Inl e) | Inr s \<Rightarrow> mouse_loop k s))))"

definition cmd_mouse :: "kern \<Rightarrow> shell \<Rightarrow> shell kres option" where
  "cmd_mouse k s =
     (let s = say k (''Mouse monitor: move/click to see events. Press any key to exit.'' @ [LF]) s;
          s = say k (''  dx   dy   buttons'' @ [LF]) s
      in map_option (\<lambda>r. bind_res r (\<lambda>s. Inr (putchar k NL s))) (mouse_loop k s))"

definition cmd_clear :: "kern \<Rightarrow> shell \<Rightarrow> shell" where
  "cmd_clear k s = snd (int80 k 3 [] [] s)"

definition cmd_ls :: "kern \<Rightarrow> shell \<Rightarrow> shell kres" where
  "cmd_ls k s = fs_ls k s"

text \<open>\<open>path\<close> is an array of 64 bytes, of which those behind the terminator are never read.\<close>

definition make_path :: "u8 list \<Rightarrow> u8 list kres" where
  "make_path nm = bind_res (strcpy (0 # replicate 62 0) nm) (\<lambda>r. Inr (0x2F # r))"

partial_function (option) cat_loop :: "kern \<Rightarrow> int \<Rightarrow> shell \<Rightarrow> shell kres option" where
  "cat_loop k fd s =
     (case fs_read k fd 255 s of (n, buf, s) \<Rightarrow>
        if 0 < n
        then (if n < 256
              then (case puts k (buf[nat n := 0]) s of Inl e \<Rightarrow> Some (Inl e) | Inr s \<Rightarrow> cat_loop k fd s)
              else Some (Inl Overrun))
        else Some (Inr s))"

definition cmd_cat :: "kern \<Rightarrow> u8 list list \<Rightarrow> shell \<Rightarrow> shell kres option" where
  "cmd_cat k argv s =
     (if length argv < 2 then Some (Inr (say k (''Usage: cat <filename>'' @ [LF]) s))
      else (case make_path (argv ! 1) of
              Inl e \<Rightarrow> Some (Inl e)
            | Inr path \<Rightarrow>
               (case fs_open k path s of (fd, s) \<Rightarrow>
                  if fd < 0
                  then Some (bind_res (puts k (argv ! 1) (say k ''File not found: '' s)) (\<lambda>s. Inr (putchar k NL s)))
                  else map_option (\<lambda>r. bind_res r (\<lambda>s. Inr (fs_close k fd (putchar k NL s)))) (cat_loop k fd s))))"

definition cmd_touch :: "kern \<Rightarrow> u8 list list \<Rightarrow> shell \<Rightarrow> shell kres" where
  "cmd_touch k argv s =
     (if length argv < 2 then Inr (say k (''Usage: touch <filename>'' @ [LF]) s)
      else
       (let (r, s) = fs_create k (argv ! 1) s;
            s = (if r = 0 then say k ''Created: '' s else say k ''Failed: '' s)
        in bind_res (puts k (argv ! 1) s) (\<lambda>s. Inr (putchar k NL s))))"

definition cmd_write :: "kern \<Rightarrow> u8 list list \<Rightarrow> shell \<Rightarrow> shell kres" where
  "cmd_write k argv s =
     (if length argv < 3 then Inr (say k (''Usage: write <filename> <text>'' @ [LF]) s)
      else
       (let (_, s) = fs_create k (argv ! 1) s in
        bind_res (make_path (argv ! 1)) (\<lambda>path.
         (let (fd, s) = fs_open k path s in
          if fd < 0
          then bind_res (puts k (argv ! 1) (say k ''Cannot open: '' s)) (\<lambda>s. Inr (putchar k NL s))
          else bind_res (strlen (argv ! 2)) (\<lambda>n.
           (let (_, s) = fs_write k fd (argv ! 2) n s;
                s = fs_close k fd s;
                s = say k ''Written to: '' s
            in bind_res (puts k (argv ! 1) s) (\<lambda>s. Inr (putchar k NL s))))))))"

definition cmd_exec :: "kern \<Rightarrow> u8 list list \<Rightarrow> shell \<Rightarrow> shell kres" where
  "cmd_exec k argv s =
     (if length argv < 2 then Inr (say k (''Usage: exec <filename>'' @ [LF]) s)
      else bind_res (make_path (argv ! 1)) (\<lambda>path.
        bind_res (puts k (argv ! 1) (say k ''Loading: '' s)) (\<lambda>s.
         (let s = say k [LF] s;
              (ret, s) = sys_exec k path s
          in Inr (if ret < 0 then say k (''Error: Failed to load program'' @ [LF]) s else s)))))"

text \<open>
  The tests of the process calls, as the process that continues from each \<open>fork\<close> sees them: the reply
  of the kernel tells the child from the parent. The endless \<open>hlt\<close> behind \<open>sys_exit\<close> is \<open>Halted\<close>.
\<close>

definition cmd_fork_test :: "kern \<Rightarrow> shell \<Rightarrow> shell kres" where
  "cmd_fork_test k s =
     (let (p, s) = sys_fork k (say k (''Fork test: about to fork...'' @ [LF]) s) in
      if p < 0 then Inr (say k (''Fork failed!'' @ [LF]) s)
      else if p = 0
      then (let s = say k (''Child process: about to exit...'' @ [LF]) s;
                s = sys_exit k 42 s;
                s = say k (''[BUG] Child: sys_exit returned to user mode!'' @ [LF]) s
            in Inl Halted)
      else bind_res (puthex k (of_int p) (say k ''Parent process: PID='' s)) (\<lambda>s.
        (let s = say k ([LF] @ ''Parent: waiting for child...'' @ [LF]) s;
             (ret, s) = sys_wait k (-1) s
         in bind_res (puthex k (of_int ret) (say k ''Parent: wait returned PID='' s)) (\<lambda>s.
            Inr (say k ([LF] @ ''Parent: done.'' @ [LF]) s)))))"

definition cmd_sem_test :: "kern \<Rightarrow> shell \<Rightarrow> shell kres" where
  "cmd_sem_test k s =
     (let s = say k (''Semaphore test: creating semaphore with initial value 1'' @ [LF]) s;
          (sem, s) = sys_sem_init k (chars ''test_sem'' @ [0]) 1 s
      in if sem < 0 then Inr (say k (''Failed to create semaphore!'' @ [LF]) s)
         else bind_res (puthex k (of_int sem) (say k ''Semaphore created, id='' s)) (\<lambda>s.
          (let s = say k (''Waiting (P operation)...'' @ [LF]) (putchar k NL s);
               (_, s) = sys_sem_wait k sem s;
               s = say k (''Acquired semaphore (value was 1, now 0)'' @ [LF]) s;
               (child, s) = sys_fork k s
           in if child = 0
              then (let s = say k (''Child: trying to wait on semaphore...'' @ [LF]) s;
                        (_, s) = sys_sem_wait k sem s;
                        s = say k (''Child: acquired semaphore!'' @ [LF]) s;
                        (_, s) = sys_sem_post k sem s;
                        s = say k (''Child: posted semaphore, exiting.'' @ [LF]) s
                    in Inr (sys_exit k 0 s))
              else (let s = say k (''Parent: holding semaphore for a while...'' @ [LF]) s;
                        s = say k (''Parent: posting semaphore...'' @ [LF]) s;
                        (_, s) = sys_sem_post k sem s;
                        s = say k (''Parent: waiting for child...'' @ [LF]) s;
                        (_, s) = sys_wait k (-1) s;
                        (_, s) = sys_sem_destroy k sem s
                    in Inr (say k (''Semaphore test done.'' @ [LF]) s)))))"

definition cmd_msg_test :: "kern \<Rightarrow> shell \<Rightarrow> shell kres" where
  "cmd_msg_test k s =
     (let s = say k (''Message queue test: creating queue'' @ [LF]) s;
          (mq, s) = sys_msg_get k s
      in if mq < 0 then Inr (say k (''Failed to create message queue!'' @ [LF]) s)
         else bind_res (puthex k (of_int mq) (say k ''Message queue created, id='' s)) (\<lambda>s.
          (let (child, s) = sys_fork k (putchar k NL s) in
           if child = 0
           then (let (_, buf, len, s) = sys_msg_recv k mq (say k (''Child: waiting for message...'' @ [LF]) s)
                 in if len < 64
                    then bind_res (puts k (buf[len := 0]) (say k (''Child: received '' @ [CHR 0x27]) s)) (\<lambda>s.
                      (let s = say k ([CHR 0x27, LF]) s in Inr (sys_exit k 0 s)))
                    else Inl Overrun)
           else (let msg = chars ''Hello from parent!'' @ [0];
                     s = say k (''Parent: sending message...'' @ [LF]) s
                 in bind_res (strlen msg) (\<lambda>n.
                  (let (_, s) = sys_msg_send k mq msg n s;
                       s = say k (''Parent: waiting for child...'' @ [LF]) s;
                       (_, s) = sys_wait k (-1) s;
                       (_, s) = sys_msg_destroy k mq s
                   in Inr (say k (''Message queue test done.'' @ [LF]) s)))))))"

end
