(* ===== verification/Sros_Shell_Edit.thy ===== *)
theory Sros_Shell_Edit
  imports Sros_Shell Sros_Vga
begin

unbundle bit_operations_syntax

text \<open>
  The rest of \<open>src/user/shell.c\<close>: splitting a command line into arguments, dispatching it, the command
  history, and the loop of \<open>shell_main\<close> that edits the line key by key.
\<close>

section \<open>Parsing and dispatch\<close>

text \<open>A pointer that moves on while a condition holds.\<close>

function skip_while :: "(u8 \<Rightarrow> bool) \<Rightarrow> u8 list \<Rightarrow> nat \<Rightarrow> nat kres" where
  "skip_while P xs p =
     (if p < length xs then (if P (xs ! p) then skip_while P xs (p + 1) else Inr p) else Inl Overrun)"
  by auto
termination
  by (relation "measure (\<lambda>(P, xs, p). length xs - p)") auto

declare skip_while.simps [simp del]

lemma skip_while_SomeD:
  "skip_while P xs p = Inr q \<Longrightarrow> p \<le> q \<and> q < length xs \<and> \<not> P (xs ! q) \<and> (\<forall>i. p \<le> i \<and> i < q \<longrightarrow> P (xs ! i))"
proof (induction P xs p rule: skip_while.induct)
  case (1 P xs p)
  show ?case
  proof (cases "p < length xs \<and> P (xs ! p)")
    case True
    then have "skip_while P xs (p + 1) = Inr q" using 1(2) by (subst (asm) skip_while.simps) simp
    with 1(1) True have r: "p + 1 \<le> q" "q < length xs" "\<not> P (xs ! q)" "\<forall>i. p + 1 \<le> i \<and> i < q \<longrightarrow> P (xs ! i)" by auto
    have "P (xs ! i)" if "p \<le> i" "i < q" for i using r(4) True that by (cases "i = p") auto
    then show ?thesis using r by auto
  next
    case False
    then show ?thesis using 1(2) by (subst (asm) skip_while.simps) (auto split: if_splits)
  qed
qed

text \<open>\<open>argv\<close> holds the offsets of the arguments found so far.\<close>

function parse_loop :: "nat \<Rightarrow> u8 list \<Rightarrow> nat \<Rightarrow> nat list \<Rightarrow> (nat list \<times> u8 list) kres" where
  "parse_loop max_args xs p argv =
     (if length xs \<le> p then Inl Overrun
      else if xs ! p = 0 then Inr (argv, xs)
      else (case skip_while (\<lambda>c. c = SP) xs p of
         Inl e \<Rightarrow> Inl e
       | Inr p \<Rightarrow>
          if xs ! p = 0 then Inr (argv, xs)
          else if max_args \<le> length argv then Inr (argv, xs)
          else (case skip_while (\<lambda>c. c \<noteq> 0 \<and> c \<noteq> SP) xs p of
             Inl e \<Rightarrow> Inl e
           | Inr q \<Rightarrow>
              if xs ! q \<noteq> 0 then parse_loop max_args (xs[q := 0]) (q + 1) (argv @ [p])
              else parse_loop max_args xs q (argv @ [p]))))"
  by auto
termination
proof (relation "measure (\<lambda>(m, xs, p, argv). 2 * (length xs - p))", goal_cases)
  case 1
  then show ?case by simp
next
  case (2 m xs p argv p' q)
  have "p \<le> p'" "p' \<le> q" "q < length xs" using skip_while_SomeD [OF 2(3)] skip_while_SomeD [OF 2(6)] by auto
  then show ?case by auto
next
  case (3 m xs p argv p' q)
  have s: "p \<le> p'" "xs ! p' \<noteq> SP" "p' \<le> q" "q < length xs"
    using skip_while_SomeD [OF 3(3)] skip_while_SomeD [OF 3(6)] by auto
  have "p' \<noteq> q" using 3(4,7) by auto
  then show ?case using s by auto
qed

declare parse_loop.simps [simp del]

definition parse_command :: "u8 list \<Rightarrow> nat \<Rightarrow> (nat list \<times> u8 list) kres" where
  "parse_command xs max_args = parse_loop max_args xs 0 []"

text \<open>The chain of comparisons of \<open>execute\<close>: the first name that is equal decides.\<close>

fun dispatch :: "(string \<times> (shell \<Rightarrow> shell kres option)) list \<Rightarrow> kern \<Rightarrow> u8 list \<Rightarrow> shell \<Rightarrow> shell kres option" where
  "dispatch [] k a s = Some (Inr (say k (''Error: Unknown command'' @ [LF]) s))"
| "dispatch ((t, f) # cs) k a s =
     (case strcmp a (chars t @ [0]) of
        Inl e \<Rightarrow> Some (Inl e)
      | Inr r \<Rightarrow> if r = 0 then f s else dispatch cs k a s)"

definition commands :: "kern \<Rightarrow> u8 list list \<Rightarrow> (string \<times> (shell \<Rightarrow> shell kres option)) list" where
  "commands k argv =
    [(''echo'', Some \<circ> cmd_echo k argv), (''clear'', Some \<circ> Inr \<circ> cmd_clear k), (''help'', Some \<circ> Inr \<circ> cmd_help k),
     (''ls'', Some \<circ> cmd_ls k), (''cat'', cmd_cat k argv), (''touch'', Some \<circ> cmd_touch k argv),
     (''write'', Some \<circ> cmd_write k argv), (''kmalloc'', Some \<circ> cmd_kmalloc k argv), (''kfree'', Some \<circ> cmd_kfree k argv),
     (''kmdump'', Some \<circ> Inr \<circ> cmd_kmdump k), (''exec'', Some \<circ> cmd_exec k argv), (''fork_test'', Some \<circ> cmd_fork_test k),
     (''sem_test'', Some \<circ> cmd_sem_test k), (''msg_test'', Some \<circ> cmd_msg_test k), (''mouse'', cmd_mouse k)]"

definition execute :: "kern \<Rightarrow> shell \<Rightarrow> shell kres option" where
  "execute k s =
     (case parse_command (line s) 16 of
        Inl e \<Rightarrow> Some (Inl e)
      | Inr (ps, xs) \<Rightarrow>
         (let s = s\<lparr>line := xs\<rparr>;
              argv = map (\<lambda>p. drop p xs) ps
          in if argv = [] then Some (Inr s) else dispatch (commands k argv) k (argv ! 0) s))"

section \<open>History\<close>

definition put_at :: "'a list \<Rightarrow> int \<Rightarrow> 'a \<Rightarrow> 'a list kres" where
  "put_at xs i v = (if 0 \<le> i \<and> i < int (length xs) then Inr (xs[nat i := v]) else Inl Overrun)"

definition get_at :: "'a list \<Rightarrow> int \<Rightarrow> 'a kres" where
  "get_at xs i = (if 0 \<le> i \<and> i < int (length xs) then Inr (xs ! nat i) else Inl Overrun)"

text \<open>\<open>strcpy\<close> between elements of the array of lines.\<close>

definition copy_entry :: "int \<Rightarrow> u8 list \<Rightarrow> u8 list list \<Rightarrow> u8 list list kres" where
  "copy_entry i src h = bind_res (get_at h i) (\<lambda>d. bind_res (strcpy d src) (put_at h i))"

definition drop_oldest :: "u8 list list \<Rightarrow> u8 list list kres" where
  "drop_oldest h = fold_res (\<lambda>i h. bind_res (get_at h (int i)) (\<lambda>src. copy_entry (int i - 1) src h)) [1..<HISTORY_MAX] h"

definition history_add :: "u8 list \<Rightarrow> shell \<Rightarrow> shell kres" where
  "history_add cmd s =
     bind_res (strlen cmd) (\<lambda>n.
       if n = 0 then Inr s
       else
        bind_res (if 0 < history_count s
                  then bind_res (get_at (history s) (history_count s - 1)) (\<lambda>h. bind_res (strcmp h cmd) (\<lambda>r. Inr (r = 0)))
                  else Inr False) (\<lambda>same.
        if same then Inr s
        else
         bind_res (if int HISTORY_MAX \<le> history_count s
                   then bind_res (drop_oldest (history s)) (\<lambda>h. Inr (s\<lparr>history := h, history_count := int HISTORY_MAX - 1\<rparr>))
                   else Inr s) (\<lambda>s.
         bind_res (copy_entry (history_count s) cmd (history s)) (\<lambda>h.
         Inr (s\<lparr>history := h, history_count := history_count s + 1\<rparr>)))))"

section \<open>The line editor\<close>

definition clear_input :: "kern \<Rightarrow> int \<Rightarrow> shell \<Rightarrow> shell" where
  "clear_input k len s = (putchar k 0x08 ^^ nat len) s"

definition prompt :: "kern \<Rightarrow> shell \<Rightarrow> shell" where
  "prompt k s = say k ''SRos> '' s"

definition key_enter :: "kern \<Rightarrow> shell \<Rightarrow> shell kres option" where
  "key_enter k s =
     (let s = putchar k NL s in
      case bind_res (put_at (line s) (pos s) 0) (\<lambda>xs. history_add xs (s\<lparr>line := xs\<rparr>)) of
        Inl e \<Rightarrow> Some (Inl e)
      | Inr s \<Rightarrow>
         map_option (\<lambda>r. bind_res r (\<lambda>s. Inr (prompt k (s\<lparr>pos := 0, line_len := 0, history_index := -1\<rparr>)))) (execute k s))"

text \<open>The characters behind the cursor move one place to the left.\<close>

definition close_gap :: "nat \<Rightarrow> nat \<Rightarrow> u8 list \<Rightarrow> u8 list kres" where
  "close_gap i n xs = fold_res (\<lambda>i xs. bind_res (get_at xs (int i + 1)) (put_at xs (int i))) [i..<n] xs"

definition key_backspace :: "kern \<Rightarrow> shell \<Rightarrow> shell kres" where
  "key_backspace k s =
     (if pos s \<le> 0 then Inr s
      else
       (let s = s\<lparr>pos := pos s - 1, line_len := line_len s - 1\<rparr>;
            s = putchar k 0x08 s
        in bind_res (close_gap (nat (pos s)) (nat (line_len s)) (line s)) (\<lambda>xs.
           bind_res (put_at xs (line_len s) 0) (\<lambda>xs.
            (let s = s\<lparr>line := xs\<rparr>;
                 s = fold (\<lambda>i. putchar k (xs ! i)) [nat (pos s)..<nat (line_len s)] s;
                 s = putchar k SP s
             in Inr (fold (\<lambda>_. putchar k CURSOR_LEFT) [nat (pos s)..<nat (line_len s + 1)] s))))))"

text \<open>A line of the history, or the saved line, replaces the edited one; \<open>n\<close> is its length.\<close>

definition show_line :: "kern \<Rightarrow> u8 list \<Rightarrow> int option \<Rightarrow> shell \<Rightarrow> shell kres" where
  "show_line k src n s =
     (let s = clear_input k (pos s) s in
      bind_res (strcpy (line s) src) (\<lambda>xs.
      bind_res (case n of Some n \<Rightarrow> Inr n | None \<Rightarrow> bind_res (strlen xs) (\<lambda>n. Inr (sint n))) (\<lambda>n.
      puts k xs (s\<lparr>line := xs, pos := n, line_len := n\<rparr>))))"

definition key_up :: "kern \<Rightarrow> shell \<Rightarrow> shell kres" where
  "key_up k s =
     (if history_count s = 0 then Inr s
      else
       bind_res (if history_index s = -1
                 then bind_res (strcpy (saved_line s) (line s)) (\<lambda>xs. Inr (s\<lparr>saved_line := xs, saved_pos := pos s\<rparr>))
                 else Inr s) (\<lambda>s.
       if history_index s < history_count s - 1
       then (let s = s\<lparr>history_index := history_index s + 1\<rparr>
             in bind_res (get_at (history s) (history_count s - 1 - history_index s)) (\<lambda>src. show_line k src None s))
       else Inr s))"

definition key_down :: "kern \<Rightarrow> shell \<Rightarrow> shell kres" where
  "key_down k s =
     (if history_index s = -1 then Inr s
      else if 0 < history_index s
      then (let s = s\<lparr>history_index := history_index s - 1\<rparr>
            in bind_res (get_at (history s) (history_count s - 1 - history_index s)) (\<lambda>src. show_line k src None s))
      else show_line k (saved_line s) (Some (saved_pos s)) (s\<lparr>history_index := -1\<rparr>))"

definition key_left :: "kern \<Rightarrow> shell \<Rightarrow> shell" where
  "key_left k s = (if 0 < pos s then putchar k CURSOR_LEFT (s\<lparr>pos := pos s - 1\<rparr>) else s)"

definition key_right :: "kern \<Rightarrow> shell \<Rightarrow> shell" where
  "key_right k s = (if pos s < line_len s then (putchar k CURSOR_RIGHT s)\<lparr>pos := pos s + 1\<rparr> else s)"

definition key_char :: "kern \<Rightarrow> u8 \<Rightarrow> shell \<Rightarrow> shell kres" where
  "key_char k c s =
     (if pos s < 255
      then bind_res (put_at (line s) (pos s) c) (\<lambda>xs.
        (let s = s\<lparr>line := xs, pos := pos s + 1\<rparr>;
             s = (if line_len s < pos s then s\<lparr>line_len := pos s\<rparr> else s)
         in Inr (putchar k c s)))
      else Inr s)"

text \<open>One round of the loop of \<open>shell_main\<close>, for the key that \<open>getchar\<close> delivered.\<close>

definition shell_key :: "kern \<Rightarrow> int \<Rightarrow> shell \<Rightarrow> shell kres option" where
  "shell_key k c s =
     (if c = 0x0A then key_enter k s
      else if c = 0x08 then Some (key_backspace k s)
      else if c = KEY_UP then Some (key_up k s)
      else if c = KEY_DOWN then Some (key_down k s)
      else if c = KEY_LEFT then Some (Inr (key_left k s))
      else if c = KEY_RIGHT then Some (Inr (key_right k s))
      else Some (key_char k (of_int c) s))"

definition shell_round :: "kern \<Rightarrow> shell \<Rightarrow> shell kres option" where
  "shell_round k s = (case getchar k s of (c, s) \<Rightarrow> shell_key k c s)"

text \<open>\<open>shell_main\<close> up to its loop, and a number of rounds of it.\<close>

definition shell_main :: "kern \<Rightarrow> shell \<Rightarrow> shell" where
  "shell_main k s = prompt k (s\<lparr>pos := 0, line_len := 0, history_index := -1\<rparr>)"

primrec shell_rounds :: "kern \<Rightarrow> nat \<Rightarrow> shell \<Rightarrow> shell kres option" where
  "shell_rounds k 0 s = Some (Inr s)"
| "shell_rounds k (Suc n) s =
     (case shell_round k s of Some (Inr s) \<Rightarrow> shell_rounds k n s | r \<Rightarrow> r)"

end
