(* ===== verification/Sros_Shell_Parse.thy ===== *)
theory Sros_Shell_Parse
  imports Sros_Shell_Edit
begin

unbundle bit_operations_syntax

text \<open>
  Properties of the text functions of the shell: the arguments of a command line are its words, what
  \<open>puthex\<close> prints \<open>hextoi\<close> reads, and \<open>echo\<close> prints its arguments.
\<close>

section \<open>Words of a line\<close>

text \<open>The reference definition: the nonempty pieces between spaces.\<close>

fun pieces :: "u8 list \<Rightarrow> u8 list list" where
  "pieces [] = [[]]"
| "pieces (c # cs) = (if c = SP then [] # pieces cs else (c # hd (pieces cs)) # tl (pieces cs))"

definition words :: "u8 list \<Rightarrow> u8 list list" where
  "words t = filter (\<lambda>w. w \<noteq> []) (pieces t)"

lemma pieces_nonempty [simp]: "pieces t \<noteq> []"
  by (cases t) auto

lemma words_Nil [simp]: "words [] = []"
  by (simp add: words_def)

lemma words_spaces [simp]: "words (replicate n SP @ t) = words t"
  by (induction n) (simp_all add: words_def)

lemma pieces_word: "SP \<notin> set w \<Longrightarrow> pieces (w @ SP # t) = w # pieces t" "SP \<notin> set w \<Longrightarrow> pieces w = [w]"
  by (induction w) auto

lemma words_word:
  assumes "w \<noteq> []" "SP \<notin> set w"
  shows "words (w @ SP # t) = w # words t" "words w = [w]"
  using assms by (simp_all add: words_def pieces_word)

section \<open>The parser\<close>

lemma skip_while_ex:
  assumes "\<exists>i. p \<le> i \<and> i < length xs \<and> \<not> P (xs ! i)"
  shows "\<exists>q. skip_while P xs p = Inr q"
  using assms
proof (induction P xs p rule: skip_while.induct)
  case (1 P xs p)
  then obtain i where i: "p \<le> i" "i < length xs" "\<not> P (xs ! i)" by blast
  show ?case
  proof (cases "P (xs ! p)")
    case True
    then have "p + 1 \<le> i" using i by (cases "p = i") auto
    then have "\<exists>q. skip_while P xs (p + 1) = Inr q" using 1(1) i True by auto
    then show ?thesis using True i by (subst skip_while.simps) auto
  next
    case False
    then show ?thesis using i by (subst skip_while.simps) auto
  qed
qed

lemma cstr_split:
  assumes "p \<le> q" "q < length xs" "\<forall>i. p \<le> i \<and> i < q \<longrightarrow> xs ! i \<noteq> 0"
  shows "cstr (drop p xs) = take (q - p) (drop p xs) @ cstr (drop q xs)"
proof -
  have d: "drop p xs = take (q - p) (drop p xs) @ drop q xs"
    using assms(1) by (metis append_take_drop_id drop_drop le_add_diff_inverse2 add.commute)
  have "\<forall>c \<in> set (take (q - p) (drop p xs)). c \<noteq> 0"
    using assms by (auto simp: in_set_conv_nth)
  then show ?thesis by (subst d) (simp add: cstr_def takeWhile_append2)
qed

text \<open>What a run of the parser from offset \<open>p\<close> has found: offsets whose texts are the words.\<close>

definition parsed :: "nat \<Rightarrow> u8 list \<Rightarrow> nat \<Rightarrow> nat list \<Rightarrow> u8 list \<Rightarrow> bool" where
  "parsed m xs p ps ys \<longleftrightarrow> length ys = length xs \<and> take p ys = take p xs \<and> (\<forall>i < length xs. ys ! i = xs ! i \<or> ys ! i = 0) \<and> 0 \<in> set ys \<and> (\<forall>q \<in> set ps. 0 \<in> set (drop q ys)) \<and>
     map (\<lambda>q. cstr (drop q ys)) ps = take m (words (cstr (drop p xs)))"

lemma parsed_none:
  assumes "words (cstr (drop p xs)) = [] \<or> m = 0" "0 \<in> set xs"
  shows "parsed m xs p [] xs"
  using assms by (auto simp: parsed_def)

lemma zero_from: "0 \<in> set (drop p xs) \<longleftrightarrow> (\<exists>i. p \<le> i \<and> i < length xs \<and> xs ! i = 0)"
proof
  assume "0 \<in> set (drop p xs)"
  then obtain j where "j < length xs - p" "xs ! (p + j) = 0" by (auto simp: in_set_conv_nth)
  then show "\<exists>i. p \<le> i \<and> i < length xs \<and> xs ! i = 0" by (intro exI [of _ "p + j"]) auto
next
  assume "\<exists>i. p \<le> i \<and> i < length xs \<and> xs ! i = 0"
  then obtain i where i: "p \<le> i" "i < length xs" "xs ! i = 0" by blast
  then have "drop p xs ! (i - p) = 0" "i - p < length (drop p xs)" by auto
  then show "0 \<in> set (drop p xs)" by (metis nth_mem)
qed

text \<open>The word from \<open>p\<close> to \<open>q\<close>, terminated at \<open>q\<close>, in a buffer that is unchanged up to \<open>q\<close>.\<close>

lemma word_kept:
  assumes "p \<le> q" "q < length xs" "take (Suc q) ys = take (Suc q) (xs[q := 0])" "\<forall>i. p \<le> i \<and> i < q \<longrightarrow> xs ! i \<noteq> 0" "length ys = length xs"
  shows "cstr (drop p ys) = take (q - p) (drop p xs)" "0 \<in> set (drop p ys)"
proof -
  have y: "ys ! i = (xs[q := 0]) ! i" if "i \<le> q" for i
    using arg_cong [OF assms(3), of "\<lambda>zs. zs ! i"] that by simp
  have z: "ys ! q = 0" "\<forall>i. p \<le> i \<and> i < q \<longrightarrow> ys ! i \<noteq> 0" using y assms(2,4) by auto
  have "cstr (drop q ys) = []" using z(1) assms(2,5) by (subst Cons_nth_drop_Suc [symmetric]) auto
  moreover have "take (q - p) (drop p ys) = take (q - p) (drop p xs)"
    by (rule nth_equalityI) (use assms(1,2,5) y in auto)
  ultimately show "cstr (drop p ys) = take (q - p) (drop p xs)" using cstr_split [of p q ys] assms(1,2,5) z(2) by simp
  show "0 \<in> set (drop p ys)" using z(1) assms(1,2,5) unfolding zero_from by auto
qed

lemma parsed_word:
  assumes "parsed m (xs[q := 0]) (Suc q) ps ys" "p \<le> p'" "p' < q" "q < length xs" "\<forall>i. p' \<le> i \<and> i < q \<longrightarrow> xs ! i \<noteq> 0 \<and> xs ! i \<noteq> SP"
    and "words (cstr (drop p xs)) = take (q - p') (drop p' xs) # words (cstr (drop (Suc q) xs))"
  shows "parsed (Suc m) xs p (p' # ps) ys"
proof -
  have y: "length ys = length xs" "take (Suc q) ys = take (Suc q) (xs[q := 0])" using assms(1) by (auto simp: parsed_def)
  have "take p ys = take p (take (Suc q) ys)" using assms(2,3) by (simp add: min_def)
  also have "\<dots> = take p xs" unfolding y(2) using assms(2,3) by (simp add: min_def take_update_swap [symmetric] list_update_beyond)
  finally have t: "take p ys = take p xs" .
  have d: "drop (Suc q) (xs[q := 0]) = drop (Suc q) xs" by (simp add: drop_update_cancel)
  have "ys ! i = xs ! i \<or> ys ! i = 0" if "i < length xs" for i
  proof -
    have "ys ! i = (xs[q := 0]) ! i \<or> ys ! i = 0" using assms(1) that by (simp add: parsed_def)
    then show ?thesis by (cases "i = q") (use that in auto)
  qed
  then show ?thesis
    using assms(1,6) y(1) t d word_kept [OF less_imp_le [OF assms(3)] assms(4) y(2) _ y(1)] assms(5)
    by (auto simp: parsed_def)
qed

lemma word_split:
  assumes "p < q" "q < length xs" "\<forall>i. p \<le> i \<and> i < q \<longrightarrow> xs ! i \<noteq> 0 \<and> xs ! i \<noteq> SP" "xs ! q = 0 \<or> xs ! q = SP"
  shows "words (cstr (drop p xs)) = take (q - p) (drop p xs) # (if xs ! q = 0 then [] else words (cstr (drop (Suc q) xs)))"
proof -
  let ?w = "take (q - p) (drop p xs)"
  have "?w \<noteq> []" "SP \<notin> set ?w" using assms(1-3) by (auto simp: in_set_conv_nth)
  moreover have "cstr (drop p xs) = ?w @ cstr (drop q xs)" using assms by (intro cstr_split) auto
  moreover have "cstr (drop q xs) = (if xs ! q = 0 then [] else SP # cstr (drop (Suc q) xs))"
    using assms(2,4) by (subst Cons_nth_drop_Suc [symmetric]) auto
  ultimately show ?thesis using words_word by simp
qed

lemma parse_loop_step:
  assumes "p < length xs" "xs ! p \<noteq> 0" "skip_while (\<lambda>c. c = SP) xs p = Inr p'" "xs ! p' \<noteq> 0" "length argv < m"
    and "skip_while (\<lambda>c. c \<noteq> 0 \<and> c \<noteq> SP) xs p' = Inr q"
  shows "parse_loop m xs p argv = (if xs ! q = 0 then Inr (argv @ [p'], xs) else parse_loop m (xs[q := 0]) (Suc q) (argv @ [p']))"
proof -
  have "q < length xs" using skip_while_SomeD [OF assms(6)] by auto
  then have "xs ! q = 0 \<Longrightarrow> parse_loop m xs q (argv @ [p']) = Inr (argv @ [p'], xs)" by (subst parse_loop.simps) auto
  then show ?thesis using assms by (subst parse_loop.simps) auto
qed

text \<open>One round of the loop finds the end of the text or its next word.\<close>

lemma next_word:
  assumes "0 \<in> set (drop p xs)"
  obtains p' where "skip_while (\<lambda>c. c = SP) xs p = Inr p'" "xs ! p' = 0" "words (cstr (drop p xs)) = []"
  | p' q where "skip_while (\<lambda>c. c = SP) xs p = Inr p'" "xs ! p' \<noteq> 0" "skip_while (\<lambda>c. c \<noteq> 0 \<and> c \<noteq> SP) xs p' = Inr q"
    "p \<le> p'" "p' < q" "q < length xs" "\<forall>i. p' \<le> i \<and> i < q \<longrightarrow> xs ! i \<noteq> 0 \<and> xs ! i \<noteq> SP" "\<exists>i. q \<le> i \<and> i < length xs \<and> xs ! i = 0"
    "words (cstr (drop p xs)) = take (q - p') (drop p' xs) # (if xs ! q = 0 then [] else words (cstr (drop (Suc q) xs)))"
proof -
  obtain i where i: "p \<le> i" "i < length xs" "xs ! i = 0" using assms zero_from by blast
  have "xs ! i \<noteq> SP" using i(3) by simp
  then obtain p' where s1: "skip_while (\<lambda>c. c = SP) xs p = Inr p'" using skip_while_ex [of p xs "\<lambda>c. c = SP"] i by blast
  then have a: "p \<le> p'" "p' < length xs" "xs ! p' \<noteq> SP" "\<forall>i. p \<le> i \<and> i < p' \<longrightarrow> xs ! i = SP"
    using skip_while_SomeD [OF s1] by blast+
  have "cstr (drop p xs) = take (p' - p) (drop p xs) @ cstr (drop p' xs)" using a by (intro cstr_split) auto
  moreover have "take (p' - p) (drop p xs) = replicate (p' - p) SP" by (rule nth_equalityI) (use a in auto)
  ultimately have w: "words (cstr (drop p xs)) = words (cstr (drop p' xs))" by simp
  show thesis
  proof (cases "xs ! p' = 0")
    case True
    then have "cstr (drop p' xs) = []" using a(2) by (subst Cons_nth_drop_Suc [symmetric]) auto
    then show ?thesis using that(1) s1 True w by simp
  next
    case False
    have i': "p' \<le> i" using a(4) i \<open>xs ! i \<noteq> SP\<close> by (meson linorder_not_le)
    then obtain q where s2: "skip_while (\<lambda>c. c \<noteq> 0 \<and> c \<noteq> SP) xs p' = Inr q"
      using skip_while_ex [of p' xs "\<lambda>c. c \<noteq> 0 \<and> c \<noteq> SP"] i by blast
    then have b: "p' \<le> q" "q < length xs" "xs ! q = 0 \<or> xs ! q = SP" "\<forall>i. p' \<le> i \<and> i < q \<longrightarrow> xs ! i \<noteq> 0 \<and> xs ! i \<noteq> SP"
      using skip_while_SomeD [OF s2] by blast+
    then have q: "p' < q" using False a(3) by (metis le_neq_implies_less)
    have "q \<le> i" using b(4) i(3) i' by (meson linorder_not_le)
    then show ?thesis using that(2) [OF s1 False s2 a(1) q b(2,4)] w word_split [OF q b(2,4,3)] i by auto
  qed
qed

lemma parse_loop_words:
  assumes "0 \<in> set (drop p xs)"
  shows "\<exists>ps ys. parse_loop (length argv + m) xs p argv = Inr (argv @ ps, ys) \<and> parsed m xs p ps ys"
  using assms
proof (induction "length xs - p" arbitrary: xs p argv m rule: less_induct)
  case less
  have z: "0 \<in> set xs" "p < length xs" using in_set_dropD [OF less.prems] less.prems by (simp_all add: zero_from) auto
  have stop: ?case if "words (cstr (drop p xs)) = [] \<or> m = 0" "parse_loop (length argv + m) xs p argv = Inr (argv, xs)"
    using parsed_none [OF that(1) z(1)] that(2) by auto
  show ?case
  proof (cases "xs ! p = 0")
    case True
    then have "cstr (drop p xs) = []" using z by (subst Cons_nth_drop_Suc [symmetric]) auto
    then show ?thesis using True z by (intro stop) (auto simp: parse_loop.simps [of _ xs p])
  next
    case False
    from less.prems show ?thesis
    proof (cases rule: next_word)
      case (1 p')
      then show ?thesis using False z by (intro stop) (auto simp: parse_loop.simps [of _ xs p])
    next
      case (2 p' q)
      show ?thesis
      proof (cases m)
        case 0
        then show ?thesis using 2 False z by (intro stop) (auto simp: parse_loop.simps [of _ xs p])
      next
        case m: (Suc m')
        note st = parse_loop_step [OF z(2) False 2(1,2) _ 2(3), of argv "length argv + m"]
        show ?thesis
        proof (cases "xs ! q = 0")
          case True
          have "xs[q := 0] = xs" using True by (metis list_update_id)
          then have "parsed m xs p [p'] xs" using word_kept [of p' q xs xs] True 2 z m by (auto simp: parsed_def)
          then show ?thesis using st True m by auto
        next
          case more: False
          have nq: "0 \<in> set (drop (Suc q) (xs[q := 0]))"
            using 2(8) more unfolding zero_from by (metis Suc_leI le_eq_less_or_eq length_list_update less_imp_neq nth_list_update_neq)
          have "length (xs[q := 0]) - Suc q < length xs - p" using 2(4-6) by (simp add: diff_less_mono2)
          then obtain ps ys where r: "parse_loop (length (argv @ [p']) + m') (xs[q := 0]) (Suc q) (argv @ [p']) = Inr ((argv @ [p']) @ ps, ys)"
            "parsed m' (xs[q := 0]) (Suc q) ps ys"
            using less.hyps [OF _ nq, of "argv @ [p']" m'] by blast
          have "parsed m xs p (p' # ps) ys" unfolding m by (rule parsed_word [OF r(2)]) (use 2 more in auto)
          then show ?thesis using st more m r(1) by auto
        qed
      qed
    qed
  qed
qed

section \<open>Hexadecimal numbers\<close>

lemma hextoi_digit:
  assumes "d < (16 :: u32)"
  shows "hextoi_loop (hex_char d # cs) v = hextoi_loop cs (push_bit 4 v OR d)"
proof -
  have "unat d < 16" using assms by (simp add: word_less_nat_alt)
  then have "unat d \<in> {0, 1, 2, 3, 4, 5, 6, 7, 8, 9, 10, 11, 12, 13, 14, 15}" unfolding insert_iff empty_iff by presburger
  then have "d \<in> of_nat ` {0, 1, 2, 3, 4, 5, 6, 7, 8, 9, 10, 11, 12, 13, 14, 15}" by (metis imageI of_nat_unat ucast_id)
  then consider "d = 0" | "d = 1" | "d = 2" | "d = 3" | "d = 4" | "d = 5" | "d = 6" | "d = 7" | "d = 8" | "d = 9"
    | "d = 10" | "d = 11" | "d = 12" | "d = 13" | "d = 14" | "d = 15" by auto
  then show ?thesis by cases (simp_all add: hex_char_def between_def)
qed

lemma next_digit:
  assumes "i + 4 \<le> 32"
  shows "push_bit 4 (drop_bit (i + 4) v) OR (drop_bit i v AND 0xF) = drop_bit i (v :: u32)"
proof (rule bit_word_eqI)
  fix n
  assume n: "n < LENGTH(32)"
  have f: "(0xF :: u32) = mask 4" by (simp add: mask_eq_exp_minus_1)
  have m: "bit (0xF :: u32) n \<longleftrightarrow> n < 4" unfolding f using n by (simp add: bit_mask_iff)
  show "bit (push_bit 4 (drop_bit (i + 4) v) OR (drop_bit i v AND 0xF)) n = bit (drop_bit i v) n"
  proof (cases "n < 4")
    case True
    then show ?thesis unfolding bit_or_iff bit_and_iff m by (simp add: bit_push_bit_iff)
  next
    case False
    then have "i + 4 + (n - 4) = i + n" by simp
    then show ?thesis using False n unfolding bit_or_iff bit_and_iff m by (simp add: bit_push_bit_iff bit_drop_bit_eq)
  qed
qed

lemma hextoi_digits:
  assumes "n \<le> 8"
  shows "hextoi_loop (map (\<lambda>i. hex_char (drop_bit (28 - i * 4) v AND 0xF)) [8 - n..<8] @ [0]) (drop_bit (4 * n) v) = Inr v"
  using assms
proof (induction n)
  case (Suc n)
  let ?f = "\<lambda>i. hex_char (drop_bit (28 - i * 4) v AND 0xF)"
  have "Suc (8 - Suc n) = 8 - n" using Suc.prems by linarith
  then have u: "[8 - Suc n..<8] = (8 - Suc n) # [8 - n..<8]" using Suc.prems upt_conv_Cons [of "8 - Suc n" 8] by simp
  have e: "28 - (8 - Suc n) * 4 = 4 * n" using Suc.prems by simp
  have "drop_bit (4 * n) v AND 0xF < 16" by (rule le_less_trans [OF word_and_le1]) simp
  note d = hextoi_digit [OF this]
  have "hextoi_loop (map ?f [8 - Suc n..<8] @ [0]) (drop_bit (4 * n + 4) v) = hextoi_loop (map ?f [8 - n..<8] @ [0]) (drop_bit (4 * n) v)"
    unfolding u list.map append_Cons e d using next_digit [of "4 * n" v] Suc.prems by simp
  then show ?case using Suc by (simp add: add.commute)
qed simp

text \<open>
  C38. The number that \<open>puthex\<close> prints is read back by \<open>hextoi\<close> as the same number, for every 32-bit value.
\<close>

theorem puthex_hextoi: "hextoi (puthex_buf v) = Inr v"
proof -
  have "drop_bit 32 v = 0" by (rule bit_word_eqI) (simp add: bit_drop_bit_eq bit_imp_le_length)
  then show ?thesis using hextoi_digits [of 8 v] by (simp add: hextoi_def puthex_buf_def)
qed

section \<open>Commands\<close>

definition putc_call :: "u8 \<Rightarrow> call" where
  "putc_call c = \<lparr>nr = 1, ints = [scast c], bytes = []\<rparr>"

text \<open>The state after the text \<open>t\<close> was printed.\<close>

definition printed :: "u8 list \<Rightarrow> shell \<Rightarrow> shell" where
  "printed t s = s\<lparr>calls := calls s @ map putc_call t\<rparr>"

lemma printed_printed [simp]: "printed u (printed t s) = printed (t @ u) s" "printed [] s = s"
  by (simp_all add: printed_def)

lemma putchar_printed [simp]: "putchar k c s = printed [c] s"
  by (simp add: putchar_def int80_def printed_def putc_call_def Let_def)

lemma puts_printed: "0 \<in> set t \<Longrightarrow> puts k t s = Inr (printed (cstr t) s)"
  by (induction k t s rule: puts.induct) (auto simp: cstr_def)

lemma say_printed [simp]: "say k t s = printed (chars t) s"
proof -
  have "fold (putchar k) cs s = printed cs s" for cs by (induction cs arbitrary: s) simp_all
  then show ?thesis by (simp add: say_def)
qed

text \<open>The arguments, with single spaces between them.\<close>

fun join :: "u8 list list \<Rightarrow> u8 list" where
  "join [] = []"
| "join [a] = a"
| "join (a # b # as) = a @ SP # join (b # as)"

lemma echo_args_printed:
  "\<forall>a \<in> set as. 0 \<in> set a \<Longrightarrow> echo_args k as s = Inr (printed (join (map cstr as)) s)"
  by (induction k as s rule: echo_args.induct) (simp_all add: puts_printed)

lemma parse_command_words:
  assumes "0 \<in> set xs"
  obtains ps ys where "parse_command xs 16 = Inr (ps, ys)" "length ys = length xs" "\<forall>i < length xs. ys ! i = xs ! i \<or> ys ! i = 0" "0 \<in> set ys" "\<forall>p \<in> set ps. 0 \<in> set (drop p ys)"
    "map (\<lambda>p. cstr (drop p ys)) ps = take 16 (words (cstr xs))"
  using parse_loop_words [of 0 xs "[]" 16] assms that by (auto simp: parse_command_def parsed_def)

text \<open>
  \<open>execute\<close> on a line whose words are \<open>echo\<close> and the arguments prints the arguments with single spaces
  between them and a line feed, whatever the spacing of the line, and makes no other system call.
\<close>

theorem shell_echo:
  assumes "0 \<in> set (line s)" and "words (cstr (line s)) = chars ''echo'' # as" and "length as < 16"
  shows "\<exists>xs. execute k s = Some (Inr (printed (join as @ [NL]) (s\<lparr>line := xs\<rparr>)))"
proof -
  obtain ps ys where p: "parse_command (line s) 16 = Inr (ps, ys)" "\<forall>p \<in> set ps. 0 \<in> set (drop p ys)"
    "map (\<lambda>p. cstr (drop p ys)) ps = chars ''echo'' # as"
    using parse_command_words [OF assms(1)] assms(2,3) by (metis take_all length_Cons Suc_leI)
  let ?argv = "map (\<lambda>p. drop p ys) ps"
  have a: "?argv \<noteq> []" "cstr (?argv ! 0) = chars ''echo''" "map cstr (drop 1 ?argv) = as" "0 \<in> set (?argv ! 0)" "\<forall>a \<in> set (drop 1 ?argv). 0 \<in> set a"
    using p(2,3) by (cases ps; auto)+
  have "strcmp (?argv ! 0) (chars ''echo'' @ [0]) = Inr 0"
    using a(2,4) by (subst strcmp_ok) (auto simp: text_order_zero chars_def cstr_def)
  moreover have "cmd_echo k ?argv t = Inr (printed (join as @ [NL]) t)" for t
    using a(1,3) echo_args_printed [OF a(5)] by (cases ps) (auto simp: cmd_echo_def)
  ultimately show ?thesis
    using p(1) a(1) by (auto simp: execute_def commands_def)
qed

definition demo_kern :: kern where
  "demo_kern = \<lparr>answer = (\<lambda>cs c. \<lparr>r_eax = 0, r_out = []\<rparr>), key_waiting = (\<lambda>cs. True)\<rparr>"

definition demo_shell :: "string \<Rightarrow> shell" where
  "demo_shell t = \<lparr>calls = [], line = chars t @ replicate (256 - length t) 0, pos = int (length t), line_len = int (length t),
     saved_line = replicate 256 0, saved_pos = 0, history_index = -1, history = replicate 16 (replicate 256 0), history_count = 0\<rparr>"

lemma demo_line:
  assumes "length t < 256" "0 \<notin> set (chars t)"
  shows "0 \<in> set (line (demo_shell t))" "cstr (line (demo_shell t)) = chars t"
proof -
  have "256 - length t = Suc (255 - length t)" using assms(1) by simp
  then have "line (demo_shell t) = chars t @ 0 # replicate (255 - length t) 0" by (simp add: demo_shell_def)
  then show "0 \<in> set (line (demo_shell t))" "cstr (line (demo_shell t)) = chars t"
    using cstr_terminated [OF assms(2)] by simp_all
qed

theorem shell_echo_witness:
  "\<exists>xs. execute demo_kern (demo_shell '' echo  a b '') = Some (Inr (printed (chars ''a b'' @ [NL]) ((demo_shell '' echo  a b '')\<lparr>line := xs\<rparr>)))"
proof -
  have w: "words (chars '' echo  a b '') = chars ''echo'' # [chars ''a'', chars ''b'']"
    by (simp add: words_def chars_def of_char_def)
  moreover have "join [chars ''a'', chars ''b''] = chars ''a b''" by (simp add: chars_def of_char_def)
  ultimately show ?thesis
    using shell_echo [of "demo_shell '' echo  a b ''" "[chars ''a'', chars ''b'']" demo_kern] demo_line [of "'' echo  a b ''"]
    by (simp add: chars_def of_char_def)
qed

text \<open>
  C13. Splitting a terminated line gives exactly its words, at most as many as there is room for, each
  terminated in place: the texts at the offsets are the words of the reference definition.
\<close>

theorem parse_command_equiv:
  assumes "0 \<in> set xs"
  shows "\<exists>ps ys. parse_command xs n = Inr (ps, ys) \<and> length ys = length xs \<and>
    map (\<lambda>p. cstr (drop p ys)) ps = take n (words (cstr xs))"
  using parse_loop_words [of 0 xs "[]" n] assms by (auto simp: parse_command_def parsed_def)

theorem parse_command_equiv_witness:
  "\<exists>ps ys. parse_command [0x20, 0x61, 0x20, 0x20, 0x62, 0x63, 0] 16 = Inr (ps, ys) \<and>
    map (\<lambda>p. cstr (drop p ys)) ps = [[0x61], [0x62, 0x63]]"
  using parse_command_equiv [of "[0x20, 0x61, 0x20, 0x20, 0x62, 0x63, 0]" 16] by (simp add: words_def) auto

end
