(* ===== verification/Sros_Shell_Props.thy ===== *)
theory Sros_Shell_Props
  imports Sros_Shell_Parse
begin

unbundle bit_operations_syntax

text \<open>
  The line editor stays inside its arrays: whatever keys are typed, the cursor is in the line, the line in
  its 256 bytes, and every line of the history is terminated.
\<close>

section \<open>Commands leave the editor alone\<close>

text \<open>The state without the trace of system calls.\<close>

definition edit :: "shell \<Rightarrow> shell" where
  "edit s = s\<lparr>calls := []\<rparr>"

named_theorems edit_same

lemma edit_printed [simp]: "edit (printed t s) = edit s"
  by (simp add: edit_def printed_def)

lemma edit_int80 [simp]: "edit (snd (int80 k n is bs s)) = edit s" "edit (snd (int80_int k n is bs s)) = edit s"
  by (simp_all add: edit_def int80_def int80_int_def Let_def)

lemma edit_sys [simp]:
  "edit (snd (fs_open k p s)) = edit s" "edit (snd (snd (fs_read k fd n s))) = edit s" "edit (snd (fs_write k fd b c s)) = edit s"
  "edit (fs_close k fd s) = edit s" "edit (snd (fs_create k p s)) = edit s" "edit (snd (sys_kmalloc k v s)) = edit s"
  "edit (sys_kfree k v s) = edit s" "edit (sys_kmdump k s) = edit s" "edit (snd (sys_exec k p s)) = edit s"
  "edit (snd (sys_fork k s)) = edit s" "edit (sys_exit k i s) = edit s" "edit (snd (sys_wait k i s)) = edit s"
  "edit (snd (getchar k s)) = edit s"
  by (simp_all add: fs_open_def fs_read_def fs_write_def fs_close_def fs_create_def sys_kmalloc_def sys_kfree_def sys_kmdump_def
      sys_exec_def sys_fork_def sys_exit_def sys_wait_def getchar_def split_beta Let_def)

lemma edit_ipc [simp]:
  "edit (snd (sys_sem_init k p i s)) = edit s" "edit (snd (sys_sem_wait k i s)) = edit s" "edit (snd (sys_sem_post k i s)) = edit s"
  "edit (snd (sys_sem_destroy k i s)) = edit s" "edit (snd (sys_msg_get k s)) = edit s" "edit (snd (sys_msg_send k i p v s)) = edit s"
  "edit (snd (snd (snd (sys_msg_recv k i s)))) = edit s" "edit (snd (sys_msg_destroy k i s)) = edit s"
  "edit (snd (sys_mouse_has_data k s)) = edit s" "edit (snd (sys_mouse_read k s)) = edit s"
  by (simp_all add: sys_sem_init_def sys_sem_wait_def sys_sem_post_def sys_sem_destroy_def sys_msg_get_def sys_msg_send_def sys_msg_recv_def
      sys_msg_destroy_def sys_mouse_has_data_def sys_mouse_read_def split_beta Let_def)

lemma puts_edit [edit_same]: "puts k t s = Inr s' \<Longrightarrow> edit s' = edit s"
  by (induction k t s rule: puts.induct) (auto split: if_splits)

lemma puthex_edit [edit_same]: "puthex k v s = Inr s' \<Longrightarrow> edit s' = edit s"
  unfolding puthex_def by (rule puts_edit)

lemma echo_edit [edit_same]: "echo_args k as s = Inr s' \<Longrightarrow> edit s' = edit s"
  by (induction k as s rule: echo_args.induct) (auto simp: bind_res_Inr_iff dest!: puts_edit)

lemmas edit_cases = bind_res_Inr_iff split_beta Let_def

lemma show_event_edit [edit_same]: "show_event k ev s = Inr s' \<Longrightarrow> edit s' = edit s"
proof -
  have "show_delta k d t = Inr t' \<Longrightarrow> edit t' = edit t" for d t t'
    by (auto simp: show_delta_def edit_cases dest!: edit_same)
  then show "show_event k ev s = Inr s' \<Longrightarrow> edit s' = edit s"
    by (auto simp: show_event_def edit_cases split: if_splits dest!: puts_edit)
qed

lemma mouse_loop_edit:
  assumes "mouse_loop k s = Some r" "r = Inr s'"
  shows "edit s' = edit s"
  using assms
proof (induction arbitrary: s' rule: mouse_loop.raw_induct [rotated, consumes 1, case_names 1])
  case (1 f k s r)
  note ih = 1(1) and body = 1(2) and r = 1(3)
  obtain n t where t: "sys_mouse_has_data k s = (n, t)" by fastforce
  obtain ev u where u: "sys_mouse_read k t = (ev, u)" by fastforce
  have e: "edit t = edit s" "edit u = edit s" using edit_ipc(9) [of k s] edit_ipc(10) [of k t] t u by simp_all
  consider "key_waiting k (calls s)" | "\<not> key_waiting k (calls s)" "n = 0" | "\<not> key_waiting k (calls s)" "n \<noteq> 0" by blast
  then show ?case
  proof cases
    case 1
    then show ?thesis using r body by simp
  next
    case 2
    then have "f k t = Some r" using body t by simp
    then show ?thesis using ih [OF _ r] e(1) by metis
  next
    case 3
    then have "(case show_event k ev u of Inl e \<Rightarrow> Some (Inl e) | Inr s \<Rightarrow> f k s) = Some r" using body t u by simp
    then obtain w where "show_event k ev u = Inr w" "f k w = Some r" using r by (auto split: sum.splits)
    then show ?thesis using ih [OF _ r] show_event_edit e(2) by metis
  qed
qed

lemma cat_loop_edit:
  assumes "cat_loop k fd s = Some r" "r = Inr s'"
  shows "edit s' = edit s"
  using assms
proof (induction arbitrary: s' rule: cat_loop.raw_induct [rotated, consumes 1, case_names 1])
  case (1 f k fd s r)
  note ih = 1(1) and body = 1(2) and r = 1(3)
  obtain n buf t where t: "fs_read k fd 255 s = (n, buf, t)" by (cases "fs_read k fd 255 s") auto
  have e: "edit t = edit s" using edit_sys(2) [of k fd 255 s] t by simp
  show ?case
  proof (cases "0 < n \<and> n < 256")
    case True
    then have "(case puts k (buf[nat n := 0]) t of Inl e \<Rightarrow> Some (Inl e) | Inr s \<Rightarrow> f k fd s) = Some r" using body t by simp
    then obtain w where "puts k (buf[nat n := 0]) t = Inr w" "f k fd w = Some r" using r by (auto split: sum.splits)
    then show ?thesis using ih [OF _ r] puts_edit e by metis
  next
    case False
    then show ?thesis using body r t e by (simp split: if_splits)
  qed
qed

text \<open>Every command.\<close>

lemma plain_edit:
  "cmd_echo k argv s = Inr s' \<Longrightarrow> edit s' = edit s" "cmd_ls k s = Inr s' \<Longrightarrow> edit s' = edit s"
  "cmd_touch k argv s = Inr s' \<Longrightarrow> edit s' = edit s" "cmd_write k argv s = Inr s' \<Longrightarrow> edit s' = edit s"
  "cmd_kmalloc k argv s = Inr s' \<Longrightarrow> edit s' = edit s" "cmd_kfree k argv s = Inr s' \<Longrightarrow> edit s' = edit s"
  "cmd_exec k argv s = Inr s' \<Longrightarrow> edit s' = edit s" "edit (cmd_clear k s) = edit s" "edit (cmd_kmdump k s) = edit s"
  by (auto simp: cmd_echo_def cmd_ls_def fs_ls_def cmd_touch_def cmd_write_def cmd_kmalloc_def cmd_kfree_def cmd_exec_def cmd_clear_def
      cmd_kmdump_def edit_cases split: if_splits option.splits dest!: edit_same)

lemma test_edit:
  "cmd_fork_test k s = Inr s' \<Longrightarrow> edit s' = edit s" "cmd_sem_test k s = Inr s' \<Longrightarrow> edit s' = edit s"
  "cmd_msg_test k s = Inr s' \<Longrightarrow> edit s' = edit s"
  by (auto simp: cmd_fork_test_def cmd_sem_test_def cmd_msg_test_def edit_cases split: if_splits dest!: edit_same)

lemma help_edit: "edit (cmd_help k s) = edit s"
proof -
  have "edit (fold (\<lambda>t. say k (t @ [LF])) ts s) = edit s" for ts s by (induction ts arbitrary: s) simp_all
  moreover have "edit (fold (putchar k) ts s) = edit s" for ts s by (induction ts arbitrary: s) simp_all
  ultimately show ?thesis by (simp add: cmd_help_def)
qed

lemma loop_edit: "cmd_cat k argv s = Some (Inr s') \<Longrightarrow> edit s' = edit s" "cmd_mouse k s = Some (Inr s') \<Longrightarrow> edit s' = edit s"
proof -
  show "cmd_mouse k s = Some (Inr s') \<Longrightarrow> edit s' = edit s"
    by (auto simp: cmd_mouse_def edit_cases dest!: mouse_loop_edit)
  have "edit (snd (fs_open k p s)) = edit s" for p by simp
  then show "cmd_cat k argv s = Some (Inr s') \<Longrightarrow> edit s' = edit s"
    by (auto simp: cmd_cat_def edit_cases split: if_splits sum.splits prod.splits dest!: cat_loop_edit puts_edit)
qed

lemma dispatch_edit:
  assumes "dispatch cs k a s = Some (Inr s')" "\<And>t f. (t, f) \<in> set cs \<Longrightarrow> f s = Some (Inr s') \<Longrightarrow> edit s' = edit s"
  shows "edit s' = edit s"
  using assms by (induction cs k a s rule: dispatch.induct) (auto split: sum.splits if_splits)

lemma execute_edit:
  assumes "execute k s = Some (Inr s')" "0 \<in> set (line s)"
  shows "\<exists>xs. length xs = length (line s) \<and> (\<forall>i < length xs. xs ! i = line s ! i \<or> xs ! i = 0) \<and> edit s' = edit (s\<lparr>line := xs\<rparr>)"
proof -
  obtain ps ys where p: "parse_command (line s) 16 = Inr (ps, ys)" "length ys = length (line s)" "\<forall>i < length (line s). ys ! i = line s ! i \<or> ys ! i = 0"
    using parse_command_words [OF assms(2)] by metis
  let ?argv = "map (\<lambda>p. drop p ys) ps" and ?s = "s\<lparr>line := ys\<rparr>"
  have c: "edit s' = edit ?s" if "(t, f) \<in> set (commands k ?argv)" "f ?s = Some (Inr s')" for t f
    using that by (auto simp: commands_def dest: plain_edit(1-7) test_edit loop_edit simp: plain_edit(8,9) help_edit)
  have "edit s' = edit ?s"
  proof (cases "ps = []")
    case False
    then have "dispatch (commands k ?argv) k (?argv ! 0) ?s = Some (Inr s')" using assms(1) p(1) by (simp add: execute_def Let_def)
    then show ?thesis using dispatch_edit c by blast
  qed (use assms(1) p(1) in \<open>simp add: execute_def Let_def\<close>)
  then show ?thesis using p(2,3) by (intro exI [of _ ys]) simp
qed

section \<open>The invariant of the editor\<close>

definition line_ok256 :: "u8 list \<Rightarrow> bool" where
  "line_ok256 xs \<longleftrightarrow> length xs = 256 \<and> xs ! 255 = 0"

definition entry_ok :: "u8 list \<Rightarrow> bool" where
  "entry_ok h \<longleftrightarrow> length h = 256 \<and> 0 \<in> set h"

definition hist_ok :: "u8 list list \<Rightarrow> int \<Rightarrow> bool" where
  "hist_ok h n \<longleftrightarrow> length h = HISTORY_MAX \<and> (\<forall>e \<in> set h. entry_ok e) \<and> 0 \<le> n \<and> n \<le> int HISTORY_MAX"

definition editor_inv :: "shell \<Rightarrow> bool" where
  "editor_inv s \<longleftrightarrow> line_ok256 (line s) \<and> line_ok256 (saved_line s) \<and> 0 \<le> pos s \<and> pos s \<le> line_len s \<and> line_len s \<le> 255 \<and>
     0 \<le> saved_pos s \<and> saved_pos s \<le> 255 \<and> hist_ok (history s) (history_count s) \<and>
     -1 \<le> history_index s \<and> (history_index s < history_count s)"

lemma editor_inv_edit: "edit s' = edit s \<Longrightarrow> editor_inv s' = editor_inv s"
proof -
  assume e: "edit s' = edit s"
  have "line s' = line s" "saved_line s' = saved_line s" "pos s' = pos s" "line_len s' = line_len s" "saved_pos s' = saved_pos s"
    "history s' = history s" "history_count s' = history_count s" "history_index s' = history_index s"
    using arg_cong [OF e, of line] arg_cong [OF e, of saved_line] arg_cong [OF e, of pos] arg_cong [OF e, of line_len]
      arg_cong [OF e, of saved_pos] arg_cong [OF e, of history] arg_cong [OF e, of history_count] arg_cong [OF e, of history_index]
    by (simp_all add: edit_def)
  then show ?thesis by (simp add: editor_inv_def)
qed

lemma editor_inv_printed [simp]: "editor_inv (printed t s) = editor_inv s"
  by (rule editor_inv_edit) simp

lemma printed_fields [simp]:
  "line (printed t s) = line s" "saved_line (printed t s) = saved_line s" "pos (printed t s) = pos s" "line_len (printed t s) = line_len s"
  "saved_pos (printed t s) = saved_pos s" "history (printed t s) = history s" "history_count (printed t s) = history_count s"
  "history_index (printed t s) = history_index s" "(printed t s)\<lparr>line := xs\<rparr> = printed t (s\<lparr>line := xs\<rparr>)"
  "(printed t s)\<lparr>pos := i\<rparr> = printed t (s\<lparr>pos := i\<rparr>)" "(printed t s)\<lparr>line_len := i\<rparr> = printed t (s\<lparr>line_len := i\<rparr>)"
  "(printed t s)\<lparr>history_index := i\<rparr> = printed t (s\<lparr>history_index := i\<rparr>)"
  by (simp_all add: printed_def)

lemma line_zero: "line_ok256 xs \<Longrightarrow> 0 \<in> set xs"
  unfolding line_ok256_def by (metis Suc_numeral lessI nth_mem numeral_less_iff semiring_norm(5,8) semiring_norm(76,77) add_num_simps)

lemma text_short:
  assumes "0 \<in> set xs" "length xs = 256"
  shows "length (cstr xs) \<le> 255"
proof -
  have "cstr xs \<noteq> xs" using assms(1) by (auto simp: cstr_def takeWhile_eq_all_conv)
  moreover have "cstr xs = take (length (cstr xs)) xs" unfolding cstr_def by (rule takeWhile_eq_take)
  ultimately have "\<not> length xs \<le> length (cstr xs)" by (metis take_all)
  then show ?thesis using assms(2) by simp
qed

text \<open>Copying a terminated line into another one.\<close>

lemma copy_line:
  assumes "0 \<in> set src" "length src = 256" "length dst = 256"
  obtains r where "strcpy dst src = Inr r" "length r = 256" "cstr r = cstr src" "0 \<in> set r" "dst ! 255 = 0 \<Longrightarrow> line_ok256 r"
proof -
  let ?t = "cstr src" and ?r = "cstr src @ 0 # drop (Suc (length (cstr src))) dst"
  have l: "length ?t \<le> 255" using text_short assms(1,2) .
  have "strcpy dst src = Inr ?r" using strcpy_ok [OF assms(1)] l assms(3) by simp
  moreover have "length ?r = 256" using l assms(3) by simp
  moreover have "0 \<notin> set ?t" by (auto simp: cstr_def dest: set_takeWhileD)
  moreover from this have "cstr ?r = ?t" by (rule cstr_terminated)
  moreover have "line_ok256 ?r" if "dst ! 255 = 0"
    using that l assms(3) by (cases "length ?t = 255") (auto simp: line_ok256_def nth_append nth_Cons')
  ultimately show thesis using that [of ?r] by auto
qed

lemma strlen_line:
  assumes "0 \<in> set xs" "length xs = 256"
  shows "\<exists>n. strlen xs = Inr n \<and> 0 \<le> sint n \<and> sint n \<le> 255 \<and> sint n = int (length (cstr xs)) \<and> (n = 0 \<longleftrightarrow> cstr xs = [])"
proof -
  have l: "length (cstr xs) \<le> 255" using text_short assms .
  let ?n = "of_nat (length (cstr xs)) :: u32"
  have u: "uint ?n = int (length (cstr xs))" using l by (simp add: unsigned_of_nat take_bit_nat_eq_self)
  then have "signed_take_bit 31 (uint ?n) = uint ?n"
    using l by (intro signed_take_bit_int_eq_self) auto
  then have "sint ?n = int (length (cstr xs))" using u by (simp add: sint_uint)
  moreover have "?n = 0 \<longleftrightarrow> cstr xs = []" using of_nat_u32_inject [of "length (cstr xs)" 0] l by simp
  ultimately show ?thesis using strlen_loop_ok [OF assms(1), of 0] l by (simp add: strlen_def)
qed

section \<open>The keys keep it\<close>

lemma put_atI: "0 \<le> i \<Longrightarrow> i < int (length xs) \<Longrightarrow> put_at xs i v = Inr (xs[nat i := v])"
  by (simp add: put_at_def)

lemma get_atI: "0 \<le> i \<Longrightarrow> i < int (length xs) \<Longrightarrow> get_at xs i = Inr (xs ! nat i)"
  by (simp add: get_at_def)

lemma key_char_inv: "editor_inv s \<Longrightarrow> \<exists>s'. key_char k c s = Inr s' \<and> editor_inv s'"
  unfolding key_char_def editor_inv_def
  by (cases "pos s < 255") (auto simp: put_atI line_ok256_def Let_def printed_def nth_list_update)

lemma close_gap_ok:
  assumes "length xs = 256" "n \<le> 254"
  shows "\<exists>ys. close_gap i n xs = Inr ys \<and> length ys = 256 \<and> ys ! 255 = xs ! 255"
  using assms
proof (induction "n - i" arbitrary: i xs)
  case 0
  then show ?case by (simp add: close_gap_def)
next
  case (Suc d)
  then have i: "i < n" by simp
  then have u: "[i..<n] = i # [Suc i..<n]" by (rule upt_conv_Cons)
  have "d = n - Suc i" using Suc.hyps(2) by simp
  then obtain ys where "close_gap (Suc i) n (xs[i := xs ! Suc i]) = Inr ys" "length ys = 256" "ys ! 255 = xs[i := xs ! Suc i] ! 255"
    using Suc.hyps(1) [of "Suc i" "xs[i := xs ! Suc i]"] Suc.prems by auto
  then show ?case using u i Suc.prems by (auto simp: close_gap_def get_atI put_atI nat_add_distrib)
qed

lemma key_backspace_inv: "editor_inv s \<Longrightarrow> \<exists>s'. key_backspace k s = Inr s' \<and> editor_inv s'"
proof (cases "pos s \<le> 0")
  case False
  assume i: "editor_inv s"
  have f: "fold (\<lambda>i. putchar k (g i)) is t = printed (map g is) t" for g and "is" :: "nat list" and t
    by (induction "is" arbitrary: t) simp_all
  have l: "length (line s) = 256" "nat (line_len s - 1) \<le> 254" "line s ! 255 = 0" using i by (auto simp: editor_inv_def line_ok256_def)
  obtain ys where y: "close_gap (nat (pos s - 1)) (nat (line_len s - 1)) (line s) = Inr ys" "length ys = 256" "ys ! 255 = 0"
    using close_gap_ok [OF l(1,2)] l(3) by metis
  have "0 \<le> line_len s - 1" "line_len s - 1 < 256" using i False by (auto simp: editor_inv_def)
  then show ?thesis
    using i False y unfolding key_backspace_def Let_def
    by (simp add: put_atI f) (simp add: editor_inv_def line_ok256_def nth_upd)
qed (simp add: key_backspace_def)

lemma show_line_inv:
  assumes "editor_inv s" "0 \<in> set src" "length src = 256" "\<And>m. n = Some m \<Longrightarrow> 0 \<le> m \<and> m \<le> 255"
  shows "\<exists>s'. show_line k src n s = Inr s' \<and> editor_inv s'"
proof -
  have c: "clear_input k j t = printed (replicate (nat j) 0x08) t" for j t
  proof -
    have "(putchar k 0x08 ^^ m) u = printed (replicate m 0x08) u" for m u
      by (induction m arbitrary: u) (simp_all add: replicate_append_same)
    then show ?thesis by (simp add: clear_input_def)
  qed
  have l: "length (line s) = 256" "line s ! 255 = 0" using assms(1) by (auto simp: editor_inv_def line_ok256_def)
  obtain r where r: "strcpy (line s) src = Inr r" "line_ok256 r" "0 \<in> set r" "length r = 256"
    using copy_line [OF assms(2,3) l(1)] l(2) by metis
  obtain m where m: "strlen r = Inr m" "0 \<le> sint m" "sint m \<le> 255" using strlen_line [OF r(3,4)] by blast
  let ?p = "case n of Some n \<Rightarrow> n | None \<Rightarrow> sint m"
  have p: "0 \<le> ?p" "?p \<le> 255" using m assms(4) by (auto split: option.splits)
  have e: "(case n of Some n \<Rightarrow> Inr n | None \<Rightarrow> bind_res (strlen r) (\<lambda>n. Inr (sint n))) = (Inr ?p :: int kres)"
    using m by (simp split: option.splits)
  have "show_line k src n s = Inr (printed (cstr r) ((printed (replicate (nat (pos s)) 0x08) s)\<lparr>line := r, pos := ?p, line_len := ?p\<rparr>))"
    unfolding show_line_def Let_def c using r(1) e puts_printed [OF r(3)] by (simp add: printed_def)
  moreover have "editor_inv (s\<lparr>line := r, pos := ?p, line_len := ?p\<rparr>)" using assms(1) r(2) p by (simp add: editor_inv_def)
  then have "editor_inv ((printed (replicate (nat (pos s)) 0x08) s)\<lparr>line := r, pos := ?p, line_len := ?p\<rparr>)"
    by (simp add: editor_inv_def printed_def)
  ultimately show ?thesis by simp
qed

lemma key_up_inv: "editor_inv s \<Longrightarrow> \<exists>s'. key_up k s = Inr s' \<and> editor_inv s'"
proof (cases "history_count s = 0")
  case False
  assume i: "editor_inv s"
  obtain r where r: "strcpy (saved_line s) (line s) = Inr r" "line_ok256 r"
    using copy_line [OF line_zero, of "line s" "saved_line s"] i by (auto simp: editor_inv_def line_ok256_def)
  let ?t = "if history_index s = -1 then s\<lparr>saved_line := r, saved_pos := pos s\<rparr> else s"
  have t: "editor_inv ?t" "history_count ?t = history_count s" "history ?t = history s" "history_index ?t = history_index s"
    using i r(2) by (auto simp: editor_inv_def)
  have k: "key_up k s = (if history_index s < history_count s - 1
      then (let s = ?t\<lparr>history_index := history_index s + 1\<rparr>
            in bind_res (get_at (history s) (history_count s - 1 - history_index s)) (\<lambda>src. show_line k src None s)) else Inr ?t)"
    using False r(1) by (simp add: key_up_def Let_def)
  show ?thesis
  proof (cases "history_index s < history_count s - 1")
    case True
    let ?u = "?t\<lparr>history_index := history_index s + 1\<rparr>" and ?j = "history_count s - 1 - (history_index s + 1)"
    have u: "editor_inv ?u" using t(1) True i by (auto simp: editor_inv_def)
    have j: "0 \<le> ?j" "?j < int (length (history s))" using True i by (auto simp: editor_inv_def hist_ok_def)
    then have e: "entry_ok (history s ! nat ?j)" using i by (auto simp: editor_inv_def hist_ok_def)
    have g: "get_at (history s) ?j = Inr (history s ! nat ?j)" by (rule get_atI [OF j])
    show ?thesis using show_line_inv [OF u, of "history s ! nat ?j" None k] e True k g t by (auto simp: Let_def entry_ok_def)
  qed (use k t in auto)
qed (auto simp: key_up_def)

lemma key_down_inv: "editor_inv s \<Longrightarrow> \<exists>s'. key_down k s = Inr s' \<and> editor_inv s'"
proof (cases "history_index s = -1")
  case False
  assume i: "editor_inv s"
  show ?thesis
  proof (cases "0 < history_index s")
    case True
    let ?u = "s\<lparr>history_index := history_index s - 1\<rparr>" and ?j = "history_count s - 1 - (history_index s - 1)"
    have u: "editor_inv ?u" using True i by (auto simp: editor_inv_def)
    have j: "0 \<le> ?j" "?j < int (length (history s))" using True i by (auto simp: editor_inv_def hist_ok_def)
    then have e: "entry_ok (history s ! nat ?j)" using i by (auto simp: editor_inv_def hist_ok_def)
    show ?thesis using show_line_inv [OF u, of "history s ! nat ?j" None k] e True False get_atI [OF j]
      by (auto simp: key_down_def Let_def entry_ok_def)
  next
    case no: False
    have "editor_inv (s\<lparr>history_index := -1\<rparr>)" using i by (auto simp: editor_inv_def hist_ok_def)
    from show_line_inv [OF this, of "saved_line s" "Some (saved_pos s)" k] i show ?thesis
      using no False line_zero by (auto simp: key_down_def editor_inv_def line_ok256_def)
  qed
qed (auto simp: key_down_def)

lemma fold_res_total:
  assumes "\<And>x s. x \<in> set xs \<Longrightarrow> I s \<Longrightarrow> \<exists>s'. f x s = Inr s' \<and> I s'" "I s"
  shows "\<exists>s'. fold_res f xs s = Inr s' \<and> I s'"
  using assms
proof (induction xs arbitrary: s)
  case (Cons x xs)
  then obtain t where "f x s = Inr t" "I t" by (metis list.set_intros(1))
  then show ?case using Cons by simp
qed simp

lemma copy_entry_ok:
  assumes "hist_ok h n" "entry_ok src" "0 \<le> i" "i < int HISTORY_MAX"
  shows "\<exists>h'. copy_entry i src h = Inr h' \<and> hist_ok h' n \<and> cstr (h' ! nat i) = cstr src"
proof -
  have i: "nat i < length h" "i < int (length h)" using assms by (auto simp: hist_ok_def)
  then have "entry_ok (h ! nat i)" using assms(1) by (auto simp: hist_ok_def)
  then obtain r where r: "strcpy (h ! nat i) src = Inr r" "entry_ok r" "cstr r = cstr src"
    using copy_line [of src "h ! nat i"] assms(2) unfolding entry_ok_def by metis
  then have "hist_ok (h[nat i := r]) n" using assms(1) by (auto simp: hist_ok_def dest!: subsetD [OF set_update_subset_insert])
  then show ?thesis using r i assms(3) by (simp add: copy_entry_def get_atI put_atI)
qed

lemma drop_oldest_ok:
  assumes "hist_ok h n"
  shows "\<exists>h'. drop_oldest h = Inr h' \<and> hist_ok h' n"
  unfolding drop_oldest_def
proof (rule fold_res_total [where I = "\<lambda>h. hist_ok h n", OF _ assms])
  fix i h
  assume i: "i \<in> set [1..<HISTORY_MAX]" and h: "hist_ok h n"
  have l: "length h = HISTORY_MAX" using h by (simp add: hist_ok_def)
  then have "entry_ok (h ! i)" using h i by (auto simp: hist_ok_def)
  from copy_entry_ok [OF h this, of "int i - 1"] i l
  show "\<exists>h'. bind_res (get_at h (int i)) (\<lambda>src. copy_entry (int i - 1) src h) = Inr h' \<and> hist_ok h' n"
    by (auto simp: get_atI)
qed

lemma history_add_ok:
  assumes "hist_ok (history s) (history_count s)" "entry_ok cmd"
  shows "\<exists>h n. history_add cmd s = Inr (s\<lparr>history := h, history_count := n\<rparr>) \<and> hist_ok h n \<and> history_count s \<le> n \<and>
    (cstr cmd \<noteq> [] \<longrightarrow> 0 < n \<and> cstr (h ! nat (n - 1)) = cstr cmd)"
proof -
  let ?h = "history s" and ?n = "history_count s"
  have z: "0 \<in> set cmd" "length cmd = 256" using assms(2) by (auto simp: entry_ok_def)
  obtain len where len: "strlen cmd = Inr len" "len = 0 \<longleftrightarrow> cstr cmd = []" using strlen_line [OF z] by blast
  have self: "s = s\<lparr>history := history s, history_count := history_count s\<rparr>" by simp
  define same where "same = (0 < ?n \<and> cstr (?h ! nat (?n - 1)) = cstr cmd)"
  have last: "0 \<in> set (?h ! nat (?n - 1))" if "0 < ?n" using assms(1) that by (auto simp: hist_ok_def entry_ok_def)
  have sm: "(if 0 < ?n then bind_res (get_at ?h (?n - 1)) (\<lambda>h. bind_res (strcmp h cmd) (\<lambda>r. Inr (r = 0))) else Inr False) = (Inr same :: bool kres)"
    using assms(1) last z(1) by (auto simp: same_def get_atI hist_ok_def strcmp_ok text_order_zero)
  show ?thesis
  proof (cases "cstr cmd = [] \<or> same")
    case True
    then have "history_add cmd s = Inr s" using len sm by (auto simp: history_add_def)
    then show ?thesis using assms(1) self True by (intro exI [of _ ?h] exI [of _ ?n]) (auto simp: same_def)
  next
    case False
    obtain h' where h': "drop_oldest ?h = Inr h'" "hist_ok h' ?n" using drop_oldest_ok [OF assms(1)] by blast
    let ?full = "int HISTORY_MAX \<le> ?n"
    let ?g = "if ?full then h' else ?h" and ?m = "if ?full then int HISTORY_MAX - 1 else ?n"
    have g: "hist_ok ?g ?m" "0 \<le> ?m" "?m < int HISTORY_MAX" "?n \<le> ?m + 1" using assms(1) h'(2) by (auto simp: hist_ok_def HISTORY_MAX_def)
    obtain e where e: "copy_entry ?m cmd ?g = Inr e" "hist_ok e ?m" "cstr (e ! nat ?m) = cstr cmd" using copy_entry_ok [OF g(1) assms(2) g(2,3)] by blast
    have "history_add cmd s = Inr (s\<lparr>history := e, history_count := ?m + 1\<rparr>)"
      using False len sm h'(1) e(1) by (simp add: history_add_def split: if_splits)
    moreover have "hist_ok e (?m + 1)" using e(2) g(3) by (simp add: hist_ok_def)
    ultimately show ?thesis using e(3) g by (intro exI [of _ e] exI [of _ "?m + 1"]) auto
  qed
qed

lemma key_enter_inv:
  assumes i: "editor_inv s" and e: "key_enter k s = Some (Inr s')"
  shows "editor_inv s'"
proof -
  let ?xs = "(line s)[nat (pos s) := 0]"
  have p: "0 \<le> pos s" "pos s < int (length (line s))" using i by (auto simp: editor_inv_def line_ok256_def)
  have l: "line_ok256 ?xs" using i by (auto simp: editor_inv_def line_ok256_def nth_upd)
  then have "entry_ok ?xs" using line_zero by (auto simp: entry_ok_def line_ok256_def)
  then obtain h n where h: "history_add ?xs (printed [NL] (s\<lparr>line := ?xs\<rparr>)) = Inr ((printed [NL] (s\<lparr>line := ?xs\<rparr>))\<lparr>history := h, history_count := n\<rparr>)"
    "hist_ok h n" "history_count s \<le> n"
    using history_add_ok [of "printed [NL] (s\<lparr>line := ?xs\<rparr>)" ?xs] i by (auto simp: editor_inv_def)
  let ?t = "(printed [NL] (s\<lparr>line := ?xs\<rparr>))\<lparr>history := h, history_count := n\<rparr>"
  obtain u where u: "execute k ?t = Some (Inr u)" "s' = prompt k (u\<lparr>pos := 0, line_len := 0, history_index := -1\<rparr>)"
    using e p h(1) unfolding key_enter_def Let_def by (auto simp: put_atI bind_res_Inr_iff)
  obtain ys where y: "length ys = length (line ?t)" "\<forall>i < length ys. ys ! i = line ?t ! i \<or> ys ! i = 0" "edit u = edit (?t\<lparr>line := ys\<rparr>)"
    using execute_edit [OF u(1)] line_zero [OF l] by auto
  have "length ys = 256" using y(1) l by (simp add: line_ok256_def)
  moreover have "ys ! 255 = 0" using spec [OF y(2), of 255] calculation l by (auto simp: line_ok256_def)
  ultimately have "line_ok256 ys" by (simp add: line_ok256_def)
  then have v: "editor_inv ((?t\<lparr>line := ys\<rparr>)\<lparr>pos := 0, line_len := 0, history_index := -1\<rparr>)"
    using i h by (auto simp: editor_inv_def hist_ok_def)
  have "edit (u\<lparr>pos := 0, line_len := 0, history_index := -1\<rparr>) = edit ((?t\<lparr>line := ys\<rparr>)\<lparr>pos := 0, line_len := 0, history_index := -1\<rparr>)"
    using y(3) by (cases u; cases s) (simp add: edit_def printed_def)
  from editor_inv_edit [OF this] v show ?thesis using u(2) by (simp add: prompt_def)
qed



section \<open>Long file names\<close>

lemma strcpy_overrun: "length dest \<le> length (cstr src) \<Longrightarrow> strcpy dest src = Inl Overrun"
proof (induction dest src rule: strcpy.induct)
  case (1 d ds c cs)
  then show ?case by (cases "c = 0") auto
qed simp_all

text \<open>
  C39. The argument of \<open>cat\<close> is copied behind a slash into an array of 64 bytes without a test: a name of 63
  characters or more, which fits a command line, is stored beyond the array.
\<close>

theorem shell_path_overrun:
  assumes "0 \<in> set (line s)" and "words (cstr (line s)) = [chars ''cat'', nm]" and "63 \<le> length nm"
  shows "execute k s = Some (Inl Overrun)"
proof -
  obtain ps ys where p: "parse_command (line s) 16 = Inr (ps, ys)" "\<forall>p \<in> set ps. 0 \<in> set (drop p ys)"
    "map (\<lambda>p. cstr (drop p ys)) ps = take 16 (words (cstr (line s)))"
    by (rule parse_command_words [OF assms(1)]) blast
  then have "map (\<lambda>p. cstr (drop p ys)) ps = [chars ''cat'', nm]" using assms(2) by simp
  with p(2) obtain a b where ab: "ps = [a, b]" "cstr (drop a ys) = chars ''cat''" "cstr (drop b ys) = nm" "0 \<in> set (drop a ys)"
    by (auto simp: map_eq_Cons_conv)
  have r: "strcmp (drop a ys) (chars t @ [0]) = Inr (text_order (chars ''cat'') (chars t))" if "0 \<notin> set (chars t)" for t
    using strcmp_ok [OF ab(4), of "chars t @ [0]"] ab(2) cstr_terminated [OF that, of "[]"] by simp
  have "make_path (drop b ys) = Inl Overrun" using assms(3) ab(3) strcpy_overrun [of "0 # replicate 62 0" "drop b ys"] by (simp add: make_path_def)
  moreover have "strcmp (drop a ys) (chars ''echo'' @ [0]) = Inr (-1)" "strcmp (drop a ys) (chars ''clear'' @ [0]) = Inr (-1)"
    "strcmp (drop a ys) (chars ''help'' @ [0]) = Inr (-1)" "strcmp (drop a ys) (chars ''ls'' @ [0]) = Inr (-1)"
    "strcmp (drop a ys) (chars ''cat'' @ [0]) = Inr 0"
    using r [of "''echo''"] r [of "''clear''"] r [of "''help''"] r [of "''ls''"] r [of "''cat''"]
    by (simp_all add: chars_def of_char_def)
  ultimately show ?thesis
    using p(1) ab(1) by (simp add: execute_def commands_def cmd_cat_def Let_def)
qed

theorem shell_path_overrun_witness:
  "execute demo_kern (demo_shell (''cat '' @ replicate 63 CHR ''x'')) = Some (Inl Overrun)"
proof -
  let ?t = "''cat '' @ replicate 63 CHR ''x''"
  have c: "chars ?t = chars ''cat'' @ SP # replicate 63 0x78" by (simp add: chars_def of_char_def)
  have z: "0 \<notin> set (chars ?t)" unfolding c by (simp add: chars_def of_char_def)
  have w: "words (chars ?t) = [chars ''cat'', replicate 63 0x78]"
    unfolding c using words_word(1) [of "chars ''cat''" "replicate 63 0x78"] words_word(2) [of "replicate 63 0x78"]
    by (simp add: chars_def of_char_def)
  have "length ?t < 256" by simp
  note d = demo_line [OF this z]
  show ?thesis using shell_path_overrun [of "demo_shell ?t" "replicate 63 0x78" demo_kern] d w by simp
qed

end
