(* ===== verification/Sros_Sound.thy ===== *)
theory Sros_Sound
  imports Sros_Machine
begin

unbundle bit_operations_syntax

text \<open>
  The sound driver (\<open>src/drivers/sound.c\<close>): the PC speaker and the Sound Blaster 16 with its 8-bit DMA
  channel. The DSP and the DMA controller are devices behind the ports.

  The two loops around \<open>halt\<close> wait for interrupt handlers to change a variable; \<open>wake\<close> gives the state
  after the next interrupt, and a loop that is never ended by it has the result \<open>None\<close>.
\<close>

section \<open>State\<close>

record sound = io_state +
  sb16_playing :: int
  sb16_irq_fired :: int
  ticks :: u32
  snd_log :: "(string \<times> arg list) list"

definition sblog :: "string \<Rightarrow> arg list \<Rightarrow> 'a sound_scheme \<Rightarrow> 'a sound_scheme" where
  "sblog fmt as s = s\<lparr>snd_log := snd_log s @ [(fmt @ [LF], as)]\<rparr>"

definition PIT_BASE_FREQ :: u32 where "PIT_BASE_FREQ = 1193180"
definition SB16_BASE :: u16 where "SB16_BASE = 0x220"
definition SB16_DSP_RESET :: u16 where "SB16_DSP_RESET = SB16_BASE + 6"
definition SB16_DSP_READ :: u16 where "SB16_DSP_READ = SB16_BASE + 0xA"
definition SB16_DSP_WRITE :: u16 where "SB16_DSP_WRITE = SB16_BASE + 0xC"
definition SB16_DSP_STATUS :: u16 where "SB16_DSP_STATUS = SB16_BASE + 0xE"
definition SB16_CMD_SPEAKER_ON :: u8 where "SB16_CMD_SPEAKER_ON = 0xD1"
definition SB16_CMD_GET_VERSION :: u8 where "SB16_CMD_GET_VERSION = 0xE1"
definition SB16_CMD_SET_TIME :: u8 where "SB16_CMD_SET_TIME = 0x40"
definition SB16_CMD_SET_BLOCK :: u8 where "SB16_CMD_SET_BLOCK = 0x48"
definition SB16_CMD_DMA_8BIT :: u8 where "SB16_CMD_DMA_8BIT = 0x14"
definition SB16_CMD_HALT_8BIT :: u8 where "SB16_CMD_HALT_8BIT = 0xD5"
definition DMA_ADDR_CH1 :: u16 where "DMA_ADDR_CH1 = 0x02"
definition DMA_COUNT_CH1 :: u16 where "DMA_COUNT_CH1 = 0x03"
definition DMA_PAGE_CH1 :: u16 where "DMA_PAGE_CH1 = 0x83"
definition DMA_MASK_REG :: u16 where "DMA_MASK_REG = 0x0A"
definition DMA_MODE_REG :: u16 where "DMA_MODE_REG = 0x0B"
definition DMA_FLIP_FLOP :: u16 where "DMA_FLIP_FLOP = 0x0C"
definition SB16_AUTO_BLOCK :: u32 where "SB16_AUTO_BLOCK = 32768"

lemmas dma_ports = DMA_ADDR_CH1_def DMA_COUNT_CH1_def DMA_PAGE_CH1_def DMA_MASK_REG_def DMA_MODE_REG_def DMA_FLIP_FLOP_def

section \<open>PC speaker\<close>

definition pcspkr_off :: "device \<Rightarrow> 'a io_state_scheme \<Rightarrow> 'a io_state_scheme" where
  "pcspkr_off hw s = (let (tmp, s) = inb hw 0x61 s in outb 0x61 (tmp AND NOT 0x03) s)"

partial_function (option) beep_wait :: "(sound \<Rightarrow> sound) \<Rightarrow> u32 \<Rightarrow> u32 \<Rightarrow> sound \<Rightarrow> sound option" where
  "beep_wait wake start wait_ticks s =
     (if ticks s - start < wait_ticks then beep_wait wake start wait_ticks (wake s) else Some s)"

definition pcspkr_beep :: "device \<Rightarrow> (sound \<Rightarrow> sound) \<Rightarrow> u32 \<Rightarrow> u32 \<Rightarrow> sound \<Rightarrow> sound option" where
  "pcspkr_beep hw wake frequency_hz ms s =
     (if frequency_hz = 0 then Some s
      else
       (let divisor = PIT_BASE_FREQ div frequency_hz;
            s = outb 0x43 0xB6 s;
            s = outb 0x42 (ucast (divisor AND 0xFF)) s;
            s = outb 0x42 (ucast (drop_bit 8 divisor AND 0xFF)) s;
            (tmp, s) = inb hw 0x61 s;
            s = outb 0x61 (tmp OR 0x03) s;
            start = ticks s;
            wait_ticks = (ms * 100) div 1000;
            wait_ticks = (if wait_ticks = 0 then 1 else wait_ticks)
        in map_option (pcspkr_off hw) (beep_wait wake start wait_ticks s)))"

section \<open>The DSP\<close>

text \<open>The two polling loops, with the number of polls left.\<close>

fun sb16_wait_write_loop :: "device \<Rightarrow> nat \<Rightarrow> 'a io_state_scheme \<Rightarrow> int \<times> 'a io_state_scheme" where
  "sb16_wait_write_loop hw 0 s = (-1, s)"
| "sb16_wait_write_loop hw (Suc n) s =
     (let (v, s) = inb hw SB16_DSP_WRITE s in if v AND 0x80 = 0 then (0, s) else sb16_wait_write_loop hw n s)"

definition sb16_wait_write :: "device \<Rightarrow> 'a io_state_scheme \<Rightarrow> int \<times> 'a io_state_scheme" where
  "sb16_wait_write hw s = sb16_wait_write_loop hw 100000 s"

fun sb16_wait_read_loop :: "device \<Rightarrow> nat \<Rightarrow> 'a io_state_scheme \<Rightarrow> int \<times> 'a io_state_scheme" where
  "sb16_wait_read_loop hw 0 s = (-1, s)"
| "sb16_wait_read_loop hw (Suc n) s =
     (let (v, s) = inb hw SB16_DSP_STATUS s in if v AND 0x80 \<noteq> 0 then (0, s) else sb16_wait_read_loop hw n s)"

definition sb16_wait_read :: "device \<Rightarrow> 'a io_state_scheme \<Rightarrow> int \<times> 'a io_state_scheme" where
  "sb16_wait_read hw s = sb16_wait_read_loop hw 100000 s"

definition sb16_write :: "device \<Rightarrow> u8 \<Rightarrow> 'a sound_scheme \<Rightarrow> 'a sound_scheme" where
  "sb16_write hw v s =
     (let (r, s) = sb16_wait_write hw s in
      if r < 0 then sblog ''[sb16] write timeout!'' [] s else outb SB16_DSP_WRITE v s)"

definition sb16_read :: "device \<Rightarrow> 'a sound_scheme \<Rightarrow> u8 \<times> 'a sound_scheme" where
  "sb16_read hw s =
     (let (r, s) = sb16_wait_read hw s in
      if r < 0 then (0, sblog ''[sb16] read timeout!'' [] s) else inb hw SB16_DSP_READ s)"

definition dma_setup_8bit :: "u32 \<Rightarrow> u32 \<Rightarrow> 'a io_state_scheme \<Rightarrow> 'a io_state_scheme" where
  "dma_setup_8bit phys_addr len s =
     (let s = outb DMA_FLIP_FLOP 0x00 s;
          s = outb DMA_MASK_REG 0x05 s;
          s = outb DMA_FLIP_FLOP 0x00 s;
          s = outb DMA_MODE_REG 0x49 s;
          page = drop_bit 16 phys_addr;
          addr = ucast (phys_addr AND 0xFFFF) :: u16;
          s = outb DMA_ADDR_CH1 (ucast (addr AND 0xFF)) s;
          s = outb DMA_ADDR_CH1 (ucast (drop_bit 8 addr AND 0xFF)) s;
          s = outb DMA_PAGE_CH1 (ucast (page AND 0xFF)) s;
          count = ucast (len - 1) :: u16;
          s = outb DMA_COUNT_CH1 (ucast (count AND 0xFF)) s;
          s = outb DMA_COUNT_CH1 (ucast (drop_bit 8 count AND 0xFF)) s
      in outb DMA_MASK_REG 0x01 s)"

definition sb16_init :: "device \<Rightarrow> 'a sound_scheme \<Rightarrow> int \<times> 'a sound_scheme" where
  "sb16_init hw s =
     (let s = sblog ''[sb16] Initializing Sound Blaster 16...'' [] s;
          s = outb SB16_DSP_RESET 1 s;
          s = outb SB16_DSP_RESET 0 s;
          (v, s) = sb16_read hw s
      in if v \<noteq> 0xAA
         then (-1, sblog ''[sb16] Sound Blaster 16 not detected. Enable with QEMU: -soundhw sb16'' []
                (sblog ''[sb16] DSP reset failed (got 0x%02x, expected 0xAA)'' [AInt (ucast v)] s))
         else
          (let s = sblog ''[sb16] DSP reset OK (0xAA)'' [] s;
               s = sb16_write hw SB16_CMD_GET_VERSION s;
               (ver_major, s) = sb16_read hw s;
               (ver_minor, s) = sb16_read hw s;
               s = sblog ''[sb16] DSP version %d.%02d'' [AInt (ucast ver_major), AInt (ucast ver_minor)] s
           in if ver_major < 4 then (-1, sblog ''[sb16] DSP version too old, need 4.00+'' [] s)
              else (0, sblog ''[sb16] Initialization complete'' [] (sb16_write hw SB16_CMD_SPEAKER_ON s))))"

definition sb16_handler :: "device \<Rightarrow> 'a sound_scheme \<Rightarrow> 'a sound_scheme" where
  "sb16_handler hw s = snd (inb hw SB16_DSP_STATUS (s\<lparr>sb16_irq_fired := 1, sb16_playing := 0\<rparr>))"

partial_function (option) play_wait :: "(sound \<Rightarrow> sound) \<Rightarrow> sound \<Rightarrow> sound option" where
  "play_wait wake s = (if sb16_playing s \<noteq> 0 then play_wait wake (wake s) else Some s)"

text \<open>\<open>sb16_play_8bit\<close> from the time constant to the start of the transfer.\<close>

definition sb16_start :: "device \<Rightarrow> u32 \<Rightarrow> u32 \<Rightarrow> u32 \<Rightarrow> 'a sound_scheme \<Rightarrow> 'a sound_scheme" where
  "sb16_start hw addr len sample_rate s =
     (let time_const = 256 - (1000000 div sample_rate);
          s = sb16_write hw SB16_CMD_SET_TIME s;
          s = sb16_write hw (ucast (time_const AND 0xFF)) s;
          s = dma_setup_8bit addr len s;
          s = (if SB16_AUTO_BLOCK < len
               then (let block_size = ucast (SB16_AUTO_BLOCK - 1) :: u16;
                         s = sb16_write hw SB16_CMD_SET_BLOCK s;
                         s = sb16_write hw (ucast (block_size AND 0xFF)) s
                     in sb16_write hw (ucast (drop_bit 8 block_size AND 0xFF)) s)
               else s);
          dma_len = ucast (len - 1) :: u16;
          s = sb16_write hw SB16_CMD_DMA_8BIT s;
          s = sb16_write hw (ucast (dma_len AND 0xFF)) s;
          s = sb16_write hw (ucast (drop_bit 8 dma_len AND 0xFF)) s
      in sblog ''[sb16] DMA transfer started'' [] s)"

text \<open>
  A sample rate of zero is a division by zero: exception 0, on which \<open>isr_handler\<close> panics.
\<close>

definition sb16_play_8bit :: "device \<Rightarrow> (sound \<Rightarrow> sound) \<Rightarrow> u32 \<Rightarrow> u32 \<Rightarrow> u32 \<Rightarrow> sound \<Rightarrow> (int \<times> sound) kres option" where
  "sb16_play_8bit hw wake addr len sample_rate s =
     (if sb16_playing s \<noteq> 0 then Some (Inr (-1, sblog ''[sb16] Already playing'' [] s))
      else if len = 0 then Some (Inr (-1, s))
      else
       (let s = sblog ''[sb16] Playing %u bytes at %u Hz...'' [AInt len, AInt sample_rate] s;
            s = s\<lparr>sb16_playing := 1, sb16_irq_fired := 0\<rparr>
        in if sample_rate = 0 then Some (Inl (Panic ''Unhandled exception!''))
           else map_option (\<lambda>s. Inr (0, sblog ''[sb16] Playback finished'' [] s)) (play_wait wake (sb16_start hw addr len sample_rate s))))"

definition sb16_stop :: "device \<Rightarrow> 'a sound_scheme \<Rightarrow> 'a sound_scheme" where
  "sb16_stop hw s = (if sb16_playing s = 0 then s else (sb16_write hw SB16_CMD_HALT_8BIT s)\<lparr>sb16_playing := 0\<rparr>)"

definition sb16_is_playing :: "'a sound_scheme \<Rightarrow> int" where
  "sb16_is_playing s = sb16_playing s"

section \<open>The DMA controller\<close>

text \<open>
  The registers of channel 1 of the 8237 as the program's writes leave them: address and count take two
  bytes each, low byte first, by a flip-flop that a write to its own port clears.
\<close>

record dma =
  flip :: bool
  d_addr :: u16
  d_count :: u16
  d_page :: u8
  d_mode :: u8
  d_masked :: bool

definition half :: "bool \<Rightarrow> u8 \<Rightarrow> u16 \<Rightarrow> u16" where
  "half hi v w = (if hi then (w AND 0x00FF) OR push_bit 8 (ucast v) else (w AND 0xFF00) OR ucast v)"

fun dma_step :: "io_event \<Rightarrow> dma \<Rightarrow> dma" where
  "dma_step (Out8 p v) d =
     (if p = DMA_FLIP_FLOP then d\<lparr>flip := False\<rparr>
      else if p = DMA_ADDR_CH1 then d\<lparr>d_addr := half (flip d) v (d_addr d), flip := \<not> flip d\<rparr>
      else if p = DMA_COUNT_CH1 then d\<lparr>d_count := half (flip d) v (d_count d), flip := \<not> flip d\<rparr>
      else if p = DMA_PAGE_CH1 then d\<lparr>d_page := v\<rparr>
      else if p = DMA_MODE_REG \<and> v AND 3 = 1 then d\<lparr>d_mode := v\<rparr>
      else if p = DMA_MASK_REG \<and> v AND 3 = 1 then d\<lparr>d_masked := bit v 2\<rparr>
      else d)"
| "dma_step _ d = d"

definition dma_after :: "io_event list \<Rightarrow> dma \<Rightarrow> dma" where
  "dma_after tr d = fold dma_step tr d"

lemma dma_after_snoc [simp]: "dma_after (tr @ [e]) d = dma_step e (dma_after tr d)"
  by (simp add: dma_after_def)

lemma low_byte_bits: "bit (0xFF :: u16) k \<longleftrightarrow> k < 8" and high_byte_bits: "bit (0xFF00 :: u16) k \<longleftrightarrow> 8 \<le> k \<and> k < 16"
proof -
  have ff: "(0xFF :: u16) = mask 8" and gg: "(0xFF00 :: u16) = push_bit 8 (mask 8)"
    by (simp_all add: mask_eq_exp_minus_1)
  show "bit (0xFF :: u16) k \<longleftrightarrow> k < 8" unfolding ff by (auto simp: bit_mask_iff)
  show "bit (0xFF00 :: u16) k \<longleftrightarrow> 8 \<le> k \<and> k < 16" unfolding gg by (auto simp: bit_mask_iff bit_push_bit_iff)
qed

lemma bits8: "bit (0xFF :: u32) k \<longleftrightarrow> k < 8" and bits16: "bit (0xFFFF :: u32) k \<longleftrightarrow> k < 16"
proof -
  have ff: "(0xFF :: u32) = mask 8" and gg: "(0xFFFF :: u32) = mask 16"
    by (simp_all add: mask_eq_exp_minus_1)
  show "bit (0xFF :: u32) k \<longleftrightarrow> k < 8" unfolding ff by (auto simp: bit_mask_iff)
  show "bit (0xFFFF :: u32) k \<longleftrightarrow> k < 16" unfolding gg by (auto simp: bit_mask_iff)
qed

lemma two_halves: "half True (ucast (drop_bit 8 w AND 0xFF)) (half False (ucast (w AND 0xFF)) v) = w"
proof (rule bit_word_eqI)
  fix n
  assume n: "n < LENGTH(16)"
  show "bit (half True (ucast (drop_bit 8 w AND 0xFF)) (half False (ucast (w AND 0xFF)) v)) n = bit w n"
    using n
    by (auto simp: half_def bit_or_iff bit_and_iff bit_push_bit_iff bit_drop_bit_eq bit_ucast_iff low_byte_bits high_byte_bits simp del: bit_numeral_word_iff)
qed

text \<open>
  C40. Whatever state the DMA controller is in, \<open>dma_setup_8bit\<close> leaves channel 1 unmasked, in the mode
  of a single transfer from memory, with the physical address split into the 16-bit address and the
  8-bit page register, and with the length less one, modulo 64 KiB, in the count register.
\<close>

theorem dma_setup_programs:
  "let d = dma_after (io_trace (dma_setup_8bit phys_addr len s)) d0
   in d_addr d = ucast phys_addr \<and> d_page d = ucast (drop_bit 16 phys_addr)
      \<and> d_count d = ucast (len - 1) \<and> d_mode d = 0x49 \<and> \<not> d_masked d"
proof -
  have a: "(ucast (phys_addr AND 0xFFFF) :: u16) = ucast phys_addr"
    by (rule bit_word_eqI) (auto simp: bit_ucast_iff bit_and_iff bits16 simp del: bit_numeral_word_iff)
  have p: "(ucast (drop_bit 16 phys_addr AND 0xFF) :: u8) = ucast (drop_bit 16 phys_addr)"
    by (rule bit_word_eqI) (auto simp: bit_ucast_iff bit_and_iff bits8 simp del: bit_numeral_word_iff)
  show ?thesis
    by (simp add: dma_setup_8bit_def outb_def Let_def dma_ports dma_after_def a p two_halves)
qed

end
