(* ===== verification/Sros_Rtl8139.thy ===== *)
theory Sros_Rtl8139
  imports Sros_Paging Sros_Pci
begin

unbundle bit_operations_syntax

text \<open>
  The network driver (\<open>src/drivers/rtl8139.c\<close>). The controller is a device behind ports that also writes the
  receive ring in memory by itself: \<open>ports\<close> answers the port reads, and \<open>dma\<close> gives the memory the program finds,
  from the port traffic so far and the memory the program wrote. Output on the serial line is a log, as elsewhere;
  a character or a string printed without a format is an entry without arguments.
\<close>

section \<open>Data\<close>

definition RTL_REG_IDR0 :: u16 where "RTL_REG_IDR0 = 0x00"
definition RTL_REG_TX_STATUS0 :: u16 where "RTL_REG_TX_STATUS0 = 0x10"
definition RTL_REG_TX_ADDR0 :: u16 where "RTL_REG_TX_ADDR0 = 0x20"
definition RTL_REG_RBSTART :: u16 where "RTL_REG_RBSTART = 0x30"
definition RTL_REG_CR :: u16 where "RTL_REG_CR = 0x37"
definition RTL_REG_CAPR :: u16 where "RTL_REG_CAPR = 0x38"
definition RTL_REG_CBR :: u16 where "RTL_REG_CBR = 0x3A"
definition RTL_REG_IMR :: u16 where "RTL_REG_IMR = 0x3C"
definition RTL_REG_ISR :: u16 where "RTL_REG_ISR = 0x3E"
definition RTL_REG_TCR :: u16 where "RTL_REG_TCR = 0x40"
definition RTL_REG_RCR :: u16 where "RTL_REG_RCR = 0x44"
definition RTL_REG_CONFIG1 :: u16 where "RTL_REG_CONFIG1 = 0x52"
definition RTL_REG_MSR :: u16 where "RTL_REG_MSR = 0x58"
definition RTL_CR_RST :: u8 where "RTL_CR_RST = 0x10"
definition RTL_CR_RE :: u8 where "RTL_CR_RE = 0x08"
definition RTL_CR_TE :: u8 where "RTL_CR_TE = 0x04"
definition RTL_ISR_ROK :: u16 where "RTL_ISR_ROK = 0x0001"
definition RTL_ISR_RERR :: u16 where "RTL_ISR_RERR = 0x0010"
definition RTL_ISR_TERR :: u16 where "RTL_ISR_TERR = 0x0020"
definition RTL_ISR_SERR :: u16 where "RTL_ISR_SERR = 0x8000"
definition RTL_RCR_WRAP :: u32 where "RTL_RCR_WRAP = 0x80"
definition RTL_RCR_AB :: u32 where "RTL_RCR_AB = 0x08"
definition RTL_RCR_AM :: u32 where "RTL_RCR_AM = 0x04"
definition RTL_RCR_APM :: u32 where "RTL_RCR_APM = 0x02"
definition RTL_TCR_CLRABT :: u32 where "RTL_TCR_CLRABT = 0x01"
definition RTL8139_RX_BUF_SIZE :: u32 where "RTL8139_RX_BUF_SIZE = 8192 + 16"
definition RTL8139_TX_BUF_SIZE :: nat where "RTL8139_TX_BUF_SIZE = 2048"
definition RTL8139_NUM_TX_BUFS :: nat where "RTL8139_NUM_TX_BUFS = 4"
definition PCI_VENDOR_REALTEK :: u16 where "PCI_VENDOR_REALTEK = 0x10EC"
definition PCI_DEVICE_RTL8139 :: u16 where "PCI_DEVICE_RTL8139 = 0x8139"

lemmas rtl_consts = RTL_REG_IDR0_def RTL_REG_TX_STATUS0_def RTL_REG_TX_ADDR0_def RTL_REG_RBSTART_def RTL_REG_CR_def RTL_REG_CAPR_def
  RTL_REG_CBR_def RTL_REG_IMR_def RTL_REG_ISR_def RTL_REG_TCR_def RTL_REG_RCR_def RTL_REG_CONFIG1_def
  RTL_REG_MSR_def RTL_CR_RST_def RTL_CR_RE_def RTL_CR_TE_def RTL_ISR_ROK_def RTL_ISR_RERR_def
  RTL_ISR_TERR_def RTL_ISR_SERR_def RTL_RCR_WRAP_def RTL_RCR_AB_def RTL_RCR_AM_def RTL_RCR_APM_def
  RTL_TCR_CLRABT_def
  RTL8139_RX_BUF_SIZE_def RTL8139_TX_BUF_SIZE_def RTL8139_NUM_TX_BUFS_def

record nic_dev =
  ports :: device
  dma_mem :: "io_event list \<Rightarrow> mem \<Rightarrow> mem"

record nic = machine +
  nio :: io_state
  rtl8139_mac :: "u8 list"
  rtl8139_has_packet :: int
  rtl8139_packet_count :: u32
  io_base :: u16
  rtl8139_irq :: u8
  irq_vector :: u8
  tx_bufs :: "u32 list"
  tx_phys :: "u32 list"
  tx_cur :: int
  rx_buf :: u32
  rx_phys :: u32
  rx_ptr :: u32

section \<open>Registers\<close>

definition rtl_readb :: "nic_dev \<Rightarrow> u16 \<Rightarrow> nic \<Rightarrow> u8 \<times> nic" where
  "rtl_readb hw reg s = (case inb (ports hw) (io_base s + reg) (nio s) of (v, i) \<Rightarrow> (v, s\<lparr>nio := i\<rparr>))"

definition rtl_readw :: "nic_dev \<Rightarrow> u16 \<Rightarrow> nic \<Rightarrow> u16 \<times> nic" where
  "rtl_readw hw reg s = (case inw (ports hw) (io_base s + reg) (nio s) of (v, i) \<Rightarrow> (v, s\<lparr>nio := i\<rparr>))"

definition rtl_readl :: "nic_dev \<Rightarrow> u16 \<Rightarrow> nic \<Rightarrow> u32 \<times> nic" where
  "rtl_readl hw reg s = (case inl (ports hw) (io_base s + reg) (nio s) of (v, i) \<Rightarrow> (v, s\<lparr>nio := i\<rparr>))"

definition rtl_writeb :: "u16 \<Rightarrow> u8 \<Rightarrow> nic \<Rightarrow> nic" where
  "rtl_writeb reg v s = s\<lparr>nio := outb (io_base s + reg) v (nio s)\<rparr>"

definition rtl_writew :: "u16 \<Rightarrow> u16 \<Rightarrow> nic \<Rightarrow> nic" where
  "rtl_writew reg v s = s\<lparr>nio := outw (io_base s + reg) v (nio s)\<rparr>"

definition rtl_writel :: "u16 \<Rightarrow> u32 \<Rightarrow> nic \<Rightarrow> nic" where
  "rtl_writel reg v s = s\<lparr>nio := outl (io_base s + reg) v (nio s)\<rparr>"

text \<open>A delay: \<open>n\<close> reads of port 0x80.\<close>

fun port_delay :: "nic_dev \<Rightarrow> nat \<Rightarrow> nic \<Rightarrow> nic" where
  "port_delay hw 0 s = s"
| "port_delay hw (Suc n) s = port_delay hw n (s\<lparr>nio := snd (inb (ports hw) 0x80 (nio s))\<rparr>)"

definition print_mac :: "nic \<Rightarrow> nic" where
  "print_mac s =
     (let hex = ''0123456789ABCDEF'' in
      fold (\<lambda>i s.
        (let s = (if 0 < i then klog '':'' [] s else s);
             s = klog [hex ! unat (drop_bit 4 (rtl8139_mac s ! i) AND 0xF)] [] s
         in klog [hex ! unat (rtl8139_mac s ! i AND 0xF)] [] s)) [0..<6] s)"

fun rtl_reset_loop :: "nic_dev \<Rightarrow> nat \<Rightarrow> nic \<Rightarrow> nic" where
  "rtl_reset_loop hw 0 s = klogln ''[rtl8139] reset timeout!'' [] s"
| "rtl_reset_loop hw (Suc n) s =
     (let (v, s) = rtl_readb hw RTL_REG_CR s
      in if v AND RTL_CR_RST = 0 then s else rtl_reset_loop hw n (port_delay hw 100 s))"

definition rtl_reset :: "nic_dev \<Rightarrow> nic \<Rightarrow> nic" where
  "rtl_reset hw s = rtl_reset_loop hw 1000 (rtl_writeb RTL_REG_CR RTL_CR_RST s)"

section \<open>Buffers\<close>

fun init_tx_loop :: "nat list \<Rightarrow> nic \<Rightarrow> (int \<times> nic) kres" where
  "init_tx_loop [] s = Inr (0, s)"
| "init_tx_loop (i # is) s =
     bind_res (pfa_alloc s) (\<lambda>(frame, s).
       (let s = s\<lparr>tx_phys := (tx_phys s)[i := frame]\<rparr> in
        if frame = 0 then Inr (-1, klogln ''[rtl8139] failed to alloc TX buf %d'' [AInt (of_nat i)] s)
        else
         (let virt = 0xF0040000 + of_nat i * 0x1000 in
          bind_res (paging_map_page virt frame 0x03 s) (\<lambda>s.
          (let s = s\<lparr>tx_bufs := (tx_bufs s)[i := virt]\<rparr> in
           bind_res (vmemset virt 0 RTL8139_TX_BUF_SIZE s) (\<lambda>s.
           (let s = rtl_writel (RTL_REG_TX_ADDR0 + of_nat i * 4) frame s;
                s = klogln ''[rtl8139] TX buf %d: phys=%x virt=%x'' [AInt (of_nat i), AInt frame, AInt virt] s
            in init_tx_loop is s)))))))"

definition init_tx_buffers :: "nic \<Rightarrow> (int \<times> nic) kres" where
  "init_tx_buffers s = init_tx_loop [0..<RTL8139_NUM_TX_BUFS] s"

definition init_rx_buffer :: "nic \<Rightarrow> (int \<times> nic) kres" where
  "init_rx_buffer s =
     bind_res (pfa_alloc s) (\<lambda>(frame, s).
       (let s = s\<lparr>rx_phys := frame\<rparr>; virt = 0xF0050000 in
        if frame = 0 then Inr (-1, klogln ''[rtl8139] failed to alloc RX buf'' [] s)
        else
         bind_res (paging_map_page virt frame 0x03 s) (\<lambda>s.
         bind_res (pfa_alloc s) (\<lambda>(frame2, s).
           if frame2 = 0 then Inr (-1, s)
           else
            bind_res (paging_map_page (virt + 0x1000) frame2 0x03 s) (\<lambda>s.
            bind_res (pfa_alloc s) (\<lambda>(frame3, s).
              if frame3 = 0 then Inr (-1, s)
              else
               bind_res (paging_map_page (virt + 0x2000) frame3 0x03 s) (\<lambda>s.
               (let s = s\<lparr>rx_buf := virt\<rparr> in
                bind_res (vmemset virt 0 0x3000 s) (\<lambda>s.
                (let s = rtl_writel RTL_REG_RBSTART (rx_phys s) s;
                     s = s\<lparr>rx_ptr := 0\<rparr>
                 in Inr (0, klogln ''[rtl8139] RX buf: phys=%x virt=%x'' [AInt (rx_phys s), AInt virt] s)))))))))))"

section \<open>Initialisation\<close>

fun read_mac :: "nic_dev \<Rightarrow> nat list \<Rightarrow> nic \<Rightarrow> nic" where
  "read_mac hw [] s = s"
| "read_mac hw (i # is) s =
     (let (v, s) = rtl_readb hw (RTL_REG_IDR0 + of_nat i) s
      in read_mac hw is (s\<lparr>rtl8139_mac := (rtl8139_mac s)[i := v]\<rparr>))"

text \<open>From the reset on, once the device is found.\<close>

definition rtl_start :: "nic_dev \<Rightarrow> nic \<Rightarrow> (int \<times> nic) kres" where
  "rtl_start hw s =
     (let s = rtl_reset hw s;
          s = read_mac hw [0..<6] s;
          s = klog ''[rtl8139] MAC: '' [] s;
          s = print_mac s;
          s = klog [LF] [] s;
          (cfg1, s) = rtl_readb hw RTL_REG_CONFIG1 s;
          s = rtl_writeb RTL_REG_CONFIG1 (cfg1 AND NOT (push_bit 3 1)) s
      in bind_res (init_tx_buffers s) (\<lambda>(r, s).
         if r \<noteq> 0 then Inr (-1, s)
         else bind_res (init_rx_buffer s) (\<lambda>(r, s).
           if r \<noteq> 0 then Inr (-1, s)
           else
            (let s = rtl_writel RTL_REG_RCR (RTL_RCR_AB OR RTL_RCR_AM OR RTL_RCR_APM OR RTL_RCR_WRAP) s;
                 s = rtl_writel RTL_REG_TCR RTL_TCR_CLRABT s;
                 s = rtl_writew RTL_REG_IMR 0 s;
                 s = rtl_writeb RTL_REG_CR (RTL_CR_TE OR RTL_CR_RE) s
             in Inr (0, klogln ''[rtl8139] init OK'' [] s)))))"

definition rtl8139_init :: "nic_dev \<Rightarrow> nic \<Rightarrow> (int \<times> nic) kres" where
  "rtl8139_init hw s =
     (case pci_find_device (ports hw) PCI_VENDOR_REALTEK PCI_DEVICE_RTL8139 (nio s) of
        (None, i) \<Rightarrow> Inr (-1, klogln ''[rtl8139] not found on PCI bus'' [] (s\<lparr>nio := i\<rparr>))
      | (Some p, i) \<Rightarrow>
         (let s = s\<lparr>nio := i\<rparr>;
              s = klogln ''[rtl8139] found at %d:%d.%d'' [AInt (ucast (bus p)), AInt (ucast (dev p)), AInt (ucast (func p))] s;
              s = klogln ''[rtl8139] vendor=%x device=%x'' [AInt (ucast (vendor_id p)), AInt (ucast (device_id p))] s;
              s = klogln ''[rtl8139] IRQ line=%d'' [AInt (ucast (irq_line p))] s;
              s = s\<lparr>io_base := ucast (bar p ! 0 AND 0xFFFFFFFC), rtl8139_irq := irq_line p, irq_vector := 32 + irq_line p\<rparr>;
              s = klogln ''[rtl8139] I/O base=%x irq=%d vector=%d''
                    [AInt (ucast (io_base s)), AInt (ucast (rtl8139_irq s)), AInt (ucast (irq_vector s))] s
          in if io_base s = 0 then Inr (-1, klogln ''[rtl8139] invalid I/O base!'' [] s)
             else rtl_start hw (s\<lparr>nio := pci_enable_bus_master (ports hw) p (nio s)\<rparr>)))"

section \<open>Sending\<close>

fun tx_wait :: "nic_dev \<Rightarrow> u16 \<Rightarrow> nat \<Rightarrow> nic \<Rightarrow> nic" where
  "tx_wait hw reg 0 s = s"
| "tx_wait hw reg (Suc n) s =
     (let (ts, s) = rtl_readl hw reg s
      in if ts AND 0x2000 \<noteq> 0 then s else tx_wait hw reg n (port_delay hw 10 s))"

definition rtl8139_send :: "nic_dev \<Rightarrow> u32 \<Rightarrow> u32 \<Rightarrow> nic \<Rightarrow> (int \<times> nic) kres" where
  "rtl8139_send hw data len s =
     (if io_base s = 0 then Inr (-1, s)
      else if len < 14 \<or> 1514 < len then Inr (-1, s)
      else if tx_cur s < 0 \<or> int (length (tx_bufs s)) \<le> tx_cur s then Inl Overrun
      else
       (let buf = tx_bufs s ! nat (tx_cur s) in
        bind_res (vmemcpy buf data (unat len) s) (\<lambda>s.
        bind_res (if len < 64 then vmemset (buf + len) 0 (unat (64 - len)) s else Inr s) (\<lambda>s.
        (let len = (if len < 64 then 64 else len);
             reg = RTL_REG_TX_STATUS0 + of_int (tx_cur s) * 4;
             s = rtl_writel reg (len OR 0x3000) s;
             s = tx_wait hw reg 5000 s
         in Inr (0, s\<lparr>tx_cur := (tx_cur s + 1) mod int RTL8139_NUM_TX_BUFS\<rparr>))))))"

definition rtl8139_get_mac :: "nic \<Rightarrow> u8 list" where
  "rtl8139_get_mac s = map (\<lambda>i. rtl8139_mac s ! i) [0..<6]"

section \<open>Receiving\<close>

text \<open>The header of a received packet: status and size, least significant byte first.\<close>

definition rx_header :: "nic_dev \<Rightarrow> u32 \<Rightarrow> nic \<Rightarrow> (u16 \<times> u16) kres" where
  "rx_header hw p s =
     (let v = s\<lparr>phys := dma_mem hw (io_trace (nio s)) (phys s)\<rparr> in
      bind_res (vload8 (rx_buf s + p) v) (\<lambda>a.
      bind_res (vload8 (rx_buf s + p + 1) v) (\<lambda>b.
      bind_res (vload8 (rx_buf s + p + 2) v) (\<lambda>c.
      bind_res (vload8 (rx_buf s + p + 3) v) (\<lambda>d.
      Inr (ucast a OR push_bit 8 (ucast b), ucast c OR push_bit 8 (ucast d)))))))"

definition rx_next :: "u32 \<Rightarrow> u16 \<Rightarrow> u32" where
  "rx_next p rx_size =
     (let p = (p + 4 + ucast rx_size + 3) AND NOT 3 in if RTL8139_RX_BUF_SIZE \<le> p then 0 else p)"

text \<open>The body of the receive loop.\<close>

definition rx_count :: "u16 \<Rightarrow> u16 \<Rightarrow> nic \<Rightarrow> nic" where
  "rx_count rx_status rx_size s =
     (if rx_status AND 0x01 \<noteq> 0
      then (let data_len = ucast rx_size - 4 :: u32 in
        if 0 < data_len \<and> data_len < 2000
        then (let s = s\<lparr>rtl8139_packet_count := rtl8139_packet_count s + 1\<rparr>
              in klogln ''[rtl8139] RX packet len=%d (status=%x, total=%d)''
                   [AInt data_len, AInt (ucast rx_status), AInt (rtl8139_packet_count s)] s)
        else s)
      else s)"

definition rx_packet :: "nic_dev \<Rightarrow> nic \<Rightarrow> nic kres" where
  "rx_packet hw s =
     bind_res (rx_header hw (rx_ptr s) s) (\<lambda>(rx_status, rx_size).
       (let s = rx_count rx_status rx_size s;
            s = s\<lparr>rx_ptr := rx_next (rx_ptr s) rx_size\<rparr>
        in Inr (rtl_writew RTL_REG_CAPR (ucast (rx_ptr s - 16)) s)))"

partial_function (option) rx_loop :: "nic_dev \<Rightarrow> nic \<Rightarrow> nic kres option" where
  "rx_loop hw s =
     (case rtl_readw hw RTL_REG_CBR s of (cbr, s) \<Rightarrow>
        if rx_ptr s = ucast cbr then Some (Inr s)
        else (case rx_packet hw s of Inl e \<Rightarrow> Some (Inl e) | Inr s \<Rightarrow> rx_loop hw s))"

definition rtl8139_handle_irq :: "nic_dev \<Rightarrow> nic \<Rightarrow> nic kres option" where
  "rtl8139_handle_irq hw s =
     (if io_base s = 0 then Some (Inr s)
      else (case rtl_readw hw RTL_REG_ISR s of (isr, s) \<Rightarrow>
        if isr = 0 then Some (Inr s)
        else
         (let s = rtl_writew RTL_REG_ISR isr s;
              err = (\<lambda>s. if isr AND (RTL_ISR_RERR OR RTL_ISR_TERR OR RTL_ISR_SERR) \<noteq> 0
                         then klogln ''[rtl8139] error: ISR=%x'' [AInt (ucast isr)] s else s)
          in if isr AND RTL_ISR_ROK \<noteq> 0
             then map_option (\<lambda>r. bind_res r (\<lambda>s. Inr (err (s\<lparr>rtl8139_has_packet := 1\<rparr>)))) (rx_loop hw s)
             else Some (Inr (err s)))))"

definition rtl8139_dump_status :: "nic_dev \<Rightarrow> nic \<Rightarrow> nic" where
  "rtl8139_dump_status hw s =
     (if io_base s = 0 then klogln ''[rtl8139] not initialized'' [] s
      else
       (let s = klogln ''[rtl8139] status dump:'' [] s;
            s = klogln ''  I/O base : %x'' [AInt (ucast (io_base s))] s;
            s = klogln ''  IRQ      : %d (vector %d)'' [AInt (ucast (rtl8139_irq s)), AInt (ucast (irq_vector s))] s;
            s = klog ''  MAC      : '' [] s;
            s = print_mac s;
            s = klog [LF] [] s;
            (v, s) = rtl_readb hw RTL_REG_CR s;
            s = klogln ''  CR       : %x'' [AInt (ucast v)] s;
            (w, s) = rtl_readw hw RTL_REG_ISR s;
            s = klogln ''  ISR      : %x'' [AInt (ucast w)] s;
            (w, s) = rtl_readw hw RTL_REG_IMR s;
            s = klogln ''  IMR      : %x'' [AInt (ucast w)] s;
            s = klogln ''  RX ptr   : %d'' [AInt (rx_ptr s)] s;
            (w, s) = rtl_readw hw RTL_REG_CBR s;
            s = klogln ''  CBR      : %x'' [AInt (ucast w)] s;
            (w, s) = rtl_readw hw RTL_REG_CAPR s;
            s = klogln ''  CAPR     : %x'' [AInt (ucast w)] s;
            s = klogln ''  Packets  : %d'' [AInt (rtl8139_packet_count s)] s;
            (v, s) = rtl_readb hw RTL_REG_MSR s
        in klogln ''  MSR      : %x'' [AInt (ucast v)] s))"

section \<open>Draining the ring\<close>

text \<open>
  The ring as the controller fills it: packets with their status and size from a read position on, and the positions
  that walking over them gives.
\<close>

fun ring_end :: "u32 \<Rightarrow> (u16 \<times> u16) list \<Rightarrow> u32" where
  "ring_end p [] = p"
| "ring_end p ((st, sz) # ps) = ring_end (rx_next p sz) ps"

fun ring_reads :: "(u32 \<Rightarrow> (u16 \<times> u16) kres) \<Rightarrow> u32 \<Rightarrow> (u16 \<times> u16) list \<Rightarrow> bool" where
  "ring_reads H p [] = True"
| "ring_reads H p ((st, sz) # ps) \<longleftrightarrow> H p = Inr (st, sz) \<and> p \<noteq> ring_end p ((st, sz) # ps) \<and> ring_reads H (rx_next p sz) ps"

definition good_packet :: "u16 \<times> u16 \<Rightarrow> bool" where
  "good_packet p \<longleftrightarrow> bit (fst p) 0 \<and> 4 < unat (snd p) \<and> unat (snd p) < 2004"

lemma rx_next_bounds: "rx_next p sz < 8208 \<and> rx_next p sz AND 3 = 0"
proof -
  have "(v AND NOT 3) AND 3 = 0" for v :: u32
    by (simp add: and.assoc)
  then show ?thesis
    by (auto simp: rx_next_def Let_def RTL8139_RX_BUF_SIZE_def not_le)
qed

lemma rx_count_cases:
  "rx_count st sz s = (if good_packet (st, sz)
     then klogln ''[rtl8139] RX packet len=%d (status=%x, total=%d)''
            [AInt (ucast sz - 4), AInt (ucast st), AInt (rtl8139_packet_count s + 1)]
            (s\<lparr>rtl8139_packet_count := rtl8139_packet_count s + 1\<rparr>)
     else s)"
proof -
  have "st AND 1 \<noteq> 0 \<longleftrightarrow> bit st 0"
    by (simp add: and_one_eq bit_0 flip: even_iff_mod_2_eq_zero)
  moreover have "0 < (ucast sz - 4 :: u32) \<and> (ucast sz - 4 :: u32) < 2000 \<longleftrightarrow> 4 < unat sz \<and> unat sz < 2004"
    by (simp add: word_less_nat_alt unat_sub_if' unsigned_ucast_eq take_bit_eq_mod) (use unsigned_less [of sz, where ?'a = nat] in auto)
  ultimately show ?thesis
    by (auto simp: rx_count_def good_packet_def Let_def)
qed

lemma rx_header_frame:
  assumes "phys t = phys s" "cr3 t = cr3 s" "paging t = paging s" "rx_buf t = rx_buf s" "io_trace (nio t) = io_trace (nio s)"
  shows "rx_header hw p t = rx_header hw p s"
  using assms by (simp add: rx_header_def Let_def vload8_def translate_def)

definition ring_view :: "nic_dev \<Rightarrow> nic \<Rightarrow> io_event list \<Rightarrow> u32 \<Rightarrow> (u16 \<times> u16) kres" where
  "ring_view hw s tr p = rx_header hw p (s\<lparr>nio := \<lparr>io_trace = tr\<rparr>\<rparr>)"


definition ring_holds :: "nic_dev \<Rightarrow> (u16 \<times> u16) list \<Rightarrow> nic \<Rightarrow> bool" where
  "ring_holds hw ps s \<longleftrightarrow> rx_ptr s < 8208 \<and> (\<forall>tr. ring_reads (ring_view hw s tr) (rx_ptr s) ps) \<and>
     (\<forall>tr. ucast (ports hw tr (io_base s + RTL_REG_CBR)) = (ucast (ring_end (rx_ptr s) ps) :: u16))"

lemma ring_end_bound: "p < 8208 \<Longrightarrow> ring_end p ps < 8208"
  by (induction p ps rule: ring_end.induct) (simp_all add: rx_next_bounds)

lemma small_ucast: "(p :: u32) < 8208 \<Longrightarrow> ucast (ucast p :: u16) = p"
  by (rule word_unat_eq_iff [THEN iffD2]) (simp add: word_less_nat_alt unsigned_ucast_eq take_bit_eq_mod unat_mod_distrib)

lemma ring_view_frame:
  "ring_view hw (rtl_writew r v s) = ring_view hw s" "ring_view hw (s\<lparr>rx_ptr := p\<rparr>) = ring_view hw s"
  "ring_view hw (rx_count st sz s) = ring_view hw s" "ring_view hw (s\<lparr>nio := i\<rparr>) = ring_view hw s"
  by (auto simp: fun_eq_iff ring_view_def rtl_writew_def rx_count_cases klog_def intro!: rx_header_frame)

lemma rx_loop_drains:
  assumes "ring_holds hw ps s"
  shows "\<exists>s'. rx_loop hw s = Some (Inr s') \<and> rx_ptr s' = ring_end (rx_ptr s) ps \<and>
    rtl8139_packet_count s' = rtl8139_packet_count s + of_nat (length (filter good_packet ps))"
  using assms
proof (induction ps arbitrary: s)
  case Nil
  obtain i where "rtl_readw hw RTL_REG_CBR s = (ucast (rx_ptr s), s\<lparr>nio := i\<rparr>)"
    using Nil by (simp add: rtl_readw_def inw_def ring_holds_def Let_def)
  then show ?case
    using Nil by (simp add: ring_holds_def small_ucast rx_loop.simps [of hw s])
next
  case (Cons pk ps)
  obtain st sz where pk: "pk = (st, sz)" by (cases pk)
  let ?e = "ring_end (rx_ptr s) (pk # ps)"
  have e: "?e < 8208" "rx_ptr s \<noteq> ?e"
    using Cons.prems ring_end_bound [of "rx_ptr s" "pk # ps"] by (auto simp: ring_holds_def pk)
  obtain i where r: "rtl_readw hw RTL_REG_CBR s = (ucast ?e, s\<lparr>nio := i\<rparr>)"
    using Cons.prems by (simp add: rtl_readw_def inw_def ring_holds_def Let_def)
  define t where "t = rtl_writew RTL_REG_CAPR (ucast (rx_next (rx_ptr s) sz - 16))
    ((rx_count st sz (s\<lparr>nio := i\<rparr>))\<lparr>rx_ptr := rx_next (rx_ptr s) sz\<rparr>)"
  have "rx_header hw (rx_ptr s) (s\<lparr>nio := i\<rparr>) = ring_view hw s (io_trace i) (rx_ptr s)"
    unfolding ring_view_def by (rule rx_header_frame) simp_all
  also have "\<dots> = Inr (st, sz)"
    using Cons.prems by (simp add: ring_holds_def pk)
  finally have p: "rx_packet hw (s\<lparr>nio := i\<rparr>) = Inr t"
    by (simp add: rx_packet_def t_def rx_count_cases klog_def Let_def)
  have t: "rx_ptr t = rx_next (rx_ptr s) sz" "io_base t = io_base s" "ring_view hw t = ring_view hw s"
    "rtl8139_packet_count t = rtl8139_packet_count s + (if good_packet pk then 1 else 0)"
    unfolding t_def ring_view_frame by (simp_all add: rtl_writew_def rx_count_cases klog_def pk)
  have "ring_holds hw ps t"
    using Cons.prems by (auto simp: ring_holds_def t pk rx_next_bounds)
  from Cons.IH [OF this] obtain s' where "rx_loop hw t = Some (Inr s')" "rx_ptr s' = ring_end (rx_ptr t) ps"
    "rtl8139_packet_count s' = rtl8139_packet_count t + of_nat (length (filter good_packet ps))" by blast
  moreover have "rx_loop hw s = rx_loop hw t"
    using r p e by (subst rx_loop.simps) (simp add: small_ucast)
  ultimately show ?case
    by (simp add: t pk add.assoc)
qed


text \<open>A controller that has stored one packet of 60 bytes at the start of the ring.\<close>

definition demo_nic_dev :: nic_dev where
  "demo_nic_dev = \<lparr>ports = \<lambda>tr p. if p = 0xC03E then 1 else if p = 0xC03A then 68 else 0,
     dma_mem = \<lambda>tr m. m(0x5000 := 1, 0x5001 := 0, 0x5002 := 64, 0x5003 := 0)\<rparr>"

definition demo_nic :: nic where
  "demo_nic = \<lparr>phys = \<lambda>_. 0, cr3 = 0, paging = False, page_frames = [], page_frame_count = 0, serial_log = [],
     nio = \<lparr>io_trace = []\<rparr>, rtl8139_mac = replicate 6 0, rtl8139_has_packet = 0, rtl8139_packet_count = 0,
     io_base = 0xC000, rtl8139_irq = 11, irq_vector = 43, tx_bufs = replicate 4 0, tx_phys = replicate 4 0, tx_cur = 0,
     rx_buf = 0x5000, rx_phys = 0x5000, rx_ptr = 0\<rparr>"


end
