(* ===== verification/Sros_Vm.thy ===== *)
theory Sros_Vm
  imports Sros_Ipc
begin

unbundle bit_operations_syntax

text \<open>
  What the paging functions do to address translation. \<open>pt_inv\<close> is the invariant of the page tables in memory and
  \<open>vm_inv\<close> that of the machine with its free frames; \<open>map_step\<close> is the effect of mapping one page. Pages whose frame
  is neither a table nor free (\<open>data_page\<close>) keep their contents while other pages are mapped and written.
\<close>

section \<open>Frames, offsets and table entries\<close>

abbreviation fr :: "u32 \<Rightarrow> u32" where "fr a \<equiv> a AND 0xFFFFF000"
abbreviation off :: "u32 \<Rightarrow> u32" where "off a \<equiv> a AND 0xFFF"

lemma unat_off: "unat (off a) = unat a mod 4096"
proof -
  have "(0xFFF :: u32) = mask 12" by (simp add: mask_eq_exp_minus_1)
  then show ?thesis
    by (simp only: flip: take_bit_eq_mask) (simp add: unsigned_take_bit_eq take_bit_eq_mod unat_mod_distrib)
qed

lemma and_split: "(a AND NOT b) + (a AND b) = (a :: u32)"
proof -
  have "(a AND NOT b) + (a AND b) = (a AND NOT b) OR (a AND b)"
    by (rule disjunctive_add) (simp add: bit_and_iff bit_not_iff)
  also have "\<dots> = a"
    by (rule bit_word_eqI) (auto simp: bit_simps)
  finally show ?thesis .
qed

lemma fr_mask: "(0xFFFFF000 :: u32) = NOT 0xFFF"
  by simp

lemma fr_off: "fr a + off a = a"
  unfolding fr_mask by (rule and_split)

lemma fr_eq: "fr a = a - off a"
  using fr_off [of a] by (simp add: eq_diff_eq)

lemma unat_fr: "unat (fr a) = unat a div 4096 * 4096"
  by (simp add: fr_eq unat_sub word_le_nat_alt unat_off minus_mod_eq_div_mult)

lemma unat_pd_index: "unat (pd_index a) = unat a div 4194304"
  by (simp add: pd_index_def unat_drop_bit_eq drop_bit_eq_div unat_div_distrib unat_mod_distrib)

lemma unat_pt_index: "unat (pt_index a) = unat a div 4096 mod 1024"
proof -
  have "(0x3FF :: u32) = mask 10" by (simp add: mask_eq_exp_minus_1)
  then show ?thesis
    by (simp only: pt_index_def flip: take_bit_eq_mask) (simp add: unsigned_take_bit_eq take_bit_eq_mod unat_drop_bit_eq drop_bit_eq_div unat_div_distrib unat_mod_distrib)
qed

lemma or_disjoint: "(a AND NOT m) OR (b AND m) = (a AND NOT m) + (b AND m :: u32)"
  by (rule disjunctive_add [symmetric]) (simp add: bit_and_iff bit_not_iff)

lemma fr_or: "off b = b \<Longrightarrow> fr a OR b = fr a + b"
  using or_disjoint [of a "0xFFF" b] unfolding fr_mask by simp

lemma frames_bound: "unat (a :: u32) div 4096 < 1048576"
  using unat_u32_less [of a] by (intro less_mult_imp_div_less) simp

lemma fr_fr [simp]: "fr (fr a) = fr a" by (simp add: and.assoc)

lemma frame_iff: "fr a = fr b \<longleftrightarrow> unat a div 4096 = unat b div 4096"
  by (simp add: word_unat_eq_iff unat_fr)

lemma page_iff: "fr a = fr b \<longleftrightarrow> pd_index a = pd_index b \<and> pt_index a = pt_index b"
proof -
  have d: "x div 4194304 = x div 4096 div 1024" for x :: nat
    by (simp flip: div_mult2_eq)
  have "X = Y \<longleftrightarrow> X div 1024 = Y div 1024 \<and> X mod 1024 = Y mod 1024" for X Y :: nat
    by (metis div_mult_mod_eq)
  from this [of "unat a div 4096" "unat b div 4096"] show ?thesis
    by (simp add: unat_fr word_unat_eq_iff unat_pd_index unat_pt_index d)
qed

definition entry :: "u32 \<Rightarrow> u32 \<Rightarrow> u32" where "entry t i = fr t + i * 4"

lemma unat_entry: "i < 1024 \<Longrightarrow> unat (entry t i) = unat t div 4096 * 4096 + unat i * 4"
proof -
  assume i: "i < 1024"
  then have "unat i < 1024" by (simp add: word_less_nat_alt)
  moreover have "unat t div 4096 * 4096 \<le> 4294963200"
    using frames_bound [of t] by simp
  ultimately show ?thesis
    by (simp add: entry_def unat_word_ariths unat_fr)
qed

lemma entry_frame: "i < 1024 \<Longrightarrow> k < 4 \<Longrightarrow> fr (entry t i + k) = fr t"
proof -
  assume "i < 1024" "k < 4"
  then have i: "unat i < 1024" "unat k < 4" by (simp_all add: word_less_nat_alt)
  have "unat t div 4096 * 4096 \<le> 4294963200"
    using frames_bound [of t] by simp
  then have "unat (entry t i + k) = unat t div 4096 * 4096 + (unat i * 4 + unat k)"
    using i by (simp add: unat_word_ariths unat_entry [OF \<open>i < 1024\<close>])
  then have "unat (entry t i + k) div 4096 = unat t div 4096"
    using i by simp
  then show ?thesis by (simp add: frame_iff)
qed

lemma slots_apart:
  "A \<noteq> B \<or> i \<noteq> j \<Longrightarrow> i < 1024 \<Longrightarrow> j < 1024 \<Longrightarrow>
    A * 4096 + i * 4 + 4 \<le> B * 4096 + j * 4 \<or> B * 4096 + j * 4 + 4 \<le> A * 4096 + (i :: nat) * 4"
proof -
  assume "A \<noteq> B \<or> i \<noteq> j" "i < 1024" "j < 1024"
  then consider "A < B" | "B < A" | "A = B" "i < j" | "A = B" "j < i" by linarith
  then show ?thesis using \<open>i < 1024\<close> \<open>j < 1024\<close> by cases linarith+
qed

lemma entry_apart:
  assumes "i < 1024" and "j < 1024" and "fr t \<noteq> fr u \<or> i \<noteq> j"
  shows "apart (entry t i) (entry u j)"
proof -
  have b: "unat i < 1024" "unat j < 1024" using assms(1,2) by (simp_all add: word_less_nat_alt)
  have t: "unat t div 4096 * 4096 \<le> 4294963200" "unat u div 4096 * 4096 \<le> 4294963200"
    using frames_bound [of t] frames_bound [of u] by simp_all
  have "unat t div 4096 \<noteq> unat u div 4096 \<or> unat i \<noteq> unat j"
    using assms(3) by (simp add: unat_fr word_unat_eq_iff)
  then have "apart (adr (unat (entry t i))) (adr (unat (entry u j)))"
    unfolding unat_entry [OF assms(1)] unat_entry [OF assms(2)] using slots_apart [OF _ b] b t by (intro apart_nat) auto
  then show ?thesis by simp
qed

lemma store_entry_frame: "i < 1024 \<Longrightarrow> fr x \<noteq> fr t \<Longrightarrow> store32 m (entry t i) v x = m x"
  using entry_frame [of i 0 t] entry_frame [of i 1 t] entry_frame [of i 2 t] entry_frame [of i 3 t]
  by (auto simp: store32_def)

section \<open>The page tables in memory\<close>

definition pde :: "mem \<Rightarrow> u32 \<Rightarrow> u32 \<Rightarrow> u32" where "pde m pd i = load32 m (entry pd i)"
definition present :: "u32 \<Rightarrow> bool" where "present e \<longleftrightarrow> e AND 1 \<noteq> 0"

definition walk :: "mem \<Rightarrow> u32 \<Rightarrow> u32 \<Rightarrow> u32 option" where
  "walk m pd va =
     (let e = pde m pd (pd_index va) in
      if \<not> present e then None
      else (let f = load32 m (entry e (pt_index va)) in if present f then Some (fr f + off va) else None))"

lemma off_off: "off (off a) = off a" by (simp add: and.assoc)

lemma translate_walk: "paging s \<Longrightarrow> translate s va = walk (phys s) (cr3 s) va"
  by (simp add: translate_def walk_def pde_def pde_at_def pte_at_def present_def entry_def Let_def fr_or off_off)

text \<open>
  The invariant of the page tables: the directory maps itself by its last entry and is mapped at its physical
  address; the tables of the other entries are distinct frames.
\<close>

definition pt_inv :: "mem \<Rightarrow> u32 \<Rightarrow> bool" where
  "pt_inv m pd \<longleftrightarrow> fr pd = pd \<and> present (pde m pd 1023) \<and> fr (pde m pd 1023) = pd \<and> pd_index pd < 1023 \<and>
     walk m pd pd = Some pd \<and>
     (\<forall>i<1023. present (pde m pd i) \<longrightarrow> fr (pde m pd i) \<noteq> pd) \<and>
     (\<forall>i<1023. \<forall>j<1023. present (pde m pd i) \<longrightarrow> present (pde m pd j) \<longrightarrow> fr (pde m pd i) = fr (pde m pd j) \<longrightarrow> i = j)"

definition tables :: "mem \<Rightarrow> u32 \<Rightarrow> u32 set" where
  "tables m pd = insert pd {fr (pde m pd i) | i. i < 1023 \<and> present (pde m pd i)}"

lemma index_bounds: "pd_index a < 1024" "pt_index a < 1024"
proof -
  have "unat a div 4194304 < 1024"
    using unat_u32_less [of a] by (intro less_mult_imp_div_less) simp
  then show "pd_index a < 1024" "pt_index a < 1024"
    by (simp_all add: word_less_nat_alt unat_pd_index unat_pt_index)
qed

text \<open>Storing an entry of a page table.\<close>

lemma store_pte:
  assumes "pt_inv m pd" and "p < 1023" and "q < 1024" and "present (pde m pd p)"
    and m'_def: "m' = store32 m (entry (pde m pd p) q) v"
  shows "i < 1024 \<Longrightarrow> pde m' pd i = pde m pd i"
    and "pd_index va < 1023 \<Longrightarrow> walk m' pd va =
      (if pd_index va = p \<and> pt_index va = q then if present v then Some (fr v + off va) else None else walk m pd va)"
    and "\<not> (pd_index pd = p \<and> pt_index pd = q) \<Longrightarrow> pt_inv m' pd"
proof -
  have ne: "fr (pde m pd p) \<noteq> fr pd"
    using assms(1,2,4) by (simp add: pt_inv_def)
  show P: "pde m' pd i = pde m pd i" if "i < 1024" for i
    unfolding pde_def m'_def using entry_apart [OF assms(3) that] ne by (simp add: pde_def)
  have "load32 m' (entry (pde m pd i) j) = (if i = p \<and> j = q then v else load32 m (entry (pde m pd i) j))"
    if "i < 1023" "j < 1024" "present (pde m pd i)" for i j
  proof (cases "i = p \<and> j = q")
    case False
    then have "fr (pde m pd p) \<noteq> fr (pde m pd i) \<or> q \<noteq> j"
      using assms(1,2,4) that unfolding pt_inv_def by metis
    then show ?thesis
      using entry_apart [OF assms(3) that(2)] False by (auto simp: m'_def)
  qed (simp add: m'_def)
  note L = this
  show W: "walk m' pd va = (if pd_index va = p \<and> pt_index va = q then if present v then Some (fr v + off va) else None else walk m pd va)"
    if "pd_index va < 1023" for va
    using that assms(4) index_bounds [of va] by (auto simp: walk_def Let_def P L)
  show "pt_inv m' pd" if "\<not> (pd_index pd = p \<and> pt_index pd = q)"
  proof -
    have "j < 1023 \<Longrightarrow> pde m' pd j = pde m pd j" for j
      by (rule P) (simp add: word_less_nat_alt)
    then show ?thesis
      using assms(1) that by (auto simp: pt_inv_def P W)
  qed
qed

text \<open>Storing an entry of the directory.\<close>

lemma store_pde:
  assumes "pt_inv m pd" and "p < 1023" and "p \<noteq> pd_index pd" and "present v"
    and "fr v \<notin> tables m pd \<or> present (pde m pd p) \<and> fr v = fr (pde m pd p)"
    and m'_def: "m' = store32 m (entry pd p) v"
  shows "i < 1024 \<Longrightarrow> pde m' pd i = (if i = p then v else pde m pd i)"
    and "fr t \<noteq> pd \<Longrightarrow> j < 1024 \<Longrightarrow> load32 m' (entry t j) = load32 m (entry t j)"
    and "pd_index va < 1023 \<Longrightarrow> pd_index va \<noteq> p \<Longrightarrow> walk m' pd va = walk m pd va"
    and "pt_inv m' pd"
proof -
  have p: "p < 1024" using assms(2) by (simp add: word_less_nat_alt)
  have pd: "fr pd = pd" using assms(1) by (simp add: pt_inv_def)
  show P: "pde m' pd i = (if i = p then v else pde m pd i)" if "i < 1024" for i
    unfolding pde_def m'_def using entry_apart [OF p that, of pd pd] by auto
  show L: "load32 m' (entry t j) = load32 m (entry t j)" if "fr t \<noteq> pd" "j < 1024" for t j
    using entry_apart [OF p that(2), of pd t] that pd by (auto simp: m'_def)
  have small: "i < 1024" if "i < 1023" for i :: u32
    using that by (simp add: word_less_nat_alt)
  have T: "i < 1023 \<Longrightarrow> present (pde m pd i) \<Longrightarrow> fr (pde m pd i) \<noteq> pd" for i
    using assms(1) by (simp add: pt_inv_def)
  show W: "walk m' pd va = walk m pd va" if "pd_index va < 1023" "pd_index va \<noteq> p" for va
    using that T [of "pd_index va"] index_bounds [of va] by (auto simp: walk_def Let_def P L)
  have v: "fr v \<noteq> pd" "\<And>i. i < 1023 \<Longrightarrow> i \<noteq> p \<Longrightarrow> present (pde m pd i) \<Longrightarrow> fr (pde m pd i) \<noteq> fr v"
    using assms(1,2,5) unfolding pt_inv_def tables_def by auto
  have "(1023 :: u32) \<noteq> p" "(1023 :: u32) < 1024" using assms(2) by auto
  then show "pt_inv m' pd"
    using assms(1-4) W [of pd] unfolding pt_inv_def by (auto simp: P small v v(2) [THEN not_sym])
qed

section \<open>Accesses through the self-map\<close>

lemma self_map_index:
  assumes "p < 1024" and "q < 1024"
  shows "pd_index (0xFFC00000 + p * 4096 + q * 4) = 1023" "pt_index (0xFFC00000 + p * 4096 + q * 4) = p"
    "off (0xFFC00000 + p * 4096 + q * 4) = q * 4"
proof -
  have b: "unat p < 1024" "unat q < 1024" using assms by (simp_all add: word_less_nat_alt)
  then have u: "unat (0xFFC00000 + p * 4096 + q * 4) = (1047552 + unat p) * 4096 + unat q * 4" (is "unat ?a = _")
    by (simp add: unat_word_ariths)
  have "unat ?a div 4194304 = 1023" "unat ?a div 4096 mod 1024 = unat p" "unat ?a mod 4096 = unat q * 4"
  proof -
    have d: "unat ?a div 4096 = 1047552 + unat p"
      unfolding u using b by (intro div_nat_eqI) simp_all
    have "unat ?a div 4194304 = unat ?a div 4096 div 1024" by (simp flip: div_mult2_eq)
    also have "\<dots> = 1023" unfolding d using b by (intro div_nat_eqI) simp_all
    finally show "unat ?a div 4194304 = 1023" .
    have "(1047552 + unat p) mod 1024 = unat p mod 1024"
      using mod_mult_self4 [of 1024 1023 "unat p"] by simp
    then show "unat ?a div 4096 mod 1024 = unat p" unfolding d using b by simp
    show "unat ?a mod 4096 = unat q * 4" unfolding u mod_mult_self3 using b by simp
  qed
  moreover have "unat (q * 4) = unat q * 4"
    using b by (simp add: unat_word_ariths)
  ultimately show "pd_index ?a = 1023" "pt_index ?a = p" "off ?a = q * 4"
    by (simp_all add: word_unat_eq_iff unat_pd_index unat_pt_index unat_off)
qed

lemma self_map:
  assumes "pt_inv m pd" and "p < 1023" and "q < 1024" and "present (pde m pd p)"
  shows "walk m pd (0xFFC00000 + p * 4096 + q * 4) = Some (entry (pde m pd p) q)"
proof -
  have p: "p < 1024" using assms(2) by (simp add: word_less_nat_alt)
  have "entry (pde m pd 1023) p = entry pd p"
    using assms(1) by (simp add: entry_def pt_inv_def)
  then have "load32 m (entry (pde m pd 1023) p) = pde m pd p"
    by (simp add: pde_def [of m pd p])
  then show ?thesis
    using assms(1,4) by (simp add: walk_def Let_def self_map_index [OF p assms(3)] pt_inv_def) (simp add: entry_def)
qed

lemma directory_mapped:
  assumes "pt_inv m pd" and "i < 1024"
  shows "walk m pd (pd + i * 4) = Some (entry pd i)"
proof -
  have e: "pd + i * 4 = entry pd i" using assms(1) by (simp add: entry_def pt_inv_def)
  have "fr (entry pd i) = fr pd" using entry_frame [OF assms(2), of 0 pd] by simp
  then have "pd_index (entry pd i) = pd_index pd" "pt_index (entry pd i) = pt_index pd" by (simp_all add: page_iff)
  moreover have "off (entry pd i) = entry pd i - pd" "off pd = 0"
    using fr_off [of "entry pd i"] fr_off [of pd] \<open>fr (entry pd i) = fr pd\<close> assms(1)
    by (auto simp: pt_inv_def eq_diff_eq add.commute)
  ultimately show ?thesis
    using assms(1) unfolding e pt_inv_def walk_def Let_def by (auto split: if_splits)
qed

section \<open>Mapping a page\<close>

definition free_frames :: "'a machine_scheme \<Rightarrow> u32 list" where
  "free_frames s = take (nat (page_frame_count s)) (page_frames s)"

definition vm_inv :: "'a machine_scheme \<Rightarrow> bool" where
  "vm_inv s \<longleftrightarrow> paging s \<and> pt_inv (phys s) (cr3 s) \<and> 0 \<le> page_frame_count s \<and> page_frame_count s \<le> int (length (page_frames s)) \<and>
     distinct (free_frames s) \<and> (\<forall>f\<in>set (free_frames s). fr f = f \<and> f \<notin> tables (phys s) (cr3 s))"

lemma vload32_walk: "paging s \<Longrightarrow> walk (phys s) (cr3 s) va = Some a \<Longrightarrow> vload32 va s = Inr (load32 (phys s) a)"
  by (simp add: vload32_def translate_walk)

lemma vstore32_walk: "paging s \<Longrightarrow> walk (phys s) (cr3 s) va = Some a \<Longrightarrow> vstore32 va v s = Inr (s\<lparr>phys := store32 (phys s) a v\<rparr>)"
  by (simp add: vstore32_def translate_walk)

lemma clear_table:
  assumes "paging s" and "pt_inv (phys s) (cr3 s)" and "p < 1023" and "p \<noteq> pd_index (cr3 s)" and "present (pde (phys s) (cr3 s) p)"
    and "n \<le> 1024"
  shows "\<exists>m'. fold_res (\<lambda>i s. vstore32 (0xFFC00000 + p * 4096 + of_nat i * 4) 0 s) [0..<n] s = Inr (s\<lparr>phys := m'\<rparr>) \<and>
    pt_inv m' (cr3 s) \<and> (\<forall>i<1024. pde m' (cr3 s) i = pde (phys s) (cr3 s) i) \<and>
    (\<forall>j<1024. unat j < n \<longrightarrow> load32 m' (entry (pde (phys s) (cr3 s) p) j) = 0) \<and>
    (\<forall>x. fr x \<noteq> fr (pde (phys s) (cr3 s) p) \<longrightarrow> m' x = phys s x) \<and>
    (\<forall>va. pd_index va < 1023 \<longrightarrow> pd_index va \<noteq> p \<longrightarrow> walk m' (cr3 s) va = walk (phys s) (cr3 s) va)"
  using assms(6)
proof (induction n)
  case 0
  then show ?case using assms(2) by (intro exI [of _ "phys s"]) simp
next
  case (Suc n)
  let ?pd = "cr3 s" and ?e = "pde (phys s) (cr3 s) p"
  from Suc obtain m' where m: "fold_res (\<lambda>i s. vstore32 (0xFFC00000 + p * 4096 + of_nat i * 4) 0 s) [0..<n] s = Inr (s\<lparr>phys := m'\<rparr>)"
    "pt_inv m' ?pd" "\<forall>i<1024. pde m' ?pd i = pde (phys s) ?pd i"
    "\<forall>j<1024. unat j < n \<longrightarrow> load32 m' (entry ?e j) = 0" "\<forall>x. fr x \<noteq> fr ?e \<longrightarrow> m' x = phys s x"
    "\<forall>va. pd_index va < 1023 \<longrightarrow> pd_index va \<noteq> p \<longrightarrow> walk m' ?pd va = walk (phys s) ?pd va"
    by auto
  have q: "(of_nat n :: u32) < 1024" and un: "unat (of_nat n :: u32) = n"
    using Suc.prems by (simp_all add: word_less_nat_alt unat_of_nat_u32)
  have p: "p < 1024" using assms(3) by (simp add: word_less_nat_alt)
  have e: "pde m' ?pd p = ?e" using m(3) p by simp
  define m2 where "m2 = store32 m' (entry ?e (of_nat n)) 0"
  have st: "m2 = store32 m' (entry (pde m' ?pd p) (of_nat n)) 0" by (simp add: m2_def e)
  note S = store_pte [OF m(2) assms(3) q _ st, unfolded e, OF assms(5)]
  have "walk m' ?pd (0xFFC00000 + p * 4096 + of_nat n * 4) = Some (entry ?e (of_nat n))"
    using self_map [OF m(2) assms(3) q] e assms(5) by simp
  then have "vstore32 (0xFFC00000 + p * 4096 + of_nat n * 4) 0 (s\<lparr>phys := m'\<rparr>) = Inr (s\<lparr>phys := m2\<rparr>)"
    using assms(1) by (subst vstore32_walk) (simp_all add: m2_def)
  then have "fold_res (\<lambda>i s. vstore32 (0xFFC00000 + p * 4096 + of_nat i * 4) 0 s) [0..<Suc n] s = Inr (s\<lparr>phys := m2\<rparr>)"
    using m(1) by (simp add: fold_res_append)
  moreover have "load32 m2 (entry ?e j) = 0" if "j < 1024" "unat j < Suc n" for j
    using that m(4) un entry_apart [OF q that(1), of ?e ?e]
    by (cases "unat j = n") (auto simp: m2_def word_unat_eq_iff)
  moreover have "m2 x = phys s x" if "fr x \<noteq> fr ?e" for x
    using that m(5) store_entry_frame [OF q, of x ?e] by (simp add: m2_def)
  ultimately show ?case
    using S m(3,6) assms(4) by (intro exI [of _ m2]) auto
qed

lemma small_bits: "off ((ucast (flags AND (7 :: u8)) :: u32) OR 1) = ucast (flags AND 7) OR 1"
proof -
  have "(ucast (flags AND 7) :: u32) = ucast flags AND 7"
    by (simp add: unsigned_and_eq)
  then show ?thesis
    by (simp add: and.assoc bit.conj_disj_distrib2)
qed

lemma entry_bits:
  "present (a OR b OR 1)" "off b = b \<Longrightarrow> fr (fr a OR b) = fr a"
proof -
  show "present (a OR b OR 1)"
    by (simp add: present_def and_one_eq odd_iff_mod_2_eq_one [symmetric] even_or_iff del: odd_iff_mod_2_eq_one)
  assume "off b = b"
  then have "fr b = 0" using fr_off [of b] by simp
  then show "fr (fr a OR b) = fr a" by (simp add: bit.conj_disj_distrib2)
qed

definition map_entry :: "u32 \<Rightarrow> u8 \<Rightarrow> u32" where
  "map_entry a flags = fr a OR ucast (flags AND 7) OR 1"

lemma map_entry: "present (map_entry a flags)" "fr (map_entry a flags) = fr a"
  unfolding map_entry_def by (rule entry_bits) (rule entry_bits(2) [OF small_bits])

text \<open>The last step of \<open>paging_map_page\<close>, when the directory has a table for the address.\<close>

lemma map_page_entry:
  assumes "paging s" and "pt_inv (phys s) (cr3 s)" and "pd_index va < 1023" and "fr va \<noteq> cr3 s"
    and "present (pde (phys s) (cr3 s) (pd_index va))"
    and m': "m' = store32 (phys s) (entry (pde (phys s) (cr3 s) (pd_index va)) (pt_index va)) (map_entry frame flags)"
  shows "vstore32 (0xFFC00000 + pd_index va * 4096 + pt_index va * 4) (map_entry frame flags) s = Inr (s\<lparr>phys := m'\<rparr>)"
    and "pt_inv m' (cr3 s)" and "i < 1024 \<Longrightarrow> pde m' (cr3 s) i = pde (phys s) (cr3 s) i"
    and "pd_index a < 1023 \<Longrightarrow> walk m' (cr3 s) a = (if fr a = fr va then Some (fr frame + off a) else walk (phys s) (cr3 s) a)"
    and "fr x \<noteq> fr (pde (phys s) (cr3 s) (pd_index va)) \<Longrightarrow> m' x = phys s x"
proof -
  have pd: "fr (cr3 s) = cr3 s" using assms(2) by (simp add: pt_inv_def)
  note S = store_pte [OF assms(2,3) index_bounds(2) assms(5) m']
  show "vstore32 (0xFFC00000 + pd_index va * 4096 + pt_index va * 4) (map_entry frame flags) s = Inr (s\<lparr>phys := m'\<rparr>)"
    using self_map [OF assms(2,3) index_bounds(2) assms(5)] assms(1) by (subst vstore32_walk) (simp_all add: m')
  have "\<not> (pd_index (cr3 s) = pd_index va \<and> pt_index (cr3 s) = pt_index va)"
    using assms(4) pd page_iff [of "cr3 s" va] by auto
  then show "pt_inv m' (cr3 s)" by (rule S(3))
  show "pde m' (cr3 s) i = pde (phys s) (cr3 s) i" if "i < 1024" by (rule S(1) [OF that])
  show "walk m' (cr3 s) a = (if fr a = fr va then Some (fr frame + off a) else walk (phys s) (cr3 s) a)" if "pd_index a < 1023"
    using S(2) [OF that] by (simp add: page_iff map_entry)
  show "m' x = phys s x" if "fr x \<noteq> fr (pde (phys s) (cr3 s) (pd_index va))"
    unfolding m' by (rule store_entry_frame [OF index_bounds(2) that])
qed

text \<open>The steps of \<open>paging_map_page\<close> that give the directory a table.\<close>

definition new_table :: "u32 \<Rightarrow> u32 \<Rightarrow> u32 \<Rightarrow> u8 \<Rightarrow> 'a machine_scheme \<Rightarrow> 'a machine_scheme kres" where
  "new_table pd p t flags s =
     bind_res (vstore32 (pd + p * 4) (map_entry t 0) s) (\<lambda>s.
     bind_res (fold_res (\<lambda>i s. vstore32 (0xFFC00000 + p * 4096 + of_nat i * 4) 0 s) [0..<1024] s) (\<lambda>s.
     vstore32 (pd + p * 4) (map_entry t flags) s))"

lemma new_table_ok:
  assumes pg: "paging s" and inv: "pt_inv (phys s) (cr3 s)" and p: "p < 1023" and ab: "\<not> present (pde (phys s) (cr3 s) p)"
    and t: "fr t = t" "t \<notin> tables (phys s) (cr3 s)"
  shows "\<exists>m'. new_table (cr3 s) p t flags s = Inr (s\<lparr>phys := m'\<rparr>) \<and> pt_inv m' (cr3 s) \<and>
    (\<forall>i<1024. pde m' (cr3 s) i = (if i = p then map_entry t flags else pde (phys s) (cr3 s) i)) \<and>
    (\<forall>a. pd_index a < 1023 \<longrightarrow> walk m' (cr3 s) a = walk (phys s) (cr3 s) a) \<and>
    (\<forall>x. fr x \<noteq> cr3 s \<longrightarrow> fr x \<noteq> t \<longrightarrow> m' x = phys s x)"
proof -
  let ?pd = "cr3 s" and ?m = "phys s"
  have p': "p < 1024" using p by (simp add: word_less_nat_alt)
  have np: "p \<noteq> pd_index ?pd"
    using inv ab by (auto simp: pt_inv_def walk_def Let_def split: if_splits)
  have pd: "fr ?pd = ?pd" and tpd: "t \<noteq> ?pd" using inv t(2) by (auto simp: pt_inv_def tables_def)
  define m1 where "m1 = store32 ?m (entry ?pd p) (map_entry t 0)"
  have v1: "vstore32 (?pd + p * 4) (map_entry t 0) s = Inr (s\<lparr>phys := m1\<rparr>)"
    using directory_mapped [OF inv p'] pg by (subst vstore32_walk) (simp_all add: m1_def)
  have fresh: "fr (map_entry t 0) \<notin> tables ?m ?pd \<or> present (pde ?m ?pd p) \<and> fr (map_entry t 0) = fr (pde ?m ?pd p)"
    using t by (simp add: map_entry)
  note S1 = store_pde [OF inv p np map_entry(1) fresh m1_def]
  have e1: "pde m1 ?pd p = map_entry t 0" using S1(1) [OF p'] by simp
  obtain m2 where c: "fold_res (\<lambda>i s. vstore32 (0xFFC00000 + p * 4096 + of_nat i * 4) 0 s) [0..<1024] (s\<lparr>phys := m1\<rparr>) = Inr (s\<lparr>phys := m2\<rparr>)"
    "pt_inv m2 ?pd" "\<forall>i<1024. pde m2 ?pd i = pde m1 ?pd i" "\<forall>j<1024. load32 m2 (entry (map_entry t 0) j) = 0"
    "\<forall>x. fr x \<noteq> t \<longrightarrow> m2 x = m1 x" "\<forall>va. pd_index va < 1023 \<longrightarrow> pd_index va \<noteq> p \<longrightarrow> walk m2 ?pd va = walk m1 ?pd va"
    using clear_table [of "s\<lparr>phys := m1\<rparr>" p 1024] pg S1(4) p np e1 t(1) by (auto simp: map_entry word_less_nat_alt)
  define m3 where "m3 = store32 m2 (entry ?pd p) (map_entry t flags)"
  have v3: "vstore32 (?pd + p * 4) (map_entry t flags) (s\<lparr>phys := m2\<rparr>) = Inr (s\<lparr>phys := m3\<rparr>)"
    using directory_mapped [OF c(2) p'] pg by (subst vstore32_walk) (simp_all add: m3_def)
  have e2: "pde m2 ?pd p = map_entry t 0" using c(3) p' e1 by simp
  then have "fr (map_entry t flags) \<notin> tables m2 ?pd \<or> present (pde m2 ?pd p) \<and> fr (map_entry t flags) = fr (pde m2 ?pd p)"
    by (simp add: map_entry)
  note S3 = store_pde [OF c(2) p np map_entry(1) this m3_def]
  have "walk m3 ?pd a = walk ?m ?pd a" if a: "pd_index a < 1023" for a
  proof (cases "pd_index a = p")
    case True
    have "entry (map_entry t flags) (pt_index a) = entry (map_entry t 0) (pt_index a)" by (simp add: entry_def map_entry)
    moreover have "load32 m3 (entry (map_entry t 0) (pt_index a)) = 0"
      using S3(2) [of "map_entry t 0" "pt_index a"] c(4) index_bounds(2) [of a] t(1) tpd by (simp add: map_entry)
    ultimately show ?thesis
      using True ab S3(1) [OF p'] by (simp add: walk_def Let_def) (simp add: present_def)
  qed (use a S3(3) c(6) S1(3) in simp)
  moreover have "m3 x = ?m x" if "fr x \<noteq> ?pd" "fr x \<noteq> t" for x
    using that c(5) store_entry_frame [OF p', of x ?pd] pd by (simp add: m3_def m1_def)
  moreover have "new_table (cr3 s) p t flags s = Inr (s\<lparr>phys := m3\<rparr>)"
    using v1 c(1) v3 by (simp add: new_table_def)
  ultimately show ?thesis
    using S3(1,4) c(3) S1(1) by (intro exI [of _ m3]) auto
qed

lemma map_page_steps:
  "paging_map_page va frame flags s =
     bind_res (vload32 (cr3 s + pd_index va * 4) s) (\<lambda>e.
     bind_res (if \<not> present e then bind_res (pfa_alloc s) (\<lambda>(t, s'). new_table (cr3 s) (pd_index va) t flags s') else Inr s)
       (vstore32 (0xFFC00000 + pd_index va * 4096 + pt_index va * 4) (map_entry frame flags)))"
  by (simp add: paging_map_page_def Let_def new_table_def map_entry_def present_def pd_index_def pt_index_def or.assoc split_def cong: if_cong)

lemma pfa_alloc_last:
  assumes "vm_inv s" and "free_frames s \<noteq> []"
  shows "pfa_alloc s = Inr (last (free_frames s), s\<lparr>page_frame_count := page_frame_count s - 1\<rparr>)"
    and "free_frames (s\<lparr>page_frame_count := page_frame_count s - 1\<rparr>) = butlast (free_frames s)"
proof -
  let ?n = "page_frame_count s"
  have n: "0 < ?n" "?n \<le> int (length (page_frames s))"
    using assms by (auto simp: vm_inv_def free_frames_def)
  define k where "k = nat (?n - 1)"
  have k: "?n = int k + 1" "k < length (page_frames s)"
    using n by (auto simp: k_def)
  then have f: "free_frames s = take k (page_frames s) @ [page_frames s ! k]"
    by (simp add: free_frames_def nat_add_distrib take_Suc_conv_app_nth)
  then show "pfa_alloc s = Inr (last (free_frames s), s\<lparr>page_frame_count := ?n - 1\<rparr>)"
    "free_frames (s\<lparr>page_frame_count := ?n - 1\<rparr>) = butlast (free_frames s)"
    using k by (simp_all add: pfa_alloc_def Let_def) (simp add: free_frames_def)
qed

text \<open>
  One page mapped: the state differs in memory and in the number of free frames only, the invariant holds, the page
  translates to the frame and every other page as before, the tables are old ones or frames that were free, and no
  byte outside the tables changed.
\<close>

definition map_step :: "'a machine_scheme \<Rightarrow> u32 \<Rightarrow> u32 \<Rightarrow> 'a machine_scheme \<Rightarrow> bool" where
  "map_step s va frame s' \<longleftrightarrow> s' = s\<lparr>phys := phys s', page_frame_count := page_frame_count s'\<rparr> \<and> vm_inv s' \<and>
     (\<forall>a. pd_index a < 1023 \<longrightarrow> walk (phys s') (cr3 s) a = (if fr a = fr va then Some (fr frame + off a) else walk (phys s) (cr3 s) a)) \<and>
     (\<forall>x. fr x \<notin> tables (phys s') (cr3 s) \<longrightarrow> phys s' x = phys s x) \<and>
     tables (phys s') (cr3 s) \<union> set (free_frames s') \<subseteq> tables (phys s) (cr3 s) \<union> set (free_frames s) \<and>
     set (free_frames s') \<subseteq> set (free_frames s) \<and> length (free_frames s) \<le> length (free_frames s') + 1"

lemma below_1023: "i < 1023 \<Longrightarrow> i < (1024 :: u32)"
  by (simp add: word_less_nat_alt)

lemma map_present:
  assumes inv: "vm_inv s" and p: "pd_index va < 1023" and va: "fr va \<noteq> cr3 s" and pr: "present (pde (phys s) (cr3 s) (pd_index va))"
  defines "a \<equiv> 0xFFC00000 + pd_index va * 4096 + pt_index va * 4"
  obtains s' where "vstore32 a (map_entry frame flags) s = Inr s'" and "map_step s va frame s'"
    and "free_frames s' = free_frames s" and "tables (phys s') (cr3 s) = tables (phys s) (cr3 s)"
proof -
  have v: "paging s" "pt_inv (phys s) (cr3 s)" using inv by (auto simp: vm_inv_def)
  let ?e = "pde (phys s) (cr3 s) (pd_index va)"
  let ?m = "store32 (phys s) (entry ?e (pt_index va)) (map_entry frame flags)"
  note E = map_page_entry [OF v p va pr refl, where frame = frame and flags = flags]
  have T: "tables ?m (cr3 s) = tables (phys s) (cr3 s)"
    using E(3) by (force simp: tables_def dest: below_1023)
  have F: "free_frames (s\<lparr>phys := ?m\<rparr>) = free_frames s" by (simp add: free_frames_def)
  have "fr ?e \<in> tables (phys s) (cr3 s)" using pr p by (auto simp: tables_def)
  then have "?m x = phys s x" if "fr x \<notin> tables (phys s) (cr3 s)" for x
    using that E(5) by metis
  moreover have "vm_inv (s\<lparr>phys := ?m\<rparr>)"
    using inv E(2) T F by (simp add: vm_inv_def)
  ultimately have "map_step s va frame (s\<lparr>phys := ?m\<rparr>)"
    using E(4) T F unfolding map_step_def by (cases s) (simp split del: if_split)
  then show ?thesis
    using that [of "s\<lparr>phys := ?m\<rparr>"] E(1) T F by (simp add: a_def)
qed

lemma map_absent:
  assumes inv: "vm_inv s" and p: "p < 1023" and ab: "\<not> present (pde (phys s) (cr3 s) p)" and ff: "free_frames s \<noteq> []"
  obtains s1 where "bind_res (pfa_alloc s) (\<lambda>(t, s'). new_table (cr3 s) p t flags s') = Inr s1"
    and "s1 = s\<lparr>phys := phys s1, page_frame_count := page_frame_count s - 1\<rparr>" and "vm_inv s1"
    and "present (pde (phys s1) (cr3 s) p)" and "free_frames s1 = butlast (free_frames s)"
    and "\<And>a. pd_index a < 1023 \<Longrightarrow> walk (phys s1) (cr3 s) a = walk (phys s) (cr3 s) a"
    and "\<And>x. fr x \<notin> tables (phys s1) (cr3 s) \<Longrightarrow> phys s1 x = phys s x"
    and "tables (phys s1) (cr3 s) = insert (last (free_frames s)) (tables (phys s) (cr3 s))"
proof -
  have v: "paging s" "pt_inv (phys s) (cr3 s)" using inv by (auto simp: vm_inv_def)
  let ?t = "last (free_frames s)" and ?s = "s\<lparr>page_frame_count := page_frame_count s - 1\<rparr>"
  have t: "fr ?t = ?t" "?t \<notin> tables (phys s) (cr3 s)" using inv ff by (auto simp: vm_inv_def)
  obtain m' where m: "new_table (cr3 s) p ?t flags ?s = Inr (?s\<lparr>phys := m'\<rparr>)" "pt_inv m' (cr3 s)"
    "\<forall>i<1024. pde m' (cr3 s) i = (if i = p then map_entry ?t flags else pde (phys s) (cr3 s) i)"
    "\<forall>a. pd_index a < 1023 \<longrightarrow> walk m' (cr3 s) a = walk (phys s) (cr3 s) a"
    "\<forall>x. fr x \<noteq> cr3 s \<longrightarrow> fr x \<noteq> ?t \<longrightarrow> m' x = phys s x"
    using new_table_ok [of ?s p ?t flags] v p ab t by auto
  have T: "tables m' (cr3 s) = insert ?t (tables (phys s) (cr3 s))"
  proof -
    have "fr (map_entry ?t flags) = ?t" "present (map_entry ?t flags)" using t(1) by (simp_all add: map_entry)
    then show ?thesis using m(3) p ab by (auto simp: tables_def dest: below_1023) (metis below_1023)+
  qed
  let ?s1 = "?s\<lparr>phys := m'\<rparr>"
  have F: "free_frames ?s1 = butlast (free_frames s)"
    using pfa_alloc_last(2) [OF inv ff] by (simp add: free_frames_def)
  have d: "distinct (butlast (free_frames s) @ [?t])" using inv ff by (simp add: vm_inv_def)
  then have "?t \<notin> set (butlast (free_frames s))" by simp
  moreover have "0 \<le> page_frame_count s - 1"
    using ff inv by (cases "page_frame_count s = 0") (auto simp: vm_inv_def free_frames_def)
  ultimately have "vm_inv ?s1"
    using inv m(2) F T d by (auto simp: vm_inv_def dest: in_set_butlastD)
  moreover have "cr3 s \<in> tables (phys s) (cr3 s)" by (simp add: tables_def)
  then have "m' x = phys s x" if "fr x \<notin> tables m' (cr3 s)" for x
    using that m(5) T by (metis insertCI)
  ultimately show ?thesis
    using that [of ?s1] pfa_alloc_last(1) [OF inv ff] m F T below_1023 [OF p] by (simp add: map_entry)
qed

lemma map_page_ok:
  assumes inv: "vm_inv s" and p: "pd_index va < 1023" and va: "fr va \<noteq> cr3 s"
    and fits: "present (pde (phys s) (cr3 s) (pd_index va)) \<or> free_frames s \<noteq> []"
  obtains s' where "paging_map_page va frame flags s = Inr s'" and "map_step s va frame s'"
proof -
  have v: "paging s" "pt_inv (phys s) (cr3 s)" using inv by (auto simp: vm_inv_def)
  let ?p = "pd_index va"
  have l: "vload32 (cr3 s + ?p * 4) s = Inr (pde (phys s) (cr3 s) ?p)"
    using directory_mapped [OF v(2) index_bounds(1) [of va]] vload32_walk [OF v(1)] by (simp add: pde_def)
  show ?thesis
  proof (cases "present (pde (phys s) (cr3 s) ?p)")
    case True
    from map_present [OF inv p va True] obtain s' where
      "vstore32 (0xFFC00000 + ?p * 4096 + pt_index va * 4) (map_entry frame flags) s = Inr s'" "map_step s va frame s'" by metis
    then show ?thesis using that [of s'] l True by (simp add: map_page_steps)
  next
    case False
    from map_absent [OF inv p False, of flags] fits False obtain s1 where
      s1: "bind_res (pfa_alloc s) (\<lambda>(t, s'). new_table (cr3 s) ?p t flags s') = Inr s1"
      "s1 = s\<lparr>phys := phys s1, page_frame_count := page_frame_count s - 1\<rparr>" "vm_inv s1"
      "present (pde (phys s1) (cr3 s) ?p)" "free_frames s1 = butlast (free_frames s)"
      "\<And>a. pd_index a < 1023 \<Longrightarrow> walk (phys s1) (cr3 s) a = walk (phys s) (cr3 s) a"
      "\<And>x. fr x \<notin> tables (phys s1) (cr3 s) \<Longrightarrow> phys s1 x = phys s x"
      "tables (phys s1) (cr3 s) = insert (last (free_frames s)) (tables (phys s) (cr3 s))" by metis
    have c: "cr3 s1 = cr3 s" by (subst s1(2)) simp
    have "fr va \<noteq> cr3 s1" "present (pde (phys s1) (cr3 s1) ?p)" using va s1(4) c by simp_all
    from map_present [OF s1(3) p this] obtain s' where
      s': "vstore32 (0xFFC00000 + ?p * 4096 + pt_index va * 4) (map_entry frame flags) s1 = Inr s'" "map_step s1 va frame s'"
      "free_frames s' = free_frames s1" "tables (phys s') (cr3 s1) = tables (phys s1) (cr3 s1)" by metis
    have "s' = s\<lparr>phys := phys s', page_frame_count := page_frame_count s'\<rparr>"
      using s'(2) s1(2) unfolding map_step_def by (metis (no_types, lifting) machine.surjective machine.update_convs(1,5))
    moreover have "set (butlast (free_frames s)) \<subseteq> set (free_frames s)" "last (free_frames s) \<in> set (free_frames s)"
      using fits False by (auto dest: in_set_butlastD)
    ultimately have "map_step s va frame s'"
      using s'(2,3,4) s1(5-8) c unfolding map_step_def by auto
    then show ?thesis using that [of s'] l False s1(1) s'(1) by (simp add: map_page_steps)
  qed
qed

section \<open>Data pages\<close>

text \<open>Memory that agrees on the tables has the same translations.\<close>

lemma tables_agree:
  assumes inv: "pt_inv m pd" and ag: "\<And>x. fr x \<in> tables m pd \<Longrightarrow> m' x = m x"
  shows "i < 1024 \<Longrightarrow> pde m' pd i = pde m pd i" and "tables m' pd = tables m pd"
    and "pd_index a < 1023 \<Longrightarrow> walk m' pd a = walk m pd a" and "pt_inv m' pd"
proof -
  have pd: "fr pd = pd" using inv by (simp add: pt_inv_def)
  have L: "load32 m' (entry t i) = load32 m (entry t i)" if "fr t \<in> tables m pd" "i < 1024" for t i
    using that ag by (intro load32_cong) (simp add: entry_frame)
  show P: "pde m' pd i = pde m pd i" if "i < 1024" for i
    using L [OF _ that, of pd] pd by (simp add: pde_def tables_def)
  then show "tables m' pd = tables m pd"
    by (force simp: tables_def dest: below_1023)
  show W: "walk m' pd a = walk m pd a" if "pd_index a < 1023" for a
  proof (cases "present (pde m pd (pd_index a))")
    case True
    then have "fr (pde m pd (pd_index a)) \<in> tables m pd" using that by (auto simp: tables_def)
    then show ?thesis using L index_bounds [of a] by (simp add: walk_def Let_def P)
  qed (simp add: walk_def Let_def P index_bounds)
  show "pt_inv m' pd"
    using inv W [of pd] unfolding pt_inv_def by (auto simp: P below_1023)
qed

lemma vm_agree:
  assumes "vm_inv s" and "\<And>x. fr x \<in> tables (phys s) (cr3 s) \<Longrightarrow> m' x = phys s x"
  shows "vm_inv (s\<lparr>phys := m'\<rparr>)"
  using assms tables_agree [of "phys s" "cr3 s" m'] by (simp add: vm_inv_def free_frames_def)

lemma page_step:
  assumes "unat (off va) < 4095"
  shows "fr (va + 1) = fr va" and "unat (off (va + 1)) = unat (off va) + 1" and "off (va + 1) = off va + 1"
proof -
  have m: "unat va mod 4096 < 4095" using assms by (simp add: unat_off)
  then have "unat va + 1 < 4294967296"
    using unat_u32_less [of va] by (cases "unat va = 4294967295") (auto simp del: unat_u32_less)
  then have u: "unat (va + 1) = unat va + 1" by (simp add: unat_word_ariths)
  have "(unat va + 1) div 4096 = unat va div 4096" "(unat va + 1) mod 4096 = unat va mod 4096 + 1"
    using m by (auto simp: div_Suc mod_Suc)
  then show "fr (va + 1) = fr va" "unat (off (va + 1)) = unat (off va) + 1"
    using u by (simp_all add: frame_iff unat_off)
  then show "off (va + 1) = off va + 1"
    using assms by (simp add: word_unat_eq_iff unat_word_ariths)
qed

lemma walk_page:
  "fr a = fr b \<Longrightarrow> walk m pd a = map_option (\<lambda>f. fr f + off a) (walk m pd b)"
proof -
  assume "fr a = fr b"
  then have "pd_index a = pd_index b" "pt_index a = pt_index b" by (simp_all add: page_iff)
  moreover have "fr (fr f + off b) = fr f" for f
    using fr_or [of "off b" f] entry_bits(2) [of "off b" f] off_off [of b] by simp
  ultimately show ?thesis by (auto simp: walk_def Let_def)
qed

lemma walk_off: "walk m pd a = Some f \<Longrightarrow> off f = off a"
proof -
  assume "walk m pd a = Some f"
  then have "f = fr f + off a" using walk_page [of a a m pd] by simp
  then show ?thesis using fr_off [of f] by (metis add_left_cancel)
qed

text \<open>A page whose frame is neither a table nor free.\<close>

definition data_page :: "'a machine_scheme \<Rightarrow> u32 \<Rightarrow> bool" where
  "data_page s a \<longleftrightarrow> pd_index a < 1023 \<and>
     (\<exists>f. walk (phys s) (cr3 s) a = Some f \<and> fr f \<notin> tables (phys s) (cr3 s) \<and> fr f \<notin> set (free_frames s))"

text \<open>The byte at an address.\<close>

definition byte_at :: "'a machine_scheme \<Rightarrow> u32 \<Rightarrow> u8 option" where
  "byte_at s a = map_option (phys s) (walk (phys s) (cr3 s) a)"

lemma data_page_same: "fr a = fr b \<Longrightarrow> data_page s a \<longleftrightarrow> data_page s b"
proof -
  have "data_page s b" if "fr a = fr b" "data_page s a" for a b
  proof -
    from that obtain f where f: "walk (phys s) (cr3 s) a = Some f" "fr f \<notin> tables (phys s) (cr3 s)" "fr f \<notin> set (free_frames s)"
      "pd_index a < 1023" by (auto simp: data_page_def)
    have "walk (phys s) (cr3 s) b = Some (fr f + off b)" using walk_page [OF that(1) [symmetric]] f(1) by simp
    moreover have "fr (fr f + off b) = fr f"
      using fr_or [of "off b" f] entry_bits(2) [of "off b" f] off_off [of b] by simp
    ultimately show ?thesis using f that(1) page_iff [of a b] by (simp add: data_page_def)
  qed
  then show "fr a = fr b \<Longrightarrow> data_page s a \<longleftrightarrow> data_page s b" by metis
qed

lemma walk_next:
  assumes "walk m pd va = Some a" and "unat (off va) < 4095"
  shows "walk m pd (va + 1) = Some (a + 1)" and "fr (a + 1) = fr a"
proof -
  note st = page_step [OF assms(2)]
  have o: "off a = off va" using assms(1) by (rule walk_off)
  then have "fr (a + 1) = fr a" "off (a + 1) = off va + 1" using page_step [of a] assms(2) by simp_all
  moreover have "walk m pd (va + 1) = Some (fr a + off (va + 1))"
    using walk_page [OF st(1), of m pd] assms(1) by simp
  ultimately show "walk m pd (va + 1) = Some (a + 1)" "fr (a + 1) = fr a"
    using fr_off [of "a + 1"] st(3) by simp_all
qed

lemma vwrite_page:
  assumes "vm_inv s" and "pd_index va < 1023" and "walk (phys s) (cr3 s) va = Some a"
    and "fr a \<notin> tables (phys s) (cr3 s)" and "unat (off va) + length bs \<le> 4096"
  shows "\<exists>m'. vwrite va bs s = Inr (s\<lparr>phys := m'\<rparr>) \<and> (\<forall>k<length bs. m' (a + of_nat k) = bs ! k) \<and>
    (\<forall>x. (\<forall>k<length bs. x \<noteq> a + of_nat k) \<longrightarrow> m' x = phys s x) \<and> (\<forall>x. fr x \<noteq> fr a \<longrightarrow> m' x = phys s x)"
  using assms
proof (induction bs arbitrary: va a s)
  case Nil
  then show ?case by (intro exI [of _ "phys s"]) simp
next
  case (Cons b bs)
  define s1 where "s1 = s\<lparr>phys := (phys s)(a := b)\<rparr>"
  have st: "vstore8 va b s = Inr s1"
    using Cons.prems(1,3) by (simp add: vstore8_def translate_walk vm_inv_def s1_def)
  have ag: "((phys s)(a := b)) x = phys s x" if "fr x \<in> tables (phys s) (cr3 s)" for x
    using that Cons.prems(4) by auto
  have inv: "vm_inv s1" unfolding s1_def by (rule vm_agree [OF Cons.prems(1)]) (rule ag)
  have pt: "pt_inv (phys s) (cr3 s)" using Cons.prems(1) by (simp add: vm_inv_def)
  have A2: "tables ((phys s)(a := b)) (cr3 s) = tables (phys s) (cr3 s)"
    by (rule tables_agree(2) [OF pt]) (rule ag)
  have A3: "walk ((phys s)(a := b)) (cr3 s) x = walk (phys s) (cr3 s) x" if "pd_index x < 1023" for x
    by (rule tables_agree(3) [OF pt _ that]) (rule ag)
  show ?case
  proof (cases "bs = []")
    case True
    then show ?thesis using st by (intro exI [of _ "(phys s)(a := b)"]) (auto simp: s1_def fun_upd_def)
  next
    case False
    then have o: "unat (off va) < 4095" using Cons.prems(5) by (cases bs) auto
    note st1 = page_step [OF o] and w = walk_next [OF Cons.prems(3) o]
    have p: "pd_index (va + 1) < 1023" using st1(1) Cons.prems(2) by (simp add: page_iff)
    have "walk (phys s1) (cr3 s1) (va + 1) = Some (a + 1)"
      using A3 [OF p] w(1) by (simp add: s1_def)
    moreover have "fr (a + 1) \<notin> tables (phys s1) (cr3 s1)"
      using w(2) Cons.prems(4) A2 by (simp add: s1_def)
    moreover have "unat (off (va + 1)) + length bs \<le> 4096" using Cons.prems(5) st1(2) by simp
    ultimately obtain m' where m: "vwrite (va + 1) bs s1 = Inr (s1\<lparr>phys := m'\<rparr>)"
      "\<forall>k<length bs. m' (a + 1 + of_nat k) = bs ! k" "\<forall>x. (\<forall>k<length bs. x \<noteq> a + 1 + of_nat k) \<longrightarrow> m' x = phys s1 x"
      "\<forall>x. fr x \<noteq> fr (a + 1) \<longrightarrow> m' x = phys s1 x"
      using Cons.IH [OF inv p] by blast
    have "m' a = b"
    proof -
      have "a \<noteq> a + 1 + of_nat k" if "k < length bs" for k
      proof -
        have "k < 4096" using that Cons.prems(5) by simp
        then have "unat (1 + of_nat k :: u32) = 1 + k" by (simp add: unat_word_ariths unat_of_nat_u32)
        then have "(1 + of_nat k :: u32) \<noteq> 0" by (metis add_is_0 one_neq_zero unat_0)
        then show ?thesis by (metis add.assoc add_cancel_right_right)
      qed
      then show ?thesis using m(3) by (simp add: s1_def)
    qed
    then have "m' (a + of_nat k) = (b # bs) ! k" if "k < Suc (length bs)" for k
      using that m(2) by (cases k) (auto simp: add.assoc)
    moreover have "m' x = phys s x" if x: "\<forall>k<Suc (length bs). x \<noteq> a + of_nat k" for x
    proof -
      have "x \<noteq> a + 1 + of_nat k" if "k < length bs" for k
        using x [rule_format, of "Suc k"] that by (simp add: add.assoc)
      moreover have "x \<noteq> a" using x [rule_format, of 0] by simp
      ultimately show ?thesis using m(3) by (simp add: s1_def)
    qed
    moreover have "m' x = phys s x" if "fr x \<noteq> fr a" for x
      using that m(4) w(2) by (auto simp: s1_def)
    ultimately show ?thesis using st m(1) by (intro exI [of _ m']) (simp add: s1_def)
  qed
qed

section \<open>Allocating a page\<close>

text \<open>Addresses in \<open>A\<close> keep their translation, and data pages among them their contents.\<close>

definition keeps :: "(u32 \<Rightarrow> bool) \<Rightarrow> 'a machine_scheme \<Rightarrow> 'a machine_scheme \<Rightarrow> bool" where
  "keeps A s s' \<longleftrightarrow> (\<forall>a. pd_index a < 1023 \<longrightarrow> A a \<longrightarrow> walk (phys s') (cr3 s') a = walk (phys s) (cr3 s) a \<and>
     (data_page s a \<longrightarrow> data_page s' a \<and> byte_at s' a = byte_at s a))"

lemma keeps_refl: "keeps A s s" by (simp add: keeps_def)

lemma keeps_trans: "keeps A s t \<Longrightarrow> keeps B t u \<Longrightarrow> (\<And>a. C a \<Longrightarrow> A a \<and> B a) \<Longrightarrow> keeps C s u"
  unfolding keeps_def by metis

lemma keepsD: "keeps A s s' \<Longrightarrow> A a \<Longrightarrow> data_page s a \<Longrightarrow> data_page s' a \<and> byte_at s' a = byte_at s a"
  unfolding keeps_def data_page_def by blast

text \<open>The effect of \<open>paging_alloc_page\<close>.\<close>

definition alloc_step :: "'a machine_scheme \<Rightarrow> u32 \<Rightarrow> 'a machine_scheme \<Rightarrow> bool" where
  "alloc_step s va s' \<longleftrightarrow> vm_inv s' \<and> s' = s\<lparr>phys := phys s', page_frame_count := page_frame_count s'\<rparr> \<and>
     keeps (\<lambda>a. fr a \<noteq> fr va) s s' \<and>
     (\<forall>a. fr a = fr va \<longrightarrow> data_page s' a \<and> (\<exists>f. walk (phys s') (cr3 s) a = Some f \<and> fr f \<in> set (free_frames s))) \<and>
     tables (phys s') (cr3 s) \<union> set (free_frames s') \<subseteq> tables (phys s) (cr3 s) \<union> set (free_frames s) \<and>
     set (free_frames s') \<subseteq> set (free_frames s) \<and> length (free_frames s) \<le> length (free_frames s') + 2 \<and>
     (\<forall>x. fr x \<notin> tables (phys s) (cr3 s) \<longrightarrow> fr x \<notin> set (free_frames s) \<longrightarrow> phys s' x = phys s x)"

lemma alloc_page_ok:
  assumes inv: "vm_inv s" and p: "pd_index va < 1023" and va: "fr va \<noteq> cr3 s" and ff: "2 \<le> length (free_frames s)"
  obtains s' where "paging_alloc_page va s = Inr s'" and "alloc_step s va s'"
proof -
  let ?f = "last (free_frames s)" and ?s = "s\<lparr>page_frame_count := page_frame_count s - 1\<rparr>"
  have ne: "free_frames s \<noteq> []" using ff by auto
  note al = pfa_alloc_last [OF inv ne]
  have d: "distinct (butlast (free_frames s) @ [?f])" using inv ne by (simp add: vm_inv_def)
  have "0 \<le> page_frame_count s - 1"
    using ne inv by (cases "page_frame_count s = 0") (auto simp: vm_inv_def free_frames_def)
  then have inv1: "vm_inv ?s"
    using inv al(2) d by (auto simp: vm_inv_def dest: in_set_butlastD)
  have "length (free_frames ?s) = length (free_frames s) - 1" using al(2) by (metis length_butlast)
  then have fits: "present (pde (phys ?s) (cr3 ?s) (pd_index va)) \<or> free_frames ?s \<noteq> []" using ff by auto
  have va': "fr va \<noteq> cr3 ?s" using va by simp
  obtain s' where s': "paging_map_page va ?f 7 ?s = Inr s'" "map_step ?s va ?f s'"
    by (rule map_page_ok [OF inv1 p va' fits])
  note M = s'(2) [unfolded map_step_def]
  have c: "s' = s\<lparr>phys := phys s', page_frame_count := page_frame_count s'\<rparr>"
    using M [THEN conjunct1] by (rule trans) (cases s, simp)
  have cr: "cr3 s' = cr3 s" by (subst c) simp
  have sub: "tables (phys s') (cr3 s) \<union> set (free_frames s') \<subseteq> tables (phys s) (cr3 s) \<union> set (butlast (free_frames s))"
    using M al(2) by simp
  have nb: "?f \<notin> set (butlast (free_frames s))" using d unfolding distinct_append by simp
  have f: "?f \<notin> tables (phys s) (cr3 s)" "fr ?f = ?f"
    using inv ne by (auto simp: vm_inv_def)
  have nf: "?f \<notin> tables (phys s') (cr3 s) \<union> set (free_frames s')" using sub nb f(1) by blast
  have sub2: "tables (phys s') (cr3 s) \<union> set (free_frames s') \<subseteq> tables (phys s) (cr3 s) \<union> set (free_frames s)"
    using sub by (auto dest: in_set_butlastD)
  have W: "walk (phys s') (cr3 s) a = (if fr a = fr va then Some (?f + off a) else walk (phys s) (cr3 s) a)" if "pd_index a < 1023" for a
    using M that f(2) by simp
  have fo: "fr (?f + off a) = ?f" for a
    using fr_or [of "off a" ?f] entry_bits(2) [of "off a" ?f] off_off [of a] f(2) by simp
  have pa: "pd_index a < 1023" if "fr a = fr va" for a using that p by (simp add: page_iff)
  have "data_page s' a" if "fr a = fr va" for a
    using W [OF pa [OF that]] pa [OF that] that nf cr fo by (simp add: data_page_def)
  moreover have "\<exists>f. walk (phys s') (cr3 s) a = Some f \<and> fr f \<in> set (free_frames s)" if "fr a = fr va" for a
    using W [OF pa [OF that]] that fo ne by simp
  moreover have "phys s' x = phys s x" if "fr x \<notin> tables (phys s) (cr3 s)" "fr x \<notin> set (free_frames s)" for x
    using M that sub2 by auto
  moreover have "set (free_frames s') \<subseteq> set (free_frames s)"
    using M al(2) by (auto dest: in_set_butlastD)
  moreover have "keeps (\<lambda>a. fr a \<noteq> fr va) s s'"
    using W M sub2 cr unfolding keeps_def data_page_def byte_at_def by (auto split: if_splits)
  moreover have "length (free_frames s) \<le> length (free_frames s') + 2"
    using M \<open>length (free_frames ?s) = length (free_frames s) - 1\<close> by linarith
  ultimately have "alloc_step s va s'"
    using M c sub2 unfolding alloc_step_def by blast
  then show ?thesis
    using that [of s'] s'(1) al(1) by (simp add: paging_alloc_page_def)
qed

section \<open>The property\<close>

text \<open>
  C7. \<open>paging_map_page\<close> maps exactly one page. Where the page tables are in order and a frame is free in case the
  address has no page table yet, it returns with the tables in order; every address of the page then translates to
  the given frame, every other address below the window of the tables translates as before, also when a page table was
  added, and no byte outside the tables has changed.
\<close>

theorem paging_map_page_correct:
  assumes "vm_inv s" and "pd_index va < 1023" and "fr va \<noteq> cr3 s"
    and "present (pde (phys s) (cr3 s) (pd_index va)) \<or> free_frames s \<noteq> []"
  shows "\<exists>s'. paging_map_page va frame flags s = Inr s' \<and> vm_inv s' \<and>
    (\<forall>a. pd_index a < 1023 \<longrightarrow> translate s' a = (if fr a = fr va then Some (fr frame + off a) else translate s a)) \<and>
    (\<forall>x. fr x \<notin> tables (phys s') (cr3 s') \<longrightarrow> phys s' x = phys s x)"
proof -
  obtain s' where s': "paging_map_page va frame flags s = Inr s'" "map_step s va frame s'"
    by (rule map_page_ok [OF assms])
  note M = s'(2) [unfolded map_step_def]
  have "cr3 s' = cr3 s" by (subst M [THEN conjunct1]) simp
  moreover have "paging s'" "paging s" using M assms(1) by (auto simp: vm_inv_def)
  ultimately show ?thesis
    using s'(1) M by (auto simp: translate_walk)
qed

text \<open>A directory at 0x1000, one page table at 0x2000 that maps the directory, and one free frame.\<close>

definition demo_tables :: mem where
  "demo_tables = store32 (store32 (store32 (\<lambda>_. 0) (entry 0x1000 0) 0x2003) (entry 0x1000 1023) 0x1003) (entry 0x2000 1) 0x1003"

definition demo_machine :: machine where
  "demo_machine = \<lparr>phys = demo_tables, cr3 = 0x1000, paging = True, page_frames = [0x3000], page_frame_count = 1, serial_log = []\<rparr>"

lemma demo_pde: "i < 1024 \<Longrightarrow> pde demo_tables 0x1000 i = (if i = 0 then 0x2003 else if i = 1023 then 0x1003 else 0)"
proof -
  assume i: "i < 1024"
  have a: "apart (entry 0x1000 0) (entry 0x1000 i)" if "i \<noteq> 0" using that i by (intro entry_apart) simp_all
  have b: "apart (entry 0x1000 1023) (entry 0x1000 i)" if "i \<noteq> 1023" using that i by (intro entry_apart) simp_all
  have c: "apart (entry 0x2000 1) (entry 0x1000 i)" using i by (intro entry_apart) simp_all
  have "load32 (\<lambda>_. 0) x = 0" for x by (simp add: load32_def)
  then show ?thesis
    using a b c unfolding pde_def demo_tables_def by auto
qed

lemma demo_vm: "vm_inv demo_machine"
proof -
  have "load32 demo_tables (entry 0x2003 1) = 0x1003"
    unfolding demo_tables_def by (simp add: entry_def)
  then have "walk demo_tables 0x1000 0x1000 = Some 0x1000"
    by (simp add: walk_def Let_def pd_index_def pt_index_def demo_pde present_def)
  then have "pt_inv demo_tables 0x1000"
    by (auto simp: pt_inv_def demo_pde below_1023 present_def pd_index_def)
  then show ?thesis
    by (auto simp: vm_inv_def demo_machine_def free_frames_def tables_def demo_pde below_1023 present_def split: if_splits)
qed

theorem paging_map_page_correct_witness:
  "\<exists>s'. paging_map_page 0x400000 0x5000 7 demo_machine = Inr s' \<and> translate s' 0x400123 = Some 0x5123"
proof -
  have "pd_index 0x400000 < 1023" "pd_index 0x400123 < 1023" by (simp_all add: pd_index_def)
  then show ?thesis
    using paging_map_page_correct [OF demo_vm, of "0x400000" "0x5000" 7]
    by (force simp: demo_machine_def free_frames_def)
qed

end
