(* ===== verification/Sros_Elf.thy ===== *)
theory Sros_Elf
  imports Sros_Ipc Sros_Sfs
begin

unbundle bit_operations_syntax

text \<open>
  Loading a program (\<open>src/kernel/elf_loader.c\<close>, \<open>src/include/elf.h\<close>): the file is read through the file
  system, its segments are placed in newly mapped pages, and the registers saved by the system call are
  changed so that the return from the interrupt enters the program. \<open>regs\<close> is the address of the saved
  registers on the kernel stack.
\<close>

section \<open>Headers\<close>

definition ELF_MAGIC0 :: u8 where "ELF_MAGIC0 = 0x7F"
definition ELF_MAGIC1 :: u8 where "ELF_MAGIC1 = of_char CHR ''E''"
definition ELF_MAGIC2 :: u8 where "ELF_MAGIC2 = of_char CHR ''L''"
definition ELF_MAGIC3 :: u8 where "ELF_MAGIC3 = of_char CHR ''F''"
definition EI_NIDENT :: nat where "EI_NIDENT = 16"
definition EI_MAG0 :: nat where "EI_MAG0 = 0"
definition EI_MAG1 :: nat where "EI_MAG1 = 1"
definition EI_MAG2 :: nat where "EI_MAG2 = 2"
definition EI_MAG3 :: nat where "EI_MAG3 = 3"
definition EI_CLASS :: nat where "EI_CLASS = 4"
definition EI_DATA :: nat where "EI_DATA = 5"
definition ELFCLASS32 :: u8 where "ELFCLASS32 = 1"
definition ELFDATA2LSB :: u8 where "ELFDATA2LSB = 1"
definition ET_EXEC :: u16 where "ET_EXEC = 2"
definition EM_386 :: u16 where "EM_386 = 3"
definition PT_LOAD :: u32 where "PT_LOAD = 1"

lemmas elf_consts = ELF_MAGIC0_def ELF_MAGIC1_def ELF_MAGIC2_def ELF_MAGIC3_def EI_NIDENT_def EI_MAG0_def EI_MAG1_def
  EI_MAG2_def EI_MAG3_def EI_CLASS_def EI_DATA_def ELFCLASS32_def ELFDATA2LSB_def ET_EXEC_def EM_386_def PT_LOAD_def

record Elf32_Ehdr =
  e_ident :: "u8 list"
  e_type :: u16
  e_machine :: u16
  e_version :: u32
  e_entry :: u32
  e_phoff :: u32
  e_shoff :: u32
  e_flags :: u32
  e_ehsize :: u16
  e_phentsize :: u16
  e_phnum :: u16
  e_shentsize :: u16
  e_shnum :: u16
  e_shstrndx :: u16

record Elf32_Phdr =
  p_type :: u32
  p_offset :: u32
  p_vaddr :: u32
  p_paddr :: u32
  p_filesz :: u32
  p_memsz :: u32
  p_flags :: u32
  p_align :: u32

definition sizeof_Elf32_Ehdr :: nat where "sizeof_Elf32_Ehdr = 52"
definition sizeof_Elf32_Phdr :: nat where "sizeof_Elf32_Phdr = 32"

definition get16 :: "nat \<Rightarrow> u8 list \<Rightarrow> u16" where
  "get16 off bs = ucast (bs ! off) OR push_bit 8 (ucast (bs ! (off + 1)))"

text \<open>The packed structs as the bytes of the file give them.\<close>

definition bytes_ehdr :: "u8 list \<Rightarrow> Elf32_Ehdr" where
  "bytes_ehdr bs =
     \<lparr>e_ident = take EI_NIDENT bs, e_type = get16 16 bs, e_machine = get16 18 bs, e_version = get32 20 bs, e_entry = get32 24 bs,
      e_phoff = get32 28 bs, e_shoff = get32 32 bs, e_flags = get32 36 bs, e_ehsize = get16 40 bs, e_phentsize = get16 42 bs,
      e_phnum = get16 44 bs, e_shentsize = get16 46 bs, e_shnum = get16 48 bs, e_shstrndx = get16 50 bs\<rparr>"

definition bytes_phdr :: "u8 list \<Rightarrow> Elf32_Phdr" where
  "bytes_phdr bs =
     \<lparr>p_type = get32 0 bs, p_offset = get32 4 bs, p_vaddr = get32 8 bs, p_paddr = get32 12 bs, p_filesz = get32 16 bs,
      p_memsz = get32 20 bs, p_flags = get32 24 bs, p_align = get32 28 bs\<rparr>"

definition elf_check_file :: "Elf32_Ehdr \<Rightarrow> bool" where
  "elf_check_file h \<longleftrightarrow>
     e_ident h ! EI_MAG0 = ELF_MAGIC0 \<and> e_ident h ! EI_MAG1 = ELF_MAGIC1 \<and> e_ident h ! EI_MAG2 = ELF_MAGIC2 \<and>
     e_ident h ! EI_MAG3 = ELF_MAGIC3 \<and> e_ident h ! EI_CLASS = ELFCLASS32 \<and> e_ident h ! EI_DATA = ELFDATA2LSB \<and>
     e_type h = ET_EXEC \<and> e_machine h = EM_386 \<and> e_phnum h \<noteq> 0"

section \<open>Loading\<close>

record loader = machine +
  pfs :: sfs

definition USER_STACK_PAGES :: nat where "USER_STACK_PAGES = 4"

definition read_file_at :: "device \<Rightarrow> u32 \<Rightarrow> u8 list \<Rightarrow> u32 \<Rightarrow> u32 \<Rightarrow> loader \<Rightarrow> (int \<times> u8 list \<times> loader) kres" where
  "read_file_at dev ino buf sz offset s =
     (case sfs_read_inode dev ino (pfs s) of
        (None, f) \<Rightarrow> Inr (-1, buf, s\<lparr>pfs := f\<rparr>)
      | (Some inode, f) \<Rightarrow>
          bind_res (sfs_read_file dev inode buf sz offset f) (\<lambda>(n, buf, f). Inr (sint n, buf, s\<lparr>pfs := f\<rparr>)))"

text \<open>The part of a segment that lies on the page of \<open>va\<close>.\<close>

definition page_part :: "u32 \<Rightarrow> u32 \<Rightarrow> u32" where
  "page_part va remain = (let to_read = 4096 - (va AND 0xFFF) in if to_read > remain then remain else to_read)"

lemma page_part_bounds:
  assumes "0 < remain"
  shows "0 < page_part va remain" and "page_part va remain \<le> remain"
    and "unat (va AND 0xFFF) + unat (page_part va remain) \<le> 4096"
proof -
  have "va AND 0xFFF \<le> 0xFFF" by (rule word_and_le1)
  then have m: "unat (va AND 0xFFF) \<le> 4095" by (simp add: word_le_nat_alt)
  then have "unat (4096 - (va AND 0xFFF)) = 4096 - unat (va AND 0xFFF)"
    by (simp add: unat_sub_if')
  then show "0 < page_part va remain" "page_part va remain \<le> remain" "unat (va AND 0xFFF) + unat (page_part va remain) \<le> 4096"
    using m assms by (auto simp: page_part_def Let_def word_less_nat_alt word_le_nat_alt)
qed

lemma page_part_decreases: "0 < remain \<Longrightarrow> unat (remain - page_part va remain) < unat remain"
  using page_part_bounds [of remain va] by (simp add: unat_sub word_less_nat_alt word_le_nat_alt)

function load_file :: "device \<Rightarrow> u32 \<Rightarrow> u32 \<Rightarrow> u32 \<Rightarrow> u32 \<Rightarrow> loader \<Rightarrow> (int \<times> loader) kres" where
  "load_file dev ino va remain offset s =
     (if 0 < remain
      then
       (let to_read = page_part va remain in
        bind_res (paging_alloc_page (va AND 0xFFFFF000) s) (\<lambda>s.
        bind_res (read_file_at dev ino (replicate 4096 0) to_read offset s) (\<lambda>(n, buf, s).
          if n < 0 then Inr (-1, s)
          else bind_res (vwrite ((va AND 0xFFFFF000) + (va AND 0xFFF)) (take (unat to_read) buf) s)
                 (load_file dev ino (va + to_read) (remain - to_read) (offset + to_read)))))
      else Inr (0, s))"
  by pat_completeness auto
termination
  by (relation "measure (\<lambda>(dev, ino, va, remain, offset, s). unat remain)") (auto simp: page_part_decreases)

declare load_file.simps [simp del]

definition page_mapped :: "u32 \<Rightarrow> loader \<Rightarrow> bool kres" where
  "page_mapped va s =
     (let pd_idx = drop_bit 22 va; pt_idx = drop_bit 12 va AND 0x3FF in
      bind_res (vload32 (cr3 s + pd_idx * 4) s) (\<lambda>pde.
        if pde AND 0x01 = 0 then Inr False
        else bind_res (vload32 (0xFFC00000 + pd_idx * 4096 + pt_idx * 4) s) (\<lambda>pte. Inr (pte AND 0x01 \<noteq> 0))))"

function zero_bss :: "u32 \<Rightarrow> u32 \<Rightarrow> loader \<Rightarrow> loader kres" where
  "zero_bss va remain s =
     (if 0 < remain
      then
       bind_res (page_mapped va s) (\<lambda>present.
       bind_res (if present then Inr s else paging_alloc_page (va AND 0xFFFFF000) s) (\<lambda>s.
         (let to_zero = page_part va remain in
          bind_res (vwrite ((va AND 0xFFFFF000) + (va AND 0xFFF)) (replicate (unat to_zero) 0) s)
            (zero_bss (va + to_zero) (remain - to_zero)))))
      else Inr s)"
  by pat_completeness auto
termination
  by (relation "measure (\<lambda>(va, remain, s). unat remain)") (auto simp: page_part_decreases)

declare zero_bss.simps [simp del]

definition load_segment :: "device \<Rightarrow> u32 \<Rightarrow> u32 \<Rightarrow> u32 \<Rightarrow> u32 \<Rightarrow> u32 \<Rightarrow> loader \<Rightarrow> (int \<times> loader) kres" where
  "load_segment dev ino virt_addr offset filesz memsz s =
     bind_res (load_file dev ino virt_addr filesz offset s) (\<lambda>(r, s).
       if r < 0 then Inr (-1, s)
       else bind_res (zero_bss (virt_addr + filesz) (memsz - filesz) s) (\<lambda>s. Inr (0, s)))"

definition setup_user_stack :: "loader \<Rightarrow> loader kres" where
  "setup_user_stack s =
     fold_res (\<lambda>i. paging_alloc_page (USER_STACK_VADDR - (of_nat i + 1) * 0x1000)) [0..<USER_STACK_PAGES] s"

text \<open>The loop over the program headers.\<close>

fun load_phdrs :: "device \<Rightarrow> u32 \<Rightarrow> Elf32_Ehdr \<Rightarrow> nat list \<Rightarrow> loader \<Rightarrow> (int \<times> loader) kres" where
  "load_phdrs dev ino h [] s = Inr (0, s)"
| "load_phdrs dev ino h (i # is) s =
     bind_res (read_file_at dev ino (replicate sizeof_Elf32_Phdr 0) (of_nat sizeof_Elf32_Phdr)
                 (e_phoff h + of_nat i * of_nat sizeof_Elf32_Phdr) s) (\<lambda>(n, buf, s).
       if n < int sizeof_Elf32_Phdr then Inr (-1, klogln ''[elf] Failed to read phdr %d'' [AInt (of_nat i)] s)
       else
        (let ph = bytes_phdr buf in
         if p_type ph \<noteq> PT_LOAD then load_phdrs dev ino h is s
         else
          (let s = klogln ''[elf]  LOAD: vaddr=0x%x, filesz=%d, memsz=%d, flags=0x%x''
                     [AInt (p_vaddr ph), AInt (p_filesz ph), AInt (p_memsz ph), AInt (p_flags ph)] s
           in bind_res (load_segment dev ino (p_vaddr ph) (p_offset ph) (p_filesz ph) (p_memsz ph) s) (\<lambda>(r, s).
                if r < 0 then Inr (-1, klogln ''[elf] Failed to load segment %d'' [AInt (of_nat i)] s)
                else load_phdrs dev ino h is s))))"

definition R_edi :: u32 where "R_edi = 16"
definition R_esi :: u32 where "R_esi = 20"
definition R_ebp :: u32 where "R_ebp = 24"
definition R_ebx :: u32 where "R_ebx = 32"
definition R_edx :: u32 where "R_edx = 36"
definition R_ecx :: u32 where "R_ecx = 40"

definition enter_program :: "u32 \<Rightarrow> u32 \<Rightarrow> loader \<Rightarrow> loader kres" where
  "enter_program regs entry s =
     bind_res (vstore32 (regs + R_eip) entry s) (\<lambda>s.
     bind_res (vstore32 (regs + R_user_esp) USER_STACK_VADDR s) (\<lambda>s.
     bind_res (vload32 (regs + R_eflags) s) (\<lambda>fl.
     bind_res (vstore32 (regs + R_eflags) (fl OR 0x200) s)
       (fold_res (\<lambda>r. vstore32 (regs + r) 0) [R_eax, R_ebx, R_ecx, R_edx, R_esi, R_edi, R_ebp]))))"

text \<open>\<open>path\<close> is the text of the C string.\<close>

definition elf_load_and_exec :: "device \<Rightarrow> u8 list \<Rightarrow> u32 \<Rightarrow> loader \<Rightarrow> (int \<times> loader) kres" where
  "elf_load_and_exec dev path regs s =
       (let ptext = map (\<lambda>c. char_of (unat c)) path;
            s = klogln ''[elf] Loading: %s'' [AStr ptext] s;
            name = dropWhile (\<lambda>c. c = of_char CHR ''/'') path
        in if name = [] then Inr (-1, s)
           else
            bind_res (sfs_lookup dev ROOT_INO name (pfs s)) (\<lambda>(ino, f).
              (let s = s\<lparr>pfs := f\<rparr> in
               if ino < 0 then Inr (-1, klogln ''[elf] File not found: %s'' [AStr ptext] s)
               else
                bind_res (read_file_at dev (of_int ino) (replicate sizeof_Elf32_Ehdr 0) (of_nat sizeof_Elf32_Ehdr) 0 s) (\<lambda>(n, buf, s).
                  (let h = bytes_ehdr buf in
                   if n < int sizeof_Elf32_Ehdr then Inr (-1, klogln ''[elf] Failed to read ELF header'' [] s)
                   else if \<not> elf_check_file h then Inr (-1, klogln ''[elf] Invalid ELF file'' [] s)
                   else
                    (let s = klogln ''[elf] Entry=0x%x, phoff=%d, phnum=%d'' [AInt (e_entry h), AInt (e_phoff h), AInt (ucast (e_phnum h))] s
                     in bind_res (load_phdrs dev (of_int ino) h [0..<unat (e_phnum h)] s) (\<lambda>(r, s).
                          if r < 0 then Inr (-1, s)
                          else
                           bind_res (setup_user_stack s) (\<lambda>s.
                           bind_res (enter_program regs (e_entry h) s) (\<lambda>s.
                             Inr (0, klogln ''[elf] Executing at 0x%x, stack=0x%x'' [AInt (e_entry h), AInt USER_STACK_VADDR] s))))))))))"

end
