(* ===== verification/Sros_Elf_Props.thy ===== *)
theory Sros_Elf_Props
  imports Sros_Elf Sros_Vm Sros_Sfs_File
begin

unbundle bit_operations_syntax

text \<open>
  Loading a segment puts the bytes of the file and then zeros at the addresses of the segment. \<open>seg_inv\<close> relates the
  state to the one before the load: \<open>P\<close> is the set of pages of the segment that are mapped by now, each to a frame of its
  own that was free before; all other pages, and all memory but page tables and formerly free frames, are as they were.
\<close>

section \<open>The invariant\<close>

definition seg_inv :: "'a machine_scheme \<Rightarrow> u32 set \<Rightarrow> 'b machine_scheme \<Rightarrow> bool" where
  "seg_inv s0 P s \<longleftrightarrow> vm_inv s \<and> cr3 s = cr3 s0 \<and> set (free_frames s) \<subseteq> set (free_frames s0) \<and>
     tables (phys s) (cr3 s) \<subseteq> tables (phys s0) (cr3 s0) \<union> set (free_frames s0) \<and>
     (\<forall>x. fr x \<notin> tables (phys s0) (cr3 s0) \<longrightarrow> fr x \<notin> set (free_frames s0) \<longrightarrow> phys s x = phys s0 x) \<and>
     (\<forall>a. pd_index a < 1023 \<longrightarrow> fr a \<notin> P \<longrightarrow> walk (phys s) (cr3 s) a = walk (phys s0) (cr3 s0) a) \<and>
     (\<forall>a. fr a \<in> P \<longrightarrow> data_page s a \<and> (\<exists>f. walk (phys s) (cr3 s) a = Some f \<and> fr f \<in> set (free_frames s0))) \<and>
     (\<forall>a b f g. fr a \<in> P \<longrightarrow> fr b \<in> P \<longrightarrow> walk (phys s) (cr3 s) a = Some f \<longrightarrow> walk (phys s) (cr3 s) b = Some g \<longrightarrow>
        fr f = fr g \<longrightarrow> fr a = fr b)"

lemma seg_invD:
  assumes "seg_inv s0 P s"
  shows "vm_inv s" "cr3 s = cr3 s0" "set (free_frames s) \<subseteq> set (free_frames s0)"
    "tables (phys s) (cr3 s) \<subseteq> tables (phys s0) (cr3 s0) \<union> set (free_frames s0)"
    "\<And>x. fr x \<notin> tables (phys s0) (cr3 s0) \<Longrightarrow> fr x \<notin> set (free_frames s0) \<Longrightarrow> phys s x = phys s0 x"
    "\<And>a. pd_index a < 1023 \<Longrightarrow> fr a \<notin> P \<Longrightarrow> walk (phys s) (cr3 s) a = walk (phys s0) (cr3 s0) a"
    "\<And>a. fr a \<in> P \<Longrightarrow> data_page s a"
    "\<And>a. fr a \<in> P \<Longrightarrow> \<exists>f. walk (phys s) (cr3 s) a = Some f \<and> fr f \<in> set (free_frames s0)"
    "\<And>a b f g. fr a \<in> P \<Longrightarrow> fr b \<in> P \<Longrightarrow> walk (phys s) (cr3 s) a = Some f \<Longrightarrow> walk (phys s) (cr3 s) b = Some g \<Longrightarrow>
      fr f = fr g \<Longrightarrow> fr a = fr b"
  using assms unfolding seg_inv_def by blast+

lemma seg_inv_start: "vm_inv s \<Longrightarrow> seg_inv s {} s"
  by (simp add: seg_inv_def)

lemma seg_inv_pfs [simp]: "seg_inv s0 P (s\<lparr>pfs := f\<rparr>) = seg_inv s0 P s" "byte_at (s\<lparr>pfs := f\<rparr>) a = byte_at s a"
  "free_frames (s\<lparr>pfs := f\<rparr>) = free_frames s"
  by (simp_all add: seg_inv_def vm_inv_def data_page_def byte_at_def free_frames_def)

lemma seg_alloc:
  fixes s :: loader
  assumes inv: "seg_inv s0 P s" and p: "pd_index va < 1023" and va: "fr va \<noteq> cr3 s0" "fr va \<notin> P" and ff: "2 \<le> length (free_frames s)"
  obtains s' where "paging_alloc_page (fr va) s = Inr s'" and "seg_inv s0 (insert (fr va) P) s'" and "pfs s' = pfs s"
    and "\<And>a. fr a \<in> P \<Longrightarrow> byte_at s' a = byte_at s a" and "length (free_frames s) \<le> length (free_frames s') + 2"
proof -
  note I = seg_invD [OF inv]
  have p': "pd_index (fr va) < 1023" using p page_iff [of "fr va" va] by simp
  have c: "fr (fr va) \<noteq> cr3 s" using va(1) I(2) by simp
  obtain s' where al: "paging_alloc_page (fr va) s = Inr s'" "alloc_step s (fr va) s'"
    by (rule alloc_page_ok [OF I(1) p' c ff])
  note A = al(2) [unfolded alloc_step_def]
  have s': "vm_inv s'" "s' = s\<lparr>phys := phys s', page_frame_count := page_frame_count s'\<rparr>"
    "keeps (\<lambda>a. fr a \<noteq> fr va) s s'" "tables (phys s') (cr3 s) \<union> set (free_frames s') \<subseteq> tables (phys s) (cr3 s) \<union> set (free_frames s)"
    "set (free_frames s') \<subseteq> set (free_frames s)" "length (free_frames s) \<le> length (free_frames s') + 2"
    using A by (blast | simp)+
  have dp: "data_page s' a" "\<exists>f. walk (phys s') (cr3 s) a = Some f \<and> fr f \<in> set (free_frames s)" if "fr a = fr va" for a
    using A that by (auto simp: and.assoc)
  have same: "phys s' x = phys s x" if "fr x \<notin> tables (phys s) (cr3 s)" "fr x \<notin> set (free_frames s)" for x
    using A that by blast
  have cr: "cr3 s' = cr3 s" by (subst s'(2)) simp
  have old: "data_page s a \<and> fr a \<noteq> fr va" if "fr a \<in> P" for a using I(7) [OF that] that va(2) by auto
  have W: "walk (phys s') (cr3 s) a = walk (phys s) (cr3 s) a" if "pd_index a < 1023" "fr a \<noteq> fr va" for a
    using s'(3) that cr by (simp add: keeps_def)
  have new: "fr f \<noteq> fr g" if "fr a \<in> P" "walk (phys s) (cr3 s) a = Some f" "fr b = fr va" "walk (phys s') (cr3 s) b = Some g" for a b f g
    using old [OF that(1)] that(2,4) dp(2) [of b] that(3) by (auto simp: data_page_def)
  have PP: "pd_index a < 1023" if "fr a \<in> P" for a using old [OF that] by (simp add: data_page_def)
  have "seg_inv s0 (insert (fr va) P) s'"
    unfolding seg_inv_def
  proof (intro conjI allI impI)
    show "vm_inv s'" "cr3 s' = cr3 s0" "set (free_frames s') \<subseteq> set (free_frames s0)" using s'(1,5) cr I(2,3) by auto
    show "tables (phys s') (cr3 s') \<subseteq> tables (phys s0) (cr3 s0) \<union> set (free_frames s0)" using cr s'(4) I(3,4) by fastforce
    show "phys s' x = phys s0 x" if "fr x \<notin> tables (phys s0) (cr3 s0)" "fr x \<notin> set (free_frames s0)" for x
      using that I(3,4) I(5) [of x] same [of x] by auto
    show "walk (phys s') (cr3 s') a = walk (phys s0) (cr3 s0) a" if "pd_index a < 1023" "fr a \<notin> insert (fr va) P" for a
      using that W [of a] I(6) [of a] cr by auto
    show "data_page s' a" if "fr a \<in> insert (fr va) P" for a
      using that dp(1) [of a] keepsD [OF s'(3), of a] old [of a] by auto
    show "\<exists>f. walk (phys s') (cr3 s') a = Some f \<and> fr f \<in> set (free_frames s0)" if "fr a \<in> insert (fr va) P" for a
      using that cr dp(2) [of a] W [of a] PP [of a] old [of a] I(3) I(8) [of a] by auto
    show "fr a = fr b" if "fr a \<in> insert (fr va) P" "fr b \<in> insert (fr va) P" "walk (phys s') (cr3 s') a = Some f"
      "walk (phys s') (cr3 s') b = Some g" "fr f = fr g" for a b f g
    proof (cases "fr a = fr va"; cases "fr b = fr va")
      show ?thesis if "fr a \<noteq> fr va" "fr b \<noteq> fr va"
        using that \<open>fr a \<in> _\<close> \<open>fr b \<in> _\<close> \<open>walk _ _ a = _\<close> \<open>walk _ _ b = _\<close> \<open>fr f = fr g\<close> W [of a] W [of b] PP I(9) [of a b f g] cr by auto
    qed (use that new [of b g a f] new [of a f b g] W [of a] W [of b] PP cr in auto)
  qed
  moreover have "pfs s' = pfs s" by (subst s'(2)) simp
  moreover have "byte_at s' a = byte_at s a" if "fr a \<in> P" for a
    using keepsD [OF s'(3), of a] old [OF that] by simp
  ultimately show ?thesis using that al(1) s'(6) by blast
qed

lemma walk_add:
  assumes "walk m pd va = Some f" and "unat (off va) + k < 4096"
  shows "walk m pd (va + of_nat k) = Some (f + of_nat k) \<and> fr (va + of_nat k) = fr va \<and> unat (off (va + of_nat k)) = unat (off va) + k"
  using assms(2)
proof (induction k)
  case (Suc k)
  then have IH: "walk m pd (va + of_nat k) = Some (f + of_nat k)" "fr (va + of_nat k) = fr va" "unat (off (va + of_nat k)) = unat (off va) + k"
    by auto
  have o: "unat (off (va + of_nat k)) < 4095" using IH(3) Suc.prems by simp
  have e: "va + of_nat (Suc k) = va + of_nat k + 1" "f + of_nat (Suc k) = f + of_nat k + 1" by (simp_all add: add.assoc add.commute)
  show ?case
    unfolding e using walk_next(1) [OF IH(1) o] page_step(1,2) [OF o] IH(2,3) by simp
qed (use assms(1) in simp)

lemma walk_inj: "walk m pd a = Some f \<Longrightarrow> walk m pd b = Some f \<Longrightarrow> fr a = fr b \<Longrightarrow> a = b"
  using walk_off [of m pd a f] walk_off [of m pd b f] fr_off [of a] fr_off [of b] by metis

lemma seg_write:
  fixes s :: loader
  assumes inv: "seg_inv s0 P s" and va: "fr va \<in> P" and len: "unat (off va) + length bs \<le> 4096"
  obtains s' where "vwrite va bs s = Inr s'" and "seg_inv s0 P s'" and "pfs s' = pfs s" and "free_frames s' = free_frames s"
    and "\<forall>k<length bs. byte_at s' (va + of_nat k) = Some (bs ! k)"
    and "\<forall>a. fr a \<in> P \<longrightarrow> (\<forall>k<length bs. a \<noteq> va + of_nat k) \<longrightarrow> byte_at s' a = byte_at s a"
proof -
  note I = seg_invD [OF inv]
  obtain f where f: "walk (phys s) (cr3 s) va = Some f" "fr f \<notin> tables (phys s) (cr3 s)" "fr f \<notin> set (free_frames s)" "pd_index va < 1023"
    using I(7) [OF va] by (auto simp: data_page_def)
  have f0: "fr f \<in> set (free_frames s0)" using I(8) [OF va] f(1) by auto
  obtain m' where m: "vwrite va bs s = Inr (s\<lparr>phys := m'\<rparr>)" "\<forall>k<length bs. m' (f + of_nat k) = bs ! k"
    "\<forall>x. (\<forall>k<length bs. x \<noteq> f + of_nat k) \<longrightarrow> m' x = phys s x" "\<forall>x. fr x \<noteq> fr f \<longrightarrow> m' x = phys s x"
    using vwrite_page [OF I(1) f(4,1,2) len] by blast
  let ?s = "s\<lparr>phys := m'\<rparr>"
  have pt: "pt_inv (phys s) (cr3 s)" using I(1) by (simp add: vm_inv_def)
  have ag: "m' x = phys s x" if "fr x \<in> tables (phys s) (cr3 s)" for x
    using that f(2) m(4) by metis
  have inv': "vm_inv ?s" by (rule vm_agree [OF I(1)]) (rule ag)
  have T: "tables m' (cr3 s) = tables (phys s) (cr3 s)" by (rule tables_agree(2) [OF pt]) (rule ag)
  have W: "walk m' (cr3 s) a = walk (phys s) (cr3 s) a" if "pd_index a < 1023" for a
    by (rule tables_agree(3) [OF pt _ that]) (rule ag)
  have F: "free_frames ?s = free_frames s" by (simp add: free_frames_def)
  have PP: "pd_index a < 1023" if "fr a \<in> P" for a using I(7) [OF that] by (simp add: data_page_def)
  have D: "data_page ?s a = data_page s a" for a
    by (auto simp: data_page_def W T F)
  have "seg_inv s0 P ?s"
    unfolding seg_inv_def
  proof (intro conjI allI impI)
    show "phys ?s x = phys s0 x" if "fr x \<notin> tables (phys s0) (cr3 s0)" "fr x \<notin> set (free_frames s0)" for x
      using I(5) [OF that] m(4) [rule_format, of x] f0 that(2) by (cases "fr x = fr f") auto
    show "fr a = fr b" if "fr a \<in> P" "fr b \<in> P" "walk (phys ?s) (cr3 ?s) a = Some g" "walk (phys ?s) (cr3 ?s) b = Some h" "fr g = fr h" for a b g h
      using I(9) [of a b g h] that PP W by simp
  qed (use inv' I(2,3,4,6,7,8) T W F D PP in \<open>simp_all\<close>)
  moreover have "byte_at ?s (va + of_nat k) = Some (bs ! k)" if "k < length bs" for k
  proof -
    have w: "walk (phys s) (cr3 s) (va + of_nat k) = Some (f + of_nat k)" "fr (va + of_nat k) = fr va"
      using walk_add [OF f(1), of k] that len by auto
    then show ?thesis using W [of "va + of_nat k"] m(2) that PP va by (simp add: byte_at_def)
  qed
  moreover have "byte_at ?s a = byte_at s a" if ap: "fr a \<in> P" and na: "\<forall>k<length bs. a \<noteq> va + of_nat k" for a
  proof -
    obtain g where g: "walk (phys s) (cr3 s) a = Some g" using I(8) [OF ap] by auto
    have "m' g = phys s g"
    proof (cases "fr g = fr f")
      case True
      then have "fr a = fr va" using I(9) [OF ap va g f(1)] by simp
      have "g \<noteq> f + of_nat k" if k: "k < length bs" for k
        using walk_inj [OF _ g, of "va + of_nat k"] walk_add [OF f(1), of k] k len na \<open>fr a = fr va\<close> by auto
      then show ?thesis using m(3) by blast
    qed (use m(4) in blast)
    then show ?thesis using W [OF PP [OF ap]] g by (simp add: byte_at_def)
  qed
  ultimately show ?thesis
    using that [of ?s] m(1) F by simp
qed

section \<open>Parts of a segment\<close>

text \<open>The pages of \<open>r\<close> bytes from an address, and their number.\<close>

definition pages :: "u32 \<Rightarrow> nat \<Rightarrow> u32 set" where
  "pages va r = {fr (va + of_nat k) | k. k < r}"

definition npages :: "u32 \<Rightarrow> nat \<Rightarrow> nat" where
  "npages va r = (if r = 0 then 0 else (unat (off va) + r + 4095) div 4096)"

lemma in_page: "unat (off va) + k < 4096 \<Longrightarrow> fr (va + of_nat k) = fr va"
proof (induction k)
  case (Suc k)
  have "unat (off va) + k < 4096" using Suc.prems by simp
  from Suc.IH [OF this] have IH: "fr (va + of_nat k) = fr va" .
  have v: "unat va mod 4096 + Suc k < 4096" using Suc.prems by (simp add: unat_off)
  then have "unat va + Suc k < 4294967296"
    using unat_u32_less [of va] mod_less_eq_dividend [of "unat va" 4096] div_mult_mod_eq [of "unat va" 4096] frames_bound [of va]
    by linarith
  then have "unat (va + of_nat (Suc k)) = unat va + Suc k"
    by (simp only: unat_word_ariths unat_of_nat_u32) (simp add: unat_of_nat_u32)
  moreover have "(unat va + Suc k) div 4096 = unat va div 4096"
    using v by (metis div_mult_mod_eq div_mult_self3 div_less add.assoc add_0_right zero_neq_numeral)
  ultimately show ?case by (simp only: frame_iff)
qed simp

lemma part_cases:
  assumes "0 < remain" and "unat va + unat remain \<le> 4290772992"
  defines "n \<equiv> page_part va remain"
  shows "unat (va + n) = unat va + unat n" and "unat (remain - n) = unat remain - unat n" and "unat n \<le> unat remain" and "0 < unat n"
    and "n = remain \<or> unat (off va) + unat n = 4096 \<and> unat (off (va + n)) = 0"
    and "unat (off va) + unat n \<le> 4096"
proof -
  note b = page_part_bounds [OF assms(1), of va]
  then show n: "unat n \<le> unat remain" "0 < unat n" "unat (off va) + unat n \<le> 4096"
    by (auto simp: n_def word_le_nat_alt word_less_nat_alt)
  show u: "unat (va + n) = unat va + unat n" using n assms(2) by (simp add: unat_word_ariths)
  show "unat (remain - n) = unat remain - unat n" using n by (simp add: unat_sub word_le_nat_alt)
  have o: "unat (off va) < 4096" by (simp add: unat_off)
  show "n = remain \<or> unat (off va) + unat n = 4096 \<and> unat (off (va + n)) = 0"
  proof (cases "n = remain")
    case False
    then have "n = 4096 - off va" by (auto simp: n_def page_part_def Let_def split: if_splits)
    then have a: "unat (off va) + unat n = 4096" using o by (simp add: unat_sub_if')
    have "unat va + unat n = unat va div 4096 * 4096 + (unat (off va) + unat n)" by (simp add: unat_off)
    then have "unat (off (va + n)) = 0" using a u by (simp add: unat_off [of "va + n"])
    then show ?thesis using a by simp
  qed simp
qed

lemma part_later: "va + n + of_nat k = va + of_nat (unat n + k)" for va n :: u32
  by (simp add: add.assoc)

lemma pagesI: "k < r \<Longrightarrow> fr (va + of_nat k) \<in> pages va r"
  unfolding pages_def by blast

lemma segment_pages:
  assumes "filesz \<le> memsz"
  shows "pages va (unat filesz) \<union> pages (va + filesz) (unat (memsz - filesz)) = pages va (unat memsz)"
proof -
  let ?g = "\<lambda>k. fr (va + of_nat k)"
  have s: "unat memsz = unat filesz + unat (memsz - filesz)"
    using assms by (simp add: unat_sub word_le_nat_alt)
  have e: "fr (va + filesz + of_nat k) = ?g (unat filesz + k)" for k
    by (simp only: part_later)
  have "pages va n = ?g ` {..<n}" for n by (auto simp: pages_def)
  moreover have "pages (va + filesz) n = ?g ` {unat filesz..<unat filesz + n}" for n
  proof -
    have "pages (va + filesz) n = (\<lambda>k. ?g (unat filesz + k)) ` {0..<n}" unfolding pages_def e by auto
    also have "\<dots> = ?g ` ((+) (unat filesz) ` {0..<n})" by (simp only: image_image)
    finally show ?thesis by (simp only: image_add_atLeastLessThan add_0_left add.commute)
  qed
  moreover have "{..<unat filesz} \<union> {unat filesz..<unat memsz} = {..<unat memsz}" using s by auto
  ultimately show ?thesis using s by (metis image_Un)
qed

lemma part_pages:
  assumes r: "0 < remain" and range: "unat va + unat remain \<le> 4290772992"
  defines "n \<equiv> page_part va remain"
  shows "pages va (unat remain) = insert (fr va) (pages (va + n) (unat (remain - n)))"
    and "npages va (unat remain) = Suc (npages (va + n) (unat (remain - n)))"
    and "fr va \<notin> pages (va + n) (unat (remain - n))"
proof -
  note c = part_cases [OF r range, folded n_def]
  have "n \<le> remain" using c(3) by (simp add: word_le_nat_alt)
  moreover have "pages va (unat n) = {fr va}"
  proof
    have "fr (va + of_nat k) = fr va" if "k < unat n" for k using that c(6) by (intro in_page) linarith
    then show "pages va (unat n) \<subseteq> {fr va}" unfolding pages_def by blast
    show "{fr va} \<subseteq> pages va (unat n)" using pagesI [OF c(4), of va] by simp
  qed
  ultimately show "pages va (unat remain) = insert (fr va) (pages (va + n) (unat (remain - n)))"
    using segment_pages [of n remain va] by simp
  show "npages va (unat remain) = Suc (npages (va + n) (unat (remain - n)))"
  proof (cases "n = remain")
    case True
    then have "(unat (off va) + unat remain + 4095) div 4096 = 1" using c(4,6) by (intro div_nat_eqI) simp_all
    then show ?thesis using True c(4) by (simp add: npages_def)
  next
    case False
    then have o: "unat (off va) + unat n = 4096" "unat (off (va + n)) = 0" using c(5) by auto
    have "unat (remain - n) \<noteq> 0" using False c(2,3) by (metis diff_is_0_eq le_antisym word_unat_eq_iff)
    then have "unat (off va) + unat remain + 4095 = unat (remain - n) + 4095 + 4096" using o c(2) by linarith
    then show ?thesis using \<open>unat (remain - n) \<noteq> 0\<close> c(2) o(2) by (simp add: npages_def)
  qed
  show "fr va \<notin> pages (va + n) (unat (remain - n))"
  proof
    assume "fr va \<in> pages (va + n) (unat (remain - n))"
    then obtain k where k: "k < unat (remain - n)" "fr va = fr (va + n + of_nat k)" by (auto simp: pages_def)
    then have "n \<noteq> remain" by auto
    then have o: "unat (off va) + unat n = 4096" using c(5) by auto
    have b: "unat va + unat n + k < 4294967296" using k(1) c(2,3) range by linarith
    then have "unat (va + n + of_nat k) = unat va + unat n + k"
      using c(1) by (simp add: unat_word_ariths unat_of_nat_u32)
    moreover have "unat va + unat n + k = unat va div 4096 * 4096 + 4096 + k"
      using o div_mult_mod_eq [of "unat va" 4096] unfolding unat_off by linarith
    ultimately have "unat (va + n + of_nat k) div 4096 \<noteq> unat va div 4096" by simp
    then show False using k(2) by (simp add: frame_iff)
  qed
qed

section \<open>Reading the file\<close>

definition file_src :: "device \<Rightarrow> drive \<Rightarrow> (nat \<Rightarrow> u8 list) \<Rightarrow> u32 \<Rightarrow> sfs_inode \<Rightarrow> loader \<Rightarrow> bool" where
  "file_src dev d0 B ino i s \<longleftrightarrow> fs_std dev d0 (pfs s) \<and> blks d0 (pfs s) = B \<and> valid_ino ino \<and> inode_at B ino = i \<and> file_ok B i"

lemma read_at_ok:
  assumes src: "file_src dev d0 B ino i s" and "unat offset + unat sz \<le> unat (i_size i)" and "unat sz \<le> length buf"
  shows "\<exists>f. read_file_at dev ino buf sz offset s =
    Inr (sint sz, store_at 0 (fbytes B i (unat offset) (unat sz)) buf, s\<lparr>pfs := f\<rparr>) \<and> file_src dev d0 B ino i (s\<lparr>pfs := f\<rparr>)"
proof -
  have s: "fs_std dev d0 (pfs s)" "blks d0 (pfs s) = B" "valid_ino ino" "inode_at B ino = i" "file_ok B i"
    using src by (simp_all add: file_src_def)
  obtain f1 where f1: "sfs_read_inode dev ino (pfs s) = (Some i, f1)" "moved d0 (pfs s) f1 B"
    by (rule read_inode_ok [OF s(1,3)]) (use s(2,4) in simp)
  have std1: "fs_std dev d0 f1" by (rule fs_std_moved [OF s(1) f1(2)])
  have b1: "blks d0 f1 = B" using f1(2) by (simp add: moved_def)
  obtain f2 where f2: "sfs_read_file dev i buf sz offset f1 = Inr (sz, store_at 0 (fbytes B i (unat offset) (unat sz)) buf, f2)"
    "moved d0 f1 f2 B"
    using read_file_bytes [OF std1, of i offset sz buf] s(5) assms(2,3) b1 by auto
  have "fs_std dev d0 f2" "blks d0 f2 = B" using fs_std_moved [OF std1 f2(2)] f2(2) by (simp_all add: moved_def)
  then show ?thesis
    using f1(1) f2(1) s by (intro exI [of _ f2]) (simp add: read_file_at_def file_src_def)
qed

section \<open>The two loops\<close>

lemma low_index: "unat va < 4290772992 \<Longrightarrow> pd_index va < 1023"
  by (simp add: word_less_nat_alt unat_pd_index less_mult_imp_div_less)

lemma read_at_part:
  assumes src: "file_src dev d0 B ino i s" and "unat offset + unat n \<le> unat (i_size i)" and "unat n \<le> 4096"
  shows "\<exists>buf f. read_file_at dev ino (replicate 4096 0) n offset s = Inr (sint n, buf, s\<lparr>pfs := f\<rparr>) \<and>
    0 \<le> sint n \<and> take (unat n) buf = fbytes B i (unat offset) (unat n) \<and> file_src dev d0 B ino i (s\<lparr>pfs := f\<rparr>)"
proof -
  have "uint n = int (unat n)" by simp
  then have "uint n < 2147483648" using assms(3) by linarith
  then have "signed_take_bit 31 (uint n) = uint n" by (intro signed_take_bit_int_eq_self) (auto intro: order.trans [of _ 0])
  then have "0 \<le> sint n" by (simp add: sint_uint)
  then show ?thesis
    using read_at_ok [OF src assms(2), of "replicate 4096 0"] assms(3) by (auto simp: store_at_def)
qed

lemma byte_split:
  assumes "\<forall>k<n. f (va + of_nat k) = g k" and "\<forall>k<r - n. f (va + of_nat n + of_nat k) = g (n + k)"
  shows "\<forall>k<r. f (va + of_nat k :: u32) = g k"
proof (intro allI impI)
  fix k
  assume "k < r"
  show "f (va + of_nat k) = g k"
  proof (cases "k < n")
    case False
    then have "f (va + of_nat n + of_nat (k - n)) = g (n + (k - n))" using \<open>k < r\<close> by (intro assms(2) [rule_format]) simp
    moreover have "(of_nat k :: u32) = of_nat n + of_nat (k - n)" using False by (simp flip: of_nat_add)
    then have "va + of_nat n + of_nat (k - n) = va + of_nat k" by (simp only: add.assoc)
    ultimately show ?thesis using False by (metis le_add_diff_inverse not_less)
  qed (use assms(1) in blast)
qed

text \<open>One round of the loop that loads the file.\<close>

lemma load_file_round:
  assumes inv: "seg_inv s0 P s" and src: "file_src dev d0 B ino i s" and sz: "unat offset + unat remain \<le> unat (i_size i)"
    and r: "0 < remain" and range: "unat va + unat remain \<le> 4290772992" and va: "fr va \<noteq> cr3 s0" "fr va \<notin> P"
    and ff: "2 \<le> length (free_frames s)"
  defines "n \<equiv> page_part va remain"
  obtains s' where "load_file dev ino va remain offset s = load_file dev ino (va + n) (remain - n) (offset + n) s'"
    and "seg_inv s0 (insert (fr va) P) s'" and "file_src dev d0 B ino i s'"
    and "\<And>k. k < unat n \<Longrightarrow> byte_at s' (va + of_nat k) = Some (fbyte B i (unat offset + k))"
    and "\<And>a. fr a \<in> P \<Longrightarrow> byte_at s' a = byte_at s a" and "length (free_frames s) \<le> length (free_frames s') + 2"
proof -
  note c = part_cases [OF r range, folded n_def]
  have p: "pd_index va < 1023" using range c(3,4) by (intro low_index) linarith
  obtain s1 where s1: "paging_alloc_page (fr va) s = Inr s1" "seg_inv s0 (insert (fr va) P) s1" "pfs s1 = pfs s"
    "\<And>a. fr a \<in> P \<Longrightarrow> byte_at s1 a = byte_at s a" "length (free_frames s) \<le> length (free_frames s1) + 2"
    by (rule seg_alloc [OF inv p va ff]) blast
  have "file_src dev d0 B ino i s1" using src s1(3) by (simp add: file_src_def)
  moreover have "unat offset + unat n \<le> unat (i_size i)" "unat n \<le> 4096" using sz c(3,6) by linarith+
  ultimately obtain buf f where rd: "read_file_at dev ino (replicate 4096 0) n offset s1 = Inr (sint n, buf, s1\<lparr>pfs := f\<rparr>)"
    "0 \<le> sint n" "take (unat n) buf = fbytes B i (unat offset) (unat n)" "file_src dev d0 B ino i (s1\<lparr>pfs := f\<rparr>)"
    using read_at_part by blast
  let ?bs = "fbytes B i (unat offset) (unat n)"
  have inv1: "seg_inv s0 (insert (fr va) P) (s1\<lparr>pfs := f\<rparr>)" using s1(2) by simp
  have len: "unat (off va) + length ?bs \<le> 4096" using c(6) by simp
  obtain s2 where s2: "vwrite va ?bs (s1\<lparr>pfs := f\<rparr>) = Inr s2" "seg_inv s0 (insert (fr va) P) s2" "pfs s2 = f"
    "free_frames s2 = free_frames s1" "\<forall>k<unat n. byte_at s2 (va + of_nat k) = Some (?bs ! k)"
    "\<forall>a. fr a \<in> insert (fr va) P \<longrightarrow> (\<forall>k<unat n. a \<noteq> va + of_nat k) \<longrightarrow> byte_at s2 a = byte_at s1 a"
    by (rule seg_write [OF inv1 _ len]) simp_all
  show thesis
  proof (rule that)
    show "load_file dev ino va remain offset s = load_file dev ino (va + n) (remain - n) (offset + n) s2"
      using r s1(1) rd(1-3) s2(1) by (subst load_file.simps) (simp add: Let_def fr_off flip: n_def)
    show "file_src dev d0 B ino i s2" using rd(4) s2(3) by (simp add: file_src_def)
    show "byte_at s2 (va + of_nat k) = Some (fbyte B i (unat offset + k))" if "k < unat n" for k
      using s2(5) that by (simp add: fbytes_def)
    show "byte_at s2 a = byte_at s a" if a: "fr a \<in> P" for a
    proof -
      have "a \<noteq> va + of_nat k" if "k < unat n" for k using a va(2) in_page [of va k] c(6) that by auto
      then show ?thesis using s2(6) s1(4) a by simp
    qed
  qed (use s2 s1(5) in simp_all)
qed

lemma load_file_ok:
  assumes "seg_inv s0 P s" and "file_src dev d0 B ino i s" and "unat offset + unat remain \<le> unat (i_size i)"
    and "unat va + unat remain \<le> 4290772992" and "\<forall>p\<in>pages va (unat remain). p \<noteq> cr3 s0 \<and> p \<notin> P"
    and "2 * npages va (unat remain) \<le> length (free_frames s)"
  shows "\<exists>s'. load_file dev ino va remain offset s = Inr (0, s') \<and> seg_inv s0 (P \<union> pages va (unat remain)) s' \<and>
    (\<forall>k<unat remain. byte_at s' (va + of_nat k) = Some (fbyte B i (unat offset + k))) \<and>
    (\<forall>a. fr a \<in> P \<longrightarrow> byte_at s' a = byte_at s a) \<and>
    length (free_frames s) \<le> length (free_frames s') + 2 * npages va (unat remain)"
  using assms
proof (induction "unat remain" arbitrary: va remain offset s P rule: less_induct)
  case less
  show ?case
  proof (cases "0 < remain")
    case False
    then have "remain = 0" by (simp add: word_gt_0)
    then show ?thesis using less.prems by (simp add: load_file.simps pages_def npages_def)
  next
    case True
    let ?n = "page_part va remain"
    note c = part_cases [OF True less.prems(4)] and pp = part_pages [OF True less.prems(4)]
    have va: "fr va \<noteq> cr3 s0" "fr va \<notin> P" and ff: "2 \<le> length (free_frames s)"
      using less.prems(5,6) pp(1,2) by auto
    obtain s2 where s2: "load_file dev ino va remain offset s = load_file dev ino (va + ?n) (remain - ?n) (offset + ?n) s2"
      "seg_inv s0 (insert (fr va) P) s2" "file_src dev d0 B ino i s2"
      "\<And>k. k < unat ?n \<Longrightarrow> byte_at s2 (va + of_nat k) = Some (fbyte B i (unat offset + k))"
      "\<And>a. fr a \<in> P \<Longrightarrow> byte_at s2 a = byte_at s a" "length (free_frames s) \<le> length (free_frames s2) + 2"
      by (rule load_file_round [OF less.prems(1-3) True less.prems(4) va ff]) blast
    have u: "unat (offset + ?n) = unat offset + unat ?n"
    proof -
      have "unat offset + unat ?n < 4294967296" using less.prems(3) c(3) unat_u32_less [of "i_size i"] by linarith
      then show ?thesis by (simp add: unat_word_ariths)
    qed
    have "\<exists>s'. load_file dev ino (va + ?n) (remain - ?n) (offset + ?n) s2 = Inr (0, s') \<and>
      seg_inv s0 (insert (fr va) P \<union> pages (va + ?n) (unat (remain - ?n))) s' \<and>
      (\<forall>k<unat (remain - ?n). byte_at s' (va + ?n + of_nat k) = Some (fbyte B i (unat (offset + ?n) + k))) \<and>
      (\<forall>a. fr a \<in> insert (fr va) P \<longrightarrow> byte_at s' a = byte_at s2 a) \<and>
      length (free_frames s2) \<le> length (free_frames s') + 2 * npages (va + ?n) (unat (remain - ?n))" (is "\<exists>s'. ?Q s'")
      by (rule less.hyps [OF _ s2(2,3)]) (use less.prems(3-6) c pp u s2(6) in auto)
    then obtain s' where s': "?Q s'" by blast
    have "byte_at s' (va + of_nat k) = Some (fbyte B i (unat offset + k))" if "k < unat ?n" for k
      using s' s2(4) that in_page [of va k] c(6) by simp
    moreover have "\<forall>k<unat remain - unat ?n. byte_at s' (va + of_nat (unat ?n) + of_nat k) = Some (fbyte B i (unat offset + (unat ?n + k)))"
      using s' c(2) u by (simp add: add.assoc)
    moreover have "insert (fr va) P \<union> pages (va + ?n) (unat (remain - ?n)) = P \<union> pages va (unat remain)" using pp(1) by blast
    ultimately show ?thesis
      using s' s2(1,5,6) pp(2) byte_split [of "unat ?n" "byte_at s'" va "\<lambda>k. Some (fbyte B i (unat offset + k))" "unat remain"]
      by (intro exI [of _ s']) simp
  qed
qed

lemma part_apart:
  assumes "k < unat filesz" and "j < unat (memsz - filesz)" and "filesz \<le> memsz"
  shows "(va :: u32) + of_nat k \<noteq> va + filesz + of_nat j"
proof -
  have "unat filesz + j < 4294967296" "k < 4294967296" "unat filesz + j \<noteq> k"
    using assms(1,2) unat_sub [OF assms(3)] unat_u32_less [of memsz] by linarith+
  then have "(of_nat k :: u32) \<noteq> of_nat (unat filesz + j)"
    using of_nat_u32_inject [of k "unat filesz + j"] by simp
  then show ?thesis by (simp add: part_later del: of_nat_add)
qed

text \<open>The bytes after the file: the page is allocated unless it is there already.\<close>

lemma page_mapped_walk:
  assumes "vm_inv s" and "pd_index va < 1023"
  shows "page_mapped va s = Inr (walk (phys s) (cr3 s) va \<noteq> None)"
proof -
  have v: "paging s" "pt_inv (phys s) (cr3 s)" using assms(1) by (simp_all add: vm_inv_def)
  have i: "drop_bit 22 va = pd_index va" "drop_bit 12 va AND 0x3FF = pt_index va" by (simp_all add: pd_index_def pt_index_def)
  have "vload32 (cr3 s + pd_index va * 4) s = Inr (pde (phys s) (cr3 s) (pd_index va))"
    using directory_mapped [OF v(2) index_bounds(1) [of va]] vload32_walk [OF v(1)] by (simp add: pde_def)
  moreover have "vload32 (0xFFC00000 + pd_index va * 4096 + pt_index va * 4) s =
      Inr (load32 (phys s) (entry (pde (phys s) (cr3 s) (pd_index va)) (pt_index va)))"
    if "present (pde (phys s) (cr3 s) (pd_index va))"
    using vload32_walk [OF v(1) self_map [OF v(2) assms(2) index_bounds(2) that]] .
  ultimately show ?thesis
    unfolding page_mapped_def i by (auto simp: Let_def walk_def present_def)
qed

lemma ensure_page:
  fixes s :: loader
  assumes inv: "seg_inv s0 P s" and p: "pd_index va < 1023" and c: "fr va \<noteq> cr3 s0"
    and un: "fr va \<in> P \<or> walk (phys s0) (cr3 s0) va = None" and ff: "2 \<le> length (free_frames s)"
  obtains s' where "bind_res (page_mapped va s) (\<lambda>b. bind_res (if b then Inr s else paging_alloc_page (fr va) s) g) = g s'"
    and "seg_inv s0 (insert (fr va) P) s'" and "\<And>a. fr a \<in> P \<Longrightarrow> byte_at s' a = byte_at s a"
    and "length (free_frames s) \<le> length (free_frames s') + 2"
proof (cases "fr va \<in> P")
  case True
  then have "insert (fr va) P = P" by blast
  moreover have "walk (phys s) (cr3 s) va \<noteq> None" using seg_invD(8) [OF inv True] by auto
  ultimately show ?thesis
    using that [of s] inv page_mapped_walk [OF seg_invD(1) [OF inv] p] by simp
next
  case False
  then have "walk (phys s) (cr3 s) va = None" using un seg_invD(6) [OF inv p] by simp
  then have m: "page_mapped va s = Inr False" using page_mapped_walk [OF seg_invD(1) [OF inv] p] by simp
  obtain s1 where "paging_alloc_page (fr va) s = Inr s1" "seg_inv s0 (insert (fr va) P) s1"
    "\<And>a. fr a \<in> P \<Longrightarrow> byte_at s1 a = byte_at s a" "length (free_frames s) \<le> length (free_frames s1) + 2"
    by (rule seg_alloc [OF inv p c False ff]) blast
  then show ?thesis using that [of s1] m by simp
qed

lemma zero_bss_round:
  assumes inv: "seg_inv s0 P s" and r: "0 < remain" and range: "unat va + unat remain \<le> 4290772992"
    and va: "fr va \<noteq> cr3 s0" "fr va \<in> P \<or> walk (phys s0) (cr3 s0) va = None" and ff: "2 \<le> length (free_frames s)"
  defines "n \<equiv> page_part va remain"
  obtains s' where "zero_bss va remain s = zero_bss (va + n) (remain - n) s'" and "seg_inv s0 (insert (fr va) P) s'"
    and "\<And>k. k < unat n \<Longrightarrow> byte_at s' (va + of_nat k) = Some 0"
    and "\<And>a. fr a \<in> P \<Longrightarrow> \<forall>k<unat n. a \<noteq> va + of_nat k \<Longrightarrow> byte_at s' a = byte_at s a"
    and "length (free_frames s) \<le> length (free_frames s') + 2"
proof -
  note c = part_cases [OF r range, folded n_def]
  have p: "pd_index va < 1023" using range c(3,4) by (intro low_index) linarith
  let ?g = "\<lambda>s. bind_res (vwrite va (replicate (unat n) 0) s) (zero_bss (va + n) (remain - n))"
  obtain s1 where s1: "bind_res (page_mapped va s) (\<lambda>b. bind_res (if b then Inr s else paging_alloc_page (fr va) s) ?g) = ?g s1"
    "seg_inv s0 (insert (fr va) P) s1" "\<And>a. fr a \<in> P \<Longrightarrow> byte_at s1 a = byte_at s a"
    "length (free_frames s) \<le> length (free_frames s1) + 2"
    by (rule ensure_page [OF inv p va ff, where g = ?g]) blast
  have len: "unat (off va) + length (replicate (unat n) (0 :: u8)) \<le> 4096" using c(6) by simp
  obtain s2 where s2: "vwrite va (replicate (unat n) 0) s1 = Inr s2" "seg_inv s0 (insert (fr va) P) s2"
    "free_frames s2 = free_frames s1" "\<forall>k<unat n. byte_at s2 (va + of_nat k) = Some (replicate (unat n) 0 ! k)"
    "\<forall>a. fr a \<in> insert (fr va) P \<longrightarrow> (\<forall>k<unat n. a \<noteq> va + of_nat k) \<longrightarrow> byte_at s2 a = byte_at s1 a"
    by (rule seg_write [OF s1(2) _ len]) simp_all
  have "zero_bss va remain s = zero_bss (va + n) (remain - n) s2"
    using r s1(1) s2(1) by (subst zero_bss.simps) (simp add: Let_def fr_off flip: n_def)
  then show thesis using that [of s2] s1 s2 by simp
qed

lemma weaken_page: "fr a \<noteq> c \<and> (fr a \<in> P \<or> w = None) \<Longrightarrow> fr a \<noteq> c \<and> (fr a \<in> insert x P \<or> w = None)"
  by blast

lemma zero_bss_ok:
  assumes "seg_inv s0 P s" and "unat va + unat remain \<le> 4290772992"
    and "\<forall>k<unat remain. fr (va + of_nat k) \<noteq> cr3 s0 \<and> (fr (va + of_nat k) \<in> P \<or> walk (phys s0) (cr3 s0) (va + of_nat k) = None)"
    and "2 * npages va (unat remain) \<le> length (free_frames s)"
  shows "\<exists>s'. zero_bss va remain s = Inr s' \<and> seg_inv s0 (P \<union> pages va (unat remain)) s' \<and>
    (\<forall>k<unat remain. byte_at s' (va + of_nat k) = Some 0) \<and>
    (\<forall>a. fr a \<in> P \<longrightarrow> (\<forall>k<unat remain. a \<noteq> va + of_nat k) \<longrightarrow> byte_at s' a = byte_at s a)"
  using assms
proof (induction "unat remain" arbitrary: va remain s P rule: less_induct)
  case less
  show ?case
  proof (cases "0 < remain")
    case False
    then have "remain = 0" by (simp add: word_gt_0)
    then show ?thesis using less.prems by (simp add: zero_bss.simps pages_def)
  next
    case True
    let ?n = "page_part va remain"
    note c = part_cases [OF True less.prems(2)] and pp = part_pages [OF True less.prems(2)]
    have r: "0 < unat remain" using c(3,4) by linarith
    have va: "fr va \<noteq> cr3 s0" "fr va \<in> P \<or> walk (phys s0) (cr3 s0) va = None" and ff: "2 \<le> length (free_frames s)"
      using less.prems(3) [rule_format, OF r] less.prems(4) pp(2) by auto
    obtain s2 where s2: "zero_bss va remain s = zero_bss (va + ?n) (remain - ?n) s2" "seg_inv s0 (insert (fr va) P) s2"
      "\<And>k. k < unat ?n \<Longrightarrow> byte_at s2 (va + of_nat k) = Some 0"
      "\<And>a. fr a \<in> P \<Longrightarrow> \<forall>k<unat ?n. a \<noteq> va + of_nat k \<Longrightarrow> byte_at s2 a = byte_at s a"
      "length (free_frames s) \<le> length (free_frames s2) + 2"
      by (rule zero_bss_round [OF less.prems(1) True less.prems(2) va ff]) blast
    have lt: "unat ?n + k < unat remain" if "k < unat (remain - ?n)" for k using that c(2,3) by linarith
    have "\<exists>s'. zero_bss (va + ?n) (remain - ?n) s2 = Inr s' \<and> seg_inv s0 (insert (fr va) P \<union> pages (va + ?n) (unat (remain - ?n))) s' \<and>
      (\<forall>k<unat (remain - ?n). byte_at s' (va + ?n + of_nat k) = Some 0) \<and>
      (\<forall>a. fr a \<in> insert (fr va) P \<longrightarrow> (\<forall>k<unat (remain - ?n). a \<noteq> va + ?n + of_nat k) \<longrightarrow> byte_at s' a = byte_at s2 a)" (is "\<exists>s'. ?Q s'")
    proof (rule less.hyps [OF _ s2(2)])
      show "\<forall>k<unat (remain - ?n). fr (va + ?n + of_nat k) \<noteq> cr3 s0 \<and>
          (fr (va + ?n + of_nat k) \<in> insert (fr va) P \<or> walk (phys s0) (cr3 s0) (va + ?n + of_nat k) = None)"
        unfolding part_later by (intro allI impI weaken_page less.prems(3) [rule_format] lt)
    qed (use c less.prems(2,4) pp(2) s2(5) in linarith)+
    then obtain s' where s': "?Q s'" by blast
    have out: "va + of_nat k \<noteq> va + ?n + of_nat j" if "k < unat ?n" "j < unat (remain - ?n)" for k j
      using part_apart [OF that] c(3) unfolding word_le_nat_alt by blast
    have "byte_at s' (va + of_nat k) = Some 0" if "k < unat ?n" for k
      using s' s2(3) that in_page [of va k] c(6) out by simp
    moreover have "\<forall>k<unat remain - unat ?n. byte_at s' (va + of_nat (unat ?n) + of_nat k) = Some 0" using s' c(2) by simp
    moreover have "insert (fr va) P \<union> pages (va + ?n) (unat (remain - ?n)) = P \<union> pages va (unat remain)" using pp(1) by blast
    moreover have "byte_at s' a = byte_at s a" if "fr a \<in> P" "\<forall>k<unat remain. a \<noteq> va + of_nat k" for a
    proof -
      have "\<forall>k<unat ?n. a \<noteq> va + of_nat k" using that(2) c(3) by simp
      moreover have "\<forall>k<unat (remain - ?n). a \<noteq> va + ?n + of_nat k" unfolding part_later using that(2) lt by blast
      ultimately show ?thesis using s' s2(4) that(1) by simp
    qed
    ultimately show ?thesis
      using s' s2(1) byte_split [of "unat ?n" "byte_at s'" va "\<lambda>k. Some 0" "unat remain"] by (intro exI [of _ s']) simp
  qed
qed

section \<open>The property\<close>

lemma load_segment_ok:
  assumes inv: "vm_inv s" and src: "file_src dev d0 B ino i s" and io: "unat offset + unat filesz \<le> unat (i_size i)" "filesz \<le> memsz"
    and range: "unat va + unat memsz \<le> 4290772992"
    and un: "\<And>k. k < unat memsz \<Longrightarrow> fr (va + of_nat k) \<noteq> cr3 s \<and> walk (phys s) (cr3 s) (va + of_nat k) = None"
    and ff: "2 * (npages va (unat filesz) + npages (va + filesz) (unat (memsz - filesz))) \<le> length (free_frames s)"
  obtains s' where "load_segment dev ino va offset filesz memsz s = Inr (0, s')" and "seg_inv s (pages va (unat memsz)) s'"
    and "\<And>k. k < unat filesz \<Longrightarrow> byte_at s' (va + of_nat k) = Some (fbyte B i (unat offset + k))"
    and "\<And>k. k < unat (memsz - filesz) \<Longrightarrow> byte_at s' (va + filesz + of_nat k) = Some 0"
proof -
  have sz: "unat (memsz - filesz) = unat memsz - unat filesz" "unat filesz \<le> unat memsz"
    using io(2) by (simp_all add: unat_sub word_le_nat_alt)
  have r1: "unat va + unat filesz \<le> 4290772992" using range sz(2) by linarith
  have p1: "\<forall>p\<in>pages va (unat filesz). p \<noteq> cr3 s \<and> p \<notin> {}" using un sz(2) by (auto simp: pages_def)
  obtain s1 where s1: "load_file dev ino va filesz offset s = Inr (0, s1)" "seg_inv s (pages va (unat filesz)) s1"
    "\<forall>k<unat filesz. byte_at s1 (va + of_nat k) = Some (fbyte B i (unat offset + k))"
    "length (free_frames s) \<le> length (free_frames s1) + 2 * npages va (unat filesz)"
    using load_file_ok [OF seg_inv_start [OF inv] src io(1) r1 p1] ff by auto
  have uv: "unat (va + filesz) = unat va + unat filesz" using r1 by (simp add: unat_word_ariths)
  have r2: "unat (va + filesz) + unat (memsz - filesz) \<le> 4290772992" using range sz uv by linarith
  have lt: "unat filesz + k < unat memsz" if "k < unat (memsz - filesz)" for k using that sz by linarith
  have p2: "\<forall>k<unat (memsz - filesz). fr (va + filesz + of_nat k) \<noteq> cr3 s \<and>
      (fr (va + filesz + of_nat k) \<in> pages va (unat filesz) \<or> walk (phys s) (cr3 s) (va + filesz + of_nat k) = None)"
    unfolding part_later by (intro allI impI conjI disjI2 un [THEN conjunct1] un [THEN conjunct2] lt)
  have f2: "2 * npages (va + filesz) (unat (memsz - filesz)) \<le> length (free_frames s1)"
    using order.trans [OF ff s1(4)] by (simp only: add_mult_distrib2 add.commute add_le_cancel_right)
  obtain s2 where s2: "zero_bss (va + filesz) (memsz - filesz) s1 = Inr s2" "seg_inv s (pages va (unat memsz)) s2"
    "\<forall>k<unat (memsz - filesz). byte_at s2 (va + filesz + of_nat k) = Some 0"
    "\<forall>a. fr a \<in> pages va (unat filesz) \<longrightarrow> (\<forall>k<unat (memsz - filesz). a \<noteq> va + filesz + of_nat k) \<longrightarrow> byte_at s2 a = byte_at s1 a"
    using zero_bss_ok [OF s1(2) r2 p2 f2] segment_pages [OF io(2), of va] by auto
  show thesis
  proof (rule that [OF _ s2(2)])
    show "load_segment dev ino va offset filesz memsz s = Inr (0, s2)" using s1(1) s2(1) by (simp add: load_segment_def)
    fix k
    assume k: "k < unat filesz"
    then have "fr (va + of_nat k) \<in> pages va (unat filesz)" by (rule pagesI)
    then show "byte_at s2 (va + of_nat k) = Some (fbyte B i (unat offset + k))"
      using s2(4) s1(3) k part_apart [OF k _ io(2)] by simp
  qed (use s2(3) in blast)
qed

text \<open>
  C8. \<open>load_segment\<close> puts a segment into memory. For a segment below the window of the page tables whose bytes lie within
  the file, whose pages are not mapped yet and for which there are enough free frames, it succeeds; afterwards the
  \<open>filesz\<close> first bytes at the segment's address are the bytes of the file from the segment's offset, the bytes up to
  \<open>memsz\<close> are zero, the page tables are in order, no address outside the segment's pages translates differently and no
  memory but page tables and frames that were free has changed.
\<close>

theorem load_segment_contents:
  assumes "vm_inv s" and "file_src dev d0 B ino i s" and "unat offset + unat filesz \<le> unat (i_size i)" and "filesz \<le> memsz"
    and "unat va + unat memsz \<le> 4290772992"
    and "\<forall>k<unat memsz. fr (va + of_nat k) \<noteq> cr3 s \<and> translate s (va + of_nat k) = None"
    and "2 * (npages va (unat filesz) + npages (va + filesz) (unat (memsz - filesz))) \<le> length (free_frames s)"
  shows "\<exists>s'. load_segment dev ino va offset filesz memsz s = Inr (0, s') \<and> vm_inv s' \<and>
    (\<forall>k<unat memsz. byte_at s' (va + of_nat k) = Some (if k < unat filesz then fbyte B i (unat offset + k) else 0)) \<and>
    (\<forall>a. pd_index a < 1023 \<longrightarrow> fr a \<notin> pages va (unat memsz) \<longrightarrow> translate s' a = translate s a) \<and>
    (\<forall>x. fr x \<notin> tables (phys s) (cr3 s) \<longrightarrow> fr x \<notin> set (free_frames s) \<longrightarrow> phys s' x = phys s x)"
proof -
  have pg: "paging s" using assms(1) by (simp add: vm_inv_def)
  have un: "fr (va + of_nat k) \<noteq> cr3 s \<and> walk (phys s) (cr3 s) (va + of_nat k) = None" if "k < unat memsz" for k
    using assms(6) that translate_walk [OF pg] by auto
  obtain s2 where s2: "load_segment dev ino va offset filesz memsz s = Inr (0, s2)" "seg_inv s (pages va (unat memsz)) s2"
    "\<And>k. k < unat filesz \<Longrightarrow> byte_at s2 (va + of_nat k) = Some (fbyte B i (unat offset + k))"
    "\<And>k. k < unat (memsz - filesz) \<Longrightarrow> byte_at s2 (va + filesz + of_nat k) = Some 0"
    by (rule load_segment_ok [OF assms(1-5) un assms(7)]) blast+
  note I = seg_invD [OF s2(2)]
  let ?g = "\<lambda>k. Some (if k < unat filesz then fbyte B i (unat offset + k) else 0)"
  have "unat (memsz - filesz) = unat memsz - unat filesz" using assms(4) by (simp add: unat_sub)
  then have hi: "\<forall>k<unat memsz - unat filesz. byte_at s2 (va + of_nat (unat filesz) + of_nat k) = ?g (unat filesz + k)"
    using s2(4) by simp
  have lo: "\<forall>k<unat filesz. byte_at s2 (va + of_nat k) = ?g k" using s2(3) by simp
  have "\<forall>k<unat memsz. byte_at s2 (va + of_nat k) = ?g k" by (rule byte_split [OF lo hi])
  moreover have "translate s2 a = translate s a" if "pd_index a < 1023" "fr a \<notin> pages va (unat memsz)" for a
    using I(1,6) that translate_walk [OF pg] translate_walk [of s2 a] by (simp add: vm_inv_def)
  ultimately show ?thesis using s2(1) I(1,5) by blast
qed

text \<open>A disk with one file of three bytes in block 5.\<close>

definition prog_drive :: drive where
  "prog_drive = blank_drive\<lparr>medium := (\<lambda>i. if i = 4096 then 0x3F else if i = 6205 then 3 else if i = 6207 then 3
     else if i = 6209 then 0x0101 else if i = 6211 then 0x0500 else if i = 10240 then 0xBBAA else if i = 10241 then 0x00CC else 0)\<rparr>"

definition prog_loader :: loader where
  "prog_loader = \<lparr>phys = demo_tables, cr3 = 0x1000, paging = True, page_frames = [0x3000, 0x4000, 0x5000, 0x6000, 0x7000, 0x8000],
     page_frame_count = 6, serial_log = [], pfs = demo_fs\<rparr>"

lemma word_bytes_nth: "k < 2 * length ws \<Longrightarrow> word_bytes ws ! k = (if even k then ucast (ws ! (k div 2)) else ucast (drop_bit 8 (ws ! (k div 2))))"
proof (induction ws arbitrary: k rule: word_bytes.induct)
  case (2 w ws)
  consider "k = 0" | "k = 1" | j where "k = Suc (Suc j)" by (metis One_nat_def not0_implies_Suc)
  then show ?case using "2.IH" "2.prems" by cases auto
qed simp

lemmas prog_medium = arg_cong [OF prog_drive_def, of "\<lambda>d. medium d i" for i, simplified drive.simps]

lemma prog_block: "k < 4096 \<Longrightarrow> blks prog_drive demo_fs n ! k =
  (let w = medium prog_drive (2048 * n + k div 2) in if even k then ucast w else ucast (drop_bit 8 w))"
  by (simp add: blks_def disk_blk_def drive_block_def drive_of_def drive_run_def demo_fs_def word_bytes_nth Let_def less_mult_imp_div_less)

lemma prog_block_length: "length (blks prog_drive demo_fs n) = 4096"
  by (simp add: blks_def disk_blk_def drive_block_def)

lemma prog_inode: "inode_at (blks prog_drive demo_fs) 3 =
  \<lparr>i_ino = 3, i_size = 3, i_type = 1, block_count = 1, i_blocks = [5, 0, 0, 0, 0, 0, 0, 0, 0, 0, 0, 0]\<rparr>"
  by (simp add: inode_at_def bytes_inode_def field_at_def inode_offset_def get32_def prog_block prog_block_length Let_def prog_medium
      sizeof_sfs_inode_def INODES_PER_BLOCK_def FS_BLOCK_SIZE_def SFS_DIRECT_BLOCKS_def upt_rec)

lemma prog_src: "file_src (drive_device prog_drive) prog_drive (blks prog_drive demo_fs) 3 (inode_at (blks prog_drive demo_fs) 3) prog_loader"
proof -
  have b: "blks prog_drive demo_fs 2 ! 0 = 0x3F" by (simp add: prog_block Let_def prog_medium)
  have "bitmap_bit (blks prog_drive demo_fs 2) j" if "j < 6" for j
  proof -
    have "j \<in> {0, 1, 2, 3, 4, 5}" using that by auto
    then show ?thesis by (auto simp: bitmap_bit_def b)
  qed
  then have "file_ok (blks prog_drive demo_fs) (inode_at (blks prog_drive demo_fs) 3)"
    by (simp add: file_ok_def prog_inode)
  then show ?thesis
    by (simp add: file_src_def fs_std_def drive_device_follows demo_fs_def MAX_FILES_def valid_ino_def prog_loader_def)
qed

lemma prog_vm: "vm_inv prog_loader"
proof -
  have "pt_inv demo_tables 0x1000" using demo_vm by (simp add: vm_inv_def demo_machine_def)
  then show ?thesis
    by (auto simp: vm_inv_def prog_loader_def free_frames_def tables_def demo_pde below_1023 present_def split: if_splits)
qed

theorem load_segment_contents_witness:
  "\<exists>s'. load_segment (drive_device prog_drive) 3 0x400FFE 0 3 5 prog_loader = Inr (0, s') \<and> vm_inv s' \<and>
     map (\<lambda>k. byte_at s' (0x400FFE + of_nat k)) [0..<5] = [Some 0xAA, Some 0xBB, Some 0xCC, Some 0, Some 0]"
proof -
  have un: "\<forall>k<unat (5 :: u32). fr (0x400FFE + of_nat k) \<noteq> cr3 prog_loader \<and> translate prog_loader (0x400FFE + of_nat k) = None"
  proof (intro allI impI)
    fix k
    assume "k < unat (5 :: u32)"
    then consider "k = 0" | "k = 1" | "k = 2" | "k = 3" | "k = 4" by fastforce
    then show "fr (0x400FFE + of_nat k) \<noteq> cr3 prog_loader \<and> translate prog_loader (0x400FFE + of_nat k) = None"
      by cases (simp_all add: translate_walk prog_loader_def walk_def demo_pde present_def pd_index_def)
  qed
  let ?b = "fbyte (blks prog_drive demo_fs) (inode_at (blks prog_drive demo_fs) 3)"
  have f: "map (\<lambda>k. Some (if k < 3 then ?b k else 0)) [0..<5] = [Some 0xAA, Some 0xBB, Some 0xCC, Some 0, Some 0]"
    by (simp add: upt_rec fbyte_def prog_inode prog_block Let_def prog_medium)
  have "\<exists>s'. load_segment (drive_device prog_drive) 3 0x400FFE 0 3 5 prog_loader = Inr (0, s') \<and> vm_inv s' \<and>
    (\<forall>k<unat (5 :: u32). byte_at s' (0x400FFE + of_nat k) = Some (if k < unat (3 :: u32) then ?b (unat (0 :: u32) + k) else 0))"
    using load_segment_contents [OF prog_vm prog_src _ _ _ un, where offset = 0 and filesz = 3]
    by (auto simp: prog_inode npages_def free_frames_def prog_loader_def)
  then obtain s' where s': "load_segment (drive_device prog_drive) 3 0x400FFE 0 3 5 prog_loader = Inr (0, s')" "vm_inv s'"
    "\<forall>k<unat (5 :: u32). byte_at s' (0x400FFE + of_nat k) = Some (if k < unat (3 :: u32) then ?b (unat (0 :: u32) + k) else 0)"
    by blast
  have "map (\<lambda>k. byte_at s' (0x400FFE + of_nat k)) [0..<5] = map (\<lambda>k. Some (if k < 3 then ?b k else 0)) [0..<5]"
    using s'(3) by (intro map_cong refl) simp
  from trans [OF this f] show ?thesis by (intro exI [of _ s'] conjI s'(1,2))
qed

end
