(* ===== verification/Spec2Isabelle.thy ===== *)
theory Spec2Isabelle
  imports Sros_Heap_Props Sros_Keyboard Sros_Ipc_Props Sros_Sfs_Format Sros_Vga Sros_Pci Sros_Tables Sros_Window_Props Sros_Shell_Props Sros_Sound Sros_Rtl8139 Sros_Vm Sros_Elf_Props
begin

text \<open>
  \<^bold>\<open>A verification of the SROS kernel.\<close> SROS is a 32-bit x86 teaching kernel in C: a boundary-tag heap, paging, a
  round-robin scheduler with processes, semaphores and message queues, an ATA driver with a small file system, PS/2,
  serial, PCI, sound and network drivers, a VBE framebuffer with a window manager, an ELF loader and a shell. The
  theories translate these parts function by function and prove what makes them correct; each theory opens with what it
  holds, and the properties carry numbers C1 to C40.

  \<^bold>\<open>Conventions.\<close> A C struct with its static variables is a record; \<open>u8\<close>, \<open>u16\<close>, \<open>u32\<close> are words, so arithmetic
  wraps as on the machine; \<open>int\<close> values that stay small are \<open>int\<close>. A function that changes state takes and returns the
  record. \<open>kres\<close> is an error or a value: a panic, a page fault, an access beyond an array (\<open>Overrun\<close>) and a halt are
  errors. Loops are structural or have a measure; loops that can run for ever, because they wait for a device or follow
  pointers in memory, are partial functions into \<open>option\<close>, where \<open>None\<close> is not returning, and the properties state that
  they return. Polling loops have the bounds of the source: 29999999 polls of the disk, 10000 of the PS/2 controller, 100000
  of the sound chip, 1000 and 5000 of the network chip.

  Devices are parameters. A \<open>device\<close> answers a port read from the port traffic before it (\<open>Sros_Io\<close>), every driver keeps
  its own traffic, and what a proof needs of a device is a named hypothesis with an instance in the witness: a drive that
  follows the ATA commands, a PCI configuration space that answers from a table, a network controller that fills the ring.
  Output on the serial line is a log of the \<open>serial_printf\<close> calls, whose bytes are the subject of \<open>Sros_Serial\<close>.

  \<^bold>\<open>The parts and their theories.\<close>

  \<^item> Shared: \<open>Sros_Prelude\<close> (words, lists), \<open>Sros_Memory\<close> (32-bit accesses to byte memory), \<open>Sros_Ring\<close> (ring buffers as
    lists), \<open>Sros_Machine\<close> (results, address translation, memory through the page tables).
  \<^item> Heap (\<open>kernel/kmalloc.c\<close>): \<open>Sros_Kmalloc\<close> translates it over memory; \<open>Sros_Heap\<close> gives the abstract block list and
    \<open>Sros_Allocator\<close> the interface \<open>allocator\<close> that clients use; \<open>Sros_Heap_Props\<close> proves first fit with splitting and
    merging, the safety of live allocations over every history of calls, and that nothing leaks.
  \<^item> Paging (\<open>kernel/paging.c\<close>): \<open>Sros_Paging\<close> translates the frame stack, the tables and the cloning of address spaces;
    \<open>Sros_Vm\<close> proves what mapping a page does to translation, through the self-map of the directory.
  \<^item> Processes (\<open>kernel/scheduler.c\<close>): \<open>Sros_Taskq\<close> (linked queues through the task table), \<open>Sros_Scheduler\<close>,
    \<open>Sros_Sched_Inv\<close> and \<open>Sros_Sched_Props\<close>: the invariant over all reachable states, that a ready task runs, fork, exit
    and wait.
  \<^item> Semaphores and message queues (\<open>kernel/ipc.c\<close>): \<open>Sros_Ipc\<close>, \<open>Sros_Ipc_Inv\<close>, \<open>Sros_Ipc_Sem\<close>, \<open>Sros_Ipc_Mq\<close>,
    \<open>Sros_Ipc_Step\<close>, \<open>Sros_Ipc_Props\<close>: a step relation over interleaved calls and ticks, conservation, order and
    refinement of abstract semaphores and queues.
  \<^item> Disk and files (\<open>drivers/ata.c\<close>, \<open>fs/ramdisk.c\<close>, \<open>fs/sfs.c\<close>): \<open>Sros_Ata\<close> with a model of the drive,
    \<open>Sros_Sfs\<close> over the packed on-disk layout, \<open>Sros_Sfs_Disk\<close>, \<open>Sros_Sfs_File\<close>, \<open>Sros_Sfs_Dir\<close>, \<open>Sros_Sfs_Format\<close>: blocks
    read back, files read back what was written and do not share blocks, directories find what was created.
  \<^item> Input and output (\<open>drivers/serial.c\<close>, \<open>mouse.c\<close>, \<open>keyboard.c\<close>, \<open>vga.c\<close>, \<open>pci.c\<close>, \<open>sound.c\<close>, \<open>rtl8139.c\<close>): \<open>Sros_Serial\<close>,
    \<open>Sros_Mouse\<close>, \<open>Sros_Keyboard\<close>, \<open>Sros_Vga\<close>, \<open>Sros_Pci\<close>, \<open>Sros_Sound\<close>, \<open>Sros_Rtl8139\<close>.
  \<^item> Graphics (\<open>drivers/framebuffer.c\<close>, \<open>cursor.c\<close>, \<open>window.c\<close>, \<open>include/vgafont.h\<close>): \<open>Sros_Font\<close>, \<open>Sros_Fmt\<close> (the shared
    formatting loop), \<open>Sros_Fb\<close>, \<open>Sros_Cursor\<close>, \<open>Sros_Window\<close> with \<open>Sros_Window_List\<close>, \<open>_Inv\<close>, \<open>_Draw\<close>, \<open>_Run\<close>, \<open>_Shows\<close>
    and \<open>_Props\<close>. Pixels and window buffers are a word store, window structs a store indexed by their heap address.
  \<^item> Tables (\<open>kernel/gdt.c\<close>, \<open>idt.c\<close>, \<open>irq.c\<close>): \<open>Sros_Tables\<close>, with the meaning of the descriptors.
  \<^item> Programs: \<open>Sros_String\<close> (\<open>kernel/string.c\<close>), \<open>Sros_Elf\<close> (\<open>kernel/elf_loader.c\<close>, \<open>include/elf.h\<close>) with
    \<open>Sros_Elf_Props\<close> (what a loaded segment holds, from the invariants of paging and of the file system), \<open>Sros_Shell\<close> and
    \<open>Sros_Shell_Edit\<close> (\<open>user/shell.c\<close>, over a parameter that answers the system calls), \<open>Sros_Shell_Parse\<close> and
    \<open>Sros_Shell_Props\<close>.

  \<^bold>\<open>Not modelled.\<close> The assembly of \<open>boot/\<close> and inline assembly beyond its effect on the modelled state; the TLB; the
  dispatch of interrupts and system calls to the modelled functions (\<open>isr_handler\<close>, \<open>irq_handler\<close>,
  \<open>kernel/syscall.c\<close>); the start-up sequence (\<open>kernel/kernel.c\<close>) and the sample program \<open>user/hello.c\<close>, which only call
  modelled functions in a row; interleaving of drivers on one port trace.
\<close>

end
